(* ===== verification/Py_Prelude.thy ===== *)
theory Py_Prelude
  imports Main "HOL-Library.Monad_Syntax" "HOL-Library.Char_ord" "HOL-Library.List_Lexorder"
begin

section \<open>Prelude: the Python values and string operations the components share\<close>

text \<open>
  The program passes evidence around as nested Python dictionaries decoded from JSON.  The
  datatype \<open>json\<close> holds such a value.  An operation that can raise an exception nobody in the
  modelled code catches (an \<open>AttributeError\<close> from \<open>.get\<close> on a non-dictionary, a \<open>TypeError\<close>)
  returns \<open>'a option\<close>, with \<open>None\<close> for the exception; \<open>do\<close>-notation sequences such calls.
  Exceptions the code catches or documents are values of a sum type in the component that
  raises them.

  Strings are lists of code points 0 to 255 (Latin-1): every character predicate below is
  Python's on that range, which covers all device output the program handles.
\<close>

subsection \<open>Collections of rewrite rules\<close>

named_theorems py_simps \<open>defining equations of the Python value operations\<close>

subsection \<open>Characters and strings\<close>

definition py_isspace :: "char \<Rightarrow> bool" where
  "py_isspace c \<longleftrightarrow> (let n = of_char c :: nat in
     (9 \<le> n \<and> n \<le> 13) \<or> (28 \<le> n \<and> n \<le> 32) \<or> n = 133 \<or> n = 160)"

definition py_isalpha :: "char \<Rightarrow> bool" where
  "py_isalpha c \<longleftrightarrow> (let n = of_char c :: nat in
     (65 \<le> n \<and> n \<le> 90) \<or> (97 \<le> n \<and> n \<le> 122) \<or> n = 170 \<or> n = 181 \<or> n = 186 \<or>
     (192 \<le> n \<and> n \<le> 214) \<or> (216 \<le> n \<and> n \<le> 246) \<or> 248 \<le> n)"

definition py_lower_char :: "char \<Rightarrow> char" where
  "py_lower_char c = (let n = of_char c :: nat in
     if (65 \<le> n \<and> n \<le> 90) \<or> (192 \<le> n \<and> n \<le> 222 \<and> n \<noteq> 215) then char_of (n + 32) else c)"

definition py_lower :: "string \<Rightarrow> string" where
  "py_lower = map py_lower_char"

definition py_lstrip :: "string \<Rightarrow> string" where
  "py_lstrip s = dropWhile py_isspace s"

definition py_strip :: "string \<Rightarrow> string" where
  "py_strip s = rev (dropWhile py_isspace (rev (dropWhile py_isspace s)))"

fun starts_with :: "string \<Rightarrow> string \<Rightarrow> bool" where
  "starts_with [] s = True"
| "starts_with (p # ps) [] = False"
| "starts_with (p # ps) (c # cs) = (p = c \<and> starts_with ps cs)"

fun py_join :: "string \<Rightarrow> string list \<Rightarrow> string" where
  "py_join sep [] = []"
| "py_join sep [s] = s"
| "py_join sep (s # t # ss) = s @ sep @ py_join sep (t # ss)"

text \<open>Decimal printing: \<open>str\<close> of a natural number and of an integer.\<close>

definition digit_char :: "nat \<Rightarrow> char" where
  "digit_char n = char_of (48 + n)"

fun show_nat :: "nat \<Rightarrow> string" where
  "show_nat n = (if n < 10 then [digit_char n] else show_nat (n div 10) @ [digit_char (n mod 10)])"

declare show_nat.simps [simp del]

definition show_int :: "int \<Rightarrow> string" where
  "show_int i = (if i < 0 then ''-'' @ show_nat (nat (- i)) else show_nat (nat i))"

text \<open>\<open>repr\<close> of a string: single quotes unless the text has one and no double quote.\<close>

definition hex_char :: "nat \<Rightarrow> char" where
  "hex_char n = (if n < 10 then char_of (48 + n) else char_of (87 + n))"

definition repr_char :: "char \<Rightarrow> char \<Rightarrow> string" where
  "repr_char q c = (let n = of_char c :: nat in
     if c = q \<or> n = 92 then [char_of (92 :: nat), c]
     else if n = 9 then [char_of (92 :: nat), CHR ''t'']
     else if n = 10 then [char_of (92 :: nat), CHR ''n'']
     else if n = 13 then [char_of (92 :: nat), CHR ''r'']
     else if n < 32 \<or> (127 \<le> n \<and> n \<le> 160) \<or> n = 173
       then [char_of (92 :: nat), CHR ''x'', hex_char (n div 16), hex_char (n mod 16)]
     else [c])"

definition repr_str :: "string \<Rightarrow> string" where
  "repr_str s = (let sq = char_of (39 :: nat); dq = char_of (34 :: nat);
                     q = (if sq \<in> set s \<and> dq \<notin> set s then dq else sq)
                 in q # concat (map (repr_char q) s) @ [q])"

subsection \<open>Dynamically typed values\<close>

datatype json =
    JNull
  | JBool bool
  | JInt int
  | JStr string
  | JList "json list"
  | JDict "(string \<times> json) list"

type_synonym dict = "(string \<times> json) list"

fun truthy :: "json \<Rightarrow> bool" where
  "truthy JNull = False"
| "truthy (JBool b) = b"
| "truthy (JInt i) = (i \<noteq> 0)"
| "truthy (JStr s) = (s \<noteq> [])"
| "truthy (JList xs) = (xs \<noteq> [])"
| "truthy (JDict d) = (d \<noteq> [])"

text \<open>\<open>x or y\<close> on values.\<close>

definition py_or :: "json \<Rightarrow> json \<Rightarrow> json" where
  "py_or x y = (if truthy x then x else y)"

fun py_repr :: "json \<Rightarrow> string"
  and repr_list :: "json list \<Rightarrow> string list"
  and repr_items :: "(string \<times> json) list \<Rightarrow> string list"
where
  "py_repr JNull = ''None''"
| "py_repr (JBool b) = (if b then ''True'' else ''False'')"
| "py_repr (JInt i) = show_int i"
| "py_repr (JStr s) = repr_str s"
| "py_repr (JList xs) = ''['' @ py_join '', '' (repr_list xs) @ '']''"
| "py_repr (JDict d) = ''{'' @ py_join '', '' (repr_items d) @ ''}''"
| "repr_list [] = []"
| "repr_list (x # xs) = py_repr x # repr_list xs"
| "repr_items [] = []"
| "repr_items ((k, v) # kvs) = (repr_str k @ '': '' @ py_repr v) # repr_items kvs"

definition py_str :: "json \<Rightarrow> string" where
  "py_str v = (case v of JStr s \<Rightarrow> s | _ \<Rightarrow> py_repr v)"

text \<open>Python's \<open>==\<close> of a value with the integer 0: \<open>False\<close> is equal to it too.\<close>

definition equals_zero :: "json \<Rightarrow> bool" where
  "equals_zero v \<longleftrightarrow> v = JInt 0 \<or> v = JBool False"

definition is_dict :: "json \<Rightarrow> bool" where
  "is_dict v \<longleftrightarrow> (case v of JDict _ \<Rightarrow> True | _ \<Rightarrow> False)"

definition is_string :: "json \<Rightarrow> bool" where
  "is_string v \<longleftrightarrow> (case v of JStr _ \<Rightarrow> True | _ \<Rightarrow> False)"

text \<open>\<open>d.get(k, default)\<close> on a dictionary, then on a value that may not be one.\<close>

definition dict_get_or :: "dict \<Rightarrow> string \<Rightarrow> json \<Rightarrow> json" where
  "dict_get_or d k dflt = (case map_of d k of None \<Rightarrow> dflt | Some v \<Rightarrow> v)"

abbreviation dict_get :: "dict \<Rightarrow> string \<Rightarrow> json" where
  "dict_get d k \<equiv> dict_get_or d k JNull"

lemma dict_get_or_present: "dict_get d k = v \<Longrightarrow> v \<noteq> JNull \<Longrightarrow> dict_get_or d k w = v"
  by (auto simp: dict_get_or_def split: option.splits)

definition json_get_or :: "json \<Rightarrow> string \<Rightarrow> json \<Rightarrow> json option" where
  "json_get_or v k dflt = (case v of JDict d \<Rightarrow> Some (dict_get_or d k dflt) | _ \<Rightarrow> None)"

abbreviation json_get :: "json \<Rightarrow> string \<Rightarrow> json option" where
  "json_get v k \<equiv> json_get_or v k JNull"

text \<open>A value used as a dictionary: anything else has no \<open>get\<close> and raises.\<close>

definition as_dict :: "json \<Rightarrow> dict option" where
  "as_dict v = (case v of JDict d \<Rightarrow> Some d | _ \<Rightarrow> None)"

lemma as_dict_JDict [simp]: "as_dict (JDict d) = Some d"
  by (simp add: as_dict_def)

lemma as_dict_eq_Some_iff [simp]: "as_dict v = Some d \<longleftrightarrow> v = JDict d"
  by (auto simp: as_dict_def split: json.splits)

text \<open>The same read as a total function, for statements about records that are dictionaries.\<close>

definition field :: "json \<Rightarrow> string \<Rightarrow> json" where
  "field v k = (case v of JDict d \<Rightarrow> dict_get d k | _ \<Rightarrow> JNull)"

lemma field_JDict [simp]: "field (JDict d) k = dict_get d k"
  by (simp add: field_def)

lemma json_get_field: "is_dict v \<Longrightarrow> json_get v k = Some (field v k)"
  by (auto simp: is_dict_def field_def json_get_or_def split: json.splits)

lemma json_get_or_JDict [simp]: "json_get_or (JDict d) k v = Some (dict_get_or d k v)"
  by (simp add: json_get_or_def)

lemma json_get_or_eq_Some_iff:
  "json_get_or v k w = Some r \<longleftrightarrow> (\<exists>d. v = JDict d \<and> r = dict_get_or d k w)"
  by (auto simp: json_get_or_def split: json.splits)

lemma json_get_or_eq_None_iff: "json_get_or v k w = None \<longleftrightarrow> \<not> is_dict v"
  by (auto simp: json_get_or_def is_dict_def split: json.splits)

lemma is_dict_JDict [simp]: "is_dict (JDict d)"
  by (simp add: is_dict_def)

lemma is_dictE: "is_dict v \<Longrightarrow> (\<And>d. v = JDict d \<Longrightarrow> P) \<Longrightarrow> P"
  by (auto simp: is_dict_def split: json.splits)

lemma is_stringE: "is_string v \<Longrightarrow> (\<And>s. v = JStr s \<Longrightarrow> P) \<Longrightarrow> P"
  by (auto simp: is_string_def split: json.splits)

lemma is_string_JStr [simp]: "is_string (JStr s)"
  by (simp add: is_string_def)

text \<open>
  \<open>int(v)\<close>: \<open>None\<close> for the \<open>TypeError\<close> or \<open>ValueError\<close> it raises.  A decimal literal may have
  a sign and single underscores between its digits.
\<close>

definition is_digit :: "char \<Rightarrow> bool" where
  "is_digit c \<longleftrightarrow> (let n = of_char c :: nat in 48 \<le> n \<and> n \<le> 57)"

definition digit_value :: "char \<Rightarrow> nat" where
  "digit_value c = (of_char c :: nat) - 48"

fun parse_digits :: "nat \<Rightarrow> string \<Rightarrow> nat option" where
  "parse_digits acc [] = None"
| "parse_digits acc [c] = (if is_digit c then Some (10 * acc + digit_value c) else None)"
| "parse_digits acc (c # d # cs) =
     (if is_digit c
      then parse_digits (10 * acc + digit_value c) (if d = CHR ''_'' then cs else d # cs)
      else None)"

fun parse_int :: "string \<Rightarrow> int option" where
  "parse_int [] = None"
| "parse_int (c # cs) =
     (if c = CHR ''-'' then map_option (\<lambda>n. - int n) (parse_digits 0 cs)
      else if c = CHR ''+'' then map_option int (parse_digits 0 cs)
      else map_option int (parse_digits 0 (c # cs)))"

fun py_int :: "json \<Rightarrow> int option" where
  "py_int (JInt i) = Some i"
| "py_int (JBool b) = Some (if b then 1 else 0)"
| "py_int (JStr s) = parse_int (py_strip s)"
| "py_int _ = None"

text \<open>Iterating a value: the elements of a list, the characters of a string, the keys of a dictionary.\<close>

definition iterate :: "json \<Rightarrow> json list option" where
  "iterate v = (case v of
     JList xs \<Rightarrow> Some xs
   | JStr s \<Rightarrow> Some (map (\<lambda>c. JStr [c]) s)
   | JDict d \<Rightarrow> Some (map (\<lambda>(k, _). JStr k) d)
   | _ \<Rightarrow> None)"

lemma iterate_JList [simp]: "iterate (JList xs) = Some xs"
  by (simp add: iterate_def)

lemma dict_get_Nil [simp]: "dict_get_or [] k w = w"
  by (simp add: dict_get_or_def)

lemma py_or_dict:
  assumes "v = JNull \<or> is_dict v"
  obtains "py_or v (JDict []) = JDict []" | d where "v = JDict d" "d \<noteq> []" "py_or v (JDict []) = JDict d"
proof (cases v)
  case (JDict d)
  with that show thesis by (cases "d = []") (auto simp: py_or_def)
qed (use assms that in \<open>auto simp: py_or_def is_dict_def\<close>)

subsection \<open>Loops whose body may raise\<close>

text \<open>A \<open>for\<close> loop that stops at the first element satisfying a test, and \<open>any\<close>.\<close>

fun find_m :: "('a \<Rightarrow> bool option) \<Rightarrow> 'a list \<Rightarrow> 'a option option" where
  "find_m p [] = Some None"
| "find_m p (x # xs) = do { b \<leftarrow> p x; if b then Some (Some x) else find_m p xs }"

fun any_m :: "('a \<Rightarrow> bool option) \<Rightarrow> 'a list \<Rightarrow> bool option" where
  "any_m p [] = Some False"
| "any_m p (x # xs) = do { b \<leftarrow> p x; if b then Some True else any_m p xs }"

fun map_m :: "('a \<Rightarrow> 'b option) \<Rightarrow> 'a list \<Rightarrow> 'b list option" where
  "map_m f [] = Some []"
| "map_m f (x # xs) = do { y \<leftarrow> f x; ys \<leftarrow> map_m f xs; Some (y # ys) }"

fun filter_m :: "('a \<Rightarrow> bool option) \<Rightarrow> 'a list \<Rightarrow> 'a list option" where
  "filter_m p [] = Some []"
| "filter_m p (x # xs) = do { b \<leftarrow> p x; ys \<leftarrow> filter_m p xs; Some (if b then x # ys else ys) }"

lemma bind_Some_iff: "Option.bind m f = Some r \<longleftrightarrow> (\<exists>x. m = Some x \<and> f x = Some r)"
  by (cases m) auto

lemma bind_None_iff: "Option.bind m f = None \<longleftrightarrow> m = None \<or> (\<exists>x. m = Some x \<and> f x = None)"
  by (cases m) auto

lemma find_m_Some_Some:
  "find_m p xs = Some (Some x) \<Longrightarrow>
     \<exists>ys zs. xs = ys @ x # zs \<and> p x = Some True \<and> (\<forall>y\<in>set ys. p y = Some False)"
proof (induction xs)
  case (Cons a xs)
  show ?case
  proof (cases "p a")
    case None
    with Cons.prems show ?thesis by simp
  next
    case (Some b)
    show ?thesis
    proof (cases b)
      case True
      with Cons.prems Some have "a = x" by simp
      with Some True show ?thesis by (intro exI [of _ "[]"] exI [of _ xs]) simp
    next
      case False
      with Cons.prems Some have "find_m p xs = Some (Some x)" by simp
      from Cons.IH [OF this] obtain ys zs
        where "xs = ys @ x # zs" "p x = Some True" "\<forall>y\<in>set ys. p y = Some False" by blast
      with Some False show ?thesis by (intro exI [of _ "a # ys"] exI [of _ zs]) simp
    qed
  qed
qed simp

lemma find_m_Some_SomeD:
  "find_m p xs = Some (Some x) \<Longrightarrow> x \<in> set xs \<and> p x = Some True"
  by (auto dest!: find_m_Some_Some)

lemma find_m_Some_None:
  "find_m p xs = Some None \<longleftrightarrow> (\<forall>x\<in>set xs. p x = Some False)"
  by (induction xs) (auto simp: bind_Some_iff split: if_splits)

lemma find_m_find:
  "(\<And>x. x \<in> set xs \<Longrightarrow> p x = Some (q x)) \<Longrightarrow> find_m p xs = Some (find q xs)"
  by (induction xs) auto

lemma any_m_any:
  "(\<And>x. x \<in> set xs \<Longrightarrow> p x = Some (q x)) \<Longrightarrow> any_m p xs = Some (list_ex q xs)"
  by (induction xs) auto

lemma map_m_map:
  "(\<And>x. x \<in> set xs \<Longrightarrow> f x = Some (g x)) \<Longrightarrow> map_m f xs = Some (map g xs)"
  by (induction xs) auto

lemma find_m_total: "(\<And>x. x \<in> set xs \<Longrightarrow> p x \<noteq> None) \<Longrightarrow> find_m p xs \<noteq> None"
  by (induction xs) (auto simp: bind_None_iff split: if_splits)

lemma any_m_True: "any_m p xs = Some True \<Longrightarrow> \<exists>x\<in>set xs. p x = Some True"
  by (induction xs) (auto simp: bind_Some_iff split: if_splits)

lemma any_m_False: "any_m p xs = Some False \<longleftrightarrow> (\<forall>x\<in>set xs. p x = Some False)"
  by (induction xs) (auto simp: bind_Some_iff split: if_splits)

lemma any_m_total: "(\<And>x. x \<in> set xs \<Longrightarrow> p x \<noteq> None) \<Longrightarrow> any_m p xs \<noteq> None"
  by (induction xs) (auto simp: bind_None_iff split: if_splits)

lemma map_m_Some_conv: "map_m f xs = Some ys \<longleftrightarrow> list_all2 (\<lambda>x y. f x = Some y) xs ys"
  by (induction xs arbitrary: ys) (auto simp: bind_Some_iff list_all2_Cons1)

lemma map_m_total: "(\<And>x. x \<in> set xs \<Longrightarrow> f x \<noteq> None) \<Longrightarrow> map_m f xs \<noteq> None"
  by (induction xs) (auto simp: bind_None_iff)

lemma filter_m_total: "(\<And>x. x \<in> set xs \<Longrightarrow> p x \<noteq> None) \<Longrightarrow> filter_m p xs \<noteq> None"
  by (induction xs) (auto simp: bind_None_iff)

lemma filter_m_Some:
  "filter_m p xs = Some ys \<Longrightarrow> ys = filter (\<lambda>x. p x = Some True) xs \<and> (\<forall>x\<in>set xs. p x \<noteq> None)"
  by (induction xs arbitrary: ys) (auto simp: bind_Some_iff split: if_splits)

lemma map_m_all: "map_m f xs = Some ys \<Longrightarrow> (\<And>x y. f x = Some y \<Longrightarrow> P y) \<Longrightarrow> \<forall>y\<in>set ys. P y"
  by (induction xs arbitrary: ys) (auto simp: bind_Some_iff)

lemmas loop_totals = find_m_total any_m_total map_m_total filter_m_total

subsection \<open>Order-preserving removal of duplicates: \<open>dict.fromkeys\<close>\<close>

fun from_keys :: "'a list \<Rightarrow> 'a list" where
  "from_keys [] = []"
| "from_keys (x # xs) = x # filter (\<lambda>y. y \<noteq> x) (from_keys xs)"

lemma set_from_keys [simp]: "set (from_keys xs) = set xs"
  by (induction xs) auto

lemma distinct_from_keys [simp]: "distinct (from_keys xs)"
  by (induction xs) auto

lemma from_keys_eq_Nil [simp]: "from_keys xs = [] \<longleftrightarrow> xs = []"
  by (cases xs) auto

subsection \<open>Facts about strings\<close>

lemma starts_with_append [simp]: "starts_with p (p @ s)"
  by (induction p) auto

lemma starts_with_iff: "starts_with p s \<longleftrightarrow> (\<exists>t. s = p @ t)"
  by (induction p s rule: starts_with.induct) auto

lemma py_strip_Nil [simp]: "py_strip [] = []"
  by (simp add: py_strip_def)

lemma dropWhile_rev_dropWhile_idem:
  "dropWhile P (rev (dropWhile P (rev (dropWhile P s)))) = rev (dropWhile P (rev (dropWhile P s)))"
proof -
  let ?t = "rev (dropWhile P (rev (dropWhile P s)))"
  show ?thesis
  proof (cases ?t)
    case Nil
    then show ?thesis by (simp only: Nil) simp
  next
    case (Cons a as)
    obtain us where us: "rev (dropWhile P s) = us @ dropWhile P (rev (dropWhile P s))"
      by (metis takeWhile_dropWhile_id)
    then have "dropWhile P s = ?t @ rev us"
      by (metis rev_append rev_rev_ident)
    with Cons have "hd (dropWhile P s) = a" and "dropWhile P s \<noteq> []" by simp_all
    then have "\<not> P a" by (metis hd_dropWhile)
    with Cons show ?thesis by simp
  qed
qed

lemma py_strip_idem [simp]: "py_strip (py_strip s) = py_strip s"
  by (simp add: py_strip_def dropWhile_rev_dropWhile_idem)

end
