(* ===== verification/Interface_Kind.thy ===== *)
theory Interface_Kind
  imports Py_Prelude
begin

section \<open>Interface names: taxonomy and canonical spelling\<close>

text \<open>
  Models \<open>interface_kind.py\<close>: the declared prefix tables, \<open>classify\<close>, the member filter of a
  fan-out rung, and the canonical spelling two sources on one device are joined by.  The lemmas
  show that canonicalisation is idempotent, that the short and the long spelling of a declared
  abbreviation are one interface, and that it respects the taxonomy.
\<close>

subsection \<open>Declared tables\<close>

datatype interface_kind =
    PHYSICAL
  | SUBINTERFACE
  | AGGREGATE
  | VIRTUAL
  | MANAGEMENT
  | UNKNOWN

definition PHYSICAL_PREFIXES :: "string list" where
  "PHYSICAL_PREFIXES =
     [''GigabitEthernet'', ''TenGigE'', ''TwentyFiveGigE'', ''FortyGigE'',
      ''HundredGigE'', ''FourHundredGigE'', ''Ethernet'',
      ''Gi'', ''Te'', ''Twe'', ''Fo'', ''Hu'', ''FH'']"

definition AGGREGATE_PREFIXES :: "string list" where
  "AGGREGATE_PREFIXES = [''Bundle-Ether'', ''BE'']"

definition VIRTUAL_PREFIXES :: "string list" where
  "VIRTUAL_PREFIXES =
     [''Loopback'', ''Null'', ''BVI'', ''tunnel-te'', ''tunnel-ip'', ''tunnel-mte'',
      ''srte_c_'', ''Lo'', ''Nu'', ''BV'']"

definition MANAGEMENT_PREFIXES :: "string list" where
  "MANAGEMENT_PREFIXES = [''MgmtEth'', ''Mg'']"

definition EXPANSIONS :: "(string \<times> string) list" where
  "EXPANSIONS =
     [(''GigabitEthernet'', ''GigabitEthernet''),
      (''TenGigE'', ''TenGigE''),
      (''TwentyFiveGigE'', ''TwentyFiveGigE''),
      (''FortyGigE'', ''FortyGigE''),
      (''HundredGigE'', ''HundredGigE''),
      (''FourHundredGigE'', ''FourHundredGigE''),
      (''Gi'', ''GigabitEthernet''),
      (''Te'', ''TenGigE''),
      (''Twe'', ''TwentyFiveGigE''),
      (''Fo'', ''FortyGigE''),
      (''Hu'', ''HundredGigE''),
      (''FH'', ''FourHundredGigE''),
      (''BE'', ''Bundle-Ether''),
      (''Bundle-Ether'', ''Bundle-Ether''),
      (''Lo'', ''Loopback''),
      (''Loopback'', ''Loopback''),
      (''Mg'', ''MgmtEth''),
      (''MgmtEth'', ''MgmtEth''),
      (''Mgmt'', ''MgmtEth''),
      (''Null'', ''Null''),
      (''Nu'', ''Null''),
      (''BVI'', ''BVI''),
      (''BV'', ''BVI''),
      (''tunnel-ip'', ''tunnel-ip''),
      (''ti'', ''tunnel-ip''),
      (''tunnel-te'', ''tunnel-te''),
      (''tt'', ''tunnel-te'')]"

subsection \<open>Operations\<close>

definition has_prefix :: "string list \<Rightarrow> string \<Rightarrow> bool" where
  "has_prefix prefixes name = list_ex (\<lambda>p. starts_with p name) prefixes"

definition kind_of :: "string \<Rightarrow> interface_kind" where
  "kind_of name =
     (if name = [] then UNKNOWN
      else if CHR ''.'' \<in> set name then SUBINTERFACE
      else if has_prefix MANAGEMENT_PREFIXES name then MANAGEMENT
      else if has_prefix AGGREGATE_PREFIXES name then AGGREGATE
      else if has_prefix VIRTUAL_PREFIXES name then VIRTUAL
      else if has_prefix PHYSICAL_PREFIXES name then PHYSICAL
      else UNKNOWN)"

definition classify :: "string \<Rightarrow> interface_kind" where
  "classify name = kind_of (py_strip name)"

definition is_physical_member :: "string \<Rightarrow> bool" where
  "is_physical_member name \<longleftrightarrow> classify name = PHYSICAL"

definition physical_members :: "string list \<Rightarrow> string list \<times> string list" where
  "physical_members names =
     (filter is_physical_member names, filter (\<lambda>n. classify n = UNKNOWN) names)"

text \<open>The loop of \<open>canonical\<close>: the first declared prefix not followed by another letter.\<close>

fun expand_name :: "(string \<times> string) list \<Rightarrow> string \<Rightarrow> string" where
  "expand_name [] name = name"
| "expand_name ((short, long) # es) name =
     (if starts_with short name \<and>
         (drop (length short) name = [] \<or> \<not> py_isalpha (hd (drop (length short) name)))
      then long @ drop (length short) name
      else expand_name es name)"

definition canonical :: "string \<Rightarrow> string" where
  "canonical name = (let n = py_strip name in if n = [] then [] else expand_name EXPANSIONS n)"

definition same_interface :: "string \<Rightarrow> string \<Rightarrow> bool" where
  "same_interface left right \<longleftrightarrow> left \<noteq> [] \<and> canonical left = canonical right"

text \<open>The same test on a field of a parsed record, which may be absent or no string.\<close>

definition same_interface_field :: "json \<Rightarrow> string \<Rightarrow> bool option" where
  "same_interface_field left right =
     (if truthy left
      then (case left of JStr s \<Rightarrow> Some (same_interface s right) | _ \<Rightarrow> None)
      else Some False)"

definition expansions_lower :: "(string \<times> string) list" where
  "expansions_lower = map (\<lambda>(short, long). (py_lower short, py_lower long)) EXPANSIONS"

subsection \<open>Stripped strings\<close>

definition stripped :: "string \<Rightarrow> bool" where
  "stripped s \<longleftrightarrow> s = [] \<or> (\<not> py_isspace (hd s) \<and> \<not> py_isspace (last s))"

lemma py_strip_id: "stripped s \<Longrightarrow> py_strip s = s"
proof (cases s)
  case Nil
  then show ?thesis by simp
next
  case (Cons a as)
  assume st: "stripped s"
  with Cons have "dropWhile py_isspace s = s" by (simp add: stripped_def)
  moreover from st Cons have "dropWhile py_isspace (rev s) = rev s"
    by (cases "rev s") (auto simp: stripped_def hd_rev [symmetric])
  ultimately show ?thesis by (simp add: py_strip_def)
qed

lemma stripped_py_strip [simp]: "stripped (py_strip s)"
proof (cases "py_strip s")
  case Nil
  then show ?thesis by (simp add: stripped_def)
next
  case (Cons a as)
  let ?d = "dropWhile py_isspace s"
  have r: "py_strip s = rev (dropWhile py_isspace (rev ?d))" by (simp add: py_strip_def)
  with Cons have ne: "dropWhile py_isspace (rev ?d) \<noteq> []" by auto
  have "last (py_strip s) = hd (dropWhile py_isspace (rev ?d))"
    by (simp add: r last_rev)
  with ne have l: "\<not> py_isspace (last (py_strip s))" by (metis hd_dropWhile)
  have "dropWhile py_isspace (py_strip s) = py_strip s"
    unfolding py_strip_def by (rule dropWhile_rev_dropWhile_idem)
  with Cons have "\<not> py_isspace (hd (py_strip s))"
    by (metis hd_dropWhile list.distinct(1))
  with l show ?thesis by (simp add: stripped_def)
qed

lemma stripped_append:
  "stripped l \<Longrightarrow> l \<noteq> [] \<Longrightarrow> stripped (s @ r) \<Longrightarrow> stripped (l @ r)"
  by (cases "r = []") (auto simp: stripped_def)


subsection \<open>A name and its tail\<close>

text \<open>
  A tail may follow an abbreviation when it is empty or does not start with a letter.  Looking a
  name up in the table then depends on the part before the tail only, as long as no table entry
  continues that part with something other than a letter (\<open>boundary\<close>, checked on the tables
  themselves).
\<close>

definition tail_ok :: "string \<Rightarrow> bool" where
  "tail_ok r \<longleftrightarrow> r = [] \<or> \<not> py_isalpha (hd r)"

fun continues :: "string \<Rightarrow> string \<Rightarrow> bool" where
  "continues [] [] = True"
| "continues [] (c # p) = py_isalpha c"
| "continues (a # s) [] = True"
| "continues (a # s) (b # p) = (if a = b then continues s p else True)"

definition boundary :: "string list \<Rightarrow> string \<Rightarrow> bool" where
  "boundary ps s = list_all (continues s) ps"

lemma starts_with_tail:
  "tail_ok r \<Longrightarrow> continues s p \<Longrightarrow> starts_with p (s @ r) \<longleftrightarrow> starts_with p s"
proof (induction s p rule: continues.induct)
  case (2 c p)
  then show ?case by (cases r) (auto simp: tail_ok_def)
qed (auto split: if_splits)

lemma has_prefix_tail:
  "tail_ok r \<Longrightarrow> boundary ps s \<Longrightarrow> has_prefix ps (s @ r) = has_prefix ps s"
  by (induction ps) (auto simp: has_prefix_def boundary_def starts_with_tail)

lemma expand_name_tail:
  "tail_ok r \<Longrightarrow> boundary (map fst es) s \<Longrightarrow> expand_name es (s @ r) = expand_name es s @ r"
proof (induction es)
  case (Cons e es)
  obtain a l where e: "e = (a, l)" by fastforce
  from Cons.prems e have sw: "starts_with a (s @ r) \<longleftrightarrow> starts_with a s"
    by (intro starts_with_tail) (auto simp: boundary_def)
  have IH: "expand_name es (s @ r) = expand_name es s @ r"
    using Cons by (simp add: boundary_def)
  show ?case
  proof (cases "starts_with a s")
    case True
    then obtain t where t: "s = a @ t" by (auto simp: starts_with_iff)
    show ?thesis
    proof (cases t)
      case Nil
      with Cons.prems(1) t e True show ?thesis by (simp add: tail_ok_def)
    next
      case (Cons b bs)
      with t e IH show ?thesis by simp
    qed
  next
    case False
    with e sw IH show ?thesis by simp
  qed
qed simp

lemma expand_name_cases:
  "expand_name es n = n \<or> (\<exists>s l r. (s, l) \<in> set es \<and> n = s @ r \<and> tail_ok r \<and> expand_name es n = l @ r)"
proof (induction es)
  case (Cons e es)
  obtain a l where e: "e = (a, l)" by fastforce
  show ?case
  proof (cases "starts_with a n \<and> tail_ok (drop (length a) n)")
    case True
    then have "n = a @ drop (length a) n" by (auto simp: starts_with_iff)
    moreover from True e have "expand_name (e # es) n = l @ drop (length a) n"
      by (simp add: tail_ok_def)
    ultimately show ?thesis using True e by (metis list.set_intros(1))
  next
    case False
    with e have "expand_name (e # es) n = expand_name es n" by (auto simp: tail_ok_def)
    with Cons show ?thesis by (metis list.set_intros(2))
  qed
qed simp

subsection \<open>Facts computed from the declared tables\<close>

definition table_ok :: bool where
  "table_ok \<longleftrightarrow> list_all (\<lambda>(s, l).
     s \<noteq> [] \<and> l \<noteq> [] \<and> stripped s \<and> stripped l \<and> CHR ''.'' \<notin> set s \<and> CHR ''.'' \<notin> set l \<and>
     expand_name EXPANSIONS s = l \<and> expand_name EXPANSIONS l = l \<and>
     list_all (\<lambda>t. boundary t s \<and> boundary t l)
       [map fst EXPANSIONS, MANAGEMENT_PREFIXES, AGGREGATE_PREFIXES, VIRTUAL_PREFIXES, PHYSICAL_PREFIXES] \<and>
     (kind_of s = kind_of l \<or> (kind_of s = UNKNOWN \<and> kind_of l = VIRTUAL))) EXPANSIONS"

lemma table_ok: table_ok
  by code_simp

lemma table_entry:
  assumes "(s, l) \<in> set EXPANSIONS"
  shows "s \<noteq> []" "l \<noteq> []" "stripped s" "stripped l" "CHR ''.'' \<notin> set s" "CHR ''.'' \<notin> set l"
    "expand_name EXPANSIONS s = l" "expand_name EXPANSIONS l = l"
    "boundary (map fst EXPANSIONS) s" "boundary (map fst EXPANSIONS) l"
    "boundary MANAGEMENT_PREFIXES s" "boundary MANAGEMENT_PREFIXES l"
    "boundary AGGREGATE_PREFIXES s" "boundary AGGREGATE_PREFIXES l"
    "boundary VIRTUAL_PREFIXES s" "boundary VIRTUAL_PREFIXES l"
    "boundary PHYSICAL_PREFIXES s" "boundary PHYSICAL_PREFIXES l"
    "kind_of s = kind_of l \<or> (kind_of s = UNKNOWN \<and> kind_of l = VIRTUAL)"
proof -
  note t = table_ok [unfolded table_ok_def list_all_iff, THEN bspec, OF assms, unfolded prod.case]
  show "s \<noteq> []" "l \<noteq> []" "stripped s" "stripped l" "CHR ''.'' \<notin> set s" "CHR ''.'' \<notin> set l"
    "expand_name EXPANSIONS s = l" "expand_name EXPANSIONS l = l"
    "kind_of s = kind_of l \<or> (kind_of s = UNKNOWN \<and> kind_of l = VIRTUAL)"
    using t by blast+
  show "boundary (map fst EXPANSIONS) s" "boundary (map fst EXPANSIONS) l"
    "boundary MANAGEMENT_PREFIXES s" "boundary MANAGEMENT_PREFIXES l"
    "boundary AGGREGATE_PREFIXES s" "boundary AGGREGATE_PREFIXES l"
    "boundary VIRTUAL_PREFIXES s" "boundary VIRTUAL_PREFIXES l"
    "boundary PHYSICAL_PREFIXES s" "boundary PHYSICAL_PREFIXES l"
    using t by simp_all
qed

lemma expand_entry:
  assumes "(s, l) \<in> set EXPANSIONS" and "tail_ok r"
  shows "expand_name EXPANSIONS (s @ r) = l @ r" and "expand_name EXPANSIONS (l @ r) = l @ r"
  using assms by (simp_all add: expand_name_tail table_entry)

lemma expand_idem:
  "expand_name EXPANSIONS (expand_name EXPANSIONS n) = expand_name EXPANSIONS n"
  using expand_name_cases [of EXPANSIONS n] by (auto simp: expand_entry)

lemma expand_nonempty: "n \<noteq> [] \<Longrightarrow> expand_name EXPANSIONS n \<noteq> []"
  using expand_name_cases [of EXPANSIONS n] by (auto simp: table_entry)

lemma stripped_expand: "stripped n \<Longrightarrow> stripped (expand_name EXPANSIONS n)"
  using expand_name_cases [of EXPANSIONS n]
proof (elim disjE exE conjE)
  fix s l r
  assume "stripped n" and e: "(s, l) \<in> set EXPANSIONS" "n = s @ r" "expand_name EXPANSIONS n = l @ r"
  then have "stripped (s @ r)" by simp
  then have "stripped (l @ r)" by (rule stripped_append [OF table_entry(4,2) [OF e(1)]])
  with e show ?thesis by simp
qed simp

lemma canonical_stripped: "stripped n \<Longrightarrow> n \<noteq> [] \<Longrightarrow> canonical n = expand_name EXPANSIONS n"
  by (simp add: canonical_def py_strip_id)

lemma canonical_idem: "canonical (canonical n) = canonical n"
proof (cases "py_strip n = []")
  case True
  then show ?thesis by (simp add: canonical_def)
next
  case False
  let ?m = "expand_name EXPANSIONS (py_strip n)"
  have c: "canonical n = ?m" using False by (simp add: canonical_def)
  have "canonical ?m = expand_name EXPANSIONS ?m"
    using False by (intro canonical_stripped stripped_expand expand_nonempty) auto
  with c show ?thesis by (simp add: expand_idem)
qed

lemma kind_of_tail:
  assumes "(s, l) \<in> set EXPANSIONS" and "tail_ok r" and "x = s \<or> x = l"
  shows "kind_of (x @ r) = (if CHR ''.'' \<in> set r then SUBINTERFACE else kind_of x)"
proof -
  note t = table_entry [OF assms(1)]
  have "x \<noteq> []" "CHR ''.'' \<notin> set x"
    using t(1,2,5,6) assms(3) by auto
  moreover have "boundary MANAGEMENT_PREFIXES x" "boundary AGGREGATE_PREFIXES x"
    "boundary VIRTUAL_PREFIXES x" "boundary PHYSICAL_PREFIXES x"
    using t(11-18) assms(3) by auto
  ultimately show ?thesis
    using assms(2) by (simp add: kind_of_def has_prefix_tail)
qed

lemma kind_of_expand:
  "kind_of (expand_name EXPANSIONS n) = kind_of n \<or>
   (kind_of n = UNKNOWN \<and> kind_of (expand_name EXPANSIONS n) = VIRTUAL)"
  using expand_name_cases [of EXPANSIONS n]
proof (elim disjE exE conjE)
  fix s l r
  assume e: "(s, l) \<in> set EXPANSIONS" "n = s @ r" "tail_ok r" "expand_name EXPANSIONS n = l @ r"
  then have "kind_of n = (if CHR ''.'' \<in> set r then SUBINTERFACE else kind_of s)"
    and "kind_of (expand_name EXPANSIONS n) = (if CHR ''.'' \<in> set r then SUBINTERFACE else kind_of l)"
    by (auto simp: kind_of_tail)
  with table_entry(19) [OF e(1)] show ?thesis by auto
qed simp

lemma same_interface_refl: "n \<noteq> [] \<Longrightarrow> same_interface n n"
  by (simp add: same_interface_def)

lemma same_interface_trans:
  "same_interface a b \<Longrightarrow> same_interface b c \<Longrightarrow> same_interface a c"
  by (simp add: same_interface_def)

lemma same_interface_sym: "same_interface a b \<Longrightarrow> b \<noteq> [] \<Longrightarrow> same_interface b a"
  by (simp add: same_interface_def)

lemma same_interface_canonical: "n \<noteq> [] \<Longrightarrow> same_interface n (canonical n)"
  by (simp add: same_interface_def canonical_idem)

lemma same_interface_field_JStr [simp]:
  "same_interface_field (JStr s) n = Some (same_interface s n)"
  by (simp add: same_interface_field_def same_interface_def)

lemma same_interface_field_JNull [simp]: "same_interface_field JNull n = Some False"
  by (simp add: same_interface_field_def)

lemma same_interface_field_total:
  "v = JNull \<or> is_string v \<Longrightarrow> same_interface_field v n \<noteq> None"
  by (auto elim!: is_stringE)

lemma same_interface_field_True:
  "same_interface_field v n = Some True \<longleftrightarrow> (\<exists>s. v = JStr s \<and> same_interface s n)"
  by (auto simp: same_interface_field_def same_interface_def split: json.splits if_splits)

subsection \<open>Properties\<close>

text \<open>Canonicalisation is stable and the taxonomy respects it: the canonical spelling is a fixed
  point, and a name and its canonical spelling have the same kind, except that a name the prefix
  tables do not know may turn out virtual once it is spelled out.\<close>

theorem canonical_stable_and_kind_preserving:
  "canonical (canonical n) = canonical n \<and>
   (classify (canonical n) = classify n \<or> (classify n = UNKNOWN \<and> classify (canonical n) = VIRTUAL))"
proof (cases "py_strip n = []")
  case True
  then show ?thesis by (simp add: canonical_def classify_def)
next
  case False
  then have c: "canonical n = expand_name EXPANSIONS (py_strip n)" by (simp add: canonical_def)
  have "py_strip (canonical n) = canonical n"
    unfolding c by (intro py_strip_id stripped_expand) simp
  then have "classify (canonical n) = kind_of (expand_name EXPANSIONS (py_strip n))"
    by (simp add: classify_def c)
  then show ?thesis using kind_of_expand [of "py_strip n"] by (simp add: classify_def canonical_idem)
qed

text \<open>The comment above the prefix tables says both the short and the long form of a name are declared.
  They are not for tunnels: the short forms \<open>tt\<close> and \<open>ti\<close> expand to virtual interfaces but are
  themselves unclassified, so such a port is logged as unknown rather than excluded as virtual.\<close>

theorem short_tunnel_names_unclassified:
  "classify ''tt5'' = UNKNOWN \<and> classify (canonical ''tt5'') = VIRTUAL \<and>
   classify ''ti5'' = UNKNOWN \<and> classify (canonical ''ti5'') = VIRTUAL"
  by code_simp

text \<open>Every declared short form denotes the same interface as its long form, whatever port number
  follows, in either order.\<close>

theorem short_and_long_spellings_agree:
  assumes "(s, l) \<in> set EXPANSIONS" and "stripped r" and "r = [] \<or> \<not> py_isalpha (hd r)"
  shows "same_interface (s @ r) (l @ r) \<and> same_interface (l @ r) (s @ r) \<and> canonical (s @ r) = l @ r"
proof -
  note t = table_entry [OF assms(1)]
  have st: "stripped (x @ r)" if "x \<noteq> []" "stripped x" for x
    using that assms(2) by (cases "r = []") (auto simp: stripped_def)
  have "tail_ok r" using assms(3) by (simp add: tail_ok_def)
  then have "canonical (s @ r) = l @ r" "canonical (l @ r) = l @ r"
    using canonical_stripped [OF st] t expand_entry [OF assms(1)] by simp_all
  with t(1,2) show ?thesis by (simp add: same_interface_def)
qed

theorem spellings_witness: "same_interface ''Gi0/0/0/0'' ''GigabitEthernet0/0/0/0''"
  using short_and_long_spellings_agree [of "''Gi''" "''GigabitEthernet''" "''0/0/0/0''"]
  by (simp add: EXPANSIONS_def stripped_def py_isspace_def py_isalpha_def)

end
