(* ===== verification/Check_Result.thy ===== *)
theory Check_Result
  imports Py_Prelude
begin

section \<open>Rung verdicts and the evidence they are read from\<close>

text \<open>
  Models the first part of \<open>checks.py\<close>: \<open>CheckResult\<close> with the checks of its
  \<open>__post_init__\<close>, the three constructors, \<open>evidence_key\<close>, \<open>parsed_records\<close> and
  \<open>require_parsed\<close>.  A function that builds a verdict returns \<open>check_result option\<close>:
  \<open>None\<close> is an exception (a malformed section, or a verdict \<open>__post_init__\<close> refuses).

  The locale \<open>rung_check\<close> is the contract the descent relies on: whatever check a rung
  carries, it reads only the sections it declares, it is never conclusive about evidence that
  did not parse, and it does not raise on evidence of the collector's shape.
\<close>

subsection \<open>Verdicts\<close>

datatype check_status = HEALTHY | BROKEN | UNEVALUATED

record check_result =
  cr_status :: check_status
  cr_reason :: "string option"
  cr_subject :: "string option"
  cr_evidence_keys :: "string list"
  cr_device_text :: "string list option"

text \<open>Device fragments must be non-empty strings, and there must be at least one.\<close>

fun device_fragments :: "json list \<Rightarrow> string list option" where
  "device_fragments [] = Some []"
| "device_fragments (v # vs) =
     (case v of
        JStr s \<Rightarrow> (if s = [] then None else map_option (\<lambda>fs. s # fs) (device_fragments vs))
      | _ \<Rightarrow> None)"

definition CheckResult ::
  "check_status \<Rightarrow> string option \<Rightarrow> string option \<Rightarrow> string list \<Rightarrow> json list option \<Rightarrow> check_result option" where
  "CheckResult st reason subj keys dt =
     (if st \<noteq> UNEVALUATED \<and> keys = [] then None
      else case dt of
        None \<Rightarrow> Some \<lparr>cr_status = st, cr_reason = reason, cr_subject = subj,
                     cr_evidence_keys = keys, cr_device_text = None\<rparr>
      | Some vs \<Rightarrow>
          (if vs = [] then None
           else map_option (\<lambda>fs. \<lparr>cr_status = st, cr_reason = reason, cr_subject = subj,
                                  cr_evidence_keys = keys, cr_device_text = Some fs\<rparr>)
                  (device_fragments vs)))"

definition is_conclusive :: "check_result \<Rightarrow> bool" where
  "is_conclusive r \<longleftrightarrow> cr_status r = HEALTHY \<or> cr_status r = BROKEN"

definition healthy :: "string option \<Rightarrow> string list \<Rightarrow> string option \<Rightarrow> json list option \<Rightarrow> check_result option" where
  "healthy subj keys reason dt = CheckResult HEALTHY reason subj keys dt"

definition broken :: "string \<Rightarrow> string option \<Rightarrow> string list \<Rightarrow> json list option \<Rightarrow> check_result option" where
  "broken reason subj keys dt = CheckResult BROKEN (Some reason) subj keys dt"

definition unevaluated :: "string \<Rightarrow> string option \<Rightarrow> string list \<Rightarrow> json list option \<Rightarrow> check_result option" where
  "unevaluated reason subj keys dt = CheckResult UNEVALUATED (Some reason) subj keys dt"

definition evidence_key :: "string \<Rightarrow> string \<Rightarrow> string option \<Rightarrow> string" where
  "evidence_key device name subj =
     device @ '':'' @ name @
     (case subj of Some s \<Rightarrow> (if s \<noteq> [] then '':'' @ s else []) | None \<Rightarrow> [])"

text \<open>The key of a template result: \<open>"<template>:<parameter-value>"\<close>.\<close>

definition template_key :: "string \<Rightarrow> string \<Rightarrow> string" where
  "template_key template param = template @ '':'' @ param"

text \<open>\<open>str(evidence.get("device", "unknown"))\<close>, as every check writes it.\<close>

definition device_of :: "dict \<Rightarrow> string" where
  "device_of ev = py_str (dict_get_or ev ''device'' (JStr ''unknown''))"

subsection \<open>Reading a section\<close>

definition parsed_records :: "json \<Rightarrow> json list option" where
  "parsed_records section =
     (case section of
        JDict s \<Rightarrow> do {
          parsed \<leftarrow> json_get (dict_get_or s ''data'' (JDict [])) ''parsed'';
          case parsed of
            JDict p \<Rightarrow> Some (case dict_get p ''records'' of JList rs \<Rightarrow> rs | _ \<Rightarrow> [])
          | _ \<Rightarrow> Some []
        }
      | _ \<Rightarrow> Some [])"

text \<open>The first record of a loop \<open>for record in records\<close> whose field equals a string.\<close>

definition find_record :: "string \<Rightarrow> string \<Rightarrow> json list \<Rightarrow> json option option" where
  "find_record f name records = find_m (\<lambda>r. map_option (\<lambda>v. v = JStr name) (json_get r f)) records"

text \<open>\<open>(section.get("data", {}).get("parsed") or {}).get("meta") or {}\<close>.\<close>

definition parsed_meta :: "json \<Rightarrow> json option" where
  "parsed_meta section = do {
     data \<leftarrow> json_get_or section ''data'' (JDict []);
     parsed \<leftarrow> json_get data ''parsed'';
     meta \<leftarrow> json_get (py_or parsed (JDict [])) ''meta'';
     Some (py_or meta (JDict []))
   }"

definition PARSE_OK :: string where "PARSE_OK = ''ok''"

definition PARSE_UNAVAILABLE :: string where "PARSE_UNAVAILABLE = ''unavailable''"

definition PARSE_FAILED :: string where "PARSE_FAILED = ''failed''"

text \<open>The verdict of a gate that failed (\<open>Inl\<close>), or the parsed section (\<open>Inr\<close>).\<close>

definition require_parsed :: "dict \<Rightarrow> string \<Rightarrow> string option \<Rightarrow> (check_result + json) option" where
  "require_parsed ev key subj =
     (case dict_get ev key of
        JDict s \<Rightarrow> do {
          parse_status \<leftarrow> json_get (dict_get_or s ''data'' (JDict [])) ''parse_status'';
          if parse_status = JStr PARSE_OK then Some (Inr (JDict s))
          else map_option Inl (unevaluated
            (if parse_status = JStr PARSE_UNAVAILABLE
             then repr_str key @ '' is not available on this platform''
             else if parse_status = JStr PARSE_FAILED
             then repr_str key @ '' did not parse''
             else repr_str key @ '' has no parse status ('' @ py_repr parse_status @ '')'')
            subj [] None)
        }
      | _ \<Rightarrow> map_option Inl
          (unevaluated (''no '' @ repr_str key @ '' section in the evidence'') subj [] None))"

text \<open>
  The idiom every check opens with, \<open>section, bail = require_parsed(\<dots>)\<close>, then
  \<open>if bail is not None: return \<dots>\<close>: a handler for the bail-out and the rest of the check.
\<close>

definition gated ::
  "dict \<Rightarrow> string \<Rightarrow> string option \<Rightarrow> (check_result \<Rightarrow> check_result option) \<Rightarrow>
   (json \<Rightarrow> check_result option) \<Rightarrow> check_result option" where
  "gated ev key subj on_bail body = do {
     gate \<leftarrow> require_parsed ev key subj;
     case gate of Inl bail \<Rightarrow> on_bail bail | Inr section \<Rightarrow> body section
   }"

text \<open>Did the section under this key reach \<open>PARSE_OK\<close>?\<close>

definition parsed_ok :: "dict \<Rightarrow> string \<Rightarrow> bool" where
  "parsed_ok ev key \<longleftrightarrow>
     (case dict_get ev key of
        JDict s \<Rightarrow> json_get (dict_get_or s ''data'' (JDict [])) ''parse_status'' = Some (JStr PARSE_OK)
      | _ \<Rightarrow> False)"

subsection \<open>Validity of a verdict\<close>

definition valid_result :: "check_result \<Rightarrow> bool" where
  "valid_result r \<longleftrightarrow>
     (cr_status r \<noteq> UNEVALUATED \<longrightarrow> cr_evidence_keys r \<noteq> []) \<and>
     (\<forall>fs. cr_device_text r = Some fs \<longrightarrow> fs \<noteq> [] \<and> [] \<notin> set fs)"

lemma device_fragments_Some:
  "device_fragments vs = Some fs \<Longrightarrow> vs = map JStr fs \<and> [] \<notin> set fs"
  by (induction vs arbitrary: fs) (auto split: json.splits if_splits)

lemma device_fragments_map [simp]:
  "[] \<notin> set fs \<Longrightarrow> device_fragments (map JStr fs) = Some fs"
  by (induction fs) auto

lemma CheckResult_SomeD:
  assumes "CheckResult st reason subj keys dt = Some r"
  shows "cr_status r = st" "cr_reason r = reason" "cr_subject r = subj"
    "cr_evidence_keys r = keys" "valid_result r"
  using assms
  by (auto simp: CheckResult_def valid_result_def split: if_splits option.splits
      dest!: device_fragments_Some)

lemmas verdict_defs = healthy_def broken_def unevaluated_def

lemma verdict_SomeD:
  "healthy subj keys rs dt = Some r \<Longrightarrow> cr_status r = HEALTHY \<and> cr_subject r = subj \<and> cr_evidence_keys r = keys \<and> valid_result r"
  "broken rsn subj keys dt = Some r \<Longrightarrow> cr_status r = BROKEN \<and> cr_subject r = subj \<and> cr_evidence_keys r = keys \<and> valid_result r"
  "unevaluated rsn subj keys dt = Some r \<Longrightarrow> cr_status r = UNEVALUATED \<and> cr_subject r = subj \<and> cr_evidence_keys r = keys \<and> valid_result r"
  by (auto simp: verdict_defs dest: CheckResult_SomeD)

lemma verdict_status [simp]:
  "healthy subj keys rs dt = Some r \<Longrightarrow> cr_status r = HEALTHY"
  "broken rsn subj keys dt = Some r \<Longrightarrow> cr_status r = BROKEN"
  "unevaluated rsn subj keys dt = Some r \<Longrightarrow> cr_status r = UNEVALUATED"
  by (auto dest: verdict_SomeD)

lemma CheckResult_total [simp]:
  "st = UNEVALUATED \<or> keys \<noteq> [] \<Longrightarrow> \<exists>r. CheckResult st rs subj keys None = Some r"
  by (auto simp: CheckResult_def)

lemma verdict_total [simp]:
  "keys \<noteq> [] \<Longrightarrow> \<exists>r. healthy subj keys rs None = Some r"
  "keys \<noteq> [] \<Longrightarrow> \<exists>r. broken rsn subj keys None = Some r"
  "\<exists>r. unevaluated rsn subj keys None = Some r"
  by (simp_all add: verdict_defs CheckResult_def)

lemma verdict_total_text [simp]:
  "keys \<noteq> [] \<Longrightarrow> fs \<noteq> [] \<Longrightarrow> [] \<notin> set fs \<Longrightarrow> \<exists>r. healthy subj keys rs (Some (map JStr fs)) = Some r"
  "keys \<noteq> [] \<Longrightarrow> fs \<noteq> [] \<Longrightarrow> [] \<notin> set fs \<Longrightarrow> \<exists>r. broken rsn subj keys (Some (map JStr fs)) = Some r"
  "fs \<noteq> [] \<Longrightarrow> [] \<notin> set fs \<Longrightarrow> \<exists>r. unevaluated rsn subj keys (Some (map JStr fs)) = Some r"
  by (simp_all add: verdict_defs CheckResult_def)

lemma unevaluated_None_ne [simp]: "unevaluated rsn subj keys None \<noteq> None"
  by (simp add: verdict_defs CheckResult_def)

lemma healthy_None_ne [simp]: "healthy subj (k # ks) rs None \<noteq> None"
  by (simp add: verdict_defs CheckResult_def)

lemma broken_None_ne [simp]: "broken rsn subj (k # ks) None \<noteq> None"
  by (simp add: verdict_defs CheckResult_def)

lemma check_status_cases:
  "cr_status r \<noteq> UNEVALUATED \<longleftrightarrow> cr_status r = HEALTHY \<or> cr_status r = BROKEN"
  by (cases "cr_status r") auto

subsection \<open>The gate\<close>

lemma require_parsed_Inr:
  "require_parsed ev key s = Some (Inr sec) \<longleftrightarrow> parsed_ok ev key \<and> sec = dict_get ev key"
  by (auto simp: require_parsed_def parsed_ok_def bind_Some_iff split: json.splits if_splits)

lemma require_parsed_Inl:
  "require_parsed ev key s = Some (Inl b) \<Longrightarrow>
     \<not> parsed_ok ev key \<and> cr_status b = UNEVALUATED \<and> cr_subject b = s \<and>
     cr_evidence_keys b = [] \<and> valid_result b"
  by (auto simp: require_parsed_def parsed_ok_def bind_Some_iff
      dest!: verdict_SomeD(3) split: json.splits if_splits)

lemma require_parsed_unread:
  "\<not> parsed_ok ev key \<Longrightarrow> require_parsed ev key s = Some x \<Longrightarrow>
     \<exists>b. x = Inl b \<and> cr_status b = UNEVALUATED"
  by (cases x) (auto simp: require_parsed_Inr dest: require_parsed_Inl)

lemma require_parsed_cong:
  "map_of ev k = map_of ev' k \<Longrightarrow> require_parsed ev k s = require_parsed ev' k s"
  by (simp add: require_parsed_def dict_get_or_def)

lemma gated_parsed: "parsed_ok ev key \<Longrightarrow> gated ev key s h body = body (dict_get ev key)"
  using require_parsed_Inr [of ev key s "dict_get ev key"] by (simp add: gated_def)

lemma gated_unread:
  assumes "\<not> parsed_ok ev key" and "gated ev key s h body = Some r"
  obtains b where "require_parsed ev key s = Some (Inl b)" "h b = Some r"
    "cr_status b = UNEVALUATED" "valid_result b"
proof -
  from assms(2) obtain x where x: "require_parsed ev key s = Some x"
    by (auto simp: gated_def bind_Some_iff)
  with assms(1) obtain b where b: "x = Inl b" using require_parsed_unread by blast
  with x assms(2) have "h b = Some r" by (simp add: gated_def)
  with x b show thesis by (intro that [of b]) (auto dest: require_parsed_Inl)
qed

lemma gated_unread_status:
  "\<not> parsed_ok ev key \<Longrightarrow> gated ev key s Some body = Some r \<Longrightarrow> cr_status r = UNEVALUATED"
  by (auto elim: gated_unread)

lemma gated_valid:
  assumes "gated ev key s h body = Some r"
    and "\<And>b. valid_result b \<Longrightarrow> h b = Some r \<Longrightarrow> valid_result r"
    and "parsed_ok ev key \<Longrightarrow> body (dict_get ev key) = Some r \<Longrightarrow> valid_result r"
  shows "valid_result r"
proof (cases "parsed_ok ev key")
  case True
  with assms show ?thesis by (simp add: gated_parsed)
next
  case False
  with assms show ?thesis by (auto elim: gated_unread)
qed

lemma gated_valid_Some:
  assumes "gated ev key s Some body = Some r"
    and "parsed_ok ev key \<Longrightarrow> body (dict_get ev key) = Some r \<Longrightarrow> valid_result r"
  shows "valid_result r"
  using assms(1) by (rule gated_valid) (use assms(2) in auto)

lemma gated_cong:
  assumes "map_of ev k = map_of ev' k"
    and "\<And>b. h b = h' b" and "\<And>sec. body sec = body' sec"
  shows "gated ev k s h body = gated ev' k s h' body'"
proof -
  have "h = h'" "body = body'" using assms(2,3) by auto
  then show ?thesis by (simp add: gated_def require_parsed_cong [OF assms(1)])
qed

lemma device_of_cong: "map_of ev ''device'' = map_of ev' ''device'' \<Longrightarrow> device_of ev = device_of ev'"
  by (simp add: device_of_def dict_get_or_def)

lemma dict_get_cong: "map_of ev k = map_of ev' k \<Longrightarrow> dict_get_or ev k d = dict_get_or ev' k d"
  by (simp add: dict_get_or_def)

lemma parsed_ok_cong: "map_of ev k = map_of ev' k \<Longrightarrow> parsed_ok ev k = parsed_ok ev' k"
  by (simp add: parsed_ok_def dict_get_or_def)

lemma parsed_ok_Nil: "\<not> parsed_ok [] k"
  by (simp add: parsed_ok_def dict_get_or_def)

subsection \<open>Evidence of the collector's shape\<close>

text \<open>
  A section the collector builds: a dictionary whose \<open>data\<close>, \<open>parsed\<close> and \<open>meta\<close> are
  dictionaries where present, with a list of record dictionaries.  Interface names and the
  device's own reasons are strings where present.
\<close>

definition opt_string :: "json \<Rightarrow> bool" where
  "opt_string v \<longleftrightarrow> (case v of JNull \<Rightarrow> True | JStr _ \<Rightarrow> True | _ \<Rightarrow> False)"

definition opt_names :: "json \<Rightarrow> bool" where
  "opt_names v \<longleftrightarrow> (case v of JNull \<Rightarrow> True | JList xs \<Rightarrow> list_all is_string xs | _ \<Rightarrow> False)"

definition wf_record :: "json \<Rightarrow> bool" where
  "wf_record r \<longleftrightarrow> (case r of
     JDict d \<Rightarrow> is_string (dict_get_or d ''interface'' (JStr [])) \<and> opt_string (dict_get d ''local_interface'') \<and>
                opt_string (dict_get d ''neighbor'') \<and> opt_string (dict_get d ''counter'') \<and>
                opt_names (dict_get d ''discovery_interfaces'')
   | _ \<Rightarrow> False)"

definition wf_meta :: "json \<Rightarrow> bool" where
  "wf_meta m \<longleftrightarrow> (case m of
     JNull \<Rightarrow> True
   | JDict e \<Rightarrow> opt_string (dict_get e ''state_reason'') \<and> opt_string (dict_get e ''last_reset_reason'') \<and>
                opt_string (dict_get e ''connection_state'') \<and> opt_string (dict_get e ''state'')
   | _ \<Rightarrow> False)"

definition wf_parsed :: "json \<Rightarrow> bool" where
  "wf_parsed p \<longleftrightarrow> (case p of
     JNull \<Rightarrow> True
   | JDict d \<Rightarrow> (case dict_get_or d ''records'' (JList []) of JList rs \<Rightarrow> list_all wf_record rs | _ \<Rightarrow> False) \<and>
                wf_meta (dict_get d ''meta'')
   | _ \<Rightarrow> False)"

definition wf_section :: "json \<Rightarrow> bool" where
  "wf_section sec \<longleftrightarrow> (case sec of
     JDict s \<Rightarrow> (case dict_get_or s ''data'' (JDict []) of
                  JDict d \<Rightarrow> wf_parsed (dict_get d ''parsed'') | _ \<Rightarrow> False)
   | _ \<Rightarrow> True)"

text \<open>The three entries of an evidence dictionary that are plain strings, not sections.\<close>

definition PASS_THROUGH_KEYS :: "string list" where
  "PASS_THROUGH_KEYS = [''device'', ''platform'', ''timestamp'']"

definition wf_evidence :: "dict \<Rightarrow> bool" where
  "wf_evidence ev \<longleftrightarrow>
     list_all (\<lambda>(k, v). wf_section v \<and> (k \<in> set PASS_THROUGH_KEYS \<or> v = JNull \<or> is_dict v)) ev"

lemma wf_section_JNull [simp]: "wf_section JNull"
  by (simp add: wf_section_def)

lemma wf_evidence_get: "wf_evidence ev \<Longrightarrow> wf_section (dict_get ev k)"
  by (cases "map_of ev k") (auto simp: wf_evidence_def list_all_iff dict_get_or_def dest!: map_of_SomeD)

lemma wf_evidence_section:
  "wf_evidence ev \<Longrightarrow> k \<notin> set PASS_THROUGH_KEYS \<Longrightarrow> dict_get ev k = JNull \<or> is_dict (dict_get ev k)"
  by (cases "map_of ev k") (auto simp: wf_evidence_def list_all_iff dict_get_or_def dest!: map_of_SomeD)

lemma is_string_default:
  "is_string (dict_get_or d k (JStr [])) \<Longrightarrow> opt_string (dict_get d k)"
  by (auto simp: dict_get_or_def opt_string_def elim!: is_stringE split: option.splits)

lemma wf_recordE:
  assumes "wf_record r"
  obtains d where "r = JDict d" "opt_string (dict_get d ''interface'')"
    "opt_string (dict_get d ''local_interface'')" "opt_string (dict_get d ''neighbor'')"
    "opt_string (dict_get d ''counter'')" "opt_names (dict_get d ''discovery_interfaces'')"
    "is_string (dict_get_or d ''interface'' (JStr []))"
  using assms is_string_default by (cases r) (auto simp: wf_record_def)

lemma wf_sectionE:
  assumes "wf_section (JDict s)"
  obtains d where "dict_get_or s ''data'' (JDict []) = JDict d" "wf_parsed (dict_get d ''parsed'')"
  using assms by (auto simp: wf_section_def split: json.splits)

lemma require_parsed_total:
  assumes "wf_evidence ev" shows "require_parsed ev k s \<noteq> None"
proof (cases "dict_get ev k")
  case (JDict sec)
  with wf_evidence_get [OF assms, of k] obtain d
    where "dict_get_or sec ''data'' (JDict []) = JDict d" by (auto elim: wf_sectionE)
  with JDict show ?thesis by (simp add: require_parsed_def)
qed (simp_all add: require_parsed_def)

lemma parsed_ok_dict: "parsed_ok ev key \<Longrightarrow> is_dict (dict_get ev key)"
  by (auto simp: parsed_ok_def is_dict_def split: json.splits)

lemma gated_total:
  assumes "wf_evidence ev" and "\<And>b. h b \<noteq> None"
    and "\<And>sec. wf_section (JDict sec) \<Longrightarrow> body (JDict sec) \<noteq> None"
  shows "gated ev k s h body \<noteq> None"
proof (cases "parsed_ok ev k")
  case True
  then obtain sec where "dict_get ev k = JDict sec"
    using parsed_ok_dict is_dictE by metis
  moreover from this have "wf_section (JDict sec)"
    using wf_evidence_get [OF assms(1), of k] by simp
  ultimately show ?thesis using True assms(3) by (simp add: gated_parsed)
next
  case False
  obtain g where "require_parsed ev k s = Some g"
    using require_parsed_total [OF assms(1), of k s] by blast
  with False assms(2) show ?thesis
    by (cases g) (auto simp: gated_def require_parsed_Inr)
qed

lemma wf_parsed_records:
  assumes "wf_section sec"
  shows "\<exists>rs. parsed_records sec = Some rs \<and> list_all wf_record rs"
proof (cases sec)
  case (JDict s)
  with assms obtain d where d: "dict_get_or s ''data'' (JDict []) = JDict d"
    and p: "wf_parsed (dict_get d ''parsed'')" by (auto elim: wf_sectionE)
  have "parsed_records sec = Some (case dict_get d ''parsed'' of
      JDict p \<Rightarrow> (case dict_get p ''records'' of JList rs \<Rightarrow> rs | _ \<Rightarrow> []) | _ \<Rightarrow> [])"
    by (simp add: parsed_records_def JDict d split: json.splits)
  moreover have "dict_get x ''records'' = JList rs \<Longrightarrow> dict_get_or x ''records'' (JList []) = JList rs" for x rs
    by (rule dict_get_or_present) simp_all
  ultimately show ?thesis using p by (auto simp: wf_parsed_def split: json.splits)
qed (simp_all add: parsed_records_def)

lemma wf_parsed_meta:
  assumes "wf_section (JDict s)"
  shows "\<exists>m. parsed_meta (JDict s) = Some (JDict m) \<and> wf_meta (JDict m)"
proof -
  from assms obtain d where d: "dict_get_or s ''data'' (JDict []) = JDict d"
    and p: "wf_parsed (dict_get d ''parsed'')" by (rule wf_sectionE)
  have nil: "dict_get [] f = JNull" for f by (simp add: dict_get_or_def)
  obtain q where q: "py_or (dict_get d ''parsed'') (JDict []) = JDict q" and w: "wf_meta (dict_get q ''meta'')"
  proof (cases "dict_get d ''parsed'' = JNull \<or> dict_get d ''parsed'' = JDict []")
    case True
    then show thesis by (intro that [of "[]"]) (auto simp: py_or_def wf_meta_def nil)
  next
    case False
    with p obtain e where "dict_get d ''parsed'' = JDict e" "e \<noteq> []" "wf_meta (dict_get e ''meta'')"
      by (cases "dict_get d ''parsed''") (auto simp: wf_parsed_def)
    then show thesis by (intro that [of e]) (auto simp: py_or_def)
  qed
  obtain m where m: "py_or (dict_get q ''meta'') (JDict []) = JDict m" and "wf_meta (JDict m)"
  proof (cases "dict_get q ''meta'' = JNull \<or> dict_get q ''meta'' = JDict []")
    case True
    then show thesis by (intro that [of "[]"]) (auto simp: py_or_def wf_meta_def opt_string_def nil)
  next
    case False
    with w obtain e where "dict_get q ''meta'' = JDict e" "e \<noteq> []" "wf_meta (JDict e)"
      by (cases "dict_get q ''meta''") (auto simp: wf_meta_def)
    then show thesis by (intro that [of e]) (auto simp: py_or_def)
  qed
  with d q show ?thesis by (simp add: parsed_meta_def)
qed

lemma find_record_find:
  "list_all is_dict rs \<Longrightarrow> find_record f name rs = Some (find (\<lambda>r. field r f = JStr name) rs)"
  unfolding find_record_def by (intro find_m_find) (auto simp: list_all_iff json_get_field)

lemma wf_record_field:
  assumes "wf_record r"
  shows "opt_string (field r ''interface'')" "opt_string (field r ''local_interface'')"
    "opt_string (field r ''neighbor'')" "opt_string (field r ''counter'')"
    "opt_names (field r ''discovery_interfaces'')"
  using assms by (auto elim!: wf_recordE)

lemma wf_record_is_dict: "wf_record r \<Longrightarrow> is_dict r"
  by (erule wf_recordE) simp

lemma wf_records_dicts: "list_all wf_record rs \<Longrightarrow> list_all is_dict rs"
  by (auto simp: list_all_iff wf_record_is_dict)

lemma find_dict: "list_all is_dict rs \<Longrightarrow> find P rs = Some r \<Longrightarrow> \<exists>d. r = JDict d"
  by (metis find_Some_iff is_dictE list_all_length)

lemma wf_find_record:
  assumes "list_all wf_record rs"
  obtains "find_record f name rs = Some None"
  | d where "find_record f name rs = Some (Some (JDict d))"
  using find_record_find [OF wf_records_dicts [OF assms], of f name]
    find_dict [OF wf_records_dicts [OF assms]] by (metis option.exhaust)

text \<open>The parsed half of a section, as both readers of the interface table reach it.\<close>

lemma wf_section_parsed:
  assumes "wf_section (JDict section)"
  obtains d p where "dict_get_or section ''data'' (JDict []) = JDict d"
    "py_or (dict_get d ''parsed'') (JDict []) = JDict p"
    "\<And>w. dict_get_or p ''records'' w = w \<or> (\<exists>rs. dict_get_or p ''records'' w = JList rs \<and> list_all wf_record rs)"
    "dict_get p ''meta'' = JNull \<or> is_dict (dict_get p ''meta'')"
proof -
  from assms obtain d where d: "dict_get_or section ''data'' (JDict []) = JDict d"
    and wf: "wf_parsed (dict_get d ''parsed'')" by (rule wf_sectionE)
  show thesis
  proof (cases "dict_get d ''parsed'' = JNull \<or> dict_get d ''parsed'' = JDict []")
    case True
    with that [OF d, of "[]"] show thesis by (auto simp: py_or_def)
  next
    case False
    with wf obtain p where p: "dict_get d ''parsed'' = JDict p" "p \<noteq> []"
      by (cases "dict_get d ''parsed''") (auto simp: wf_parsed_def)
    with wf obtain rs where rs: "dict_get_or p ''records'' (JList []) = JList rs" "list_all wf_record rs"
      by (auto simp: wf_parsed_def split: json.splits)
    have r: "dict_get_or p ''records'' w = w \<or> (\<exists>rs. dict_get_or p ''records'' w = JList rs \<and> list_all wf_record rs)" for w
      using rs by (auto simp: dict_get_or_def split: option.splits)
    have m: "dict_get p ''meta'' = JNull \<or> is_dict (dict_get p ''meta'')"
      using wf p by (auto simp: wf_parsed_def wf_meta_def split: json.splits)
    show thesis
      by (rule that [of d p]) (use d p r m in \<open>simp_all add: py_or_def\<close>)
  qed
qed

text \<open>The records of a section that parsed, or \<open>None\<close>.\<close>

definition section_records :: "dict \<Rightarrow> string \<Rightarrow> json list option" where
  "section_records ev key = (if parsed_ok ev key then parsed_records (dict_get ev key) else None)"

lemma section_records_wf:
  "wf_evidence ev \<Longrightarrow> section_records ev key = Some rs \<Longrightarrow> list_all wf_record rs"
  using wf_parsed_records [OF wf_evidence_get, of ev key] by (auto simp: section_records_def split: if_splits)

lemma gated_records_Some:
  "section_records ev key = Some rs \<Longrightarrow> gated ev key s h (\<lambda>sec. Option.bind (parsed_records sec) k) = k rs"
  by (simp add: section_records_def gated_parsed split: if_splits)

lemma gated_records_None:
  assumes "wf_evidence ev" and "section_records ev key = None"
  obtains b where "gated ev key s h body = h b" "cr_status b = UNEVALUATED"
proof -
  have n: "\<not> parsed_ok ev key"
    using assms wf_parsed_records [OF wf_evidence_get [OF assms(1), of key]]
    by (auto simp: section_records_def split: if_splits)
  obtain x where x: "require_parsed ev key s = Some x"
    using require_parsed_total [OF assms(1), of key s] by blast
  with n obtain b where "x = Inl b" "cr_status b = UNEVALUATED" using require_parsed_unread by blast
  with x show thesis by (intro that [of b]) (simp_all add: gated_def)
qed

text \<open>The verdict of a gated check is the table's, when each handler and each body follows it.\<close>

lemma gated_table:
  assumes wf: "wf_evidence ev"
    and h: "\<And>b. cr_status b = UNEVALUATED \<Longrightarrow> \<exists>r. h b = Some r \<and> cr_status r = UNEVALUATED"
    and k: "\<And>rs. list_all wf_record rs \<Longrightarrow> section_records ev key = Some rs \<Longrightarrow>
      \<exists>r. k rs = Some r \<and> cr_status r = v rs"
  shows "\<exists>r. gated ev key s h (\<lambda>sec. Option.bind (parsed_records sec) k) = Some r \<and>
    cr_status r = (case section_records ev key of None \<Rightarrow> UNEVALUATED | Some rs \<Rightarrow> v rs)"
proof (cases "section_records ev key")
  case None
  with wf obtain b where "gated ev key s h (\<lambda>sec. Option.bind (parsed_records sec) k) = h b"
      "cr_status b = UNEVALUATED" by (rule gated_records_None)
  with h None show ?thesis by auto
next
  case (Some rs)
  with k section_records_wf [OF wf] show ?thesis by (simp add: gated_records_Some)
qed

subsection \<open>The contract of a rung's check\<close>

locale rung_check =
  fixes check :: "dict \<Rightarrow> string option \<Rightarrow> check_result option"
    and reads :: "string option \<Rightarrow> string list"
  assumes valid: "check ev s = Some r \<Longrightarrow> valid_result r"
    and absence: "check ev s = Some r \<Longrightarrow> \<forall>k\<in>set (reads s). \<not> parsed_ok ev k \<Longrightarrow> cr_status r = UNEVALUATED"
    and frame: "map_of ev ''device'' = map_of ev' ''device'' \<Longrightarrow>
      \<forall>k\<in>set (reads s). map_of ev k = map_of ev' k \<Longrightarrow> check ev s = check ev' s"
    and total: "wf_evidence ev \<Longrightarrow> check ev (Some x) \<noteq> None"
begin

lemma conclusive_cites: "check ev s = Some r \<Longrightarrow> is_conclusive r \<Longrightarrow> cr_evidence_keys r \<noteq> []"
  using valid [of ev s r] by (auto simp: valid_result_def is_conclusive_def)

lemma conclusive_read:
  "check ev s = Some r \<Longrightarrow> is_conclusive r \<Longrightarrow> \<exists>k\<in>set (reads s). parsed_ok ev k"
  using absence [of ev s r] by (cases "cr_status r") (auto simp: is_conclusive_def)

lemma empty_evidence: "check [] s = Some r \<Longrightarrow> cr_status r = UNEVALUATED"
  by (rule absence [of "[]" s r]) (simp_all add: parsed_ok_Nil)

end

text \<open>A check whose parameter is a name, as a rung passes it: the subject is never absent.\<close>

definition on_subject :: "(dict \<Rightarrow> string \<Rightarrow> check_result option) \<Rightarrow> dict \<Rightarrow> string option \<Rightarrow> check_result option" where
  "on_subject f ev s = (case s of Some x \<Rightarrow> f ev x | None \<Rightarrow> None)"

definition reads_subject :: "(string \<Rightarrow> string list) \<Rightarrow> string option \<Rightarrow> string list" where
  "reads_subject f s = (case s of Some x \<Rightarrow> f x | None \<Rightarrow> [])"

lemma rung_check_on_subject:
  assumes v: "\<And>ev x r. f ev x = Some r \<Longrightarrow> valid_result r"
    and a: "\<And>ev x r. f ev x = Some r \<Longrightarrow> \<forall>k\<in>set (rd x). \<not> parsed_ok ev k \<Longrightarrow> cr_status r = UNEVALUATED"
    and f: "\<And>ev ev' x. map_of ev ''device'' = map_of ev' ''device'' \<Longrightarrow>
      \<forall>k\<in>set (rd x). map_of ev k = map_of ev' k \<Longrightarrow> f ev x = f ev' x"
    and t: "\<And>ev x. wf_evidence ev \<Longrightarrow> f ev x \<noteq> None"
  shows "rung_check (on_subject f) (reads_subject rd)"
proof (unfold_locales, goal_cases)
  case (1 ev s r)
  then show ?case by (cases s) (auto simp: on_subject_def intro: v)
next
  case (2 ev s r)
  then show ?case by (cases s) (auto simp: on_subject_def reads_subject_def intro: a)
next
  case (3 ev ev' s)
  show ?case
  proof (cases s)
    case (Some x)
    with 3 have "f ev x = f ev' x" by (intro f) (simp_all add: reads_subject_def)
    with Some show ?thesis by (simp add: on_subject_def)
  qed (simp add: on_subject_def)
next
  case (4 ev x)
  then have "f ev x \<noteq> None" by (rule t)
  then show ?case by (simp only: on_subject_def option.case not_False_eq_True)
qed

subsection \<open>Sample sections for closed examples\<close>

definition parsed_section :: "json list \<Rightarrow> dict \<Rightarrow> json" where
  "parsed_section rs m = JDict [(''data'', JDict [(''parse_status'', JStr PARSE_OK),
     (''parsed'', JDict [(''records'', JList rs), (''meta'', JDict m)])])]"

definition interface_record :: "string \<Rightarrow> string \<Rightarrow> string \<Rightarrow> json" where
  "interface_record name admin line = JDict [(''interface'', JStr name), (''admin_state'', JStr admin),
     (''line_protocol'', JStr line)]"

end
