(* ===== verification/Session_Checks.thy ===== *)
theory Session_Checks
  imports Check_Result
begin

section \<open>The BGP ladder's checks: session, transport, route\<close>

text \<open>
  Models \<open>bgp_session_state\<close>, \<open>bgp_transport\<close> with its two notes, \<open>route_present\<close> and
  \<open>bgp_peer_exists\<close> of \<open>checks.py\<close>.  Each check is shown equal to a decision table on the
  parsed record, and each satisfies the contract of \<open>rung_check\<close>.
\<close>

subsection \<open>Operations\<close>

definition bgp_session_state :: "dict \<Rightarrow> string \<Rightarrow> check_result option" where
  "bgp_session_state ev peer = do {
     gated ev ''bgp'' (Some peer) Some (\<lambda>section. do {
         let key = evidence_key (device_of ev) ''bgp'' (Some peer);
         records \<leftarrow> parsed_records section;
         hit \<leftarrow> find_record ''neighbor'' peer records;
         case hit of
           Some record \<Rightarrow> do {
             state \<leftarrow> json_get_or record ''session_state'' (JStr []);
             prefixes \<leftarrow> json_get record ''prefixes_received'';
             if state = JStr ''Established''
             then healthy (Some peer) [key]
               (Some (''BGP session to '' @ peer @ '' is Established ('' @ py_str prefixes @
                      '' prefixes received)'')) None
             else broken
               (''BGP session to '' @ peer @ '' is not Established (state: '' @ py_str state @ '')'')
               (Some peer) [key] None
           }
         | None \<Rightarrow> unevaluated (''no record of BGP peer '' @ peer @ '' in '' @ repr_str ''bgp'') (Some peer) [] None
       })
   }"

text \<open>Device reasons: the suffix of the sentence, and the same text as a separate fragment.\<close>

definition state_note :: "dict \<Rightarrow> string \<times> json option" where
  "state_note meta =
     (let reason = dict_get meta ''state_reason''
      in if \<not> truthy reason then ([], None)
         else (''; the device reports the session state as '' @ py_repr reason, Some reason))"

definition last_reset_note :: "dict \<Rightarrow> string \<times> json option" where
  "last_reset_note meta =
     (let reason = dict_get meta ''last_reset_reason'';
          ago = dict_get meta ''last_reset_ago'';
          when_text = (if truthy ago then '' '' @ py_str ago @ '' ago'' else [])
      in if \<not> truthy reason then ([], None)
         else (''; the device last recorded a reset'' @ when_text @ '' with reason '' @ py_repr reason @
               '' (history, not current state)'', Some reason))"

definition TCP_UP_STATES :: "string list" where
  "TCP_UP_STATES = [''OpenSent'', ''OpenConfirm'', ''Established'']"

text \<open>Membership in a set of strings: a list or dictionary is unhashable and raises.\<close>

definition in_tcp_up_states :: "json \<Rightarrow> bool option" where
  "in_tcp_up_states v =
     (case v of JStr s \<Rightarrow> Some (s \<in> set TCP_UP_STATES)
      | JList _ \<Rightarrow> None | JDict _ \<Rightarrow> None | _ \<Rightarrow> Some False)"

definition fragments :: "json option list \<Rightarrow> json list option" where
  "fragments fs = (case concat (map (\<lambda>f. case f of Some v \<Rightarrow> [v] | None \<Rightarrow> []) fs) of
     [] \<Rightarrow> None | vs \<Rightarrow> Some vs)"

text \<open>The verdict on one peer's parsed metadata, then the check that reads it.\<close>

definition transport_of_meta :: "string \<Rightarrow> string \<Rightarrow> dict \<Rightarrow> check_result option" where
  "transport_of_meta peer key meta =
     (if \<not> truthy (dict_get_or meta ''found'' (JBool False))
      then unevaluated
        (''no record of BGP peer '' @ peer @ '' ('' @
         py_str (py_or (dict_get meta ''reason'') (JStr ''not found'')) @ '')'')
        (Some peer) [] None
      else
        let armed = dict_get meta ''socket_armed_read'';
            fsm = py_or (dict_get meta ''connection_state'') (dict_get meta ''state'');
            (state_suffix, state_fragment) = state_note meta;
            (reset_suffix, reset_fragment) = last_reset_note meta
        in if armed \<noteq> JNull
           then (if truthy armed
                 then do {
                   up \<leftarrow> in_tcp_up_states fsm;
                   if up
                   then healthy (Some peer) [key]
                     (Some (''TCP transport to '' @ peer @
                            '' is up (the socket is armed for read, session state '' @
                            py_str fsm @ '')'' @ state_suffix))
                     (fragments [state_fragment])
                   else unevaluated
                     (''cannot judge TCP transport to '' @ peer @
                      '': the socket is armed for read but the session is in '' @
                      py_str (py_or fsm (JStr ''an unreported state'')) @
                      '', which does not imply an established TCP connection (B-497)'' @
                      state_suffix @ reset_suffix)
                     (Some peer) [key] (fragments [state_fragment, reset_fragment])
                 }
                 else broken
                   (''no TCP transport to '' @ peer @ '' (the socket is not armed for read)'' @
                    state_suffix @ reset_suffix)
                   (Some peer) [key] (fragments [state_fragment, reset_fragment]))
           else (let connection_state = dict_get meta ''connection_state''
                 in if connection_state = JStr ''Established''
                    then healthy (Some peer) [key]
                      (Some (''BGP transport session to '' @ peer @
                             '' is Established (no socket state reported; read from the session state)''))
                      None
                    else broken
                      (''BGP transport session to '' @ peer @
                       '' is not Established (connection_state: '' @ py_str connection_state @
                       ''; no socket state reported)'' @ reset_suffix)
                      (Some peer) [key] (fragments [reset_fragment])))"

definition bgp_transport :: "dict \<Rightarrow> string \<Rightarrow> check_result option" where
  "bgp_transport ev peer = do {
     let key_name = template_key ''bgp_neighbor'' peer;
     gated ev key_name (Some peer) Some (\<lambda>section. do {
       m \<leftarrow> parsed_meta section;
       meta \<leftarrow> as_dict m;
       transport_of_meta peer (evidence_key (device_of ev) key_name None) meta
     })
   }"

definition ROUTE_NOT_IN_TABLE :: string where
  "ROUTE_NOT_IN_TABLE = ''% Network not in table''"

definition route_present :: "dict \<Rightarrow> string \<Rightarrow> check_result option" where
  "route_present ev prefix = do {
     let key_name = template_key ''route'' prefix;
     gated ev key_name (Some prefix) Some (\<lambda>section. do {
         let key = evidence_key (device_of ev) key_name None;
         m \<leftarrow> parsed_meta section;
         meta \<leftarrow> as_dict m;
         if truthy (dict_get_or meta ''found'' (JBool False))
         then healthy (Some prefix) [key]
           (Some (''route to '' @ prefix @ '' is present ('' @ py_str (dict_get_or meta ''path_count'' (JStr ''0'')) @ '' path(s))'')) None
         else broken
           (''no route to '' @ prefix @ '' (device reports '' @ repr_str ROUTE_NOT_IN_TABLE @ '')'')
           (Some prefix) [key] (Some [JStr ROUTE_NOT_IN_TABLE])
       })
   }"

text \<open>\<open>', '.join(sorted(names)) or 'none'\<close>: anything but strings raises.\<close>

definition names_of :: "json list \<Rightarrow> string list option" where
  "names_of vs = map_m (\<lambda>v. case v of JStr s \<Rightarrow> Some s | _ \<Rightarrow> None) vs"

definition listed_names :: "json list \<Rightarrow> string option" where
  "listed_names vs = do {
     names \<leftarrow> names_of vs;
     Some (if names = [] then ''none'' else py_join '', '' (sort names))
   }"

text \<open>\<open>[r.get(f) for r in records if r.get(f)]\<close>.\<close>

definition present_fields :: "string \<Rightarrow> json list \<Rightarrow> json list option" where
  "present_fields f records = map_option (filter truthy) (map_m (\<lambda>r. json_get r f) records)"

definition bgp_peer_exists :: "dict \<Rightarrow> string \<Rightarrow> check_result option" where
  "bgp_peer_exists ev peer = do {
     gated ev ''bgp'' (Some peer) Some (\<lambda>section. do {
         let device = device_of ev;
         let key = evidence_key device ''bgp'' (Some peer);
         records \<leftarrow> parsed_records section;
         neighbours \<leftarrow> present_fields ''neighbor'' records;
         if JStr peer \<in> set neighbours
         then healthy (Some peer) [key] (Some (device @ '' has a BGP neighbour at '' @ peer)) None
         else do {
           listing \<leftarrow> listed_names neighbours;
           broken (device @ '' has no BGP neighbour at '' @ peer @ ''. It has '' @
                   show_nat (length neighbours) @ '': '' @ listing)
             (Some peer) [key] None
         }
       })
   }"


subsection \<open>Decision tables\<close>

text \<open>What each check promises, as a function of the parsed fields alone.\<close>

definition session_verdict :: "json list \<Rightarrow> string \<Rightarrow> check_status" where
  "session_verdict records peer =
     (case find (\<lambda>r. field r ''neighbor'' = JStr peer) records of
        None \<Rightarrow> UNEVALUATED
      | Some r \<Rightarrow> if field r ''session_state'' = JStr ''Established'' then HEALTHY else BROKEN)"

definition transport_verdict :: "dict \<Rightarrow> check_status" where
  "transport_verdict meta =
     (let armed = dict_get meta ''socket_armed_read'';
          fsm = py_or (dict_get meta ''connection_state'') (dict_get meta ''state'')
      in if \<not> truthy (dict_get_or meta ''found'' (JBool False)) then UNEVALUATED
         else if armed = JNull
         then (if dict_get meta ''connection_state'' = JStr ''Established'' then HEALTHY else BROKEN)
         else if \<not> truthy armed then BROKEN
         else if in_tcp_up_states fsm = Some True then HEALTHY else UNEVALUATED)"

lemma bgp_session_state_verdict:
  assumes "parsed_ok ev ''bgp''" and "parsed_records (dict_get ev ''bgp'') = Some rs"
    and "list_all is_dict rs"
  shows "\<exists>r. bgp_session_state ev peer = Some r \<and> cr_status r = session_verdict rs peer \<and>
    cr_subject r = Some peer"
proof -
  note hit = find_record_find [OF assms(3), of "''neighbor''" peer]
  show ?thesis
  proof (cases "find (\<lambda>r. field r ''neighbor'' = JStr peer) rs")
    case None
    with assms(1,2) hit show ?thesis
      by (simp add: bgp_session_state_def gated_parsed session_verdict_def verdict_defs CheckResult_def)
  next
    case (Some rec)
    with assms(3) obtain d where d: "rec = JDict d" using find_dict by blast
    have e: "dict_get_or d ''session_state'' (JStr []) = JStr ''Established'' \<longleftrightarrow>
        dict_get d ''session_state'' = JStr ''Established''"
      by (simp add: dict_get_or_def split: option.split)
    from assms(1,2) hit Some d e show ?thesis
      by (simp add: bgp_session_state_def gated_parsed session_verdict_def verdict_defs CheckResult_def)
  qed
qed

lemma transport_of_meta_verdict:
  "transport_of_meta peer key meta = Some r \<Longrightarrow>
     cr_status r = transport_verdict meta \<and> cr_subject r = Some peer \<and> valid_result r"
  by (auto simp: transport_of_meta_def transport_verdict_def Let_def bind_Some_iff
      split: if_splits prod.splits dest!: verdict_SomeD)

lemma bgp_transport_verdict:
  assumes "parsed_ok ev (template_key ''bgp_neighbor'' peer)" and "bgp_transport ev peer = Some r"
  shows "\<exists>meta. parsed_meta (dict_get ev (template_key ''bgp_neighbor'' peer)) = Some (JDict meta) \<and>
    cr_status r = transport_verdict meta \<and> cr_subject r = Some peer"
proof -
  from assms obtain meta where
    "parsed_meta (dict_get ev (template_key ''bgp_neighbor'' peer)) = Some (JDict meta)"
    "transport_of_meta peer (evidence_key (device_of ev) (template_key ''bgp_neighbor'' peer) None) meta = Some r"
    by (auto simp: bgp_transport_def Let_def gated_parsed bind_Some_iff split: if_splits)
  then show ?thesis using transport_of_meta_verdict by blast
qed

lemma route_present_verdict:
  assumes "parsed_ok ev (template_key ''route'' prefix)" and "route_present ev prefix = Some r"
  shows "\<exists>meta. parsed_meta (dict_get ev (template_key ''route'' prefix)) = Some (JDict meta) \<and>
    cr_status r = (if truthy (dict_get_or meta ''found'' (JBool False)) then HEALTHY else BROKEN)"
  using assms
  by (auto simp: route_present_def Let_def gated_parsed bind_Some_iff
      split: if_splits dest!: verdict_SomeD)


subsection \<open>Every check is a rung check\<close>

lemma opt_string_cases: "opt_string v \<Longrightarrow> (v = JNull \<Longrightarrow> P) \<Longrightarrow> (\<And>s. v = JStr s \<Longrightarrow> P) \<Longrightarrow> P"
  by (cases v) (auto simp: opt_string_def)

definition fragment_ok :: "json option \<Rightarrow> bool" where
  "fragment_ok f \<longleftrightarrow> (case f of None \<Rightarrow> True | Some v \<Rightarrow> is_string v \<and> truthy v)"

lemma fragment_ok_cases:
  "fragment_ok f \<Longrightarrow> (f = None \<Longrightarrow> P) \<Longrightarrow> (\<And>s. f = Some (JStr s) \<Longrightarrow> s \<noteq> [] \<Longrightarrow> P) \<Longrightarrow> P"
  by (cases f) (auto simp: fragment_ok_def elim: is_stringE)

lemma fragments_total:
  assumes "keys \<noteq> []" and "fragment_ok a" and "fragment_ok b"
  shows "\<exists>r. CheckResult st rs subj keys (fragments [a]) = Some r"
    and "\<exists>r. CheckResult st rs subj keys (fragments [a, b]) = Some r"
  using assms by (auto simp: CheckResult_def fragments_def elim!: fragment_ok_cases)

lemma notes_ok:
  assumes "wf_meta (JDict meta)"
  shows "fragment_ok (snd (state_note meta))" and "fragment_ok (snd (last_reset_note meta))"
proof -
  have "opt_string (dict_get meta ''state_reason'')" "opt_string (dict_get meta ''last_reset_reason'')"
    using assms by (simp_all add: wf_meta_def)
  then show "fragment_ok (snd (state_note meta))" "fragment_ok (snd (last_reset_note meta))"
    by (auto simp: state_note_def last_reset_note_def Let_def fragment_ok_def elim!: opt_string_cases)
qed

lemma bgp_session_state_valid: "bgp_session_state ev peer = Some r \<Longrightarrow> valid_result r"
  unfolding bgp_session_state_def
  by (erule gated_valid_Some) (auto simp: bind_Some_iff Let_def split: option.splits if_splits dest!: verdict_SomeD)

lemma bgp_session_state_unread:
  "\<not> parsed_ok ev ''bgp'' \<Longrightarrow> bgp_session_state ev peer = Some r \<Longrightarrow> cr_status r = UNEVALUATED"
  unfolding bgp_session_state_def Let_def by (rule gated_unread_status)

lemma bgp_session_state_frame:
  assumes "map_of ev ''device'' = map_of ev' ''device''" and "map_of ev ''bgp'' = map_of ev' ''bgp''"
  shows "bgp_session_state ev peer = bgp_session_state ev' peer"
  unfolding bgp_session_state_def device_of_cong [OF assms(1)] by (rule gated_cong [OF assms(2) refl refl])

lemma bgp_session_state_total: "wf_evidence ev \<Longrightarrow> bgp_session_state ev peer \<noteq> None"
  unfolding bgp_session_state_def
proof (erule gated_total, goal_cases)
  case (2 sec)
  then obtain rs where rs: "parsed_records (JDict sec) = Some rs" "list_all wf_record rs"
    using wf_parsed_records by blast
  from rs(2) show ?case
    by (rule wf_find_record [of rs "''neighbor''" peer]) (simp_all add: rs(1) Let_def)
qed simp

lemma bgp_transport_valid: "bgp_transport ev peer = Some r \<Longrightarrow> valid_result r"
  unfolding bgp_transport_def Let_def
  by (erule gated_valid_Some) (auto simp: bind_Some_iff dest!: transport_of_meta_verdict)

lemma bgp_transport_unread:
  "\<not> parsed_ok ev (template_key ''bgp_neighbor'' peer) \<Longrightarrow> bgp_transport ev peer = Some r \<Longrightarrow> cr_status r = UNEVALUATED"
  unfolding bgp_transport_def Let_def by (rule gated_unread_status)

lemma bgp_transport_frame:
  assumes "map_of ev ''device'' = map_of ev' ''device''"
    and "map_of ev (template_key ''bgp_neighbor'' peer) = map_of ev' (template_key ''bgp_neighbor'' peer)"
  shows "bgp_transport ev peer = bgp_transport ev' peer"
  unfolding bgp_transport_def Let_def device_of_cong [OF assms(1)]
  by (rule gated_cong [OF assms(2) refl refl])

lemma transport_of_meta_total:
  assumes "wf_meta (JDict meta)" shows "transport_of_meta peer key meta \<noteq> None"
proof -
  obtain ss sf where s: "state_note meta = (ss, sf)" "fragment_ok sf"
    using notes_ok(1) [OF assms] by (cases "state_note meta") simp
  obtain ls lf where l: "last_reset_note meta = (ls, lf)" "fragment_ok lf"
    using notes_ok(2) [OF assms] by (cases "last_reset_note meta") simp
  have fsm: "in_tcp_up_states (py_or (dict_get meta ''connection_state'') (dict_get meta ''state'')) \<noteq> None"
    using assms by (auto simp: wf_meta_def py_or_def in_tcp_up_states_def opt_string_def split: json.splits)
  note f = fragments_total [OF _ s(2) l(2)] fragments_total [OF _ l(2) s(2)]
  show ?thesis
    using fsm by (auto simp: transport_of_meta_def s(1) l(1) Let_def verdict_defs f)
qed

lemma bgp_transport_total: "wf_evidence ev \<Longrightarrow> bgp_transport ev peer \<noteq> None"
  unfolding bgp_transport_def Let_def
proof (erule gated_total, goal_cases)
  case (2 sec)
  then obtain m where "parsed_meta (JDict sec) = Some (JDict m)" "wf_meta (JDict m)"
    using wf_parsed_meta by blast
  then show ?case using transport_of_meta_total by simp
qed simp

lemma route_present_valid: "route_present ev prefix = Some r \<Longrightarrow> valid_result r"
  unfolding route_present_def Let_def
  by (erule gated_valid_Some) (auto simp: bind_Some_iff split: if_splits dest!: verdict_SomeD)

lemma route_present_unread:
  "\<not> parsed_ok ev (template_key ''route'' prefix) \<Longrightarrow> route_present ev prefix = Some r \<Longrightarrow> cr_status r = UNEVALUATED"
  unfolding route_present_def Let_def by (rule gated_unread_status)

lemma route_present_frame:
  assumes "map_of ev ''device'' = map_of ev' ''device''"
    and "map_of ev (template_key ''route'' prefix) = map_of ev' (template_key ''route'' prefix)"
  shows "route_present ev prefix = route_present ev' prefix"
  unfolding route_present_def Let_def device_of_cong [OF assms(1)]
  by (rule gated_cong [OF assms(2) refl refl])

lemma route_present_total: "wf_evidence ev \<Longrightarrow> route_present ev prefix \<noteq> None"
  unfolding route_present_def Let_def
proof (erule gated_total, goal_cases)
  case (2 sec)
  then obtain m where "parsed_meta (JDict sec) = Some (JDict m)"
    using wf_parsed_meta by blast
  then show ?case by (simp add: verdict_defs CheckResult_def ROUTE_NOT_IN_TABLE_def)
qed simp

lemma bgp_peer_exists_valid: "bgp_peer_exists ev peer = Some r \<Longrightarrow> valid_result r"
  unfolding bgp_peer_exists_def Let_def
  by (erule gated_valid_Some) (auto simp: bind_Some_iff split: if_splits dest!: verdict_SomeD)

lemma bgp_peer_exists_unread:
  "\<not> parsed_ok ev ''bgp'' \<Longrightarrow> bgp_peer_exists ev peer = Some r \<Longrightarrow> cr_status r = UNEVALUATED"
  unfolding bgp_peer_exists_def Let_def by (rule gated_unread_status)

lemma bgp_peer_exists_frame:
  assumes "map_of ev ''device'' = map_of ev' ''device''" and "map_of ev ''bgp'' = map_of ev' ''bgp''"
  shows "bgp_peer_exists ev peer = bgp_peer_exists ev' peer"
  unfolding bgp_peer_exists_def Let_def device_of_cong [OF assms(1)]
  by (rule gated_cong [OF assms(2) refl refl])

lemma names_of_truthy:
  assumes "list_all opt_string vs" shows "names_of (filter truthy vs) \<noteq> None"
  unfolding names_of_def using assms
  by (intro map_m_total) (auto simp: list_all_iff opt_string_def split: json.splits)

lemma listed_names_total: "list_all opt_string vs \<Longrightarrow> listed_names (filter truthy vs) \<noteq> None"
  using names_of_truthy [of vs] by (auto simp: listed_names_def)

lemma present_fields_wf:
  assumes "list_all wf_record rs" and "f \<in> {''interface'', ''local_interface'', ''neighbor''}"
  shows "present_fields f rs = Some (filter truthy (map (\<lambda>r. field r f) rs)) \<and>
    list_all opt_string (map (\<lambda>r. field r f) rs)"
proof -
  have "map_m (\<lambda>r. json_get r f) rs = Some (map (\<lambda>r. field r f) rs)"
    using wf_records_dicts [OF assms(1)] by (intro map_m_map) (auto simp: list_all_iff json_get_field)
  moreover have "opt_string (field r f)" if "r \<in> set rs" for r
    using assms that by (auto simp: list_all_iff wf_record_field)
  ultimately show ?thesis by (simp add: present_fields_def list_all_iff)
qed

lemma bgp_peer_exists_total: "wf_evidence ev \<Longrightarrow> bgp_peer_exists ev peer \<noteq> None"
  unfolding bgp_peer_exists_def Let_def
proof (erule gated_total, goal_cases)
  case (2 sec)
  then obtain rs where rs: "parsed_records (JDict sec) = Some rs" "list_all wf_record rs"
    using wf_parsed_records by blast
  note p = present_fields_wf [OF rs(2), of "''neighbor''", simplified]
  obtain l where "listed_names (filter truthy (map (\<lambda>r. field r ''neighbor'') rs)) = Some l"
    using listed_names_total p by blast
  with p rs(1) show ?case by simp
qed simp

interpretation session_check: rung_check "on_subject bgp_session_state" "reads_subject (\<lambda>_. [''bgp''])"
  by (rule rung_check_on_subject)
    (auto intro: bgp_session_state_valid bgp_session_state_unread bgp_session_state_frame simp: bgp_session_state_total [simplified])

interpretation transport_check: rung_check "on_subject bgp_transport"
    "reads_subject (\<lambda>peer. [template_key ''bgp_neighbor'' peer])"
  by (rule rung_check_on_subject)
    (auto intro: bgp_transport_valid bgp_transport_unread bgp_transport_frame simp: bgp_transport_total [simplified])

interpretation route_check: rung_check "on_subject route_present"
    "reads_subject (\<lambda>prefix. [template_key ''route'' prefix])"
  by (rule rung_check_on_subject)
    (auto intro: route_present_valid route_present_unread route_present_frame simp: route_present_total [simplified])

interpretation peer_exists_check: rung_check "on_subject bgp_peer_exists" "reads_subject (\<lambda>_. [''bgp''])"
  by (rule rung_check_on_subject)
    (auto intro: bgp_peer_exists_valid bgp_peer_exists_unread bgp_peer_exists_frame simp: bgp_peer_exists_total [simplified])

subsection \<open>Properties\<close>

text \<open>On well-formed evidence the BGP session check always answers, and its verdict is that of the first
  record naming the peer: healthy exactly when that record reads Established, unread without one.\<close>

theorem bgp_session_state_table:
  assumes "wf_evidence ev"
  shows "\<exists>r. bgp_session_state ev peer = Some r \<and>
    cr_status r = (case section_records ev ''bgp'' of None \<Rightarrow> UNEVALUATED | Some rs \<Rightarrow> session_verdict rs peer)"
proof (cases "section_records ev ''bgp''")
  case None
  then have "\<not> parsed_ok ev ''bgp''"
    using wf_parsed_records [OF wf_evidence_get [OF assms], of "''bgp''"] by (auto simp: section_records_def)
  moreover obtain r where "bgp_session_state ev peer = Some r" using bgp_session_state_total [OF assms] by blast
  ultimately show ?thesis using None bgp_session_state_unread by simp
next
  case (Some rs)
  then have "parsed_ok ev ''bgp''" "parsed_records (dict_get ev ''bgp'') = Some rs"
    by (auto simp: section_records_def split: if_splits)
  from bgp_session_state_verdict [OF this wf_records_dicts [OF section_records_wf [OF assms Some]]] Some
  show ?thesis by auto
qed

definition session_example :: dict where
  "session_example = [(''device'', JStr ''RR1''), (''bgp'', parsed_section
     [JDict [(''neighbor'', JStr ''10.255.0.11''), (''session_state'', JStr ''Established'')],
      JDict [(''neighbor'', JStr ''10.255.0.12''), (''session_state'', JStr ''Active'')]] [])]"

theorem bgp_session_state_witness:
  "\<exists>r. bgp_session_state session_example ''10.255.0.12'' = Some r \<and> cr_status r = BROKEN"
proof -
  have "wf_evidence session_example" by code_simp
  moreover have "(case section_records session_example ''bgp'' of None \<Rightarrow> UNEVALUATED
      | Some rs \<Rightarrow> session_verdict rs ''10.255.0.12'') = BROKEN" by code_simp
  ultimately show ?thesis using bgp_session_state_table [of session_example "''10.255.0.12''"] by auto
qed

text \<open>On well-formed evidence the transport check always answers, and its verdict is the table's on the
  parsed metadata: the socket flag proves a transport only in a state that needs a TCP connection,
  and its absence falls back to the session state.\<close>

theorem bgp_transport_table:
  assumes "wf_evidence ev"
  shows "\<exists>r. bgp_transport ev peer = Some r \<and>
    (if parsed_ok ev (template_key ''bgp_neighbor'' peer)
     then \<exists>meta. parsed_meta (dict_get ev (template_key ''bgp_neighbor'' peer)) = Some (JDict meta) \<and>
            cr_status r = transport_verdict meta
     else cr_status r = UNEVALUATED)"
proof -
  obtain r where r: "bgp_transport ev peer = Some r" using bgp_transport_total [OF assms] by blast
  show ?thesis
    using bgp_transport_verdict [OF _ r] bgp_transport_unread [OF _ r] r by auto
qed

definition transport_example :: dict where
  "transport_example = [(''device'', JStr ''RR1''), (''bgp_neighbor:10.255.0.12'', parsed_section []
     [(''found'', JBool True), (''socket_armed_read'', JBool True), (''connection_state'', JStr ''Active'')])]"

theorem bgp_transport_witness:
  "\<exists>r. bgp_transport transport_example ''10.255.0.12'' = Some r \<and> cr_status r = UNEVALUATED"
proof -
  have "wf_evidence transport_example" by code_simp
  moreover have "(case parsed_meta (dict_get transport_example (template_key ''bgp_neighbor'' ''10.255.0.12'')) of
      Some (JDict meta) \<Rightarrow> transport_verdict meta = UNEVALUATED | _ \<Rightarrow> False)" by code_simp
  ultimately show ?thesis
    using bgp_transport_table [of transport_example "''10.255.0.12''"] by (auto split: if_splits)
qed

end
