(* ===== verification/Neighbor_Checks.thy ===== *)
theory Neighbor_Checks
  imports Check_Result Interface_Kind
begin

section \<open>Adjacency checks: IS-IS and LDP\<close>

text \<open>
  Models \<open>isis_adjacency\<close>, \<open>isis_neighbor_up\<close> and \<open>ldp_session_up\<close> of \<open>checks.py\<close>.  The two
  top-rung checks corroborate the absence of a record against other sections, tier by tier; each
  tier is one definition, which ends in the next one.  The lemmas give the decision table of
  each check and show that silence alone is never read as health.
\<close>

subsection \<open>Shared reads\<close>

text \<open>The first record of a loop whose field names this interface, in either spelling.\<close>

definition names_interface :: "string \<Rightarrow> string \<Rightarrow> json \<Rightarrow> bool option" where
  "names_interface f name r = do { v \<leftarrow> json_get_or r f (JStr []); same_interface_field v name }"

definition find_interface :: "string \<Rightarrow> string \<Rightarrow> json list \<Rightarrow> json option option" where
  "find_interface f name records = find_m (names_interface f name) records"

text \<open>Admin and line state of an interface's own record, when it is there and not fully up.\<close>

definition interface_not_up :: "string \<Rightarrow> json list \<Rightarrow> (json \<times> json) option option" where
  "interface_not_up name records = do {
     hit \<leftarrow> find_interface ''interface'' name records;
     case hit of
       None \<Rightarrow> Some None
     | Some record \<Rightarrow> do {
         admin_state \<leftarrow> json_get record ''admin_state'';
         line_state \<leftarrow> json_get record ''line_protocol'';
         Some (if admin_state \<noteq> JStr ''up'' \<or> line_state \<noteq> JStr ''up''
               then Some (admin_state, line_state) else None)
       }
   }"

definition bail_reason :: "check_result \<Rightarrow> string" where
  "bail_reason b = (case cr_reason b of Some r \<Rightarrow> r | None \<Rightarrow> ''None'')"

subsection \<open>IS-IS\<close>

definition isis_adjacency :: "dict \<Rightarrow> string option \<Rightarrow> check_result option" where
  "isis_adjacency ev intf =
     gated ev ''isis'' intf Some (\<lambda>section. do {
       let key = evidence_key (device_of ev) ''isis'' intf;
       records \<leftarrow> parsed_records section;
       case intf of
         None \<Rightarrow>
           if records = []
           then broken ''no IS-IS adjacencies; device is isolated at the IGP layer'' None [key] None
           else do {
             not_up \<leftarrow> filter_m (\<lambda>r. map_option (\<lambda>s. s \<noteq> JStr ''Up'') (json_get r ''state'')) records;
             if not_up \<noteq> [] then do {
               details \<leftarrow> map_m (\<lambda>r. do {
                 system_id \<leftarrow> json_get r ''system_id'';
                 state \<leftarrow> json_get r ''state'';
                 Some (py_str system_id @ '' ('' @ py_str state @ '')'') }) not_up;
               broken (''IS-IS adjacency not Up: '' @ py_join '', '' details) None [key] None
             }
             else healthy None [key]
               (Some (show_nat (length records) @ '' IS-IS adjacency(ies), all Up'')) None
           }
       | Some name \<Rightarrow> do {
           hit \<leftarrow> find_record ''interface'' name records;
           case hit of
             Some record \<Rightarrow> do {
               state \<leftarrow> json_get record ''state'';
               system_id \<leftarrow> json_get record ''system_id'';
               if state = JStr ''Up''
               then healthy intf [key]
                 (Some (''IS-IS adjacency on '' @ name @ '' to '' @ py_str system_id @ '' is Up'')) None
               else broken (''IS-IS adjacency on '' @ name @ '' is '' @ py_str state @ '', not Up'')
                 intf [key] None
             }
           | None \<Rightarrow> unevaluated (''no IS-IS adjacency record for interface '' @ repr_str name)
               intf [] None
         }
     })"

text \<open>Third tier of \<open>isis_neighbor_up\<close>: does the interface's own state explain the silence?\<close>

definition isis_interface_tier :: "dict \<Rightarrow> string \<Rightarrow> check_result option" where
  "isis_interface_tier ev name = do {
     let device = device_of ev;
     let isis_key = evidence_key device ''isis'' (Some name);
     gated ev ''interfaces'' (Some name)
       (\<lambda>bail. unevaluated
          (''no IS-IS adjacency record for interface '' @ repr_str name @
           '', no LLDP neighbor there, and the interface'' @ [CHR 0x27] @ ''s own state could not be read either ('' @
           bail_reason bail @ '')'') (Some name) [] None)
       (\<lambda>section. do {
          records \<leftarrow> parsed_records section;
          state \<leftarrow> interface_not_up name records;
          case state of
            Some (admin_state, line_state) \<Rightarrow>
              broken (''no IS-IS adjacency on '' @ name @
                      '', and no LLDP neighbor either -- the interface itself is not up (admin_state='' @
                      py_repr admin_state @ '', line_state='' @ py_repr line_state @
                      ''), which explains both'')
                (Some name) [isis_key, evidence_key device ''interfaces'' (Some name)] None
          | None \<Rightarrow> unevaluated
              (''no IS-IS adjacency record for interface '' @ repr_str name @
               '', no LLDP neighbor there, and the interface itself reads up -- it may simply not be an IS-IS-enabled link'')
              (Some name) [] None
        })
   }"

text \<open>Second tier: is a neighbour cabled there according to LLDP?\<close>

definition isis_lldp_tier :: "dict \<Rightarrow> string \<Rightarrow> check_result option" where
  "isis_lldp_tier ev name = do {
     let device = device_of ev;
     let isis_key = evidence_key device ''isis'' (Some name);
     gated ev ''lldp'' (Some name)
       (\<lambda>bail. unevaluated
          (''no IS-IS adjacency record for interface '' @ repr_str name @
           '', and LLDP could not be read to confirm whether a neighbor is cabled there ('' @
           bail_reason bail @ '')'') (Some name) [] None)
       (\<lambda>section. do {
          records \<leftarrow> parsed_records section;
          hit \<leftarrow> find_interface ''local_interface'' name records;
          case hit of
            Some record \<Rightarrow> do {
              neighbor \<leftarrow> json_get record ''neighbor'';
              neighbor_interface \<leftarrow> json_get record ''neighbor_interface'';
              broken (''no IS-IS adjacency on '' @ name @ '', despite LLDP showing '' @
                      py_str neighbor @ '' cabled there on '' @ py_str neighbor_interface @
                      '' -- a real, physically-connected neighbor with no IS-IS adjacency formed'')
                (Some name) [isis_key, evidence_key device ''lldp'' (Some name)] None
            }
          | None \<Rightarrow> isis_interface_tier ev name
        })
   }"

definition isis_neighbor_up :: "dict \<Rightarrow> string \<Rightarrow> check_result option" where
  "isis_neighbor_up ev name =
     gated ev ''isis'' (Some name) Some (\<lambda>section. do {
       let isis_key = evidence_key (device_of ev) ''isis'' (Some name);
       records \<leftarrow> parsed_records section;
       hit \<leftarrow> find_interface ''interface'' name records;
       case hit of
         Some record \<Rightarrow> do {
           state \<leftarrow> json_get record ''state'';
           system_id \<leftarrow> json_get record ''system_id'';
           if state = JStr ''Up''
           then healthy (Some name) [isis_key]
             (Some (''IS-IS adjacency on '' @ name @ '' to '' @ py_str system_id @ '' is Up'')) None
           else broken (''IS-IS adjacency on '' @ name @ '' is '' @ py_str state @ '', not Up'')
             (Some name) [isis_key] None
         }
       | None \<Rightarrow> isis_lldp_tier ev name
     })"

subsection \<open>LDP\<close>

definition lists_interface :: "string \<Rightarrow> json list \<Rightarrow> bool option" where
  "lists_interface name records = any_m (names_interface ''interface'' name) records"

text \<open>Fifth tier: does the inventory's declared intent require LDP on this interface?\<close>

definition ldp_intent_tier :: "dict \<Rightarrow> string \<Rightarrow> check_result option" where
  "ldp_intent_tier ev name = do {
     let device = device_of ev;
     gated ev ''ldp_intent'' (Some name)
       (\<lambda>bail. unevaluated
          (''no LDP session record or discovery source on '' @ name @
           '', and the declared LDP intent could not be read ('' @ bail_reason bail @ '')'')
          (Some name) [] None)
       (\<lambda>section. do {
          records \<leftarrow> parsed_records section;
          declared \<leftarrow> lists_interface name records;
          if declared
          then broken (''inventory declares LDP is required on '' @ name @
                       '', but the current configuration, discovery, and session state are all absent'')
            (Some name)
            [evidence_key device ''ldp'' (Some name), evidence_key device ''ldp_discovery'' (Some name),
             evidence_key device ''interfaces'' (Some name), evidence_key device ''config_ldp'' None,
             evidence_key device ''ldp_intent'' None] None
          else unevaluated
            (''no LDP session record for interface '' @ repr_str name @
             '', no LDP discovery source there, and the interface itself reads up -- LDP is not configured on this link'')
            (Some name) [] None
        })
   }"

text \<open>Fourth tier: is LDP configured on this interface?\<close>

definition ldp_config_tier :: "dict \<Rightarrow> string \<Rightarrow> check_result option" where
  "ldp_config_tier ev name = do {
     let device = device_of ev;
     gated ev ''config_ldp'' (Some name)
       (\<lambda>bail. unevaluated
          (''no LDP session record or discovery source on '' @ name @
           '', and the bounded LDP configuration could not be read to establish whether LDP is enabled there ('' @
           bail_reason bail @ '')'') (Some name) [] None)
       (\<lambda>section. do {
          records \<leftarrow> parsed_records section;
          configured \<leftarrow> lists_interface name records;
          if configured
          then broken (''LDP is configured on '' @ name @
                       '', but it has no LDP discovery source or session record while the interface is up'')
            (Some name)
            [evidence_key device ''ldp'' (Some name), evidence_key device ''ldp_discovery'' (Some name),
             evidence_key device ''interfaces'' (Some name), evidence_key device ''config_ldp'' None] None
          else ldp_intent_tier ev name
        })
   }"

text \<open>Third tier: does the interface's own state explain the silence?\<close>

definition ldp_interface_tier :: "dict \<Rightarrow> string \<Rightarrow> check_result option" where
  "ldp_interface_tier ev name = do {
     let device = device_of ev;
     gated ev ''interfaces'' (Some name)
       (\<lambda>bail. unevaluated
          (''no LDP session record for interface '' @ repr_str name @
           '', no LDP discovery source there, and the interface'' @ [CHR 0x27] @ ''s own state could not be read either ('' @
           bail_reason bail @ '')'') (Some name) [] None)
       (\<lambda>section. do {
          records \<leftarrow> parsed_records section;
          state \<leftarrow> interface_not_up name records;
          case state of
            Some (admin_state, line_state) \<Rightarrow>
              broken (''no LDP session or discovery on '' @ name @
                      '' -- the interface itself is not up (admin_state='' @ py_repr admin_state @
                      '', line_state='' @ py_repr line_state @ ''), which explains both'')
                (Some name)
                [evidence_key device ''ldp'' (Some name), evidence_key device ''interfaces'' (Some name)] None
          | None \<Rightarrow> ldp_config_tier ev name
        })
   }"

text \<open>Second tier: has LDP discovery seen a peer, or is it at least sending, on this interface?\<close>

definition ldp_discovery_tier :: "dict \<Rightarrow> string \<Rightarrow> check_result option" where
  "ldp_discovery_tier ev name = do {
     let device = device_of ev;
     gated ev ''ldp_discovery'' (Some name)
       (\<lambda>bail. unevaluated
          (''no LDP session record for interface '' @ repr_str name @
           '', and LDP discovery could not be read to confirm whether Hello has formed there ('' @
           bail_reason bail @ '')'') (Some name) [] None)
       (\<lambda>section. do {
          records \<leftarrow> parsed_records section;
          hit \<leftarrow> find_interface ''interface'' name records;
          case hit of
            Some record \<Rightarrow> do {
              peer_id \<leftarrow> json_get record ''peer_id'';
              broken
                (if truthy peer_id
                 then ''LDP Hello established with peer '' @ py_str peer_id @ '' on '' @ name @
                      '', but no LDP session record for it -- session not Oper despite a completed discovery''
                 else ''LDP Hello is configured on '' @ name @
                      '' but no peer has been discovered there (sending only, not receiving a reply) -- no LDP session can form'')
                (Some name)
                [evidence_key device ''ldp'' (Some name),
                 evidence_key device ''ldp_discovery'' (Some name)] None
            }
          | None \<Rightarrow> ldp_interface_tier ev name
        })
   }"

text \<open>A session record is about this interface when one of its discovery interfaces is.\<close>

definition discovered_via :: "string \<Rightarrow> json \<Rightarrow> bool option" where
  "discovered_via name r = do {
     v \<leftarrow> json_get r ''discovery_interfaces'';
     case py_or v (JList []) of
       JList ns \<Rightarrow> any_m (\<lambda>n. same_interface_field n name) ns
     | JStr s \<Rightarrow> any_m (\<lambda>c. Some (same_interface [c] name)) s
     | JDict d \<Rightarrow> any_m (\<lambda>(k, _). Some (same_interface k name)) d
     | _ \<Rightarrow> None
   }"

definition ldp_session_up :: "dict \<Rightarrow> string \<Rightarrow> check_result option" where
  "ldp_session_up ev name =
     gated ev ''ldp'' (Some name) Some (\<lambda>section. do {
       let ldp_key = evidence_key (device_of ev) ''ldp'' (Some name);
       records \<leftarrow> parsed_records section;
       hit \<leftarrow> find_m (discovered_via name) records;
       case hit of
         Some record \<Rightarrow> do {
           peer_id \<leftarrow> json_get record ''peer_id'';
           state \<leftarrow> json_get record ''state'';
           if state = JStr ''Oper''
           then healthy (Some name) [ldp_key]
             (Some (''LDP session with peer '' @ py_str peer_id @ '' on '' @ name @ '' is Oper'')) None
           else broken
             (''LDP session with peer '' @ py_str peer_id @ '' on '' @ name @ '' is '' @ py_str state @
              '', not Oper'') (Some name) [ldp_key] None
         }
       | None \<Rightarrow> ldp_discovery_tier ev name
     })"


subsection \<open>Decision tables\<close>

definition named :: "string \<Rightarrow> string \<Rightarrow> json \<Rightarrow> bool" where
  "named f name r = (case field r f of JStr s \<Rightarrow> same_interface s name | _ \<Rightarrow> False)"

definition reads_down :: "json \<Rightarrow> bool" where
  "reads_down r \<longleftrightarrow> field r ''admin_state'' \<noteq> JStr ''up'' \<or> field r ''line_protocol'' \<noteq> JStr ''up''"

definition interface_down :: "string \<Rightarrow> json list \<Rightarrow> bool" where
  "interface_down name rs = (case find (named ''interface'' name) rs of None \<Rightarrow> False | Some r \<Rightarrow> reads_down r)"

definition via :: "string \<Rightarrow> json \<Rightarrow> bool" where
  "via name r = (case field r ''discovery_interfaces'' of
     JList ns \<Rightarrow> list_ex (\<lambda>n. case n of JStr s \<Rightarrow> same_interface s name | _ \<Rightarrow> False) ns
   | _ \<Rightarrow> False)"

definition isis_interface_verdict :: "string \<Rightarrow> json list option \<Rightarrow> check_status" where
  "isis_interface_verdict name interfaces = (case interfaces of
     Some is \<Rightarrow> if interface_down name is then BROKEN else UNEVALUATED
   | None \<Rightarrow> UNEVALUATED)"

definition isis_lldp_verdict :: "string \<Rightarrow> json list option \<Rightarrow> json list option \<Rightarrow> check_status" where
  "isis_lldp_verdict name lldp interfaces = (case lldp of
     Some ls \<Rightarrow> if list_ex (named ''local_interface'' name) ls then BROKEN
                else isis_interface_verdict name interfaces
   | None \<Rightarrow> UNEVALUATED)"

definition isis_neighbor_verdict ::
  "string \<Rightarrow> json list option \<Rightarrow> json list option \<Rightarrow> json list option \<Rightarrow> check_status" where
  "isis_neighbor_verdict name isis lldp interfaces = (case isis of
     Some rs \<Rightarrow> (case find (named ''interface'' name) rs of
                   Some r \<Rightarrow> if field r ''state'' = JStr ''Up'' then HEALTHY else BROKEN
                 | None \<Rightarrow> isis_lldp_verdict name lldp interfaces)
   | None \<Rightarrow> UNEVALUATED)"

definition listed_verdict :: "string \<Rightarrow> json list option \<Rightarrow> check_status \<Rightarrow> check_status" where
  "listed_verdict name section otherwise = (case section of
     Some rs \<Rightarrow> if list_ex (named ''interface'' name) rs then BROKEN else otherwise
   | None \<Rightarrow> UNEVALUATED)"

definition ldp_verdict ::
  "string \<Rightarrow> json list option \<Rightarrow> json list option \<Rightarrow> json list option \<Rightarrow> json list option \<Rightarrow>
   json list option \<Rightarrow> check_status" where
  "ldp_verdict name ldp discovery interfaces config intent = (case ldp of
     Some rs \<Rightarrow> (case find (via name) rs of
        Some r \<Rightarrow> if field r ''state'' = JStr ''Oper'' then HEALTHY else BROKEN
      | None \<Rightarrow> listed_verdict name discovery
          (case interfaces of
             Some is \<Rightarrow> if interface_down name is then BROKEN
                        else listed_verdict name config (listed_verdict name intent UNEVALUATED)
           | None \<Rightarrow> UNEVALUATED))
   | None \<Rightarrow> UNEVALUATED)"

text \<open>On well-formed records the monadic loops are the pure searches of the tables.\<close>

lemma names_interface_named:
  assumes "wf_record r" and "f \<in> {''interface'', ''local_interface''}"
  shows "names_interface f name r = Some (named f name r)"
proof -
  from assms(1) obtain d where d: "r = JDict d" by (rule wf_recordE)
  have "opt_string (field r f)" using assms wf_record_field by auto
  then show ?thesis
    by (cases "dict_get d f") (auto simp: d names_interface_def named_def opt_string_def
        dict_get_or_def same_interface_field_def same_interface_def split: option.splits)
qed

lemma find_interface_find:
  "list_all wf_record rs \<Longrightarrow> f \<in> {''interface'', ''local_interface''} \<Longrightarrow>
     find_interface f name rs = Some (find (named f name) rs)"
  unfolding find_interface_def by (intro find_m_find names_interface_named) (auto simp: list_all_iff)

lemma lists_interface_ex:
  "list_all wf_record rs \<Longrightarrow> lists_interface name rs = Some (list_ex (named ''interface'' name) rs)"
  unfolding lists_interface_def by (intro any_m_any names_interface_named) (auto simp: list_all_iff)

lemma discovered_via_via:
  assumes "wf_record r" shows "discovered_via name r = Some (via name r)"
proof -
  from assms obtain d where d: "r = JDict d" and o: "opt_names (dict_get d ''discovery_interfaces'')"
    by (rule wf_recordE)
  show ?thesis
  proof (cases "dict_get d ''discovery_interfaces''")
    case (JList ns)
    with o have "list_all is_string ns" by (simp add: opt_names_def)
    then have "any_m (\<lambda>n. same_interface_field n name) ns =
        Some (list_ex (\<lambda>n. case n of JStr s \<Rightarrow> same_interface s name | _ \<Rightarrow> False) ns)"
      by (intro any_m_any) (auto simp: list_all_iff elim!: is_stringE dest!: bspec)
    with d JList show ?thesis
      by (cases "ns = []") (simp_all add: discovered_via_def via_def py_or_def)
  qed (use d o in \<open>simp_all add: discovered_via_def via_def py_or_def opt_names_def\<close>)
qed

lemma interface_not_up_down:
  assumes "list_all wf_record rs"
  obtains "interface_not_up name rs = Some None" "\<not> interface_down name rs"
  | a l where "interface_not_up name rs = Some (Some (a, l))" "interface_down name rs"
proof (cases "find (named ''interface'' name) rs")
  case None
  with assms that(1) show thesis by (simp add: interface_not_up_def find_interface_find interface_down_def)
next
  case (Some r)
  with assms obtain d where d: "r = JDict d" using find_dict wf_records_dicts by blast
  show thesis
    by (cases "reads_down r")
      (use assms Some d that in \<open>auto simp: interface_not_up_def find_interface_find interface_down_def reads_down_def\<close>)
qed

subsection \<open>The checks follow their tables\<close>

lemma verdict_statuses [simp]:
  "\<exists>r. unevaluated m s ks None = Some r \<and> cr_status r = UNEVALUATED"
  "\<exists>r. broken m s (k # ks) None = Some r \<and> cr_status r = BROKEN"
  "\<exists>r. healthy s (k # ks) w None = Some r \<and> cr_status r = HEALTHY"
  by (simp_all add: verdict_defs CheckResult_def)

lemma find_wf_record:
  assumes "list_all wf_record rs"
  obtains "find P rs = None" "\<not> list_ex P rs" | d where "find P rs = Some (JDict d)" "list_ex P rs"
proof (cases "find P rs")
  case None
  with that(1) show thesis by (auto simp: find_None_iff list_ex_iff)
next
  case (Some r)
  then obtain d where "r = JDict d" using find_dict [OF wf_records_dicts [OF assms]] by blast
  moreover from Some have "list_ex P rs" by (metis find_None_iff list_ex_iff option.distinct(1))
  ultimately show thesis using Some that(2) by simp
qed

lemma isis_interface_tier_table:
  "wf_evidence ev \<Longrightarrow> \<exists>r. isis_interface_tier ev name = Some r \<and>
     cr_status r = isis_interface_verdict name (section_records ev ''interfaces'')"
  unfolding isis_interface_tier_def Let_def isis_interface_verdict_def
proof (rule gated_table, goal_cases)
  case (3 rs)
  from 3(2) show ?case by (rule interface_not_up_down [of rs name]) simp_all
qed simp_all

lemma isis_lldp_tier_table:
  "wf_evidence ev \<Longrightarrow> \<exists>r. isis_lldp_tier ev name = Some r \<and>
     cr_status r = isis_lldp_verdict name (section_records ev ''lldp'') (section_records ev ''interfaces'')"
  unfolding isis_lldp_tier_def Let_def isis_lldp_verdict_def
proof (rule gated_table, goal_cases)
  case (3 rs)
  from 3(2) show ?case
    by (rule find_wf_record [of rs "named ''local_interface'' name"])
      (simp_all add: find_interface_find 3(2) isis_interface_tier_table 3(1))
qed simp_all

lemma isis_neighbor_up_table:
  "wf_evidence ev \<Longrightarrow> \<exists>r. isis_neighbor_up ev name = Some r \<and>
     cr_status r = isis_neighbor_verdict name (section_records ev ''isis'')
       (section_records ev ''lldp'') (section_records ev ''interfaces'')"
  unfolding isis_neighbor_up_def Let_def isis_neighbor_verdict_def
proof (rule gated_table, goal_cases)
  case (3 rs)
  from 3(2) show ?case
    by (rule find_wf_record [of rs "named ''interface'' name"])
      (simp_all add: find_interface_find 3(2) isis_lldp_tier_table 3(1))
qed simp_all

lemma listed_tier_table:
  assumes "wf_evidence ev"
    and "\<And>b. cr_status b = UNEVALUATED \<Longrightarrow> \<exists>r. h b = Some r \<and> cr_status r = UNEVALUATED"
    and "\<exists>r. otherwise = Some r \<and> cr_status r = v"
    and "\<And>b. \<exists>r. listed b = Some r \<and> cr_status r = BROKEN"
  shows "\<exists>r. gated ev key s h (\<lambda>sec. do { rs \<leftarrow> parsed_records sec; b \<leftarrow> lists_interface name rs;
      if b then listed b else otherwise }) = Some r \<and>
    cr_status r = listed_verdict name (section_records ev key) v"
  unfolding listed_verdict_def
proof (rule gated_table, goal_cases)
  case (3 rs)
  with assms(3,4) show ?case by (simp add: lists_interface_ex)
qed (use assms in auto)

lemma ldp_intent_tier_table:
  "wf_evidence ev \<Longrightarrow> \<exists>r. ldp_intent_tier ev name = Some r \<and>
     cr_status r = listed_verdict name (section_records ev ''ldp_intent'') UNEVALUATED"
  unfolding ldp_intent_tier_def Let_def by (rule listed_tier_table) simp_all

lemma ldp_config_tier_table:
  "wf_evidence ev \<Longrightarrow> \<exists>r. ldp_config_tier ev name = Some r \<and>
     cr_status r = listed_verdict name (section_records ev ''config_ldp'')
       (listed_verdict name (section_records ev ''ldp_intent'') UNEVALUATED)"
  unfolding ldp_config_tier_def Let_def
  by (rule listed_tier_table) (simp_all add: ldp_intent_tier_table)

lemma ldp_interface_tier_table:
  "wf_evidence ev \<Longrightarrow> \<exists>r. ldp_interface_tier ev name = Some r \<and>
     cr_status r = (case section_records ev ''interfaces'' of None \<Rightarrow> UNEVALUATED
       | Some is \<Rightarrow> if interface_down name is then BROKEN
           else listed_verdict name (section_records ev ''config_ldp'')
             (listed_verdict name (section_records ev ''ldp_intent'') UNEVALUATED))"
  unfolding ldp_interface_tier_def Let_def
proof (rule gated_table, goal_cases)
  case (3 rs)
  from 3(2) show ?case
    by (rule interface_not_up_down [of rs name]) (simp_all add: ldp_config_tier_table 3(1))
qed simp_all

lemma ldp_discovery_tier_table:
  "wf_evidence ev \<Longrightarrow> \<exists>r. ldp_discovery_tier ev name = Some r \<and>
     cr_status r = listed_verdict name (section_records ev ''ldp_discovery'')
       (case section_records ev ''interfaces'' of None \<Rightarrow> UNEVALUATED
       | Some is \<Rightarrow> if interface_down name is then BROKEN
           else listed_verdict name (section_records ev ''config_ldp'')
             (listed_verdict name (section_records ev ''ldp_intent'') UNEVALUATED))"
  unfolding ldp_discovery_tier_def Let_def listed_verdict_def
    [of name "section_records ev ''ldp_discovery''"]
proof (rule gated_table, goal_cases)
  case (3 rs)
  from 3(2) show ?case
    by (rule find_wf_record [of rs "named ''interface'' name"])
      (simp_all add: find_interface_find 3(2) ldp_interface_tier_table 3(1))
qed simp_all

lemma ldp_session_up_table:
  "wf_evidence ev \<Longrightarrow> \<exists>r. ldp_session_up ev name = Some r \<and>
     cr_status r = ldp_verdict name (section_records ev ''ldp'') (section_records ev ''ldp_discovery'')
       (section_records ev ''interfaces'') (section_records ev ''config_ldp'') (section_records ev ''ldp_intent'')"
  unfolding ldp_session_up_def Let_def ldp_verdict_def
proof (rule gated_table, goal_cases)
  case (3 rs)
  have f: "find_m (discovered_via name) rs = Some (find (via name) rs)"
    using 3(2) by (intro find_m_find discovered_via_via) (auto simp: list_all_iff)
  from 3(2) show ?case
    by (rule find_wf_record [of rs "via name"]) (simp_all add: f ldp_discovery_tier_table 3(1))
qed simp_all

subsection \<open>The contract of the checks\<close>

lemmas check_valid_simps = bind_Some_iff Let_def

lemma isis_adjacency_valid: "isis_adjacency ev intf = Some r \<Longrightarrow> valid_result r"
  unfolding isis_adjacency_def Let_def
  by (erule gated_valid_Some)
    (auto simp: check_valid_simps split: option.splits if_splits dest!: verdict_SomeD)

lemma isis_adjacency_unread:
  "\<not> parsed_ok ev ''isis'' \<Longrightarrow> isis_adjacency ev intf = Some r \<Longrightarrow> cr_status r = UNEVALUATED"
  unfolding isis_adjacency_def Let_def by (rule gated_unread_status)

lemma isis_adjacency_frame:
  assumes "map_of ev ''device'' = map_of ev' ''device''" and "map_of ev ''isis'' = map_of ev' ''isis''"
  shows "isis_adjacency ev intf = isis_adjacency ev' intf"
  unfolding isis_adjacency_def device_of_cong [OF assms(1)] by (rule gated_cong [OF assms(2) refl refl])

lemma isis_interface_tier_valid: "isis_interface_tier ev name = Some r \<Longrightarrow> valid_result r"
  unfolding isis_interface_tier_def Let_def
  by (erule gated_valid)
    (auto simp: check_valid_simps split: option.splits if_splits dest!: verdict_SomeD)

lemma isis_lldp_tier_valid: "isis_lldp_tier ev name = Some r \<Longrightarrow> valid_result r"
  unfolding isis_lldp_tier_def Let_def
  by (erule gated_valid)
    (auto simp: check_valid_simps split: option.splits if_splits dest!: verdict_SomeD isis_interface_tier_valid)

lemma isis_neighbor_up_valid: "isis_neighbor_up ev name = Some r \<Longrightarrow> valid_result r"
  unfolding isis_neighbor_up_def Let_def
  by (erule gated_valid)
    (auto simp: check_valid_simps split: option.splits if_splits dest!: verdict_SomeD isis_lldp_tier_valid)

lemma isis_neighbor_up_unread:
  "\<not> parsed_ok ev ''isis'' \<Longrightarrow> isis_neighbor_up ev name = Some r \<Longrightarrow> cr_status r = UNEVALUATED"
  unfolding isis_neighbor_up_def Let_def by (rule gated_unread_status)

definition isis_reads :: "string list" where
  "isis_reads = [''isis'', ''lldp'', ''interfaces'']"

lemma isis_neighbor_up_frame:
  assumes d: "map_of ev ''device'' = map_of ev' ''device''"
    and k: "\<forall>k\<in>set isis_reads. map_of ev k = map_of ev' k"
  shows "isis_neighbor_up ev name = isis_neighbor_up ev' name"
proof -
  have "isis_interface_tier ev name = isis_interface_tier ev' name"
    unfolding isis_interface_tier_def Let_def device_of_cong [OF d]
    by (rule gated_cong) (use k in \<open>auto simp: isis_reads_def\<close>)
  then have "isis_lldp_tier ev name = isis_lldp_tier ev' name"
    unfolding isis_lldp_tier_def Let_def device_of_cong [OF d]
    by (intro gated_cong) (use k in \<open>auto simp: isis_reads_def\<close>)
  then show ?thesis
    unfolding isis_neighbor_up_def Let_def device_of_cong [OF d]
    by (intro gated_cong) (use k in \<open>auto simp: isis_reads_def\<close>)
qed

lemma ldp_intent_tier_valid: "ldp_intent_tier ev name = Some r \<Longrightarrow> valid_result r"
  unfolding ldp_intent_tier_def Let_def
  by (erule gated_valid) (auto simp: check_valid_simps split: if_splits dest!: verdict_SomeD)

lemma ldp_config_tier_valid: "ldp_config_tier ev name = Some r \<Longrightarrow> valid_result r"
  unfolding ldp_config_tier_def Let_def
  by (erule gated_valid)
    (auto simp: check_valid_simps split: if_splits dest!: verdict_SomeD ldp_intent_tier_valid)

lemma ldp_interface_tier_valid: "ldp_interface_tier ev name = Some r \<Longrightarrow> valid_result r"
  unfolding ldp_interface_tier_def Let_def
  by (erule gated_valid)
    (auto simp: check_valid_simps split: option.splits dest!: verdict_SomeD ldp_config_tier_valid)

lemma ldp_discovery_tier_valid: "ldp_discovery_tier ev name = Some r \<Longrightarrow> valid_result r"
  unfolding ldp_discovery_tier_def Let_def
  by (erule gated_valid)
    (auto simp: check_valid_simps split: option.splits dest!: verdict_SomeD ldp_interface_tier_valid)

lemma ldp_session_up_valid: "ldp_session_up ev name = Some r \<Longrightarrow> valid_result r"
  unfolding ldp_session_up_def Let_def
  by (erule gated_valid)
    (auto simp: check_valid_simps split: option.splits if_splits dest!: verdict_SomeD ldp_discovery_tier_valid)

lemma ldp_session_up_unread:
  "\<not> parsed_ok ev ''ldp'' \<Longrightarrow> ldp_session_up ev name = Some r \<Longrightarrow> cr_status r = UNEVALUATED"
  unfolding ldp_session_up_def Let_def by (rule gated_unread_status)

definition ldp_reads :: "string list" where
  "ldp_reads = [''ldp'', ''ldp_discovery'', ''interfaces'', ''config_ldp'', ''ldp_intent'']"

lemma ldp_session_up_frame:
  assumes d: "map_of ev ''device'' = map_of ev' ''device''"
    and k: "\<forall>k\<in>set ldp_reads. map_of ev k = map_of ev' k"
  shows "ldp_session_up ev name = ldp_session_up ev' name"
proof -
  have "ldp_intent_tier ev name = ldp_intent_tier ev' name"
    unfolding ldp_intent_tier_def Let_def device_of_cong [OF d]
    by (intro gated_cong) (use k in \<open>auto simp: ldp_reads_def cong: if_cong\<close>)
  then have "ldp_config_tier ev name = ldp_config_tier ev' name"
    unfolding ldp_config_tier_def Let_def device_of_cong [OF d]
    by (intro gated_cong) (use k in \<open>auto simp: ldp_reads_def cong: if_cong\<close>)
  then have "ldp_interface_tier ev name = ldp_interface_tier ev' name"
    unfolding ldp_interface_tier_def Let_def device_of_cong [OF d]
    by (intro gated_cong) (use k in \<open>auto simp: ldp_reads_def cong: if_cong\<close>)
  then have "ldp_discovery_tier ev name = ldp_discovery_tier ev' name"
    unfolding ldp_discovery_tier_def Let_def device_of_cong [OF d]
    by (intro gated_cong) (use k in \<open>auto simp: ldp_reads_def cong: if_cong\<close>)
  then show ?thesis
    unfolding ldp_session_up_def Let_def device_of_cong [OF d]
    by (intro gated_cong) (use k in \<open>auto simp: ldp_reads_def cong: if_cong\<close>)
qed

lemma isis_adjacency_total: "wf_evidence ev \<Longrightarrow> isis_adjacency ev intf \<noteq> None"
  unfolding isis_adjacency_def Let_def
proof (erule gated_total, goal_cases)
  case (2 sec)
  then obtain rs where rs: "parsed_records (JDict sec) = Some rs" "list_all wf_record rs"
    using wf_parsed_records by blast
  have d: "r \<in> set rs \<Longrightarrow> is_dict r" for r using rs(2) by (auto simp: list_all_iff wf_record_is_dict)
  show ?case
  proof (cases intf)
    case None
    obtain not_up where n: "filter_m (\<lambda>r. map_option (\<lambda>s. s \<noteq> JStr ''Up'') (json_get r ''state'')) rs = Some not_up"
      using filter_m_total [of rs "\<lambda>r. map_option (\<lambda>s. s \<noteq> JStr ''Up'') (json_get r ''state'')"] d
      by (force simp: json_get_field)
    from filter_m_Some [OF n] have sub: "set not_up \<subseteq> set rs" by auto
    obtain ds where "map_m (\<lambda>r. do { system_id \<leftarrow> json_get r ''system_id''; state \<leftarrow> json_get r ''state'';
        Some (py_str system_id @ '' ('' @ py_str state @ '')'') }) not_up = Some ds"
      using map_m_total [of not_up "\<lambda>r. do { system_id \<leftarrow> json_get r ''system_id''; state \<leftarrow> json_get r ''state'';
        Some (py_str system_id @ '' ('' @ py_str state @ '')'') }"] d sub
      by (force simp: json_get_field)
    with n rs None show ?thesis by (simp add: verdict_defs CheckResult_def)
  next
    case (Some name)
    from rs(2) show ?thesis
      by (rule wf_find_record [of rs "''interface''" name]) (simp_all add: rs(1) Some verdict_defs CheckResult_def)
  qed
qed simp

interpretation adjacency_check: rung_check isis_adjacency "\<lambda>_. [''isis'']"
  by unfold_locales
    (auto intro: isis_adjacency_valid isis_adjacency_unread isis_adjacency_frame simp: isis_adjacency_total [simplified])

lemma isis_neighbor_up_total: "wf_evidence ev \<Longrightarrow> isis_neighbor_up ev name \<noteq> None"
  using isis_neighbor_up_table by blast

lemma ldp_session_up_total: "wf_evidence ev \<Longrightarrow> ldp_session_up ev name \<noteq> None"
  using ldp_session_up_table by blast

interpretation isis_check: rung_check "on_subject isis_neighbor_up" "reads_subject (\<lambda>_. isis_reads)"
  by (rule rung_check_on_subject)
    (auto intro: isis_neighbor_up_valid isis_neighbor_up_frame simp: isis_neighbor_up_total [simplified] isis_reads_def
      dest: isis_neighbor_up_unread)

interpretation ldp_check: rung_check "on_subject ldp_session_up" "reads_subject (\<lambda>_. ldp_reads)"
  by (rule rung_check_on_subject)
    (auto intro: ldp_session_up_valid ldp_session_up_frame simp: ldp_session_up_total [simplified] ldp_reads_def
      dest: ldp_session_up_unread)

subsection \<open>Properties\<close>

text \<open>On well-formed evidence the IS-IS neighbour check always answers and follows its decision table
  on the parsed IS-IS, LLDP and interface sections: silence alone is never healthy, and becomes
  broken only when LLDP shows a cabled neighbour or the interface itself is down.\<close>

theorem isis_neighbor_up_decision_table:
  assumes "wf_evidence ev"
  shows "\<exists>r. isis_neighbor_up ev name = Some r \<and>
    cr_status r = isis_neighbor_verdict name (section_records ev ''isis'')
      (section_records ev ''lldp'') (section_records ev ''interfaces'')"
  by (rule isis_neighbor_up_table [OF assms])

definition isis_example :: dict where
  "isis_example = [(''device'', JStr ''PE3''), (''isis'', parsed_section [] []),
     (''lldp'', parsed_section [JDict [(''local_interface'', JStr ''GigabitEthernet0/0/0/0''), (''neighbor'', JStr ''P2'')]] [])]"

theorem isis_neighbor_up_witness:
  "\<exists>r. isis_neighbor_up isis_example ''Gi0/0/0/0'' = Some r \<and> cr_status r = BROKEN"
proof -
  have "wf_evidence isis_example" by code_simp
  moreover have "isis_neighbor_verdict ''Gi0/0/0/0'' (section_records isis_example ''isis'')
      (section_records isis_example ''lldp'') (section_records isis_example ''interfaces'') = BROKEN" by code_simp
  ultimately show ?thesis using isis_neighbor_up_decision_table [of isis_example "''Gi0/0/0/0''"] by auto
qed

text \<open>On well-formed evidence the LDP session check always answers and follows its decision table: an
  Oper session is the only health, and a missing one is broken only on evidence from discovery, the
  interface, the configuration or the declared intent, read in that order, each section unread
  leaving the verdict open.\<close>

theorem ldp_session_up_decision_table:
  assumes "wf_evidence ev"
  shows "\<exists>r. ldp_session_up ev name = Some r \<and>
    cr_status r = ldp_verdict name (section_records ev ''ldp'') (section_records ev ''ldp_discovery'')
      (section_records ev ''interfaces'') (section_records ev ''config_ldp'') (section_records ev ''ldp_intent'')"
  by (rule ldp_session_up_table [OF assms])

definition ldp_example :: dict where
  "ldp_example = [(''device'', JStr ''P2''), (''ldp'', parsed_section [] []), (''ldp_discovery'', parsed_section [] []),
     (''interfaces'', parsed_section [interface_record ''Gi0/0/0/4'' ''up'' ''up''] []),
     (''config_ldp'', parsed_section [JDict [(''interface'', JStr ''GigabitEthernet0/0/0/4'')]] [])]"

theorem ldp_session_up_witness:
  "\<exists>r. ldp_session_up ldp_example ''Gi0/0/0/4'' = Some r \<and> cr_status r = BROKEN"
proof -
  have "wf_evidence ldp_example" by code_simp
  moreover have "ldp_verdict ''Gi0/0/0/4'' (section_records ldp_example ''ldp'') (section_records ldp_example ''ldp_discovery'')
      (section_records ldp_example ''interfaces'') (section_records ldp_example ''config_ldp'')
      (section_records ldp_example ''ldp_intent'') = BROKEN" by code_simp
  ultimately show ?thesis using ldp_session_up_decision_table [of ldp_example "''Gi0/0/0/4''"] by auto
qed

end
