(* ===== verification/Interface_Checks.thy ===== *)
theory Interface_Checks
  imports Session_Checks Neighbor_Checks "HOL-Library.AList"
begin

section \<open>Interface checks: line state and the error-counter rate\<close>

text \<open>
  Models \<open>interface_state\<close>, its two observation helpers and \<open>interface_exists\<close> of \<open>checks.py\<close>.
  A counter table is an association list in insertion order, as a Python dictionary is.  The
  optional second observation \<open>previous\<close> is an argument: the descent calls the check without it.
\<close>

subsection \<open>Error counters\<close>

type_synonym counters = "(string \<times> int) list"

definition ERROR_COUNTER_NAMES :: "string list" where
  "ERROR_COUNTER_NAMES = [''input_errors'', ''crc'', ''frame'', ''overrun'', ''abort'',
     ''output_errors'', ''underruns'', ''carrier_transitions'']"

fun counters_from :: "counters \<Rightarrow> json list \<Rightarrow> counters option" where
  "counters_from acc [] = Some acc"
| "counters_from acc (record # records) = do {
     name \<leftarrow> json_get record ''counter'';
     case name of
       JStr n \<Rightarrow>
         if n \<notin> set ERROR_COUNTER_NAMES then counters_from acc records
         else do {
           v \<leftarrow> json_get record ''value'';
           case py_int v of
             Some i \<Rightarrow> counters_from (AList.update n i acc) records
           | None \<Rightarrow> counters_from acc records
         }
     | _ \<Rightarrow> counters_from acc records
   }"

definition extract_error_counters :: "json \<Rightarrow> counters option option" where
  "extract_error_counters section = do {
     records \<leftarrow> parsed_records section;
     counters \<leftarrow> counters_from [] records;
     Some (if counters = [] then None else Some counters)
   }"

definition rising_counters :: "counters \<Rightarrow> counters \<Rightarrow> (string \<times> int \<times> int) list" where
  "rising_counters cur prev = concat (map (\<lambda>c. case (map_of prev c, map_of cur c) of
       (Some was, Some now) \<Rightarrow> if was < now then [(c, was, now)] else []
     | _ \<Rightarrow> []) ERROR_COUNTER_NAMES)"

definition counter_delta_status :: "counters option \<Rightarrow> counters option \<Rightarrow> bool \<Rightarrow> check_status \<times> string" where
  "counter_delta_status current previous has_previous =
     (if \<not> has_previous then (UNEVALUATED, ''single observation'')
      else case (current, previous) of
        (Some cur, Some prev) \<Rightarrow>
          let ups = rising_counters cur prev
          in if ups \<noteq> []
             then (BROKEN, ''error-counter rate rising: '' @
                    py_join ''; '' (map (\<lambda>(name, was, now). name @ '' '' @ show_int was @ ''->'' @ show_int now) ups))
             else (HEALTHY, ''error-counter rate flat across two observations'')
      | _ \<Rightarrow> (UNEVALUATED, ''error counters absent from at least one observation''))"

subsection \<open>One observation of one interface\<close>

type_synonym counter_reading = "json \<times> json \<times> counters option"

text \<open>The dedicated capture \<open>interface:<name>\<close>, the only source with counters.\<close>

definition dedicated_observation :: "dict \<Rightarrow> string \<Rightarrow> (string option + counter_reading) option" where
  "dedicated_observation ev name = do {
     t \<leftarrow> require_parsed ev (template_key ''interface'' name) (Some name);
     case t of
       Inl bail \<Rightarrow> Some (Inl (cr_reason bail))
     | Inr section \<Rightarrow> do {
         meta \<leftarrow> parsed_meta section;
         admin_state \<leftarrow> json_get meta ''admin_state'';
         line_state \<leftarrow> json_get meta ''line_state'';
         if admin_state \<noteq> JNull \<and> line_state \<noteq> JNull
         then do {
           counters \<leftarrow> extract_error_counters section;
           Some (Inr (admin_state, line_state, counters))
         }
         else Some (Inl None)
       }
   }"

text \<open>The reasons of the bail-outs there were, joined, or a default.\<close>

definition bail_detail :: "string \<Rightarrow> string option list \<Rightarrow> string" where
  "bail_detail name bails =
     (let reasons = concat (map (\<lambda>b. case b of Some r \<Rightarrow> if r = [] then [] else [r] | None \<Rightarrow> []) bails)
      in if reasons \<noteq> [] then py_join ''; '' reasons
         else ''no evidence for interface '' @ repr_str name)"

definition read_interface_observation ::
  "dict \<Rightarrow> string \<Rightarrow> (check_result + counter_reading \<times> string list) option" where
  "read_interface_observation ev name = do {
     let device = device_of ev;
     dedicated \<leftarrow> dedicated_observation ev name;
     case dedicated of
       Inr seen \<Rightarrow> Some (Inr (seen, [evidence_key device (template_key ''interface'' name) None]))
     | Inl template_reason \<Rightarrow> do {
         bulk \<leftarrow> require_parsed ev ''interfaces'' (Some name);
         case bulk of
           Inr section \<Rightarrow> do {
             records \<leftarrow> parsed_records section;
             hit \<leftarrow> find_interface ''interface'' name records;
             case hit of
               Some record \<Rightarrow> do {
                 admin_state \<leftarrow> json_get record ''admin_state'';
                 line_protocol \<leftarrow> json_get record ''line_protocol'';
                 Some (Inr ((admin_state, line_protocol, None), [evidence_key device ''interfaces'' (Some name)]))
               }
             | None \<Rightarrow> map_option Inl (unevaluated
                 (''no record of interface '' @ repr_str name @ '' in '' @ repr_str ''interfaces'')
                 (Some name) [] None)
           }
         | Inl bail \<Rightarrow> map_option Inl
             (unevaluated (bail_detail name [template_reason, cr_reason bail]) (Some name) [] None)
       }
   }"

subsection \<open>The checks\<close>

definition previous_observation :: "dict option \<Rightarrow> string \<Rightarrow> (counters option \<times> string list) option" where
  "previous_observation previous name = (case previous of
     None \<Rightarrow> Some (None, [])
   | Some ev \<Rightarrow> do {
       obs \<leftarrow> read_interface_observation ev name;
       Some (case obs of Inl bail \<Rightarrow> (None, []) | Inr ((_, _, counters), keys) \<Rightarrow> (counters, keys))
     })"

definition interface_state :: "dict \<Rightarrow> string \<Rightarrow> dict option \<Rightarrow> check_result option" where
  "interface_state ev name previous = do {
     obs \<leftarrow> read_interface_observation ev name;
     case obs of
       Inl bail \<Rightarrow> Some bail
     | Inr ((admin_state, line_state, current_counters), keys) \<Rightarrow>
         if admin_state \<noteq> JStr ''up'' \<or> line_state \<noteq> JStr ''up''
         then broken (''interface '' @ name @ '' is not up (admin_state='' @ py_repr admin_state @
                      '', line_state='' @ py_repr line_state @ '')'') (Some name) keys None
         else do {
           (previous_counters, previous_keys) \<leftarrow> previous_observation previous name;
           let (status, detail) =
             counter_delta_status current_counters previous_counters (previous \<noteq> None);
           case status of
             BROKEN \<Rightarrow> broken (''line protocol up; '' @ detail) (Some name)
                         (from_keys (keys @ previous_keys)) None
           | UNEVALUATED \<Rightarrow> healthy (Some name) keys
                 (Some (''line protocol up; error-counter rate not evaluated ('' @ detail @ '')'')) None
           | HEALTHY \<Rightarrow> healthy (Some name) (from_keys (keys @ previous_keys))
                 (Some (''line protocol up; '' @ detail)) None
         }
   }"

definition interface_exists :: "dict \<Rightarrow> string \<Rightarrow> check_result option" where
  "interface_exists ev name =
     gated ev ''interfaces'' (Some name) Some (\<lambda>section. do {
       let device = device_of ev;
       let key = evidence_key device ''interfaces'' (Some name);
       records \<leftarrow> parsed_records section;
       present \<leftarrow> present_fields ''interface'' records;
       found \<leftarrow> any_m (\<lambda>candidate. same_interface_field candidate name) present;
       if found
       then healthy (Some name) [key] (Some (device @ '' has an interface '' @ name)) None
       else do {
         listing \<leftarrow> listed_names present;
         broken (device @ '' has no interface '' @ name @ ''. It has '' @
                 show_nat (length present) @ '': '' @ listing) (Some name) [key] None
       }
     })"

subsection \<open>Counters\<close>

definition rising :: "counters \<Rightarrow> counters \<Rightarrow> bool" where
  "rising cur prev \<longleftrightarrow> list_ex (\<lambda>c. case (map_of prev c, map_of cur c) of
     (Some was, Some now) \<Rightarrow> was < now | _ \<Rightarrow> False) ERROR_COUNTER_NAMES"

definition delta_verdict :: "counters option \<Rightarrow> counters option \<Rightarrow> bool \<Rightarrow> check_status" where
  "delta_verdict current previous has_previous = (case (has_previous, current, previous) of
     (True, Some cur, Some prev) \<Rightarrow> if rising cur prev then BROKEN else HEALTHY
   | _ \<Rightarrow> UNEVALUATED)"

lemma concat_map_eq_Nil_ex:
  "(concat (map f xs) \<noteq> []) = list_ex (\<lambda>x. f x \<noteq> []) xs"
  by (induction xs) auto

lemma rising_counters_rising: "rising_counters cur prev \<noteq> [] \<longleftrightarrow> rising cur prev"
  unfolding rising_counters_def concat_map_eq_Nil_ex rising_def
  by (intro arg_cong [of _ _ "\<lambda>p. list_ex p ERROR_COUNTER_NAMES"] ext) (simp split: option.splits)

lemma counter_delta_status_verdict:
  "fst (counter_delta_status current previous hp) = delta_verdict current previous hp"
  by (cases hp; cases current; cases previous)
    (simp_all add: counter_delta_status_def delta_verdict_def Let_def flip: rising_counters_rising)

lemma counters_from_inv:
  "counters_from acc rs = Some cs \<Longrightarrow> fst ` set acc \<subseteq> set ERROR_COUNTER_NAMES \<Longrightarrow> distinct (map fst acc) \<Longrightarrow>
     fst ` set cs \<subseteq> set ERROR_COUNTER_NAMES \<and> distinct (map fst cs)"
proof (induction acc rs rule: counters_from.induct)
  case (2 acc r rs)
  from "2.prems"(1) obtain v where v: "json_get r ''counter'' = Some v" by (auto simp: bind_Some_iff)
  show ?case
  proof (cases "\<exists>n. v = JStr n \<and> n \<in> set ERROR_COUNTER_NAMES")
    case True
    then obtain n where n: "v = JStr n" "n \<in> set ERROR_COUNTER_NAMES" by blast
    with v "2.prems"(1) obtain w where w: "json_get r ''value'' = Some w" by (auto simp: bind_Some_iff)
    show ?thesis
    proof (cases "py_int w")
      case None
      with 2 v n w show ?thesis by simp
    next
      case (Some i)
      have "fst ` set (AList.update n i acc) \<subseteq> set ERROR_COUNTER_NAMES"
        using "2.prems"(2) n by (simp add: dom_update)
      moreover have "distinct (map fst (AList.update n i acc))"
        using "2.prems"(3) by (simp add: distinct_update)
      ultimately show ?thesis using 2 v n w Some by simp
    qed
  next
    case False
    with 2 v show ?thesis by (cases v) auto
  qed
qed simp

lemma counters_from_total: "list_all is_dict rs \<Longrightarrow> counters_from acc rs \<noteq> None"
  by (induction rs arbitrary: acc)
    (auto elim!: is_dictE split: json.splits option.splits)

subsection \<open>The decision table of \<open>interface_state\<close>\<close>

definition interface_verdict :: "(check_result + counter_reading \<times> string list) \<Rightarrow> counters option \<Rightarrow> bool \<Rightarrow> check_status" where
  "interface_verdict obs previous has_previous = (case obs of
     Inl _ \<Rightarrow> UNEVALUATED
   | Inr ((admin, line, counters), _) \<Rightarrow>
       if admin \<noteq> JStr ''up'' \<or> line \<noteq> JStr ''up'' then BROKEN
       else if delta_verdict counters previous has_previous = BROKEN then BROKEN
       else HEALTHY)"

lemma dedicated_observation_total:
  assumes "wf_evidence ev" shows "dedicated_observation ev name \<noteq> None"
proof -
  obtain t where t: "require_parsed ev (template_key ''interface'' name) (Some name) = Some t"
    using require_parsed_total [OF assms] by blast
  show ?thesis
  proof (cases t)
    case (Inl b)
    with t show ?thesis by (simp add: dedicated_observation_def)
  next
    case (Inr sec)
    with t have sec: "sec = dict_get ev (template_key ''interface'' name)" "parsed_ok ev (template_key ''interface'' name)"
      by (auto simp: require_parsed_Inr)
    then obtain d where d: "sec = JDict d" using parsed_ok_dict is_dictE by metis
    have wf: "wf_section (JDict d)" using wf_evidence_get [OF assms] sec(1) d by metis
    obtain m where m: "parsed_meta sec = Some (JDict m)" using wf_parsed_meta [OF wf] d by blast
    obtain rs where rs: "parsed_records sec = Some rs" "list_all wf_record rs"
      using wf_parsed_records [OF wf] d by blast
    obtain cs where "counters_from [] rs = Some cs"
      using counters_from_total [OF wf_records_dicts [OF rs(2)]] by blast
    with t Inr m rs(1) show ?thesis by (simp add: dedicated_observation_def extract_error_counters_def)
  qed
qed

lemma wf_find_interface:
  assumes "list_all wf_record rs"
  obtains "find_interface ''interface'' name rs = Some None"
  | d where "find_interface ''interface'' name rs = Some (Some (JDict d))"
proof (cases "find (named ''interface'' name) rs")
  case None
  with that(1) assms show thesis by (simp add: find_interface_find)
next
  case (Some r)
  with find_dict [OF wf_records_dicts [OF assms]] obtain d where "r = JDict d" by blast
  with that(2) assms Some show thesis by (simp add: find_interface_find)
qed

lemma read_interface_observation_total:
  assumes "wf_evidence ev" shows "read_interface_observation ev name \<noteq> None"
proof -
  obtain x where x: "dedicated_observation ev name = Some x"
    using dedicated_observation_total [OF assms] by blast
  obtain b where b: "require_parsed ev ''interfaces'' (Some name) = Some b"
    using require_parsed_total [OF assms] by blast
  obtain rs where rs: "parsed_records (dict_get ev ''interfaces'') = Some rs" "list_all wf_record rs"
    using wf_parsed_records [OF wf_evidence_get [OF assms]] by blast
  show ?thesis
  proof (cases b)
    case (Inr sec)
    with b have sec: "sec = dict_get ev ''interfaces''" by (simp add: require_parsed_Inr)
    from rs(2) show ?thesis
      by (rule wf_find_interface [of rs name])
        (cases x; simp add: read_interface_observation_def x b Inr sec rs(1) verdict_defs CheckResult_def)+
  qed (cases x; simp add: read_interface_observation_def x b verdict_defs CheckResult_def)
qed

text \<open>The two sources an observation is read from, in order.\<close>

lemma read_interface_observation_cases:
  assumes "read_interface_observation ev name = Some res"
  obtains seen where "dedicated_observation ev name = Some (Inr seen)"
    "res = Inr (seen, [evidence_key (device_of ev) (template_key ''interface'' name) None])"
  | t sec rs hit a l where "dedicated_observation ev name = Some (Inl t)"
    "require_parsed ev ''interfaces'' (Some name) = Some (Inr sec)" "parsed_records sec = Some rs"
    "find_interface ''interface'' name rs = Some (Some hit)"
    "res = Inr ((a, l, None), [evidence_key (device_of ev) ''interfaces'' (Some name)])"
  | msg b where "unevaluated msg (Some name) [] None = Some b" "res = Inl b"
proof -
  obtain x where x: "dedicated_observation ev name = Some x"
    using assms by (auto simp: read_interface_observation_def Let_def bind_Some_iff)
  show thesis
  proof (cases x)
    case (Inr seen)
    with assms x that(1) show thesis by (simp add: read_interface_observation_def)
  next
    case (Inl t)
    with assms x obtain bulk where bulk: "require_parsed ev ''interfaces'' (Some name) = Some bulk"
      by (auto simp: read_interface_observation_def bind_Some_iff)
    show thesis
    proof (cases bulk)
      case (Inl b)
      with assms x \<open>x = Inl t\<close> bulk that(3) show thesis
        by (auto simp: read_interface_observation_def)
    next
      case (Inr sec)
      with assms x Inl bulk obtain rs hit where rs: "parsed_records sec = Some rs"
        and hit: "find_interface ''interface'' name rs = Some hit"
        by (auto simp: read_interface_observation_def bind_Some_iff)
      with assms x Inl bulk Inr that(2,3) show thesis
        by (cases hit) (auto simp: read_interface_observation_def bind_Some_iff)
    qed
  qed
qed

lemma read_interface_observation_Inl:
  "read_interface_observation ev name = Some (Inl b) \<Longrightarrow> cr_status b = UNEVALUATED \<and> valid_result b"
  by (erule read_interface_observation_cases) (auto dest!: verdict_SomeD)

lemma dedicated_observation_Inr:
  "dedicated_observation ev name = Some (Inr seen) \<Longrightarrow> parsed_ok ev (template_key ''interface'' name)"
proof (rule ccontr)
  assume a: "dedicated_observation ev name = Some (Inr seen)" and "\<not> parsed_ok ev (template_key ''interface'' name)"
  moreover from a obtain t where "require_parsed ev (template_key ''interface'' name) (Some name) = Some t"
    by (auto simp: dedicated_observation_def bind_Some_iff)
  ultimately obtain b where "require_parsed ev (template_key ''interface'' name) (Some name) = Some (Inl b)"
    using require_parsed_unread by blast
  with a show False by (simp add: dedicated_observation_def)
qed

lemma read_interface_observation_Inr:
  assumes "read_interface_observation ev name = Some (Inr (seen, keys))"
  shows "keys \<noteq> [] \<and> (parsed_ok ev (template_key ''interface'' name) \<or> parsed_ok ev ''interfaces'')"
  using assms by (rule read_interface_observation_cases)
    (auto simp: require_parsed_Inr dest: dedicated_observation_Inr)

definition previous_counters :: "dict option \<Rightarrow> string \<Rightarrow> counters option" where
  "previous_counters previous name = (case previous_observation previous name of
     Some (c, _) \<Rightarrow> c | None \<Rightarrow> None)"

lemma previous_observation_total:
  "(\<And>ev. previous = Some ev \<Longrightarrow> wf_evidence ev) \<Longrightarrow>
     \<exists>ks. previous_observation previous name = Some (previous_counters previous name, ks)"
proof (cases previous)
  case (Some p)
  assume "\<And>ev. previous = Some ev \<Longrightarrow> wf_evidence ev"
  with Some obtain obs where "read_interface_observation p name = Some obs"
    using read_interface_observation_total by blast
  with Some show ?thesis
    by (cases "case obs of Inl bail \<Rightarrow> (None, []) | Inr ((_, _, counters), keys) \<Rightarrow> (counters, keys)")
      (simp add: previous_observation_def previous_counters_def)
qed (simp add: previous_observation_def previous_counters_def)

lemma interface_state_table:
  assumes ev: "wf_evidence ev" and prev: "\<And>p. previous = Some p \<Longrightarrow> wf_evidence p"
  shows "\<exists>obs r. read_interface_observation ev name = Some obs \<and> interface_state ev name previous = Some r \<and>
    cr_status r = interface_verdict obs (previous_counters previous name) (previous \<noteq> None)"
proof -
  obtain obs where obs: "read_interface_observation ev name = Some obs"
    using read_interface_observation_total [OF ev] by blast
  obtain ks where ks: "previous_observation previous name = Some (previous_counters previous name, ks)"
    using previous_observation_total [OF prev] by blast
  show ?thesis
  proof (cases obs)
    case (Inl b)
    with obs read_interface_observation_Inl show ?thesis by (auto simp: interface_state_def interface_verdict_def)
  next
    case (Inr q)
    then obtain a l c keys where q: "obs = Inr ((a, l, c), keys)" by (cases q) auto
    with obs read_interface_observation_Inr have "keys \<noteq> []" by blast
    then obtain k kk where keys: "keys = k # kk" by (cases keys) auto
    obtain st detail where cd: "counter_delta_status c (previous_counters previous name) (previous \<noteq> None) = (st, detail)"
      by fastforce
    then have st: "st = delta_verdict c (previous_counters previous name) (previous \<noteq> None)"
      by (metis counter_delta_status_verdict fst_conv)
    show ?thesis
    proof (cases "a = JStr ''up'' \<and> l = JStr ''up''")
      case True
      with obs q ks cd keys st show ?thesis
        by (cases st) (auto simp: interface_state_def interface_verdict_def verdict_defs CheckResult_def)
    qed (use obs q keys in \<open>auto simp: interface_state_def interface_verdict_def verdict_defs CheckResult_def\<close>)
  qed
qed

lemma interface_state_valid: "interface_state ev name previous = Some r \<Longrightarrow> valid_result r"
proof -
  assume h: "interface_state ev name previous = Some r"
  then obtain obs where obs: "read_interface_observation ev name = Some obs"
    by (auto simp: interface_state_def bind_Some_iff)
  show "valid_result r"
  proof (cases obs)
    case (Inl b)
    with h obs show ?thesis by (simp add: interface_state_def read_interface_observation_Inl)
  next
    case (Inr q)
    then obtain a l c keys where q: "obs = Inr ((a, l, c), keys)" by (cases q) auto
    show ?thesis
    proof (cases "a = JStr ''up'' \<and> l = JStr ''up''")
      case True
      with h obs q obtain pc pk where pc: "previous_observation previous name = Some (pc, pk)"
        by (auto simp: interface_state_def bind_Some_iff)
      obtain st detail where "counter_delta_status c pc (previous \<noteq> None) = (st, detail)" by fastforce
      with h obs q True pc show ?thesis
        by (cases st) (auto simp: interface_state_def dest: verdict_SomeD)
    qed (use h obs q in \<open>auto simp: interface_state_def dest: verdict_SomeD\<close>)
  qed
qed

definition interface_reads :: "string \<Rightarrow> string list" where
  "interface_reads name = [template_key ''interface'' name, ''interfaces'']"

lemma interface_state_unread:
  assumes "interface_state ev name previous = Some r" "\<forall>k\<in>set (interface_reads name). \<not> parsed_ok ev k"
  shows "cr_status r = UNEVALUATED"
proof -
  from assms(1) obtain obs where "read_interface_observation ev name = Some obs"
    by (auto simp: interface_state_def bind_Some_iff)
  with assms show ?thesis
    by (cases obs) (auto simp: interface_state_def interface_reads_def
        dest!: read_interface_observation_Inl read_interface_observation_Inr)
qed

lemma dedicated_observation_cong:
  assumes "map_of ev (template_key ''interface'' name) = map_of ev' (template_key ''interface'' name)"
  shows "dedicated_observation ev name = dedicated_observation ev' name"
  unfolding dedicated_observation_def require_parsed_cong [OF assms] ..

lemma read_interface_observation_frame:
  assumes "map_of ev ''device'' = map_of ev' ''device''"
    and "\<forall>k\<in>set (interface_reads name). map_of ev k = map_of ev' k"
  shows "read_interface_observation ev name = read_interface_observation ev' name"
proof -
  have a: "map_of ev (template_key ''interface'' name) = map_of ev' (template_key ''interface'' name)"
    and b: "map_of ev ''interfaces'' = map_of ev' ''interfaces''"
    using assms(2) by (auto simp: interface_reads_def)
  show ?thesis
    unfolding read_interface_observation_def dedicated_observation_cong [OF a]
      require_parsed_cong [OF b] device_of_cong [OF assms(1)] ..
qed

lemma interface_state_frame:
  assumes "map_of ev ''device'' = map_of ev' ''device''"
    and "\<forall>k\<in>set (interface_reads name). map_of ev k = map_of ev' k"
  shows "interface_state ev name previous = interface_state ev' name previous"
  unfolding interface_state_def read_interface_observation_frame [OF assms] ..

interpretation state_check: rung_check "on_subject (\<lambda>ev name. interface_state ev name None)"
    "reads_subject interface_reads"
proof (rule rung_check_on_subject)
  fix ev ev' :: dict and x r
  show "interface_state ev x None = Some r \<Longrightarrow> valid_result r" by (rule interface_state_valid)
  show "interface_state ev x None = Some r \<Longrightarrow> \<forall>k\<in>set (interface_reads x). \<not> parsed_ok ev k \<Longrightarrow>
      cr_status r = UNEVALUATED" by (rule interface_state_unread)
  show "map_of ev ''device'' = map_of ev' ''device'' \<Longrightarrow> \<forall>k\<in>set (interface_reads x). map_of ev k = map_of ev' k \<Longrightarrow>
      interface_state ev x None = interface_state ev' x None" by (rule interface_state_frame)
  show "wf_evidence ev \<Longrightarrow> interface_state ev x None \<noteq> None"
    using interface_state_table [of ev None x] by fastforce
qed

subsection \<open>\<open>interface_exists\<close>\<close>

lemma interface_exists_valid: "interface_exists ev name = Some r \<Longrightarrow> valid_result r"
  unfolding interface_exists_def Let_def
  by (erule gated_valid_Some) (auto simp: bind_Some_iff split: if_splits dest!: verdict_SomeD)

lemma interface_exists_unread:
  "\<not> parsed_ok ev ''interfaces'' \<Longrightarrow> interface_exists ev name = Some r \<Longrightarrow> cr_status r = UNEVALUATED"
  unfolding interface_exists_def Let_def by (rule gated_unread_status)

lemma interface_exists_frame:
  assumes "map_of ev ''device'' = map_of ev' ''device''" and "map_of ev ''interfaces'' = map_of ev' ''interfaces''"
  shows "interface_exists ev name = interface_exists ev' name"
  unfolding interface_exists_def device_of_cong [OF assms(1)] by (rule gated_cong [OF assms(2) refl refl])

lemma any_same_interface:
  assumes "list_all wf_record rs"
  shows "any_m (\<lambda>c. same_interface_field c name) (filter truthy (map (\<lambda>r. field r ''interface'') rs)) =
    Some (list_ex (named ''interface'' name) rs)"
  using assms
proof (induction rs)
  case (Cons r rs)
  then have "opt_string (field r ''interface'')" by (simp add: wf_record_field)
  with Cons show ?case
    by (cases "field r ''interface''") (auto simp: opt_string_def named_def same_interface_def)
qed simp

lemma interface_exists_table:
  "wf_evidence ev \<Longrightarrow> \<exists>r. interface_exists ev name = Some r \<and>
     cr_status r = (case section_records ev ''interfaces'' of None \<Rightarrow> UNEVALUATED
       | Some rs \<Rightarrow> if list_ex (named ''interface'' name) rs then HEALTHY else BROKEN)"
  unfolding interface_exists_def Let_def
proof (rule gated_table, goal_cases)
  case (3 rs)
  note p = present_fields_wf [OF 3(2), of "''interface''", simplified]
  obtain l where "listed_names (filter truthy (map (\<lambda>r. field r ''interface'') rs)) = Some l"
    using listed_names_total p by blast
  with p show ?case by (simp add: any_same_interface [OF 3(2)])
qed simp_all

interpretation interface_exists_check: rung_check "on_subject interface_exists" "reads_subject (\<lambda>_. [''interfaces''])"
proof (rule rung_check_on_subject)
  fix ev :: dict and x
  show "wf_evidence ev \<Longrightarrow> interface_exists ev x \<noteq> None"
    using interface_exists_table [of ev x] by auto
qed (auto intro: interface_exists_valid interface_exists_unread interface_exists_frame)

subsection \<open>Properties\<close>

text \<open>On well-formed evidence the interface check always answers.  An interface that was read and is not
  fully up is broken whatever its counters; one that is up is broken only when a second observation
  shows an error counter strictly rising, and otherwise healthy, so a missing second observation
  never makes a read interface unevaluated.\<close>

theorem interface_state_decision_table:
  assumes "wf_evidence ev" and "\<And>p. previous = Some p \<Longrightarrow> wf_evidence p"
  shows "\<exists>obs r. read_interface_observation ev name = Some obs \<and> interface_state ev name previous = Some r \<and>
    cr_status r = interface_verdict obs (previous_counters previous name) (previous \<noteq> None)"
  by (rule interface_state_table [OF assms])

definition counter_section :: "string \<Rightarrow> json" where
  "counter_section crc = parsed_section [JDict [(''counter'', JStr ''crc''), (''value'', JStr crc)]]
     [(''admin_state'', JStr ''up''), (''line_state'', JStr ''up'')]"

theorem interface_state_witness:
  "\<exists>r. interface_state [(''interface:Gi0/0/0/0'', counter_section ''512'')] ''Gi0/0/0/0''
      (Some [(''interface:Gi0/0/0/0'', counter_section ''500'')]) = Some r \<and> cr_status r = BROKEN"
proof -
  let ?now = "[(''interface:Gi0/0/0/0'', counter_section ''512'')]"
  let ?then = "[(''interface:Gi0/0/0/0'', counter_section ''500'')]"
  have "wf_evidence ?now" "wf_evidence ?then" by code_simp+
  then obtain obs r where r: "read_interface_observation ?now ''Gi0/0/0/0'' = Some obs"
    "interface_state ?now ''Gi0/0/0/0'' (Some ?then) = Some r"
    "cr_status r = interface_verdict obs (previous_counters (Some ?then) ''Gi0/0/0/0'') True"
    using interface_state_decision_table [of ?now "Some ?then" "''Gi0/0/0/0''"] by auto
  have "(case read_interface_observation ?now ''Gi0/0/0/0'' of
      Some obs \<Rightarrow> interface_verdict obs (previous_counters (Some ?then) ''Gi0/0/0/0'') True = BROKEN | None \<Rightarrow> False)"
    by code_simp
  with r show ?thesis by auto
qed

text \<open>The counter comparison answers only on two observations that both carry counters, and is broken
  exactly when one of the eight error counters is present in both and strictly higher now.\<close>

theorem counter_rate_verdict:
  "fst (counter_delta_status current previous has_previous) =
     (case (has_previous, current, previous) of
        (True, Some cur, Some prev) \<Rightarrow> if rising cur prev then BROKEN else HEALTHY
      | _ \<Rightarrow> UNEVALUATED)"
  by (simp add: counter_delta_status_verdict delta_verdict_def)

end
