(* ===== verification/Flows.thy ===== *)
theory Flows
  imports Interface_Checks
begin

section \<open>Flows: the ladders a descent walks\<close>

text \<open>
  Models \<open>flows.py\<close>: the declarative types \<open>Rung\<close> and \<open>Flow\<close> with the validation their
  constructors do, the four ladders of the registry and \<open>flow_for\<close>.  A rung carries its check as
  a function of the evidence and the rung's subject, as the code does.  A flow names its presence
  check by an enumeration, because the code compares it by identity
  (\<open>interface_scoped_flows\<close> in \<open>interface_kind.py\<close>).

  The lemmas show that the registry passes its own validation, that every declared object type is
  built or refused, and that every rung's check reads only sections the rung's own collect steps
  name, so a re-read of exactly those steps reproduces its verdict.
\<close>

subsection \<open>Types\<close>

datatype device_scope = LOCAL | SUBJECT | PATH

fun scope_value :: "device_scope \<Rightarrow> string" where
  "scope_value LOCAL = ''local_device''"
| "scope_value SUBJECT = ''subject_device''"
| "scope_value PATH = ''path''"

datatype subject_rule = AS_IS | HOST_PREFIX | DEVICE_WIDE | EACH_PATH_INTERFACE | EACH_PHYSICAL_INTERFACE

fun rule_value :: "subject_rule \<Rightarrow> string" where
  "rule_value AS_IS = ''as_is''"
| "rule_value HOST_PREFIX = ''host_prefix''"
| "rule_value DEVICE_WIDE = ''device_wide''"
| "rule_value EACH_PATH_INTERFACE = ''each_path_interface''"
| "rule_value EACH_PHYSICAL_INTERFACE = ''each_physical_interface''"

definition is_fanout :: "subject_rule \<Rightarrow> bool" where
  "is_fanout r \<longleftrightarrow> r = EACH_PHYSICAL_INTERFACE \<or> r = EACH_PATH_INTERFACE"

datatype aggregation = ALL_HEALTHY | ANY_HEALTHY

record collect_step =
  cs_name :: string
  cs_parameter :: "string option"
  cs_is_template :: bool
  cs_is_static :: bool
  cs_fill :: "string option"

definition CollectStep :: "string \<Rightarrow> collect_step" where
  "CollectStep name = \<lparr>cs_name = name, cs_parameter = None, cs_is_template = False,
     cs_is_static = False, cs_fill = None\<rparr>"

type_synonym check = "dict \<Rightarrow> string option \<Rightarrow> check_result option"

record rung =
  rg_name :: string
  rg_collect :: "collect_step list"
  rg_check :: check
  rg_finding :: string
  rg_scope :: device_scope
  rg_subject_rule :: subject_rule
  rg_aggregation :: "aggregation option"

text \<open>A rung with the defaults of the class: local scope, the subject as it is, no aggregation.\<close>

definition Rung :: "string \<Rightarrow> collect_step list \<Rightarrow> check \<Rightarrow> string \<Rightarrow> rung" where
  "Rung name collect check finding = \<lparr>rg_name = name, rg_collect = collect, rg_check = check,
     rg_finding = finding, rg_scope = LOCAL, rg_subject_rule = AS_IS, rg_aggregation = None\<rparr>"

definition evaluates_a_set :: "rung \<Rightarrow> bool" where
  "evaluates_a_set r \<longleftrightarrow> rg_scope r = PATH \<or> is_fanout (rg_subject_rule r)"

text \<open>\<open>Rung.__post_init__\<close>: the message of the \<open>ValueError\<close> it raises, if it does.\<close>

definition rung_post_init :: "rung \<Rightarrow> string option" where
  "rung_post_init r =
     (if evaluates_a_set r \<and> rg_aggregation r = None
      then Some (''rung '' @ repr_str (rg_name r) @ '' evaluates over a set (scope='' @
             scope_value (rg_scope r) @ '', subject='' @ rule_value (rg_subject_rule r) @
             ''), so it must declare an aggregation (ALL_HEALTHY or ANY_HEALTHY)'')
      else if \<not> evaluates_a_set r \<and> rg_aggregation r \<noteq> None
      then Some (''rung '' @ repr_str (rg_name r) @
             '' declares an aggregation but evaluates exactly one object on one device (scope='' @
             scope_value (rg_scope r) @ '', subject='' @ rule_value (rg_subject_rule r) @ '')'')
      else None)"

datatype presence_check = INTERFACE_EXISTS | BGP_PEER_EXISTS

fun run_presence :: "presence_check \<Rightarrow> dict \<Rightarrow> string \<Rightarrow> check_result option" where
  "run_presence INTERFACE_EXISTS = interface_exists"
| "run_presence BGP_PEER_EXISTS = bgp_peer_exists"

record flow =
  fl_object_type :: string
  fl_subject_schema :: string
  fl_descent :: "rung list"
  fl_findings :: "string list"
  fl_subject_present :: "presence_check option"

text \<open>\<open>Flow.__post_init__\<close>; the finding set is a list without order, read with membership.\<close>

definition flow_post_init :: "flow \<Rightarrow> string option" where
  "flow_post_init f =
     (let missing = filter (\<lambda>d. d \<notin> set (fl_findings f)) (from_keys (map rg_finding (fl_descent f)))
      in if missing \<noteq> []
         then Some (''flow '' @ repr_str (fl_object_type f) @
                '' has rungs whose findings are not in its declared finding set: '' @
                py_repr (JList (map JStr (sort missing))))
         else None)"

subsection \<open>Universal findings\<close>

definition ALL_LAYERS_HEALTHY :: string where "ALL_LAYERS_HEALTHY = ''all_layers_healthy''"
definition UNDETERMINED :: string where "UNDETERMINED = ''undetermined''"
definition CAUSE_NOT_LOCALISED :: string where "CAUSE_NOT_LOCALISED = ''cause_not_localised''"
definition SUBJECT_NOT_FOUND :: string where "SUBJECT_NOT_FOUND = ''subject_not_found''"
definition NO_FAULT_ON_PATH :: string where "NO_FAULT_ON_PATH = ''no_fault_on_path''"
definition TEMPORALLY_INCOHERENT :: string where "TEMPORALLY_INCOHERENT = ''temporally_incoherent''"

definition UNIVERSAL_FINDINGS :: "string list" where
  "UNIVERSAL_FINDINGS = [ALL_LAYERS_HEALTHY, UNDETERMINED, CAUSE_NOT_LOCALISED, NO_FAULT_ON_PATH,
     TEMPORALLY_INCOHERENT, SUBJECT_NOT_FOUND]"

lemmas finding_defs = ALL_LAYERS_HEALTHY_def UNDETERMINED_def CAUSE_NOT_LOCALISED_def
  SUBJECT_NOT_FOUND_def NO_FAULT_ON_PATH_def TEMPORALLY_INCOHERENT_def UNIVERSAL_FINDINGS_def

subsection \<open>The registry\<close>

definition OBJECT_TYPES :: "string list" where
  "OBJECT_TYPES = [''interface'', ''isis_adjacency'', ''bgp_session'', ''ldp_session'',
     ''l3vpn_service'', ''device_health'', ''topology'']"

text \<open>The two collect steps three of the ladders end in.\<close>

abbreviation template_step :: "string \<Rightarrow> string \<Rightarrow> collect_step" where
  "template_step name param \<equiv> CollectStep name \<lparr>cs_parameter := Some param, cs_is_template := True\<rparr>"

text \<open>\<open>checks.interface_state\<close> as a rung calls it, without a second observation.\<close>

abbreviation interface_rung_check :: check where
  "interface_rung_check \<equiv> on_subject (\<lambda>ev name. interface_state ev name None)"

definition INTERFACE_FLOW :: flow where
  "INTERFACE_FLOW = \<lparr>
     fl_object_type = ''interface'',
     fl_subject_schema = ''<interface-name>, as the device spells it (Gi0/0/0/0)'',
     fl_descent = [
       Rung ''interface''
         [CollectStep ''interfaces'', template_step ''interface'' ''interface'']
         interface_rung_check ''interface_line_down''],
     fl_findings = [''interface_line_down''] @ UNIVERSAL_FINDINGS,
     fl_subject_present = Some INTERFACE_EXISTS\<rparr>"

definition BGP_SESSION_FLOW :: flow where
  "BGP_SESSION_FLOW = \<lparr>
     fl_object_type = ''bgp_session'',
     fl_subject_schema = ''<peer-ipv4-address>, as `show bgp summary` lists it (10.255.0.12)'',
     fl_descent = [
       Rung ''bgp_session'' [CollectStep ''bgp''] (on_subject bgp_session_state) ''peer_not_established'',
       Rung ''transport'' [template_step ''bgp_neighbor'' ''address'']
         (on_subject bgp_transport) ''transport_blocked'',
       Rung ''route_to_peer'' [template_step ''route'' ''prefix'']
         (on_subject route_present) ''peer_unreachable_no_route''
         \<lparr>rg_subject_rule := HOST_PREFIX\<rparr>,
       Rung ''igp_adjacency'' [CollectStep ''isis''] isis_adjacency ''igp_isolated''
         \<lparr>rg_scope := SUBJECT, rg_subject_rule := DEVICE_WIDE\<rparr>,
       Rung ''interface''
         [CollectStep ''interfaces'',
          template_step ''route'' ''prefix'' \<lparr>cs_fill := Some ''origin''\<rparr>,
          template_step ''interface'' ''interface'']
         interface_rung_check ''interface_line_down''
         \<lparr>rg_scope := SUBJECT, rg_subject_rule := EACH_PATH_INTERFACE,
          rg_aggregation := Some ANY_HEALTHY\<rparr>],
     fl_findings = [''peer_not_established'', ''transport_blocked'', ''peer_unreachable_no_route'',
       ''igp_isolated'', ''interface_line_down''] @ UNIVERSAL_FINDINGS,
     fl_subject_present = Some BGP_PEER_EXISTS\<rparr>"

definition ISIS_ADJACENCY_FLOW :: flow where
  "ISIS_ADJACENCY_FLOW = \<lparr>
     fl_object_type = ''isis_adjacency'',
     fl_subject_schema = ''<local-interface-name>, as the device spells it (Gi0/0/0/0)'',
     fl_descent = [
       Rung ''isis_adjacency''
         [CollectStep ''isis'', CollectStep ''lldp'', CollectStep ''interfaces'']
         (on_subject isis_neighbor_up) ''adjacency_not_up'',
       Rung ''interface''
         [CollectStep ''interfaces'', template_step ''interface'' ''interface'']
         interface_rung_check ''interface_line_down''],
     fl_findings = [''adjacency_not_up'', ''interface_line_down''] @ UNIVERSAL_FINDINGS,
     fl_subject_present = Some INTERFACE_EXISTS\<rparr>"

definition LDP_SESSION_FLOW :: flow where
  "LDP_SESSION_FLOW = \<lparr>
     fl_object_type = ''ldp_session'',
     fl_subject_schema = ''<local-interface-name>, as the device spells it (Gi0/0/0/0)'',
     fl_descent = [
       Rung ''ldp_session''
         [CollectStep ''ldp'', CollectStep ''ldp_discovery'', CollectStep ''interfaces'',
          CollectStep ''config_ldp'' \<lparr>cs_is_template := True\<rparr>,
          CollectStep ''ldp_intent'' \<lparr>cs_is_static := True\<rparr>]
         (on_subject ldp_session_up) ''session_not_up'',
       Rung ''interface''
         [CollectStep ''interfaces'', template_step ''interface'' ''interface'']
         interface_rung_check ''interface_line_down''],
     fl_findings = [''session_not_up'', ''interface_line_down''] @ UNIVERSAL_FINDINGS,
     fl_subject_present = Some INTERFACE_EXISTS\<rparr>"

definition FLOWS :: "(string \<times> flow) list" where
  "FLOWS = [(''bgp_session'', BGP_SESSION_FLOW), (''interface'', INTERFACE_FLOW),
     (''isis_adjacency'', ISIS_ADJACENCY_FLOW), (''ldp_session'', LDP_SESSION_FLOW)]"

lemmas ladder_defs = INTERFACE_FLOW_def BGP_SESSION_FLOW_def ISIS_ADJACENCY_FLOW_def
  LDP_SESSION_FLOW_def FLOWS_def

subsection \<open>Refused object types\<close>

definition DEVICE_HEALTH_REFUSAL :: string where
  "DEVICE_HEALTH_REFUSAL =
     repr_str ''device_health'' @
     '' is deliberately not a flow (B-108: investigated and refused, not merely unbuilt -- '' @
     ''see the comment block above FLOWS in flows.py for the full reasoning). Device '' @
     ''health is an aggregation over independent per-protocol signals (IS-IS, BGP, '' @
     ''interfaces, SR-TE), not a dependency descent, so it has no '' @
     repr_str ''lowest broken rung'' @
     '' to report. Use `nettools health DEVICE` '' @
     ''(`checks.evaluate_device`/`evaluate_fabric`) or the MCP tool '' @
     ''`assess_lab_device_health` instead -- both already answer '' @
     repr_str ''is DEVICE ok'' @
     '' from the same evidence this flow would have collected.''"

definition L3VPN_SERVICE_REFUSAL :: string where
  "L3VPN_SERVICE_REFUSAL =
     repr_str ''l3vpn_service'' @
     '' is deliberately not a flow (B-110: investigated and refused, not merely unbuilt -- '' @
     ''see the comment block above FLOWS in flows.py for the full reasoning). The naming '' @
     ''scheme is settled (`<pe>:<vrf>`, Q-004/OBS-035) and this fabric runs a real L3VPN '' @
     ''service -- three VRFs with RT-leak policy -- but this build has no VRF-scoped '' @
     ''collection surface at all: no `show vrf`, no VRF-qualified route or interface '' @
     ''command, and the one VPNv4 intent that exists (`bgp_vpnv4`) is device-wide, already '' @
     ''read by `bgp_session`'' @
     [CHR 0x27] @
     ''s own top rung under a different AFI (OBS-183). Without a VRF-scoped command, '' @
     ''neither the subject'' @
     [CHR 0x27] @
     ''s own existence nor any rung beneath it can be told apart per VRF, and even the '' @
     ''protocol-stack evidence this build could collect would report an RT-policy failure '' @
     ''(SHARED-SVCS) as healthy. There is currently no tool surface that investigates a '' @
     ''specific VRF'' @
     [CHR 0x27] @
     ''s service.''"

definition TOPOLOGY_REFUSAL :: string where
  "TOPOLOGY_REFUSAL =
     repr_str ''topology'' @
     '' is deliberately not a flow (B-111: investigated and refused, not merely unbuilt -- '' @
     ''see the comment block above FLOWS in flows.py for the full reasoning). '' @
     repr_str ''Topology'' @
     '' names the shape of the network, not a protocol with a lowest broken rung to '' @
     ''descend: a per-link framing duplicates `isis_adjacency`'' @
     [CHR 0x27] @
     ''s existing ladder (LLDP corroborates there already, and was refused as its own rung '' @
     ''by B-107/OBS-167); a fabric-wide framing is an aggregation over independent '' @
     ''per-link facts (B-108'' @
     repr_str ''s shape again), already served by `nettools audit` and `nettools learn-topology`'' @
     ''s anomaly report; and a device-pair reachability framing re-derives rungs '' @
     ''`bgp_session` already owns (`route_present`, `isis_adjacency`, `interface_state`) '' @
     ''without a new dependency above them. Use `nettools audit` for fabric consistency, '' @
     ''`nettools learn-topology` for the LLDP/IS-IS anomaly report, or the '' @
     ''`bgp_session`/`isis_adjacency`/`ldp_session` flows for a specific protocol'' @
     [CHR 0x27] @
     ''s dependency chain.''"


definition REFUSED_OBJECT_TYPES :: "(string \<times> string) list" where
  "REFUSED_OBJECT_TYPES = [(''device_health'', DEVICE_HEALTH_REFUSAL),
     (''l3vpn_service'', L3VPN_SERVICE_REFUSAL), (''topology'', TOPOLOGY_REFUSAL)]"

datatype flow_error = KeyError string | NotImplementedError string

definition flow_for :: "string \<Rightarrow> flow_error + flow" where
  "flow_for object_type =
     (if object_type \<notin> set OBJECT_TYPES
      then Inl (KeyError (''unknown object type '' @ repr_str object_type @ ''; implemented flows are '' @
             py_repr (JList (map JStr (sort (map fst FLOWS)))) @ '' (refused, not unbuilt: '' @
             py_repr (JList (map JStr (sort (map fst REFUSED_OBJECT_TYPES)))) @ '')''))
      else case map_of REFUSED_OBJECT_TYPES object_type of
        Some why \<Rightarrow> Inl (NotImplementedError why)
      | None \<Rightarrow> (case map_of FLOWS object_type of
          None \<Rightarrow> Inl (NotImplementedError (''the '' @ repr_str object_type @
            '' flow is declared in OBJECT_TYPES but has no FLOWS entry and no REFUSED_OBJECT_TYPES entry -- it is pending design, not yet built and not yet refused''))
        | Some f \<Rightarrow> Inr f))"

definition interface_scoped_flows :: "string list" where
  "interface_scoped_flows =
     map fst (filter (\<lambda>(name, f). fl_subject_present f = Some INTERFACE_EXISTS) FLOWS)"

subsection \<open>The registry is well formed\<close>

definition well_formed_flow :: "flow \<Rightarrow> bool" where
  "well_formed_flow f \<longleftrightarrow> flow_post_init f = None \<and> list_all (\<lambda>r. rung_post_init r = None) (fl_descent f) \<and>
     fl_descent f \<noteq> [] \<and> distinct (map rg_name (fl_descent f)) \<and> set UNIVERSAL_FINDINGS \<subseteq> set (fl_findings f)"

lemma flow_post_init_None:
  "flow_post_init f = None \<longleftrightarrow> rg_finding ` set (fl_descent f) \<subseteq> set (fl_findings f)"
proof -
  have "(filter (\<lambda>d. d \<notin> set (fl_findings f)) (from_keys (map rg_finding (fl_descent f))) = []) \<longleftrightarrow>
      rg_finding ` set (fl_descent f) \<subseteq> set (fl_findings f)"
    by (auto simp: filter_empty_conv)
  then show ?thesis by (simp add: flow_post_init_def Let_def)
qed

lemma rung_post_init_None:
  "rung_post_init r = None \<longleftrightarrow> (evaluates_a_set r \<longleftrightarrow> rg_aggregation r \<noteq> None)"
  by (auto simp: rung_post_init_def)

lemma ladders_well_formed:
  "well_formed_flow INTERFACE_FLOW" "well_formed_flow BGP_SESSION_FLOW"
  "well_formed_flow ISIS_ADJACENCY_FLOW" "well_formed_flow LDP_SESSION_FLOW"
  by (simp_all add: well_formed_flow_def flow_post_init_None rung_post_init_None ladder_defs Rung_def
      finding_defs evaluates_a_set_def is_fanout_def)

lemma FLOWS_well_formed: "(name, f) \<in> set FLOWS \<Longrightarrow> well_formed_flow f \<and> fl_object_type f = name"
  using ladders_well_formed by (auto simp: FLOWS_def) (simp_all add: ladder_defs)

subsection \<open>What a rung's check may read\<close>

text \<open>The evidence keys a collect step is collected under, for one descent subject.\<close>

definition step_covers :: "string \<Rightarrow> collect_step \<Rightarrow> string \<Rightarrow> bool" where
  "step_covers subject st key =
     (if \<not> cs_is_template st then key = cs_name st
      else case cs_parameter st of
        None \<Rightarrow> key = cs_name st
      | Some p \<Rightarrow>
          if cs_fill st \<noteq> None \<or> p = ''interface'' then starts_with (template_key (cs_name st) []) key
          else if p = ''prefix'' then key = template_key (cs_name st) (subject @ ''/32'')
          else key = template_key (cs_name st) subject)"

text \<open>The subjects a rule can hand to a check for one descent subject.\<close>

fun rule_subject :: "subject_rule \<Rightarrow> string \<Rightarrow> string option \<Rightarrow> bool" where
  "rule_subject AS_IS subject s = (s = Some subject)"
| "rule_subject HOST_PREFIX subject s = (s = Some (subject @ ''/32''))"
| "rule_subject DEVICE_WIDE subject s = (s = None)"
| "rule_subject EACH_PATH_INTERFACE subject s = (s \<noteq> None)"
| "rule_subject EACH_PHYSICAL_INTERFACE subject s = (s \<noteq> None)"

definition agree_on :: "(string \<Rightarrow> bool) \<Rightarrow> dict \<Rightarrow> dict \<Rightarrow> bool" where
  "agree_on P ev ev' \<longleftrightarrow> map_of ev ''device'' = map_of ev' ''device'' \<and> (\<forall>k. P k \<longrightarrow> map_of ev k = map_of ev' k)"

definition collected_by :: "rung \<Rightarrow> string \<Rightarrow> string \<Rightarrow> bool" where
  "collected_by r subject key \<longleftrightarrow> list_ex (\<lambda>st. step_covers subject st key) (rg_collect r)"

lemma starts_with_template_key: "starts_with (template_key name []) (template_key name x)"
  by (simp add: template_key_def starts_with_iff)

lemma rung_reads_only_collected:
  assumes "(name, f) \<in> set FLOWS" and "r \<in> set (fl_descent f)"
    and "rule_subject (rg_subject_rule r) subject s" and "agree_on (collected_by r subject) ev ev'"
  shows "rg_check r ev s = rg_check r ev' s"
  using assms unfolding FLOWS_def
  by (auto simp: ladder_defs Rung_def CollectStep_def step_covers_def collected_by_def agree_on_def
      reads_subject_def isis_reads_def ldp_reads_def interface_reads_def starts_with_template_key
      intro!: session_check.frame transport_check.frame route_check.frame adjacency_check.frame
        state_check.frame isis_check.frame ldp_check.frame)

subsection \<open>Properties\<close>

text \<open>A rung's check reads only what the rung's own collect steps name: two evidence dictionaries that
  agree on the device and on the keys those steps are collected under give the same result, for
  every subject the rung's rule can pass.  This is what makes a re-read of one rung meaningful.\<close>

theorem checks_read_only_declared_evidence:
  assumes "(name, f) \<in> set FLOWS" and "r \<in> set (fl_descent f)"
    and "rule_subject (rg_subject_rule r) subject s" and "agree_on (collected_by r subject) ev ev'"
  shows "rg_check r ev s = rg_check r ev' s"
  by (rule rung_reads_only_collected [OF assms])

theorem checks_read_only_witness:
  "rg_check (hd (fl_descent BGP_SESSION_FLOW)) session_example (Some ''10.255.0.12'') =
   rg_check (hd (fl_descent BGP_SESSION_FLOW)) (session_example @ [(''isis'', JNull)]) (Some ''10.255.0.12'')"
proof (rule checks_read_only_declared_evidence [of "''bgp_session''" BGP_SESSION_FLOW _ "''10.255.0.12''"])
  show "(''bgp_session'', BGP_SESSION_FLOW) \<in> set FLOWS" by (simp add: FLOWS_def)
  show "agree_on (collected_by (hd (fl_descent BGP_SESSION_FLOW)) ''10.255.0.12'') session_example
      (session_example @ [(''isis'', JNull)])"
    by (auto simp: agree_on_def collected_by_def BGP_SESSION_FLOW_def Rung_def CollectStep_def step_covers_def session_example_def)
qed (simp_all add: BGP_SESSION_FLOW_def Rung_def)

text \<open>The registry is closed: \<open>flow_for\<close> returns a flow exactly for the four built object types, the flow
  it returns has that type and passes the constructors' validation; the other declared types are
  refused with their reason and undeclared names are unknown.\<close>

theorem flow_for_classifies:
  "(case flow_for t of
      Inr f \<Rightarrow> (t, f) \<in> set FLOWS \<and> fl_object_type f = t \<and> well_formed_flow f
    | Inl (NotImplementedError why) \<Rightarrow> (t, why) \<in> set REFUSED_OBJECT_TYPES
    | Inl (KeyError why) \<Rightarrow> t \<notin> set OBJECT_TYPES) \<and>
   set OBJECT_TYPES = fst ` set FLOWS \<union> fst ` set REFUSED_OBJECT_TYPES \<and>
   fst ` set FLOWS \<inter> fst ` set REFUSED_OBJECT_TYPES = {}"
proof -
  have part: "set OBJECT_TYPES = fst ` set FLOWS \<union> fst ` set REFUSED_OBJECT_TYPES"
    "fst ` set FLOWS \<inter> fst ` set REFUSED_OBJECT_TYPES = {}"
    by (auto simp: OBJECT_TYPES_def FLOWS_def REFUSED_OBJECT_TYPES_def)
  have "case flow_for t of
      Inr f \<Rightarrow> (t, f) \<in> set FLOWS \<and> fl_object_type f = t \<and> well_formed_flow f
    | Inl (NotImplementedError why) \<Rightarrow> (t, why) \<in> set REFUSED_OBJECT_TYPES
    | Inl (KeyError why) \<Rightarrow> t \<notin> set OBJECT_TYPES"
  proof (cases "t \<in> set OBJECT_TYPES")
    case False
    then show ?thesis unfolding flow_for_def if_P [OF False] by simp
  next
    case True
    show ?thesis
    proof (cases "map_of REFUSED_OBJECT_TYPES t")
      case (Some why)
      with True have "flow_for t = Inl (NotImplementedError why)" by (simp add: flow_for_def)
      with map_of_SomeD [OF Some] show ?thesis by simp
    next
      case None
      with True part(1) obtain f where f: "map_of FLOWS t = Some f"
        by (metis UnE map_of_eq_None_iff option.exhaust)
      with True None have "flow_for t = Inr f" by (simp add: flow_for_def)
      with map_of_SomeD [OF f] FLOWS_well_formed [OF map_of_SomeD [OF f]] show ?thesis by simp
    qed
  qed
  with part show ?thesis by (intro conjI)
qed

end
