(* ===== verification/Coherence.thy ===== *)
theory Coherence
  imports Check_Result
begin

section \<open>Coherence: whether an epoch's observations support one claim\<close>

text \<open>
  Models \<open>Reread\<close> and \<open>Coherence\<close> of \<open>epoch.py\<close>, the value the walk consults before it names a
  finding.  Monotonic times are integers (ticks of the clock): the code only subtracts and
  compares them.  The rendered texts \<open>caveat\<close> and \<open>detail\<close> are not modelled, only when a caveat
  is due.
\<close>

fun status_value :: "check_status \<Rightarrow> string" where
  "status_value HEALTHY = ''healthy''"
| "status_value BROKEN = ''broken''"
| "status_value UNEVALUATED = ''unevaluated''"

text \<open>The status recorded for a re-read that could not be performed.\<close>

definition REREAD_FAILED :: string where
  "REREAD_FAILED = ''reread_failed''"

record reread =
  rr_rung :: string
  rr_device :: string
  rr_before :: string
  rr_after :: string
  rr_detail :: "string option"

definition agrees :: "reread \<Rightarrow> bool" where
  "agrees r \<longleftrightarrow> rr_before r = rr_after r"

datatype coherence_state = COHERENT | FABRIC_MOVED | WINDOW_LIMITED | UNVERIFIED

record coherence =
  ch_skew :: int
  ch_bound :: int
  ch_rereads :: "reread list"

definition within_bound :: "coherence \<Rightarrow> bool" where
  "within_bound c \<longleftrightarrow> ch_skew c \<le> ch_bound c"

definition stable :: "coherence \<Rightarrow> bool" where
  "stable c \<longleftrightarrow> ch_rereads c \<noteq> [] \<and> list_all agrees (ch_rereads c)"

definition coherence_status :: "coherence \<Rightarrow> coherence_state" where
  "coherence_status c =
     (if ch_rereads c = [] then UNVERIFIED
      else if \<not> list_all agrees (ch_rereads c) then FABRIC_MOVED
      else if within_bound c then COHERENT else WINDOW_LIMITED)"

definition refuses :: "coherence \<Rightarrow> bool" where
  "refuses c \<longleftrightarrow> coherence_status c = FABRIC_MOVED \<or> coherence_status c = UNVERIFIED"

definition coherence_ok :: "coherence \<Rightarrow> bool" where
  "coherence_ok c \<longleftrightarrow> coherence_status c = COHERENT"

text \<open>Whether \<open>caveat\<close> is a text rather than \<open>None\<close>.\<close>

definition has_caveat :: "coherence \<Rightarrow> bool" where
  "has_caveat c \<longleftrightarrow> coherence_status c = WINDOW_LIMITED"

subsection \<open>Refusal is disagreement, and width alone only qualifies\<close>

lemma refuses_iff_not_stable: "refuses c \<longleftrightarrow> \<not> stable c"
  by (simp add: refuses_def stable_def coherence_status_def)

lemma stable_outcomes:
  "stable c \<Longrightarrow> coherence_status c = (if within_bound c then COHERENT else WINDOW_LIMITED)"
  by (simp add: stable_def coherence_status_def)

lemma coherence_partition:
  "refuses c = (\<not> coherence_ok c \<and> \<not> has_caveat c)" "\<not> (coherence_ok c \<and> has_caveat c)"
  by (cases "coherence_status c"; simp add: refuses_def coherence_ok_def has_caveat_def)+

text \<open>Whatever a rung's verdict was, a failed re-read never agrees with it.\<close>

lemma status_value_not_failed: "status_value s \<noteq> REREAD_FAILED"
  by (cases s) (simp_all add: REREAD_FAILED_def)

lemma status_value_inj [simp]: "status_value s = status_value t \<longleftrightarrow> s = t"
  by (cases s; cases t) simp_all

subsection \<open>Properties\<close>

text \<open>A coherence verdict refuses exactly when the re-reads are not all in agreement or there were none;
  a window that is only too wide keeps the finding and carries a caveat; exactly one of refusing,
  qualifying and accepting holds.\<close>

theorem coherence_refusal_and_caveat:
  "refuses c = (\<not> stable c) \<and> has_caveat c = (stable c \<and> \<not> within_bound c) \<and>
   coherence_ok c = (stable c \<and> within_bound c)"
  by (auto simp: refuses_def has_caveat_def coherence_ok_def stable_def coherence_status_def)

end
