(* ===== verification/Descent.thy ===== *)
theory Descent
  imports Flows Coherence
begin

section \<open>Descent: walking a ladder to its lowest broken rung\<close>

text \<open>
  Models \<open>descent.py\<close>.  The collector, the resolver and the coherence re-read are arguments, as
  they are in the code.  A resolver maps a subject to one device, to several, or raises the
  \<open>ValueError\<close> the walk catches.  The first part holds the operations, the second the abstract
  specification of a walk on the vector of rung statuses and the lemmas that the operations
  implement it.
\<close>

subsection \<open>Outcomes and results\<close>

record rung_outcome =
  ro_rung :: string
  ro_device :: string
  ro_result :: check_result

definition ro_status :: "rung_outcome \<Rightarrow> check_status" where
  "ro_status o1 = cr_status (ro_result o1)"

record descent_result =
  dr_flow :: string
  dr_device :: string
  dr_subject :: string
  dr_finding :: string
  dr_outcomes :: "rung_outcome list"
  dr_evidence_keys :: "string list"
  dr_reason :: "string option"
  dr_coherence :: "coherence option"

definition broken_outcomes :: "rung_outcome list \<Rightarrow> rung_outcome list" where
  "broken_outcomes os = filter (\<lambda>x. ro_status x = BROKEN) os"

definition cause :: "descent_result \<Rightarrow> rung_outcome option" where
  "cause d = (let bs = broken_outcomes (dr_outcomes d) in if bs = [] then None else Some (last bs))"

definition causal_chain :: "descent_result \<Rightarrow> rung_outcome list" where
  "causal_chain d = (let bs = broken_outcomes (dr_outcomes d) in if length bs > 1 then butlast bs else [])"

definition rung_path :: "descent_result \<Rightarrow> string list" where
  "rung_path d = map ro_rung (dr_outcomes d)"

subsection \<open>Devices and subjects of a rung\<close>

datatype resolved = OneDevice string | ManyDevices "string list" | ResolverError string

type_synonym resolver = "string \<Rightarrow> resolved"

text \<open>\<open>Inl\<close> is the message of the \<open>ValueError\<close> raised.\<close>

definition resolve_devices :: "rung \<Rightarrow> string \<Rightarrow> string \<Rightarrow> resolver option \<Rightarrow> string + string list" where
  "resolve_devices r local_device subject resolver =
     (if rg_scope r = LOCAL then Inr [local_device]
      else case resolver of
        None \<Rightarrow> Inl (''rung '' @ repr_str (rg_name r) @ '' has '' @ scope_value (rg_scope r) @
                  '' scope but no resolver was supplied; refusing to fall back to the local device'')
      | Some resolve \<Rightarrow>
          (case resolve subject of
             ResolverError msg \<Rightarrow> Inl msg
           | OneDevice d \<Rightarrow> Inr [d]
           | ManyDevices ds \<Rightarrow>
               if ds = [] then Inl (''resolver returned no devices for subject '' @ repr_str subject)
               else Inr ds))"

text \<open>A name that is no string raises, in \<open>strip\<close> or when the unclassified names are joined.\<close>

definition physical_interfaces :: "dict \<Rightarrow> string list option" where
  "physical_interfaces ev = (case dict_get ev ''interfaces'' of
     JDict section \<Rightarrow> do {
       parsed \<leftarrow> json_get (dict_get_or section ''data'' (JDict [])) ''parsed'';
       recs \<leftarrow> json_get_or (py_or parsed (JDict [])) ''records'' (JList []);
       records \<leftarrow> iterate recs;
       vals \<leftarrow> map_m (\<lambda>r. json_get_or r ''interface'' (JStr [])) records;
       names \<leftarrow> names_of vals;
       Some (fst (physical_members names))
     }
   | _ \<Rightarrow> Some [])"

text \<open>\<open>[r.get("interface", "") for r in parsed.get("records") or [] if r.get("interface")]\<close>.\<close>

definition record_interfaces :: "json \<Rightarrow> json list option" where
  "record_interfaces parsed = do {
     recs \<leftarrow> json_get parsed ''records'';
     records \<leftarrow> iterate (py_or recs (JList []));
     present_fields ''interface'' records
   }"

text \<open>The device's own spelling of an interface the route names.\<close>

definition own_spelling :: "json list \<Rightarrow> json \<Rightarrow> json option option" where
  "own_spelling own route_name = find_m (\<lambda>o1. case (o1, route_name) of
     (JStr a, JStr b) \<Rightarrow> Some (same_interface a b) | _ \<Rightarrow> None) own"

fun join_route :: "json list \<Rightarrow> json list \<Rightarrow> json list \<Rightarrow> json list \<Rightarrow> (json list \<times> json list) option" where
  "join_route own [] members unresolved = Some (members, unresolved)"
| "join_route own (route_name # wanted) members unresolved = do {
     m \<leftarrow> own_spelling own route_name;
     case m of
       None \<Rightarrow> join_route own wanted members (unresolved @ [route_name])
     | Some x \<Rightarrow> join_route own wanted (if x \<in> set members then members else members @ [x]) unresolved
   }"

definition path_interfaces :: "dict \<Rightarrow> string option \<Rightarrow> (json list \<times> json list) option" where
  "path_interfaces ev origin_prefix = (case origin_prefix of
     None \<Rightarrow> Some ([], [])
   | Some prefix \<Rightarrow>
       if prefix = [] then Some ([], [])
       else case dict_get ev (template_key ''route'' prefix) of
         JDict section \<Rightarrow> do {
           parsed0 \<leftarrow> json_get (py_or (dict_get section ''data'') (JDict [])) ''parsed'';
           let parsed = py_or parsed0 (JDict []);
           meta \<leftarrow> json_get parsed ''meta'';
           found \<leftarrow> json_get (py_or meta (JDict [])) ''found'';
           if \<not> truthy found then Some ([], [])
           else do {
             wanted \<leftarrow> record_interfaces parsed;
             data \<leftarrow> json_get_or (py_or (dict_get ev ''interfaces'') (JDict [])) ''data'' (JDict []);
             bulk0 \<leftarrow> json_get data ''parsed'';
             let bulk = py_or bulk0 (JDict []);
             own \<leftarrow> (if is_dict bulk then record_interfaces bulk else Some []);
             join_route own wanted [] []
           }
         }
       | _ \<Rightarrow> Some ([], []))"

text \<open>The subjects a rung's check is run on, and an aggregation that overrides the rung's own.\<close>

definition rung_subjects ::
  "rung \<Rightarrow> string \<Rightarrow> dict \<Rightarrow> string option \<Rightarrow> (string option list \<times> aggregation option) option" where
  "rung_subjects r subject ev origin_prefix = (case rg_subject_rule r of
     AS_IS \<Rightarrow> Some ([Some subject], None)
   | HOST_PREFIX \<Rightarrow> Some ([Some (subject @ ''/32'')], None)
   | DEVICE_WIDE \<Rightarrow> Some ([None], None)
   | EACH_PHYSICAL_INTERFACE \<Rightarrow> do { ns \<leftarrow> physical_interfaces ev; Some (map Some ns, None) }
   | EACH_PATH_INTERFACE \<Rightarrow> do {
       (members, unresolved) \<leftarrow> path_interfaces ev origin_prefix;
       names_of unresolved;
       names \<leftarrow> names_of members;
       if names \<noteq> [] then Some (map Some names, Some ANY_HEALTHY)
       else do { ns \<leftarrow> physical_interfaces ev; Some (map Some ns, Some ALL_HEALTHY) }
     })"

subsection \<open>Verdict of a rung\<close>

definition aggregate :: "rung \<Rightarrow> check_result list \<Rightarrow> aggregation option \<Rightarrow> check_result option" where
  "aggregate r results aggregation =
     (case results of
        [] \<Rightarrow> CheckResult UNEVALUATED (Some (''rung '' @ repr_str (rg_name r) @
               '' resolved to no members; nothing was read, so nothing is known about it'')) None [] None
      | [x] \<Rightarrow> Some x
      | x # _ \<Rightarrow>
          let unread = filter (\<lambda>c. cr_status c = UNEVALUATED) results;
              keys = concat (map cr_evidence_keys results);
              healthy_count = length (filter (\<lambda>c. cr_status c = HEALTHY) results);
              n = length results;
              rule = (case aggregation of Some a \<Rightarrow> Some a | None \<Rightarrow> rg_aggregation r)
          in if unread \<noteq> []
             then CheckResult UNEVALUATED
                    (Some (show_nat (length unread) @ '' of '' @ show_nat n @ '' members could not be read: '' @
                       py_join ''; '' (concat (map (\<lambda>c. case cr_reason c of
                         Some why \<Rightarrow> if why = [] then [] else [why] | None \<Rightarrow> []) unread))))
                    (cr_subject x) keys None
             else if rule = Some ANY_HEALTHY
             then CheckResult (if healthy_count \<noteq> 0 then HEALTHY else BROKEN)
                    (Some (show_nat healthy_count @ '' of '' @ show_nat n @ '' members healthy (any suffices)''))
                    (cr_subject x) keys None
             else CheckResult (if healthy_count = n then HEALTHY else BROKEN)
                    (Some (show_nat healthy_count @ '' of '' @ show_nat n @ '' members healthy (all required)''))
                    (cr_subject x) keys None)"

text \<open>One pass over the devices: the results so far and the last override.\<close>

fun device_results ::
  "rung \<Rightarrow> string \<Rightarrow> (string \<Rightarrow> dict option) \<Rightarrow> string option \<Rightarrow> string list \<Rightarrow>
   check_result list \<Rightarrow> aggregation option \<Rightarrow> (check_result list \<times> aggregation option) option" where
  "device_results r subject evidence_for origin_prefix [] acc aggregation = Some (acc, aggregation)"
| "device_results r subject evidence_for origin_prefix (target # targets) acc aggregation = do {
     ev \<leftarrow> evidence_for target;
     (subjects, override) \<leftarrow> rung_subjects r subject ev origin_prefix;
     let agg = (case override of Some a \<Rightarrow> Some a | None \<Rightarrow> aggregation);
     if subjects = [] then do {
       none \<leftarrow> unevaluated (''no objects to check on '' @ target @ '' for rung '' @ repr_str (rg_name r))
         (Some subject) [] None;
       device_results r subject evidence_for origin_prefix targets (acc @ [none]) agg
     }
     else do {
       rs \<leftarrow> map_m (rg_check r ev) subjects;
       device_results r subject evidence_for origin_prefix targets (acc @ rs) agg
     }
   }"

definition evaluate_rung ::
  "rung \<Rightarrow> string list \<Rightarrow> string \<Rightarrow> (string \<Rightarrow> dict option) \<Rightarrow> string option \<Rightarrow> check_result option" where
  "evaluate_rung r devices subject evidence_for origin_prefix = do {
     (results, aggregation) \<leftarrow> device_results r subject evidence_for origin_prefix devices [] None;
     aggregate r results aggregation
   }"

subsection \<open>The walk\<close>

type_synonym collector = "string \<Rightarrow> rung \<Rightarrow> string \<Rightarrow> dict option"

fun walk ::
  "string \<Rightarrow> string \<Rightarrow> collector \<Rightarrow> resolver option \<Rightarrow> string option \<Rightarrow> rung list \<Rightarrow>
   (rung_outcome list \<times> string list \<times> string option) option" where
  "walk device subject collector resolver origin_prefix [] = Some ([], [], None)"
| "walk device subject collector resolver origin_prefix (r # rs) =
     (case resolve_devices r device subject resolver of
        Inl msg \<Rightarrow> do {
          result \<leftarrow> CheckResult UNEVALUATED (Some msg) None [] None;
          Some ([\<lparr>ro_rung = rg_name r, ro_device = device, ro_result = result\<rparr>], [], Some msg)
        }
      | Inr devices \<Rightarrow> do {
          result \<leftarrow> evaluate_rung r devices subject (\<lambda>target. collector target r subject) origin_prefix;
          let out = \<lparr>ro_rung = rg_name r, ro_device = py_join '', '' devices, ro_result = result\<rparr>;
          if cr_status result = UNEVALUATED
          then Some ([out], cr_evidence_keys result, cr_reason result)
          else do {
            (outcomes, keys, reason) \<leftarrow> walk device subject collector resolver origin_prefix rs;
            Some (out # outcomes, cr_evidence_keys result @ keys, reason)
          }
        })"

text \<open>\<open>outcomes.index(x)\<close>.\<close>

fun index_of :: "'a \<Rightarrow> 'a list \<Rightarrow> nat option" where
  "index_of x [] = None"
| "index_of x (y # ys) = (if x = y then Some 0 else map_option Suc (index_of x ys))"

definition finding_for :: "flow \<Rightarrow> rung_outcome list \<Rightarrow> coherence option \<Rightarrow> string option" where
  "finding_for f outcomes coh =
     (if list_ex (\<lambda>x. ro_status x = UNEVALUATED) outcomes then Some UNDETERMINED
      else if (case coh of Some c \<Rightarrow> refuses c | None \<Rightarrow> False) then Some TEMPORALLY_INCOHERENT
      else let bs = broken_outcomes outcomes in
        if bs = [] then Some ALL_LAYERS_HEALTHY
        else if ro_status (hd outcomes) = HEALTHY then Some NO_FAULT_ON_PATH
        else do {
          lowest_index \<leftarrow> index_of (last bs) outcomes;
          if lowest_index = 0 \<and> length outcomes > 1 then Some CAUSE_NOT_LOCALISED
          else if lowest_index < length (fl_descent f) then Some (rg_finding (fl_descent f ! lowest_index))
          else None
        })"

definition run_descent ::
  "flow \<Rightarrow> string \<Rightarrow> string \<Rightarrow> collector \<Rightarrow> resolver option \<Rightarrow>
   (rung_outcome list \<Rightarrow> coherence option) option \<Rightarrow> string option \<Rightarrow> descent_result option" where
  "run_descent f device subject collector resolver coherence origin_prefix = do {
     (outcomes, keys, reason) \<leftarrow> walk device subject collector resolver origin_prefix (fl_descent f);
     verdict \<leftarrow> (case coherence of None \<Rightarrow> Some None | Some check \<Rightarrow> map_option Some (check outcomes));
     finding \<leftarrow> finding_for f outcomes verdict;
     Some \<lparr>dr_flow = fl_object_type f, dr_device = device, dr_subject = subject, dr_finding = finding,
       dr_outcomes = outcomes, dr_evidence_keys = from_keys keys, dr_reason = reason,
       dr_coherence = verdict\<rparr>
   }"

subsection \<open>The abstract specification\<close>

text \<open>The verdict of a set: an unread member dominates, and a set nobody looked at is not healthy.\<close>

definition set_verdict :: "aggregation option \<Rightarrow> check_status list \<Rightarrow> check_status" where
  "set_verdict rule sts =
     (if sts = [] \<or> UNEVALUATED \<in> set sts then UNEVALUATED
      else if rule = Some ANY_HEALTHY then (if HEALTHY \<in> set sts then HEALTHY else BROKEN)
      else if set sts \<subseteq> {HEALTHY} then HEALTHY else BROKEN)"

fun last_broken :: "check_status list \<Rightarrow> nat option" where
  "last_broken [] = None"
| "last_broken (s # ss) = (case last_broken ss of
     Some i \<Rightarrow> Some (Suc i) | None \<Rightarrow> if s = BROKEN then Some 0 else None)"

text \<open>The terminal finding, as a function of the rungs' findings and the statuses read.\<close>

definition finding_spec :: "string list \<Rightarrow> check_status list \<Rightarrow> bool \<Rightarrow> string" where
  "finding_spec findings sts refused =
     (if UNEVALUATED \<in> set sts then UNDETERMINED
      else if refused then TEMPORALLY_INCOHERENT
      else case last_broken sts of
        None \<Rightarrow> ALL_LAYERS_HEALTHY
      | Some i \<Rightarrow> if hd sts = HEALTHY then NO_FAULT_ON_PATH
                  else if i = 0 \<and> length sts > 1 then CAUSE_NOT_LOCALISED
                  else findings ! i)"

text \<open>The shape of a walk: one outcome per rung, top down, until the first one not read.\<close>

fun walk_shape :: "rung list \<Rightarrow> rung_outcome list \<Rightarrow> bool" where
  "walk_shape [] os = (os = [])"
| "walk_shape (r # rs) [] = False"
| "walk_shape (r # rs) (x # xs) =
     (ro_rung x = rg_name r \<and> (if ro_status x = UNEVALUATED then xs = [] else walk_shape rs xs))"

subsection \<open>Sets of members\<close>

lemma list_ex_unevaluated:
  "(filter (\<lambda>c. cr_status c = UNEVALUATED) results \<noteq> []) = (UNEVALUATED \<in> set (map cr_status results))"
  by (induction results) auto

lemma length_filter_status_0:
  "(length (filter (\<lambda>c. cr_status c = HEALTHY) results) \<noteq> 0) = (HEALTHY \<in> set (map cr_status results))"
  by (induction results) auto

lemma length_filter_status_all:
  "(length (filter (\<lambda>c. cr_status c = HEALTHY) results) = length results) =
     (set (map cr_status results) \<subseteq> {HEALTHY})"
proof (induction results)
  case (Cons c cs)
  have "length (filter (\<lambda>c. cr_status c = HEALTHY) cs) \<noteq> Suc (length cs)"
    using length_filter_le [of "\<lambda>c. cr_status c = HEALTHY" cs] by linarith
  with Cons show ?case by auto
qed simp

lemma CheckResult_keys:
  "keys \<noteq> [] \<Longrightarrow> \<exists>c. CheckResult st why subj keys None = Some c \<and> cr_status c = st \<and> valid_result c"
  by (simp add: CheckResult_def valid_result_def)

lemma CheckResult_unevaluated:
  "\<exists>c. CheckResult UNEVALUATED why subj keys None = Some c \<and> cr_status c = UNEVALUATED \<and> valid_result c"
  by (simp add: CheckResult_def valid_result_def)

lemma aggregate_verdict:
  assumes "\<forall>c\<in>set results. valid_result c"
  shows "\<exists>c. aggregate r results agg = Some c \<and> valid_result c \<and>
    cr_status c = set_verdict (case agg of Some a \<Rightarrow> Some a | None \<Rightarrow> rg_aggregation r) (map cr_status results)"
proof (cases results)
  case Nil
  then show ?thesis by (simp add: aggregate_def set_verdict_def CheckResult_def valid_result_def)
next
  case (Cons x xs)
  show ?thesis
  proof (cases xs)
    case Nil
    with Cons assms show ?thesis by (cases "cr_status x") (simp_all add: aggregate_def set_verdict_def)
  next
    case (Cons y ys)
    define rule where "rule = (case agg of Some a \<Rightarrow> Some a | None \<Rightarrow> rg_aggregation r)"
    have res: "results = x # y # ys" using Cons \<open>results = x # xs\<close> by simp
    have keys: "concat (map cr_evidence_keys results) \<noteq> []" if "UNEVALUATED \<notin> set (map cr_status results)"
      using assms that by (auto simp: res valid_result_def)
    note tests = list_ex_unevaluated [of results] length_filter_status_0 [of results] length_filter_status_all [of results]
    have unfold: "aggregate r results agg =
      (if UNEVALUATED \<in> set (map cr_status results)
       then CheckResult UNEVALUATED
              (Some (show_nat (length (filter (\<lambda>c. cr_status c = UNEVALUATED) results)) @ '' of '' @ show_nat (length results) @ '' members could not be read: '' @
                 py_join ''; '' (concat (map (\<lambda>c. case cr_reason c of
                   Some why \<Rightarrow> if why = [] then [] else [why] | None \<Rightarrow> []) (filter (\<lambda>c. cr_status c = UNEVALUATED) results)))))
              (cr_subject x) (concat (map cr_evidence_keys results)) None
       else if rule = Some ANY_HEALTHY
       then CheckResult (if HEALTHY \<in> set (map cr_status results) then HEALTHY else BROKEN)
              (Some (show_nat (length (filter (\<lambda>c. cr_status c = HEALTHY) results)) @ '' of '' @ show_nat (length results) @ '' members healthy (any suffices)''))
              (cr_subject x) (concat (map cr_evidence_keys results)) None
       else CheckResult (if set (map cr_status results) \<subseteq> {HEALTHY} then HEALTHY else BROKEN)
              (Some (show_nat (length (filter (\<lambda>c. cr_status c = HEALTHY) results)) @ '' of '' @ show_nat (length results) @ '' members healthy (all required)''))
              (cr_subject x) (concat (map cr_evidence_keys results)) None)"
      unfolding tests [symmetric] rule_def by (simp only: aggregate_def res list.case Let_def)
    have ne: "map cr_status results \<noteq> []" by (simp add: res)
    show ?thesis
      unfolding unfold rule_def [symmetric] set_verdict_def
      by (cases "UNEVALUATED \<in> set (map cr_status results)"; cases "rule = Some ANY_HEALTHY")
        (simp_all only: ne if_True if_False simp_thms CheckResult_unevaluated CheckResult_keys [OF keys] HOL.conj_commute [of "valid_result _"] not_False_eq_True refl)
  qed
qed

subsection \<open>The shape of a walk\<close>

lemma walk_walk_shape:
  "walk device subject collector resolver origin rs = Some (os, ks, why) \<Longrightarrow> walk_shape rs os"
proof (induction rs arbitrary: os ks why)
  case (Cons r rs)
  show ?case
  proof (cases "resolve_devices r device subject resolver")
    case (Inl msg)
    with Cons.prems show ?thesis by (auto simp: bind_Some_iff ro_status_def CheckResult_def)
  next
    case (Inr devices)
    with Cons.prems obtain result where res:
      "evaluate_rung r devices subject (\<lambda>target. collector target r subject) origin = Some result"
      by (auto simp: bind_Some_iff)
    show ?thesis
    proof (cases "cr_status result = UNEVALUATED")
      case True
      with Cons.prems Inr res show ?thesis by (auto simp: ro_status_def)
    next
      case False
      with Cons.prems Inr res obtain os' ks' why' where rest:
        "walk device subject collector resolver origin rs = Some (os', ks', why')"
        by (auto simp: bind_Some_iff)
      with False Cons.prems Inr res have "os = \<lparr>ro_rung = rg_name r, ro_device = py_join '', '' devices, ro_result = result\<rparr> # os'"
        by auto
      with False Cons.IH [OF rest] show ?thesis by (simp add: ro_status_def)
    qed
  qed
qed simp

lemma walk_keys:
  "walk device subject collector resolver origin rs = Some (os, ks, why) \<Longrightarrow>
     ks = concat (map (\<lambda>x. cr_evidence_keys (ro_result x)) os)"
proof (induction rs arbitrary: os ks why)
  case (Cons r rs)
  show ?case
  proof (cases "resolve_devices r device subject resolver")
    case (Inl msg)
    with Cons.prems show ?thesis by (auto simp: bind_Some_iff CheckResult_def)
  next
    case (Inr devices)
    with Cons.prems obtain result where res:
      "evaluate_rung r devices subject (\<lambda>target. collector target r subject) origin = Some result"
      by (auto simp: bind_Some_iff)
    show ?thesis
    proof (cases "cr_status result = UNEVALUATED")
      case True
      with Cons.prems Inr res show ?thesis by auto
    next
      case False
      with Cons.prems Inr res obtain os' ks' why' where rest:
        "walk device subject collector resolver origin rs = Some (os', ks', why')"
        by (auto simp: bind_Some_iff)
      with False Cons.prems Inr res Cons.IH [OF rest] show ?thesis by auto
    qed
  qed
qed simp

lemma walk_shape_names: "walk_shape rs os \<Longrightarrow> map ro_rung os = take (length os) (map rg_name rs)"
  by (induction rs os rule: walk_shape.induct) (auto split: if_splits)

lemma walk_shape_length: "walk_shape rs os \<Longrightarrow> length os \<le> length rs"
  by (induction rs os rule: walk_shape.induct) (auto split: if_splits)

lemma walk_shape_complete:
  "walk_shape rs os \<Longrightarrow> UNEVALUATED \<notin> set (map ro_status os) \<Longrightarrow> length os = length rs"
  by (induction rs os rule: walk_shape.induct) (auto split: if_splits)

lemma walk_shape_unread_last:
  "walk_shape rs os \<Longrightarrow> UNEVALUATED \<notin> set (map ro_status (butlast os))"
  by (induction rs os rule: walk_shape.induct) (auto split: if_splits)

lemma walk_shape_distinct:
  "walk_shape rs os \<Longrightarrow> distinct (map rg_name rs) \<Longrightarrow> distinct (map ro_rung os)"
  by (simp add: walk_shape_names)

subsection \<open>The finding is the specification's\<close>

lemma last_broken_None: "last_broken sts = None \<longleftrightarrow> BROKEN \<notin> set sts"
  by (induction sts) (auto split: option.splits)

lemma last_broken_Some:
  "last_broken sts = Some i \<Longrightarrow>
     i < length sts \<and> sts ! i = BROKEN \<and> (\<forall>j. i < j \<longrightarrow> j < length sts \<longrightarrow> sts ! j \<noteq> BROKEN)"
proof (induction sts arbitrary: i)
  case (Cons s ss)
  show ?case
  proof (cases "last_broken ss")
    case None
    with Cons.prems have "i = 0" "s = BROKEN" "BROKEN \<notin> set ss"
      by (auto simp: last_broken_None split: if_splits)
    then show ?thesis by (auto simp: nth_Cons' in_set_conv_nth)
  next
    case (Some k)
    with Cons.prems have i: "i = Suc k" by simp
    from Cons.IH [OF Some] i show ?thesis by (auto simp: nth_Cons split: nat.splits)
  qed
qed simp

lemma broken_outcomes_last_broken:
  "distinct (map ro_rung os) \<Longrightarrow>
     (case last_broken (map ro_status os) of
        None \<Rightarrow> broken_outcomes os = []
      | Some i \<Rightarrow> broken_outcomes os \<noteq> [] \<and> last (broken_outcomes os) = os ! i \<and>
                  index_of (last (broken_outcomes os)) os = Some i)"
proof (induction os)
  case (Cons x xs)
  show ?case
  proof (cases "last_broken (map ro_status xs)")
    case None
    with Cons have "broken_outcomes xs = []" by simp
    with None show ?thesis by (simp add: broken_outcomes_def)
  next
    case (Some i)
    with Cons have b: "broken_outcomes xs \<noteq> []" "last (broken_outcomes xs) = xs ! i"
      "index_of (last (broken_outcomes xs)) xs = Some i" by auto
    have "last (broken_outcomes xs) \<in> set xs"
      using last_in_set [OF b(1)] by (simp add: broken_outcomes_def)
    with Cons.prems have "last (broken_outcomes xs) \<noteq> x" by auto
    with b Some show ?thesis by (simp add: broken_outcomes_def)
  qed
qed (simp add: broken_outcomes_def)

definition refused_by :: "coherence option \<Rightarrow> bool" where
  "refused_by coh = (case coh of Some c \<Rightarrow> refuses c | None \<Rightarrow> False)"

lemma finding_for_spec:
  assumes "walk_shape (fl_descent f) os" and "distinct (map rg_name (fl_descent f))"
  shows "finding_for f os coh =
    Some (finding_spec (map rg_finding (fl_descent f)) (map ro_status os) (refused_by coh))"
proof -
  note b = broken_outcomes_last_broken [OF walk_shape_distinct [OF assms]]
  have u: "list_ex (\<lambda>x. ro_status x = UNEVALUATED) os \<longleftrightarrow> UNEVALUATED \<in> set (map ro_status os)"
    by (force simp: list_ex_iff)
  show ?thesis
  proof (cases "last_broken (map ro_status os)")
    case None
    with b show ?thesis by (simp add: finding_for_def finding_spec_def u refused_by_def)
  next
    case (Some i)
    from last_broken_Some [OF this] have i: "i < length os" by simp
    with walk_shape_length [OF assms(1)] have "i < length (fl_descent f)" by simp
    moreover from i have "hd (map ro_status os) = ro_status (hd os)" by (cases os) auto
    moreover from b Some have "broken_outcomes os \<noteq> []" "last (broken_outcomes os) = os ! i"
      "index_of (os ! i) os = Some i" by auto
    ultimately show ?thesis using Some
      by (simp add: finding_for_def finding_spec_def u refused_by_def)
  qed
qed

lemma finding_spec_cases:
  obtains (unread) "UNEVALUATED \<in> set sts" "finding_spec fs sts refused = UNDETERMINED"
  | (incoherent) "UNEVALUATED \<notin> set sts" refused "finding_spec fs sts refused = TEMPORALLY_INCOHERENT"
  | (healthy) "UNEVALUATED \<notin> set sts" "BROKEN \<notin> set sts" "finding_spec fs sts refused = ALL_LAYERS_HEALTHY"
  | (off_path) "UNEVALUATED \<notin> set sts" "BROKEN \<in> set sts" "hd sts = HEALTHY" "finding_spec fs sts refused = NO_FAULT_ON_PATH"
  | (top) "UNEVALUATED \<notin> set sts" "last_broken sts = Some 0" "length sts > 1" "finding_spec fs sts refused = CAUSE_NOT_LOCALISED"
  | (localised) i where "UNEVALUATED \<notin> set sts" "\<not> refused" "last_broken sts = Some i" "i < length sts"
    "hd sts \<noteq> HEALTHY" "i \<noteq> 0 \<or> length sts = 1" "finding_spec fs sts refused = fs ! i"
proof (cases "UNEVALUATED \<in> set sts \<or> refused")
  case True
  with unread incoherent show thesis by (auto simp: finding_spec_def)
next
  case False
  show thesis
  proof (cases "last_broken sts")
    case None
    with False healthy show thesis by (auto simp: finding_spec_def last_broken_None)
  next
    case (Some i)
    then have "BROKEN \<in> set sts" by (metis last_broken_None option.distinct(1))
    moreover from last_broken_Some [OF Some] have "i < length sts" by simp
    ultimately have b: "BROKEN \<in> set sts" "i < length sts" by simp_all
    have n: "UNEVALUATED \<notin> set sts" "\<not> refused" using False by simp_all
    consider "hd sts = HEALTHY" | "hd sts \<noteq> HEALTHY" "i = 0" "length sts > 1"
      | "hd sts \<noteq> HEALTHY" "i \<noteq> 0 \<or> length sts = 1" using b(2) by linarith
    then show thesis
    proof cases
      case 1
      with n b Some show thesis by (intro off_path) (simp_all add: finding_spec_def)
    next
      case 2
      with n b Some show thesis by (intro top) (simp_all add: finding_spec_def)
    next
      case 3
      with n b Some show thesis by (intro localised [of i]) (auto simp: finding_spec_def)
    qed
  qed
qed

end
