(* ===== verification/Ladder.thy ===== *)
theory Ladder
  imports Descent
begin

section \<open>Sound ladders: what a descent over the registry's flows guarantees\<close>

text \<open>
  The member sets a rung fans out over, the totality of a walk on well-formed evidence, and the
  contract \<open>ladder\<close> of a flow, under which the finding of a descent is the specification's, is
  declared, and names a cause only when every rung was read.  The contract is interpreted on the
  four flows of the registry.
\<close>

subsection \<open>The device's interfaces, on well-formed evidence\<close>

lemma names_of_strings: "list_all is_string vs \<Longrightarrow> names_of vs \<noteq> None"
  unfolding names_of_def by (intro map_m_total) (auto simp: list_all_iff elim!: is_stringE dest!: bspec)

lemma physical_interfaces_total:
  assumes "wf_evidence ev" shows "physical_interfaces ev \<noteq> None"
proof (cases "dict_get ev ''interfaces''")
  case (JDict sec)
  with wf_evidence_get [OF assms, of "''interfaces''"] obtain d p
    where d: "dict_get_or sec ''data'' (JDict []) = JDict d"
      and p: "py_or (dict_get d ''parsed'') (JDict []) = JDict p"
      and r: "dict_get_or p ''records'' (JList []) = JList [] \<or>
        (\<exists>rs. dict_get_or p ''records'' (JList []) = JList rs \<and> list_all wf_record rs)"
    by (auto elim!: wf_section_parsed)
  from r obtain rs where rs: "dict_get_or p ''records'' (JList []) = JList rs" "list_all wf_record rs" by auto
  define vals where "vals = map (\<lambda>r. case r of JDict e \<Rightarrow> dict_get_or e ''interface'' (JStr []) | _ \<Rightarrow> JNull) rs"
  have m: "map_m (\<lambda>r. json_get_or r ''interface'' (JStr [])) rs = Some vals"
    unfolding vals_def using rs(2)
    by (intro map_m_map) (auto simp: list_all_iff dest!: bspec elim!: wf_recordE)
  have "list_all is_string vals"
    using rs(2) by (auto simp: vals_def list_all_iff dest!: bspec elim!: wf_recordE)
  then obtain ns where "names_of vals = Some ns" using names_of_strings by blast
  with m d p rs(1) show ?thesis by (simp add: physical_interfaces_def JDict)
qed (simp_all add: physical_interfaces_def)

lemma opt_string_truthy: "opt_string v \<Longrightarrow> truthy v \<Longrightarrow> is_string v"
  by (cases v) (auto simp: opt_string_def)

lemma record_interfaces_total:
  assumes "dict_get_or p ''records'' JNull = JNull \<or> (\<exists>rs. dict_get_or p ''records'' JNull = JList rs \<and> list_all wf_record rs)"
  obtains vs where "record_interfaces (JDict p) = Some vs" "list_all is_string vs"
proof -
  from assms have "\<exists>rs. py_or (dict_get p ''records'') (JList []) = JList rs \<and> list_all wf_record rs"
    by (auto simp: py_or_def)
  then obtain rs where rs: "py_or (dict_get p ''records'') (JList []) = JList rs" "list_all wf_record rs"
    by blast
  note pf = present_fields_wf [OF rs(2), of "''interface''", simplified]
  have "list_all is_string (filter truthy (map (\<lambda>r. field r ''interface'') rs))"
    using pf by (auto simp: list_all_iff intro: opt_string_truthy)
  with rs pf show thesis by (intro that [of "filter truthy (map (\<lambda>r. field r ''interface'') rs)"])
    (simp_all add: record_interfaces_def)
qed

lemma own_spelling_string:
  assumes "list_all is_string own" "is_string w"
  obtains "own_spelling own w = Some None"
  | s where "own_spelling own w = Some (Some (JStr s))" "JStr s \<in> set own" "same_interface_field (JStr s) (case w of JStr b \<Rightarrow> b | _ \<Rightarrow> []) = Some True"
proof -
  from assms(2) obtain b where w: "w = JStr b" by (rule is_stringE)
  have f: "own_spelling own w = Some (find (\<lambda>x. case x of JStr a \<Rightarrow> same_interface a b | _ \<Rightarrow> False) own)"
    unfolding own_spelling_def w using assms(1)
    by (intro find_m_find) (auto simp: list_all_iff elim!: is_stringE dest!: bspec)
  show thesis
  proof (cases "find (\<lambda>x. case x of JStr a \<Rightarrow> same_interface a b | _ \<Rightarrow> False) own")
    case None
    with f that(1) show thesis by simp
  next
    case (Some x)
    then have "x \<in> set own" "case x of JStr a \<Rightarrow> same_interface a b | _ \<Rightarrow> False"
      by (auto simp: find_Some_iff in_set_conv_nth)
    with f Some that(2) w show thesis by (cases x) auto
  qed
qed

text \<open>Members are names the device itself reported, and nothing the route named is dropped.\<close>

lemma join_route_strings:
  assumes "list_all is_string own" and "list_all is_string wanted"
    and "list_all is_string members" and "set members \<subseteq> set own" and "distinct members"
    and "list_all is_string unresolved"
  shows "\<exists>ms us. join_route own wanted members unresolved = Some (ms, us) \<and> list_all is_string ms \<and>
    set ms \<subseteq> set own \<and> distinct ms \<and> list_all is_string us \<and> set members \<subseteq> set ms \<and> set unresolved \<subseteq> set us \<and>
    (\<forall>w\<in>set wanted. w \<in> set us \<or> (\<exists>s b. w = JStr b \<and> JStr s \<in> set ms \<and> same_interface s b))"
  using assms
proof (induction wanted arbitrary: members unresolved)
  case (Cons w wanted)
  then have w: "is_string w" and rest: "list_all is_string wanted" by auto
  from Cons.prems(1) w show ?case
  proof (rule own_spelling_string)
    assume s: "own_spelling own w = Some None"
    have "list_all is_string (unresolved @ [w])" using Cons.prems(6) w by simp
    from Cons.IH [OF Cons.prems(1) rest Cons.prems(3-5) this] s show ?thesis by auto
  next
    fix a
    assume s: "own_spelling own w = Some (Some (JStr a))" and a: "JStr a \<in> set own"
      and b: "same_interface_field (JStr a) (case w of JStr b \<Rightarrow> b | _ \<Rightarrow> []) = Some True"
    let ?ms = "if JStr a \<in> set members then members else members @ [JStr a]"
    have "list_all is_string ?ms" "set ?ms \<subseteq> set own" "distinct ?ms" "JStr a \<in> set ?ms"
      using Cons.prems(3-5) a by auto
    from Cons.IH [OF Cons.prems(1) rest this(1-3) Cons.prems(6)] this(4) s b w show ?thesis
      by (auto elim!: is_stringE split: if_splits) blast+
  qed
qed auto

lemma py_or_default:
  "dict_get_or s k (JDict []) = JDict d \<Longrightarrow> py_or (dict_get s k) (JDict []) = JDict d"
  by (auto simp: dict_get_or_def py_or_def split: option.splits)

lemma names_of_Some: "list_all is_string vs \<Longrightarrow> \<exists>ns. names_of vs = Some ns \<and> vs = map JStr ns"
proof (induction vs)
  case (Cons v vs)
  then obtain ns where "names_of vs = Some ns" "vs = map JStr ns" by auto
  with Cons.prems show ?case
    by (intro exI [of _ "(case v of JStr s \<Rightarrow> s) # ns"]) (auto simp: names_of_def elim!: is_stringE)
qed (simp add: names_of_def)

text \<open>The names the device reports, as \<open>path_interfaces\<close> reads them.\<close>

lemma own_interfaces_total:
  assumes "wf_evidence ev"
  obtains data bulk own where "json_get_or (py_or (dict_get ev ''interfaces'') (JDict [])) ''data'' (JDict []) = Some data"
    "json_get data ''parsed'' = Some bulk"
    "(if is_dict (py_or bulk (JDict [])) then record_interfaces (py_or bulk (JDict [])) else Some []) = Some own"
    "list_all is_string own"
proof -
  have no: "record_interfaces (JDict []) = Some []" by (simp add: record_interfaces_def py_or_def present_fields_def)
  consider "py_or (dict_get ev ''interfaces'') (JDict []) = JDict []"
    | sec where "dict_get ev ''interfaces'' = JDict sec" "sec \<noteq> []"
  proof (rule py_or_dict)
    show "dict_get ev ''interfaces'' = JNull \<or> is_dict (dict_get ev ''interfaces'')"
      using wf_evidence_section [OF assms, of "''interfaces''"] by (simp add: PASS_THROUGH_KEYS_def)
  qed simp_all
  then show thesis
  proof cases
    case 1
    have "py_or JNull (JDict []) = JDict []" by (simp add: py_or_def)
    with 1 no that [of "JDict []" JNull "[]"] show thesis by simp
  next
    case (2 sec)
    with wf_evidence_get [OF assms, of "''interfaces''"] obtain d p
      where d: "dict_get_or sec ''data'' (JDict []) = JDict d" "py_or (dict_get d ''parsed'') (JDict []) = JDict p"
        and r: "dict_get_or p ''records'' JNull = JNull \<or> (\<exists>rs. dict_get_or p ''records'' JNull = JList rs \<and> list_all wf_record rs)"
      by (auto elim!: wf_section_parsed)
    from r obtain vs where "record_interfaces (JDict p) = Some vs" "list_all is_string vs"
      by (rule record_interfaces_total)
    with 2 d that [of "JDict d" "dict_get d ''parsed''" vs] show thesis by (simp add: py_or_def)
  qed
qed

lemma path_interfaces_total:
  assumes "wf_evidence ev"
  obtains ms us where "path_interfaces ev origin = Some (map JStr ms, map JStr us)" "distinct ms"
proof -
  have triv: "Some ([], []) = Some (map JStr [], map JStr [])" by simp
  show thesis
  proof (cases "\<exists>prefix sec. origin = Some prefix \<and> prefix \<noteq> [] \<and> dict_get ev (template_key ''route'' prefix) = JDict sec")
    case False
    then have "path_interfaces ev origin = Some ([], [])"
      by (auto simp: path_interfaces_def split: option.splits json.splits)
    with triv that [of "[]" "[]"] show thesis by simp
  next
    case True
    then obtain prefix sec where o1: "origin = Some prefix" "prefix \<noteq> []"
      and sec: "dict_get ev (template_key ''route'' prefix) = JDict sec" by blast
    from wf_evidence_get [OF assms, of "template_key ''route'' prefix"] sec obtain d p
      where d: "dict_get_or sec ''data'' (JDict []) = JDict d" and p: "py_or (dict_get d ''parsed'') (JDict []) = JDict p"
        and r: "dict_get_or p ''records'' JNull = JNull \<or> (\<exists>rs. dict_get_or p ''records'' JNull = JList rs \<and> list_all wf_record rs)"
        and m: "dict_get p ''meta'' = JNull \<or> is_dict (dict_get p ''meta'')"
      by (auto elim!: wf_section_parsed)
    from m obtain md where md: "py_or (dict_get p ''meta'') (JDict []) = JDict md"
      by (rule py_or_dict) simp_all
    from r obtain wanted where w: "record_interfaces (JDict p) = Some wanted" "list_all is_string wanted"
      by (rule record_interfaces_total)
    from assms obtain data bulk own where own:
      "json_get_or (py_or (dict_get ev ''interfaces'') (JDict [])) ''data'' (JDict []) = Some data"
      "json_get data ''parsed'' = Some bulk"
      "(if is_dict (py_or bulk (JDict [])) then record_interfaces (py_or bulk (JDict [])) else Some []) = Some own"
      "list_all is_string own" by (rule own_interfaces_total)
    obtain ms us where j: "join_route own wanted [] [] = Some (ms, us)" "list_all is_string ms" "distinct ms"
        "list_all is_string us"
      using join_route_strings [OF own(4) w(2), of "[]" "[]"] by auto
    from names_of_Some [OF j(2)] obtain ns where ns: "ms = map JStr ns" by blast
    from names_of_Some [OF j(4)] obtain un where un: "us = map JStr un" by blast
    have dn: "distinct ns" using j(3) ns by (simp add: distinct_map)
    have e: "path_interfaces ev origin = (if truthy (dict_get md ''found'') then Some (ms, us) else Some ([], []))"
      unfolding path_interfaces_def o1 option.case sec json.case py_or_default [OF d]
      using o1(2) own j(1) w(1) p md by (simp add: Let_def)
    show thesis
    proof (cases "truthy (dict_get md ''found'')")
      case True
      show thesis by (rule that [of ns un]) (simp_all add: e True ns un dn)
    next
      case False
      show thesis by (rule that [of "[]" "[]"]) (simp_all add: e False)
    qed
  qed
qed

subsection \<open>Rungs over their subjects and devices\<close>

lemma names_of_map [simp]: "names_of (map JStr ns) = Some ns"
  by (induction ns) (simp_all add: names_of_def)

lemma rung_subjects_total:
  assumes "wf_evidence ev"
  obtains ss ov where "rung_subjects r subject ev origin = Some (ss, ov)"
    "\<forall>s\<in>set ss. rule_subject (rg_subject_rule r) subject s"
proof -
  obtain ns where ns: "physical_interfaces ev = Some ns"
    using physical_interfaces_total [OF assms] by blast
  from assms obtain ms us where ms: "path_interfaces ev origin = Some (map JStr ms, map JStr us)"
    by (rule path_interfaces_total)
  have "\<exists>ss ov. rung_subjects r subject ev origin = Some (ss, ov) \<and>
      (\<forall>s\<in>set ss. rule_subject (rg_subject_rule r) subject s)"
    by (cases "rg_subject_rule r") (simp_all add: rung_subjects_def ns ms)
  with that show thesis by blast
qed

text \<open>What a path-scoped rung asks: the path's members and whether one survives, or every port.\<close>

lemma rung_subjects_path:
  assumes "rg_subject_rule r = EACH_PATH_INTERFACE"
    and "path_interfaces ev origin = Some (map JStr ms, map JStr us)" and "physical_interfaces ev = Some ns"
  shows "rung_subjects r subject ev origin =
    (if ms \<noteq> [] then Some (map Some ms, Some ANY_HEALTHY) else Some (map Some ns, Some ALL_HEALTHY))"
  by (simp add: rung_subjects_def assms)

lemma device_results_step:
  assumes "device_results r subject evidence_for origin (t # ts) acc agg = Some out"
  obtains ev ss ov new agg2 where "evidence_for t = Some ev"
    "rung_subjects r subject ev origin = Some (ss, ov)"
    "device_results r subject evidence_for origin ts (acc @ new) agg2 = Some out"
    "(ss = [] \<and> (\<exists>c. new = [c] \<and> cr_status c = UNEVALUATED \<and> valid_result c)) \<or> map_m (rg_check r ev) ss = Some new"
proof -
  from assms obtain ev where ev: "evidence_for t = Some ev" by (auto simp: bind_Some_iff)
  with assms obtain q where q: "rung_subjects r subject ev origin = Some q" by (auto simp: bind_Some_iff)
  obtain ss ov where qe: "q = (ss, ov)" by fastforce
  define a2 where "a2 = (case ov of Some a \<Rightarrow> Some a | None \<Rightarrow> agg)"
  show thesis
  proof (cases "ss = []")
    case True
    obtain c where c: "unevaluated (''no objects to check on '' @ t @ '' for rung '' @ repr_str (rg_name r))
         (Some subject) [] None = Some c" by (simp add: verdict_defs CheckResult_def)
    have "device_results r subject evidence_for origin ts (acc @ [c]) a2 = Some out"
      using assms c by (simp add: ev q qe True a2_def)
    with that [OF ev q [unfolded qe], of "[c]" a2] verdict_SomeD(3) [OF c] True show thesis by blast
  next
    case False
    with assms ev q qe obtain rs where rs: "map_m (rg_check r ev) ss = Some rs"
      by (auto simp: bind_Some_iff Let_def)
    have "device_results r subject evidence_for origin ts (acc @ rs) a2 = Some out"
      using assms False by (simp add: ev q qe rs a2_def)
    with that [OF ev q [unfolded qe], of rs a2] rs show thesis by blast
  qed
qed

lemma device_results_valid:
  assumes "\<And>ev s c. rg_check r ev s = Some c \<Longrightarrow> valid_result c"
    and "device_results r subject evidence_for origin targets acc agg = Some (results, agg')"
    and "\<forall>c\<in>set acc. valid_result c"
  shows "\<forall>c\<in>set results. valid_result c"
  using assms(2,3)
proof (induction targets arbitrary: acc agg)
  case (Cons t ts)
  from Cons.prems(1) show ?case
  proof (rule device_results_step)
    fix ev ss ov new agg2
    assume rest: "device_results r subject evidence_for origin ts (acc @ new) agg2 = Some (results, agg')"
      and new: "(ss = [] \<and> (\<exists>c. new = [c] \<and> cr_status c = UNEVALUATED \<and> valid_result c)) \<or> map_m (rg_check r ev) ss = Some new"
    from new have "\<forall>c\<in>set new. valid_result c"
      using map_m_all [of "rg_check r ev" ss new valid_result] assms(1) by auto
    with Cons.IH [OF rest] Cons.prems(2) show ?thesis by auto
  qed
qed simp

lemma evaluate_rung_valid:
  assumes "\<And>ev s c. rg_check r ev s = Some c \<Longrightarrow> valid_result c"
    and "evaluate_rung r devices subject evidence_for origin = Some c"
  shows "valid_result c"
proof -
  from assms(2) obtain results agg where d: "device_results r subject evidence_for origin devices [] None = Some (results, agg)"
    and a: "aggregate r results agg = Some c"
    by (auto simp: evaluate_rung_def bind_Some_iff)
  from device_results_valid [OF assms(1) d] have "\<forall>c\<in>set results. valid_result c" by simp
  from aggregate_verdict [OF this, of r agg] a show ?thesis by auto
qed

lemma device_results_total:
  assumes "\<And>t. t \<in> set targets \<Longrightarrow> \<exists>ev. evidence_for t = Some ev \<and> wf_evidence ev"
    and "\<And>ev s. wf_evidence ev \<Longrightarrow> rule_subject (rg_subject_rule r) subject s \<Longrightarrow> rg_check r ev s \<noteq> None"
  shows "device_results r subject evidence_for origin targets acc agg \<noteq> None"
  using assms(1)
proof (induction targets arbitrary: acc agg)
  case (Cons t ts)
  then obtain ev where ev: "evidence_for t = Some ev" "wf_evidence ev" by (meson list.set_intros(1))
  from ev(2) obtain ss ov where ss: "rung_subjects r subject ev origin = Some (ss, ov)"
    and rule: "\<forall>s\<in>set ss. rule_subject (rg_subject_rule r) subject s" by (rule rung_subjects_total)
  have "map_m (rg_check r ev) ss \<noteq> None"
    using rule assms(2) ev(2) by (intro map_m_total) blast
  with Cons ev(1) ss show ?case
    by (auto simp: Let_def verdict_defs CheckResult_def simp del: map_m.simps)
qed simp

lemma evaluate_rung_total:
  assumes "\<And>t. t \<in> set devices \<Longrightarrow> \<exists>ev. evidence_for t = Some ev \<and> wf_evidence ev"
    and "\<And>ev s. wf_evidence ev \<Longrightarrow> rule_subject (rg_subject_rule r) subject s \<Longrightarrow> rg_check r ev s \<noteq> None"
    and "\<And>ev s c. rg_check r ev s = Some c \<Longrightarrow> valid_result c"
  shows "evaluate_rung r devices subject evidence_for origin \<noteq> None"
proof -
  obtain results agg where d: "device_results r subject evidence_for origin devices [] None = Some (results, agg)"
    using device_results_total [of devices evidence_for r subject origin "[]" None] assms(1,2) by fast
  from device_results_valid [OF assms(3) d] have "\<forall>c\<in>set results. valid_result c" by simp
  from aggregate_verdict [OF this, of r agg] d show ?thesis by (auto simp: evaluate_rung_def)
qed

text \<open>One device: the rung's verdict is the set verdict of its members under the rule that applies.\<close>

lemma evaluate_rung_one_device:
  assumes "evidence_for t = Some ev" and "rung_subjects r subject ev origin = Some (ss, ov)"
    and "map_m (rg_check r ev) ss = Some rs" and "\<forall>c\<in>set rs. valid_result c"
  shows "\<exists>c. evaluate_rung r [t] subject evidence_for origin = Some c \<and> valid_result c \<and>
    cr_status c = set_verdict (case ov of Some a \<Rightarrow> Some a | None \<Rightarrow> rg_aggregation r) (map cr_status rs)"
proof (cases "ss = []")
  case True
  with assms show ?thesis
    by (auto simp: evaluate_rung_def Let_def verdict_defs CheckResult_def aggregate_def set_verdict_def valid_result_def)
next
  case False
  with assms(1-3) aggregate_verdict [OF assms(4), of r ov] show ?thesis
    by (cases ov) (auto simp: evaluate_rung_def Let_def simp del: map_m.simps)
qed

subsection \<open>Sound ladders\<close>

text \<open>
  What the walk relies on in a flow: a well-formed ladder whose checks build valid results and
  answer on well-formed evidence, and rung findings that are not the universal ones.
\<close>

locale ladder =
  fixes fl :: flow
  assumes well_formed: "well_formed_flow fl"
    and own_findings: "r \<in> set (fl_descent fl) \<Longrightarrow> rg_finding r \<notin> set UNIVERSAL_FINDINGS"
    and check_valid: "r \<in> set (fl_descent fl) \<Longrightarrow> rg_check r ev s = Some c \<Longrightarrow> valid_result c"
    and check_total: "r \<in> set (fl_descent fl) \<Longrightarrow> wf_evidence ev \<Longrightarrow>
      rule_subject (rg_subject_rule r) subject s \<Longrightarrow> rg_check r ev s \<noteq> None"
begin

lemma names_distinct: "distinct (map rg_name (fl_descent fl))"
  using well_formed by (simp add: well_formed_flow_def)

lemma run_descent_parts:
  assumes "run_descent fl device subject collector resolver coh origin = Some d"
  obtains ks why where
    "walk device subject collector resolver origin (fl_descent fl) = Some (dr_outcomes d, ks, why)"
    "walk_shape (fl_descent fl) (dr_outcomes d)" "dr_evidence_keys d = from_keys ks" "dr_reason d = why"
    "dr_finding d = finding_spec (map rg_finding (fl_descent fl)) (map ro_status (dr_outcomes d))
       (refused_by (dr_coherence d))"
proof -
  from assms obtain os ks why where w: "walk device subject collector resolver origin (fl_descent fl) = Some (os, ks, why)"
    by (auto simp: run_descent_def bind_Some_iff)
  note shape = walk_walk_shape [OF w]
  note spec = finding_for_spec [OF shape names_distinct]
  from assms w spec have "dr_outcomes d = os" "dr_evidence_keys d = from_keys ks" "dr_reason d = why"
    "dr_finding d = finding_spec (map rg_finding (fl_descent fl)) (map ro_status os) (refused_by (dr_coherence d))"
    by (auto simp: run_descent_def bind_Some_iff)
  with that w shape show thesis by simp
qed

lemma walk_total:
  assumes "\<And>t r. \<exists>ev. collector t r subject = Some ev \<and> wf_evidence ev" and "set rs \<subseteq> set (fl_descent fl)"
  shows "walk device subject collector resolver origin rs \<noteq> None"
  using assms(2)
proof (induction rs)
  case (Cons r rs)
  show ?case
  proof (cases "resolve_devices r device subject resolver")
    case (Inr devices)
    have "evaluate_rung r devices subject (\<lambda>target. collector target r subject) origin \<noteq> None"
      using assms(1) Cons.prems by (intro evaluate_rung_total check_total check_valid) auto
    with Inr Cons show ?thesis by (auto simp: Let_def)
  qed (simp add: CheckResult_def)
qed simp

lemma run_total:
  assumes "\<And>t r. \<exists>ev. collector t r subject = Some ev \<and> wf_evidence ev"
    and "\<And>check os. coh = Some check \<Longrightarrow> check os \<noteq> None"
  shows "run_descent fl device subject collector resolver coh origin \<noteq> None"
proof -
  obtain os ks why where w: "walk device subject collector resolver origin (fl_descent fl) = Some (os, ks, why)"
    using walk_total [of collector subject "fl_descent fl" device resolver origin] assms(1)
    by (metis option.exhaust prod_cases3 order_refl)
  note spec = finding_for_spec [OF walk_walk_shape [OF w] names_distinct]
  show ?thesis
  proof (cases coh)
    case None
    then show ?thesis by (simp add: run_descent_def w spec)
  next
    case (Some check)
    with assms(2) obtain v where "check os = Some v" by blast
    with Some show ?thesis by (simp add: run_descent_def w spec)
  qed
qed

lemma finding_distinct:
  "i < length (fl_descent fl) \<Longrightarrow> map rg_finding (fl_descent fl) ! i \<notin> set UNIVERSAL_FINDINGS"
  using own_findings by simp

lemma finding_declared:
  assumes "run_descent fl device subject collector resolver coh origin = Some d"
  shows "dr_finding d \<in> set (fl_findings fl)"
proof -
  have u: "set UNIVERSAL_FINDINGS \<subseteq> set (fl_findings fl)" and p: "flow_post_init fl = None"
    using well_formed by (auto simp: well_formed_flow_def)
  from assms obtain ks why where shape: "walk_shape (fl_descent fl) (dr_outcomes d)"
    and f: "dr_finding d = finding_spec (map rg_finding (fl_descent fl)) (map ro_status (dr_outcomes d))
       (refused_by (dr_coherence d))" by (rule run_descent_parts)
  from walk_shape_length [OF shape] have "length (map ro_status (dr_outcomes d)) \<le> length (fl_descent fl)" by simp
  then have "dr_finding d \<in> set UNIVERSAL_FINDINGS \<union> rg_finding ` set (fl_descent fl)"
    unfolding f
    by (cases rule: finding_spec_cases [of "map ro_status (dr_outcomes d)" "map rg_finding (fl_descent fl)" "refused_by (dr_coherence d)"])
      (simp_all add: UNIVERSAL_FINDINGS_def)
  with u p show ?thesis unfolding flow_post_init_None by blast
qed

lemma undetermined_iff:
  assumes "run_descent fl device subject collector resolver coh origin = Some d"
  shows "dr_finding d = UNDETERMINED \<longleftrightarrow> UNEVALUATED \<in> set (map ro_status (dr_outcomes d))"
proof -
  from assms obtain ks why where shape: "walk_shape (fl_descent fl) (dr_outcomes d)"
    and f: "dr_finding d = finding_spec (map rg_finding (fl_descent fl)) (map ro_status (dr_outcomes d))
       (refused_by (dr_coherence d))" by (rule run_descent_parts)
  have "length (map ro_status (dr_outcomes d)) \<le> length (fl_descent fl)"
    using walk_shape_length [OF shape] by simp
  then have own: "i < length (map ro_status (dr_outcomes d)) \<Longrightarrow> map rg_finding (fl_descent fl) ! i \<noteq> UNDETERMINED" for i
    using finding_distinct [of i] by (auto simp: UNIVERSAL_FINDINGS_def)
  show ?thesis
    unfolding f
    by (cases rule: finding_spec_cases [of "map ro_status (dr_outcomes d)" "map rg_finding (fl_descent fl)" "refused_by (dr_coherence d)"])
      (use own in \<open>simp_all add: finding_defs\<close>)
qed

text \<open>
  A cause is named only when every rung was read, the symptom is broken, and everything below
  the named rung is healthy.
\<close>

lemma localised:
  assumes "run_descent fl device subject collector resolver coh origin = Some d"
    and "dr_finding d \<notin> set UNIVERSAL_FINDINGS"
  obtains i where "i < length (fl_descent fl)" "dr_finding d = rg_finding (fl_descent fl ! i)"
    "length (dr_outcomes d) = length (fl_descent fl)"
    "ro_status (dr_outcomes d ! 0) = BROKEN" "ro_status (dr_outcomes d ! i) = BROKEN"
    "\<And>j. i < j \<Longrightarrow> j < length (fl_descent fl) \<Longrightarrow> ro_status (dr_outcomes d ! j) = HEALTHY"
    "cause d = Some (dr_outcomes d ! i)" "\<not> refused_by (dr_coherence d)"
proof -
  let ?sts = "map ro_status (dr_outcomes d)"
  from assms(1) obtain ks why where shape: "walk_shape (fl_descent fl) (dr_outcomes d)"
    and f: "dr_finding d = finding_spec (map rg_finding (fl_descent fl)) ?sts (refused_by (dr_coherence d))"
    by (rule run_descent_parts)
  from assms(2) obtain i where i: "UNEVALUATED \<notin> set ?sts" "\<not> refused_by (dr_coherence d)"
    "last_broken ?sts = Some i" "i < length ?sts" "hd ?sts \<noteq> HEALTHY"
    "dr_finding d = map rg_finding (fl_descent fl) ! i"
    unfolding f
    by (cases rule: finding_spec_cases [of ?sts "map rg_finding (fl_descent fl)" "refused_by (dr_coherence d)"])
      (auto simp: UNIVERSAL_FINDINGS_def)
  have len: "length (dr_outcomes d) = length (fl_descent fl)" using walk_shape_complete [OF shape i(1)] .
  note b = last_broken_Some [OF i(3)]
  have conclusive: "j < length (dr_outcomes d) \<Longrightarrow> ro_status (dr_outcomes d ! j) \<noteq> UNEVALUATED" for j
    using i(1) by (force simp: in_set_conv_nth)
  have "hd ?sts = ro_status (dr_outcomes d ! 0)" using i(4) by (cases "dr_outcomes d") auto
  then have top: "ro_status (dr_outcomes d ! 0) = BROKEN"
    using i(4,5) conclusive [of 0] by (cases "ro_status (dr_outcomes d ! 0)") (auto simp del: length_greater_0_conv)
  have below: "ro_status (dr_outcomes d ! j) = HEALTHY" if "i < j" "j < length (fl_descent fl)" for j
    using b that conclusive [of j] len by (cases "ro_status (dr_outcomes d ! j)") auto
  have "cause d = Some (dr_outcomes d ! i)"
    using broken_outcomes_last_broken [OF walk_shape_distinct [OF shape names_distinct]] i(3)
    by (simp add: cause_def Let_def)
  with that [of i] i b top below len show thesis by auto
qed

lemma outcomes_valid:
  assumes "walk device subject collector resolver origin rs = Some (os, ks, why)" and "set rs \<subseteq> set (fl_descent fl)"
  shows "\<forall>x\<in>set os. valid_result (ro_result x)"
  using assms
proof (induction rs arbitrary: os ks why)
  case (Cons r rs)
  show ?case
  proof (cases "resolve_devices r device subject resolver")
    case (Inl msg)
    with Cons.prems(1) show ?thesis by (auto simp: CheckResult_def valid_result_def)
  next
    case (Inr devices)
    with Cons.prems(1) obtain result where res:
      "evaluate_rung r devices subject (\<lambda>target. collector target r subject) origin = Some result"
      by (auto simp: bind_Some_iff)
    have v: "valid_result result"
      by (rule evaluate_rung_valid [OF _ res]) (use check_valid Cons.prems(2) in auto)
    show ?thesis
    proof (cases "cr_status result = UNEVALUATED")
      case True
      with Cons.prems(1) Inr res v show ?thesis by auto
    next
      case False
      with Cons.prems(1) Inr res obtain os' ks' why' where rest:
        "walk device subject collector resolver origin rs = Some (os', ks', why')"
        by (auto simp: bind_Some_iff)
      with False Cons.prems(1) Inr res v Cons.IH [OF rest] Cons.prems(2) show ?thesis by auto
    qed
  qed
qed simp

text \<open>Every conclusive outcome cites evidence, and the result carries all of it.\<close>

lemma outcomes_cited:
  assumes "run_descent fl device subject collector resolver coh origin = Some d" and "x \<in> set (dr_outcomes d)"
    and "ro_status x \<noteq> UNEVALUATED"
  shows "cr_evidence_keys (ro_result x) \<noteq> [] \<and> set (cr_evidence_keys (ro_result x)) \<subseteq> set (dr_evidence_keys d)"
proof -
  from assms(1) obtain ks why where
    w: "walk device subject collector resolver origin (fl_descent fl) = Some (dr_outcomes d, ks, why)"
    and k: "dr_evidence_keys d = from_keys ks" by (rule run_descent_parts)
  from outcomes_valid [OF w] assms(2,3) have "cr_evidence_keys (ro_result x) \<noteq> []"
    by (auto simp: valid_result_def ro_status_def)
  with walk_keys [OF w] k assms(2) show ?thesis by auto
qed

end

subsection \<open>The registry's flows are sound ladders\<close>

lemma ladderI:
  assumes "well_formed_flow f"
    and "list_all (\<lambda>r. rg_finding r \<notin> set UNIVERSAL_FINDINGS) (fl_descent f)"
    and "\<And>r. r \<in> set (fl_descent f) \<Longrightarrow> rg_subject_rule r \<noteq> DEVICE_WIDE \<Longrightarrow> \<exists>reads. rung_check (rg_check r) reads"
    and "\<And>r. r \<in> set (fl_descent f) \<Longrightarrow> rg_subject_rule r = DEVICE_WIDE \<Longrightarrow> rg_check r = isis_adjacency"
  shows "ladder f"
proof (unfold_locales, goal_cases)
  case (2 r)
  with assms(2) show ?case by (simp add: list_all_iff)
next
  case (3 r ev s c)
  then show ?case
    using assms(3,4) rung_check.valid isis_adjacency_valid by (cases "rg_subject_rule r = DEVICE_WIDE") metis+
next
  case (4 r ev subject s)
  then show ?case
    using assms(3,4) rung_check.total isis_adjacency_total
    by (cases "rg_subject_rule r"; cases s) (auto, metis+)
qed (rule assms(1))

lemma registry_checks:
  "Ex (rung_check (on_subject bgp_session_state))" "Ex (rung_check (on_subject bgp_transport))"
  "Ex (rung_check (on_subject route_present))" "Ex (rung_check interface_rung_check)"
  "Ex (rung_check (on_subject isis_neighbor_up))" "Ex (rung_check (on_subject ldp_session_up))"
  using session_check.rung_check_axioms transport_check.rung_check_axioms route_check.rung_check_axioms
    state_check.rung_check_axioms isis_check.rung_check_axioms ldp_check.rung_check_axioms by blast+

interpretation interface_ladder: ladder INTERFACE_FLOW
  by (rule ladderI [OF ladders_well_formed(1)])
    (auto simp: ladder_defs Rung_def finding_defs intro: registry_checks)

interpretation bgp_ladder: ladder BGP_SESSION_FLOW
  by (rule ladderI [OF ladders_well_formed(2)])
    (auto simp: ladder_defs Rung_def finding_defs intro: registry_checks)

interpretation isis_ladder: ladder ISIS_ADJACENCY_FLOW
  by (rule ladderI [OF ladders_well_formed(3)])
    (auto simp: ladder_defs Rung_def finding_defs intro: registry_checks)

interpretation ldp_ladder: ladder LDP_SESSION_FLOW
  by (rule ladderI [OF ladders_well_formed(4)])
    (auto simp: ladder_defs Rung_def finding_defs intro: registry_checks)

lemma registered_ladder: "(name, f) \<in> set FLOWS \<Longrightarrow> ladder f"
  using interface_ladder.ladder_axioms bgp_ladder.ladder_axioms isis_ladder.ladder_axioms ldp_ladder.ladder_axioms
  by (auto simp: FLOWS_def)

subsection \<open>A worked descent: a session to a device both of whose uplinks may be down\<close>

definition rr1_evidence :: dict where
  "rr1_evidence = [(''device'', JStr ''RR1''),
     (''bgp'', parsed_section [JDict [(''neighbor'', JStr ''10.255.0.12''), (''session_state'', JStr ''Active'')]] []),
     (''bgp_neighbor:10.255.0.12'', parsed_section [] [(''found'', JBool True), (''socket_armed_read'', JBool False),
        (''connection_state'', JStr ''Active''), (''last_reset_reason'', JStr ''Interface flap'')]),
     (''route:10.255.0.12/32'', parsed_section [] [(''found'', JBool False)])]"

definition pe2_evidence :: "string \<Rightarrow> dict" where
  "pe2_evidence line = [(''device'', JStr ''PE2''),
     (''isis'', parsed_section [] []),
     (''interfaces'', parsed_section [interface_record ''Gi0/0/0/0'' ''admin-down'' ''admin-down'',
        interface_record ''Gi0/0/0/1'' ''up'' line, interface_record ''Gi0/0/0/1.300'' ''up'' ''down''] [])]"

definition lab_collector :: "string \<Rightarrow> collector" where
  "lab_collector line t r s = Some (if t = ''PE2'' then pe2_evidence line else rr1_evidence)"

definition lab_descent :: "string \<Rightarrow> descent_result option" where
  "lab_descent line = run_descent BGP_SESSION_FLOW ''RR1'' ''10.255.0.12'' (lab_collector line)
    (Some (\<lambda>s. OneDevice ''PE2'')) None (Some ''10.255.0.1/32'')"

lemma lab_evidence_wf: "wf_evidence rr1_evidence" "wf_evidence (pe2_evidence ''up'')"
  by code_simp+

lemma lab_collector_wf: "\<exists>ev. lab_collector ''up'' t r s = Some ev \<and> wf_evidence ev"
  by (simp add: lab_collector_def lab_evidence_wf)

lemma lab_finding: "map_option dr_finding (lab_descent ''up'') = Some ''interface_line_down''"
  by code_simp

lemma lab_descent_Some:
  obtains d where "lab_descent ''up'' = Some d" "dr_finding d = ''interface_line_down''"
  using lab_finding by (cases "lab_descent ''up''") auto

lemma bgp_registered: "(''bgp_session'', BGP_SESSION_FLOW) \<in> set FLOWS"
  by (simp add: FLOWS_def)

subsection \<open>Properties\<close>

text \<open>C1: A descent over a registered flow names a rung's own finding as the cause only when every
  rung of the ladder was read, the symptom (the top rung) is broken, the named rung is broken,
  every rung below it is healthy, and no coherence re-read refused; the result's \<open>cause\<close> is that
  rung's outcome.\<close>

theorem descent_localises_lowest_broken:
  assumes "(name, f) \<in> set FLOWS"
    and "run_descent f device subject collector resolver coh origin = Some d"
    and "dr_finding d \<notin> set UNIVERSAL_FINDINGS"
  shows "\<exists>i < length (fl_descent f). dr_finding d = rg_finding (fl_descent f ! i) \<and>
    rung_path d = map rg_name (fl_descent f) \<and>
    ro_status (dr_outcomes d ! 0) = BROKEN \<and> ro_status (dr_outcomes d ! i) = BROKEN \<and>
    (\<forall>j. i < j \<and> j < length (fl_descent f) \<longrightarrow> ro_status (dr_outcomes d ! j) = HEALTHY) \<and>
    cause d = Some (dr_outcomes d ! i) \<and> \<not> refused_by (dr_coherence d)"
proof -
  note l = registered_ladder [OF assms(1)]
  from ladder.run_descent_parts [OF l assms(2)]
  have "map ro_rung (dr_outcomes d) = take (length (dr_outcomes d)) (map rg_name (fl_descent f))"
    by (metis walk_shape_names)
  then show ?thesis
    by (rule_tac ladder.localised [OF l assms(2,3)]) (auto simp: rung_path_def)
qed

theorem descent_localises_witness:
  "\<exists>d. lab_descent ''up'' = Some d \<and> (\<exists>i < length (fl_descent BGP_SESSION_FLOW). dr_finding d = rg_finding (fl_descent BGP_SESSION_FLOW ! i) \<and>
     ro_status (dr_outcomes d ! 0) = BROKEN \<and> cause d = Some (dr_outcomes d ! i))"
proof -
  obtain d where d: "lab_descent ''up'' = Some d" "dr_finding d = ''interface_line_down''"
    by (rule lab_descent_Some)
  have "dr_finding d \<notin> set UNIVERSAL_FINDINGS" by (simp add: d(2) finding_defs)
  from descent_localises_lowest_broken [OF bgp_registered d(1) [unfolded lab_descent_def] this] d(1)
  show ?thesis by blast
qed

text \<open>C2: The walk refines its abstract specification: the outcomes are the ladder's rungs top
  down until the first one that was not read, and the finding is the specified function of the
  statuses read and of whether the coherence verdict refuses.\<close>

theorem descent_refines_spec:
  assumes "(name, f) \<in> set FLOWS"
    and "run_descent f device subject collector resolver coh origin = Some d"
  shows "walk_shape (fl_descent f) (dr_outcomes d) \<and>
    dr_finding d = finding_spec (map rg_finding (fl_descent f)) (map ro_status (dr_outcomes d))
      (refused_by (dr_coherence d))"
  using ladder.run_descent_parts [OF registered_ladder [OF assms(1)] assms(2)] by metis

theorem descent_refines_witness:
  "\<exists>d. lab_descent ''up'' = Some d \<and> walk_shape (fl_descent BGP_SESSION_FLOW) (dr_outcomes d)"
  using lab_descent_Some descent_refines_spec [OF bgp_registered] unfolding lab_descent_def by metis

text \<open>C3: On evidence of the collector's shape a descent over a registered flow always returns,
  whatever the resolver answers, and its finding is one the flow declares.\<close>

theorem descent_total_and_declared:
  assumes "(name, f) \<in> set FLOWS"
    and "\<And>t r. \<exists>ev. collector t r subject = Some ev \<and> wf_evidence ev"
  shows "\<exists>d. run_descent f device subject collector resolver None origin = Some d \<and>
    dr_finding d \<in> set (fl_findings f)"
proof -
  note l = registered_ladder [OF assms(1)]
  have "run_descent f device subject collector resolver None origin \<noteq> None"
    by (rule ladder.run_total [OF l]) (use assms(2) in auto)
  then obtain d where "run_descent f device subject collector resolver None origin = Some d" by blast
  with ladder.finding_declared [OF l this] show ?thesis by blast
qed

theorem descent_total_witness:
  "\<exists>d. run_descent BGP_SESSION_FLOW ''RR1'' ''10.255.0.12'' (lab_collector ''up'') None None None = Some d \<and>
     dr_finding d \<in> set (fl_findings BGP_SESSION_FLOW)"
  by (rule descent_total_and_declared [OF bgp_registered]) (rule lab_collector_wf)

text \<open>The finding is \<open>undetermined\<close> exactly when some rung was not read: an unread rung is never
  turned into a cause, into health or into an incoherence, and nothing else is called undetermined.\<close>

theorem descent_undetermined_iff_unread:
  assumes "(name, f) \<in> set FLOWS"
    and "run_descent f device subject collector resolver coh origin = Some d"
  shows "dr_finding d = UNDETERMINED \<longleftrightarrow> UNEVALUATED \<in> set (map ro_status (dr_outcomes d))"
  by (rule ladder.undetermined_iff [OF registered_ladder [OF assms(1)] assms(2)])

theorem descent_undetermined_witness:
  "\<exists>d. lab_descent ''up'' = Some d \<and> UNEVALUATED \<notin> set (map ro_status (dr_outcomes d))"
proof -
  obtain d where d: "lab_descent ''up'' = Some d" "dr_finding d = ''interface_line_down''"
    by (rule lab_descent_Some)
  from descent_undetermined_iff_unread [OF bgp_registered d(1) [unfolded lab_descent_def]] d
  show ?thesis by (auto simp: UNDETERMINED_def)
qed

text \<open>Every healthy or broken outcome of a descent cites evidence, and the result carries
  every key its outcomes cite.\<close>

theorem descent_outcomes_cite_evidence:
  assumes "(name, f) \<in> set FLOWS"
    and "run_descent f device subject collector resolver coh origin = Some d"
    and "x \<in> set (dr_outcomes d)" and "ro_status x \<noteq> UNEVALUATED"
  shows "cr_evidence_keys (ro_result x) \<noteq> [] \<and> set (cr_evidence_keys (ro_result x)) \<subseteq> set (dr_evidence_keys d)"
  by (rule ladder.outcomes_cited [OF registered_ladder [OF assms(1)] assms(2-4)])

theorem descent_outcomes_cite_witness:
  "\<exists>d x. lab_descent ''up'' = Some d \<and> cause d = Some x \<and> cr_evidence_keys (ro_result x) \<noteq> [] \<and>
     set (cr_evidence_keys (ro_result x)) \<subseteq> set (dr_evidence_keys d)"
proof -
  obtain d where d: "lab_descent ''up'' = Some d" by (rule lab_descent_Some)
  have "(case lab_descent ''up'' of Some d \<Rightarrow> cause d \<noteq> None | None \<Rightarrow> False)" by code_simp
  with d obtain x where x: "cause d = Some x" by auto
  then have "x \<in> set (dr_outcomes d)" "ro_status x = BROKEN"
    using last_in_set [of "broken_outcomes (dr_outcomes d)"]
    by (auto simp: cause_def broken_outcomes_def Let_def split: if_splits)
  with d x descent_outcomes_cite_evidence [OF bgp_registered d [unfolded lab_descent_def]] show ?thesis by fastforce
qed

subsection \<open>The path-scoped rung\<close>

definition bgp_interface_rung :: rung where
  "bgp_interface_rung = fl_descent BGP_SESSION_FLOW ! 4"

definition verdict_of :: "check_result option \<Rightarrow> check_status" where
  "verdict_of r = (case r of Some c \<Rightarrow> cr_status c | None \<Rightarrow> UNEVALUATED)"

lemma map_m_verdicts:
  "(\<And>x. x \<in> set xs \<Longrightarrow> f x \<noteq> None) \<Longrightarrow>
     \<exists>rs. map_m f xs = Some rs \<and> map cr_status rs = map (\<lambda>x. verdict_of (f x)) xs"
proof (induction xs)
  case (Cons x xs)
  then obtain rs c where "map_m f xs = Some rs" "map cr_status rs = map (\<lambda>x. verdict_of (f x)) xs" "f x = Some c"
    by (metis list.set_intros option.exhaust)
  then show ?case by (simp add: verdict_of_def)
qed simp

lemma interface_rung_members:
  assumes "wf_evidence ev" and "rung_subjects bgp_interface_rung subject ev origin = Some (map Some ns, Some agg)"
  shows "\<exists>c. evaluate_rung bgp_interface_rung [t] subject (\<lambda>_. Some ev) origin = Some c \<and>
    cr_status c = set_verdict (Some agg) (map (\<lambda>n. verdict_of (interface_state ev n None)) ns)"
proof -
  have chk: "rg_check bgp_interface_rung ev (Some n) = interface_state ev n None" for n
    by (simp add: bgp_interface_rung_def BGP_SESSION_FLOW_def Rung_def on_subject_def)
  have "rg_check bgp_interface_rung ev s \<noteq> None" if "s \<in> set (map Some ns)" for s
    using that assms(1) interface_state_table [of ev None] by (fastforce simp: chk)
  then have "\<exists>rs. map_m (rg_check bgp_interface_rung ev) (map Some ns) = Some rs \<and>
      map cr_status rs = map (\<lambda>x. verdict_of (rg_check bgp_interface_rung ev x)) (map Some ns)"
    by (rule map_m_verdicts)
  then obtain rs
    where rs: "map_m (rg_check bgp_interface_rung ev) (map Some ns) = Some rs"
      "map cr_status rs = map (\<lambda>n. verdict_of (interface_state ev n None)) ns"
    by (auto simp: chk comp_def)
  have "\<forall>c\<in>set rs. valid_result c"
  proof (rule map_m_all [OF rs(1)])
    fix s c assume "rg_check bgp_interface_rung ev s = Some c"
    then show "valid_result c"
      using bgp_ladder.check_valid [of bgp_interface_rung ev s c]
      by (simp add: bgp_interface_rung_def BGP_SESSION_FLOW_def)
  qed
  from evaluate_rung_one_device [of "\<lambda>_. Some ev" t ev, OF refl assms(2) rs(1) this] rs(2)
  show ?thesis by auto
qed

text \<open>The interface rung of the BGP ladder asks one of two questions and combines the answers by
  the rule that belongs to it: with a reverse route naming own interfaces it is healthy when one of
  those members is; with none it asks every physical interface and is healthy only when all are.
  An unread or empty member set is never healthy.\<close>

theorem path_rung_pairs_members_with_rule:
  assumes "wf_evidence ev"
  shows "\<exists>ms us ns c. path_interfaces ev origin = Some (map JStr ms, map JStr us) \<and>
    physical_interfaces ev = Some ns \<and>
    evaluate_rung bgp_interface_rung [t] subject (\<lambda>_. Some ev) origin = Some c \<and>
    cr_status c = set_verdict (Some (if ms \<noteq> [] then ANY_HEALTHY else ALL_HEALTHY))
      (map (\<lambda>n. verdict_of (interface_state ev n None)) (if ms \<noteq> [] then ms else ns))"
proof -
  from assms obtain ms us where p: "path_interfaces ev origin = Some (map JStr ms, map JStr us)"
    by (rule path_interfaces_total)
  obtain ns where n: "physical_interfaces ev = Some ns" using physical_interfaces_total [OF assms] by blast
  have rule: "rg_subject_rule bgp_interface_rung = EACH_PATH_INTERFACE"
    by (simp add: bgp_interface_rung_def BGP_SESSION_FLOW_def)
  have s: "rung_subjects bgp_interface_rung subject ev origin =
      Some (map Some (if ms \<noteq> [] then ms else ns), Some (if ms \<noteq> [] then ANY_HEALTHY else ALL_HEALTHY))"
    by (simp add: rung_subjects_path [OF rule p n])
  from interface_rung_members [OF assms s] p n show ?thesis by blast
qed

theorem path_rung_witness:
  "\<exists>c. evaluate_rung bgp_interface_rung [''PE2''] ''10.255.0.12'' (\<lambda>_. Some (pe2_evidence ''up'')) None = Some c \<and>
     cr_status c = BROKEN"
proof -
  have "path_interfaces (pe2_evidence ''up'') None = Some ([], [])" by (simp add: path_interfaces_def)
  moreover have "physical_interfaces (pe2_evidence ''up'') = Some [''Gi0/0/0/0'', ''Gi0/0/0/1'']" by code_simp
  moreover have "map (\<lambda>n. verdict_of (interface_state (pe2_evidence ''up'') n None)) [''Gi0/0/0/0'', ''Gi0/0/0/1''] =
      [BROKEN, HEALTHY]" by code_simp
  ultimately show ?thesis
    using path_rung_pairs_members_with_rule [OF lab_evidence_wf(2), of None "''PE2''" "''10.255.0.12''"]
    by (auto simp: set_verdict_def)
qed

text \<open>The path's member set is drawn from the device's own interface list, without repetition, and
  every interface the route names is either a member under the device's own spelling or reported
  as unresolved: none is dropped.\<close>

theorem path_members_own_and_complete:
  assumes "list_all is_string own" and "list_all is_string wanted"
  shows "\<exists>ms us. join_route own wanted [] [] = Some (ms, us) \<and> set ms \<subseteq> set own \<and> distinct ms \<and>
    (\<forall>w\<in>set wanted. w \<in> set us \<or> (\<exists>s b. w = JStr b \<and> JStr s \<in> set ms \<and> same_interface s b))"
  using join_route_strings [OF assms, of "[]" "[]"] by auto

theorem path_members_witness:
  "\<exists>ms us. join_route [JStr ''Gi0/0/0/0'', JStr ''Gi0/0/0/1''] [JStr ''GigabitEthernet0/0/0/0''] [] [] = Some (ms, us) \<and>
     set ms \<subseteq> {JStr ''Gi0/0/0/0'', JStr ''Gi0/0/0/1''}"
  using path_members_own_and_complete [of "[JStr ''Gi0/0/0/0'', JStr ''Gi0/0/0/1'']" "[JStr ''GigabitEthernet0/0/0/0'']"]
  by auto

end
