(* ===== verification/Epoch.thy ===== *)
theory Epoch
  imports Ladder
begin

section \<open>Epoch: one observation window per investigation, and the re-read that closes it\<close>

text \<open>
  Models \<open>epoch.py\<close>: what a flow may collect, the plan and manifest of a collection, the epoch
  and its views, and \<open>check_coherence\<close>.  The calls that reach a device, and the clocks, are the
  fields of \<open>fabric\<close>: what one collection, or one later re-read, is answered.  Times are integer
  ticks.  A fabric answers the same call the same way; a change between collection and re-read is
  a second fabric.
\<close>

subsection \<open>What a flow may collect\<close>

definition DEFAULT_SKEW_BOUND_SECONDS :: int where
  "DEFAULT_SKEW_BOUND_SECONDS = 30"

definition SUBJECT_PARAMETERS :: "string list" where "SUBJECT_PARAMETERS = [''address'']"
definition PREFIX_PARAMETERS :: "string list" where "PREFIX_PARAMETERS = [''prefix'']"
definition FANOUT_PARAMETERS :: "string list" where "FANOUT_PARAMETERS = [''interface'']"
definition FILL_STRATEGIES :: "string list" where "FILL_STRATEGIES = [''origin'']"
definition RESOLVABLE :: "string list" where
  "RESOLVABLE = SUBJECT_PARAMETERS @ PREFIX_PARAMETERS @ FANOUT_PARAMETERS"

lemmas parameter_defs = SUBJECT_PARAMETERS_def PREFIX_PARAMETERS_def FANOUT_PARAMETERS_def
  FILL_STRATEGIES_def RESOLVABLE_def

definition sorted_repr :: "string list \<Rightarrow> string" where
  "sorted_repr xs = py_repr (JList (map JStr (sort xs)))"

definition opt_repr :: "string option \<Rightarrow> string" where
  "opt_repr x = (case x of Some s \<Rightarrow> repr_str s | None \<Rightarrow> ''None'')"

text \<open>The \<open>ValueError\<close> of one step, then of the first step that has one.\<close>

definition step_refusal :: "flow \<Rightarrow> rung \<Rightarrow> collect_step \<Rightarrow> string option" where
  "step_refusal f r st =
     (if cs_is_static st then None
      else if \<not> cs_is_template st then None
      else if cs_fill st \<noteq> None \<and> cs_fill st \<notin> Some ` set FILL_STRATEGIES
      then Some (''flow '' @ repr_str (fl_object_type f) @ '' rung '' @ repr_str (rg_name r) @ '' collects '' @
             repr_str (cs_name st) @ '' with fill strategy '' @ opt_repr (cs_fill st) @
             '', which the epoch builder does not know. Known: '' @ sorted_repr FILL_STRATEGIES @ ''.'')
      else if cs_parameter st = None \<or> cs_fill st \<noteq> None \<or> cs_parameter st \<in> Some ` set RESOLVABLE then None
      else Some (''flow '' @ repr_str (fl_object_type f) @ '' rung '' @ repr_str (rg_name r) @ '' collects template '' @
             repr_str (cs_name st) @ '' with parameter '' @ opt_repr (cs_parameter st) @
             '', which the epoch builder cannot resolve before the walk. Known parameters: '' @
             sorted_repr RESOLVABLE @
             ''. Teach `epoch.py` how to fill it, or the rung must not be collected in a single pass.''))"

definition first_some :: "'a option list \<Rightarrow> 'a option" where
  "first_some xs = (case find (\<lambda>x. x \<noteq> None) xs of Some y \<Rightarrow> y | None \<Rightarrow> None)"

definition validate_prewalk_collection :: "flow \<Rightarrow> string option" where
  "validate_prewalk_collection f =
     first_some (concat (map (\<lambda>r. map (step_refusal f r) (rg_collect r)) (fl_descent f)))"

subsection \<open>Observations and the epoch\<close>

record observation =
  ob_key :: string
  ob_device :: string
  ob_started :: int
  ob_completed :: int
  ob_envelope :: json
  ob_collected_at :: string

definition duration :: "observation \<Rightarrow> int" where
  "duration ob = ob_completed ob - ob_started ob"

record evidence_epoch =
  ep_observations :: "observation list"
  ep_opened :: int
  ep_closed :: int
  ep_bound :: int
  ep_session_counts :: "(string \<times> nat) list"

definition skew_seconds :: "evidence_epoch \<Rightarrow> int" where
  "skew_seconds ep = ep_closed ep - ep_opened ep"

definition epoch_within_bound :: "evidence_epoch \<Rightarrow> bool" where
  "epoch_within_bound ep \<longleftrightarrow> skew_seconds ep \<le> ep_bound ep"

text \<open>A dictionary built by successive assignments.\<close>

definition assign_all :: "(string \<times> json) list \<Rightarrow> dict \<Rightarrow> dict" where
  "assign_all kvs d = fold (\<lambda>(k, v). AList.update k v) kvs d"

definition for_device :: "evidence_epoch \<Rightarrow> string \<Rightarrow> dict" where
  "for_device ep device =
     assign_all (map (\<lambda>ob. (ob_key ob, ob_envelope ob))
       (filter (\<lambda>ob. ob_device ob = device) (ep_observations ep))) []"

definition epoch_devices :: "evidence_epoch \<Rightarrow> string list" where
  "epoch_devices ep = from_keys (map ob_device (ep_observations ep))"

text \<open>How many commands an envelope answered: its entries under \<open>data.commands\<close>, when it has any.\<close>

definition envelope_commands :: "json \<Rightarrow> nat option option" where
  "envelope_commands env = (case env of
     JDict e \<Rightarrow> do {
       commands \<leftarrow> json_get (py_or (dict_get e ''data'') (JDict [])) ''commands'';
       Some (case commands of JDict cs \<Rightarrow> Some (length cs) | _ \<Rightarrow> None)
     }
   | _ \<Rightarrow> Some None)"

fun commands_run_from :: "(string \<times> nat) list \<Rightarrow> observation list \<Rightarrow> (string \<times> nat) list option" where
  "commands_run_from counts [] = Some counts"
| "commands_run_from counts (ob # obs) = do {
     n \<leftarrow> envelope_commands (ob_envelope ob);
     commands_run_from
       (case n of None \<Rightarrow> counts
        | Some k \<Rightarrow> AList.update (ob_device ob)
            ((case map_of counts (ob_device ob) of Some c \<Rightarrow> c | None \<Rightarrow> 0) + k) counts) obs
   }"

definition commands_run :: "evidence_epoch \<Rightarrow> (string \<times> nat) list option" where
  "commands_run ep = commands_run_from [] (ep_observations ep)"

subsection \<open>Template calls\<close>

type_synonym kwargs = "(string option \<times> string) list"

text \<open>The members a fan-out step is collected for: the path's and the physical ones, each once.\<close>

definition fanout_members :: "dict \<Rightarrow> string option \<Rightarrow> string list option" where
  "fanout_members ev origin_prefix = do {
     (path, _) \<leftarrow> path_interfaces ev origin_prefix;
     path_names \<leftarrow> names_of path;
     ports \<leftarrow> physical_interfaces ev;
     Some (from_keys (path_names @ ports))
   }"

definition template_calls ::
  "collect_step \<Rightarrow> string \<Rightarrow> dict \<Rightarrow> string option \<Rightarrow> (string \<times> kwargs) list option" where
  "template_calls st subject ev origin_prefix =
     (if cs_fill st = Some ''origin''
      then Some (case origin_prefix of
             None \<Rightarrow> []
           | Some p \<Rightarrow> if p = [] then [] else [(template_key (cs_name st) p, [(cs_parameter st, p)])])
      else case cs_parameter st of
        None \<Rightarrow> Some [(cs_name st, [])]
      | Some p \<Rightarrow>
          if p \<in> set PREFIX_PARAMETERS
          then let key = subject @ ''/32'' in Some [(template_key (cs_name st) key, [(Some ''prefix'', key)])]
          else if p \<in> set FANOUT_PARAMETERS
          then map_option (map (\<lambda>name. (template_key (cs_name st) name, [(Some ''interface'', name)])))
                 (fanout_members ev origin_prefix)
          else if p \<in> set SUBJECT_PARAMETERS
          then Some [(template_key (cs_name st) subject, [(Some p, subject)])]
          else None)"

text \<open>The template steps each device needs, in the order the devices are first touched.\<close>

definition extend_steps :: "collect_step list \<Rightarrow> collect_step list \<Rightarrow> collect_step list" where
  "extend_steps steps extra =
     fold (\<lambda>s acc. if cs_is_template s \<and> s \<notin> set acc then acc @ [s] else acc) extra steps"

definition plan_target ::
  "rung \<Rightarrow> string \<Rightarrow> (string \<times> collect_step list) list \<Rightarrow> (string \<times> collect_step list) list" where
  "plan_target r target plan =
     AList.update target
       (extend_steps (case map_of plan target of Some steps \<Rightarrow> steps | None \<Rightarrow> []) (rg_collect r)) plan"

fun plan_rungs ::
  "string \<Rightarrow> string \<Rightarrow> resolver option \<Rightarrow> rung list \<Rightarrow> (string \<times> collect_step list) list \<Rightarrow>
   string + (string \<times> collect_step list) list" where
  "plan_rungs device subject resolver [] plan = Inr plan"
| "plan_rungs device subject resolver (r # rs) plan =
     (case resolve_devices r device subject resolver of
        Inl msg \<Rightarrow> Inl msg
      | Inr targets \<Rightarrow> plan_rungs device subject resolver rs (fold (plan_target r) targets plan))"

definition plan_for ::
  "flow \<Rightarrow> string \<Rightarrow> string \<Rightarrow> resolver option \<Rightarrow> string + (string \<times> collect_step list) list" where
  "plan_for f device subject resolver = plan_rungs device subject resolver (fl_descent f) []"

type_synonym manifest = "(string \<times> kwargs) list"

fun manifest_for ::
  "collect_step list \<Rightarrow> string \<Rightarrow> dict \<Rightarrow> string option \<Rightarrow> (string list \<times> manifest) option" where
  "manifest_for [] subject ev origin_prefix = Some ([], [])"
| "manifest_for (st # steps) subject ev origin_prefix = do {
     calls \<leftarrow> template_calls st subject ev origin_prefix;
     (keys, manifest) \<leftarrow> manifest_for steps subject ev origin_prefix;
     Some (map fst calls @ keys, map (\<lambda>(_, kw). (cs_name st, kw)) calls @ manifest)
   }"

subsection \<open>Collecting an epoch\<close>

record fabric =
  fb_static :: "string \<Rightarrow> string \<Rightarrow> json"
  fb_batch :: "string \<Rightarrow> manifest \<Rightarrow> (dict \<times> json list) option"
  fb_split :: "string \<Rightarrow> manifest \<Rightarrow> json list option"
  fb_intent :: "string \<Rightarrow> string \<Rightarrow> json option"
  fb_clock :: "nat \<Rightarrow> int"
  fb_wall :: "nat \<Rightarrow> string"

text \<open>\<open>zip(keys, values, strict=True)\<close>.\<close>

definition zip_strict :: "'a list \<Rightarrow> 'b list \<Rightarrow> ('a \<times> 'b) list option" where
  "zip_strict xs ys = (if length xs = length ys then Some (zip xs ys) else None)"

fun static_requests ::
  "string \<Rightarrow> string \<Rightarrow> resolver option \<Rightarrow> rung list \<Rightarrow> string + (string \<times> string) list" where
  "static_requests device subject resolver [] = Inr []"
| "static_requests device subject resolver (r # rs) =
     (case resolve_devices r device subject resolver of
        Inl msg \<Rightarrow> Inl msg
      | Inr targets \<Rightarrow> (case static_requests device subject resolver rs of
          Inl msg \<Rightarrow> Inl msg
        | Inr rest \<Rightarrow> Inr (concat (map (\<lambda>t. map (\<lambda>st. (t, cs_name st))
            (filter cs_is_static (rg_collect r))) targets) @ rest)))"

definition fans_out :: "collect_step list \<Rightarrow> bool" where
  "fans_out steps \<longleftrightarrow> list_ex (\<lambda>st. cs_parameter st \<in> Some ` set FANOUT_PARAMETERS) steps"

text \<open>
  One device's sessions: the evidence and the keyed template results.  A device that fans out is
  read twice, the reverse route riding the first pass.
\<close>

definition collect_device ::
  "fabric \<Rightarrow> string \<Rightarrow> string option \<Rightarrow> string \<Rightarrow> collect_step list \<Rightarrow> (dict \<times> (string \<times> json) list) option" where
  "collect_device fb subject origin_prefix target steps =
     (if fans_out steps
      then do {
        let origin_steps = filter (\<lambda>s. cs_fill s = Some ''origin'') steps;
        (okeys, omanifest) \<leftarrow> manifest_for origin_steps subject [] origin_prefix;
        (evidence, oenvelopes) \<leftarrow> fb_batch fb target omanifest;
        opairs \<leftarrow> zip_strict okeys oenvelopes;
        let ev = assign_all opairs evidence;
        (rest_keys, manifest) \<leftarrow>
          manifest_for (filter (\<lambda>s. cs_fill s \<noteq> Some ''origin'') steps) subject ev origin_prefix;
        envelopes \<leftarrow> fb_split fb target manifest;
        pairs \<leftarrow> zip_strict (okeys @ rest_keys) (oenvelopes @ envelopes);
        Some (ev, pairs)
      }
      else do {
        (keys, manifest) \<leftarrow> manifest_for steps subject [] origin_prefix;
        (evidence, envelopes) \<leftarrow> fb_batch fb target manifest;
        pairs \<leftarrow> zip_strict keys envelopes;
        Some (evidence, pairs)
      })"

definition observe :: "string \<Rightarrow> int \<Rightarrow> int \<Rightarrow> string \<Rightarrow> string \<times> json \<Rightarrow> observation" where
  "observe target started completed wall kv = \<lparr>ob_key = fst kv, ob_device = target, ob_started = started,
     ob_completed = completed, ob_envelope = snd kv, ob_collected_at = wall\<rparr>"

fun collect_devices ::
  "fabric \<Rightarrow> string \<Rightarrow> string option \<Rightarrow> nat \<Rightarrow> nat \<Rightarrow> (string \<times> collect_step list) list \<Rightarrow> observation list option" where
  "collect_devices fb subject origin_prefix tick wall [] = Some []"
| "collect_devices fb subject origin_prefix tick wall ((target, steps) # plan) = do {
     (ev, pairs) \<leftarrow> collect_device fb subject origin_prefix target steps;
     let look = observe target (fb_clock fb tick) (fb_clock fb (tick + 1)) (fb_wall fb wall);
     rest \<leftarrow> collect_devices fb subject origin_prefix (tick + 2) (wall + 1) plan;
     Some (map look ev @ map look pairs @ rest)
   }"

text \<open>\<open>Inl\<close> is a \<open>ValueError\<close> of the precondition or of the resolver.\<close>

definition collect_epoch ::
  "fabric \<Rightarrow> flow \<Rightarrow> string \<Rightarrow> string \<Rightarrow> resolver option \<Rightarrow> int \<Rightarrow> string option \<Rightarrow> (string + evidence_epoch) option" where
  "collect_epoch fb f device subject resolver bound origin_prefix =
     (case validate_prewalk_collection f of
        Some msg \<Rightarrow> Some (Inl msg)
      | None \<Rightarrow> (case static_requests device subject resolver (fl_descent f) of
          Inl msg \<Rightarrow> Some (Inl msg)
        | Inr requests \<Rightarrow> (case plan_for f device subject resolver of
            Inl msg \<Rightarrow> Some (Inl msg)
          | Inr plan \<Rightarrow> do {
              let opened = fb_clock fb 0;
              let wanted = from_keys requests;
              let statics = map (\<lambda>(i, t, name). observe t opened opened (fb_wall fb i) (name, fb_static fb name t))
                (zip [0..<length wanted] wanted);
              reads \<leftarrow> collect_devices fb subject origin_prefix 1 (length wanted) plan;
              Some (Inr \<lparr>ep_observations = statics @ reads, ep_opened = opened,
                ep_closed = fb_clock fb (2 * length plan + 1), ep_bound = bound,
                ep_session_counts = map (\<lambda>(t, steps). (t, if fans_out steps then 2 else 1)) plan\<rparr>)
            })))"

subsection \<open>The re-read\<close>

text \<open>Only what one rung needs; the reverse route is not among it, for it has no origin here.\<close>

definition collect_one_rung :: "fabric \<Rightarrow> string \<Rightarrow> rung \<Rightarrow> string \<Rightarrow> dict option" where
  "collect_one_rung fb device r subject = do {
     let statics = map (\<lambda>st. (cs_name st, fb_static fb (cs_name st) device)) (filter cs_is_static (rg_collect r));
     intents \<leftarrow> map_m (\<lambda>st. map_option (\<lambda>env. (cs_name st, env)) (fb_intent fb device (cs_name st)))
       (filter (\<lambda>st. \<not> cs_is_template st \<and> \<not> cs_is_static st) (rg_collect r));
     let ev = assign_all (statics @ intents) [];
     (keys, manifest) \<leftarrow> manifest_for (filter cs_is_template (rg_collect r)) subject ev None;
     if manifest = [] then Some ev
     else do {
       envelopes \<leftarrow> fb_split fb device manifest;
       pairs \<leftarrow> zip_strict keys envelopes;
       Some (assign_all pairs ev)
     }
   }"

definition rung_named :: "flow \<Rightarrow> string \<Rightarrow> rung option" where
  "rung_named f name = find (\<lambda>r. rg_name r = name) (fl_descent f)"

text \<open>The rungs read again: the symptom, and the lowest broken rung when it is another one.\<close>

definition reread_targets :: "rung_outcome list \<Rightarrow> rung_outcome list" where
  "reread_targets outcomes = (case outcomes of
     [] \<Rightarrow> []
   | symptom # _ \<Rightarrow> let bs = broken_outcomes outcomes in
       if bs \<noteq> [] \<and> ro_rung (last bs) \<noteq> ro_rung symptom then [symptom, last bs] else [symptom])"

text \<open>
  One rung evaluated again; \<open>Inl\<close> is any exception, with its text.  The texts of exceptions
  raised below this module are the argument \<open>error_text\<close>.
\<close>

definition reread_result ::
  "fabric \<Rightarrow> string \<Rightarrow> string \<Rightarrow> resolver option \<Rightarrow> string \<Rightarrow> rung \<Rightarrow> string + check_result" where
  "reread_result fb device subject resolver error_text r =
     (case resolve_devices r device subject resolver of
        Inl msg \<Rightarrow> Inl msg
      | Inr devices \<Rightarrow> (case map_m (\<lambda>d. map_option (\<lambda>ev. (d, ev)) (collect_one_rung fb d r subject)) devices of
          None \<Rightarrow> Inl error_text
        | Some fresh \<Rightarrow> (case evaluate_rung r devices subject (map_of fresh) None of
            None \<Rightarrow> Inl error_text
          | Some result \<Rightarrow> Inr result)))"

fun rereads_for ::
  "fabric \<Rightarrow> flow \<Rightarrow> string \<Rightarrow> string \<Rightarrow> resolver option \<Rightarrow> string \<Rightarrow> rung_outcome list \<Rightarrow> reread list" where
  "rereads_for fb f device subject resolver error_text [] = []"
| "rereads_for fb f device subject resolver error_text (out # outs) =
     (case rung_named f (ro_rung out) of
        None \<Rightarrow> rereads_for fb f device subject resolver error_text outs
      | Some r \<Rightarrow>
          let (after, detail) = (case reread_result fb device subject resolver error_text r of
                Inl msg \<Rightarrow> (REREAD_FAILED, Some msg)
              | Inr result \<Rightarrow> (status_value (cr_status result), cr_reason result))
          in \<lparr>rr_rung = ro_rung out, rr_device = ro_device out, rr_before = status_value (ro_status out),
               rr_after = after, rr_detail = detail\<rparr>
             # rereads_for fb f device subject resolver error_text outs)"

definition check_coherence ::
  "fabric \<Rightarrow> flow \<Rightarrow> rung_outcome list \<Rightarrow> evidence_epoch \<Rightarrow> string \<Rightarrow> string \<Rightarrow> resolver option \<Rightarrow> string \<Rightarrow> coherence" where
  "check_coherence fb f outcomes ep subject device resolver error_text =
     \<lparr>ch_skew = skew_seconds ep, ch_bound = ep_bound ep,
      ch_rereads = rereads_for fb f device subject resolver error_text (reread_targets outcomes)\<rparr>"

subsection \<open>The precondition\<close>

lemma validate_None:
  "validate_prewalk_collection f = None \<longleftrightarrow> (\<forall>r\<in>set (fl_descent f). \<forall>st\<in>set (rg_collect r). step_refusal f r st = None)"
proof -
  have "first_some xs = None \<longleftrightarrow> (\<forall>x\<in>set xs. x = None)" for xs :: "string option list"
    by (induction xs) (auto simp: first_some_def)
  then show ?thesis by (auto simp: validate_prewalk_collection_def)
qed

lemma fanout_members_total:
  assumes "wf_evidence ev"
  obtains ms us ns where "path_interfaces ev origin = Some (map JStr ms, map JStr us)"
    "physical_interfaces ev = Some ns" "fanout_members ev origin = Some (from_keys (ms @ ns))"
proof -
  from assms obtain ms us where p: "path_interfaces ev origin = Some (map JStr ms, map JStr us)"
    by (rule path_interfaces_total)
  obtain ns where n: "physical_interfaces ev = Some ns" using physical_interfaces_total [OF assms] by blast
  from p n show thesis by (intro that [OF p n]) (simp add: fanout_members_def)
qed

lemma ladders_validate:
  "validate_prewalk_collection INTERFACE_FLOW = None" "validate_prewalk_collection BGP_SESSION_FLOW = None"
  "validate_prewalk_collection ISIS_ADJACENCY_FLOW = None" "validate_prewalk_collection LDP_SESSION_FLOW = None"
  by code_simp+

lemma registered_steps_resolvable: "(name, f) \<in> set FLOWS \<Longrightarrow> validate_prewalk_collection f = None"
  using ladders_validate by (auto simp: FLOWS_def)

subsection \<open>The plan\<close>

lemma set_extend_steps: "set (extend_steps steps extra) = set steps \<union> {s \<in> set extra. cs_is_template s}"
proof -
  have "set (fold (\<lambda>s acc. if cs_is_template s \<and> s \<notin> set acc then acc @ [s] else acc) extra steps) =
      set steps \<union> {s \<in> set extra. cs_is_template s}"
    by (induction extra arbitrary: steps) auto
  then show ?thesis by (simp add: extend_steps_def)
qed

definition plan_steps :: "(string \<times> collect_step list) list \<Rightarrow> string \<Rightarrow> collect_step set" where
  "plan_steps plan t = (case map_of plan t of Some steps \<Rightarrow> set steps | None \<Rightarrow> {})"

lemma plan_target_steps:
  "plan_steps (plan_target r t plan) u =
     plan_steps plan u \<union> (if u = t then {s \<in> set (rg_collect r). cs_is_template s} else {})"
  by (auto simp: plan_steps_def plan_target_def update_conv' set_extend_steps split: option.splits)

lemma plan_targets_steps:
  "plan_steps (fold (plan_target r) targets plan) u =
     plan_steps plan u \<union> (if u \<in> set targets then {s \<in> set (rg_collect r). cs_is_template s} else {})"
  by (induction targets arbitrary: plan) (auto simp: plan_target_steps)

definition needed_steps :: "string \<Rightarrow> string \<Rightarrow> resolver option \<Rightarrow> rung list \<Rightarrow> string \<Rightarrow> collect_step set" where
  "needed_steps device subject resolver rs u =
     {s. \<exists>r\<in>set rs. \<exists>targets. resolve_devices r device subject resolver = Inr targets \<and> u \<in> set targets \<and>
        s \<in> set (rg_collect r) \<and> cs_is_template s}"

lemma plan_rungs_steps:
  "plan_rungs device subject resolver rs plan = Inr plan' \<Longrightarrow>
     plan_steps plan' u = plan_steps plan u \<union> needed_steps device subject resolver rs u"
proof (induction rs arbitrary: plan)
  case (Cons r rs)
  then obtain targets where t: "resolve_devices r device subject resolver = Inr targets"
    by (auto split: sum.splits)
  with Cons show ?case by (auto simp: plan_targets_steps needed_steps_def)
qed (simp add: needed_steps_def)

lemma plan_rungs_resolved:
  "plan_rungs device subject resolver rs plan = Inr plan' \<Longrightarrow> r \<in> set rs \<Longrightarrow>
     \<exists>targets. resolve_devices r device subject resolver = Inr targets"
  by (induction rs arbitrary: plan) (auto split: sum.splits)

subsection \<open>The views of an epoch\<close>

lemma map_of_assign_all:
  "map_of (assign_all kvs d) k = (case map_of (rev kvs) k of Some v \<Rightarrow> Some v | None \<Rightarrow> map_of d k)"
proof (induction kvs arbitrary: d)
  case (Cons kv kvs)
  obtain a b where kv: "kv = (a, b)" by fastforce
  from Cons [of "AList.update a b d"] show ?case
    by (auto simp: kv assign_all_def update_conv' map_add_def split: option.splits)
qed (simp add: assign_all_def)

subsection \<open>The window\<close>

definition inside :: "int \<Rightarrow> int \<Rightarrow> observation \<Rightarrow> bool" where
  "inside a b ob \<longleftrightarrow> a \<le> ob_started ob \<and> ob_started ob \<le> ob_completed ob \<and> ob_completed ob \<le> b"

lemma collect_devices_inside:
  assumes "mono (fb_clock fb)"
  shows "collect_devices fb subject origin tick wall plan = Some obs \<Longrightarrow>
    list_all (inside (fb_clock fb tick) (fb_clock fb (tick + 2 * length plan))) obs"
proof (induction plan arbitrary: tick wall obs)
  case (Cons p plan)
  obtain target steps where p: "p = (target, steps)" by fastforce
  from Cons.prems obtain ev pairs rest where
    rest: "collect_devices fb subject origin (tick + 2) (wall + 1) plan = Some rest"
    and obs: "obs = map (observe target (fb_clock fb tick) (fb_clock fb (tick + 1)) (fb_wall fb wall)) ev @
      map (observe target (fb_clock fb tick) (fb_clock fb (tick + 1)) (fb_wall fb wall)) pairs @ rest"
    by (auto simp: p bind_Some_iff Let_def)
  have le: "i \<le> j \<Longrightarrow> fb_clock fb i \<le> fb_clock fb j" for i j using assms by (rule monoD)
  have "list_all (inside (fb_clock fb (tick + 2)) (fb_clock fb (tick + 2 * length (p # plan)))) rest"
    using Cons.IH [OF rest] by (simp add: algebra_simps)
  then have "list_all (inside (fb_clock fb tick) (fb_clock fb (tick + 2 * length (p # plan)))) rest"
    by (rule list.pred_mono_strong) (use le [of tick "tick + 2"] in \<open>auto simp: inside_def\<close>)
  moreover have "inside (fb_clock fb tick) (fb_clock fb (tick + 2 * length (p # plan)))
      (observe target (fb_clock fb tick) (fb_clock fb (tick + 1)) w kv)" for w kv
    using le [of tick "tick + 1"] le [of "tick + 1" "tick + 2 * length (p # plan)"]
    by (simp add: inside_def observe_def)
  ultimately show ?case by (auto simp: obs list_all_iff)
qed simp

lemma inside_mono: "inside a b ob \<Longrightarrow> a' \<le> a \<Longrightarrow> b \<le> b' \<Longrightarrow> inside a' b' ob"
  by (simp add: inside_def)

lemma collect_epoch_inside:
  assumes "mono (fb_clock fb)" and "collect_epoch fb f device subject resolver bound origin = Some (Inr ep)"
  shows "0 \<le> skew_seconds ep \<and> (\<forall>ob\<in>set (ep_observations ep). inside (ep_opened ep) (ep_closed ep) ob)"
proof -
  have le: "i \<le> j \<Longrightarrow> fb_clock fb i \<le> fb_clock fb j" for i j using assms(1) by (rule monoD)
  from assms(2) obtain requests plan reads where
    reads: "collect_devices fb subject origin 1 (length (from_keys requests)) plan = Some reads"
    and ep: "ep_opened ep = fb_clock fb 0" "ep_closed ep = fb_clock fb (2 * length plan + 1)"
      "ep_observations ep = map (\<lambda>(i, t, name). observe t (fb_clock fb 0) (fb_clock fb 0) (fb_wall fb i) (name, fb_static fb name t))
         (zip [0..<length (from_keys requests)] (from_keys requests)) @ reads"
    by (auto simp: collect_epoch_def bind_Some_iff Let_def split: option.splits sum.splits)
  have "list_all (inside (fb_clock fb 1) (fb_clock fb (1 + 2 * length plan))) reads"
    by (rule collect_devices_inside [OF assms(1) reads])
  then have "\<forall>ob\<in>set reads. inside (ep_opened ep) (ep_closed ep) ob"
    using le [of 0 1] by (auto simp: list_all_iff ep algebra_simps intro: inside_mono)
  moreover have "inside (ep_opened ep) (ep_closed ep) (observe t (fb_clock fb 0) (fb_clock fb 0) w kv)" for t w kv
    using le [of 0 "2 * length plan + 1"] by (simp add: inside_def observe_def ep)
  moreover have "0 \<le> skew_seconds ep" using le [of 0 "2 * length plan + 1"] by (simp add: skew_seconds_def ep)
  ultimately show ?thesis by (auto simp: ep(3))
qed

subsection \<open>The verdict of the re-read\<close>

lemma rereads_for_stable:
  assumes "list_all agrees (rereads_for fb f device subject resolver err outs)"
    and "out \<in> set outs" and "rung_named f (ro_rung out) = Some r"
  shows "\<exists>c. reread_result fb device subject resolver err r = Inr c \<and> cr_status c = ro_status out"
  using assms
proof (induction outs)
  case (Cons o1 outs)
  show ?case
  proof (cases "o1 = out")
    case True
    with Cons.prems(1,3) have "case reread_result fb device subject resolver err r of
        Inl msg \<Rightarrow> status_value (ro_status out) = REREAD_FAILED
      | Inr c \<Rightarrow> status_value (ro_status out) = status_value (cr_status c)"
      by (auto simp: agrees_def split: sum.splits)
    then show ?thesis using status_value_not_failed by (auto split: sum.splits)
  next
    case False
    with Cons show ?thesis by (auto simp: Let_def split: option.splits prod.splits)
  qed
qed simp

lemma find_distinct: "distinct (map g xs) \<Longrightarrow> x \<in> set xs \<Longrightarrow> find (\<lambda>y. g y = g x) xs = Some x"
  by (induction xs) auto

lemma rung_named_distinct:
  "distinct (map rg_name (fl_descent f)) \<Longrightarrow> r \<in> set (fl_descent f) \<Longrightarrow> rung_named f (rg_name r) = Some r"
  unfolding rung_named_def by (rule find_distinct)

lemma reread_targets_subset: "set (reread_targets outcomes) \<subseteq> set outcomes"
proof (cases outcomes)
  case (Cons x xs)
  have "last (broken_outcomes outcomes) \<in> set outcomes" if "broken_outcomes outcomes \<noteq> []"
    using last_in_set [OF that] unfolding broken_outcomes_def by simp
  with Cons show ?thesis by (simp add: reread_targets_def Let_def)
qed (simp add: reread_targets_def)

lemma walk_shape_named:
  assumes "walk_shape (fl_descent f) os" "distinct (map rg_name (fl_descent f))" "x \<in> set os"
  obtains r where "r \<in> set (fl_descent f)" "rg_name r = ro_rung x" "rung_named f (ro_rung x) = Some r"
proof -
  from assms(3) have "ro_rung x \<in> set (map ro_rung os)" by simp
  then have "ro_rung x \<in> set (map rg_name (fl_descent f))"
    by (metis walk_shape_names [OF assms(1)] set_take_subset subsetD)
  then obtain r where "r \<in> set (fl_descent f)" "rg_name r = ro_rung x" by auto
  with that rung_named_distinct [OF assms(2)] show thesis by metis
qed

lemma rereads_for_length:
  "(\<And>x. x \<in> set outs \<Longrightarrow> rung_named f (ro_rung x) \<noteq> None) \<Longrightarrow>
     map rr_rung (rereads_for fb f device subject resolver err outs) = map ro_rung outs"
  by (induction outs) (auto simp: Let_def split: option.splits prod.splits)

text \<open>The lowest broken layer of a walk, by position.\<close>

definition lowest_broken :: "rung_outcome list \<Rightarrow> nat \<Rightarrow> bool" where
  "lowest_broken os i \<longleftrightarrow> i < length os \<and> ro_status (os ! i) = BROKEN \<and>
     (\<forall>j < length os. i < j \<longrightarrow> ro_status (os ! j) \<noteq> BROKEN)"

lemma last_filter_nth:
  assumes "i < length xs" and "P (xs ! i)" and "\<forall>j < length xs. i < j \<longrightarrow> \<not> P (xs ! j)"
  shows "filter P xs \<noteq> [] \<and> last (filter P xs) = xs ! i"
proof -
  have "filter P (drop (Suc i) xs) = []"
    using assms(3) by (auto simp: filter_empty_conv in_set_conv_nth)
  moreover have "filter P xs = filter P (take i xs @ xs ! i # drop (Suc i) xs)"
    using id_take_nth_drop [OF assms(1)] by simp
  ultimately show ?thesis using assms(2) by simp
qed

lemma lowest_broken_last: "lowest_broken os i \<Longrightarrow> broken_outcomes os \<noteq> [] \<and> last (broken_outcomes os) = os ! i"
  unfolding lowest_broken_def broken_outcomes_def by (intro last_filter_nth) auto

lemma lowest_broken_exists: "broken_outcomes os \<noteq> [] \<Longrightarrow> \<exists>i. lowest_broken os i"
proof (induction os rule: rev_induct)
  case (snoc x os)
  show ?case
  proof (cases "ro_status x = BROKEN")
    case True
    then show ?thesis by (intro exI [of _ "length os"]) (simp add: lowest_broken_def)
  next
    case False
    with snoc obtain i where "lowest_broken os i" by (auto simp: broken_outcomes_def)
    with False show ?thesis by (intro exI [of _ i]) (auto simp: lowest_broken_def nth_append less_Suc_eq)
  qed
qed (simp add: broken_outcomes_def)

lemma targets_cover:
  assumes "distinct (map ro_rung os)" and "i < length os" and "i = 0 \<or> lowest_broken os i"
  shows "os ! i \<in> set (reread_targets os)"
proof -
  obtain x xs where os: "os = x # xs" using assms(2) by (cases os) auto
  show ?thesis
  proof (cases "i = 0")
    case True
    then show ?thesis by (simp add: os reread_targets_def Let_def)
  next
    case False
    with assms(3) lowest_broken_last have bs: "broken_outcomes os \<noteq> []" "last (broken_outcomes os) = os ! i" by auto
    have "ro_rung (os ! i) \<noteq> ro_rung (os ! 0)"
      using nth_eq_iff_index_eq [OF assms(1), of i 0] assms(2) False by (auto simp: os)
    with bs show ?thesis by (simp add: os reread_targets_def Let_def)
  qed
qed

text \<open>A verdict that does not refuse rests on a fresh evaluation of the symptom and of the lowest broken rung.\<close>

lemma rereads_agree:
  assumes shape: "walk_shape (fl_descent f) os" and wf: "well_formed_flow f"
    and ok: "\<not> refuses (check_coherence fb f os ep subject device resolver err)"
  shows "os \<noteq> []" and "i < length os \<Longrightarrow> i = 0 \<or> lowest_broken os i \<Longrightarrow>
    \<exists>r\<in>set (fl_descent f). \<exists>c. rg_name r = ro_rung (os ! i) \<and>
      reread_result fb device subject resolver err r = Inr c \<and> cr_status c = ro_status (os ! i)"
proof -
  have d: "distinct (map rg_name (fl_descent f))" using wf by (simp add: well_formed_flow_def)
  from ok have s: "rereads_for fb f device subject resolver err (reread_targets os) \<noteq> []"
    "list_all agrees (rereads_for fb f device subject resolver err (reread_targets os))"
    by (auto simp: refuses_iff_not_stable stable_def check_coherence_def)
  from s(1) show "os \<noteq> []" by (auto simp: reread_targets_def)
  assume i: "i < length os" "i = 0 \<or> lowest_broken os i"
  have "distinct (map ro_rung os)" using walk_shape_names [OF shape] d by (metis distinct_take)
  from targets_cover [OF this i] have t: "os ! i \<in> set (reread_targets os)" .
  have "os ! i \<in> set os" using i(1) by simp
  with shape d obtain r where "r \<in> set (fl_descent f)" "rg_name r = ro_rung (os ! i)" "rung_named f (ro_rung (os ! i)) = Some r"
    by (rule walk_shape_named)
  with rereads_for_stable [OF s(2) t] show "\<exists>r\<in>set (fl_descent f). \<exists>c. rg_name r = ro_rung (os ! i) \<and>
      reread_result fb device subject resolver err r = Inr c \<and> cr_status c = ro_status (os ! i)" by blast
qed

subsection \<open>Properties\<close>

text \<open>The precondition is enough: in a flow that passes \<open>validate_prewalk_collection\<close> every
  template step of every rung yields its calls from the subject and well-formed evidence alone;
  the builder's unresolvable-parameter error cannot occur.  Every registered flow passes.\<close>

theorem prewalk_validation_suffices:
  assumes "validate_prewalk_collection f = None" and "r \<in> set (fl_descent f)" and "st \<in> set (rg_collect r)"
    and "cs_is_template st" and "\<not> cs_is_static st" and "wf_evidence ev"
  shows "template_calls st subject ev origin \<noteq> None"
proof -
  from assms(1-3) have "step_refusal f r st = None" by (auto simp: validate_None)
  then have "cs_fill st = Some ''origin'' \<or> cs_parameter st = None \<or>
      cs_parameter st \<in> {Some ''address'', Some ''prefix'', Some ''interface''}"
    using assms(4,5) by (auto simp: step_refusal_def parameter_defs split: if_splits)
  moreover from assms(6) obtain ms where fan: "fanout_members ev origin = Some ms"
    by (rule fanout_members_total) blast
  ultimately consider "cs_fill st = Some ''origin''" | "cs_fill st \<noteq> Some ''origin''" "cs_parameter st = None"
    | p where "cs_fill st \<noteq> Some ''origin''" "cs_parameter st = Some p" "p \<in> {''address'', ''prefix'', ''interface''}"
    by (cases "cs_fill st = Some ''origin''"; cases "cs_parameter st"; simp)
  then show ?thesis
  proof cases
    case (3 p)
    then show ?thesis by (auto simp: template_calls_def parameter_defs Let_def fan)
  qed (simp_all add: template_calls_def)
qed

theorem prewalk_validation_witness:
  "template_calls (template_step ''interface'' ''interface'') ''10.255.0.12'' (pe2_evidence ''up'') None \<noteq> None"
  by (rule prewalk_validation_suffices [of BGP_SESSION_FLOW bgp_interface_rung, OF ladders_validate(2)])
    (simp_all add: bgp_interface_rung_def BGP_SESSION_FLOW_def Rung_def CollectStep_def lab_evidence_wf)

text \<open>What is aggregated was collected: every interface a fan-out rung will be evaluated on, under
  either question it may ask, has its own call among those the interface step makes.\<close>

theorem fanout_subjects_are_collected:
  assumes "wf_evidence ev" and "is_fanout (rg_subject_rule r)"
    and "rung_subjects r subject ev origin = Some (ss, ov)"
  shows "\<exists>calls. template_calls (template_step ''interface'' ''interface'') subject ev origin = Some calls \<and>
    (\<forall>s\<in>set ss. \<exists>n. s = Some n \<and> template_key ''interface'' n \<in> fst ` set calls)"
proof -
  from assms(1) obtain ms us ns where p: "path_interfaces ev origin = Some (map JStr ms, map JStr us)"
    and n: "physical_interfaces ev = Some ns" and f: "fanout_members ev origin = Some (from_keys (ms @ ns))"
    by (rule fanout_members_total)
  have calls: "template_calls (template_step ''interface'' ''interface'') subject ev origin =
      Some (map (\<lambda>name. (template_key ''interface'' name, [(Some ''interface'', name)])) (from_keys (ms @ ns)))"
    using f by (simp add: template_calls_def CollectStep_def parameter_defs)
  from assms(2) consider "rg_subject_rule r = EACH_PHYSICAL_INTERFACE" | "rg_subject_rule r = EACH_PATH_INTERFACE"
    unfolding is_fanout_def by blast
  then have "set ss \<subseteq> Some ` set (ms @ ns)"
  proof cases
    case 1
    with assms(3) n have "ss = map Some ns" by (simp add: rung_subjects_def)
    then show ?thesis by (simp add: image_mono)
  next
    case 2
    with assms(3) have "ss = map Some ms \<or> ss = map Some ns"
      unfolding rung_subjects_path [OF 2 p n] by (cases "ms = []") simp_all
    then show ?thesis by (auto simp: image_mono)
  qed
  then have sub: "\<exists>n. s = Some n \<and> n \<in> set (ms @ ns)" if "s \<in> set ss" for s using that by blast
  show ?thesis
  proof (intro exI [of _ "map (\<lambda>name. (template_key ''interface'' name,
      [(Some ''interface'', name)])) (from_keys (ms @ ns))"] conjI ballI calls)
    fix s assume "s \<in> set ss"
    with sub obtain k where k: "s = Some k" "k \<in> set (ms @ ns)" by blast
    then show "\<exists>n. s = Some n \<and> template_key ''interface'' n \<in> fst ` set (map (\<lambda>name. (template_key ''interface'' name,
        [(Some ''interface'', name)])) (from_keys (ms @ ns)))"
      by (intro exI [of _ k]) (simp add: image_image)
  qed
qed

theorem fanout_subjects_witness:
  "\<exists>calls. template_calls (template_step ''interface'' ''interface'') ''10.255.0.12'' (pe2_evidence ''up'') None = Some calls \<and>
     template_key ''interface'' ''Gi0/0/0/1'' \<in> fst ` set calls"
proof -
  have s: "rung_subjects bgp_interface_rung ''10.255.0.12'' (pe2_evidence ''up'') None =
      Some ([Some ''Gi0/0/0/0'', Some ''Gi0/0/0/1''], Some ALL_HEALTHY)" by code_simp
  have "is_fanout (rg_subject_rule bgp_interface_rung)"
    by (simp add: bgp_interface_rung_def BGP_SESSION_FLOW_def is_fanout_def)
  from fanout_subjects_are_collected [OF lab_evidence_wf(2) this s] show ?thesis by auto
qed

text \<open>The plan of a collection holds, for every device, exactly the template steps of the rungs the
  walk will evaluate there.\<close>

theorem plan_is_exactly_what_rungs_need:
  assumes "plan_for f device subject resolver = Inr plan"
  shows "plan_steps plan u = needed_steps device subject resolver (fl_descent f) u"
  using plan_rungs_steps [OF assms [unfolded plan_for_def], of u] by (simp add: plan_steps_def)

theorem plan_witness:
  "plan_steps (case plan_for BGP_SESSION_FLOW ''RR1'' ''10.255.0.12'' (Some (\<lambda>s. OneDevice ''PE2'')) of Inr p \<Rightarrow> p) ''PE2'' =
     needed_steps ''RR1'' ''10.255.0.12'' (Some (\<lambda>s. OneDevice ''PE2'')) (fl_descent BGP_SESSION_FLOW) ''PE2''"
proof (rule plan_is_exactly_what_rungs_need)
  have "\<exists>p. plan_for BGP_SESSION_FLOW ''RR1'' ''10.255.0.12'' (Some (\<lambda>s. OneDevice ''PE2'')) = Inr p"
    by (simp add: plan_for_def BGP_SESSION_FLOW_def Rung_def resolve_devices_def)
  then show "plan_for BGP_SESSION_FLOW ''RR1'' ''10.255.0.12'' (Some (\<lambda>s. OneDevice ''PE2'')) =
      Inr (case plan_for BGP_SESSION_FLOW ''RR1'' ''10.255.0.12'' (Some (\<lambda>s. OneDevice ''PE2'')) of Inr p \<Rightarrow> p)" by auto
qed

text \<open>With a clock that never steps back, the window of an epoch contains every observation in it and
  its width is not negative.\<close>

theorem epoch_window_contains_observations:
  assumes "mono (fb_clock fb)" and "collect_epoch fb f device subject resolver bound origin = Some (Inr ep)"
  shows "0 \<le> skew_seconds ep \<and>
    (\<forall>ob\<in>set (ep_observations ep). ep_opened ep \<le> ob_started ob \<and> 0 \<le> duration ob \<and> ob_completed ob \<le> ep_closed ep)"
  using collect_epoch_inside [OF assms] by (auto simp: inside_def duration_def)

text \<open>C10: Stability is a positive observation: when the verdict does not refuse, the walk was not empty, and
  its first rung (the symptom) and its lowest broken rung, the one a cause is named after, have each been
  evaluated again on fresh evidence, successfully and with the status the walk had recorded.  A failed
  or missing re-read of either, one that differs, or an empty walk always refuses.\<close>

theorem coherent_rereads_agree:
  assumes "walk_shape (fl_descent f) outcomes" and "well_formed_flow f"
    and "\<not> refuses (check_coherence fb f outcomes ep subject device resolver err)"
  shows "outcomes \<noteq> [] \<and> (\<forall>i < length outcomes.
    i = 0 \<or> ro_status (outcomes ! i) = BROKEN \<and> (\<forall>j < length outcomes. i < j \<longrightarrow> ro_status (outcomes ! j) \<noteq> BROKEN) \<longrightarrow>
    (\<exists>r\<in>set (fl_descent f). \<exists>c. rg_name r = ro_rung (outcomes ! i) \<and>
       reread_result fb device subject resolver err r = Inr c \<and> cr_status c = ro_status (outcomes ! i)))"
  using rereads_agree [OF assms] unfolding lowest_broken_def by blast

subsection \<open>A recorded fabric, and the path rung on its re-read\<close>

text \<open>The key a manifest entry is collected under, and a fabric answering from recorded evidence.\<close>

definition manifest_key :: "string \<times> kwargs \<Rightarrow> string" where
  "manifest_key c = (case snd c of [] \<Rightarrow> fst c | (_, v) # _ \<Rightarrow> template_key (fst c) v)"

definition recorded_fabric :: "(string \<Rightarrow> dict) \<Rightarrow> fabric" where
  "recorded_fabric ev = \<lparr>
     fb_static = (\<lambda>name d. dict_get (ev d) name),
     fb_batch = (\<lambda>d m. Some (ev d, map (\<lambda>c. dict_get (ev d) (manifest_key c)) m)),
     fb_split = (\<lambda>d m. Some (map (\<lambda>c. dict_get (ev d) (manifest_key c)) m)),
     fb_intent = (\<lambda>d name. Some (dict_get (ev d) name)),
     fb_clock = int, fb_wall = (\<lambda>_. [])\<rparr>"

text \<open>PE2 reaches RR1 over \<open>Gi0/0/0/0\<close> alone; \<open>Gi0/0/0/1\<close> is off the path and down throughout.\<close>

definition path_evidence :: "string \<Rightarrow> string \<Rightarrow> dict" where
  "path_evidence line device = (if device = ''PE2''
     then [(''device'', JStr ''PE2''), (''isis'', parsed_section [] []),
       (''interfaces'', parsed_section [interface_record ''Gi0/0/0/0'' ''up'' line,
          interface_record ''Gi0/0/0/1'' ''up'' ''down''] []),
       (''route:10.255.0.1/32'', parsed_section [JDict [(''interface'', JStr ''GigabitEthernet0/0/0/0'')]]
          [(''found'', JBool True)])]
     else rr1_evidence)"

abbreviation lab_resolver :: "resolver option" where
  "lab_resolver \<equiv> Some (\<lambda>s. OneDevice ''PE2'')"

abbreviation lab_origin :: "string option" where
  "lab_origin \<equiv> Some ''10.255.0.1/32''"

definition path_epoch :: "(string + evidence_epoch) option" where
  "path_epoch = collect_epoch (recorded_fabric (path_evidence ''down'')) BGP_SESSION_FLOW ''RR1'' ''10.255.0.12''
     lab_resolver 30 lab_origin"

definition path_walk :: "evidence_epoch \<Rightarrow> (rung_outcome list \<times> string list \<times> string option) option" where
  "path_walk ep = walk ''RR1'' ''10.255.0.12'' (\<lambda>d r s. Some (for_device ep d)) lab_resolver lab_origin
     (fl_descent BGP_SESSION_FLOW)"

text \<open>The coherence of a walk over that epoch, re-read when the path's port is in state \<open>line\<close>.\<close>

definition path_coherence :: "string \<Rightarrow> coherence option" where
  "path_coherence line = (case path_epoch of
     Some (Inr ep) \<Rightarrow> map_option (\<lambda>(outcomes, _).
       check_coherence (recorded_fabric (path_evidence line)) BGP_SESSION_FLOW outcomes ep
         ''10.255.0.12'' ''RR1'' lab_resolver []) (path_walk ep)
   | _ \<Rightarrow> None)"

lemma path_coherent: "map_option coherence_status (path_coherence ''up'') = Some COHERENT"
  by code_simp

lemma path_epoch_walk:
  obtains ep os ks why where "path_epoch = Some (Inr ep)" "path_walk ep = Some (os, ks, why)"
    "coherence_status (check_coherence (recorded_fabric (path_evidence ''up'')) BGP_SESSION_FLOW os ep
       ''10.255.0.12'' ''RR1'' lab_resolver []) = COHERENT"
proof -
  note pc = path_coherent [unfolded path_coherence_def]
  show thesis
  proof (cases path_epoch)
    case None
    from pc show thesis unfolding None by simp
  next
    case (Some x)
    show thesis
    proof (cases x)
      case (Inl msg)
      from pc show thesis unfolding Some Inl by simp
    next
      case (Inr ep)
      note pe = pc [unfolded Some Inr, simplified option.case sum.case]
      show thesis
      proof (cases "path_walk ep")
        case None
        from pe show thesis unfolding None by simp
      next
        case (Some w)
        obtain os ks why where w: "w = (os, ks, why)" using prod_cases3 by blast
        from pe show thesis unfolding Some w
          by (intro that [of ep os ks why]) (simp_all add: \<open>path_epoch = Some x\<close> Inr Some w)
      qed
    qed
  qed
qed

theorem epoch_window_witness:
  "\<exists>ep. path_epoch = Some (Inr ep) \<and> 0 \<le> skew_seconds ep \<and>
    list_all (\<lambda>ob. ep_opened ep \<le> ob_started ob \<and> ob_completed ob \<le> ep_closed ep) (ep_observations ep)"
proof -
  obtain ep where ep: "path_epoch = Some (Inr ep)" by (rule path_epoch_walk)
  have "mono (fb_clock (recorded_fabric (path_evidence ''down'')))"
    by (simp add: recorded_fabric_def mono_def)
  from epoch_window_contains_observations [OF this ep [unfolded path_epoch_def]] ep
  show ?thesis by (auto simp: list_all_iff)
qed

theorem coherent_rereads_witness:
  "\<exists>ep os ks why. path_epoch = Some (Inr ep) \<and> path_walk ep = Some (os, ks, why) \<and> os \<noteq> [] \<and>
     (\<exists>r\<in>set (fl_descent BGP_SESSION_FLOW). \<exists>c. rg_name r = ro_rung (os ! 0) \<and>
       reread_result (recorded_fabric (path_evidence ''up'')) ''RR1'' ''10.255.0.12'' lab_resolver [] r = Inr c \<and>
       cr_status c = ro_status (os ! 0))"
proof -
  obtain ep os ks why where e: "path_epoch = Some (Inr ep)" and w: "path_walk ep = Some (os, ks, why)"
    and c: "coherence_status (check_coherence (recorded_fabric (path_evidence ''up'')) BGP_SESSION_FLOW os ep
       ''10.255.0.12'' ''RR1'' lab_resolver []) = COHERENT" by (rule path_epoch_walk)
  have "\<not> refuses (check_coherence (recorded_fabric (path_evidence ''up'')) BGP_SESSION_FLOW os ep
       ''10.255.0.12'' ''RR1'' lab_resolver [])" using c by (simp add: refuses_def)
  note agree = coherent_rereads_agree [OF walk_walk_shape [OF w [unfolded path_walk_def]] ladders_well_formed(2) this]
  then have "os \<noteq> []" "0 < length os" by simp_all
  with agree e w show ?thesis by blast
qed

text \<open>The re-read of a path-scoped rung asks another question than the walk did.  It is given no
  origin, so it always evaluates every physical interface under \<open>ALL_HEALTHY\<close>.  In this fabric the
  only port on the path has recovered by the time of the re-read and the walk's own evaluation
  would be healthy, but a port off the path is down, so the re-read reports the cause unchanged and
  the epoch coherent.\<close>

theorem reread_ignores_the_path:
  "map_option cr_status (evaluate_rung bgp_interface_rung [''PE2''] ''10.255.0.12''
      (\<lambda>d. Some (path_evidence ''down'' d)) lab_origin) = Some BROKEN \<and>
   map_option cr_status (evaluate_rung bgp_interface_rung [''PE2''] ''10.255.0.12''
      (\<lambda>d. Some (path_evidence ''up'' d)) lab_origin) = Some HEALTHY \<and>
   map_option (map (\<lambda>r. (rr_rung r, rr_after r))) (map_option ch_rereads (path_coherence ''up'')) =
     Some [(''bgp_session'', ''broken''), (''interface'', ''broken'')] \<and>
   map_option coherence_status (path_coherence ''up'') = Some COHERENT"
  by code_simp

end
