(* ===== verification/Health.thy ===== *)
theory Health
  imports Check_Result "HOL-Library.AList"
begin

section \<open>Device health: rules, verdict and fabric roll-up\<close>

text \<open>
  Models the health half of \<open>checks.py\<close>: the severities, the context extracted from a device's
  evidence, the ten rules, \<open>evaluate_device\<close> and \<open>evaluate_fabric\<close>.  The severities are an
  enumeration ordered as \<open>SEVERITY_ORDER\<close> lists them.  A rule returns finding fragments; a
  fragment may override its rule's severity.  The metrics counter \<open>record_verdict\<close> is not modelled.
\<close>

subsection \<open>Severities\<close>

datatype severity = OK | INFO | WARNING | UNREACHABLE | CRITICAL

definition SEVERITY_ORDER :: "severity list" where
  "SEVERITY_ORDER = [OK, INFO, WARNING, UNREACHABLE, CRITICAL]"

fun position :: "'a \<Rightarrow> 'a list \<Rightarrow> nat" where
  "position x [] = 0"
| "position x (y # ys) = (if x = y then 0 else Suc (position x ys))"

definition severity_rank :: "severity \<Rightarrow> nat" where
  "severity_rank s = position s SEVERITY_ORDER"

definition max_severity :: "severity \<Rightarrow> severity \<Rightarrow> severity" where
  "max_severity a b = (if severity_rank b \<le> severity_rank a then a else b)"

definition exit_code_for_severity :: "severity \<Rightarrow> nat" where
  "exit_code_for_severity s =
     (if s = CRITICAL then 2 else if s = WARNING \<or> s = UNREACHABLE then 1 else 0)"

subsection \<open>The context of the rules\<close>

definition HEALTH_INTENTS :: "string list" where
  "HEALTH_INTENTS = [''isis'', ''bgp'', ''interfaces'', ''sr'']"

record expected_counts =
  ex_isis_adjacencies :: "int option"
  ex_bgp_peers :: "int option"

record device =
  dv_name :: string
  dv_role :: string
  dv_platform :: "string option"
  dv_expected :: "expected_counts option"

record rule_context =
  rc_device :: device
  rc_isis_ok :: bool
  rc_isis_records :: "json list"
  rc_bgp_ok :: bool
  rc_bgp_records :: "json list"
  rc_bgp_meta :: dict
  rc_interfaces_ok :: bool
  rc_interface_records :: "json list"
  rc_sr_ok :: bool
  rc_sr_records :: "json list"

datatype uneval_kind = UNEVAL_UNSUPPORTED | UNEVAL_COLLECTION_FAILED | UNEVAL_PARSE_FAILED

definition STATUS_ERROR :: string where "STATUS_ERROR = ''error''"
definition STATUS_UNSUPPORTED :: string where "STATUS_UNSUPPORTED = ''unsupported''"

text \<open>The records, meta and success of one intent; a failed one has neither.\<close>

definition intent_records :: "dict \<Rightarrow> string \<Rightarrow> (json list \<times> dict \<times> bool) option" where
  "intent_records ev intent = do {
     let data = (case dict_get ev intent of JDict sec \<Rightarrow> dict_get_or sec ''data'' (JDict []) | _ \<Rightarrow> JDict []);
     parse_status \<leftarrow> json_get data ''parse_status'';
     if parse_status \<noteq> JStr PARSE_OK then Some ([], [], False)
     else do {
       parsed0 \<leftarrow> json_get data ''parsed'';
       let parsed = py_or parsed0 (JDict []);
       recs \<leftarrow> json_get parsed ''records'';
       records \<leftarrow> iterate (py_or recs (JList []));
       meta0 \<leftarrow> json_get parsed ''meta'';
       meta \<leftarrow> as_dict (py_or meta0 (JDict []));
       Some (records, meta, True)
     }
   }"

definition uneval_reason :: "dict \<Rightarrow> string \<Rightarrow> uneval_kind option option" where
  "uneval_reason ev intent = (case dict_get ev intent of
     JDict sec \<Rightarrow>
       let status = dict_get sec ''status'' in
       if status = JStr STATUS_UNSUPPORTED then Some (Some UNEVAL_UNSUPPORTED)
       else if status = JStr STATUS_ERROR then Some (Some UNEVAL_COLLECTION_FAILED)
       else do {
         parse_status \<leftarrow> json_get (dict_get_or sec ''data'' (JDict [])) ''parse_status'';
         Some (if parse_status = JStr PARSE_OK then None
               else if parse_status = JStr PARSE_UNAVAILABLE then Some UNEVAL_UNSUPPORTED
               else Some UNEVAL_PARSE_FAILED)
       }
   | _ \<Rightarrow> Some (Some UNEVAL_COLLECTION_FAILED))"

definition build_context :: "dict \<Rightarrow> device \<Rightarrow> rule_context option" where
  "build_context ev dev = do {
     (isis, _, isis_ok) \<leftarrow> intent_records ev ''isis'';
     (bgp, bgp_meta, bgp_ok) \<leftarrow> intent_records ev ''bgp'';
     (interfaces, _, interfaces_ok) \<leftarrow> intent_records ev ''interfaces'';
     (sr, _, sr_ok) \<leftarrow> intent_records ev ''sr'';
     Some \<lparr>rc_device = dev, rc_isis_ok = isis_ok, rc_isis_records = isis,
       rc_bgp_ok = bgp_ok, rc_bgp_records = bgp, rc_bgp_meta = bgp_meta,
       rc_interfaces_ok = interfaces_ok, rc_interface_records = interfaces,
       rc_sr_ok = sr_ok, rc_sr_records = sr\<rparr>
   }"

subsection \<open>Rules\<close>

record fragment =
  fg_intent :: "string option"
  fg_severity :: "severity option"
  fg_message :: string
  fg_expected :: json
  fg_actual :: json
  fg_subject :: json

definition fragment_for ::
  "string option \<Rightarrow> string \<Rightarrow> json \<Rightarrow> json \<Rightarrow> json \<Rightarrow> fragment" where
  "fragment_for intent message expected actual subj = \<lparr>fg_intent = intent, fg_severity = None,
     fg_message = message, fg_expected = expected, fg_actual = actual, fg_subject = subj\<rparr>"

text \<open>A list comprehension over records: one fragment for each record the test selects.\<close>

definition fragments_of ::
  "(json \<Rightarrow> bool option) \<Rightarrow> (json \<Rightarrow> fragment option) \<Rightarrow> json list \<Rightarrow> fragment list option" where
  "fragments_of test build records = do { hits \<leftarrow> filter_m test records; map_m build hits }"

type_synonym rule_fn = "rule_context \<Rightarrow> fragment list option"

definition isis_isolated :: rule_fn where
  "isis_isolated ctx =
     (if \<not> rc_isis_ok ctx \<or> rc_isis_records ctx \<noteq> [] then Some []
      else Some [fragment_for (Some ''isis'') ''No IS-IS adjacencies; device is isolated at the IGP layer.''
        (JStr ''>=1'') (JInt 0) JNull])"

definition isis_adjacency_not_up :: rule_fn where
  "isis_adjacency_not_up ctx =
     (if \<not> rc_isis_ok ctx then Some []
      else fragments_of (\<lambda>r. map_option (\<lambda>s. s \<noteq> JStr ''Up'') (json_get r ''state''))
        (\<lambda>r. do {
          system_id \<leftarrow> json_get r ''system_id'';
          state \<leftarrow> json_get r ''state'';
          Some (fragment_for (Some ''isis'')
            (''IS-IS adjacency to '' @ py_str system_id @ '' is '' @ py_str state @ '', not Up.'')
            (JStr ''Up'') state system_id) }) (rc_isis_records ctx))"

definition bgp_session_down :: rule_fn where
  "bgp_session_down ctx =
     (if \<not> rc_bgp_ok ctx then Some []
      else fragments_of (\<lambda>r. map_option (\<lambda>s. s \<noteq> JStr ''Established'') (json_get_or r ''session_state'' (JStr [])))
        (\<lambda>r. do {
          state \<leftarrow> json_get_or r ''session_state'' (JStr []);
          neighbor \<leftarrow> json_get r ''neighbor'';
          Some (fragment_for (Some ''bgp'')
            (''BGP session to '' @ py_str neighbor @ '' is not Established (state: '' @ py_str state @ '').'')
            (JStr ''Established'') state neighbor) }) (rc_bgp_records ctx))"

definition bgp_process_absent :: rule_fn where
  "bgp_process_absent ctx =
     (let role = dv_role (rc_device ctx) in
      if \<not> rc_bgp_ok ctx \<or> role = ''core'' then Some []
      else if dict_get_or (rc_bgp_meta ctx) ''active'' (JBool True) = JBool False
      then Some [fragment_for (Some ''bgp'') (''No active BGP process; role '' @ repr_str role @ '' requires one.'')
        (JStr ''active'') (JStr ''inactive'') JNull]
      else Some [])"

definition bgp_no_prefixes :: rule_fn where
  "bgp_no_prefixes ctx =
     (if \<not> rc_bgp_ok ctx then Some []
      else fragments_of (\<lambda>r. map_option equals_zero (json_get r ''prefixes_received''))
        (\<lambda>r. do {
          neighbor \<leftarrow> json_get r ''neighbor'';
          Some (fragment_for (Some ''bgp'')
            (''BGP peer '' @ py_str neighbor @ '' is Established with 0 prefixes received.'')
            (JStr ''>0'') (JInt 0) neighbor) }) (rc_bgp_records ctx))"

definition interface_admin_up_line_down :: rule_fn where
  "interface_admin_up_line_down ctx =
     (if \<not> rc_interfaces_ok ctx then Some []
      else fragments_of (\<lambda>r. do {
          admin \<leftarrow> json_get r ''admin_state'';
          line \<leftarrow> json_get r ''line_protocol'';
          Some (admin = JStr ''up'' \<and> line \<noteq> JStr ''up'') })
        (\<lambda>r. do {
          name \<leftarrow> json_get r ''interface'';
          line \<leftarrow> json_get r ''line_protocol'';
          Some (fragment_for (Some ''interfaces'')
            (''Interface '' @ py_str name @ '' is admin up but line protocol is '' @ py_str line @ ''.'')
            (JStr ''up'') line name) }) (rc_interface_records ctx))"

definition sr_policy_down :: rule_fn where
  "sr_policy_down ctx =
     (if \<not> rc_sr_ok ctx then Some []
      else fragments_of (\<lambda>r. map_option (\<lambda>s. s \<noteq> JStr ''up'') (json_get r ''operational_state''))
        (\<lambda>r. do {
          policy \<leftarrow> json_get r ''policy'';
          state \<leftarrow> json_get r ''operational_state'';
          Some (fragment_for (Some ''sr'')
            (''SR-TE policy '' @ py_str policy @ '' is not operationally up (state: '' @ py_str state @ '').'')
            (JStr ''up'') state policy) }) (rc_sr_records ctx))"

definition expected_isis :: "device \<Rightarrow> int option" where
  "expected_isis dev = (case dv_expected dev of Some e \<Rightarrow> ex_isis_adjacencies e | None \<Rightarrow> None)"

definition isis_adjacency_count_drift :: rule_fn where
  "isis_adjacency_count_drift ctx =
     (if \<not> rc_isis_ok ctx then Some []
      else case expected_isis (rc_device ctx) of
        None \<Rightarrow> Some []
      | Some expected \<Rightarrow>
          let actual = int (length (rc_isis_records ctx)) in
          if actual = expected then Some []
          else if actual > expected
          then Some [fragment_for (Some ''isis'')
            (''IS-IS adjacency count '' @ show_int actual @ '' is above the recorded baseline '' @
             show_int expected @ ''. More adjacencies than expected is not a fault; the baseline is likely stale. Re-run `nettools learn-topology` against the current fabric.'')
            (JInt expected) (JInt actual) JNull \<lparr>fg_severity := Some INFO\<rparr>]
          else Some [fragment_for (Some ''isis'')
            (''IS-IS adjacency count '' @ show_int actual @ '' is below the recorded baseline '' @
             show_int expected @ ''.'') (JInt expected) (JInt actual) JNull])"

definition bgp_peer_count_drift :: rule_fn where
  "bgp_peer_count_drift ctx =
     (if \<not> rc_bgp_ok ctx then Some []
      else case (case dv_expected (rc_device ctx) of Some e \<Rightarrow> ex_bgp_peers e | None \<Rightarrow> None) of
        None \<Rightarrow> Some []
      | Some expected \<Rightarrow>
          let actual = int (length (rc_bgp_records ctx)) in
          if actual = expected then Some []
          else Some [fragment_for (Some ''bgp'')
            (''BGP peer count '' @ show_int actual @ '' differs from the recorded baseline '' @
             show_int expected @ ''.'') (JInt expected) (JInt actual) JNull])"

definition ROLE_MIN_ISIS_ADJACENCIES :: "(string \<times> int) list" where
  "ROLE_MIN_ISIS_ADJACENCIES = [(''core'', 2), (''edge'', 2), (''route-reflector'', 2)]"

definition suspicious_baseline :: rule_fn where
  "suspicious_baseline ctx = (case expected_isis (rc_device ctx) of
     None \<Rightarrow> Some []
   | Some actual \<Rightarrow>
       let role = dv_role (rc_device ctx);
           floor = (case map_of ROLE_MIN_ISIS_ADJACENCIES role of Some f \<Rightarrow> f | None \<Rightarrow> 1)
       in if floor \<le> actual then Some []
          else Some [fragment_for None
            (''Recorded baseline for '' @ dv_name (rc_device ctx) @ '' (role '' @ repr_str role @
             '') encodes isis_adjacencies='' @ show_int actual @ '', below the minimum of '' @ show_int floor @
             '' this fabric'' @ [CHR 0x27] @ ''s design requires for that role -- a broken state captured at learn-topology time, not a healthy target.'')
            (JStr (''>='' @ show_int floor @ '' (role '' @ repr_str role @ '' invariant)'')) (JInt actual) JNull])"

record rule =
  rl_name :: string
  rl_severity :: severity
  rl_fn :: rule_fn

definition ROLE_INVARIANT_RULES :: "rule list" where
  "ROLE_INVARIANT_RULES = [
     \<lparr>rl_name = ''isis_isolated'', rl_severity = CRITICAL, rl_fn = isis_isolated\<rparr>,
     \<lparr>rl_name = ''isis_adjacency_not_up'', rl_severity = CRITICAL, rl_fn = isis_adjacency_not_up\<rparr>,
     \<lparr>rl_name = ''bgp_session_down'', rl_severity = CRITICAL, rl_fn = bgp_session_down\<rparr>,
     \<lparr>rl_name = ''bgp_process_absent'', rl_severity = WARNING, rl_fn = bgp_process_absent\<rparr>,
     \<lparr>rl_name = ''bgp_no_prefixes'', rl_severity = INFO, rl_fn = bgp_no_prefixes\<rparr>,
     \<lparr>rl_name = ''interface_admin_up_line_down'', rl_severity = WARNING, rl_fn = interface_admin_up_line_down\<rparr>,
     \<lparr>rl_name = ''sr_policy_down'', rl_severity = WARNING, rl_fn = sr_policy_down\<rparr>]"

definition BASELINE_RULES :: "rule list" where
  "BASELINE_RULES = [
     \<lparr>rl_name = ''isis_adjacency_count_drift'', rl_severity = WARNING, rl_fn = isis_adjacency_count_drift\<rparr>,
     \<lparr>rl_name = ''bgp_peer_count_drift'', rl_severity = WARNING, rl_fn = bgp_peer_count_drift\<rparr>]"

definition META_RULES :: "rule list" where
  "META_RULES = [\<lparr>rl_name = ''suspicious_baseline'', rl_severity = WARNING, rl_fn = suspicious_baseline\<rparr>]"

definition ALL_RULES :: "rule list" where
  "ALL_RULES = ROLE_INVARIANT_RULES @ BASELINE_RULES @ META_RULES"

subsection \<open>One device\<close>

record finding =
  hf_rule :: string
  hf_severity :: severity
  hf_intent :: "string option"
  hf_message :: string
  hf_expected :: json
  hf_actual :: json
  hf_subject :: json

definition rule_finding :: "rule \<Rightarrow> fragment \<Rightarrow> finding" where
  "rule_finding rl raw = \<lparr>hf_rule = rl_name rl,
     hf_severity = (case fg_severity raw of Some s \<Rightarrow> s | None \<Rightarrow> rl_severity rl),
     hf_intent = fg_intent raw, hf_message = fg_message raw, hf_expected = fg_expected raw,
     hf_actual = fg_actual raw, hf_subject = fg_subject raw\<rparr>"

definition run_rules :: "rule list \<Rightarrow> rule_context \<Rightarrow> finding list option" where
  "run_rules rules ctx =
     map_option concat (map_m (\<lambda>rl. map_option (map (rule_finding rl)) (rl_fn rl ctx)) rules)"

text \<open>The findings that stand for what could not be read.\<close>

definition device_unreachable_finding :: finding where
  "device_unreachable_finding = \<lparr>hf_rule = ''device_unreachable'', hf_severity = UNREACHABLE, hf_intent = None,
     hf_message = ''no intent could be collected; the device is unreachable or every command failed, so its health is unknown -- not ok'',
     hf_expected = JStr ''at least one intent collected'',
     hf_actual = JStr (''all '' @ show_nat (length HEALTH_INTENTS) @ '' health intents failed''),
     hf_subject = JNull\<rparr>"

definition collection_failed_finding :: "string \<Rightarrow> finding" where
  "collection_failed_finding intent = \<lparr>hf_rule = ''intent_collection_failed'', hf_severity = WARNING,
     hf_intent = Some intent, hf_message = intent @ '' could not be collected, so it was not assessed'',
     hf_expected = JStr ''collected'', hf_actual = JStr ''error'', hf_subject = JNull\<rparr>"

definition unparsed_finding :: "string \<Rightarrow> finding" where
  "unparsed_finding intent = \<lparr>hf_rule = ''intent_unparsed'', hf_severity = WARNING,
     hf_intent = Some intent, hf_message = intent @ '' returned output that could not be parsed, so it was not assessed'',
     hf_expected = JStr ''parseable output'', hf_actual = JStr ''parse failed'', hf_subject = JNull\<rparr>"

definition intents_with :: "(string \<times> uneval_kind option) list \<Rightarrow> uneval_kind \<Rightarrow> string list" where
  "intents_with reasons why = sort (map fst (filter (\<lambda>(_, r). r = Some why) reasons))"

definition unread_findings :: "(string \<times> uneval_kind option) list \<Rightarrow> finding list" where
  "unread_findings reasons =
     (let failed_collection = intents_with reasons UNEVAL_COLLECTION_FAILED
      in (if failed_collection \<noteq> [] \<and> \<not> list_ex (\<lambda>(_, r). r = None) reasons
          then [device_unreachable_finding]
          else map collection_failed_finding failed_collection) @
         map unparsed_finding (intents_with reasons UNEVAL_PARSE_FAILED))"

type_synonym severity_counts = "(severity \<times> nat) list"

text \<open>\<open>if severity in counts: counts[severity] += 1\<close>.\<close>

definition bump :: "severity \<Rightarrow> severity_counts \<Rightarrow> severity_counts" where
  "bump s counts = map (\<lambda>(k, n). (k, if k = s then n + 1 else n)) counts"

fun tally :: "finding list \<Rightarrow> severity \<times> severity_counts \<Rightarrow> severity \<times> severity_counts" where
  "tally [] acc = acc"
| "tally (x # xs) (worst, counts) =
     tally xs (max_severity worst (hf_severity x), bump (hf_severity x) counts)"

record verdict =
  vd_device :: string
  vd_role :: string
  vd_platform :: string
  vd_severity :: severity
  vd_findings :: "finding list"
  vd_counts :: severity_counts
  vd_unevaluated :: "string list"
  vd_unsupported :: "string list"

definition DEFAULT_PLATFORM :: string where
  "DEFAULT_PLATFORM = ''cisco_xr''"

definition platform_of :: "dict \<Rightarrow> device \<Rightarrow> string" where
  "platform_of ev dev =
     py_str (py_or (dict_get ev ''platform'')
       (py_or (case dv_platform dev of Some p \<Rightarrow> JStr p | None \<Rightarrow> JNull) (JStr DEFAULT_PLATFORM)))"

definition evaluate_device :: "dict \<Rightarrow> device \<Rightarrow> verdict option" where
  "evaluate_device ev dev = do {
     ctx \<leftarrow> build_context ev dev;
     findings \<leftarrow> run_rules ALL_RULES ctx;
     reasons \<leftarrow> map_m (\<lambda>i. map_option (\<lambda>r. (i, r)) (uneval_reason ev i)) HEALTH_INTENTS;
     let all = findings @ unread_findings reasons;
     let (worst, counts) = tally all (OK, [(CRITICAL, 0), (UNREACHABLE, 0), (WARNING, 0), (INFO, 0)]);
     Some \<lparr>vd_device = dv_name dev, vd_role = dv_role dev, vd_platform = platform_of ev dev,
       vd_severity = worst, vd_findings = all, vd_counts = counts,
       vd_unevaluated = sort (intents_with reasons UNEVAL_COLLECTION_FAILED @ intents_with reasons UNEVAL_PARSE_FAILED),
       vd_unsupported = intents_with reasons UNEVAL_UNSUPPORTED\<rparr>
   }"

subsection \<open>The fabric\<close>

fun fabric_verdicts ::
  "(string \<times> dict) list \<Rightarrow> device list \<Rightarrow> severity \<Rightarrow> (string \<times> verdict) list \<Rightarrow>
   (severity \<times> (string \<times> verdict) list) option" where
  "fabric_verdicts evidence [] worst verdicts = Some (worst, verdicts)"
| "fabric_verdicts evidence (dev # devs) worst verdicts =
     (case map_of evidence (dv_name dev) of
        None \<Rightarrow> fabric_verdicts evidence devs worst verdicts
      | Some ev \<Rightarrow> do {
          v \<leftarrow> evaluate_device ev dev;
          fabric_verdicts evidence devs (max_severity worst (vd_severity v))
            (AList.update (dv_name dev) v verdicts)
        })"

record fabric_verdict =
  fv_severity :: severity
  fv_device_count :: nat
  fv_by_severity :: severity_counts
  fv_unevaluated_devices :: "string list"
  fv_devices :: "(string \<times> verdict) list"

definition evaluate_fabric :: "(string \<times> dict) list \<Rightarrow> device list \<Rightarrow> fabric_verdict option" where
  "evaluate_fabric evidence devices = do {
     (worst, verdicts) \<leftarrow> fabric_verdicts evidence devices OK [];
     Some \<lparr>fv_severity = worst, fv_device_count = length verdicts,
       fv_by_severity = fold (\<lambda>(_, v). bump (vd_severity v)) verdicts
         [(CRITICAL, 0), (UNREACHABLE, 0), (WARNING, 0), (INFO, 0), (OK, 0)],
       fv_unevaluated_devices = sort (map fst (filter (\<lambda>(_, v). vd_unevaluated v \<noteq> []) verdicts)),
       fv_devices = verdicts\<rparr>
   }"

subsection \<open>Severities are ordered by rank\<close>

lemma severity_rank_simps [simp]:
  "severity_rank OK = 0" "severity_rank INFO = 1" "severity_rank WARNING = 2"
  "severity_rank UNREACHABLE = 3" "severity_rank CRITICAL = 4"
  by (simp_all add: severity_rank_def SEVERITY_ORDER_def)

lemma severity_rank_inj: "severity_rank a = severity_rank b \<Longrightarrow> a = b"
  by (cases a; cases b) simp_all

instantiation severity :: linorder
begin

definition less_eq_severity :: "severity \<Rightarrow> severity \<Rightarrow> bool" where
  "less_eq_severity a b \<longleftrightarrow> severity_rank a \<le> severity_rank b"

definition less_severity :: "severity \<Rightarrow> severity \<Rightarrow> bool" where
  "less_severity a b \<longleftrightarrow> severity_rank a < severity_rank b"

instance
  by standard (auto simp: less_eq_severity_def less_severity_def intro: severity_rank_inj)

end

lemma max_severity_max: "max_severity a b = max a b"
  using severity_rank_inj by (auto simp: max_severity_def max_def less_eq_severity_def)

lemma OK_least [simp]: "OK \<le> s"
  by (simp add: less_eq_severity_def)

lemma tally_fst: "fst (tally xs (worst, counts)) = fold max (map hf_severity xs) worst"
  by (induction xs arbitrary: worst counts) (simp_all add: max_severity_max max.commute)

lemma tally_snd: "snd (tally xs (worst, counts)) = fold bump (map hf_severity xs) counts"
  by (induction xs arbitrary: worst counts) simp_all

lemma fold_bump: "fold bump ss counts = map (\<lambda>(k, n). (k, n + count_list ss k)) counts"
  by (induction ss arbitrary: counts) (auto simp: bump_def)

lemma fold_max_ge: "(w :: severity) \<le> fold max ss w"
  by (induction ss arbitrary: w) (auto intro: order_trans [OF max.cobounded2])

lemma fold_max_in: "fold max ss (w :: severity) \<in> insert w (set ss)"
  by (induction ss arbitrary: w) (auto simp: max_def split: if_splits)

lemma fold_max_upper: "s \<in> set ss \<Longrightarrow> s \<le> fold max ss (w :: severity)"
proof (induction ss arbitrary: w)
  case (Cons a ss)
  show ?case
  proof (cases "s = a")
    case True
    then show ?thesis using fold_max_ge [of "max a w" ss] by (auto intro: order_trans [OF max.cobounded1])
  next
    case False
    with Cons show ?thesis by simp
  qed
qed simp

subsection \<open>Findings of the rules\<close>

lemma run_rules_Nil: "run_rules [] ctx = Some []"
  by (simp add: run_rules_def)

lemma run_rules_Cons:
  "run_rules (rl # rules) ctx = do { raws \<leftarrow> rl_fn rl ctx; fs \<leftarrow> run_rules rules ctx; Some (map (rule_finding rl) raws @ fs) }"
  by (cases "rl_fn rl ctx"; cases "map_m (\<lambda>rl. map_option (map (rule_finding rl)) (rl_fn rl ctx)) rules")
    (simp_all add: run_rules_def)

lemma run_rules_set:
  "run_rules rules ctx = Some fs \<Longrightarrow>
     x \<in> set fs \<longleftrightarrow> (\<exists>rl\<in>set rules. \<exists>raws. rl_fn rl ctx = Some raws \<and> x \<in> rule_finding rl ` set raws)"
proof (induction rules arbitrary: fs)
  case (Cons rl rules)
  then obtain raws gs where "rl_fn rl ctx = Some raws" "run_rules rules ctx = Some gs"
    "fs = map (rule_finding rl) raws @ gs"
    by (auto simp: run_rules_Cons bind_Some_iff)
  with Cons.IH [of gs] show ?case by auto
qed (simp add: run_rules_Nil)

definition unmarked :: "fragment list option \<Rightarrow> bool" where
  "unmarked r \<longleftrightarrow> (case r of Some raws \<Rightarrow> list_all (\<lambda>raw. fg_severity raw = None) raws | None \<Rightarrow> True)"

lemma fragments_of_unmarked:
  "(\<And>r raw. build r = Some raw \<Longrightarrow> fg_severity raw = None) \<Longrightarrow> unmarked (fragments_of test build records)"
  using map_m_all [of build _ _ "\<lambda>raw. fg_severity raw = None"]
  by (auto simp: unmarked_def fragments_of_def bind_Some_iff list_all_iff split: option.splits)

lemma fragments_of_nonempty:
  assumes "fragments_of test build records = Some raws"
  shows "raws \<noteq> [] \<longleftrightarrow> (\<exists>r\<in>set records. test r = Some True)"
proof -
  from assms obtain hits where h: "filter_m test records = Some hits" and m: "map_m build hits = Some raws"
    by (auto simp: fragments_of_def bind_Some_iff)
  from m have "length raws = length hits" by (simp add: map_m_Some_conv list_all2_lengthD)
  moreover from filter_m_Some [OF h] have "hits \<noteq> [] \<longleftrightarrow> (\<exists>r\<in>set records. test r = Some True)"
    by (auto simp: filter_empty_conv)
  ultimately show ?thesis by auto
qed

lemma fragments_of_hits:
  "fragments_of test build records \<noteq> None \<Longrightarrow>
     (\<exists>raws. fragments_of test build records = Some raws \<and> raws \<noteq> []) \<longleftrightarrow> (\<exists>r\<in>set records. test r = Some True)"
  using fragments_of_nonempty by fastforce

lemma default_differs:
  "is_dict r \<Longrightarrow> v \<noteq> w \<Longrightarrow> v \<noteq> JNull \<Longrightarrow>
     map_option (\<lambda>s. s \<noteq> v) (json_get_or r k w) = Some True \<longleftrightarrow> field r k \<noteq> v"
  by (erule is_dictE) (auto simp: dict_get_or_def split: option.splits)

lemma rules_unmarked:
  "unmarked (isis_isolated ctx)" "unmarked (isis_adjacency_not_up ctx)" "unmarked (bgp_session_down ctx)"
  "unmarked (bgp_process_absent ctx)" "unmarked (bgp_no_prefixes ctx)" "unmarked (interface_admin_up_line_down ctx)"
  "unmarked (sr_policy_down ctx)" "unmarked (bgp_peer_count_drift ctx)" "unmarked (suspicious_baseline ctx)"
  unfolding isis_isolated_def isis_adjacency_not_up_def bgp_session_down_def bgp_process_absent_def
    bgp_no_prefixes_def interface_admin_up_line_down_def sr_policy_down_def bgp_peer_count_drift_def suspicious_baseline_def
  by (auto simp: unmarked_def [of "Some _"] fragment_for_def Let_def bind_Some_iff split: option.split
      intro!: fragments_of_unmarked)

lemma drift_marks:
  "isis_adjacency_count_drift ctx = Some raws \<Longrightarrow> raw \<in> set raws \<Longrightarrow> fg_severity raw = None \<or> fg_severity raw = Some INFO"
  by (auto simp: isis_adjacency_count_drift_def fragment_for_def Let_def split: if_splits option.splits)

text \<open>A finding has its rule's severity, but for the drift rule's informational case.\<close>

lemma rule_severity:
  assumes "run_rules ALL_RULES ctx = Some fs" and "x \<in> set fs"
  obtains rl raws raw where "rl \<in> set ALL_RULES" "rl_fn rl ctx = Some raws" "raw \<in> set raws"
    "x = rule_finding rl raw" "hf_severity x = rl_severity rl \<or> hf_severity x = INFO"
proof -
  from run_rules_set [OF assms(1)] assms(2) obtain rl raws raw
    where r: "rl \<in> set ALL_RULES" "rl_fn rl ctx = Some raws" "raw \<in> set raws" "x = rule_finding rl raw" by auto
  have "fg_severity raw = None \<or> fg_severity raw = Some INFO"
  proof (cases "rl_fn rl = isis_adjacency_count_drift")
    case True
    with r(2,3) show ?thesis by (simp add: drift_marks)
  next
    case False
    with r(1) rules_unmarked [of ctx] have "unmarked (rl_fn rl ctx)"
      by (auto simp: ALL_RULES_def ROLE_INVARIANT_RULES_def BASELINE_RULES_def META_RULES_def)
    with r(2,3) show ?thesis by (auto simp: unmarked_def list_all_iff)
  qed
  then have "hf_severity x = rl_severity rl \<or> hf_severity x = INFO"
    by (auto simp: r(4) rule_finding_def)
  with r that show thesis by blast
qed

lemma rule_findings_not_OK: "run_rules ALL_RULES ctx = Some fs \<Longrightarrow> x \<in> set fs \<Longrightarrow> hf_severity x \<noteq> OK"
  by (erule rule_severity, assumption)
    (auto simp: ALL_RULES_def ROLE_INVARIANT_RULES_def BASELINE_RULES_def META_RULES_def)

lemma rule_findings_reachable: "run_rules ALL_RULES ctx = Some fs \<Longrightarrow> x \<in> set fs \<Longrightarrow> hf_severity x \<noteq> UNREACHABLE"
  by (erule rule_severity, assumption)
    (auto simp: ALL_RULES_def ROLE_INVARIANT_RULES_def BASELINE_RULES_def META_RULES_def)

text \<open>What is critical: an isolated router, an adjacency not up, a session not established.\<close>

definition critical_evidence :: "rule_context \<Rightarrow> bool" where
  "critical_evidence ctx \<longleftrightarrow>
     (rc_isis_ok ctx \<and> (rc_isis_records ctx = [] \<or> list_ex (\<lambda>r. field r ''state'' \<noteq> JStr ''Up'') (rc_isis_records ctx))) \<or>
     (rc_bgp_ok ctx \<and> list_ex (\<lambda>r. field r ''session_state'' \<noteq> JStr ''Established'') (rc_bgp_records ctx))"

lemma critical_rules:
  assumes "run_rules ALL_RULES ctx = Some fs" and d: "list_all is_dict (rc_isis_records ctx)" "list_all is_dict (rc_bgp_records ctx)"
  shows "(\<exists>x\<in>set fs. hf_severity x = CRITICAL) \<longleftrightarrow> critical_evidence ctx"
proof -
  let ?R = "{(''isis_isolated'', isis_isolated), (''isis_adjacency_not_up'', isis_adjacency_not_up), (''bgp_session_down'', bgp_session_down)}"
  have total: "rl_fn rl ctx \<noteq> None" if "rl \<in> set ALL_RULES" for rl
  proof -
    have "run_rules rules ctx = Some gs \<Longrightarrow> rl \<in> set rules \<Longrightarrow> rl_fn rl ctx \<noteq> None" for rules gs
      by (induction rules arbitrary: gs) (auto simp: run_rules_Cons bind_Some_iff)
    with assms(1) that show ?thesis by blast
  qed
  have crit: "(\<exists>x\<in>set fs. hf_severity x = CRITICAL) \<longleftrightarrow> (\<exists>(n, g)\<in>?R. \<exists>raws. g ctx = Some raws \<and> raws \<noteq> [])"
  proof
    assume "\<exists>x\<in>set fs. hf_severity x = CRITICAL"
    then obtain x where "x \<in> set fs" and c: "hf_severity x = CRITICAL" by blast
    with assms(1) obtain rl raws raw where r: "rl \<in> set ALL_RULES" "rl_fn rl ctx = Some raws" "raw \<in> set raws"
      "hf_severity x = rl_severity rl \<or> hf_severity x = INFO" by (auto elim: rule_severity)
    with c have "rl_severity rl = CRITICAL" by simp
    with r(1) have "(rl_name rl, rl_fn rl) \<in> ?R"
      by (auto simp: ALL_RULES_def ROLE_INVARIANT_RULES_def BASELINE_RULES_def META_RULES_def)
    with r(2,3) show "\<exists>(n, g)\<in>?R. \<exists>raws. g ctx = Some raws \<and> raws \<noteq> []" by force
  next
    assume "\<exists>(n, g)\<in>?R. \<exists>raws. g ctx = Some raws \<and> raws \<noteq> []"
    then obtain n g raws where g: "(n, g) \<in> ?R" "g ctx = Some raws" "raws \<noteq> []" by blast
    let ?rl = "\<lparr>rl_name = n, rl_severity = CRITICAL, rl_fn = g\<rparr>"
    have "?rl \<in> set ALL_RULES" using g(1) by (auto simp: ALL_RULES_def ROLE_INVARIANT_RULES_def)
    moreover from g(3) obtain raw where raw: "raw \<in> set raws" by (cases raws) auto
    ultimately have "rule_finding ?rl raw \<in> set fs"
      using run_rules_set [OF assms(1), of "rule_finding ?rl raw"] g(2) by (force intro!: bexI [of _ ?rl])
    moreover have "unmarked (g ctx)" using g(1) rules_unmarked [of ctx] by auto
    then have "hf_severity (rule_finding ?rl raw) = CRITICAL"
      using g(2) raw by (simp add: unmarked_def list_all_iff rule_finding_def)
    ultimately show "\<exists>x\<in>set fs. hf_severity x = CRITICAL" by blast
  qed
  have tot3: "isis_isolated ctx \<noteq> None" "isis_adjacency_not_up ctx \<noteq> None" "bgp_session_down ctx \<noteq> None"
    using total [of "\<lparr>rl_name = ''isis_isolated'', rl_severity = CRITICAL, rl_fn = isis_isolated\<rparr>"]
      total [of "\<lparr>rl_name = ''isis_adjacency_not_up'', rl_severity = CRITICAL, rl_fn = isis_adjacency_not_up\<rparr>"]
      total [of "\<lparr>rl_name = ''bgp_session_down'', rl_severity = CRITICAL, rl_fn = bgp_session_down\<rparr>"]
    by (simp_all add: ALL_RULES_def ROLE_INVARIANT_RULES_def)
  have a: "(\<exists>raws. isis_isolated ctx = Some raws \<and> raws \<noteq> []) \<longleftrightarrow> rc_isis_ok ctx \<and> rc_isis_records ctx = []"
    by (auto simp: isis_isolated_def)
  have b: "(\<exists>raws. isis_adjacency_not_up ctx = Some raws \<and> raws \<noteq> []) \<longleftrightarrow>
      rc_isis_ok ctx \<and> list_ex (\<lambda>r. field r ''state'' \<noteq> JStr ''Up'') (rc_isis_records ctx)"
  proof (cases "rc_isis_ok ctx")
    case True
    with tot3(2) fragments_of_hits default_differs [of _ "JStr ''Up''" JNull "''state''"] d(1)
    show ?thesis by (simp add: isis_adjacency_not_up_def list_ex_iff list_all_iff)
  qed (simp add: isis_adjacency_not_up_def)
  have c: "(\<exists>raws. bgp_session_down ctx = Some raws \<and> raws \<noteq> []) \<longleftrightarrow>
      rc_bgp_ok ctx \<and> list_ex (\<lambda>r. field r ''session_state'' \<noteq> JStr ''Established'') (rc_bgp_records ctx)"
  proof (cases "rc_bgp_ok ctx")
    case True
    with tot3(3) fragments_of_hits default_differs [of _ "JStr ''Established''" "JStr []" "''session_state''"] d(2)
    show ?thesis by (simp add: bgp_session_down_def list_ex_iff list_all_iff)
  qed (simp add: bgp_session_down_def)
  show ?thesis unfolding crit critical_evidence_def using a b c by auto
qed

subsection \<open>Well-formed evidence is always judged\<close>

lemma intent_records_wf:
  assumes "wf_evidence ev"
  obtains rs m ok where "intent_records ev intent = Some (rs, m, ok)" "list_all wf_record rs"
proof (cases "dict_get ev intent")
  case (JDict sec)
  with wf_evidence_get [OF assms, of intent] obtain d p where d: "dict_get_or sec ''data'' (JDict []) = JDict d"
    "py_or (dict_get d ''parsed'') (JDict []) = JDict p"
    and r: "\<And>w. dict_get_or p ''records'' w = w \<or> (\<exists>rs. dict_get_or p ''records'' w = JList rs \<and> list_all wf_record rs)"
    and m: "dict_get p ''meta'' = JNull \<or> is_dict (dict_get p ''meta'')"
    by (auto elim!: wf_section_parsed)
  from r [of JNull] have "\<exists>rs. py_or (dict_get p ''records'') (JList []) = JList rs \<and> list_all wf_record rs"
    by (auto simp: py_or_def)
  then obtain rs where rs: "py_or (dict_get p ''records'') (JList []) = JList rs" "list_all wf_record rs" by blast
  from m obtain md where "py_or (dict_get p ''meta'') (JDict []) = JDict md" by (rule py_or_dict) simp_all
  with d rs JDict that show thesis
    by (cases "dict_get d ''parse_status'' = JStr PARSE_OK") (simp_all add: intent_records_def)
qed (use that [of "[]" "[]" False] in \<open>simp_all add: intent_records_def PARSE_OK_def\<close>)

lemma build_context_wf:
  assumes "wf_evidence ev"
  obtains ctx where "build_context ev dev = Some ctx" "rc_device ctx = dev"
    "list_all wf_record (rc_isis_records ctx)" "list_all wf_record (rc_bgp_records ctx)"
    "list_all wf_record (rc_interface_records ctx)" "list_all wf_record (rc_sr_records ctx)"
proof -
  from assms obtain r1 m1 k1 where 1: "intent_records ev ''isis'' = Some (r1, m1, k1)" "list_all wf_record r1"
    by (rule intent_records_wf)
  from assms obtain r2 m2 k2 where 2: "intent_records ev ''bgp'' = Some (r2, m2, k2)" "list_all wf_record r2"
    by (rule intent_records_wf)
  from assms obtain r3 m3 k3 where 3: "intent_records ev ''interfaces'' = Some (r3, m3, k3)" "list_all wf_record r3"
    by (rule intent_records_wf)
  from assms obtain r4 m4 k4 where 4: "intent_records ev ''sr'' = Some (r4, m4, k4)" "list_all wf_record r4"
    by (rule intent_records_wf)
  show thesis by (rule that) (auto simp: build_context_def 1 2 3 4)
qed

lemma fragments_of_total:
  assumes "list_all wf_record records"
    and "\<And>d. test (JDict d) \<noteq> None" and "\<And>d. build (JDict d) \<noteq> None"
  shows "fragments_of test build records \<noteq> None"
proof -
  have d: "r \<in> set records \<Longrightarrow> \<exists>d. r = JDict d" for r using assms(1) by (auto simp: list_all_iff elim: wf_recordE)
  then obtain hits where h: "filter_m test records = Some hits"
    using filter_m_total [of records test] assms(2) by blast
  with filter_m_Some [OF h] d have "\<And>r. r \<in> set hits \<Longrightarrow> \<exists>d. r = JDict d" by auto
  then have "map_m build hits \<noteq> None" using map_m_total [of hits build] assms(3) by blast
  with h show ?thesis by (simp add: fragments_of_def)
qed

lemma guarded_total: "x \<noteq> None \<Longrightarrow> (if \<not> ok then Some [] else x) \<noteq> None"
  by simp

lemma rules_total:
  assumes "list_all wf_record (rc_isis_records ctx)" "list_all wf_record (rc_bgp_records ctx)"
    "list_all wf_record (rc_interface_records ctx)" "list_all wf_record (rc_sr_records ctx)"
  shows "run_rules ALL_RULES ctx \<noteq> None"
proof -
  have "isis_isolated ctx \<noteq> None" "bgp_process_absent ctx \<noteq> None" "isis_adjacency_count_drift ctx \<noteq> None"
    "bgp_peer_count_drift ctx \<noteq> None" "suspicious_baseline ctx \<noteq> None"
    by (simp_all add: isis_isolated_def bgp_process_absent_def isis_adjacency_count_drift_def
        bgp_peer_count_drift_def suspicious_baseline_def Let_def split: option.split)
  moreover have "isis_adjacency_not_up ctx \<noteq> None"
    unfolding isis_adjacency_not_up_def by (rule guarded_total, rule fragments_of_total [OF assms(1)]; simp)
  moreover have "bgp_session_down ctx \<noteq> None"
    unfolding bgp_session_down_def by (rule guarded_total, rule fragments_of_total [OF assms(2)]; simp)
  moreover have "bgp_no_prefixes ctx \<noteq> None"
    unfolding bgp_no_prefixes_def by (rule guarded_total, rule fragments_of_total [OF assms(2)]; simp)
  moreover have "interface_admin_up_line_down ctx \<noteq> None"
    unfolding interface_admin_up_line_down_def by (rule guarded_total, rule fragments_of_total [OF assms(3)]; simp)
  moreover have "sr_policy_down ctx \<noteq> None"
    unfolding sr_policy_down_def by (rule guarded_total, rule fragments_of_total [OF assms(4)]; simp)
  ultimately show ?thesis
    by (auto simp: run_rules_Cons run_rules_Nil ALL_RULES_def ROLE_INVARIANT_RULES_def BASELINE_RULES_def META_RULES_def)
qed

lemma uneval_reason_total: "wf_evidence ev \<Longrightarrow> uneval_reason ev intent \<noteq> None"
  using wf_evidence_get [of ev intent]
  by (auto simp: uneval_reason_def Let_def split: json.splits elim!: wf_sectionE)

lemma evaluate_device_total:
  assumes "wf_evidence ev" shows "evaluate_device ev dev \<noteq> None"
proof -
  from assms obtain ctx where c: "build_context ev dev = Some ctx"
    "list_all wf_record (rc_isis_records ctx)" "list_all wf_record (rc_bgp_records ctx)"
    "list_all wf_record (rc_interface_records ctx)" "list_all wf_record (rc_sr_records ctx)"
    by (rule build_context_wf) blast
  obtain fs where f: "run_rules ALL_RULES ctx = Some fs" using rules_total [OF c(2-5)] by blast
  have "map_m (\<lambda>i. map_option (\<lambda>r. (i, r)) (uneval_reason ev i)) HEALTH_INTENTS \<noteq> None"
    using uneval_reason_total [OF assms] by (intro map_m_total) simp
  then obtain rs where "map_m (\<lambda>i. map_option (\<lambda>r. (i, r)) (uneval_reason ev i)) HEALTH_INTENTS = Some rs" by blast
  with c(1) f show ?thesis by (simp add: evaluate_device_def Let_def case_prod_beta)
qed

subsection \<open>The verdict of a device\<close>

lemma evaluate_device_parts:
  assumes "evaluate_device ev dev = Some v"
  obtains ctx fs reasons where "build_context ev dev = Some ctx" "run_rules ALL_RULES ctx = Some fs"
    "map_m (\<lambda>i. map_option (\<lambda>r. (i, r)) (uneval_reason ev i)) HEALTH_INTENTS = Some reasons"
    "vd_findings v = fs @ unread_findings reasons"
    "vd_severity v = fold max (map hf_severity (vd_findings v)) OK"
    "vd_counts v = map (\<lambda>s. (s, count_list (map hf_severity (vd_findings v)) s)) [CRITICAL, UNREACHABLE, WARNING, INFO]"
    "vd_unevaluated v = sort (intents_with reasons UNEVAL_COLLECTION_FAILED @ intents_with reasons UNEVAL_PARSE_FAILED)"
    "vd_device v = dv_name dev"
proof -
  from assms obtain ctx fs reasons where p: "build_context ev dev = Some ctx" "run_rules ALL_RULES ctx = Some fs"
    "map_m (\<lambda>i. map_option (\<lambda>r. (i, r)) (uneval_reason ev i)) HEALTH_INTENTS = Some reasons"
    by (auto simp: evaluate_device_def bind_Some_iff)
  let ?all = "fs @ unread_findings reasons"
  let ?c0 = "[(CRITICAL, 0), (UNREACHABLE, 0), (WARNING, 0), (INFO, 0)]"
  have v: "vd_findings v = ?all" "vd_severity v = fst (tally ?all (OK, ?c0))" "vd_counts v = snd (tally ?all (OK, ?c0))"
    "vd_unevaluated v = sort (intents_with reasons UNEVAL_COLLECTION_FAILED @ intents_with reasons UNEVAL_PARSE_FAILED)"
    "vd_device v = dv_name dev"
    using assms unfolding evaluate_device_def p bind.bind_lunit Let_def case_prod_beta by auto
  show thesis
    by (rule that [OF p v(1) _ _ v(4,5)]) (simp_all only: v tally_fst tally_snd fold_bump list.map prod.case add_0)
qed

lemma reasons_lookup:
  assumes "map_m (\<lambda>i. map_option (\<lambda>r. (i, r)) (uneval_reason ev i)) HEALTH_INTENTS = Some reasons"
  shows "set reasons = {(i, r). i \<in> set HEALTH_INTENTS \<and> uneval_reason ev i = Some r}"
proof -
  have "map_m (\<lambda>i. map_option (\<lambda>r. (i, r)) (uneval_reason ev i)) xs = Some ys \<Longrightarrow>
      set ys = {(i, r). i \<in> set xs \<and> uneval_reason ev i = Some r}" for xs ys
    by (induction xs arbitrary: ys) (auto simp: bind_Some_iff)
  from this [OF assms] show ?thesis .
qed

lemma set_intents_with: "set (intents_with reasons why) = {i. (i, Some why) \<in> set reasons}"
  by (force simp: intents_with_def)

lemma unread_findings_severities:
  "x \<in> set (unread_findings reasons) \<Longrightarrow> hf_severity x = WARNING \<or> hf_severity x = UNREACHABLE"
  by (auto simp: unread_findings_def Let_def device_unreachable_finding_def collection_failed_finding_def
      unparsed_finding_def split: if_splits)

lemma unread_findings_warn:
  assumes "(i, Some why) \<in> set reasons" and "why \<noteq> UNEVAL_UNSUPPORTED"
  shows "\<exists>x\<in>set (unread_findings reasons). WARNING \<le> hf_severity x"
proof (cases why)
  case UNEVAL_COLLECTION_FAILED
  with assms(1) have "i \<in> set (intents_with reasons UNEVAL_COLLECTION_FAILED)" by (simp add: set_intents_with)
  then have "device_unreachable_finding \<in> set (unread_findings reasons) \<or>
      collection_failed_finding i \<in> set (unread_findings reasons)"
    by (auto simp: unread_findings_def Let_def)
  moreover have "WARNING \<le> hf_severity device_unreachable_finding" "WARNING \<le> hf_severity (collection_failed_finding i)"
    by (simp_all add: device_unreachable_finding_def collection_failed_finding_def less_eq_severity_def)
  ultimately show ?thesis by blast
next
  case UNEVAL_PARSE_FAILED
  with assms(1) have "i \<in> set (intents_with reasons UNEVAL_PARSE_FAILED)" by (simp add: set_intents_with)
  then have "unparsed_finding i \<in> set (unread_findings reasons)" by (simp add: unread_findings_def Let_def)
  moreover have "WARNING \<le> hf_severity (unparsed_finding i)" by (simp add: unparsed_finding_def less_eq_severity_def)
  ultimately show ?thesis by blast
qed (use assms(2) in simp)

lemma fold_max_critical:
  "fold max ss OK = CRITICAL \<longleftrightarrow> CRITICAL \<in> set ss"
proof
  assume "CRITICAL \<in> set ss"
  then have "CRITICAL \<le> fold max ss OK" by (rule fold_max_upper)
  then show "fold max ss OK = CRITICAL" by (cases "fold max ss OK") (simp_all add: less_eq_severity_def)
qed (use fold_max_in [of ss OK] in auto)

lemma exit_code_0: "exit_code_for_severity s = 0 \<longleftrightarrow> s \<le> INFO"
  by (cases s) (simp_all add: exit_code_for_severity_def less_eq_severity_def)

lemma count_list_sum:
  "(\<And>x. x \<in> set xs \<Longrightarrow> x \<in> {CRITICAL, UNREACHABLE, WARNING, INFO}) \<Longrightarrow>
     sum_list (map snd (map (\<lambda>s. (s, count_list xs s)) [CRITICAL, UNREACHABLE, WARNING, INFO])) = length xs"
proof (induction xs)
  case (Cons a xs)
  then have "a \<in> {CRITICAL, UNREACHABLE, WARNING, INFO}" by simp
  with Cons show ?case by auto
qed simp

subsection \<open>The roll-up of a fabric\<close>

lemma fabric_verdicts_inv:
  assumes "fabric_verdicts evidence devs w0 vs0 = Some (w, vs)"
    and "\<forall>(n, v)\<in>set vs0. vd_severity v \<le> w0" and "distinct (map fst vs0)"
  shows "(\<forall>(n, v)\<in>set vs. vd_severity v \<le> w) \<and> distinct (map fst vs) \<and> w0 \<le> w \<and>
    fst ` set vs = fst ` set vs0 \<union> (dv_name ` set devs \<inter> dom (map_of evidence))"
  using assms
proof (induction devs arbitrary: w0 vs0)
  case (Cons dev devs)
  show ?case
  proof (cases "map_of evidence (dv_name dev)")
    case None
    with Cons show ?thesis by (auto simp: domIff)
  next
    case (Some ev)
    with Cons.prems(1) obtain v where v: "evaluate_device ev dev = Some v"
      and rest: "fabric_verdicts evidence devs (max w0 (vd_severity v)) (AList.update (dv_name dev) v vs0) = Some (w, vs)"
      by (auto simp: bind_Some_iff max_severity_max)
    have "\<forall>(n, u)\<in>set (AList.update (dv_name dev) v vs0). vd_severity u \<le> max w0 (vd_severity v)"
    proof clarify
      fix n u assume "(n, u) \<in> set (AList.update (dv_name dev) v vs0)"
      then have "u = v \<or> (n, u) \<in> set vs0" by (induction vs0) (auto split: if_splits)
      then show "vd_severity u \<le> max w0 (vd_severity v)" using Cons.prems(2) by (auto intro: max.coboundedI1)
    qed
    from Cons.IH [OF rest this distinct_update [OF Cons.prems(3)]] Some show ?thesis
      by (auto simp: dom_update intro: order_trans [OF max.cobounded1])
  qed
qed auto

subsection \<open>Properties\<close>

text \<open>C11: Silence is never health: a device verdict whose exit code is 0 has, for each of the four health
  intents, either read and parsed it or found the platform has no such command; a collection or a
  parse that failed always raises the verdict to at least a warning.\<close>

theorem silence_is_never_health:
  assumes "evaluate_device ev dev = Some v"
  shows "(exit_code_for_severity (vd_severity v) = 0 \<longrightarrow>
      (\<forall>i\<in>set HEALTH_INTENTS. uneval_reason ev i \<in> {Some None, Some (Some UNEVAL_UNSUPPORTED)})) \<and>
    (vd_unevaluated v \<noteq> [] \<longrightarrow> WARNING \<le> vd_severity v)"
proof -
  from assms obtain ctx fs reasons where
    r: "map_m (\<lambda>i. map_option (\<lambda>r. (i, r)) (uneval_reason ev i)) HEALTH_INTENTS = Some reasons"
    and f: "vd_findings v = fs @ unread_findings reasons"
    and s: "vd_severity v = fold max (map hf_severity (vd_findings v)) OK"
    and u: "vd_unevaluated v = sort (intents_with reasons UNEVAL_COLLECTION_FAILED @ intents_with reasons UNEVAL_PARSE_FAILED)"
    by (rule evaluate_device_parts)
  note look = reasons_lookup [OF r]
  have warn: "WARNING \<le> vd_severity v" if "(i, Some why) \<in> set reasons" "why \<noteq> UNEVAL_UNSUPPORTED" for i why
  proof -
    from unread_findings_warn [OF that] obtain x where x: "x \<in> set (unread_findings reasons)" "WARNING \<le> hf_severity x" by blast
    then have "hf_severity x \<le> vd_severity v" unfolding s by (intro fold_max_upper) (simp add: f)
    with x(2) show ?thesis by (rule order_trans)
  qed
  have "uneval_reason ev i \<in> {Some None, Some (Some UNEVAL_UNSUPPORTED)}"
    if "exit_code_for_severity (vd_severity v) = 0" "i \<in> set HEALTH_INTENTS" for i
  proof -
    have "map_m (\<lambda>i. map_option (\<lambda>r. (i, r)) (uneval_reason ev i)) xs = Some ys \<Longrightarrow> i \<in> set xs \<Longrightarrow>
        \<exists>x. uneval_reason ev i = Some x" for xs ys
      by (induction xs arbitrary: ys) (auto simp: bind_Some_iff)
    with r that(2) obtain x where x: "uneval_reason ev i = Some x" by blast
    show ?thesis
    proof (cases x)
      case (Some why)
      have "why = UNEVAL_UNSUPPORTED"
      proof (rule ccontr)
        assume "why \<noteq> UNEVAL_UNSUPPORTED"
        then have "WARNING \<le> vd_severity v" using x Some that(2) by (intro warn [of i why]) (simp_all add: look)
        with that(1) show False by (auto simp: exit_code_0 less_eq_severity_def)
      qed
      with x Some show ?thesis by simp
    qed (use x in simp)
  qed
  moreover have "WARNING \<le> vd_severity v" if "vd_unevaluated v \<noteq> []"
  proof -
    from that u have "set (intents_with reasons UNEVAL_COLLECTION_FAILED) \<union> set (intents_with reasons UNEVAL_PARSE_FAILED) \<noteq> {}"
      by (metis set_append set_empty set_sort)
    then obtain i why where "(i, Some why) \<in> set reasons" "why \<noteq> UNEVAL_UNSUPPORTED"
      unfolding set_intents_with by blast
    then show ?thesis by (rule warn)
  qed
  ultimately show ?thesis by blast
qed

definition health_device :: device where
  "health_device = \<lparr>dv_name = ''PE2'', dv_role = ''edge'', dv_platform = None,
     dv_expected = Some \<lparr>ex_isis_adjacencies = Some 2, ex_bgp_peers = Some 1\<rparr>\<rparr>"

definition health_example :: dict where
  "health_example = [(''isis'', parsed_section [JDict [(''system_id'', JStr ''P1''), (''state'', JStr ''Init'')]] []),
     (''bgp'', parsed_section [JDict [(''neighbor'', JStr ''10.255.0.1''), (''session_state'', JStr ''Established''),
        (''prefixes_received'', JInt 0)]] [])]"

lemma health_example_wf: "wf_evidence health_example"
  by code_simp

theorem silence_witness:
  "\<exists>v. evaluate_device [] health_device = Some v \<and> WARNING \<le> vd_severity v"
proof -
  have "wf_evidence []" by code_simp
  then obtain v where v: "evaluate_device [] health_device = Some v"
    using evaluate_device_total [of "[]" health_device] by blast
  have "(case evaluate_device [] health_device of Some v \<Rightarrow> vd_unevaluated v \<noteq> [] | None \<Rightarrow> False)" by code_simp
  with v silence_is_never_health [OF v] show ?thesis by auto
qed

text \<open>A device verdict's severity is the worst of its findings, ok exactly when it has none, and its
  four counters count every finding once.\<close>

theorem verdict_severity_and_counts:
  assumes "evaluate_device ev dev = Some v"
  shows "vd_severity v = Max (insert OK (hf_severity ` set (vd_findings v))) \<and>
    (vd_severity v = OK \<longleftrightarrow> vd_findings v = []) \<and>
    sum_list (map snd (vd_counts v)) = length (vd_findings v)"
proof -
  from assms obtain ctx fs reasons where run: "run_rules ALL_RULES ctx = Some fs"
    and f: "vd_findings v = fs @ unread_findings reasons"
    and s: "vd_severity v = fold max (map hf_severity (vd_findings v)) OK"
    and c: "vd_counts v = map (\<lambda>s. (s, count_list (map hf_severity (vd_findings v)) s)) [CRITICAL, UNREACHABLE, WARNING, INFO]"
    by (rule evaluate_device_parts)
  have no: "hf_severity x \<noteq> OK" if "x \<in> set (vd_findings v)" for x
    using that rule_findings_not_OK [OF run] unread_findings_severities [of x reasons] by (auto simp: f)
  have five: "y \<noteq> OK \<Longrightarrow> y \<in> {CRITICAL, UNREACHABLE, WARNING, INFO}" for y by (cases y) simp_all
  have "x \<in> {CRITICAL, UNREACHABLE, WARNING, INFO}" if "x \<in> set (map hf_severity (vd_findings v))" for x
    using that no by (intro five) auto
  then have "sum_list (map snd (vd_counts v)) = length (map hf_severity (vd_findings v))"
    unfolding c by (rule count_list_sum)
  then have "sum_list (map snd (vd_counts v)) = length (vd_findings v)" by simp
  moreover have "vd_severity v = Max (insert OK (hf_severity ` set (vd_findings v)))"
  proof (rule sym, rule Max_eqI)
    show "vd_severity v \<in> insert OK (hf_severity ` set (vd_findings v))"
      unfolding s using fold_max_in [of "map hf_severity (vd_findings v)" OK] by simp
    show "y \<le> vd_severity v" if "y \<in> insert OK (hf_severity ` set (vd_findings v))" for y
      using that fold_max_upper [of y "map hf_severity (vd_findings v)" OK] by (auto simp: s)
  qed simp
  moreover have "vd_severity v = OK \<longleftrightarrow> vd_findings v = []"
  proof
    assume ok: "vd_severity v = OK"
    show "vd_findings v = []"
    proof (rule ccontr)
      assume "vd_findings v \<noteq> []"
      then obtain x where x: "x \<in> set (vd_findings v)" by (cases "vd_findings v") auto
      then have "hf_severity x \<le> OK"
        using fold_max_upper [of "hf_severity x" "map hf_severity (vd_findings v)" OK] ok by (simp add: s)
      with no [OF x] show False by (cases "hf_severity x") (simp_all add: less_eq_severity_def)
    qed
  qed (simp add: s)
  ultimately show ?thesis by blast
qed

theorem verdict_severity_witness:
  "\<exists>v. evaluate_device health_example health_device = Some v \<and> vd_severity v = CRITICAL \<and>
     sum_list (map snd (vd_counts v)) = length (vd_findings v)"
proof -
  obtain v where v: "evaluate_device health_example health_device = Some v"
    using evaluate_device_total [OF health_example_wf] by blast
  have "map_option vd_severity (evaluate_device health_example health_device) = Some CRITICAL" by code_simp
  with v verdict_severity_and_counts [OF v] show ?thesis by auto
qed

text \<open>On well-formed evidence every device gets a verdict, and it is critical exactly when IS-IS was read and
  shows no adjacency or one that is not Up, or BGP was read and shows a session not Established.\<close>

theorem critical_iff_evidence:
  assumes "wf_evidence ev"
  shows "\<exists>ctx v. build_context ev dev = Some ctx \<and> evaluate_device ev dev = Some v \<and>
    (vd_severity v = CRITICAL \<longleftrightarrow> critical_evidence ctx)"
proof -
  obtain v where v: "evaluate_device ev dev = Some v" using evaluate_device_total [OF assms] by blast
  then obtain ctx fs reasons where ctx: "build_context ev dev = Some ctx" and run: "run_rules ALL_RULES ctx = Some fs"
    and f: "vd_findings v = fs @ unread_findings reasons"
    and s: "vd_severity v = fold max (map hf_severity (vd_findings v)) OK"
    by (rule evaluate_device_parts)
  from assms obtain ctx' where "build_context ev dev = Some ctx'"
    "list_all wf_record (rc_isis_records ctx')" "list_all wf_record (rc_bgp_records ctx')"
    by (rule build_context_wf) blast
  with ctx have d: "list_all is_dict (rc_isis_records ctx)" "list_all is_dict (rc_bgp_records ctx)"
    by (simp_all add: wf_records_dicts)
  have "vd_severity v = CRITICAL \<longleftrightarrow> CRITICAL \<in> hf_severity ` set (vd_findings v)"
    unfolding s fold_max_critical by simp
  also have "\<dots> \<longleftrightarrow> (\<exists>x\<in>set fs. hf_severity x = CRITICAL)"
    using unread_findings_severities [of _ reasons] by (force simp: f)
  also have "\<dots> \<longleftrightarrow> critical_evidence ctx" by (rule critical_rules [OF run d])
  finally show ?thesis using ctx v by blast
qed

theorem critical_iff_witness:
  "\<exists>v. evaluate_device health_example health_device = Some v \<and> vd_severity v = CRITICAL"
proof -
  have "map_option critical_evidence (build_context health_example health_device) = Some True" by code_simp
  with critical_iff_evidence [OF health_example_wf, of health_device] show ?thesis by auto
qed

text \<open>The fabric's severity is an upper bound of its devices' severities, the verdicts are those of exactly the
  inventory devices that have evidence, one each, and the per-severity counters add up to them.\<close>

theorem fabric_rollup:
  assumes "evaluate_fabric evidence devices = Some fv"
  shows "(\<forall>(n, v)\<in>set (fv_devices fv). vd_severity v \<le> fv_severity fv) \<and> distinct (map fst (fv_devices fv)) \<and>
    fst ` set (fv_devices fv) = dv_name ` set devices \<inter> dom (map_of evidence) \<and>
    sum_list (map snd (fv_by_severity fv)) = length (fv_devices fv)"
proof -
  from assms obtain w vs where v: "fabric_verdicts evidence devices OK [] = Some (w, vs)"
    and fv: "fv_severity fv = w" "fv_devices fv = vs"
      "fv_by_severity fv = fold (\<lambda>(_, v). bump (vd_severity v)) vs [(CRITICAL, 0), (UNREACHABLE, 0), (WARNING, 0), (INFO, 0), (OK, 0)]"
    by (auto simp: evaluate_fabric_def bind_Some_iff)
  from fabric_verdicts_inv [OF v] have inv: "(\<forall>(n, v)\<in>set vs. vd_severity v \<le> w) \<and> distinct (map fst vs) \<and>
    fst ` set vs = dv_name ` set devices \<inter> dom (map_of evidence)" by simp
  have "fold (\<lambda>(_, v). bump (vd_severity v)) xs c = fold bump (map (vd_severity \<circ> snd) xs) c" for xs :: "(string \<times> verdict) list" and c
    by (induction xs arbitrary: c) auto
  then have "fv_by_severity fv = map (\<lambda>s. (s, count_list (map (vd_severity \<circ> snd) vs) s)) [CRITICAL, UNREACHABLE, WARNING, INFO, OK]"
    by (simp add: fv(3) fold_bump)
  moreover have "count_list ss CRITICAL + (count_list ss UNREACHABLE + (count_list ss WARNING + (count_list ss INFO + count_list ss OK))) = length ss"
    for ss
  proof (induction ss)
    case (Cons a ss)
    then show ?case by (cases a) auto
  qed simp
  ultimately have "sum_list (map snd (fv_by_severity fv)) = length (fv_devices fv)" by (simp add: fv(2))
  with inv show ?thesis by (simp add: fv)
qed

theorem fabric_rollup_witness:
  "\<exists>fv. evaluate_fabric [(''PE2'', health_example)] [health_device] = Some fv \<and> fst ` set (fv_devices fv) = {''PE2''}"
proof -
  have "fabric_verdicts [(''PE2'', health_example)] [health_device] OK [] \<noteq> None"
    using evaluate_device_total [OF health_example_wf, of health_device] by (auto simp: health_device_def)
  then obtain fv where "evaluate_fabric [(''PE2'', health_example)] [health_device] = Some fv"
    by (auto simp: evaluate_fabric_def case_prod_beta)
  with fabric_rollup [OF this] show ?thesis by (auto simp: health_device_def)
qed

end
