(* ===== verification/Silences.thy ===== *)
theory Silences
  imports Health
begin

section \<open>Maintenance windows\<close>

text \<open>
  Models the silences of \<open>health.py\<close>: how the entries of a silence file become windows, when a declared
  window covers a finding, which one speaks for it, and what it does to a device verdict and to the
  fabric roll-up.  Opening the file and \<open>yaml.safe_load\<close> are not modelled: the functions take the
  value they give, with a YAML timestamp as its text.  Times are instants; \<open>datetime.fromisoformat\<close> is
  the argument \<open>fromiso\<close>, an instant and whether the text has a time zone, \<open>None\<close> when it raises.
\<close>

subsection \<open>Windows\<close>

record silence =
  sl_id :: string
  sl_reason :: string
  sl_created_by :: string
  sl_expires_at :: int
  sl_device :: "string option"
  sl_rule :: "string option"
  sl_subject :: "string option"
  sl_starts_at :: "int option"

text \<open>The field is left open, or is exactly the value asked about.\<close>

definition pins :: "string option \<Rightarrow> json \<Rightarrow> bool" where
  "pins want v \<longleftrightarrow> (case want of None \<Rightarrow> True | Some s \<Rightarrow> v = JStr s)"

definition matches :: "silence \<Rightarrow> string \<Rightarrow> json \<Rightarrow> json \<Rightarrow> int \<Rightarrow> bool" where
  "matches s device rule subj now =
     (if now \<ge> sl_expires_at s then False
      else if (case sl_starts_at s of Some t \<Rightarrow> now < t | None \<Rightarrow> False) then False
      else if \<not> pins (sl_device s) (JStr device) then False
      else if \<not> pins (sl_rule s) rule then False
      else if \<not> pins (sl_subject s) subj then False
      else True)"

definition specificity :: "silence \<Rightarrow> nat" where
  "specificity s = length (filter (\<lambda>f. f \<noteq> None) [sl_device s, sl_rule s, sl_subject s])"

text \<open>Python's \<open>max\<close> with a key: the first of the greatest.\<close>

definition max_by :: "('a \<Rightarrow> nat) \<Rightarrow> 'a list \<Rightarrow> 'a option" where
  "max_by f xs = (case xs of [] \<Rightarrow> None | x # ys \<Rightarrow> Some (fold (\<lambda>y m. if f m < f y then y else m) ys x))"

definition find_silence :: "silence list \<Rightarrow> string \<Rightarrow> json \<Rightarrow> json \<Rightarrow> int \<Rightarrow> silence option" where
  "find_silence silences device rule subj now =
     max_by specificity (filter (\<lambda>s. matches s device rule subj now) silences)"

subsection \<open>Reading the file\<close>

datatype silence_error =
    NotAList | NotAMapping | NoReason | NoCreator | NoExpiry | NotATimestamp | NotText | NaiveTime
  | EmptyWindow | BadPin | DuplicateId

definition parse_timestamp :: "(string \<Rightarrow> (int \<times> bool) option) \<Rightarrow> json \<Rightarrow> silence_error + int" where
  "parse_timestamp fromiso v = (case v of
     JStr s \<Rightarrow>
       let t = py_strip s; text = (if t \<noteq> [] \<and> last t = CHR ''Z'' then butlast t @ ''+00:00'' else t)
       in (case fromiso text of
             None \<Rightarrow> Inl NotATimestamp
           | Some (parsed, zoned) \<Rightarrow> if zoned then Inr parsed else Inl NaiveTime)
   | _ \<Rightarrow> Inl NotText)"

text \<open>A value that is a text with a character that is no white space.\<close>

definition has_text :: "json \<Rightarrow> bool" where
  "has_text v \<longleftrightarrow> (case v of JStr s \<Rightarrow> py_strip s \<noteq> [] | _ \<Rightarrow> False)"

definition text_of :: "json \<Rightarrow> string option" where
  "text_of v = (case v of JStr s \<Rightarrow> Some s | _ \<Rightarrow> None)"

definition silence_id :: "nat \<Rightarrow> dict \<Rightarrow> string" where
  "silence_id index entry = (case dict_get entry ''id'' of
     JNull \<Rightarrow> ''silence-'' @ show_nat index @ ''-'' @ py_str (py_or (dict_get entry ''device'') (JStr ''any'')) @ ''-'' @
       py_str (py_or (dict_get entry ''rule'') (JStr ''any''))
   | v \<Rightarrow> py_str v)"

text \<open>One turn of the loop: the entry at \<open>index\<close>, with the ids seen so far.\<close>

definition parse_entry ::
  "(string \<Rightarrow> (int \<times> bool) option) \<Rightarrow> nat \<Rightarrow> string list \<Rightarrow> json \<Rightarrow> silence_error + silence" where
  "parse_entry fromiso index seen v = (case v of
     JDict entry \<Rightarrow>
       if \<not> has_text (dict_get entry ''reason'') then Inl NoReason
       else if \<not> has_text (dict_get entry ''created_by'') then Inl NoCreator
       else if ''expires_at'' \<notin> fst ` set entry then Inl NoExpiry
       else (case parse_timestamp fromiso (dict_get entry ''expires_at'') of
         Inl e \<Rightarrow> Inl e
       | Inr expires_at \<Rightarrow>
           (case (if dict_get entry ''starts_at'' \<noteq> JNull
                  then map_sum id Some (parse_timestamp fromiso (dict_get entry ''starts_at'')) else Inr None) of
              Inl e \<Rightarrow> Inl e
            | Inr starts_at \<Rightarrow>
                if (case starts_at of Some t \<Rightarrow> t \<ge> expires_at | None \<Rightarrow> False) then Inl EmptyWindow
                else if list_ex (\<lambda>k. dict_get entry k \<noteq> JNull \<and> \<not> is_string (dict_get entry k)) [''device'', ''rule'', ''subject'']
                  then Inl BadPin
                else if silence_id index entry \<in> set seen then Inl DuplicateId
                else Inr \<lparr>sl_id = silence_id index entry,
                  sl_reason = py_strip (py_str (dict_get entry ''reason'')),
                  sl_created_by = py_strip (py_str (dict_get entry ''created_by'')),
                  sl_expires_at = expires_at, sl_device = text_of (dict_get entry ''device''),
                  sl_rule = text_of (dict_get entry ''rule''), sl_subject = text_of (dict_get entry ''subject''),
                  sl_starts_at = starts_at\<rparr>))
   | _ \<Rightarrow> Inl NotAMapping)"

fun parse_entries ::
  "(string \<Rightarrow> (int \<times> bool) option) \<Rightarrow> nat \<Rightarrow> string list \<Rightarrow> json list \<Rightarrow> silence_error + silence list" where
  "parse_entries fromiso index seen [] = Inr []"
| "parse_entries fromiso index seen (v # vs) = (case parse_entry fromiso index seen v of
     Inl e \<Rightarrow> Inl e
   | Inr s \<Rightarrow> map_sum id ((#) s) (parse_entries fromiso (index + 1) (sl_id s # seen) vs))"

definition parse_silences :: "(string \<Rightarrow> (int \<times> bool) option) \<Rightarrow> json \<Rightarrow> silence_error + silence list" where
  "parse_silences fromiso data = (case data of JList vs \<Rightarrow> parse_entries fromiso 0 [] vs | _ \<Rightarrow> Inl NotAList)"

text \<open>\<open>load_silences\<close> on what reading the file gives: \<open>None\<close> when there is no path or no such file.\<close>

definition load_silences :: "(string \<Rightarrow> (int \<times> bool) option) \<Rightarrow> json option \<Rightarrow> silence_error + silence list" where
  "load_silences fromiso file = (case file of
     None \<Rightarrow> Inr [] | Some JNull \<Rightarrow> Inr [] | Some data \<Rightarrow> parse_silences fromiso data)"

subsection \<open>What the reader accepts\<close>

text \<open>A window that says why and by whom, and is open at some time.\<close>

definition window_ok :: "silence \<Rightarrow> bool" where
  "window_ok s \<longleftrightarrow> sl_reason s \<noteq> [] \<and> sl_created_by s \<noteq> [] \<and>
     (case sl_starts_at s of Some t \<Rightarrow> t < sl_expires_at s | None \<Rightarrow> True)"

text \<open>The window pins exactly what its entry says.\<close>

definition window_of :: "json \<Rightarrow> silence \<Rightarrow> bool" where
  "window_of v s \<longleftrightarrow> (\<exists>d. v = JDict d \<and> sl_device s = text_of (dict_get d ''device'') \<and>
     sl_rule s = text_of (dict_get d ''rule'') \<and> sl_subject s = text_of (dict_get d ''subject''))"

lemma has_text_strip: "has_text v \<Longrightarrow> py_strip (py_str v) \<noteq> []"
  by (auto simp: has_text_def py_str_def split: json.splits)

lemma parse_entry_ok:
  "parse_entry fromiso index seen v = Inr s \<Longrightarrow> window_ok s \<and> window_of v s \<and> sl_id s \<notin> set seen"
proof (cases v)
  case (JDict entry)
  assume "parse_entry fromiso index seen v = Inr s"
  with JDict obtain expires starts where
    s: "\<lparr>sl_id = silence_id index entry,
        sl_reason = py_strip (py_str (dict_get entry ''reason'')),
        sl_created_by = py_strip (py_str (dict_get entry ''created_by'')),
        sl_expires_at = expires, sl_device = text_of (dict_get entry ''device''),
        sl_rule = text_of (dict_get entry ''rule''), sl_subject = text_of (dict_get entry ''subject''),
        sl_starts_at = starts\<rparr> = s"
    and "has_text (dict_get entry ''reason'')" "has_text (dict_get entry ''created_by'')"
    and "silence_id index entry \<notin> set seen"
    and "\<not> (case starts of Some t \<Rightarrow> t \<ge> expires | None \<Rightarrow> False)"
    unfolding parse_entry_def JDict json.case by (simp split: if_split_asm sum.split_asm; blast)
  then show ?thesis by (auto simp: window_ok_def window_of_def JDict has_text_strip simp flip: s split: option.split_asm)
qed (simp_all add: parse_entry_def)

lemma parse_entries_ok:
  "parse_entries fromiso index seen vs = Inr ss \<Longrightarrow>
     list_all window_ok ss \<and> list_all2 window_of vs ss \<and> distinct (map sl_id ss) \<and> set (map sl_id ss) \<inter> set seen = {}"
proof (induction vs arbitrary: index seen ss)
  case (Cons v vs)
  then obtain s ss' where s: "parse_entry fromiso index seen v = Inr s"
    and ss': "parse_entries fromiso (index + 1) (sl_id s # seen) vs = Inr ss'" and ss: "ss = s # ss'"
    by (cases "parse_entry fromiso index seen v")
      (auto simp: map_sum_def split: sum.splits)
  from Cons.IH [OF ss'] parse_entry_ok [OF s] show ?case by (auto simp: ss)
qed simp

subsection \<open>A device verdict\<close>

record tagged =
  tg_finding :: finding
  tg_silence :: "silence option"

record silenced_verdict =
  sv_verdict :: verdict
  sv_findings :: "tagged list"
  sv_raw_severity :: severity
  sv_severity :: severity
  sv_counts :: severity_counts
  sv_silenced :: nat
  sv_applied :: bool

text \<open>The loop over the findings: severity, counts and number silenced so far.\<close>

fun tag_findings ::
  "silence list \<Rightarrow> string \<Rightarrow> int \<Rightarrow> finding list \<Rightarrow> severity \<times> severity_counts \<times> nat \<Rightarrow>
   tagged list \<times> severity \<times> severity_counts \<times> nat" where
  "tag_findings silences device now [] acc = ([], acc)"
| "tag_findings silences device now (f # fs) (worst, counts, n) =
     (case find_silence silences device (JStr (hf_rule f)) (hf_subject f) now of
        Some s \<Rightarrow> let (ts, acc) = tag_findings silences device now fs (worst, counts, n + 1)
                  in (\<lparr>tg_finding = f, tg_silence = Some s\<rparr> # ts, acc)
      | None \<Rightarrow> let (ts, acc) = tag_findings silences device now fs
                     (max_severity worst (hf_severity f), bump (hf_severity f) counts, n)
                in (\<lparr>tg_finding = f, tg_silence = None\<rparr> # ts, acc))"

definition apply_silences :: "verdict \<Rightarrow> silence list \<Rightarrow> int \<Rightarrow> silenced_verdict" where
  "apply_silences v silences now =
     (let (ts, worst, counts, n) = tag_findings silences (vd_device v) now (vd_findings v)
            (OK, [(CRITICAL, 0), (UNREACHABLE, 0), (WARNING, 0), (INFO, 0)], 0)
      in \<lparr>sv_verdict = v, sv_findings = ts, sv_raw_severity = vd_severity v, sv_severity = worst,
          sv_counts = counts, sv_silenced = n, sv_applied = (n > 0)\<rparr>)"

definition evaluate_device_with_silences :: "dict \<Rightarrow> device \<Rightarrow> silence list \<Rightarrow> int \<Rightarrow> silenced_verdict option" where
  "evaluate_device_with_silences evidence device silences now =
     map_option (\<lambda>v. apply_silences v silences now) (evaluate_device evidence device)"

subsection \<open>The fabric\<close>

record silenced_fabric =
  sf_fabric :: fabric_verdict
  sf_devices :: "(string \<times> silenced_verdict) list"
  sf_severity :: severity
  sf_by_severity :: severity_counts
  sf_silenced_devices :: "string list"

definition apply_silences_to_fabric :: "fabric_verdict \<Rightarrow> silence list \<Rightarrow> int \<Rightarrow> silenced_fabric" where
  "apply_silences_to_fabric fv silences now =
     (let devices = map (\<lambda>(name, v). (name, apply_silences v silences now)) (fv_devices fv)
      in \<lparr>sf_fabric = fv, sf_devices = devices,
          sf_severity = fold (\<lambda>(_, v) worst. max_severity worst (sv_severity v)) devices OK,
          sf_by_severity = fold (\<lambda>(_, v). bump (sv_severity v)) devices
            [(CRITICAL, 0), (UNREACHABLE, 0), (WARNING, 0), (INFO, 0), (OK, 0)],
          sf_silenced_devices = sort (map fst (filter (\<lambda>(_, v). sv_applied v) devices))\<rparr>)"

definition evaluate_fabric_with_silences ::
  "(string \<times> dict) list \<Rightarrow> device list \<Rightarrow> silence list \<Rightarrow> int \<Rightarrow> silenced_fabric option" where
  "evaluate_fabric_with_silences evidence devices silences now =
     map_option (\<lambda>fv. apply_silences_to_fabric fv silences now) (evaluate_fabric evidence devices)"

subsection \<open>Which window speaks\<close>

lemma fold_max_by:
  "fold (\<lambda>y m. if f m < f y then y else m) ys x \<in> insert x (set ys) \<and>
   (\<forall>z\<in>insert x (set ys). (f z :: nat) \<le> f (fold (\<lambda>y m. if f m < f y then y else m) ys x))"
proof (induction ys arbitrary: x)
  case (Cons y ys)
  from Cons [of "if f x < f y then y else x"] show ?case by (auto split: if_splits)
qed simp

lemma max_by_None [simp]: "max_by f xs = None \<longleftrightarrow> xs = []"
  by (simp add: max_by_def split: list.split)

lemma max_by_Some: "max_by f xs = Some m \<Longrightarrow> m \<in> set xs \<and> (\<forall>z\<in>set xs. f z \<le> f m)"
proof (cases xs)
  case (Cons x ys)
  assume "max_by f xs = Some m"
  with Cons have "m = fold (\<lambda>y m. if f m < f y then y else m) ys x" by (simp add: max_by_def)
  with Cons fold_max_by [of f ys x] show ?thesis by simp
qed (simp add: max_by_def)

lemma find_silence_None: "find_silence ss d r sub now = None \<longleftrightarrow> (\<forall>s\<in>set ss. \<not> matches s d r sub now)"
  by (auto simp: find_silence_def filter_empty_conv)

lemma find_silence_Some:
  "find_silence ss d r sub now = Some s \<Longrightarrow> s \<in> set ss \<and> matches s d r sub now \<and>
     (\<forall>q\<in>set ss. matches q d r sub now \<longrightarrow> specificity q \<le> specificity s)"
  using max_by_Some [of specificity "filter (\<lambda>s. matches s d r sub now) ss" s] by (auto simp: find_silence_def)

subsection \<open>What a silence changes\<close>

definition covered :: "silence list \<Rightarrow> string \<Rightarrow> int \<Rightarrow> finding \<Rightarrow> bool" where
  "covered ss device now f \<longleftrightarrow> (\<exists>s\<in>set ss. matches s device (JStr (hf_rule f)) (hf_subject f) now)"

lemma covered_find: "covered ss d now f \<longleftrightarrow> find_silence ss d (JStr (hf_rule f)) (hf_subject f) now \<noteq> None"
  unfolding covered_def find_silence_None by blast

lemma tag_findings_result:
  "tag_findings ss d now fs (worst, counts, n) =
     (map (\<lambda>f. \<lparr>tg_finding = f, tg_silence = find_silence ss d (JStr (hf_rule f)) (hf_subject f) now\<rparr>) fs,
      fst (tally (filter (\<lambda>f. \<not> covered ss d now f) fs) (worst, counts)),
      snd (tally (filter (\<lambda>f. \<not> covered ss d now f) fs) (worst, counts)),
      n + length (filter (covered ss d now) fs))"
proof (induction fs arbitrary: worst counts n)
  case (Cons f fs)
  show ?case
  proof (cases "find_silence ss d (JStr (hf_rule f)) (hf_subject f) now")
    case None
    then have "\<not> covered ss d now f" by (simp add: covered_find)
    with None Cons show ?thesis by simp
  next
    case (Some s)
    then have "covered ss d now f" by (simp add: covered_find)
    with Some Cons show ?thesis by simp
  qed
qed simp

definition tag_correct :: "silence list \<Rightarrow> string \<Rightarrow> int \<Rightarrow> tagged \<Rightarrow> bool" where
  "tag_correct ss device now t \<longleftrightarrow> (case tg_silence t of
     None \<Rightarrow> \<not> covered ss device now (tg_finding t)
   | Some s \<Rightarrow> s \<in> set ss \<and> matches s device (JStr (hf_rule (tg_finding t))) (hf_subject (tg_finding t)) now \<and>
       (\<forall>q\<in>set ss. matches q device (JStr (hf_rule (tg_finding t))) (hf_subject (tg_finding t)) now \<longrightarrow>
          specificity q \<le> specificity s))"

lemma tags_correct:
  "t = \<lparr>tg_finding = f, tg_silence = find_silence ss d (JStr (hf_rule f)) (hf_subject f) now\<rparr> \<Longrightarrow> tag_correct ss d now t"
  using find_silence_Some [of ss d "JStr (hf_rule f)" "hf_subject f" now]
  by (cases "find_silence ss d (JStr (hf_rule f)) (hf_subject f) now") (auto simp: tag_correct_def covered_find)

text \<open>C34: A maintenance window hides nothing.  Every finding stays, in place, tagged with the most specific window
  in force that covers it, if any does; the severity and the counts are those of the findings no
  window covers, never worse than without windows, and the severity without them is kept beside it;
  and the number silenced is the number of tags.\<close>

theorem silences_hide_nothing:
  assumes "evaluate_device ev dev = Some v"
  shows "\<exists>sv. evaluate_device_with_silences ev dev ss now = Some sv \<and>
    map tg_finding (sv_findings sv) = vd_findings v \<and> list_all (tag_correct ss (vd_device v) now) (sv_findings sv) \<and>
    sv_raw_severity sv = vd_severity v \<and> sv_severity sv \<le> vd_severity v \<and>
    sv_severity sv = fold max (map (hf_severity \<circ> tg_finding) (filter (\<lambda>t. tg_silence t = None) (sv_findings sv))) OK \<and>
    sv_silenced sv = length (filter (\<lambda>t. tg_silence t \<noteq> None) (sv_findings sv)) \<and>
    sv_counts sv = map (\<lambda>k. (k, length (filter (\<lambda>t. tg_silence t = None \<and> hf_severity (tg_finding t) = k) (sv_findings sv))))
      [CRITICAL, UNREACHABLE, WARNING, INFO]"
proof -
  let ?d = "vd_device v" and ?fs = "vd_findings v" and ?sv = "apply_silences v ss now"
  let ?tag = "\<lambda>f. \<lparr>tg_finding = f, tg_silence = find_silence ss ?d (JStr (hf_rule f)) (hf_subject f) now\<rparr>"
  let ?open = "filter (\<lambda>f. \<not> covered ss ?d now f) ?fs"
  have sv: "sv_findings ?sv = map ?tag ?fs" "sv_raw_severity ?sv = vd_severity v"
    "sv_severity ?sv = fold max (map hf_severity ?open) OK"
    "sv_counts ?sv = fold bump (map hf_severity ?open) [(CRITICAL, 0), (UNREACHABLE, 0), (WARNING, 0), (INFO, 0)]"
    "sv_silenced ?sv = length (filter (covered ss ?d now) ?fs)"
    by (simp_all add: apply_silences_def tag_findings_result tally_fst tally_snd)
  have open_tags: "filter (\<lambda>t. tg_silence t = None) (map ?tag ?fs) = map ?tag ?open"
    by (simp add: filter_map comp_def covered_find)
  have worst: "vd_severity v = fold max (map hf_severity ?fs) OK"
    by (rule evaluate_device_parts [OF assms])
  have 1: "list_all (tag_correct ss ?d now) (sv_findings ?sv)"
    using tags_correct [OF refl] by (simp add: sv(1) list_all_iff)
  have 2: "sv_severity ?sv \<le> vd_severity v"
    using fold_max_in [of "map hf_severity ?open" OK] fold_max_upper [of _ "map hf_severity ?fs" OK]
    by (auto simp: sv(3) worst)
  have 3: "sv_severity ?sv = fold max (map (hf_severity \<circ> tg_finding) (filter (\<lambda>t. tg_silence t = None) (sv_findings ?sv))) OK"
    unfolding sv(1,3) open_tags by (simp add: comp_def)
  have found: "(\<lambda>f. find_silence ss ?d (JStr (hf_rule f)) (hf_subject f) now \<noteq> None) = covered ss ?d now"
    by (rule ext) (simp only: covered_find)
  have 4: "sv_silenced ?sv = length (filter (\<lambda>t. tg_silence t \<noteq> None) (sv_findings ?sv))"
    unfolding sv(1,5) by (simp only: filter_map comp_def tagged.simps length_map found)
  have "count_list (map hf_severity ?open) k = length (filter (\<lambda>f. \<not> covered ss ?d now f \<and> hf_severity f = k) ?fs)" for k
    unfolding count_list_eq_length_filter by (simp add: filter_map comp_def conj_commute eq_commute)
  then have 5: "sv_counts ?sv = map (\<lambda>k. (k, length (filter (\<lambda>t. tg_silence t = None \<and> hf_severity (tg_finding t) = k) (sv_findings ?sv))))
      [CRITICAL, UNREACHABLE, WARNING, INFO]"
    unfolding sv(1,4) fold_bump by (simp add: filter_map comp_def covered_find)
  have "map tg_finding (sv_findings ?sv) = ?fs" unfolding sv(1) by (simp add: comp_def)
  with assms 1 2 3 4 5 sv(2) show ?thesis
    unfolding evaluate_device_with_silences_def by (intro exI [of _ ?sv]) simp
qed

definition bgp_window :: silence where
  "bgp_window = \<lparr>sl_id = ''m1'', sl_reason = ''maintenance'', sl_created_by = ''ops'', sl_expires_at = 100,
     sl_device = Some (dv_name health_device), sl_rule = None, sl_subject = None, sl_starts_at = Some 10\<rparr>"

theorem silences_witness:
  "\<exists>v sv. evaluate_device health_example health_device = Some v \<and>
     evaluate_device_with_silences health_example health_device [bgp_window] 50 = Some sv \<and>
     vd_findings v \<noteq> [] \<and> sv_silenced sv = length (vd_findings v) \<and> sv_severity sv = OK \<and>
     sv_raw_severity sv = CRITICAL \<and> map tg_finding (sv_findings sv) = vd_findings v"
proof -
  obtain v where v: "evaluate_device health_example health_device = Some v"
    using evaluate_device_total [OF health_example_wf] by blast
  have "map_option (\<lambda>sv. (sv_silenced sv, sv_severity sv, sv_raw_severity sv, vd_findings (sv_verdict sv) \<noteq> [],
      length (vd_findings (sv_verdict sv)) = sv_silenced sv))
    (evaluate_device_with_silences health_example health_device [bgp_window] 50) = Some (5, OK, CRITICAL, True, True)"
    by code_simp
  with v silences_hide_nothing [OF v, of "[bgp_window]" 50] show ?thesis
    by (auto simp: evaluate_device_with_silences_def apply_silences_def split: prod.splits)
qed

lemma expired_never_matches: "sl_expires_at s \<le> now \<Longrightarrow> \<not> matches s d r sub now"
  by (simp add: matches_def)

text \<open>A silence file that loads has one window per entry, pinning what the entry says, each with a reason, an
  author and a time at which it is open, under ids that differ; and silence ends: from some instant
  on no finding of any device is covered.\<close>

theorem silence_file_is_sound:
  assumes "load_silences fromiso file = Inr ss"
  shows "list_all window_ok ss \<and> distinct (map sl_id ss) \<and>
    (case file of Some (JList vs) \<Rightarrow> list_all2 window_of vs ss | _ \<Rightarrow> ss = []) \<and>
    (\<exists>horizon. \<forall>now d r sub. horizon \<le> now \<longrightarrow> find_silence ss d r sub now = None)"
proof -
  have "find_silence ss d r sub now = None" if late: "fold max (map sl_expires_at ss) 0 \<le> now" for now d r sub
  proof -
    have "sl_expires_at s \<le> now" if "s \<in> set ss" for s
      using that late Max.coboundedI [of "set (0 # map sl_expires_at ss)" "sl_expires_at s"]
      by (simp del: Max_insert add: Max.set_eq_fold [symmetric])
    then show ?thesis unfolding find_silence_None using expired_never_matches by blast
  qed
  then have 1: "\<exists>horizon. \<forall>now d r sub. horizon \<le> now \<longrightarrow> find_silence ss d r sub now = None" by blast
  show ?thesis
  proof (cases "\<exists>vs. file = Some (JList vs)")
    case True
    then obtain vs where f: "file = Some (JList vs)" by blast
    with assms have "parse_entries fromiso 0 [] vs = Inr ss" by (simp add: load_silences_def parse_silences_def)
    from parse_entries_ok [OF this] f 1 show ?thesis by simp
  next
    case False
    with assms have "ss = []" by (auto simp: load_silences_def parse_silences_def split: option.splits json.splits)
    with False 1 show ?thesis by (auto split: option.splits json.splits)
  qed
qed

definition window_file :: json where
  "window_file = JList [JDict [(''reason'', JStr '' cable swap ''), (''created_by'', JStr ''ops''),
     (''expires_at'', JStr ''2026-08-20T18:00:00Z''), (''device'', JStr ''PE2'')]]"

definition lab_iso :: "string \<Rightarrow> (int \<times> bool) option" where
  "lab_iso t = (if t = ''2026-08-20T18:00:00+00:00'' then Some (1787248800000000, True) else None)"

theorem silence_file_witness:
  "\<exists>s. load_silences lab_iso (Some window_file) = Inr [s] \<and> sl_id s = ''silence-0-PE2-any'' \<and>
     sl_reason s = ''cable swap'' \<and> window_ok s"
proof -
  have "load_silences lab_iso (Some window_file) = Inr [\<lparr>sl_id = ''silence-0-PE2-any'', sl_reason = ''cable swap'',
    sl_created_by = ''ops'', sl_expires_at = 1787248800000000, sl_device = Some ''PE2'', sl_rule = None,
    sl_subject = None, sl_starts_at = None\<rparr>]" by code_simp
  from silence_file_is_sound [OF this] this show ?thesis by simp
qed

end
