(* ===== verification/Event_Identity.thy ===== *)
theory Event_Identity
  imports Py_Prelude
begin

section \<open>Event payloads: equality, storage and identity\<close>

text \<open>
  Models \<open>event_identity.py\<close> and the JSON column of the event store.  Python compares dictionaries
  without regard to order and \<open>True\<close> with 1 as equal, so \<open>==\<close> is a definition of its own here;
  the lemmas show that it is an equivalence on values without duplicate keys, and that a payload
  written with sorted keys reads back equal.
\<close>

subsection \<open>Equality of values\<close>

definition numeric :: "json \<Rightarrow> int option" where
  "numeric v = (case v of JBool b \<Rightarrow> Some (if b then 1 else 0) | JInt i \<Rightarrow> Some i | _ \<Rightarrow> None)"

fun py_eq :: "json \<Rightarrow> json \<Rightarrow> bool"
  and eq_list :: "json list \<Rightarrow> json list \<Rightarrow> bool"
  and eq_items :: "dict \<Rightarrow> dict \<Rightarrow> bool"
where
  "py_eq JNull y = (y = JNull)"
| "py_eq (JBool b) y = (numeric y = Some (if b then 1 else 0))"
| "py_eq (JInt i) y = (numeric y = Some i)"
| "py_eq (JStr s) y = (y = JStr s)"
| "py_eq (JList xs) y = (case y of JList ys \<Rightarrow> eq_list xs ys | _ \<Rightarrow> False)"
| "py_eq (JDict d) y = (case y of JDict e \<Rightarrow> length d = length e \<and> eq_items d e | _ \<Rightarrow> False)"
| "eq_list [] ys = (ys = [])"
| "eq_list (x # xs) ys = (case ys of [] \<Rightarrow> False | y # ys' \<Rightarrow> py_eq x y \<and> eq_list xs ys')"
| "eq_items [] e = True"
| "eq_items ((k, v) # d) e = ((case map_of e k of None \<Rightarrow> False | Some w \<Rightarrow> py_eq v w) \<and> eq_items d e)"

text \<open>Values as Python can hold them: no key twice in a dictionary.\<close>

fun wf_json :: "json \<Rightarrow> bool" where
  "wf_json (JList xs) = list_all wf_json xs"
| "wf_json (JDict d) = (distinct (map fst d) \<and> list_all (\<lambda>(k, v). wf_json v) d)"
| "wf_json _ = True"

lemma eq_items_iff: "eq_items d e \<longleftrightarrow> (\<forall>(k, v)\<in>set d. \<exists>w. map_of e k = Some w \<and> py_eq v w)"
  by (induction d) (auto split: option.splits)

lemma py_eq_trans:
  "py_eq x y \<Longrightarrow> py_eq y z \<Longrightarrow> py_eq x z"
  "eq_list xs ys \<Longrightarrow> eq_list ys zs \<Longrightarrow> eq_list xs zs"
  "eq_items d e \<Longrightarrow> eq_items e f \<Longrightarrow> eq_items d f"
proof (induction x y and xs ys and d e arbitrary: z and zs and f rule: py_eq_eq_list_eq_items.induct)
  case (10 k v d e)
  then obtain w where w: "map_of e k = Some w" "py_eq v w" "eq_items d e"
    by (auto split: option.splits)
  then obtain u where u: "map_of f k = Some u" "py_eq w u"
    using 10(4) map_of_SomeD [OF w(1)] by (auto simp: eq_items_iff)
  show ?case using 10(1) [OF w(1,2) u(2)] 10(2) [OF w(3) 10(4)] u(1) by simp
qed (auto simp: numeric_def split: json.splits list.splits if_splits)

lemma py_eq_refl:
  "wf_json x \<Longrightarrow> py_eq x x"
proof (induction x rule: wf_json.induct)
  case (1 xs)
  then have "eq_list ys ys" if "set ys \<subseteq> set xs" for ys
    using that by (induction ys) (auto simp: list_all_iff)
  then show ?case by simp
next
  case (2 d)
  then have "map_of d k = Some v \<and> py_eq v v" if "(k, v) \<in> set d" for k v
    using that by (auto simp: list_all_iff)
  then show ?case by (auto simp: eq_items_iff)
qed (auto simp: numeric_def)

subsection \<open>The JSON column\<close>

text \<open>\<open>json.loads (json.dumps (v, sort_keys=True))\<close>: the same value with the keys of every dictionary sorted.\<close>

fun stored_json :: "json \<Rightarrow> json" where
  "stored_json (JList xs) = JList (map stored_json xs)"
| "stored_json (JDict d) = JDict (sort_key fst (map (\<lambda>(k, v). (k, stored_json v)) d))"
| "stored_json v = v"

definition stored_dict :: "dict \<Rightarrow> dict" where
  "stored_dict d = sort_key fst (map (\<lambda>(k, v). (k, stored_json v)) d)"

lemma stored_json_dict: "stored_json (JDict d) = JDict (stored_dict d)"
  by (simp add: stored_dict_def)

lemma map_of_stored:
  assumes "distinct (map fst d)"
  shows "map_of (stored_dict d) k = map_option stored_json (map_of d k)"
proof -
  let ?m = "map (\<lambda>(k, v). (k, stored_json v)) d"
  have keys: "map fst ?m = map fst d" by (induction d) auto
  then have "distinct (map fst (stored_dict d))"
    using assms by (metis (no_types, lifting) distinct_map inj_on_def set_sort distinct_sort stored_dict_def)
  moreover have "set (stored_dict d) = set ?m" by (simp add: stored_dict_def)
  ultimately have "map_of (stored_dict d) = map_of ?m"
    using assms keys by (metis map_of_inject_set)
  then show ?thesis by (simp add: map_of_map)
qed

lemma stored_json_eq: "wf_json x \<Longrightarrow> py_eq x (stored_json x)"
proof (induction x rule: wf_json.induct)
  case (1 xs)
  then have "eq_list ys (map stored_json ys)" if "set ys \<subseteq> set xs" for ys
    using that by (induction ys) (auto simp: list_all_iff)
  then show ?case by simp
next
  case (2 d)
  have "\<exists>w. map_of (stored_dict d) k = Some w \<and> py_eq v w" if "(k, v) \<in> set d" for k v
    using 2 that map_of_stored [of d k] by (auto simp: list_all_iff)
  then show ?case
    by (auto simp: eq_items_iff stored_json_dict simp del: stored_json.simps) (simp add: stored_dict_def)
qed (auto simp: numeric_def)

lemma stored_json_eq': "wf_json x \<Longrightarrow> py_eq (stored_json x) x"
proof (induction x rule: wf_json.induct)
  case (1 xs)
  then have "eq_list (map stored_json ys) ys" if "set ys \<subseteq> set xs" for ys
    using that by (induction ys) (auto simp: list_all_iff)
  then show ?case by simp
next
  case (2 d)
  have "\<exists>w. map_of d k = Some w \<and> py_eq v w" if "(k, v) \<in> set (stored_dict d)" for k v
  proof -
    from that obtain u where u: "(k, u) \<in> set d" "v = stored_json u" by (auto simp: stored_dict_def)
    with 2 show ?thesis by (intro exI [of _ u]) (auto simp: list_all_iff)
  qed
  then show ?case
    by (auto simp: eq_items_iff stored_json_dict simp del: stored_json.simps) (simp add: stored_dict_def)
qed (auto simp: numeric_def)

lemma keys_stored [simp]: "fst ` set (stored_dict d) = fst ` set d"
  by (force simp: stored_dict_def)

lemma distinct_stored: "distinct (map fst (stored_dict d)) = distinct (map fst d)"
proof -
  have "map fst (map (\<lambda>(k, v). (k, stored_json v)) d) = map fst d" by (induction d) auto
  then show ?thesis
    by (metis (no_types, lifting) distinct_map distinct_sort set_sort stored_dict_def)
qed

lemma get_stored: "distinct (map fst d) \<Longrightarrow> dict_get (stored_dict d) k = stored_json (dict_get d k)"
  by (simp add: dict_get_or_def map_of_stored split: option.splits)

lemma wf_get: "wf_json (JDict d) \<Longrightarrow> wf_json (dict_get d k)"
  by (auto simp: dict_get_or_def list_all_iff split: option.splits dest!: map_of_SomeD)

subsection \<open>Identity of a payload across updates\<close>

datatype identity_error = KEYS_DIFFER | IMMUTABLE_DIFFERS | UNKNOWN_KIND_DIFFERS

definition SYSLOG_MUTABLE :: "string list" where
  "SYSLOG_MUTABLE = [''received_at'']"

definition CAMPAIGN_MUTABLE :: "string list" where
  "CAMPAIGN_MUTABLE = [''phase'', ''outcome'', ''rollback_deadline'', ''ticket_id'', ''incident_id'', ''event_id'']"

definition is_syslog :: "dict \<Rightarrow> bool" where
  "is_syslog p \<longleftrightarrow> py_eq (dict_get p ''schema_version'') (JInt 2) \<and> is_string (dict_get p ''source_kind'')"

definition validate_keys :: "dict \<Rightarrow> dict \<Rightarrow> string list \<Rightarrow> identity_error option" where
  "validate_keys existing proposed mutable =
     (if set (map fst existing) \<noteq> set (map fst proposed) then Some KEYS_DIFFER
      else if list_ex (\<lambda>k. k \<notin> set mutable \<and> \<not> py_eq (dict_get existing k) (dict_get proposed k)) (map fst existing)
      then Some IMMUTABLE_DIFFERS
      else None)"

definition validate_payload_update :: "dict \<Rightarrow> dict \<Rightarrow> identity_error option" where
  "validate_payload_update existing proposed =
     (if is_syslog existing \<and> is_syslog proposed then validate_keys existing proposed SYSLOG_MUTABLE
      else if py_eq (dict_get existing ''kind'') (dict_get proposed ''kind'') \<and>
              py_eq (dict_get proposed ''kind'') (JStr ''campaign_phase'')
      then validate_keys existing proposed CAMPAIGN_MUTABLE
      else if \<not> py_eq (JDict existing) (JDict proposed) then Some UNKNOWN_KIND_DIFFERS
      else None)"

text \<open>What no accepted update changes: every field outside the mutable ones of either kind.\<close>

definition volatile :: "string set" where
  "volatile = set SYSLOG_MUTABLE \<union> set CAMPAIGN_MUTABLE"

definition same_identity :: "dict \<Rightarrow> dict \<Rightarrow> bool" where
  "same_identity p q \<longleftrightarrow> set (map fst p) = set (map fst q) \<and>
     (\<forall>k\<in>set (map fst p) - volatile. py_eq (dict_get p k) (dict_get q k))"

lemma same_identity_trans: "same_identity p q \<Longrightarrow> same_identity q r \<Longrightarrow> same_identity p r"
  unfolding same_identity_def using py_eq_trans(1) by blast

lemma same_identity_stored: "wf_json (JDict p) \<Longrightarrow> same_identity p (stored_dict p)"
  using wf_get by (auto simp: same_identity_def get_stored stored_json_eq simp del: list_all_iff)

lemma same_identity_refl: "wf_json (JDict p) \<Longrightarrow> same_identity p p"
  using wf_get py_eq_refl by (auto simp: same_identity_def)

lemma validate_stored: "wf_json (JDict p) \<Longrightarrow> validate_payload_update (stored_dict p) p = None"
proof -
  assume wf: "wf_json (JDict p)"
  then have d: "distinct (map fst p)" by simp
  have "validate_keys (stored_dict p) p m = None" for m
    using wf_get [OF wf] by (auto simp: validate_keys_def list_ex_iff get_stored [OF d] stored_json_eq')
  moreover have "py_eq (JDict (stored_dict p)) (JDict p)"
    using stored_json_eq' [OF wf] by (simp add: stored_json_dict del: py_eq.simps stored_json.simps)
  ultimately show ?thesis by (simp add: validate_payload_update_def del: py_eq.simps)
qed

lemma validate_keys_identity:
  "validate_keys p q m = None \<Longrightarrow> set m \<subseteq> volatile \<Longrightarrow> same_identity p q"
  by (auto simp: validate_keys_def same_identity_def list_ex_iff split: if_splits)

lemma eq_dict_identity:
  assumes "py_eq (JDict p) (JDict q)" and "distinct (map fst p)" and "distinct (map fst q)"
  shows "same_identity p q"
proof -
  have hit: "\<exists>w. map_of q k = Some w \<and> py_eq v w" if "(k, v) \<in> set p" for k v
    using assms(1) that by (auto simp: eq_items_iff)
  then have sub: "set (map fst p) \<subseteq> set (map fst q)"
    by (force dest: map_of_SomeD)
  have "card (set (map fst p)) = card (set (map fst q))"
    using assms(1) by (simp only: distinct_card [OF assms(2)] distinct_card [OF assms(3)] length_map) simp
  with sub have "set (map fst p) = set (map fst q)" by (simp add: card_subset_eq)
  moreover have "py_eq (dict_get p k) (dict_get q k)" if k: "k \<in> set (map fst p)" for k
  proof -
    obtain v where v: "map_of p k = Some v" using k by (cases "map_of p k") (auto simp: map_of_eq_None_iff)
    obtain w where "map_of q k = Some w" "py_eq v w" using hit [OF map_of_SomeD [OF v]] by blast
    with v show ?thesis by (simp add: dict_get_or_def)
  qed
  ultimately show ?thesis by (simp add: same_identity_def)
qed

lemma update_keeps_identity:
  assumes "validate_payload_update p q = None" and "distinct (map fst p)" and "distinct (map fst q)"
  shows "same_identity p q"
proof -
  have cases: "(if A then x else if B then y else if \<not> C then Some e else None) = None \<Longrightarrow>
      x = None \<or> y = None \<or> C" for A B C :: bool and x y and e :: identity_error
    by (auto split: if_splits)
  have "validate_keys p q SYSLOG_MUTABLE = None \<or> validate_keys p q CAMPAIGN_MUTABLE = None \<or>
      py_eq (JDict p) (JDict q)"
    by (rule cases [OF assms(1) [unfolded validate_payload_update_def]])
  then show ?thesis
  proof (elim disjE)
    assume "validate_keys p q SYSLOG_MUTABLE = None"
    then show ?thesis by (rule validate_keys_identity) (simp add: volatile_def)
  next
    assume "validate_keys p q CAMPAIGN_MUTABLE = None"
    then show ?thesis by (rule validate_keys_identity) (simp add: volatile_def)
  next
    assume "py_eq (JDict p) (JDict q)"
    then show ?thesis using assms(2,3) by (rule eq_dict_identity)
  qed
qed

end
