(* ===== verification/Store_Tables.thy ===== *)
theory Store_Tables
  imports Event_Identity "HOL-Library.Product_Lexorder"
begin

section \<open>The tables of the event store\<close>

text \<open>
  The rows and tables of \<open>event_store.py\<close> (schema version 7) as one state record, its errors and
  the row operations its SQL uses.  A table is a list in rowid order.  Timestamps are instants in
  microseconds: the code stores ISO texts, whose text order is the order of the instants for
  timestamps of one time zone, which is what its callers pass.  An operation is one transaction:
  it returns the error it raises, with every effect rolled back, or its result and the new state.
\<close>

subsection \<open>Rows\<close>

datatype event_state = RECEIVED | ADMITTED | RUNNING | COMPLETED | RETRYABLE_FAILED | TERMINAL_FAILED | DEAD_LETTER

record event_row =
  er_id :: string
  er_device :: string
  er_state :: event_state
  er_payload :: dict
  er_created_at :: int
  er_updated_at :: int
  er_ticket_id :: "string option"
  er_lease_owner :: "string option"
  er_lease_expires_at :: "int option"
  er_lease_epoch :: int
  er_terminal_reason :: "string option"
  er_retry_at :: "int option"

record attempt_row =
  at_event :: string
  at_state :: event_state
  at_recorded_at :: int
  at_reason :: "string option"

datatype outbox_state = PENDING | SENDING | SENT | OUTBOX_DEAD_LETTER

record outbox_row =
  ox_id :: int
  ox_event :: string
  ox_destination :: string
  ox_kind :: string
  ox_payload :: dict
  ox_state :: outbox_state
  ox_attempts :: int
  ox_lease_owner :: "string option"
  ox_lease_expires_at :: "int option"
  ox_lease_epoch :: int
  ox_retry_at :: "int option"
  ox_created_at :: int
  ox_updated_at :: int
  ox_last_error :: "string option"

datatype incident_state = OPEN | ACKNOWLEDGED | RESOLVED | ARCHIVED

record incident_identity =
  ii_device :: string
  ii_cause_rung :: string
  ii_cause_subject :: string

record incident_row =
  in_id :: string
  in_identity :: incident_identity
  in_state :: incident_state
  in_opened_at :: int
  in_updated_at :: int
  in_resolved_at :: "int option"

record incident_event_row =
  ie_incident :: string
  ie_event :: string
  ie_joined_at :: int

record incident_transition_row =
  it_incident :: string
  it_state :: incident_state
  it_recorded_at :: int
  it_reason :: "string option"

record approval_row =
  ap_digest :: string
  ap_procedure :: string
  ap_version :: int
  ap_parameters :: "(string \<times> string) list"
  ap_nonce :: string
  ap_expires_at :: int
  ap_signature :: string
  ap_approved_at :: int
  ap_consumed_at :: "int option"

record simulation_row =
  si_digest :: string
  si_status :: string
  si_network_activity :: bool
  si_device_writes :: bool
  si_verification :: string
  si_recorded_at :: int

record receipt_row =
  tr_event :: string
  tr_chat :: string
  tr_message :: int
  tr_hash :: string
  tr_updated_at :: int

record card_row =
  tc_event :: string
  tc_payload :: dict
  tc_dirty_at :: "string option"
  tc_updated_at :: int

record callback_row =
  oc_id :: string
  oc_event :: string
  oc_result :: dict
  oc_recorded_at :: int

record shadow_row =
  sh_event :: string
  sh_admitted :: bool
  sh_reason :: "string option"
  sh_durable_state :: event_state
  sh_recorded_at :: int

record narrowing_row =
  nr_event :: string
  nr_mode :: string
  nr_candidates :: "dict list"
  nr_decision :: "dict option"
  nr_refusal :: "string option"
  nr_active :: bool
  nr_recorded_at :: int

record sweep_row =
  sw_worker :: string
  sw_started_at :: int
  sw_completed_at :: int
  sw_events :: int
  sw_notifications :: int

record store =
  st_events :: "event_row list"
  st_attempts :: "attempt_row list"
  st_outbox :: "outbox_row list"
  st_outbox_seq :: int
  st_incidents :: "incident_row list"
  st_incident_events :: "incident_event_row list"
  st_incident_transitions :: "incident_transition_row list"
  st_approvals :: "approval_row list"
  st_simulations :: "simulation_row list"
  st_receipts :: "receipt_row list"
  st_cards :: "card_row list"
  st_callbacks :: "callback_row list"
  st_shadows :: "shadow_row list"
  st_narrowings :: "narrowing_row list"
  st_sweeps :: "sweep_row list"

definition new_store :: store where
  "new_store = \<lparr>st_events = [], st_attempts = [], st_outbox = [], st_outbox_seq = 0, st_incidents = [],
     st_incident_events = [], st_incident_transitions = [], st_approvals = [], st_simulations = [],
     st_receipts = [], st_cards = [], st_callbacks = [], st_shadows = [], st_narrowings = [],
     st_sweeps = []\<rparr>"

subsection \<open>Errors\<close>

datatype refusal =
    NoSuchEvent string
  | Reused string
  | IdentityDiffers string identity_error
  | CannotMove string string string
  | PayloadImmutable string event_state
  | BadTransition string event_state event_state
  | NotRetryable string event_state
  | BadPolicy
  | LeaseExpired string
  | LeaseRequired string string int
  | BadLease
  | CannotLease string event_state
  | RetryNotDue string
  | LeaseHeld string "string option" int
  | NotRunning string
  | BadDelivery
  | NoSuchOutbox int
  | OutboxFinal int outbox_state
  | OutboxNotDue int
  | OutboxHeld int "string option"
  | OutboxNotSending int
  | OutboxLeaseRequired int "string option" int
  | BadLimit
  | EventInOtherIncident string
  | NoSuchIncident string
  | BadIncidentTransition string incident_state incident_state
  | BadApproval
  | ApprovalExists
  | NoSuchApproval
  | ApprovalReplayed
  | ApprovalExpired
  | DryRunViolated
  | BadSweep
  | BadRetention
  | CompactionFailed
  | NotShadowMode
  | BadReceipt
  | BadCallback

datatype store_error =
    EventStoreError refusal
  | EventTransitionError refusal
  | EventLeaseError refusal
  | IntegrityError

type_synonym 'a outcome = "store_error + 'a \<times> store"

subsection \<open>Rows by key\<close>

text \<open>\<open>SELECT \<dots> WHERE key = ?\<close> and \<open>UPDATE \<dots> WHERE key = ?\<close>.\<close>

definition row_by :: "('r \<Rightarrow> 'k) \<Rightarrow> 'r list \<Rightarrow> 'k \<Rightarrow> 'r option" where
  "row_by key rows k = find (\<lambda>r. key r = k) rows"

definition set_row :: "('r \<Rightarrow> 'k) \<Rightarrow> 'r \<Rightarrow> 'r list \<Rightarrow> 'r list" where
  "set_row key r rows = map (\<lambda>x. if key x = key r then r else x) rows"

lemma row_by_Nil [simp]: "row_by key [] k = None"
  by (simp add: row_by_def)

lemma row_by_Cons: "row_by key (r # rows) k = (if key r = k then Some r else row_by key rows k)"
  by (simp add: row_by_def)

lemma row_by_SomeD: "row_by key rows k = Some r \<Longrightarrow> r \<in> set rows \<and> key r = k"
  by (auto simp: row_by_def find_Some_iff)

lemma row_by_None_iff: "row_by key rows k = None \<longleftrightarrow> k \<notin> key ` set rows"
  by (auto simp: row_by_def find_None_iff)

lemma row_by_distinct: "distinct (map key rows) \<Longrightarrow> r \<in> set rows \<Longrightarrow> row_by key rows (key r) = Some r"
  by (induction rows) (auto simp: row_by_Cons)

lemma row_by_append:
  "row_by key (rows @ [r]) k = (case row_by key rows k of None \<Rightarrow> if key r = k then Some r else None | Some x \<Rightarrow> Some x)"
  by (induction rows) (auto simp: row_by_Cons)

lemma row_by_set_row:
  "row_by key (set_row key r rows) k =
     (if key r = k \<and> row_by key rows k \<noteq> None then Some r else row_by key rows k)"
  by (induction rows) (auto simp: set_row_def row_by_Cons)

lemma keys_set_row [simp]: "map key (set_row key r rows) = map key rows"
  by (induction rows) (auto simp: set_row_def)

lemma set_set_row: "x \<in> set (set_row key r rows) \<Longrightarrow> x = r \<or> x \<in> set rows \<and> key x \<noteq> key r"
  by (auto simp: set_row_def split: if_splits)

lemma length_set_row [simp]: "length (set_row key r rows) = length rows"
  by (simp add: set_row_def)

end
