(* ===== verification/Event_Store.thy ===== *)
theory Event_Store
  imports Store_Tables
begin

section \<open>Events: lifecycle, leases and retries\<close>

text \<open>
  Models the event table of \<open>event_store.py\<close>: creation, the lifecycle transitions, retry
  scheduling, worker leases and the recovery queries.  The argument \<open>now\<close> is the instant the
  operation reads or is given; durations are microseconds.
\<close>

subsection \<open>Operations\<close>

definition ALLOWED_TRANSITIONS :: "event_state \<Rightarrow> event_state set" where
  "ALLOWED_TRANSITIONS s = (case s of
     RECEIVED \<Rightarrow> {ADMITTED, TERMINAL_FAILED}
   | ADMITTED \<Rightarrow> {RUNNING, RETRYABLE_FAILED, TERMINAL_FAILED}
   | RUNNING \<Rightarrow> {COMPLETED, RETRYABLE_FAILED, TERMINAL_FAILED}
   | RETRYABLE_FAILED \<Rightarrow> {ADMITTED, DEAD_LETTER}
   | TERMINAL_FAILED \<Rightarrow> {DEAD_LETTER}
   | COMPLETED \<Rightarrow> {}
   | DEAD_LETTER \<Rightarrow> {})"

definition get :: "store \<Rightarrow> string \<Rightarrow> event_row option" where
  "get st event_id = row_by er_id (st_events st) event_id"

definition put_event :: "event_row \<Rightarrow> store \<Rightarrow> store" where
  "put_event r st = st\<lparr>st_events := set_row er_id r (st_events st)\<rparr>"

definition log_attempt :: "string \<Rightarrow> event_state \<Rightarrow> int \<Rightarrow> string option \<Rightarrow> store \<Rightarrow> store" where
  "log_attempt event_id state now reason st = st\<lparr>st_attempts := st_attempts st @
     [\<lparr>at_event = event_id, at_state = state, at_recorded_at = now, at_reason = reason\<rparr>]\<rparr>"

definition event_attempts :: "store \<Rightarrow> string \<Rightarrow> attempt_row list" where
  "event_attempts st event_id = filter (\<lambda>a. at_event a = event_id) (st_attempts st)"

text \<open>The two statements that insert a new event and its first attempt.\<close>

definition insert_event :: "string \<Rightarrow> string \<Rightarrow> dict \<Rightarrow> int \<Rightarrow> store \<Rightarrow> event_row \<times> store" where
  "insert_event event_id device payload now st =
     (let r = \<lparr>er_id = event_id, er_device = device, er_state = RECEIVED, er_payload = stored_dict payload,
                er_created_at = now, er_updated_at = now, er_ticket_id = None, er_lease_owner = None,
                er_lease_expires_at = None, er_lease_epoch = 0, er_terminal_reason = None, er_retry_at = None\<rparr>
      in (r, log_attempt event_id RECEIVED now None (st\<lparr>st_events := st_events st @ [r]\<rparr>)))"

definition known_kind :: "dict \<Rightarrow> bool" where
  "known_kind p \<longleftrightarrow> is_syslog p \<or> py_eq (dict_get p ''kind'') (JStr ''campaign_phase'')"

definition create_or_get ::
  "string \<Rightarrow> string \<Rightarrow> dict \<Rightarrow> bool \<Rightarrow> int \<Rightarrow> store \<Rightarrow> (event_row \<times> bool) outcome" where
  "create_or_get event_id device payload strict now st = (case get st event_id of
     Some existing \<Rightarrow>
       if er_device existing \<noteq> device then Inl (EventStoreError (Reused event_id))
       else if strict \<or> known_kind (er_payload existing)
       then (case validate_payload_update (er_payload existing) payload of
               Some e \<Rightarrow> Inl (EventStoreError (if strict then Reused event_id else IdentityDiffers event_id e))
             | None \<Rightarrow> Inr ((existing, False), st))
       else Inr ((existing, False), st)
   | None \<Rightarrow> (let (r, st') = insert_event event_id device payload now st in Inr ((r, True), st')))"

definition create_or_update ::
  "string \<Rightarrow> string \<Rightarrow> dict \<Rightarrow> int \<Rightarrow> store \<Rightarrow> (event_row \<times> bool) outcome" where
  "create_or_update event_id device payload now st = (case get st event_id of
     None \<Rightarrow> (let (r, st') = insert_event event_id device payload now st in Inr ((r, True), st'))
   | Some row \<Rightarrow>
       if er_device row \<noteq> device then Inl (EventStoreError (CannotMove event_id (er_device row) device))
       else (case validate_payload_update (er_payload row) payload of
               Some e \<Rightarrow> Inl (EventStoreError (IdentityDiffers event_id e))
             | None \<Rightarrow>
                 if er_state row \<noteq> RECEIVED then Inl (EventStoreError (PayloadImmutable event_id (er_state row)))
                 else let r = row\<lparr>er_payload := stored_dict payload, er_updated_at := now\<rparr>
                      in Inr ((r, False), put_event r st)))"

text \<open>\<open>_validate_lease_fence\<close>: the error it raises; a row without a lease has no fence.\<close>

definition lease_fence :: "event_row \<Rightarrow> string option \<Rightarrow> int option \<Rightarrow> int \<Rightarrow> store_error option" where
  "lease_fence row owner lease_epoch now = (case er_lease_owner row of
     None \<Rightarrow> None
   | Some held_by \<Rightarrow> (case er_lease_expires_at row of
       None \<Rightarrow> Some (EventLeaseError (LeaseExpired (er_id row)))
     | Some expiry \<Rightarrow>
         if expiry \<le> now then Some (EventLeaseError (LeaseExpired (er_id row)))
         else if owner \<noteq> Some held_by \<or> lease_epoch \<noteq> Some (er_lease_epoch row)
         then Some (EventLeaseError (LeaseRequired (er_id row) held_by (er_lease_epoch row)))
         else None))"

text \<open>\<open>COALESCE(?, column)\<close>.\<close>

definition coalesce :: "'a option \<Rightarrow> 'a option \<Rightarrow> 'a option" where
  "coalesce x y = (case x of None \<Rightarrow> y | Some _ \<Rightarrow> x)"

definition transition ::
  "string \<Rightarrow> event_state \<Rightarrow> string option \<Rightarrow> string option \<Rightarrow> string option \<Rightarrow> int option \<Rightarrow> int \<Rightarrow> store \<Rightarrow>
   event_row outcome" where
  "transition event_id state reason ticket_id lease_owner lease_epoch now st = (case get st event_id of
     None \<Rightarrow> Inl (EventStoreError (NoSuchEvent event_id))
   | Some row \<Rightarrow>
       if state \<notin> ALLOWED_TRANSITIONS (er_state row)
       then Inl (EventTransitionError (BadTransition event_id (er_state row) state))
       else (case lease_fence row lease_owner lease_epoch now of
               Some e \<Rightarrow> Inl e
             | None \<Rightarrow>
                 let r = row\<lparr>er_state := state, er_updated_at := now,
                           er_ticket_id := coalesce ticket_id (er_ticket_id row), er_retry_at := None,
                           er_terminal_reason := coalesce reason (er_terminal_reason row),
                           er_lease_owner := None, er_lease_expires_at := None\<rparr>
                 in Inr (r, log_attempt event_id state now reason (put_event r st))))"

record retry_record =
  rt_event_id :: string
  rt_attempt_count :: nat
  rt_retry_at :: "int option"
  rt_terminal :: bool

definition failed_attempts :: "store \<Rightarrow> string \<Rightarrow> nat" where
  "failed_attempts st event_id =
     length (filter (\<lambda>a. at_state a = RETRYABLE_FAILED) (event_attempts st event_id))"

definition schedule_retry ::
  "string \<Rightarrow> string \<Rightarrow> string option \<Rightarrow> int \<Rightarrow> nat \<Rightarrow> string option \<Rightarrow> int option \<Rightarrow> int \<Rightarrow> store \<Rightarrow>
   retry_record outcome" where
  "schedule_retry event_id reason ticket_id base max_attempts lease_owner lease_epoch now st =
     (if base \<le> 0 \<or> max_attempts < 1 then Inl (EventStoreError BadPolicy)
      else case get st event_id of
        None \<Rightarrow> Inl (EventStoreError (NoSuchEvent event_id))
      | Some row \<Rightarrow>
          if er_state row \<notin> {ADMITTED, RUNNING, RETRYABLE_FAILED}
          then Inl (EventTransitionError (NotRetryable event_id (er_state row)))
          else (case lease_fence row lease_owner lease_epoch now of
                  Some e \<Rightarrow> Inl e
                | None \<Rightarrow>
                    let attempts = failed_attempts st event_id + 1;
                        (target, retry_at) = (if attempts \<ge> max_attempts then (DEAD_LETTER, None)
                          else (RETRYABLE_FAILED, Some (now + base * 2 ^ (attempts - 1))));
                        r = row\<lparr>er_state := target, er_updated_at := now, er_retry_at := retry_at,
                              er_ticket_id := coalesce ticket_id (er_ticket_id row),
                              er_terminal_reason := Some reason,
                              er_lease_owner := None, er_lease_expires_at := None\<rparr>
                    in Inr (\<lparr>rt_event_id = event_id, rt_attempt_count = attempts, rt_retry_at = retry_at,
                             rt_terminal = (target = DEAD_LETTER)\<rparr>,
                            log_attempt event_id target now (Some reason) (put_event r st))))"

definition acquire_lease ::
  "string \<Rightarrow> string \<Rightarrow> int \<Rightarrow> int \<Rightarrow> store \<Rightarrow> event_row outcome" where
  "acquire_lease event_id owner lease_time now st =
     (if py_strip owner = [] \<or> lease_time \<le> 0 then Inl (EventLeaseError BadLease)
      else case get st event_id of
        None \<Rightarrow> Inl (EventLeaseError (NoSuchEvent event_id))
      | Some row \<Rightarrow>
          if er_state row \<notin> {ADMITTED, RUNNING, RETRYABLE_FAILED}
          then Inl (EventLeaseError (CannotLease event_id (er_state row)))
          else if er_state row = RETRYABLE_FAILED \<and>
                  (case er_retry_at row of None \<Rightarrow> True | Some t \<Rightarrow> t > now)
          then Inl (EventLeaseError (RetryNotDue event_id))
          else if er_state row = RUNNING \<and> (case er_lease_expires_at row of None \<Rightarrow> False | Some t \<Rightarrow> t > now)
          then Inl (EventLeaseError (LeaseHeld event_id (er_lease_owner row)
                 (case er_lease_expires_at row of Some t \<Rightarrow> t | None \<Rightarrow> now)))
          else let r = row\<lparr>er_state := RUNNING, er_updated_at := now, er_lease_owner := Some owner,
                         er_lease_expires_at := Some (now + lease_time),
                         er_lease_epoch := er_lease_epoch row + 1, er_retry_at := None\<rparr>
               in Inr (r, log_attempt event_id RUNNING now (Some (''lease acquired by '' @ owner)) (put_event r st)))"

definition renew_lease ::
  "string \<Rightarrow> string \<Rightarrow> int \<Rightarrow> int \<Rightarrow> int \<Rightarrow> store \<Rightarrow> event_row outcome" where
  "renew_lease event_id owner lease_epoch lease_time now st =
     (if py_strip owner = [] \<or> lease_time \<le> 0 then Inl (EventLeaseError BadLease)
      else case get st event_id of
        None \<Rightarrow> Inl (EventLeaseError (NoSuchEvent event_id))
      | Some row \<Rightarrow>
          if er_state row \<noteq> RUNNING then Inl (EventLeaseError (NotRunning event_id))
          else (case lease_fence row (Some owner) (Some lease_epoch) now of
                  Some e \<Rightarrow> Inl e
                | None \<Rightarrow> let r = row\<lparr>er_lease_expires_at := Some (now + lease_time), er_updated_at := now\<rparr>
                          in Inr (r, put_event r st)))"

text \<open>The recovery queries.  \<open>deadline\<close> is the key they order by.\<close>

definition deadline :: "event_row \<Rightarrow> int option" where
  "deadline r = coalesce (er_retry_at r) (er_lease_expires_at r)"

definition retry_due :: "int \<Rightarrow> event_row \<Rightarrow> bool" where
  "retry_due now r \<longleftrightarrow> er_state r = RETRYABLE_FAILED \<and> (case er_retry_at r of None \<Rightarrow> False | Some t \<Rightarrow> t \<le> now)"

definition lease_lapsed :: "int \<Rightarrow> event_row \<Rightarrow> bool" where
  "lease_lapsed now r \<longleftrightarrow> er_state r = RUNNING \<and> (case er_lease_expires_at r of None \<Rightarrow> False | Some t \<Rightarrow> t \<le> now)"

definition eligible_retries :: "int \<Rightarrow> store \<Rightarrow> event_row list" where
  "eligible_retries now st = sort_key (\<lambda>r. the (er_retry_at r)) (filter (retry_due now) (st_events st))"

definition recoverable_events :: "int \<Rightarrow> store \<Rightarrow> event_row list" where
  "recoverable_events now st = sort_key (\<lambda>r. (the (deadline r), er_id r))
     (filter (\<lambda>r. retry_due now r \<or> lease_lapsed now r) (st_events st))"

definition dead_letters :: "store \<Rightarrow> event_row list" where
  "dead_letters st = sort_key er_updated_at (filter (\<lambda>r. er_state r = DEAD_LETTER) (st_events st))"

subsection \<open>Operations as steps\<close>

datatype event_op =
    Create string string dict bool
  | Update string string dict
  | Transit string event_state "string option" "string option" "string option" "int option"
  | Retry string string "string option" int nat "string option" "int option"
  | Acquire string string int
  | Renew string string int int

definition drop_result :: "'a outcome \<Rightarrow> store_error + store" where
  "drop_result r = (case r of Inl e \<Rightarrow> Inl e | Inr (_, st) \<Rightarrow> Inr st)"

fun run_op :: "event_op \<Rightarrow> int \<Rightarrow> store \<Rightarrow> store_error + store" where
  "run_op (Create i d p strict) now st = drop_result (create_or_get i d p strict now st)"
| "run_op (Update i d p) now st = drop_result (create_or_update i d p now st)"
| "run_op (Transit i s why t ow ep) now st = drop_result (transition i s why t ow ep now st)"
| "run_op (Retry i why t b m ow ep) now st = drop_result (schedule_retry i why t b m ow ep now st)"
| "run_op (Acquire i ow l) now st = drop_result (acquire_lease i ow l now st)"
| "run_op (Renew i ow ep l) now st = drop_result (renew_lease i ow ep l now st)"

text \<open>A call that raises leaves the tables as they were.\<close>

definition exec :: "event_op \<times> int \<Rightarrow> store \<Rightarrow> store" where
  "exec x st = (case run_op (fst x) (snd x) st of Inl _ \<Rightarrow> st | Inr st' \<Rightarrow> st')"

definition execs :: "(event_op \<times> int) list \<Rightarrow> store \<Rightarrow> store" where
  "execs xs st = fold exec xs st"

end
