(* ===== verification/Fencing.thy ===== *)
theory Fencing
  imports Store_Tables
begin

section \<open>The contract of a leased table\<close>

text \<open>
  Two tables of the store hand rows to workers under a lease with an epoch: events and outbox
  deliveries.  The locale states what both promise about one operation; its lemmas say what that
  means for a worker over any sequence of operations of any other workers.
\<close>

locale leased_table =
  fixes look :: "'st \<Rightarrow> 'k \<Rightarrow> 'r option"
    and run :: "'op \<Rightarrow> 'st \<Rightarrow> 'st"
    and inv :: "'st \<Rightarrow> bool"
    and holder :: "'r \<Rightarrow> string option"
    and epoch :: "'r \<Rightarrow> int"
    and expiry :: "'r \<Rightarrow> int option"
    and signs :: "'op \<Rightarrow> 'k \<Rightarrow> string \<Rightarrow> int \<Rightarrow> bool"
    and time :: "'op \<Rightarrow> int"
  assumes inv_run: "inv st \<Longrightarrow> inv (run x st)"
    and persist: "inv st \<Longrightarrow> look st k = Some r \<Longrightarrow> \<exists>r'. look (run x st) k = Some r' \<and> epoch r \<le> epoch r' \<and>
      (epoch r' = epoch r \<longrightarrow> holder r' = holder r \<or>
        holder r' = None \<and> (\<exists>ow. holder r = Some ow \<and> signs x k ow (epoch r)))"
    and refuse: "inv st \<Longrightarrow> look st k = Some r \<Longrightarrow> holder r = Some ow \<Longrightarrow> expiry r = Some t \<Longrightarrow>
      time x < t \<Longrightarrow> \<not> signs x k ow (epoch r) \<Longrightarrow> look (run x st) k = Some r"
begin

text \<open>A live lease: until it expires nothing but its holder's own signed calls touches the row.\<close>

lemma exclusive:
  assumes "inv st" and "look st k = Some r" and "holder r = Some ow" and "expiry r = Some t"
    and "\<forall>x\<in>set xs. time x < t \<and> \<not> signs x k ow (epoch r)"
  shows "look (fold run xs st) k = Some r"
  using assms by (induction xs arbitrary: st) (auto intro: inv_run refuse)

text \<open>The epoch fences: as long as it is unchanged the holder is the same or has released the row itself.\<close>

lemma fenced:
  assumes "inv st" and "look st k = Some r"
  shows "\<exists>r'. look (fold run xs st) k = Some r' \<and> epoch r \<le> epoch r' \<and>
    (epoch r' = epoch r \<longrightarrow> holder r' = holder r \<or>
      holder r' = None \<and> (\<exists>x\<in>set xs. \<exists>ow. holder r = Some ow \<and> signs x k ow (epoch r)))"
  using assms
proof (induction xs arbitrary: st r)
  case (Cons x xs)
  obtain q where q: "look (run x st) k = Some q" "epoch r \<le> epoch q"
    "epoch q = epoch r \<longrightarrow> holder q = holder r \<or>
      holder q = None \<and> (\<exists>ow. holder r = Some ow \<and> signs x k ow (epoch r))"
    using persist [OF Cons.prems] by blast
  obtain r' where r': "look (fold run (x # xs) st) k = Some r'" and IH: "epoch q \<le> epoch r' \<and>
    (epoch r' = epoch q \<longrightarrow> holder r' = holder q \<or>
      holder r' = None \<and> (\<exists>x\<in>set xs. \<exists>ow. holder q = Some ow \<and> signs x k ow (epoch q)))"
    using Cons.IH [OF inv_run [OF Cons.prems(1)] q(1)] by auto
  have "holder r' = holder r \<or>
      holder r' = None \<and> (\<exists>x\<in>set (x # xs). \<exists>ow. holder r = Some ow \<and> signs x k ow (epoch r))"
    if "epoch r' = epoch r"
  proof -
    from that q(2) IH have "epoch q = epoch r" and "epoch r' = epoch q" by linarith+
    with q(3) IH show ?thesis by auto
  qed
  moreover have "epoch r \<le> epoch r'" using q(2) IH by linarith
  ultimately show ?case using r' by blast
qed simp

lemma inv_fold: "inv st \<Longrightarrow> inv (fold run xs st)"
  by (induction xs arbitrary: st) (auto intro: inv_run)

end

end
