(* ===== verification/Event_Lifecycle.thy ===== *)
theory Event_Lifecycle
  imports Event_Store Fencing
begin

section \<open>What the event table guarantees\<close>

text \<open>
  The row relation \<open>row_step\<close> is the abstract view of the event operations: what one accepted call
  may do to one row.  \<open>run_opE\<close> shows the operations implement it; invariants, fencing and the
  lifecycle theorems follow from it by its inversion rules.
\<close>

subsection \<open>One row, one accepted call\<close>

inductive row_step :: "event_op \<Rightarrow> int \<Rightarrow> event_row \<Rightarrow> event_row \<Rightarrow> bool" where
  update: "er_state r = RECEIVED \<Longrightarrow> validate_payload_update (er_payload r) p = None \<Longrightarrow>
    row_step (Update (er_id r) d p) now r (r\<lparr>er_payload := stored_dict p, er_updated_at := now\<rparr>)"
| transit: "s \<in> ALLOWED_TRANSITIONS (er_state r) \<Longrightarrow> lease_fence r ow ep now = None \<Longrightarrow>
    row_step (Transit (er_id r) s why t ow ep) now r
      (r\<lparr>er_state := s, er_updated_at := now, er_ticket_id := coalesce t (er_ticket_id r), er_retry_at := None,
         er_terminal_reason := coalesce why (er_terminal_reason r), er_lease_owner := None,
         er_lease_expires_at := None\<rparr>)"
| retry: "er_state r \<in> {ADMITTED, RUNNING, RETRYABLE_FAILED} \<Longrightarrow> lease_fence r ow ep now = None \<Longrightarrow>
    s = DEAD_LETTER \<and> u = None \<or> s = RETRYABLE_FAILED \<and> u \<noteq> None \<Longrightarrow>
    row_step (Retry (er_id r) why t b m ow ep) now r
      (r\<lparr>er_state := s, er_updated_at := now, er_retry_at := u, er_ticket_id := coalesce t (er_ticket_id r),
         er_terminal_reason := Some why, er_lease_owner := None, er_lease_expires_at := None\<rparr>)"
| acquire: "er_state r \<in> {ADMITTED, RUNNING, RETRYABLE_FAILED} \<Longrightarrow>
    er_state r = RUNNING \<longrightarrow> (\<forall>e. er_lease_expires_at r = Some e \<longrightarrow> e \<le> now) \<Longrightarrow>
    er_state r = RETRYABLE_FAILED \<longrightarrow> (\<exists>e. er_retry_at r = Some e \<and> e \<le> now) \<Longrightarrow>
    row_step (Acquire (er_id r) o1 l) now r
      (r\<lparr>er_state := RUNNING, er_updated_at := now, er_lease_owner := Some o1,
         er_lease_expires_at := Some (now + l), er_lease_epoch := er_lease_epoch r + 1, er_retry_at := None\<rparr>)"
| renew: "er_state r = RUNNING \<Longrightarrow> lease_fence r (Some o1) (Some ep') now = None \<Longrightarrow>
    row_step (Renew (er_id r) o1 ep' l) now r
      (r\<lparr>er_lease_expires_at := Some (now + l), er_updated_at := now\<rparr>)"

inductive_cases row_stepE: "row_step op now r r'"

text \<open>The edges the operations take: the declared transitions, and those of a retry and of a lease.\<close>

definition lifecycle :: "event_state \<Rightarrow> event_state \<Rightarrow> bool" where
  "lifecycle a b \<longleftrightarrow> b \<in> ALLOWED_TRANSITIONS a \<or>
     (a, b) \<in> {(ADMITTED, DEAD_LETTER), (RUNNING, DEAD_LETTER), (RETRYABLE_FAILED, RETRYABLE_FAILED),
       (RETRYABLE_FAILED, RUNNING), (RUNNING, RUNNING)}"

lemma row_step_id: "row_step op now r r' \<Longrightarrow> er_id r' = er_id r"
  by (auto elim: row_stepE)

lemma row_step_lifecycle: "row_step op now r r' \<Longrightarrow> er_state r' = er_state r \<or> lifecycle (er_state r) (er_state r')"
  by (auto elim!: row_stepE simp: lifecycle_def ALLOWED_TRANSITIONS_def)

fun quiet :: "event_op \<Rightarrow> bool" where
  "quiet (Update i d p) = True"
| "quiet (Renew i ow ep l) = True"
| "quiet _ = False"

lemma row_step_lifecycle_logged:
  "row_step op now r r' \<Longrightarrow> \<not> quiet op \<Longrightarrow> lifecycle (er_state r) (er_state r')"
  by (auto elim!: row_stepE simp: lifecycle_def ALLOWED_TRANSITIONS_def)

text \<open>How an accepted call changes the two tables.\<close>

definition born :: "event_row \<Rightarrow> bool" where
  "born r \<longleftrightarrow> er_state r = RECEIVED \<and> er_lease_owner r = None \<and> er_lease_expires_at r = None \<and>
     er_lease_epoch r = 0 \<and> er_retry_at r = None"

definition logged :: "store \<Rightarrow> store \<Rightarrow> event_row \<Rightarrow> bool" where
  "logged st st' r \<longleftrightarrow> (\<exists>a. st_attempts st' = st_attempts st @ [a] \<and> at_event a = er_id r \<and> at_state a = er_state r)"

definition created :: "store \<Rightarrow> store \<Rightarrow> bool" where
  "created st st' \<longleftrightarrow> (\<exists>r. get st (er_id r) = None \<and> born r \<and> st_events st' = st_events st @ [r] \<and> logged st st' r)"

definition changed :: "event_op \<Rightarrow> int \<Rightarrow> store \<Rightarrow> store \<Rightarrow> bool" where
  "changed op now st st' \<longleftrightarrow> (\<exists>r r'. get st (er_id r) = Some r \<and> row_step op now r r' \<and>
     st_events st' = set_row er_id r' (st_events st) \<and>
     (logged st st' r' \<and> lifecycle (er_state r) (er_state r') \<or> er_state r' = er_state r \<and> st_attempts st' = st_attempts st))"

lemma tables_put_log [simp]:
  "st_events (put_event r st) = set_row er_id r (st_events st)"
  "st_attempts (put_event r st) = st_attempts st"
  "st_events (log_attempt i s now why st) = st_events st"
  "st_attempts (log_attempt i s now why st) = st_attempts st @
     [\<lparr>at_event = i, at_state = s, at_recorded_at = now, at_reason = why\<rparr>]"
  by (simp_all add: put_event_def log_attempt_def)

lemma get_Some_id: "get st i = Some r \<Longrightarrow> er_id r = i"
  by (auto simp: get_def dest: row_by_SomeD)

lemma drop_result_Inr: "drop_result res = Inr st' \<longleftrightarrow> (\<exists>r. res = Inr (r, st'))"
  by (auto simp: drop_result_def split: sum.splits)

lemma changed_logged:
  assumes "get st i = Some r" and "row_step op now r r'" and "er_id r' = i" and "er_state r' = s"
    and "lifecycle (er_state r) (er_state r')" and "st' = log_attempt i s now why (put_event r' st)"
  shows "changed op now st st'"
  unfolding changed_def
  by (rule exI [of _ r], rule exI [of _ r']) (use assms get_Some_id [OF assms(1)] in \<open>auto simp: logged_def\<close>)

lemma changed_quiet:
  assumes "get st i = Some r" and "row_step op now r r'" and "er_state r' = er_state r"
    and "st' = put_event r' st"
  shows "changed op now st st'"
  unfolding changed_def
  by (rule exI [of _ r], rule exI [of _ r']) (use assms get_Some_id [OF assms(1)] in auto)

lemma insert_event_props:
  "insert_event i d p now st = (r, st') \<Longrightarrow> er_id r = i \<and> born r \<and> er_payload r = stored_dict p \<and>
     er_device r = d \<and> st_events st' = st_events st @ [r] \<and> logged st st' r"
  by (auto simp: insert_event_def Let_def born_def logged_def)

lemma run_op_shape:
  assumes "run_op op now st = Inr st'"
  shows "st' = st \<or> created st st' \<or> changed op now st st'"
proof (cases op)
  case (Create i d p s)
  with assms show ?thesis
    by (auto simp: drop_result_Inr create_or_get_def created_def dest!: insert_event_props
        split: option.splits if_splits prod.splits)
next
  case (Update i d p)
  show ?thesis
  proof (cases "get st i")
    case None
    with assms Update show ?thesis
      by (auto simp: drop_result_Inr create_or_update_def created_def dest!: insert_event_props split: prod.splits)
  next
    case (Some row)
    define r where "r = row\<lparr>er_payload := stored_dict p, er_updated_at := now\<rparr>"
    from assms Update Some have "er_state row = RECEIVED" "validate_payload_update (er_payload row) p = None"
      and st': "st' = put_event r st"
      by (auto simp: drop_result_Inr create_or_update_def Let_def r_def split: option.splits if_splits)
    then have "row_step op now row r"
      using Update get_Some_id [OF Some] row_step.update unfolding r_def by blast
    then show ?thesis
      by (intro disjI2) (rule changed_quiet [OF Some _ _ st'], simp_all add: r_def)
  qed
next
  case (Transit i s why t ow ep)
  with assms obtain row where row: "get st i = Some row"
    by (auto simp: drop_result_Inr transition_def split: option.splits)
  define r where "r = row\<lparr>er_state := s, er_updated_at := now, er_ticket_id := coalesce t (er_ticket_id row),
    er_retry_at := None, er_terminal_reason := coalesce why (er_terminal_reason row), er_lease_owner := None,
    er_lease_expires_at := None\<rparr>"
  from assms Transit row have "s \<in> ALLOWED_TRANSITIONS (er_state row)" "lease_fence row ow ep now = None"
    and st': "st' = log_attempt i s now why (put_event r st)"
    by (auto simp: drop_result_Inr transition_def Let_def r_def split: option.splits if_splits)
  then have "row_step op now row r"
    using Transit get_Some_id [OF row] row_step.transit unfolding r_def by blast
  moreover from this have "lifecycle (er_state row) (er_state r)"
    by (rule row_step_lifecycle_logged) (simp add: Transit)
  ultimately show ?thesis
    by (intro disjI2) (rule changed_logged [OF row _ _ _ _ st'], simp_all add: r_def get_Some_id [OF row])
next
  case (Retry i why t b m ow ep)
  with assms obtain row where row: "get st i = Some row"
    by (auto simp: drop_result_Inr schedule_retry_def split: option.splits if_splits)
  define r where "r s u = row\<lparr>er_state := s, er_updated_at := now, er_retry_at := u,
    er_ticket_id := coalesce t (er_ticket_id row), er_terminal_reason := Some why,
    er_lease_owner := None, er_lease_expires_at := None\<rparr>" for s u
  from assms Retry row obtain s u where su: "s = DEAD_LETTER \<and> u = None \<or> s = RETRYABLE_FAILED \<and> u \<noteq> None"
    and ok: "er_state row \<in> {ADMITTED, RUNNING, RETRYABLE_FAILED}" "lease_fence row ow ep now = None"
    and st': "st' = log_attempt i s now (Some why) (put_event (r s u) st)"
    by (auto simp: drop_result_Inr schedule_retry_def Let_def r_def split: option.splits if_splits)
  have "row_step op now row (r s u)"
    using Retry get_Some_id [OF row] row_step.retry [OF ok su] unfolding r_def by blast
  moreover from this have "lifecycle (er_state row) (er_state (r s u))"
    by (rule row_step_lifecycle_logged) (simp add: Retry)
  ultimately show ?thesis
    by (intro disjI2) (rule changed_logged [OF row _ _ _ _ st'], simp_all add: r_def get_Some_id [OF row])
next
  case (Acquire i ow l)
  with assms obtain row where row: "get st i = Some row"
    by (auto simp: drop_result_Inr acquire_lease_def split: option.splits if_splits)
  define r where "r = row\<lparr>er_state := RUNNING, er_updated_at := now, er_lease_owner := Some ow,
    er_lease_expires_at := Some (now + l), er_lease_epoch := er_lease_epoch row + 1, er_retry_at := None\<rparr>"
  from assms Acquire row have "er_state row \<in> {ADMITTED, RUNNING, RETRYABLE_FAILED}"
    "er_state row = RUNNING \<longrightarrow> (\<forall>e. er_lease_expires_at row = Some e \<longrightarrow> e \<le> now)"
    "er_state row = RETRYABLE_FAILED \<longrightarrow> (\<exists>e. er_retry_at row = Some e \<and> e \<le> now)"
    and st': "st' = log_attempt i RUNNING now (Some (''lease acquired by '' @ ow)) (put_event r st)"
    by (auto simp: drop_result_Inr acquire_lease_def Let_def r_def split: option.splits if_splits)
  then have "row_step op now row r"
    using Acquire get_Some_id [OF row] row_step.acquire unfolding r_def by blast
  moreover from this have "lifecycle (er_state row) (er_state r)"
    by (rule row_step_lifecycle_logged) (simp add: Acquire)
  ultimately show ?thesis
    by (intro disjI2) (rule changed_logged [OF row _ _ _ _ st'], simp_all add: r_def get_Some_id [OF row])
next
  case (Renew i ow ep l)
  with assms obtain row where row: "get st i = Some row"
    by (auto simp: drop_result_Inr renew_lease_def split: option.splits if_splits)
  define r where "r = row\<lparr>er_lease_expires_at := Some (now + l), er_updated_at := now\<rparr>"
  from assms Renew row have "er_state row = RUNNING" "lease_fence row (Some ow) (Some ep) now = None"
    and st': "st' = put_event r st"
    by (auto simp: drop_result_Inr renew_lease_def Let_def r_def split: option.splits if_splits)
  then have "row_step op now row r"
    using Renew get_Some_id [OF row] row_step.renew unfolding r_def by blast
  then show ?thesis
    by (intro disjI2) (rule changed_quiet [OF row _ _ st'], simp_all add: r_def)
qed

subsection \<open>The invariant of the table\<close>

definition row_ok :: "event_row \<Rightarrow> bool" where
  "row_ok r \<longleftrightarrow> (er_lease_owner r \<noteq> None \<longrightarrow> er_lease_expires_at r \<noteq> None \<and> 1 \<le> er_lease_epoch r) \<and>
     (er_lease_expires_at r \<noteq> None \<longrightarrow> er_state r = RUNNING) \<and>
     (er_retry_at r \<noteq> None \<longrightarrow> er_state r = RETRYABLE_FAILED) \<and> 0 \<le> er_lease_epoch r"

definition history :: "store \<Rightarrow> string \<Rightarrow> event_state list" where
  "history st i = map at_state (event_attempts st i)"

definition history_ok :: "event_state list \<Rightarrow> event_state \<Rightarrow> bool" where
  "history_ok h s \<longleftrightarrow> h \<noteq> [] \<and> hd h = RECEIVED \<and> last h = s \<and> successively lifecycle h"

definition events_ok :: "store \<Rightarrow> bool" where
  "events_ok st \<longleftrightarrow> distinct (map er_id (st_events st)) \<and>
     at_event ` set (st_attempts st) \<subseteq> er_id ` set (st_events st) \<and>
     (\<forall>r\<in>set (st_events st). row_ok r \<and> history_ok (history st (er_id r)) (er_state r))"

lemma row_step_ok: "row_step op now r r' \<Longrightarrow> row_ok r \<Longrightarrow> row_ok r'"
  by (auto elim!: row_stepE simp: row_ok_def)

lemma event_attempts_append:
  "st_attempts st' = st_attempts st @ [a] \<Longrightarrow>
     history st' i = history st i @ (if at_event a = i then [at_state a] else [])"
  by (simp add: history_def event_attempts_def)

lemma history_ok_snoc: "history_ok h s \<Longrightarrow> lifecycle s t \<Longrightarrow> history_ok (h @ [t]) t"
  by (auto simp: history_ok_def successively_append_iff)

lemma created_ok:
  assumes "events_ok st" and "created st st'"
  shows "events_ok st'"
proof -
  obtain r a where r: "get st (er_id r) = None" "born r" "st_events st' = st_events st @ [r]"
    "st_attempts st' = st_attempts st @ [a]" "at_event a = er_id r" "at_state a = er_state r"
    using assms(2) by (auto simp: created_def logged_def)
  have new: "er_id r \<notin> er_id ` set (st_events st)" using r(1) by (simp add: get_def row_by_None_iff)
  have hist: "history st' i = history st i @ (if er_id r = i then [er_state r] else [])" for i
    using event_attempts_append [OF r(4)] r(5,6) by simp
  have "at_event b \<noteq> er_id r" if "b \<in> set (st_attempts st)" for b
  proof -
    have "at_event b \<in> er_id ` set (st_events st)"
      using assms(1) that unfolding events_ok_def by blast
    with new show ?thesis by metis
  qed
  then have "history st (er_id r) = []"
    by (simp add: history_def event_attempts_def filter_empty_conv)
  then have "history_ok (history st' (er_id r)) (er_state r)" and "row_ok r"
    using r(2) by (simp_all add: hist history_ok_def born_def row_ok_def)
  moreover have "history st' (er_id x) = history st (er_id x)" if "x \<in> set (st_events st)" for x
    using new that by (auto simp: hist)
  ultimately show ?thesis
    using assms(1) new r(3-5) by (auto simp: events_ok_def)
qed

lemma changed_ok:
  assumes "events_ok st" and "changed op now st st'"
  shows "events_ok st'"
proof -
  obtain r r' where r: "get st (er_id r) = Some r" "row_step op now r r'"
    "st_events st' = set_row er_id r' (st_events st)"
    and at: "logged st st' r' \<and> lifecycle (er_state r) (er_state r') \<or>
      er_state r' = er_state r \<and> st_attempts st' = st_attempts st"
    using assms(2) by (auto simp: changed_def)
  have id: "er_id r' = er_id r" by (rule row_step_id [OF r(2)])
  have mem: "r \<in> set (st_events st)" using r(1) by (auto simp: get_def dest: row_by_SomeD)
  with assms(1) have ok: "row_ok r" "history_ok (history st (er_id r)) (er_state r)"
    by (auto simp: events_ok_def)
  have "history_ok (history st' (er_id r)) (er_state r') \<and> (\<forall>i. i \<noteq> er_id r \<longrightarrow> history st' i = history st i) \<and>
      at_event ` set (st_attempts st') \<subseteq> er_id ` set (st_events st)"
    using at
  proof
    assume l: "logged st st' r' \<and> lifecycle (er_state r) (er_state r')"
    then obtain a where a: "st_attempts st' = st_attempts st @ [a]" "at_event a = er_id r" "at_state a = er_state r'"
      using id by (auto simp: logged_def)
    show ?thesis
      using event_attempts_append [OF a(1)] a mem l assms(1) history_ok_snoc [OF ok(2)] by (auto simp: events_ok_def)
  next
    assume "er_state r' = er_state r \<and> st_attempts st' = st_attempts st"
    with ok assms(1) show ?thesis by (auto simp: history_def event_attempts_def events_ok_def)
  qed
  note new = this
  have keys: "map er_id (st_events st') = map er_id (st_events st)" by (simp add: r(3))
  have "row_ok x \<and> history_ok (history st' (er_id x)) (er_state x)" if "x \<in> set (st_events st')" for x
  proof (cases "x = r'")
    case True
    with new id row_step_ok [OF r(2) ok(1)] show ?thesis by simp
  next
    case False
    with that have "x \<in> set (st_events st)" "er_id x \<noteq> er_id r"
      using set_set_row [of x er_id r'] id by (auto simp: r(3))
    with new assms(1) show ?thesis by (auto simp: events_ok_def)
  qed
  moreover have "er_id ` set (st_events st') = er_id ` set (st_events st)"
    using keys by (metis set_map)
  ultimately show ?thesis
    using assms(1) keys new by (auto simp: events_ok_def)
qed

lemma exec_ok:
  assumes "events_ok st" shows "events_ok (exec x st)"
proof (cases "run_op (fst x) (snd x) st")
  case (Inr st')
  then have "exec x st = st'" by (simp add: exec_def)
  with run_op_shape [OF Inr] show ?thesis
    by (elim disjE) (simp_all add: assms created_ok [OF assms] changed_ok [OF assms])
qed (use assms in \<open>simp add: exec_def\<close>)

lemma events_ok_new: "events_ok new_store"
  by (simp add: events_ok_def new_store_def)

subsection \<open>Leases\<close>

lemma exec_row:
  assumes "get st i = Some r"
  shows "get (exec x st) i = Some r \<or>
    (\<exists>r'. get (exec x st) i = Some r' \<and> row_step (fst x) (snd x) r r')"
proof (cases "run_op (fst x) (snd x) st")
  case (Inr st')
  then have e: "exec x st = st'" by (simp add: exec_def)
  from run_op_shape [OF Inr] show ?thesis
  proof (elim disjE)
    assume "st' = st"
    with e assms show ?thesis by simp
  next
    assume "created st st'"
    with e assms show ?thesis by (auto simp: created_def get_def row_by_append)
  next
    assume "changed (fst x) (snd x) st st'"
    then obtain q q' where q: "get st (er_id q) = Some q" "row_step (fst x) (snd x) q q'"
      "st_events st' = set_row er_id q' (st_events st)"
      by (auto simp: changed_def)
    have get: "get st' i = (if er_id q = i then Some q' else Some r)"
      using assms q(3) row_step_id [OF q(2)] by (simp add: get_def row_by_set_row)
    show ?thesis
    proof (cases "er_id q = i")
      case True
      with q(1) assms have "q = r" by simp
      with True get q(2) e show ?thesis by auto
    qed (use get e in simp)
  qed
qed (use assms in \<open>simp add: exec_def\<close>)

text \<open>The calls that carry a worker's credentials.\<close>

fun signs :: "event_op \<times> int \<Rightarrow> string \<Rightarrow> string \<Rightarrow> int \<Rightarrow> bool" where
  "signs (Transit i s why t ow' ep', now) k ow ep = (i = k \<and> ow' = Some ow \<and> ep' = Some ep)"
| "signs (Retry i why t b m ow' ep', now) k ow ep = (i = k \<and> ow' = Some ow \<and> ep' = Some ep)"
| "signs (Renew i ow' ep' l, now) k ow ep = (i = k \<and> ow' = ow \<and> ep' = ep)"
| "signs _ k ow ep = False"

lemma lease_fence_None:
  "lease_fence r ow ep now = None \<longleftrightarrow> er_lease_owner r = None \<or>
     ow = er_lease_owner r \<and> ep = Some (er_lease_epoch r) \<and> (\<exists>t. er_lease_expires_at r = Some t \<and> now < t)"
  by (auto simp: lease_fence_def split: option.splits)

lemma row_step_epoch: "row_step op now r r' \<Longrightarrow> er_lease_epoch r \<le> er_lease_epoch r'"
  by (auto elim!: row_stepE)

lemma row_step_holder:
  "row_step op now r r' \<Longrightarrow> er_lease_epoch r' = er_lease_epoch r \<Longrightarrow> er_lease_owner r' = er_lease_owner r \<or>
     er_lease_owner r' = None \<and>
     (\<exists>ow. er_lease_owner r = Some ow \<and> signs (op, now) (er_id r) ow (er_lease_epoch r))"
  by (cases "er_lease_owner r") (auto elim!: row_stepE simp: lease_fence_None)

lemma row_step_refused:
  "row_step op now r r' \<Longrightarrow> row_ok r \<Longrightarrow> er_lease_owner r = Some ow \<Longrightarrow> er_lease_expires_at r = Some t \<Longrightarrow>
     now < t \<Longrightarrow> signs (op, now) (er_id r) ow (er_lease_epoch r)"
  by (auto elim!: row_stepE simp: lease_fence_None row_ok_def)

lemma events_ok_row: "events_ok st \<Longrightarrow> get st i = Some r \<Longrightarrow> row_ok r \<and> r \<in> set (st_events st)"
  by (auto simp: events_ok_def get_def dest: row_by_SomeD)

interpretation lease: leased_table get exec events_ok er_lease_owner er_lease_epoch er_lease_expires_at signs snd
proof unfold_locales
  fix st :: store and x i r
  assume ok: "events_ok st"
  then show "events_ok (exec x st)" by (rule exec_ok)
  assume r: "get st i = Some r"
  have id: "er_id r = i" by (rule get_Some_id [OF r])
  from exec_row [OF r, of x]
  show "\<exists>r'. get (exec x st) i = Some r' \<and> er_lease_epoch r \<le> er_lease_epoch r' \<and>
      (er_lease_epoch r' = er_lease_epoch r \<longrightarrow> er_lease_owner r' = er_lease_owner r \<or>
        er_lease_owner r' = None \<and> (\<exists>ow. er_lease_owner r = Some ow \<and> signs x i ow (er_lease_epoch r)))"
  proof (elim disjE exE conjE)
    fix r' assume "get (exec x st) i = Some r'" and s: "row_step (fst x) (snd x) r r'"
    with row_step_epoch [OF s] row_step_holder [OF s] id show ?thesis by auto
  qed auto
  fix ow t
  assume "er_lease_owner r = Some ow" "er_lease_expires_at r = Some t" "snd x < t"
    "\<not> signs x i ow (er_lease_epoch r)"
  with exec_row [OF r, of x] row_step_refused [of "fst x" "snd x" r _ ow t] events_ok_row [OF ok r] id
  show "get (exec x st) i = Some r" by auto
qed

end
