(* ===== verification/Event_Recovery.thy ===== *)
theory Event_Recovery
  imports Event_Lifecycle
begin

section \<open>The event store's promises to its workers\<close>

text \<open>
  The theorems a receiver, a worker and an operator rely on, over any sequence \<open>xs\<close> of calls made
  by anybody: creation is idempotent, identity and final states do not change, a live lease is
  exclusive and its epoch fences, retries are bounded, and recovery finds exactly the rows that have
  a deadline.
\<close>

lemma execs_Nil [simp]: "execs [] st = st" and execs_Cons [simp]: "execs (x # xs) st = execs xs (exec x st)"
  by (simp_all add: execs_def)

lemma execs_ok: "events_ok st \<Longrightarrow> events_ok (execs xs st)"
  unfolding execs_def by (rule lease.inv_fold)

text \<open>A property of rows that every accepted call keeps holds of the row along a run.\<close>

lemma execs_row_induct:
  assumes "get st i = Some r" and "P r"
    and step: "\<forall>x\<in>set xs. \<forall>q q'. P q \<longrightarrow> er_id q = i \<longrightarrow> row_step (fst x) (snd x) q q' \<longrightarrow> P q'"
  shows "\<exists>r'. get (execs xs st) i = Some r' \<and> P r'"
  using assms
proof (induction xs arbitrary: st r)
  case (Cons x xs)
  from Cons.prems(3) have here: "\<forall>q q'. P q \<longrightarrow> er_id q = i \<longrightarrow> row_step (fst x) (snd x) q q' \<longrightarrow> P q'"
    and rest: "\<forall>x\<in>set xs. \<forall>q q'. P q \<longrightarrow> er_id q = i \<longrightarrow> row_step (fst x) (snd x) q q' \<longrightarrow> P q'"
    by (blast intro: list.set_intros)+
  from exec_row [OF Cons.prems(1), of x] show ?case
  proof (elim disjE exE conjE)
    assume "get (exec x st) i = Some r"
    from Cons.IH [OF this Cons.prems(2) rest] show ?thesis by (simp only: execs_Cons)
  next
    fix r' assume r': "get (exec x st) i = Some r'" "row_step (fst x) (snd x) r r'"
    with here Cons.prems(2) get_Some_id [OF Cons.prems(1)] have "P r'" by blast
    from Cons.IH [OF r'(1) this rest] show ?thesis by (simp only: execs_Cons)
  qed
qed auto

subsection \<open>Creation and identity\<close>

lemma create_new:
  assumes "create_or_get i d p strict now st = Inr ((r, True), st')"
  shows "get st' i = Some r \<and> er_device r = d \<and> er_payload r = stored_dict p \<and> er_state r = RECEIVED"
proof -
  from assms have none: "get st i = None" and ins: "insert_event i d p now st = (r, st')"
    by (auto simp: create_or_get_def split: option.splits if_splits prod.splits)
  from insert_event_props [OF ins] have "er_id r = i" "born r" "er_payload r = stored_dict p"
    "er_device r = d" "st_events st' = st_events st @ [r]" by auto
  with none show ?thesis by (simp add: get_def row_by_append born_def)
qed

definition syslog_payload :: dict where
  "syslog_payload = [(''schema_version'', JInt 2), (''source_kind'', JStr ''syslog''),
     (''line'', JStr ''%BGP-5''), (''received_at'', JInt 7)]"

text \<open>Creation is idempotent and loses nothing: the payload an event is created with reads back equal from
  the store, and creating the same event again, strictly, returns the stored row and changes nothing.\<close>

theorem creation_is_idempotent:
  assumes "create_or_get i d p strict now st = Inr ((r, True), st')" and "wf_json (JDict p)"
  shows "get st' i = Some r \<and> py_eq (JDict p) (JDict (er_payload r)) \<and>
    create_or_get i d p True later st' = Inr ((r, False), st')"
proof -
  note r = create_new [OF assms(1)]
  have "py_eq (JDict p) (JDict (er_payload r))"
    using stored_json_eq [OF assms(2)] r by (simp add: stored_json_dict del: py_eq.simps stored_json.simps)
  moreover have "create_or_get i d p True later st' = Inr ((r, False), st')"
    using r validate_stored [OF assms(2)] by (simp add: create_or_get_def)
  ultimately show ?thesis using r by blast
qed

theorem creation_witness:
  "create_or_get ''e1'' ''RR1'' syslog_payload True 9
     (snd (projr (create_or_get ''e1'' ''RR1'' syslog_payload False 5 new_store))) =
   Inr ((fst (fst (projr (create_or_get ''e1'' ''RR1'' syslog_payload False 5 new_store))), False),
     snd (projr (create_or_get ''e1'' ''RR1'' syslog_payload False 5 new_store)))"
proof -
  have new: "create_or_get ''e1'' ''RR1'' syslog_payload False 5 new_store =
      Inr ((fst (insert_event ''e1'' ''RR1'' syslog_payload 5 new_store), True),
        snd (insert_event ''e1'' ''RR1'' syslog_payload 5 new_store))"
    by (simp add: create_or_get_def get_def new_store_def split: prod.splits)
  have "wf_json (JDict syslog_payload)" by (simp add: syslog_payload_def)
  from creation_is_idempotent [OF new this, of 9] show ?thesis by (simp add: new)
qed

definition safe_payload :: "event_op \<Rightarrow> bool" where
  "safe_payload op \<longleftrightarrow> (\<forall>i d p. op = Update i d p \<longrightarrow> wf_json (JDict p))"

lemma row_step_identity:
  assumes "row_step op now q q'" and "safe_payload op" and "wf_json (JDict (er_payload q))"
  shows "er_device q' = er_device q \<and> same_identity (er_payload q) (er_payload q') \<and>
    (er_state q \<noteq> RECEIVED \<longrightarrow> er_payload q' = er_payload q) \<and> (er_state q' = RECEIVED \<longrightarrow> er_state q = RECEIVED)"
  using assms
proof (cases rule: row_step.cases)
  case (update p d)
  with assms have wf: "wf_json (JDict p)" by (auto simp: safe_payload_def)
  have "same_identity (er_payload q) p"
    using update_keeps_identity [OF update(4)] assms(3) wf by simp
  from same_identity_trans [OF this same_identity_stored [OF wf]] update show ?thesis by simp
qed (use same_identity_refl [OF assms(3)] in \<open>auto simp: ALLOWED_TRANSITIONS_def split: event_state.splits\<close>)

lemma wf_stored: "wf_json (JDict p) \<Longrightarrow> wf_json (JDict (stored_dict p))"
proof -
  have "wf_json v \<Longrightarrow> wf_json (stored_json v)" for v
  proof (induction v rule: wf_json.induct)
    case (2 d)
    then show ?case
      by (auto simp: stored_json_dict distinct_stored simp del: stored_json.simps)
        (auto simp: stored_dict_def list_all_iff)
  qed (auto simp: list_all_iff)
  then show "wf_json (JDict p) \<Longrightarrow> wf_json (JDict (stored_dict p))"
    by (metis stored_json_dict)
qed

lemma row_step_wf: "row_step op now q q' \<Longrightarrow> safe_payload op \<Longrightarrow> wf_json (JDict (er_payload q)) \<Longrightarrow>
    wf_json (JDict (er_payload q'))"
  using wf_stored by (auto elim!: row_stepE simp: safe_payload_def simp del: wf_json.simps)

text \<open>A small history shared by the witnesses: created, admitted, leased by w1 until 110.\<close>

definition leased_run :: "(event_op \<times> int) list" where
  "leased_run = [(Create ''e1'' ''RR1'' syslog_payload False, 5), (Transit ''e1'' ADMITTED None None None None, 6),
     (Acquire ''e1'' ''w1'' 100, 10)]"

definition leased_store :: store where
  "leased_store = execs leased_run new_store"

definition leased_row :: event_row where
  "leased_row = \<lparr>er_id = ''e1'', er_device = ''RR1'', er_state = RUNNING, er_payload = stored_dict syslog_payload,
     er_created_at = 5, er_updated_at = 10, er_ticket_id = None, er_lease_owner = Some ''w1'',
     er_lease_expires_at = Some 110, er_lease_epoch = 1, er_terminal_reason = None, er_retry_at = None\<rparr>"

lemmas run_defs = exec_def drop_result_def create_or_get_def insert_event_def transition_def acquire_lease_def
  schedule_retry_def renew_lease_def lease_fence_def get_def put_event_def log_attempt_def row_by_def set_row_def
  coalesce_def ALLOWED_TRANSITIONS_def failed_attempts_def event_attempts_def new_store_def Let_def

lemma strip_w: "py_strip ''w1'' = ''w1''" "py_strip ''w2'' = ''w2''"
  by (simp_all add: py_strip_def py_lstrip_def py_isspace_def)

lemma leased_store_get: "get leased_store ''e1'' = Some leased_row"
  by (simp add: leased_store_def leased_run_def leased_row_def run_defs strip_w)

lemma leased_store_ok: "events_ok leased_store"
  unfolding leased_store_def by (rule execs_ok [OF events_ok_new])

text \<open>No accepted call changes what an event is about: its device and every field of its payload outside the
  declared volatile ones stay the same along any run, and once it has left the received state its
  payload does not change at all.\<close>

theorem event_identity_is_stable:
  assumes "get st i = Some r" and "wf_json (JDict (er_payload r))" and "\<forall>x\<in>set xs. safe_payload (fst x)"
  shows "\<exists>r'. get (execs xs st) i = Some r' \<and> er_device r' = er_device r \<and>
    same_identity (er_payload r) (er_payload r') \<and> (er_state r \<noteq> RECEIVED \<longrightarrow> er_payload r' = er_payload r)"
proof -
  let ?P = "\<lambda>q. wf_json (JDict (er_payload q)) \<and> er_device q = er_device r \<and>
    same_identity (er_payload r) (er_payload q) \<and>
    (er_state r \<noteq> RECEIVED \<longrightarrow> er_payload q = er_payload r \<and> er_state q \<noteq> RECEIVED)"
  have "\<exists>r'. get (execs xs st) i = Some r' \<and> ?P r'"
  proof (rule execs_row_induct [OF assms(1)])
    show "?P r" using assms(2) same_identity_refl [OF assms(2)] by blast
    have "?P q'" if "x \<in> set xs" "?P q" "row_step (fst x) (snd x) q q'" for x q q'
    proof -
      from that(1) assms(3) have safe: "safe_payload (fst x)" by blast
      from row_step_identity [OF that(3) safe] row_step_wf [OF that(3) safe] that(2) same_identity_trans
      show ?thesis by metis
    qed
    then show "\<forall>x\<in>set xs. \<forall>q q'. ?P q \<longrightarrow> er_id q = i \<longrightarrow> row_step (fst x) (snd x) q q' \<longrightarrow> ?P q'"
      by blast
  qed
  then show ?thesis by blast
qed

theorem identity_witness:
  "\<exists>r'. get (execs [(Retry ''e1'' ''late'' None 5 3 (Some ''w1'') (Some 1), 20)] leased_store) ''e1'' = Some r' \<and>
    er_device r' = ''RR1'' \<and> er_payload r' = stored_dict syslog_payload"
proof -
  have "wf_json (JDict syslog_payload)" by (simp add: syslog_payload_def)
  from wf_stored [OF this] have wf: "wf_json (JDict (er_payload leased_row))" by (simp add: leased_row_def)
  let ?xs = "[(Retry ''e1'' ''late'' None 5 3 (Some ''w1'') (Some 1), 20)]"
  have "\<forall>x\<in>set ?xs. safe_payload (fst x)" by (simp add: safe_payload_def)
  from event_identity_is_stable [OF leased_store_get wf this] show ?thesis by (auto simp: leased_row_def)
qed

subsection \<open>Invariant, leases and final states\<close>

text \<open>In every state the event operations can reach, event ids are unique, a lease has an expiry and only a running
  event has one, only a failed event waits for a retry, and the attempts recorded for an event are a
  path of the lifecycle from received to its present state.\<close>

theorem event_table_invariant:
  "events_ok (execs xs new_store)"
  by (rule execs_ok [OF events_ok_new])

text \<open>C13: A live lease is exclusive: until it expires, no sequence of calls by others, whatever they are, changes
  anything in the row; only calls signed with the holder's name and epoch can.\<close>

theorem live_lease_is_exclusive:
  assumes "events_ok st" and "get st i = Some r" and "er_lease_owner r = Some ow"
    and "er_lease_expires_at r = Some t"
    and "\<forall>x\<in>set xs. snd x < t \<and> \<not> signs x i ow (er_lease_epoch r)"
  shows "get (execs xs st) i = Some r"
  using lease.exclusive [OF assms] by (simp add: execs_def)

theorem live_lease_witness:
  "get (execs [(Acquire ''e1'' ''w2'' 100, 50), (Transit ''e1'' COMPLETED None None (Some ''w2'') (Some 1), 60),
     (Retry ''e1'' ''no'' None 5 3 None None, 70)] leased_store) ''e1'' = Some leased_row"
  by (rule live_lease_is_exclusive [OF leased_store_ok leased_store_get, of "''w1''" 110])
    (simp_all add: leased_row_def)

text \<open>The epoch fences: a row never disappears and its epoch never falls; as long as the epoch is unchanged
  the lease is with the same holder, or was released by a call that holder signed with it.\<close>

theorem lease_epoch_fences:
  assumes "events_ok st" and "get st i = Some r" and "er_lease_owner r = Some ow"
  shows "\<exists>r'. get (execs xs st) i = Some r' \<and> er_lease_epoch r \<le> er_lease_epoch r' \<and>
    (er_lease_epoch r' = er_lease_epoch r \<longrightarrow> er_lease_owner r' = Some ow \<or>
      er_lease_owner r' = None \<and> (\<exists>x\<in>set xs. signs x i ow (er_lease_epoch r)))"
  using lease.fenced [OF assms(1,2), of xs] assms(3) by (auto simp: execs_def)

theorem lease_epoch_witness:
  "\<exists>r'. get (execs [(Retry ''e1'' ''late'' None 5 3 (Some ''w1'') (Some 1), 20)] leased_store) ''e1'' = Some r' \<and>
    1 \<le> er_lease_epoch r' \<and> (er_lease_epoch r' \<noteq> 1 \<or> er_lease_owner r' \<in> {Some ''w1'', None})"
proof -
  have "er_lease_owner leased_row = Some ''w1''" by (simp add: leased_row_def)
  from lease_epoch_fences [OF leased_store_ok leased_store_get this] show ?thesis by (fastforce simp: leased_row_def)
qed

text \<open>Completed and dead-lettered events are final: no call changes anything in their row.\<close>

theorem final_events_never_change:
  assumes "get st i = Some r" and "er_state r \<in> {COMPLETED, DEAD_LETTER}"
  shows "get (execs xs st) i = Some r"
proof -
  have "\<exists>r'. get (execs xs st) i = Some r' \<and> r' = r"
    by (rule execs_row_induct [OF assms(1)])
      (use assms(2) in \<open>auto elim!: row_stepE simp: ALLOWED_TRANSITIONS_def\<close>)
  then show ?thesis by simp
qed

theorem final_events_witness:
  "get (execs [(Acquire ''e1'' ''w2'' 5, 300), (Retry ''e1'' ''x'' None 1 1 None None, 301)]
     (execs [(Transit ''e1'' COMPLETED None None (Some ''w1'') (Some 1), 20)] leased_store)) ''e1'' =
   Some (leased_row\<lparr>er_state := COMPLETED, er_updated_at := 20, er_lease_owner := None, er_lease_expires_at := None\<rparr>)"
proof (rule final_events_never_change)
  show "get (execs [(Transit ''e1'' COMPLETED None None (Some ''w1'') (Some 1), 20)] leased_store) ''e1'' =
      Some (leased_row\<lparr>er_state := COMPLETED, er_updated_at := 20, er_lease_owner := None, er_lease_expires_at := None\<rparr>)"
    by (simp add: leased_store_def leased_run_def leased_row_def run_defs strip_w)
qed simp

subsection \<open>Retries\<close>

lemma get_put_log: "get st i = Some row \<Longrightarrow> er_id r = i \<Longrightarrow> get (log_attempt j s now why (put_event r st)) i = Some r"
  by (simp add: get_def row_by_set_row)

text \<open>Scheduling a retry backs off exponentially and ends: the n-th failure of an event waits the base times
  two to the n-1, and the one that reaches the limit is dead-lettered without a deadline.\<close>

theorem retry_backs_off_and_ends:
  assumes "schedule_retry i why t base limit ow ep now st = Inr (rec, st')"
  shows "let n = failed_attempts st i + 1 in rt_attempt_count rec = n \<and> rt_terminal rec = (limit \<le> n) \<and>
    (\<exists>r. get st' i = Some r \<and> er_lease_owner r = None \<and> er_retry_at r = rt_retry_at rec \<and>
      (if limit \<le> n then er_state r = DEAD_LETTER \<and> er_retry_at r = None
       else er_state r = RETRYABLE_FAILED \<and> er_retry_at r = Some (now + base * 2 ^ (n - 1))))"
  using assms
  by (auto simp: schedule_retry_def Let_def get_put_log get_Some_id split: option.splits if_splits)

theorem retry_witness:
  "let n = failed_attempts leased_store ''e1'' + 1; rec = \<lparr>rt_event_id = ''e1'', rt_attempt_count = 1,
       rt_retry_at = Some 25, rt_terminal = False\<rparr> in rt_attempt_count rec = n \<and> rt_terminal rec = (3 \<le> n) \<and>
    (\<exists>r. get (exec (Retry ''e1'' ''late'' None 5 3 (Some ''w1'') (Some 1), 20) leased_store) ''e1'' = Some r \<and>
      er_lease_owner r = None \<and> er_retry_at r = rt_retry_at rec \<and>
      (if 3 \<le> n then er_state r = DEAD_LETTER \<and> er_retry_at r = None
       else er_state r = RETRYABLE_FAILED \<and> er_retry_at r = Some (20 + 5 * 2 ^ (n - 1))))"
proof -
  have call: "schedule_retry ''e1'' ''late'' None 5 3 (Some ''w1'') (Some 1) 20 leased_store =
      Inr (\<lparr>rt_event_id = ''e1'', rt_attempt_count = 1, rt_retry_at = Some 25, rt_terminal = False\<rparr>,
        exec (Retry ''e1'' ''late'' None 5 3 (Some ''w1'') (Some 1), 20) leased_store)"
    by (simp add: leased_store_def leased_run_def leased_row_def run_defs strip_w)
  show ?thesis using retry_backs_off_and_ends [OF call] unfolding Let_def .
qed

text \<open>Callers who agree on the limit, and leave the failed state to the retry call.\<close>

definition within_policy :: "nat \<Rightarrow> string \<Rightarrow> event_op \<Rightarrow> bool" where
  "within_policy limit i op \<longleftrightarrow> (case op of
     Retry j why t b m ow ep \<Rightarrow> j = i \<longrightarrow> m \<le> limit
   | Transit j s why t ow ep \<Rightarrow> j = i \<longrightarrow> s \<noteq> RETRYABLE_FAILED
   | _ \<Rightarrow> True)"

lemma failed_attempts_history: "failed_attempts st i = length (filter (\<lambda>s. s = RETRYABLE_FAILED) (history st i))"
  by (simp add: failed_attempts_def history_def filter_map comp_def)

lemma failed_attempts_log:
  "failed_attempts (log_attempt j s now why st) i =
     failed_attempts st i + (if j = i \<and> s = RETRYABLE_FAILED then 1 else 0)"
  by (simp add: failed_attempts_def event_attempts_def)

lemma failed_attempts_put [simp]: "failed_attempts (put_event r st) i = failed_attempts st i"
  by (simp add: failed_attempts_def event_attempts_def)

lemma failed_attempts_insert: "insert_event j d p now st = (r, st') \<Longrightarrow> failed_attempts st' i = failed_attempts st i"
  by (auto simp: insert_event_def Let_def failed_attempts_log) (simp add: failed_attempts_def event_attempts_def)

lemma run_op_failed_attempts:
  assumes "run_op op now st = Inr st'" and "within_policy limit i op" and "failed_attempts st i < limit"
  shows "failed_attempts st' i < limit"
proof (cases op)
  case (Create j d p s)
  with assms failed_attempts_insert show ?thesis
    by (fastforce simp: drop_result_Inr create_or_get_def split: option.splits if_splits prod.splits)
next
  case (Update j d p)
  with assms failed_attempts_insert show ?thesis
    by (fastforce simp: drop_result_Inr create_or_update_def Let_def split: option.splits if_splits prod.splits)
next
  case (Transit j s why t ow ep)
  with assms show ?thesis
    by (auto simp: drop_result_Inr transition_def Let_def failed_attempts_log within_policy_def split: option.splits if_splits)
next
  case (Retry j why t b m ow ep)
  with assms show ?thesis
    by (auto simp: drop_result_Inr schedule_retry_def Let_def failed_attempts_log within_policy_def
        split: option.splits if_splits)
next
  case (Acquire j ow l)
  with assms show ?thesis
    by (auto simp: drop_result_Inr acquire_lease_def Let_def failed_attempts_log split: option.splits if_splits)
next
  case (Renew j ow ep l)
  with assms show ?thesis
    by (auto simp: drop_result_Inr renew_lease_def Let_def split: option.splits if_splits)
qed

text \<open>Retries are bounded: when every caller passes at most the same limit, an event has, at any time, fewer
  recorded retryable failures than that limit.\<close>

theorem retries_are_bounded:
  assumes "\<forall>x\<in>set xs. within_policy limit i (fst x)" and "0 < limit"
  shows "failed_attempts (execs xs new_store) i < limit"
proof -
  have "failed_attempts st i < limit \<Longrightarrow> failed_attempts (execs xs st) i < limit" for st
    using assms(1)
  proof (induction xs arbitrary: st)
    case (Cons x xs)
    have "failed_attempts (exec x st) i < limit"
    proof (cases "run_op (fst x) (snd x) st")
      case (Inr st')
      with run_op_failed_attempts [OF Inr] Cons.prems show ?thesis by (simp add: exec_def)
    qed (use Cons.prems in \<open>simp add: exec_def\<close>)
    with Cons show ?case by simp
  qed simp
  moreover have "failed_attempts new_store i = 0"
    by (simp add: failed_attempts_def event_attempts_def new_store_def)
  ultimately show ?thesis using assms(2) by simp
qed

theorem retries_bounded_witness:
  "failed_attempts (execs (leased_run @ [(Retry ''e1'' ''late'' None 5 3 (Some ''w1'') (Some 1), 20)]) new_store) ''e1'' < 3"
  by (rule retries_are_bounded) (auto simp: leased_run_def within_policy_def)

subsection \<open>Recovery\<close>

lemma recoverable_iff:
  assumes "events_ok st"
  shows "r \<in> set (recoverable_events now st) \<longleftrightarrow>
    r \<in> set (st_events st) \<and> (\<exists>t. deadline r = Some t \<and> t \<le> now)"
proof -
  have "retry_due now r \<or> lease_lapsed now r \<longleftrightarrow> (\<exists>t. deadline r = Some t \<and> t \<le> now)" if "row_ok r"
    using that by (auto simp: row_ok_def retry_due_def lease_lapsed_def deadline_def coalesce_def split: option.splits)
  with assms show ?thesis by (auto simp: recoverable_events_def events_ok_def)
qed

text \<open>C16: Recovery finds exactly the rows with a deadline that has passed, each once and in the order of their
  deadlines, and every row it finds can be leased at once by any named worker, at the next epoch.\<close>

theorem recovery_is_exact_and_claimable:
  assumes "events_ok st"
  shows "set (recoverable_events now st) = {r \<in> set (st_events st). \<exists>t. deadline r = Some t \<and> t \<le> now} \<and>
    distinct (map er_id (recoverable_events now st)) \<and>
    sorted (map (\<lambda>r. the (deadline r)) (recoverable_events now st)) \<and>
    (\<forall>r\<in>set (recoverable_events now st). \<forall>ow l. py_strip ow \<noteq> [] \<longrightarrow> 0 < l \<longrightarrow>
      (\<exists>r' st'. acquire_lease (er_id r) ow l now st = Inr (r', st') \<and> er_state r' = RUNNING \<and>
        er_lease_owner r' = Some ow \<and> er_lease_epoch r' = er_lease_epoch r + 1))"
proof (intro conjI ballI allI impI)
  show "set (recoverable_events now st) = {r \<in> set (st_events st). \<exists>t. deadline r = Some t \<and> t \<le> now}"
    using recoverable_iff [OF assms] by blast
  have dis: "distinct (map er_id (st_events st))" using assms by (simp add: events_ok_def)
  then have "distinct (map er_id (filter (\<lambda>r. retry_due now r \<or> lease_lapsed now r) (st_events st)))"
    by (rule distinct_map_filter)
  then show "distinct (map er_id (recoverable_events now st))"
    by (simp add: recoverable_events_def distinct_map)
  have "sorted (map (\<lambda>r. (the (deadline r), er_id r)) (recoverable_events now st))"
    by (simp add: recoverable_events_def)
  then show "sorted (map (\<lambda>r. the (deadline r)) (recoverable_events now st))"
    unfolding sorted_map by (rule sorted_wrt_mono_rel [rotated]) (auto simp: less_eq_prod_def)
next
  fix r and ow :: string and l :: int
  assume r: "r \<in> set (recoverable_events now st)" and ow: "py_strip ow \<noteq> []" and l: "0 < l"
  then have mem: "r \<in> set (st_events st)" and due: "retry_due now r \<or> lease_lapsed now r"
    by (auto simp: recoverable_events_def)
  have "get st (er_id r) = Some r"
    using assms mem by (simp add: get_def events_ok_def row_by_distinct)
  with due ow l show "\<exists>r' st'. acquire_lease (er_id r) ow l now st = Inr (r', st') \<and> er_state r' = RUNNING \<and>
      er_lease_owner r' = Some ow \<and> er_lease_epoch r' = er_lease_epoch r + 1"
    by (auto simp: acquire_lease_def Let_def retry_due_def lease_lapsed_def split: option.splits)
qed

theorem recovery_witness:
  "recoverable_events 110 leased_store = [leased_row] \<and>
    (\<exists>r' st'. acquire_lease ''e1'' ''w2'' 100 110 leased_store = Inr (r', st') \<and> er_state r' = RUNNING \<and>
      er_lease_owner r' = Some ''w2'' \<and> er_lease_epoch r' = 2)"
proof -
  have only: "recoverable_events 110 leased_store = [leased_row]"
    by (simp add: leased_store_def leased_run_def leased_row_def run_defs strip_w recoverable_events_def retry_due_def
        lease_lapsed_def)
  then have "leased_row \<in> set (recoverable_events 110 leased_store)" by simp
  moreover have "py_strip ''w2'' \<noteq> []" "0 < (100::int)" by (simp_all add: strip_w)
  ultimately have "\<exists>r' st'. acquire_lease (er_id leased_row) ''w2'' 100 110 leased_store = Inr (r', st') \<and>
      er_state r' = RUNNING \<and> er_lease_owner r' = Some ''w2'' \<and> er_lease_epoch r' = er_lease_epoch leased_row + 1"
    using recovery_is_exact_and_claimable [OF leased_store_ok, of 110] by blast
  with only show ?thesis by (simp add: leased_row_def)
qed

text \<open>A call to \<open>transition\<close> takes an event out of recovery for good: whatever state it names, the row has no
  deadline afterwards and no recovery query finds it at any later time.  The operator's retry
  (failed back to admitted) and the unleased start (admitted to running) are such calls, so an
  event the operator asked to retry is not retried, and one whose worker dies stays running.\<close>

theorem transition_leaves_recovery:
  assumes "events_ok st" and "transition i s why t ow ep now st = Inr (r, st')"
  shows "get st' i = Some r \<and> er_state r = s \<and> (\<forall>later. i \<notin> er_id ` set (recoverable_events later st'))"
proof -
  have run: "run_op (Transit i s why t ow ep) now st = Inr st'" using assms(2) by (simp add: drop_result_def)
  have ok: "events_ok st'"
    using exec_ok [OF assms(1), of "(Transit i s why t ow ep, now)"] run by (simp add: exec_def del: run_op.simps)
  from assms(2) have r: "get st' i = Some r" "er_state r = s" "deadline r = None"
    by (auto simp: transition_def Let_def get_put_log get_Some_id deadline_def coalesce_def
        split: option.splits if_splits)
  have "er_id q \<noteq> i" if "q \<in> set (recoverable_events later st')" for q later
  proof
    assume "er_id q = i"
    from that have "q \<in> set (st_events st')" "deadline q \<noteq> None"
      using recoverable_iff [OF ok] by auto
    moreover have "get st' (er_id q) = Some q"
      using ok \<open>q \<in> set (st_events st')\<close> by (simp add: get_def events_ok_def row_by_distinct)
    ultimately show False using r(1,3) \<open>er_id q = i\<close> by simp
  qed
  with r show ?thesis by blast
qed

text \<open>An event that failed and waits for its retry, as the operator finds it.\<close>

definition failed_store :: store where
  "failed_store = exec (Retry ''e1'' ''late'' None 5 3 (Some ''w1'') (Some 1), 20) leased_store"

definition readmitted_row :: event_row where
  "readmitted_row = leased_row\<lparr>er_state := ADMITTED, er_updated_at := 22, er_lease_owner := None,
     er_lease_expires_at := None, er_terminal_reason := Some ''operator retry requested''\<rparr>"

theorem transition_leaves_recovery_witness:
  "er_id ` set (recoverable_events 25 failed_store) = {''e1''} \<and>
   (let st' = exec (Transit ''e1'' ADMITTED (Some ''operator retry requested'') None None None, 22) failed_store in
    get st' ''e1'' = Some readmitted_row \<and> er_state readmitted_row = ADMITTED \<and>
    (\<forall>later. ''e1'' \<notin> er_id ` set (recoverable_events later st')))"
proof -
  have call: "transition ''e1'' ADMITTED (Some ''operator retry requested'') None None None 22 failed_store =
      Inr (readmitted_row, exec (Transit ''e1'' ADMITTED (Some ''operator retry requested'') None None None, 22) failed_store)"
    by (simp add: failed_store_def readmitted_row_def leased_store_def leased_run_def leased_row_def run_defs strip_w)
  have "events_ok failed_store" unfolding failed_store_def by (rule exec_ok [OF leased_store_ok])
  from transition_leaves_recovery [OF this call]
  show ?thesis
    by (simp add: Let_def)
      (simp add: failed_store_def recoverable_events_def retry_due_def lease_lapsed_def deadline_def
        leased_store_def leased_run_def leased_row_def run_defs strip_w)
qed

text \<open>The fence is open while nobody holds a lease: here worker w1 loses its lease, w2 takes the event over,
  fails and schedules the retry, and then the late report of w1, with the epoch it lost, is
  accepted as another failure and uses up the event's last attempt.\<close>

theorem stale_worker_spends_an_attempt:
  "let st = execs [(Acquire ''e1'' ''w2'' 100, 120), (Retry ''e1'' ''b'' None 5 2 (Some ''w2'') (Some 2), 130)] leased_store;
       st1 = execs [(Acquire ''e1'' ''w2'' 100, 120)] leased_store
   in run_op (Retry ''e1'' ''a'' None 5 2 (Some ''w1'') (Some 1)) 125 st1 = Inl (EventLeaseError (LeaseRequired ''e1'' ''w2'' 2)) \<and>
      map_option er_state (get st ''e1'') = Some RETRYABLE_FAILED \<and>
      map_option er_state (get (exec (Retry ''e1'' ''a'' None 5 2 (Some ''w1'') (Some 1), 140) st) ''e1'') = Some DEAD_LETTER"
  by (simp add: leased_store_def leased_run_def leased_row_def run_defs strip_w)

end
