(* ===== verification/Outbox.thy ===== *)
theory Outbox
  imports Event_Recovery
begin

section \<open>The notification outbox\<close>

text \<open>
  Models the outbox of \<open>event_store.py\<close>: one delivery intent per event, destination and kind,
  claimed by senders under a lease and finished with a provider outcome.  The row relation
  \<open>delivery_step\<close> is the abstract view; the table keeps the contract \<open>leased_table\<close>.
\<close>

subsection \<open>Operations\<close>

definition outbox_key :: "outbox_row \<Rightarrow> string \<times> string \<times> string" where
  "outbox_key r = (ox_event r, ox_destination r, ox_kind r)"

definition delivery :: "store \<Rightarrow> int \<Rightarrow> outbox_row option" where
  "delivery st outbox_id = row_by ox_id (st_outbox st) outbox_id"

definition put_delivery :: "outbox_row \<Rightarrow> store \<Rightarrow> store" where
  "put_delivery r st = st\<lparr>st_outbox := set_row ox_id r (st_outbox st)\<rparr>"

definition enqueue_notification ::
  "string \<Rightarrow> string \<Rightarrow> string \<Rightarrow> dict \<Rightarrow> int \<Rightarrow> store \<Rightarrow> (outbox_row \<times> bool) outcome" where
  "enqueue_notification event_id destination kind payload now st =
     (if py_strip destination = [] \<or> py_strip kind = [] then Inl (EventStoreError BadDelivery)
      else case row_by outbox_key (st_outbox st) (event_id, destination, kind) of
        Some row \<Rightarrow> Inr ((row, False), st)
      | None \<Rightarrow>
          if get st event_id = None then Inl IntegrityError
          else let r = \<lparr>ox_id = st_outbox_seq st + 1, ox_event = event_id, ox_destination = destination,
                      ox_kind = kind, ox_payload = stored_dict payload, ox_state = PENDING, ox_attempts = 0,
                      ox_lease_owner = None, ox_lease_expires_at = None, ox_lease_epoch = 0,
                      ox_retry_at = None, ox_created_at = now, ox_updated_at = now, ox_last_error = None\<rparr>
               in Inr ((r, True), st\<lparr>st_outbox := st_outbox st @ [r], st_outbox_seq := st_outbox_seq st + 1\<rparr>))"

definition pending_due :: "int \<Rightarrow> outbox_row \<Rightarrow> bool" where
  "pending_due now r \<longleftrightarrow> ox_state r = PENDING \<and> (case ox_retry_at r of None \<Rightarrow> True | Some t \<Rightarrow> t \<le> now)"

definition sending_lapsed :: "int \<Rightarrow> outbox_row \<Rightarrow> bool" where
  "sending_lapsed now r \<longleftrightarrow> ox_state r = SENDING \<and> (case ox_lease_expires_at r of None \<Rightarrow> False | Some t \<Rightarrow> t \<le> now)"

definition delivery_time :: "outbox_row \<Rightarrow> int" where
  "delivery_time r = (case ox_retry_at r of Some t \<Rightarrow> t
     | None \<Rightarrow> (case ox_lease_expires_at r of Some t \<Rightarrow> t | None \<Rightarrow> ox_created_at r))"

definition eligible_notifications :: "int \<Rightarrow> int \<Rightarrow> store \<Rightarrow> store_error + outbox_row list" where
  "eligible_notifications now limit st =
     (if \<not> (1 \<le> limit \<and> limit \<le> 1000) then Inl (EventStoreError BadLimit)
      else Inr (take (nat limit) (sort_key (\<lambda>r. (delivery_time r, ox_id r))
             (filter (\<lambda>r. pending_due now r \<or> sending_lapsed now r) (st_outbox st)))))"

definition outbox_dead_letters :: "store \<Rightarrow> outbox_row list" where
  "outbox_dead_letters st = sort_key ox_updated_at (filter (\<lambda>r. ox_state r = OUTBOX_DEAD_LETTER) (st_outbox st))"

definition outbox_records :: "store \<Rightarrow> string \<Rightarrow> outbox_row list" where
  "outbox_records st event_id = sort_key ox_id (filter (\<lambda>r. ox_event r = event_id) (st_outbox st))"

definition claim_notification :: "int \<Rightarrow> string \<Rightarrow> int \<Rightarrow> int \<Rightarrow> store \<Rightarrow> outbox_row outcome" where
  "claim_notification outbox_id owner lease_time now st =
     (if py_strip owner = [] \<or> lease_time \<le> 0 then Inl (EventLeaseError BadLease)
      else case delivery st outbox_id of
        None \<Rightarrow> Inl (EventStoreError (NoSuchOutbox outbox_id))
      | Some row \<Rightarrow>
          if ox_state row \<in> {SENT, OUTBOX_DEAD_LETTER} then Inl (EventLeaseError (OutboxFinal outbox_id (ox_state row)))
          else if ox_state row = PENDING \<and> (case ox_retry_at row of None \<Rightarrow> False | Some t \<Rightarrow> t > now)
          then Inl (EventLeaseError (OutboxNotDue outbox_id))
          else if ox_state row = SENDING \<and> (case ox_lease_expires_at row of None \<Rightarrow> False | Some t \<Rightarrow> t > now)
          then Inl (EventLeaseError (OutboxHeld outbox_id (ox_lease_owner row)))
          else let r = row\<lparr>ox_state := SENDING, ox_attempts := ox_attempts row + 1, ox_lease_owner := Some owner,
                      ox_lease_expires_at := Some (now + lease_time), ox_lease_epoch := ox_lease_epoch row + 1,
                      ox_retry_at := None, ox_updated_at := now\<rparr>
               in Inr (r, put_delivery r st))"

definition finish_notification ::
  "int \<Rightarrow> bool \<Rightarrow> string option \<Rightarrow> int option \<Rightarrow> int \<Rightarrow> int \<Rightarrow> string option \<Rightarrow> int option \<Rightarrow> int \<Rightarrow> store \<Rightarrow>
   outbox_row outcome" where
  "finish_notification outbox_id sent error retry_after base max_attempts owner lease_epoch now st =
     (if base \<le> 0 \<or> max_attempts < 1 then Inl (EventStoreError BadPolicy)
      else if (case retry_after of None \<Rightarrow> False | Some d \<Rightarrow> d < 0) then Inl (EventStoreError BadPolicy)
      else case delivery st outbox_id of
        None \<Rightarrow> Inl (EventStoreError (NoSuchOutbox outbox_id))
      | Some row \<Rightarrow>
          if ox_state row \<noteq> SENDING then Inl (EventTransitionError (OutboxNotSending outbox_id))
          else if owner \<noteq> ox_lease_owner row \<or> lease_epoch \<noteq> Some (ox_lease_epoch row)
          then Inl (EventLeaseError (OutboxLeaseRequired outbox_id (ox_lease_owner row) (ox_lease_epoch row)))
          else let (state, retry_at) =
                     (if sent then (SENT, None)
                      else if ox_attempts row \<ge> max_attempts then (OUTBOX_DEAD_LETTER, None)
                      else (PENDING, Some (now + (case retry_after of Some d \<Rightarrow> d
                             | None \<Rightarrow> base * 2 ^ nat (max 0 (ox_attempts row - 1))))));
                   r = row\<lparr>ox_state := state, ox_lease_owner := None, ox_lease_expires_at := None,
                         ox_retry_at := retry_at, ox_updated_at := now, ox_last_error := error\<rparr>
               in Inr (r, put_delivery r st))"

datatype outbox_op =
    Enqueue string string string dict
  | Claim int string int
  | Finish int bool "string option" "int option" int int "string option" "int option"

fun run_outbox :: "outbox_op \<Rightarrow> int \<Rightarrow> store \<Rightarrow> store_error + store" where
  "run_outbox (Enqueue i d k p) now st = drop_result (enqueue_notification i d k p now st)"
| "run_outbox (Claim n ow l) now st = drop_result (claim_notification n ow l now st)"
| "run_outbox (Finish n s e a b m ow ep) now st = drop_result (finish_notification n s e a b m ow ep now st)"

definition deliver :: "outbox_op \<times> int \<Rightarrow> store \<Rightarrow> store" where
  "deliver x st = (case run_outbox (fst x) (snd x) st of Inl _ \<Rightarrow> st | Inr st' \<Rightarrow> st')"

definition delivers :: "(outbox_op \<times> int) list \<Rightarrow> store \<Rightarrow> store" where
  "delivers xs st = fold deliver xs st"

subsection \<open>One row, one accepted call\<close>

inductive delivery_step :: "outbox_op \<Rightarrow> int \<Rightarrow> outbox_row \<Rightarrow> outbox_row \<Rightarrow> bool" where
  claim: "ox_state r \<in> {PENDING, SENDING} \<Longrightarrow>
    ox_state r = SENDING \<longrightarrow> (\<forall>t. ox_lease_expires_at r = Some t \<longrightarrow> t \<le> now) \<Longrightarrow>
    delivery_step (Claim (ox_id r) ow l) now r
      (r\<lparr>ox_state := SENDING, ox_attempts := ox_attempts r + 1, ox_lease_owner := Some ow,
         ox_lease_expires_at := Some (now + l), ox_lease_epoch := ox_lease_epoch r + 1,
         ox_retry_at := None, ox_updated_at := now\<rparr>)"
| finish: "ox_state r = SENDING \<Longrightarrow> ow = ox_lease_owner r \<Longrightarrow> ep = Some (ox_lease_epoch r) \<Longrightarrow>
    s = SENT \<and> u = None \<and> sent \<or> s = OUTBOX_DEAD_LETTER \<and> u = None \<and> \<not> sent \<and> m \<le> ox_attempts r \<or>
      s = PENDING \<and> u \<noteq> None \<and> \<not> sent \<and> ox_attempts r < m \<Longrightarrow>
    delivery_step (Finish (ox_id r) sent e a b m ow ep) now r
      (r\<lparr>ox_state := s, ox_lease_owner := None, ox_lease_expires_at := None, ox_retry_at := u,
         ox_updated_at := now, ox_last_error := e\<rparr>)"

inductive_cases delivery_stepE: "delivery_step op now r r'"

definition fresh :: "outbox_row \<Rightarrow> bool" where
  "fresh r \<longleftrightarrow> ox_state r = PENDING \<and> ox_attempts r = 0 \<and> ox_lease_epoch r = 0 \<and> ox_lease_owner r = None \<and>
     ox_lease_expires_at r = None \<and> ox_retry_at r = None"

definition queued :: "store \<Rightarrow> store \<Rightarrow> bool" where
  "queued st st' \<longleftrightarrow> (\<exists>r. row_by outbox_key (st_outbox st) (outbox_key r) = None \<and> fresh r \<and>
     ox_id r = st_outbox_seq st + 1 \<and> st_outbox st' = st_outbox st @ [r] \<and> st_outbox_seq st' = st_outbox_seq st + 1)"

definition moved :: "outbox_op \<Rightarrow> int \<Rightarrow> store \<Rightarrow> store \<Rightarrow> bool" where
  "moved op now st st' \<longleftrightarrow> (\<exists>r r'. delivery st (ox_id r) = Some r \<and> delivery_step op now r r' \<and>
     st_outbox st' = set_row ox_id r' (st_outbox st) \<and> st_outbox_seq st' = st_outbox_seq st)"

lemma delivery_id: "delivery st i = Some r \<Longrightarrow> ox_id r = i"
  by (auto simp: delivery_def dest: row_by_SomeD)

lemma movedI:
  "delivery st i = Some r \<Longrightarrow> delivery_step op now r r' \<Longrightarrow> st' = put_delivery r' st \<Longrightarrow> moved op now st st'"
  using delivery_id [of st i r] by (auto simp: moved_def put_delivery_def)

lemma run_outbox_shape:
  assumes "run_outbox op now st = Inr st'"
  shows "st' = st \<or> queued st st' \<or> moved op now st st'"
proof (cases op)
  case (Enqueue i d k p)
  with assms show ?thesis
    by (auto simp: drop_result_Inr enqueue_notification_def queued_def outbox_key_def fresh_def Let_def
        split: option.splits if_splits)
next
  case (Claim n ow l)
  with assms obtain row where row: "delivery st n = Some row"
    by (auto simp: drop_result_Inr claim_notification_def split: option.splits if_splits)
  define r where "r = row\<lparr>ox_state := SENDING, ox_attempts := ox_attempts row + 1, ox_lease_owner := Some ow,
    ox_lease_expires_at := Some (now + l), ox_lease_epoch := ox_lease_epoch row + 1,
    ox_retry_at := None, ox_updated_at := now\<rparr>"
  from assms Claim row have ok: "ox_state row \<in> {PENDING, SENDING}"
    "ox_state row = SENDING \<longrightarrow> (\<forall>t. ox_lease_expires_at row = Some t \<longrightarrow> t \<le> now)"
    and st': "st' = put_delivery r st"
    by (cases "ox_state row"; auto simp: drop_result_Inr claim_notification_def Let_def r_def
        split: option.splits if_splits)+
  have "delivery_step op now row r"
    using Claim delivery_id [OF row] delivery_step.claim [OF ok] unfolding r_def by blast
  with row st' show ?thesis by (blast intro: movedI)
next
  case (Finish n s e a b m ow ep)
  with assms obtain row where row: "delivery st n = Some row"
    by (auto simp: drop_result_Inr finish_notification_def split: option.splits if_splits)
  define r where "r s u = row\<lparr>ox_state := s, ox_lease_owner := None, ox_lease_expires_at := None,
    ox_retry_at := u, ox_updated_at := now, ox_last_error := e\<rparr>" for s u
  from assms Finish row obtain q u where ok: "ox_state row = SENDING" "ow = ox_lease_owner row"
      "ep = Some (ox_lease_epoch row)"
      "q = SENT \<and> u = None \<and> s \<or> q = OUTBOX_DEAD_LETTER \<and> u = None \<and> \<not> s \<and> m \<le> ox_attempts row \<or>
        q = PENDING \<and> u \<noteq> None \<and> \<not> s \<and> ox_attempts row < m"
    and st': "st' = put_delivery (r q u) st"
    by (auto simp: drop_result_Inr finish_notification_def Let_def r_def not_le split: option.splits if_splits)
  have "delivery_step op now row (r q u)"
    using Finish delivery_id [OF row] delivery_step.finish [OF ok] unfolding r_def by blast
  with row st' show ?thesis by (blast intro: movedI)
qed

subsection \<open>The invariant of the table\<close>

definition delivery_ok :: "outbox_row \<Rightarrow> bool" where
  "delivery_ok r \<longleftrightarrow> (ox_lease_owner r \<noteq> None \<longleftrightarrow> ox_state r = SENDING) \<and>
     (ox_lease_expires_at r \<noteq> None \<longleftrightarrow> ox_state r = SENDING) \<and>
     (ox_retry_at r \<noteq> None \<longrightarrow> ox_state r = PENDING) \<and>
     ox_lease_epoch r = ox_attempts r \<and> 0 \<le> ox_attempts r"

definition outbox_ok :: "store \<Rightarrow> bool" where
  "outbox_ok st \<longleftrightarrow> distinct (map ox_id (st_outbox st)) \<and> distinct (map outbox_key (st_outbox st)) \<and>
     (\<forall>r\<in>set (st_outbox st). ox_id r \<le> st_outbox_seq st \<and> delivery_ok r)"

lemma delivery_step_keys: "delivery_step op now r r' \<Longrightarrow> ox_id r' = ox_id r \<and> outbox_key r' = outbox_key r"
  by (auto elim!: delivery_stepE simp: outbox_key_def)

lemma delivery_step_ok: "delivery_step op now r r' \<Longrightarrow> delivery_ok r \<Longrightarrow> delivery_ok r'"
  by (auto elim!: delivery_stepE simp: delivery_ok_def)

lemma moved_ok:
  assumes "outbox_ok st" and "moved op now st st'"
  shows "outbox_ok st'"
proof -
  obtain r r' where r: "delivery st (ox_id r) = Some r" "delivery_step op now r r'"
    "st_outbox st' = set_row ox_id r' (st_outbox st)" "st_outbox_seq st' = st_outbox_seq st"
    using assms(2) by (auto simp: moved_def)
  note keys = delivery_step_keys [OF r(2)]
  have mem: "r \<in> set (st_outbox st)" using r(1) by (auto simp: delivery_def dest: row_by_SomeD)
  have dist: "distinct (map ox_id (st_outbox st))" using assms(1) by (simp add: outbox_ok_def)
  have same: "outbox_key (if ox_id x = ox_id r' then r' else x) = outbox_key x" if "x \<in> set (st_outbox st)" for x
  proof (cases "ox_id x = ox_id r'")
    case True
    with keys that mem dist have "x = r" by (metis (no_types, lifting) distinct_map inj_on_def)
    with keys show ?thesis by simp
  qed simp
  have "map outbox_key (st_outbox st') = map outbox_key (st_outbox st)"
    unfolding r(3) set_row_def map_map comp_def by (rule map_cong [OF refl same])
  moreover have "ox_id x \<le> st_outbox_seq st \<and> delivery_ok x" if "x \<in> set (st_outbox st')" for x
    using set_set_row [of x ox_id r' "st_outbox st"] that r(3) assms(1) mem keys delivery_step_ok [OF r(2)]
    by (auto simp: outbox_ok_def)
  ultimately show ?thesis using assms(1) r(3,4) by (simp add: outbox_ok_def)
qed

lemma queued_ok:
  assumes "outbox_ok st" and "queued st st'"
  shows "outbox_ok st'"
proof -
  obtain r where r: "row_by outbox_key (st_outbox st) (outbox_key r) = None" "fresh r"
    "ox_id r = st_outbox_seq st + 1" "st_outbox st' = st_outbox st @ [r]" "st_outbox_seq st' = st_outbox_seq st + 1"
    using assms(2) by (auto simp: queued_def)
  have "ox_id r \<notin> ox_id ` set (st_outbox st)"
    using assms(1) r(3) by (force simp: outbox_ok_def)
  moreover have "outbox_key r \<notin> outbox_key ` set (st_outbox st)"
    by (rule row_by_None_iff [THEN iffD1, OF r(1)])
  moreover have "delivery_ok r" using r(2) by (simp add: fresh_def delivery_ok_def)
  ultimately show ?thesis using assms(1) r(3-5) by (auto simp: outbox_ok_def)
qed

lemma deliver_ok:
  assumes "outbox_ok st" shows "outbox_ok (deliver x st)"
proof (cases "run_outbox (fst x) (snd x) st")
  case (Inr st')
  then have "deliver x st = st'" by (simp add: deliver_def)
  with run_outbox_shape [OF Inr] show ?thesis
    by (elim disjE) (simp_all add: assms queued_ok [OF assms] moved_ok [OF assms])
qed (use assms in \<open>simp add: deliver_def\<close>)

lemma outbox_ok_new: "outbox_ok new_store"
  by (simp add: outbox_ok_def new_store_def)

subsection \<open>Leases\<close>

lemma deliver_row:
  assumes "delivery st i = Some r"
  shows "delivery (deliver x st) i = Some r \<or>
    (\<exists>r'. delivery (deliver x st) i = Some r' \<and> delivery_step (fst x) (snd x) r r')"
proof (cases "run_outbox (fst x) (snd x) st")
  case (Inr st')
  then have e: "deliver x st = st'" by (simp add: deliver_def)
  from run_outbox_shape [OF Inr] show ?thesis
  proof (elim disjE)
    assume "queued st st'"
    with e assms show ?thesis by (auto simp: queued_def delivery_def row_by_append)
  next
    assume "moved (fst x) (snd x) st st'"
    then obtain q q' where q: "delivery st (ox_id q) = Some q" "delivery_step (fst x) (snd x) q q'"
      "st_outbox st' = set_row ox_id q' (st_outbox st)"
      by (auto simp: moved_def)
    have look: "delivery st' i = (if ox_id q = i then Some q' else Some r)"
      using assms q(3) delivery_step_keys [OF q(2)] by (simp add: delivery_def row_by_set_row)
    show ?thesis
    proof (cases "ox_id q = i")
      case True
      with q(1) assms have "q = r" by simp
      with True look q(2) e show ?thesis by auto
    qed (use look e in simp)
  qed (use e assms in simp)
qed (use assms in \<open>simp add: deliver_def\<close>)

fun signs_delivery :: "outbox_op \<times> int \<Rightarrow> int \<Rightarrow> string \<Rightarrow> int \<Rightarrow> bool" where
  "signs_delivery (Finish n s e a b m ow' ep', now) k ow ep = (n = k \<and> ow' = Some ow \<and> ep' = Some ep)"
| "signs_delivery _ k ow ep = False"

lemma outbox_ok_row: "outbox_ok st \<Longrightarrow> delivery st i = Some r \<Longrightarrow> delivery_ok r"
  by (auto simp: outbox_ok_def delivery_def dest: row_by_SomeD)

lemma delivery_step_holder:
  "delivery_step op now r r' \<Longrightarrow> delivery_ok r \<Longrightarrow> ox_lease_epoch r \<le> ox_lease_epoch r' \<and>
     (ox_lease_epoch r' = ox_lease_epoch r \<longrightarrow> ox_lease_owner r' = ox_lease_owner r \<or>
       ox_lease_owner r' = None \<and>
       (\<exists>ow. ox_lease_owner r = Some ow \<and> signs_delivery (op, now) (ox_id r) ow (ox_lease_epoch r)))"
  by (cases "ox_lease_owner r") (auto elim!: delivery_stepE)

lemma delivery_step_refused:
  "delivery_step op now r r' \<Longrightarrow> delivery_ok r \<Longrightarrow> ox_lease_owner r = Some ow \<Longrightarrow> ox_lease_expires_at r = Some t \<Longrightarrow>
     now < t \<Longrightarrow> signs_delivery (op, now) (ox_id r) ow (ox_lease_epoch r)"
  by (auto elim!: delivery_stepE simp: delivery_ok_def)

interpretation outbox_lease: leased_table delivery deliver outbox_ok ox_lease_owner ox_lease_epoch
  ox_lease_expires_at signs_delivery snd
proof unfold_locales
  fix st :: store and x i r
  assume ok: "outbox_ok st"
  then show "outbox_ok (deliver x st)" by (rule deliver_ok)
  assume r: "delivery st i = Some r"
  have id: "ox_id r = i" by (rule delivery_id [OF r])
  note row = outbox_ok_row [OF ok r]
  from deliver_row [OF r, of x]
  show "\<exists>r'. delivery (deliver x st) i = Some r' \<and> ox_lease_epoch r \<le> ox_lease_epoch r' \<and>
      (ox_lease_epoch r' = ox_lease_epoch r \<longrightarrow> ox_lease_owner r' = ox_lease_owner r \<or>
        ox_lease_owner r' = None \<and> (\<exists>ow. ox_lease_owner r = Some ow \<and> signs_delivery x i ow (ox_lease_epoch r)))"
  proof (elim disjE exE conjE)
    fix r' assume "delivery (deliver x st) i = Some r'" and s: "delivery_step (fst x) (snd x) r r'"
    with delivery_step_holder [OF s row] id show ?thesis by auto
  qed auto
  fix ow t
  assume "ox_lease_owner r = Some ow" "ox_lease_expires_at r = Some t" "snd x < t"
    "\<not> signs_delivery x i ow (ox_lease_epoch r)"
  with deliver_row [OF r, of x] delivery_step_refused [of "fst x" "snd x" r _ ow t] row id
  show "delivery (deliver x st) i = Some r" by auto
qed

subsection \<open>What senders rely on\<close>

lemma delivers_Cons [simp]: "delivers (x # xs) st = delivers xs (deliver x st)" and delivers_Nil [simp]: "delivers [] st = st"
  by (simp_all add: delivers_def)

lemma delivers_final:
  assumes "delivery st i = Some r" and "ox_state r \<in> {SENT, OUTBOX_DEAD_LETTER}"
  shows "delivery (delivers xs st) i = Some r"
  using assms
proof (induction xs arbitrary: st)
  case (Cons x xs)
  from deliver_row [OF Cons.prems(1), of x] Cons.prems(2)
  have "delivery (deliver x st) i = Some r" by (auto elim!: delivery_stepE)
  with Cons show ?case by simp
qed simp

text \<open>A delivery claimed by s1 until 70, for the leased event of the previous theory.\<close>

definition claimed_store :: store where
  "claimed_store = delivers [(Enqueue ''e1'' ''ops'' ''card'' [], 30), (Claim 1 ''s1'' 30, 40)] leased_store"

definition claimed_row :: outbox_row where
  "claimed_row = \<lparr>ox_id = 1, ox_event = ''e1'', ox_destination = ''ops'', ox_kind = ''card'', ox_payload = [],
     ox_state = SENDING, ox_attempts = 1, ox_lease_owner = Some ''s1'', ox_lease_expires_at = Some 70,
     ox_lease_epoch = 1, ox_retry_at = None, ox_created_at = 30, ox_updated_at = 40, ox_last_error = None\<rparr>"

lemmas outbox_defs = deliver_def enqueue_notification_def claim_notification_def finish_notification_def
  delivery_def put_delivery_def outbox_key_def stored_dict_def

lemma strip_words: "py_strip ''ops'' = ''ops''" "py_strip ''card'' = ''card''" "py_strip ''s1'' = ''s1''" "py_strip ''s2'' = ''s2''"
  by (simp_all add: py_strip_def py_lstrip_def py_isspace_def)

lemma leased_outbox: "st_outbox leased_store = [] \<and> st_outbox_seq leased_store = 0"
  by (simp add: leased_store_def leased_run_def run_defs strip_w)

lemma claimed_store_row: "delivery claimed_store 1 = Some claimed_row"
  using leased_store_get by (simp add: claimed_store_def claimed_row_def outbox_defs strip_words leased_outbox
      drop_result_def row_by_def set_row_def Let_def)

lemma claimed_outbox: "st_outbox claimed_store = [claimed_row]"
  using leased_store_get by (simp add: claimed_store_def claimed_row_def outbox_defs strip_words leased_outbox
      drop_result_def row_by_def set_row_def Let_def)

lemma claimed_store_ok: "outbox_ok claimed_store"
proof -
  have "outbox_ok leased_store" using leased_outbox by (simp add: outbox_ok_def)
  then show ?thesis by (simp add: claimed_store_def deliver_ok)
qed

text \<open>C20: A delivery has one sender at a time: until the claim expires no call of another sender changes the row;
  later claims raise the epoch, so an outcome reported with an older epoch is refused, and a delivery
  that was sent or given up never changes again.\<close>

theorem delivery_has_one_sender:
  assumes "outbox_ok st" and "delivery st i = Some r" and "ox_lease_owner r = Some ow"
    and "ox_lease_expires_at r = Some t"
  shows "((\<forall>x\<in>set xs. snd x < t \<and> \<not> signs_delivery x i ow (ox_lease_epoch r)) \<longrightarrow>
      delivery (delivers xs st) i = Some r) \<and>
    (\<exists>r'. delivery (delivers xs st) i = Some r' \<and> ox_lease_epoch r \<le> ox_lease_epoch r' \<and>
      (ox_lease_epoch r' = ox_lease_epoch r \<longrightarrow> ox_lease_owner r' = Some ow \<or>
        ox_lease_owner r' = None \<and> (\<exists>x\<in>set xs. signs_delivery x i ow (ox_lease_epoch r))) \<and>
      (ox_state r' \<in> {SENT, OUTBOX_DEAD_LETTER} \<longrightarrow>
        (\<forall>ys. delivery (delivers ys (delivers xs st)) i = Some r')))"
  using outbox_lease.exclusive [OF assms, of xs] outbox_lease.fenced [OF assms(1,2), of xs] assms(3)
    delivers_final [of "delivers xs st" i]
  by (auto simp: delivers_def)

theorem delivery_witness:
  "delivery (delivers [(Claim 1 ''s2'' 30, 50)] claimed_store) 1 = Some claimed_row \<and>
   (\<exists>r'. delivery (delivers [(Finish 1 True None None 5 5 (Some ''s1'') (Some 1), 60)] claimed_store) 1 = Some r' \<and>
     ox_state r' = SENT \<and>
     (\<forall>ys. delivery (delivers ys (delivers [(Finish 1 True None None 5 5 (Some ''s1'') (Some 1), 60)] claimed_store)) 1 =
       Some r'))"
proof
  have c: "ox_lease_owner claimed_row = Some ''s1''" "ox_lease_expires_at claimed_row = Some 70"
    by (simp_all add: claimed_row_def)
  note one = delivery_has_one_sender [OF claimed_store_ok claimed_store_row c]
  have "\<forall>x\<in>set [(Claim 1 ''s2'' 30, 50)]. snd x < 70 \<and> \<not> signs_delivery x 1 ''s1'' (ox_lease_epoch claimed_row)"
    by simp
  with one show "delivery (delivers [(Claim 1 ''s2'' 30, 50)] claimed_store) 1 = Some claimed_row" by blast
  let ?f = "[(Finish 1 True None None 5 5 (Some ''s1'') (Some 1), 60)]"
  obtain r' where r': "delivery (delivers ?f claimed_store) 1 = Some r'"
    and final: "ox_state r' \<in> {SENT, OUTBOX_DEAD_LETTER} \<longrightarrow> (\<forall>ys. delivery (delivers ys (delivers ?f claimed_store)) 1 = Some r')"
    using one [of ?f] by blast
  have "ox_state r' = SENT"
    using r' claimed_outbox
    by (auto simp add: outbox_defs claimed_row_def drop_result_def Let_def row_by_def set_row_def)
  with r' final show "\<exists>r'. delivery (delivers ?f claimed_store) 1 = Some r' \<and> ox_state r' = SENT \<and>
      (\<forall>ys. delivery (delivers ys (delivers ?f claimed_store)) 1 = Some r')" by blast
qed

text \<open>Queueing is idempotent: asking again for a notification of the same event, destination and kind, with
  whatever payload and after whatever its delivery went through, returns the row that is there and
  changes nothing.\<close>

theorem enqueue_is_idempotent:
  assumes "outbox_ok st" and "enqueue_notification e d k p now st = Inr ((r, fresh1), st1)"
  shows "\<exists>r'. enqueue_notification e d k p' later (delivers xs st1) = Inr ((r', False), delivers xs st1) \<and>
    ox_id r' = ox_id r \<and> outbox_key r' = (e, d, k)"
proof -
  have blank: "\<not> (py_strip d = [] \<or> py_strip k = [])" using assms(2) by (auto simp: enqueue_notification_def)
  have "run_outbox (Enqueue e d k p) now st = Inr st1" using assms(2) by (simp add: drop_result_def)
  then have ok: "outbox_ok st1"
    using deliver_ok [OF assms(1), of "(Enqueue e d k p, now)"] by (simp add: deliver_def del: run_outbox.simps)
  have "r \<in> set (st_outbox st1) \<and> outbox_key r = (e, d, k)"
    using assms(2) row_by_SomeD [of outbox_key "st_outbox st" "(e, d, k)"]
    by (auto simp: enqueue_notification_def Let_def outbox_key_def split: option.splits if_splits)
  then have mem: "r \<in> set (st_outbox st1)" and key: "outbox_key r = (e, d, k)" by auto
  have "delivery st1 (ox_id r) = Some r"
    using ok mem by (simp add: delivery_def outbox_ok_def row_by_distinct)
  then have "\<exists>r'. delivery (delivers xs st1) (ox_id r) = Some r' \<and> outbox_key r' = (e, d, k)" using key
  proof (induction xs arbitrary: st1 r)
    case (Cons x xs)
    from deliver_row [OF Cons.prems(1), of x] show ?case
    proof (elim disjE exE conjE)
      fix q assume "delivery (deliver x st1) (ox_id r) = Some q" "delivery_step (fst x) (snd x) r q"
      with Cons.IH [of "deliver x st1" q] Cons.prems(2) delivery_step_keys show ?thesis by fastforce
    qed (use Cons in simp)
  qed simp
  then obtain r' where r': "delivery (delivers xs st1) (ox_id r) = Some r'" "outbox_key r' = (e, d, k)" by blast
  have "outbox_ok (delivers xs st1)" unfolding delivers_def by (rule outbox_lease.inv_fold [OF ok])
  moreover have "r' \<in> set (st_outbox (delivers xs st1))" using r'(1) by (auto simp: delivery_def dest: row_by_SomeD)
  ultimately have "row_by outbox_key (st_outbox (delivers xs st1)) (e, d, k) = Some r'"
    using r'(2) row_by_distinct [of outbox_key "st_outbox (delivers xs st1)" r'] by (simp add: outbox_ok_def)
  with blank r'(2) delivery_id [OF r'(1)] show ?thesis by (simp add: enqueue_notification_def)
qed

theorem enqueue_witness:
  "\<exists>r'. enqueue_notification ''e1'' ''ops'' ''card'' [] 90 (delivers [(Claim 1 ''s2'' 30, 80)] claimed_store) =
     Inr ((r', False), delivers [(Claim 1 ''s2'' 30, 80)] claimed_store) \<and>
    ox_id r' = ox_id claimed_row \<and> outbox_key r' = (''e1'', ''ops'', ''card'')"
proof (rule enqueue_is_idempotent [OF claimed_store_ok, of "''e1''" "''ops''" "''card''" "[]" 60 _ False])
  have "row_by outbox_key (st_outbox claimed_store) (''e1'', ''ops'', ''card'') = Some claimed_row"
    using claimed_store_ok claimed_store_row row_by_distinct [of outbox_key "st_outbox claimed_store" claimed_row]
    by (auto simp: outbox_ok_def delivery_def outbox_key_def claimed_row_def dest!: row_by_SomeD)
  then show "enqueue_notification ''e1'' ''ops'' ''card'' [] 60 claimed_store = Inr ((claimed_row, False), claimed_store)"
    by (simp add: enqueue_notification_def strip_words)
qed

end
