(* ===== verification/Incidents.thy ===== *)
theory Incidents
  imports Outbox
begin

section \<open>Incidents\<close>

text \<open>
  Models \<open>incident_case.py\<close>, the domain contract, and the incident tables of \<open>event_store.py\<close>.  A
  timestamp of the domain contract is \<open>None\<close> when it is naive, which it refuses; the uuid the
  store draws for a new incident is an argument.  The store keeps its own copy of the transition
  table; the lemmas show it implements the contract.
\<close>

subsection \<open>The domain contract\<close>

record incident_case =
  ic_identity :: incident_identity
  ic_state :: incident_state
  ic_event_ids :: "string list"
  ic_opened_at :: int
  ic_updated_at :: int

datatype case_error = EmptyIdentity | EmptyEvent | NaiveTime | CannotJoin | CaseTransition incident_state incident_state

definition IncidentIdentity :: "string \<Rightarrow> string \<Rightarrow> string \<Rightarrow> case_error + incident_identity" where
  "IncidentIdentity device rung subj =
     (if list_all (\<lambda>v. py_strip v \<noteq> []) [device, rung, subj]
      then Inr \<lparr>ii_device = device, ii_cause_rung = rung, ii_cause_subject = subj\<rparr>
      else Inl EmptyIdentity)"

definition open_case :: "incident_identity \<Rightarrow> string \<Rightarrow> int option \<Rightarrow> case_error + incident_case" where
  "open_case ident event_id now =
     (if event_id = [] then Inl EmptyEvent
      else case now of None \<Rightarrow> Inl NaiveTime
      | Some t \<Rightarrow> Inr \<lparr>ic_identity = ident, ic_state = OPEN, ic_event_ids = [event_id],
                     ic_opened_at = t, ic_updated_at = t\<rparr>)"

definition can_join :: "incident_case \<Rightarrow> incident_identity \<Rightarrow> bool" where
  "can_join c ident \<longleftrightarrow> ic_state c \<in> {OPEN, ACKNOWLEDGED} \<and> ic_identity c = ident"

definition join_event :: "incident_case \<Rightarrow> incident_identity \<Rightarrow> string \<Rightarrow> int option \<Rightarrow> case_error + incident_case" where
  "join_event c ident event_id now = (case now of None \<Rightarrow> Inl NaiveTime
     | Some t \<Rightarrow>
         if event_id = [] then Inl EmptyEvent
         else if \<not> can_join c ident then Inl CannotJoin
         else if event_id \<in> set (ic_event_ids c) then Inr c
         else Inr (c\<lparr>ic_event_ids := ic_event_ids c @ [event_id], ic_updated_at := t\<rparr>))"

definition case_allowed :: "incident_state \<Rightarrow> incident_state set" where
  "case_allowed s = (case s of OPEN \<Rightarrow> {ACKNOWLEDGED, RESOLVED} | ACKNOWLEDGED \<Rightarrow> {RESOLVED}
     | RESOLVED \<Rightarrow> {ARCHIVED} | ARCHIVED \<Rightarrow> {})"

definition case_transition :: "incident_case \<Rightarrow> incident_state \<Rightarrow> int option \<Rightarrow> case_error + incident_case" where
  "case_transition c target now = (case now of None \<Rightarrow> Inl NaiveTime
     | Some t \<Rightarrow>
         if target \<notin> case_allowed (ic_state c) then Inl (CaseTransition (ic_state c) target)
         else Inr (c\<lparr>ic_state := target, ic_updated_at := t\<rparr>))"

subsection \<open>The tables\<close>

definition incident :: "store \<Rightarrow> string \<Rightarrow> incident_row option" where
  "incident st incident_id = row_by in_id (st_incidents st) incident_id"

definition active :: "incident_row \<Rightarrow> bool" where
  "active r \<longleftrightarrow> in_state r \<in> {OPEN, ACKNOWLEDGED}"

definition incident_event_ids :: "store \<Rightarrow> string \<Rightarrow> string list" where
  "incident_event_ids st incident_id = map ie_event (sort_key (\<lambda>e. (ie_joined_at e, ie_event e))
     (filter (\<lambda>e. ie_incident e = incident_id) (st_incident_events st)))"

definition incident_record :: "store \<Rightarrow> incident_row \<Rightarrow> incident_case" where
  "incident_record st r = \<lparr>ic_identity = in_identity r, ic_state = in_state r,
     ic_event_ids = incident_event_ids st (in_id r), ic_opened_at = in_opened_at r, ic_updated_at = in_updated_at r\<rparr>"

definition log_incident :: "string \<Rightarrow> incident_state \<Rightarrow> int \<Rightarrow> string option \<Rightarrow> store \<Rightarrow> store" where
  "log_incident i s now why st = st\<lparr>st_incident_transitions := st_incident_transitions st @
     [\<lparr>it_incident = i, it_state = s, it_recorded_at = now, it_reason = why\<rparr>]\<rparr>"

text \<open>Opening an incident: a uuid that is taken violates the primary key.\<close>

definition open_incident :: "incident_identity \<Rightarrow> string \<Rightarrow> int \<Rightarrow> store \<Rightarrow> store_error + store" where
  "open_incident ident uuid now st =
     (if incident st uuid \<noteq> None then Inl IntegrityError
      else Inr (log_incident uuid OPEN now (Some ''incident created'')
        (st\<lparr>st_incidents := st_incidents st @ [\<lparr>in_id = uuid, in_identity = ident, in_state = OPEN,
              in_opened_at = now, in_updated_at = now, in_resolved_at = None\<rparr>]\<rparr>)))"

text \<open>Linking an event: \<open>INSERT OR IGNORE\<close>, then the incident's own timestamp.\<close>

definition link_event :: "string \<Rightarrow> string \<Rightarrow> int \<Rightarrow> store \<Rightarrow> store_error + store" where
  "link_event incident_id event_id now st =
     (case row_by ie_event (st_incident_events st) event_id of
        Some prior \<Rightarrow> if ie_incident prior \<noteq> incident_id then Inl (EventStoreError (EventInOtherIncident event_id))
                     else Inr st
      | None \<Rightarrow> Inr (st\<lparr>st_incident_events := st_incident_events st @
             [\<lparr>ie_incident = incident_id, ie_event = event_id, ie_joined_at = now\<rparr>]\<rparr>))"

definition touch_incident :: "string \<Rightarrow> int \<Rightarrow> store \<Rightarrow> store" where
  "touch_incident i now st = st\<lparr>st_incidents :=
     map (\<lambda>r. if in_id r = i then r\<lparr>in_updated_at := now\<rparr> else r) (st_incidents st)\<rparr>"

definition create_or_join_incident ::
  "incident_identity \<Rightarrow> string \<Rightarrow> string \<Rightarrow> int \<Rightarrow> store \<Rightarrow> (incident_row \<times> bool) outcome" where
  "create_or_join_incident ident event_id uuid now st =
     (if get st event_id = None then Inl (EventStoreError (NoSuchEvent event_id))
      else
        let existing = find (\<lambda>r. in_identity r = ident \<and> active r) (st_incidents st);
            incident_id = (case existing of Some r \<Rightarrow> in_id r | None \<Rightarrow> uuid)
        in case (if existing = None then open_incident ident uuid now st else Inr st) of
             Inl e \<Rightarrow> Inl e
           | Inr st1 \<Rightarrow> (case link_event incident_id event_id now st1 of
               Inl e \<Rightarrow> Inl e
             | Inr st2 \<Rightarrow> let st3 = touch_incident incident_id now st2
                 in case incident st3 incident_id of
                      None \<Rightarrow> Inl (EventStoreError (NoSuchIncident incident_id))
                    | Some r \<Rightarrow> Inr ((r, existing = None), st3)))"

definition incident_allowed :: "incident_state \<Rightarrow> incident_state set" where
  "incident_allowed s = (case s of OPEN \<Rightarrow> {ACKNOWLEDGED, RESOLVED} | ACKNOWLEDGED \<Rightarrow> {RESOLVED}
     | RESOLVED \<Rightarrow> {ARCHIVED} | ARCHIVED \<Rightarrow> {})"

definition transition_incident ::
  "string \<Rightarrow> incident_state \<Rightarrow> string option \<Rightarrow> int \<Rightarrow> store \<Rightarrow> incident_row outcome" where
  "transition_incident incident_id state why now st = (case incident st incident_id of
     None \<Rightarrow> Inl (EventStoreError (NoSuchIncident incident_id))
   | Some row \<Rightarrow>
       if state \<notin> incident_allowed (in_state row)
       then Inl (EventTransitionError (BadIncidentTransition incident_id (in_state row) state))
       else let r = row\<lparr>in_state := state, in_updated_at := now,
                      in_resolved_at := (if state = RESOLVED then Some now else in_resolved_at row)\<rparr>
            in Inr (r, log_incident incident_id state now why
                 (st\<lparr>st_incidents := set_row in_id r (st_incidents st)\<rparr>)))"

definition list_incidents :: "incident_state option \<Rightarrow> string option \<Rightarrow> int \<Rightarrow> store \<Rightarrow> incident_row list" where
  "list_incidents state device limit st =
     (if limit < 1 then []
      else take (nat limit) (rev (sort_key (\<lambda>r. (in_updated_at r, in_id r))
        (filter (\<lambda>r. (state = None \<or> state = Some (in_state r)) \<and>
           (device = None \<or> device = Some (ii_device (in_identity r)))) (st_incidents st)))))"

datatype incident_op = Join incident_identity string string | Move string incident_state "string option"

fun run_incident :: "incident_op \<Rightarrow> int \<Rightarrow> store \<Rightarrow> store_error + store" where
  "run_incident (Join ident e uuid) now st = drop_result (create_or_join_incident ident e uuid now st)"
| "run_incident (Move i s why) now st = drop_result (transition_incident i s why now st)"

subsection \<open>The invariant of the incident tables\<close>

definition incident_history :: "store \<Rightarrow> string \<Rightarrow> incident_state list" where
  "incident_history st i = map it_state (filter (\<lambda>t. it_incident t = i) (st_incident_transitions st))"

definition incident_row_ok :: "store \<Rightarrow> incident_row \<Rightarrow> bool" where
  "incident_row_ok st r \<longleftrightarrow> (in_resolved_at r \<noteq> None \<longleftrightarrow> in_state r \<in> {RESOLVED, ARCHIVED}) \<and>
     (let h = incident_history st (in_id r) in
      h \<noteq> [] \<and> hd h = OPEN \<and> last h = in_state r \<and> successively (\<lambda>a b. b \<in> incident_allowed a) h)"

definition one_active :: "incident_row list \<Rightarrow> bool" where
  "one_active rows \<longleftrightarrow> (\<forall>r\<in>set rows. \<forall>q\<in>set rows.
     active r \<and> active q \<and> in_identity r = in_identity q \<longrightarrow> in_id r = in_id q)"

definition incidents_ok :: "store \<Rightarrow> bool" where
  "incidents_ok st \<longleftrightarrow> distinct (map in_id (st_incidents st)) \<and> one_active (st_incidents st) \<and>
     distinct (map ie_event (st_incident_events st)) \<and>
     ie_incident ` set (st_incident_events st) \<subseteq> in_id ` set (st_incidents st) \<and>
     ie_event ` set (st_incident_events st) \<subseteq> er_id ` set (st_events st) \<and>
     it_incident ` set (st_incident_transitions st) \<subseteq> in_id ` set (st_incidents st) \<and>
     (\<forall>r\<in>set (st_incidents st). incident_row_ok st r)"

lemma incident_history_snoc:
  "incident_history (log_incident i s now why st) j = incident_history st j @ (if i = j then [s] else [])"
  by (simp add: incident_history_def log_incident_def)

lemma incident_history_incidents [simp]:
  "incident_history (st\<lparr>st_incidents := rs\<rparr>) j = incident_history st j"
  "incident_history (st\<lparr>st_incident_events := es\<rparr>) j = incident_history st j"
  by (simp_all add: incident_history_def)

lemma incident_history_new:
  assumes "incidents_ok st" and "incident st i = None"
  shows "incident_history st i = []"
proof -
  have "i \<notin> in_id ` set (st_incidents st)"
    using assms(2) unfolding incident_def by (rule row_by_None_iff [THEN iffD1])
  moreover have "it_incident ` set (st_incident_transitions st) \<subseteq> in_id ` set (st_incidents st)"
    using assms(1) by (simp add: incidents_ok_def)
  ultimately have "it_incident t \<noteq> i" if "t \<in> set (st_incident_transitions st)" for t
    using that by (metis imageI subsetD)
  then show ?thesis by (simp add: incident_history_def filter_empty_conv)
qed

lemma open_incident_ok:
  assumes "incidents_ok st" and "\<forall>r\<in>set (st_incidents st). active r \<longrightarrow> in_identity r \<noteq> ident"
    and "open_incident ident uuid now st = Inr st'"
  shows "incidents_ok st' \<and> uuid \<in> in_id ` set (st_incidents st') \<and> st_events st' = st_events st"
proof -
  define r where "r = \<lparr>in_id = uuid, in_identity = ident, in_state = OPEN, in_opened_at = now,
    in_updated_at = now, in_resolved_at = None\<rparr>"
  have new: "incident st uuid = None"
    and st': "st' = log_incident uuid OPEN now (Some ''incident created'') (st\<lparr>st_incidents := st_incidents st @ [r]\<rparr>)"
    using assms(3) by (auto simp: open_incident_def r_def split: if_splits)
  have fresh: "uuid \<notin> in_id ` set (st_incidents st)"
    using new unfolding incident_def by (rule row_by_None_iff [THEN iffD1])
  have hist: "incident_history st' j = incident_history st j @ (if uuid = j then [OPEN] else [])" for j
    by (simp add: st' incident_history_snoc)
  have "incident_row_ok st' x" if "x \<in> set (st_incidents st)" for x
    using assms(1) that fresh by (auto simp: incidents_ok_def incident_row_ok_def hist Let_def)
  moreover have "incident_row_ok st' r"
    using incident_history_new [OF assms(1) new] by (simp add: incident_row_ok_def hist r_def)
  moreover have "one_active (st_incidents st @ [r])"
    unfolding one_active_def
  proof (intro ballI impI)
    fix x y
    assume "x \<in> set (st_incidents st @ [r])" "y \<in> set (st_incidents st @ [r])"
      and xy: "active x \<and> active y \<and> in_identity x = in_identity y"
    then have "x \<in> set (st_incidents st) \<or> x = r" "y \<in> set (st_incidents st) \<or> y = r" by auto
    moreover have "in_identity r = ident" by (simp add: r_def)
    moreover have "one_active (st_incidents st)" using assms(1) by (simp add: incidents_ok_def)
    ultimately show "in_id x = in_id y" using xy assms(2) unfolding one_active_def by metis
  qed
  ultimately show ?thesis
    using assms(1) fresh by (auto simp: incidents_ok_def st' log_incident_def r_def)
qed

lemma link_event_ok:
  assumes "incidents_ok st" and "i \<in> in_id ` set (st_incidents st)" and "e \<in> er_id ` set (st_events st)"
    and "link_event i e now st = Inr st'"
  shows "incidents_ok st' \<and> st_incidents st' = st_incidents st \<and> st_events st' = st_events st"
proof (cases "row_by ie_event (st_incident_events st) e")
  case None
  then have "e \<notin> ie_event ` set (st_incident_events st)" by (rule row_by_None_iff [THEN iffD1])
  moreover have "st' = st\<lparr>st_incident_events := st_incident_events st @
             [\<lparr>ie_incident = i, ie_event = e, ie_joined_at = now\<rparr>]\<rparr>"
    using assms(4) None by (simp add: link_event_def)
  ultimately show ?thesis using assms(1-3) by (auto simp: incidents_ok_def incident_row_ok_def)
next
  case (Some prior)
  with assms(1,4) show ?thesis by (auto simp: link_event_def split: if_splits)
qed

lemma incidents_ok_map:
  assumes "incidents_ok st" and f: "\<And>r. in_id (f r) = in_id r" "\<And>r. in_identity (f r) = in_identity r"
    "\<And>r. in_state (f r) = in_state r" "\<And>r. in_resolved_at (f r) = in_resolved_at r"
  shows "incidents_ok (st\<lparr>st_incidents := map f (st_incidents st)\<rparr>)"
proof -
  have act: "one_active (map f rs) = one_active rs" for rs
    by (simp add: one_active_def active_def f)
  have ids: "in_id ` f ` A = in_id ` A" for A by (simp add: image_image f)
  have "incident_row_ok (st\<lparr>st_incidents := map f (st_incidents st)\<rparr>) (f r)" if "r \<in> set (st_incidents st)" for r
    using assms(1) that by (auto simp: incidents_ok_def incident_row_ok_def f)
  then show ?thesis
    using assms(1) by (simp add: incidents_ok_def act ids comp_def f)
qed

lemma touch_incident_ok: "incidents_ok st \<Longrightarrow> incidents_ok (touch_incident i now st)"
  unfolding touch_incident_def by (rule incidents_ok_map) simp_all

text \<open>A successful create-or-join as its three steps.\<close>

lemma create_or_joinE:
  assumes "create_or_join_incident ident e uuid now st = Inr ((r, fresh1), st')"
  obtains st1 st2 i where "get st e \<noteq> None"
    and "fresh1 \<longleftrightarrow> \<not> (\<exists>x\<in>set (st_incidents st). in_identity x = ident \<and> active x)"
    and "if fresh1 then i = uuid \<and> open_incident ident uuid now st = Inr st1
         else st1 = st \<and> (\<exists>x\<in>set (st_incidents st). in_identity x = ident \<and> active x \<and> in_id x = i)"
    and "link_event i e now st1 = Inr st2" and "st' = touch_incident i now st2" and "incident st' i = Some r"
proof (cases "find (\<lambda>r. in_identity r = ident \<and> active r) (st_incidents st)")
  case None
  then have none: "\<not> (\<exists>x\<in>set (st_incidents st). in_identity x = ident \<and> active x)"
    by (auto simp: find_None_iff)
  from assms None obtain st1 st2 where "get st e \<noteq> None" "open_incident ident uuid now st = Inr st1"
    "link_event uuid e now st1 = Inr st2" "st' = touch_incident uuid now st2" "incident st' uuid = Some r" "fresh1"
    by (auto simp: create_or_join_incident_def Let_def split: if_splits sum.splits option.splits)
  with none that [of uuid st1 st2] show ?thesis by simp
next
  case (Some x)
  then have "x \<in> set (st_incidents st)" "in_identity x = ident" "active x"
    by (auto simp: find_Some_iff)
  then have some: "\<exists>x'\<in>set (st_incidents st). in_identity x' = ident \<and> active x' \<and> in_id x' = in_id x" by blast
  from assms Some obtain st2 where "get st e \<noteq> None" "\<not> fresh1"
    "link_event (in_id x) e now st = Inr st2" "st' = touch_incident (in_id x) now st2" "incident st' (in_id x) = Some r"
    by (auto simp: create_or_join_incident_def Let_def split: if_splits sum.splits option.splits)
  with some that [of "in_id x" st st2] show ?thesis by auto
qed

lemma join_ok:
  assumes "incidents_ok st" and "create_or_join_incident ident e uuid now st = Inr ((r, fresh1), st')"
  shows "incidents_ok st'"
  using assms(2)
proof (rule create_or_joinE)
  fix st1 st2 i
  assume e: "get st e \<noteq> None"
    and fr: "fresh1 \<longleftrightarrow> \<not> (\<exists>x\<in>set (st_incidents st). in_identity x = ident \<and> active x)"
    and op: "if fresh1 then i = uuid \<and> open_incident ident uuid now st = Inr st1
         else st1 = st \<and> (\<exists>x\<in>set (st_incidents st). in_identity x = ident \<and> active x \<and> in_id x = i)"
    and li: "link_event i e now st1 = Inr st2" and st': "st' = touch_incident i now st2"
  have "incidents_ok st1 \<and> i \<in> in_id ` set (st_incidents st1) \<and> st_events st1 = st_events st"
  proof (cases fresh1)
    case True
    with op have op1: "i = uuid" "open_incident ident uuid now st = Inr st1" by simp_all
    from True fr have "\<forall>r\<in>set (st_incidents st). active r \<longrightarrow> in_identity r \<noteq> ident" by blast
    from open_incident_ok [OF assms(1) this op1(2)] op1(1) show ?thesis by simp
  next
    case False
    with op assms(1) show ?thesis by auto
  qed
  moreover have "e \<in> er_id ` set (st_events st)"
    using e row_by_None_iff [of er_id "st_events st" e] by (auto simp: get_def)
  ultimately have "incidents_ok st2" using link_event_ok [of st1 i e now st2] li by simp
  then show ?thesis unfolding st' by (rule touch_incident_ok)
qed

lemma move_ok:
  assumes "incidents_ok st" and "transition_incident i s why now st = Inr (r', st')"
  shows "incidents_ok st'"
proof -
  obtain r where r: "incident st i = Some r" and al: "s \<in> incident_allowed (in_state r)"
    and r': "r' = r\<lparr>in_state := s, in_updated_at := now,
      in_resolved_at := (if s = RESOLVED then Some now else in_resolved_at r)\<rparr>"
    and st': "st' = log_incident i s now why (st\<lparr>st_incidents := set_row in_id r' (st_incidents st)\<rparr>)"
    using assms(2) by (auto simp: transition_incident_def Let_def split: option.splits if_splits)
  have mem: "r \<in> set (st_incidents st)" "in_id r = i" using r by (auto simp: incident_def dest: row_by_SomeD)
  have dist: "distinct (map in_id (st_incidents st))" using assms(1) by (simp add: incidents_ok_def)
  have keys: "in_id r' = i" "in_identity r' = in_identity r" "in_state r' = s" using mem(2) by (simp_all add: r')
  have hist: "incident_history st' j = incident_history st j @ (if i = j then [s] else [])" for j
    by (simp add: st' incident_history_snoc)
  have rok: "incident_row_ok st r" using assms(1) mem(1) by (simp add: incidents_ok_def)
  have new: "incident_row_ok st' r'"
    using rok al mem(2)
    by (auto simp: incident_row_ok_def Let_def hist keys r' successively_append_iff incident_allowed_def
        split: incident_state.splits if_splits)
  have old: "incident_row_ok st' x" if "x \<in> set (st_incidents st)" "in_id x \<noteq> i" for x
    using assms(1) that by (auto simp: incidents_ok_def incident_row_ok_def hist Let_def)
  have act: "active r" if "active r'" using that al keys by (auto simp: active_def incident_allowed_def split: incident_state.splits)
  have rep: "\<exists>y\<in>set (st_incidents st). in_id y = in_id x \<and> in_identity y = in_identity x \<and> (active x \<longrightarrow> active y)"
    if "x \<in> set (set_row in_id r' (st_incidents st))" for x
    using set_set_row [OF that] mem act keys by auto
  have "one_active (set_row in_id r' (st_incidents st))"
    unfolding one_active_def
  proof (intro ballI impI)
    fix x y assume x: "x \<in> set (set_row in_id r' (st_incidents st))" and y: "y \<in> set (set_row in_id r' (st_incidents st))"
      and xy: "active x \<and> active y \<and> in_identity x = in_identity y"
    obtain x' y' where "x' \<in> set (st_incidents st)" "y' \<in> set (st_incidents st)" "active x'" "active y'"
      "in_identity x' = in_identity y'" "in_id x' = in_id x" "in_id y' = in_id y"
      using rep [OF x] rep [OF y] xy by metis
    moreover have "one_active (st_incidents st)" using assms(1) by (simp add: incidents_ok_def)
    ultimately show "in_id x = in_id y" unfolding one_active_def by metis
  qed
  moreover have "incident_row_ok st' x" if "x \<in> set (set_row in_id r' (st_incidents st))" for x
    using set_set_row [OF that] new old keys(1) by auto
  moreover have "in_id ` set (set_row in_id r' (st_incidents st)) = in_id ` set (st_incidents st)"
    by (metis keys_set_row set_map)
  ultimately show ?thesis
    using assms(1) mem by (auto simp: incidents_ok_def st' log_incident_def)
qed

lemma run_incident_ok: "incidents_ok st \<Longrightarrow> run_incident op now st = Inr st' \<Longrightarrow> incidents_ok st'"
  by (cases op) (auto simp: drop_result_Inr intro: join_ok move_ok)

lemma incidents_ok_new: "incidents_ok new_store"
  by (simp add: incidents_ok_def one_active_def new_store_def)

subsection \<open>The store implements the contract\<close>

lemma incident_event_ids_set:
  "set (incident_event_ids st i) = ie_event ` set (filter (\<lambda>e. ie_incident e = i) (st_incident_events st))"
  by (simp add: incident_event_ids_def)

lemma incident_touch:
  "incident st i = Some r \<Longrightarrow> incident (touch_incident i now st) i = Some (r\<lparr>in_updated_at := now\<rparr>)"
  by (induction "st_incidents st" arbitrary: st)
    (auto simp: incident_def touch_incident_def row_by_def find_Some_iff dest: find_Some_iff [THEN iffD1])

definition same_case :: "incident_case \<Rightarrow> incident_case \<Rightarrow> bool" where
  "same_case c d \<longleftrightarrow> ic_identity c = ic_identity d \<and> ic_state c = ic_state d \<and>
     set (ic_event_ids c) = set (ic_event_ids d) \<and> ic_opened_at c = ic_opened_at d"

lemma transition_refines:
  assumes "incident st i = Some r"
  shows "(case transition_incident i s why now st of
      Inl e \<Rightarrow> case_transition (incident_record st r) s (Some now) = Inl (CaseTransition (in_state r) s)
    | Inr (r', st') \<Rightarrow> incident st' i = Some r' \<and>
        case_transition (incident_record st r) s (Some now) = Inr (incident_record st' r'))"
proof -
  have id: "in_id r = i" using assms by (auto simp: incident_def dest: row_by_SomeD)
  show ?thesis
    using assms id
    by (auto simp: transition_incident_def case_transition_def incident_record_def Let_def incident_def
        log_incident_def incident_event_ids_def incident_allowed_def case_allowed_def row_by_set_row
        split: incident_state.splits)
qed

lemma join_refines:
  assumes "incidents_ok st" and "incident st i = Some r" and "active r" and "e \<noteq> []"
    and "create_or_join_incident (in_identity r) e uuid now st = Inr ((r', fresh1), st')"
  shows "\<not> fresh1 \<and> in_id r' = i \<and> (\<exists>c. join_event (incident_record st r) (in_identity r) e (Some now) = Inr c \<and>
    same_case c (incident_record st' r'))"
  using assms(5)
proof (rule create_or_joinE)
  fix st1 st2 j
  assume fr: "fresh1 \<longleftrightarrow> \<not> (\<exists>x\<in>set (st_incidents st). in_identity x = in_identity r \<and> active x)"
    and op: "if fresh1 then j = uuid \<and> open_incident (in_identity r) uuid now st = Inr st1
       else st1 = st \<and> (\<exists>x\<in>set (st_incidents st). in_identity x = in_identity r \<and> active x \<and> in_id x = j)"
    and li: "link_event j e now st1 = Inr st2" and st': "st' = touch_incident j now st2" "incident st' j = Some r'"
  have mem: "r \<in> set (st_incidents st)" "in_id r = i" using assms(2) by (auto simp: incident_def dest: row_by_SomeD)
  with assms(3) fr have not_fresh: "\<not> fresh1" by blast
  with op obtain x where st1: "st1 = st" and x: "x \<in> set (st_incidents st)" "in_identity x = in_identity r"
    "active x" "in_id x = j" by auto
  from assms(1) have "one_active (st_incidents st)" by (simp add: incidents_ok_def)
  with x mem assms(3) have j: "j = i" unfolding one_active_def by metis
  have inc2: "st_incidents st2 = st_incidents st"
    using li st1 by (auto simp: link_event_def split: option.splits if_splits)
  then have "incident st2 i = Some r" using assms(2) by (simp add: incident_def)
  from incident_touch [OF this, of now] st' j have r': "r' = r\<lparr>in_updated_at := now\<rparr>" by simp
  have ev: "st_incident_events st' = st_incident_events st2" by (simp add: st' touch_incident_def)
  have linked: "set (incident_event_ids st' i) = insert e (set (incident_event_ids st i))"
  proof (cases "row_by ie_event (st_incident_events st) e")
    case None
    with li st1 j have "st_incident_events st2 = st_incident_events st @ [\<lparr>ie_incident = i, ie_event = e, ie_joined_at = now\<rparr>]"
      by (simp add: link_event_def) (auto simp: st1)
    then show ?thesis unfolding incident_event_ids_set ev by simp
  next
    case (Some p)
    with li st1 j have "st2 = st" "ie_incident p = i" by (auto simp: link_event_def split: if_splits)
    moreover have "p \<in> set (st_incident_events st)" "ie_event p = e" using row_by_SomeD [OF Some] by auto
    ultimately show ?thesis unfolding incident_event_ids_set ev by auto
  qed
  have "\<exists>c. join_event (incident_record st r) (in_identity r) e (Some now) = Inr c \<and>
      same_case c (incident_record st' r')"
    using assms(3,4) linked mem(2)
    by (auto simp: join_event_def can_join_def incident_record_def active_def same_case_def r')
  with not_fresh r' mem(2) show ?thesis by simp
qed


definition lab_cause :: incident_identity where
  "lab_cause = \<lparr>ii_device = ''PE2'', ii_cause_rung = ''interface'', ii_cause_subject = ''Gi0/0/0/0''\<rparr>"

definition incident_store :: store where
  "incident_store = projr (run_incident (Join lab_cause ''e1'' ''u1'') 50 leased_store)"

definition lab_incident :: incident_row where
  "lab_incident = \<lparr>in_id = ''u1'', in_identity = lab_cause, in_state = OPEN, in_opened_at = 50,
     in_updated_at = 50, in_resolved_at = None\<rparr>"

lemma leased_incidents: "st_incidents leased_store = [] \<and> st_incident_events leased_store = [] \<and>
    st_incident_transitions leased_store = []"
  by (simp add: leased_store_def leased_run_def run_defs strip_w)

lemma incident_store_run: "run_incident (Join lab_cause ''e1'' ''u1'') 50 leased_store = Inr incident_store"
  using leased_incidents leased_store_get
  by (simp add: incident_store_def create_or_join_incident_def open_incident_def link_event_def touch_incident_def
      log_incident_def incident_def row_by_def drop_result_def Let_def)

lemma incident_store_ok: "incidents_ok incident_store"
proof -
  have "incidents_ok leased_store" using leased_incidents by (simp add: incidents_ok_def one_active_def)
  from run_incident_ok [OF this incident_store_run] show ?thesis .
qed

lemma incident_store_row: "incident incident_store ''u1'' = Some lab_incident"
  using leased_incidents leased_store_get
  by (simp add: incident_store_def create_or_join_incident_def open_incident_def link_event_def touch_incident_def
      log_incident_def incident_def row_by_def drop_result_def Let_def lab_incident_def)


end
