(* ===== verification/Store_Records.thy ===== *)
theory Store_Records
  imports Incidents
begin

section \<open>The other records of the event store\<close>

text \<open>
  Models the remaining tables of \<open>event_store.py\<close>: procedure approvals and their dry-run results,
  shadow records, operator callbacks, Telegram cards, recovery sweeps, the operator's queries and
  retention.  File sizes, the backup copy and the checkpoint of \<open>compact\<close> are input and output
  and left out.
\<close>

subsection \<open>Procedure approvals\<close>

definition approval :: "store \<Rightarrow> string \<Rightarrow> approval_row option" where
  "approval st d = row_by ap_digest (st_approvals st) d"

definition record_procedure_approval ::
  "string \<Rightarrow> string \<Rightarrow> int \<Rightarrow> (string \<times> string) list \<Rightarrow> string \<Rightarrow> int \<Rightarrow> string \<Rightarrow> int \<Rightarrow> store \<Rightarrow>
   approval_row outcome" where
  "record_procedure_approval d procedure version parameters nonce expires_at signature now st =
     (if \<not> list_all (\<lambda>v. v \<noteq> []) [d, procedure, nonce, signature] \<or> version < 1
      then Inl (EventStoreError BadApproval)
      else if d \<in> ap_digest ` set (st_approvals st) \<or> nonce \<in> ap_nonce ` set (st_approvals st)
      then Inl (EventStoreError ApprovalExists)
      else let r = \<lparr>ap_digest = d, ap_procedure = procedure, ap_version = version,
                  ap_parameters = sort_key fst parameters, ap_nonce = nonce, ap_expires_at = expires_at,
                  ap_signature = signature, ap_approved_at = now, ap_consumed_at = None\<rparr>
           in Inr (r, st\<lparr>st_approvals := st_approvals st @ [r]\<rparr>))"

definition consume_procedure_approval :: "string \<Rightarrow> string \<Rightarrow> int \<Rightarrow> store \<Rightarrow> approval_row outcome" where
  "consume_procedure_approval d nonce now st =
     (case find (\<lambda>r. ap_digest r = d \<and> ap_nonce r = nonce) (st_approvals st) of
        None \<Rightarrow> Inl (EventStoreError NoSuchApproval)
      | Some row \<Rightarrow>
          if ap_consumed_at row \<noteq> None then Inl (EventStoreError ApprovalReplayed)
          else if ap_expires_at row \<le> now then Inl (EventStoreError ApprovalExpired)
          else let r = row\<lparr>ap_consumed_at := Some now\<rparr>
               in Inr (r, st\<lparr>st_approvals := set_row ap_digest r (st_approvals st)\<rparr>))"

definition record_procedure_simulation ::
  "string \<Rightarrow> string \<Rightarrow> bool \<Rightarrow> bool \<Rightarrow> string \<Rightarrow> int \<Rightarrow> store \<Rightarrow> simulation_row outcome" where
  "record_procedure_simulation d status network_activity device_writes verification now st =
     (if status \<noteq> ''not_executed'' \<or> network_activity \<or> device_writes \<or> verification \<noteq> ''not_executed''
      then Inl (EventStoreError DryRunViolated)
      else if approval st d = None then Inl (EventStoreError NoSuchApproval)
      else let r = \<lparr>si_digest = d, si_status = status, si_network_activity = network_activity,
                  si_device_writes = device_writes, si_verification = verification, si_recorded_at = now\<rparr>
           in Inr (r, st\<lparr>st_simulations := st_simulations st @ [r]\<rparr>))"

subsection \<open>Shadow records, callbacks, cards and sweeps\<close>

definition record_narrowing_shadow ::
  "string \<Rightarrow> string \<Rightarrow> dict list \<Rightarrow> dict option \<Rightarrow> string option \<Rightarrow> int \<Rightarrow> store \<Rightarrow> narrowing_row outcome" where
  "record_narrowing_shadow event_id mode candidates decision refusal now st =
     (if mode \<noteq> ''shadow'' then Inl (EventStoreError NotShadowMode)
      else if get st event_id = None then Inl (EventStoreError (NoSuchEvent event_id))
      else let r = \<lparr>nr_event = event_id, nr_mode = mode, nr_candidates = map stored_dict candidates,
                  nr_decision = map_option stored_dict decision, nr_refusal = refusal, nr_active = False,
                  nr_recorded_at = now\<rparr>
           in Inr (r, st\<lparr>st_narrowings := st_narrowings st @ [r]\<rparr>))"

definition record_admission_shadow ::
  "string \<Rightarrow> bool \<Rightarrow> string option \<Rightarrow> int \<Rightarrow> store \<Rightarrow> shadow_row outcome" where
  "record_admission_shadow event_id admitted reason now st = (case get st event_id of
     None \<Rightarrow> Inl (EventStoreError (NoSuchEvent event_id))
   | Some current \<Rightarrow>
       let r = \<lparr>sh_event = event_id, sh_admitted = admitted, sh_reason = reason,
             sh_durable_state = er_state current, sh_recorded_at = now\<rparr>
       in Inr (r, st\<lparr>st_shadows := st_shadows st @ [r]\<rparr>))"

definition record_operator_callback :: "string \<Rightarrow> string \<Rightarrow> dict \<Rightarrow> int \<Rightarrow> store \<Rightarrow> callback_row outcome" where
  "record_operator_callback callback_id event_id result now st =
     (if callback_id = [] then Inl (EventStoreError BadCallback)
      else case row_by oc_id (st_callbacks st) callback_id of
        Some row \<Rightarrow> Inr (row, st)
      | None \<Rightarrow> let r = \<lparr>oc_id = callback_id, oc_event = event_id, oc_result = stored_dict result, oc_recorded_at = now\<rparr>
                in Inr (r, st\<lparr>st_callbacks := st_callbacks st @ [r]\<rparr>))"

text \<open>\<open>INSERT \<dots> ON CONFLICT DO UPDATE\<close>.\<close>

definition upsert :: "('r \<Rightarrow> 'k) \<Rightarrow> 'r \<Rightarrow> 'r list \<Rightarrow> 'r list" where
  "upsert key r rows = (if key r \<in> key ` set rows then set_row key r rows else rows @ [r])"

definition save_telegram_card_state :: "string \<Rightarrow> dict \<Rightarrow> string option \<Rightarrow> int \<Rightarrow> store \<Rightarrow> card_row outcome" where
  "save_telegram_card_state event_id payload dirty_at now st =
     (if get st event_id = None then Inl IntegrityError
      else let r = \<lparr>tc_event = event_id, tc_payload = stored_dict payload, tc_dirty_at = dirty_at, tc_updated_at = now\<rparr>
           in Inr (r, st\<lparr>st_cards := upsert tc_event r (st_cards st)\<rparr>))"

definition record_telegram_card :: "string \<Rightarrow> string \<Rightarrow> int \<Rightarrow> string \<Rightarrow> int \<Rightarrow> store \<Rightarrow> receipt_row outcome" where
  "record_telegram_card event_id chat_id message_id render_hash now st =
     (if chat_id = [] \<or> message_id \<le> 0 \<or> render_hash = [] then Inl (EventStoreError BadReceipt)
      else if get st event_id = None then Inl IntegrityError
      else let r = \<lparr>tr_event = event_id, tr_chat = chat_id, tr_message = message_id, tr_hash = render_hash, tr_updated_at = now\<rparr>
           in Inr (r, st\<lparr>st_receipts := upsert (\<lambda>x. (tr_event x, tr_chat x)) r (st_receipts st)\<rparr>))"

definition record_recovery_sweep :: "string \<Rightarrow> int \<Rightarrow> int \<Rightarrow> int \<Rightarrow> int \<Rightarrow> store \<Rightarrow> sweep_row outcome" where
  "record_recovery_sweep worker started completed events_claimed notifications st =
     (if py_strip worker = [] \<or> events_claimed < 0 \<or> notifications < 0 then Inl (EventStoreError BadSweep)
      else if completed < started then Inl (EventStoreError BadSweep)
      else let r = \<lparr>sw_worker = worker, sw_started_at = started, sw_completed_at = completed,
                  sw_events = events_claimed, sw_notifications = notifications\<rparr>
           in Inr (r, st\<lparr>st_sweeps := st_sweeps st @ [r]\<rparr>))"

subsection \<open>Queries\<close>

definition list_events :: "event_state option \<Rightarrow> string option \<Rightarrow> int \<Rightarrow> store \<Rightarrow> store_error + event_row list" where
  "list_events state device limit st =
     (if limit < 0 \<or> limit > 1000 then Inl (EventStoreError BadLimit)
      else Inr (take (nat limit) (sort_key (\<lambda>r. (- er_updated_at r, er_id r))
        (filter (\<lambda>r. (state = None \<or> state = Some (er_state r)) \<and> (device = None \<or> device = Some (er_device r)))
           (st_events st)))))"

definition narrowing_shadow_records :: "string \<Rightarrow> store \<Rightarrow> narrowing_row list" where
  "narrowing_shadow_records event_id st = filter (\<lambda>r. nr_event r = event_id) (st_narrowings st)"

definition admission_shadow_records :: "string \<Rightarrow> store \<Rightarrow> shadow_row list" where
  "admission_shadow_records event_id st = filter (\<lambda>r. sh_event r = event_id) (st_shadows st)"

definition telegram_card_receipts :: "string \<Rightarrow> store \<Rightarrow> receipt_row list" where
  "telegram_card_receipts event_id st = sort_key tr_chat (filter (\<lambda>r. tr_event r = event_id) (st_receipts st))"

definition telegram_card_receipt :: "string \<Rightarrow> string \<Rightarrow> store \<Rightarrow> receipt_row option" where
  "telegram_card_receipt event_id chat_id st = find (\<lambda>r. tr_event r = event_id \<and> tr_chat r = chat_id) (st_receipts st)"

definition telegram_card_state :: "string \<Rightarrow> store \<Rightarrow> card_row option" where
  "telegram_card_state event_id st = row_by tc_event (st_cards st) event_id"

definition operator_callback_result :: "string \<Rightarrow> store \<Rightarrow> callback_row option" where
  "operator_callback_result callback_id st = row_by oc_id (st_callbacks st) callback_id"

record snapshot =
  sn_events :: "(event_state \<times> nat) list"
  sn_outbox :: "(outbox_state \<times> nat) list"
  sn_admitted :: nat
  sn_refused :: nat
  sn_oldest_retry :: "int option"
  sn_retry_age :: "int option"
  sn_oldest_lease :: "int option"
  sn_lease_age :: "int option"
  sn_dead_letters :: nat
  sn_outbox_dead_letters :: nat
  sn_sweep :: "(sweep_row \<times> int) option"

text \<open>\<open>SELECT s, COUNT(*) \<dots> GROUP BY s\<close>: only the values that occur.\<close>

definition group_counts :: "'s list \<Rightarrow> 's list \<Rightarrow> ('s \<times> nat) list" where
  "group_counts values column = filter (\<lambda>(_, n). n > 0) (map (\<lambda>v. (v, count_list column v)) values)"

text \<open>\<open>MIN\<close> over a column, whose nulls it skips.\<close>

definition least :: "int option list \<Rightarrow> int option" where
  "least xs = (case concat (map (\<lambda>x. case x of Some t \<Rightarrow> [t] | None \<Rightarrow> []) xs) of
     [] \<Rightarrow> None | t # ts \<Rightarrow> Some (fold min ts t))"

definition age :: "int \<Rightarrow> int option \<Rightarrow> int option" where
  "age now t = map_option (\<lambda>t. max 0 (now - t)) t"

definition health_snapshot :: "int \<Rightarrow> store \<Rightarrow> snapshot" where
  "health_snapshot now st =
     (let retry = least (map er_retry_at (filter (\<lambda>r. er_state r = RETRYABLE_FAILED) (st_events st)));
          lease = least (map er_lease_expires_at (filter (lease_lapsed now) (st_events st)));
          events = group_counts [RECEIVED, ADMITTED, RUNNING, COMPLETED, RETRYABLE_FAILED, TERMINAL_FAILED, DEAD_LETTER]
            (map er_state (st_events st));
          outbox = group_counts [PENDING, SENDING, SENT, OUTBOX_DEAD_LETTER] (map ox_state (st_outbox st))
      in \<lparr>sn_events = events, sn_outbox = outbox,
          sn_admitted = length (filter sh_admitted (st_shadows st)),
          sn_refused = length (filter (\<lambda>s. \<not> sh_admitted s) (st_shadows st)),
          sn_oldest_retry = retry, sn_retry_age = age now retry, sn_oldest_lease = lease, sn_lease_age = age now lease,
          sn_dead_letters = (case map_of events DEAD_LETTER of Some n \<Rightarrow> n | None \<Rightarrow> 0),
          sn_outbox_dead_letters = (case map_of outbox OUTBOX_DEAD_LETTER of Some n \<Rightarrow> n | None \<Rightarrow> 0),
          sn_sweep = (if st_sweeps st = [] then None
            else Some (last (st_sweeps st), max 0 (now - sw_completed_at (last (st_sweeps st)))))\<rparr>)"

subsection \<open>Retention\<close>

record retention =
  re_completed :: nat
  re_sent :: nat
  re_sweeps :: nat

definition days_before :: "int \<Rightarrow> int \<Rightarrow> int" where
  "days_before now days = now - days * 86400000000"

definition aged :: "int \<Rightarrow> event_row \<Rightarrow> bool" where
  "aged before r \<longleftrightarrow> er_state r \<in> {COMPLETED, TERMINAL_FAILED} \<and> er_updated_at r < before"

definition aged_sent :: "int \<Rightarrow> outbox_row \<Rightarrow> bool" where
  "aged_sent before r \<longleftrightarrow> ox_state r = SENT \<and> ox_updated_at r < before"

definition compaction_report :: "int \<Rightarrow> int \<Rightarrow> int \<Rightarrow> store \<Rightarrow> store_error + retention" where
  "compaction_report completed_days audit_days now st =
     (if completed_days < 1 \<or> audit_days < completed_days then Inl (EventStoreError BadRetention)
      else Inr \<lparr>re_completed = length (filter (aged (days_before now completed_days)) (st_events st)),
             re_sent = length (filter (aged_sent (days_before now completed_days)) (st_outbox st)),
             re_sweeps = length (filter (\<lambda>s. sw_completed_at s < days_before now audit_days) (st_sweeps st))\<rparr>)"

text \<open>The rows that keep an event from being deleted; callbacks refer to events without a foreign key.\<close>

definition referenced :: "store \<Rightarrow> string \<Rightarrow> bool" where
  "referenced st i \<longleftrightarrow> i \<in> ox_event ` set (st_outbox st) \<or> i \<in> ie_event ` set (st_incident_events st) \<or>
     i \<in> tr_event ` set (st_receipts st) \<or> i \<in> tc_event ` set (st_cards st) \<or> i \<in> oc_event ` set (st_callbacks st)"

text \<open>The foreign keys of the schema.\<close>

definition references_ok :: "store \<Rightarrow> bool" where
  "references_ok st \<longleftrightarrow> (let ids = er_id ` set (st_events st) in
     at_event ` set (st_attempts st) \<subseteq> ids \<and> ox_event ` set (st_outbox st) \<subseteq> ids \<and>
     ie_event ` set (st_incident_events st) \<subseteq> ids \<and> tr_event ` set (st_receipts st) \<subseteq> ids \<and>
     tc_event ` set (st_cards st) \<subseteq> ids \<and> sh_event ` set (st_shadows st) \<subseteq> ids \<and>
     nr_event ` set (st_narrowings st) \<subseteq> ids) \<and>
     ie_incident ` set (st_incident_events st) \<subseteq> in_id ` set (st_incidents st) \<and>
     it_incident ` set (st_incident_transitions st) \<subseteq> in_id ` set (st_incidents st) \<and>
     si_digest ` set (st_simulations st) \<subseteq> ap_digest ` set (st_approvals st)"

record compaction =
  co_report :: retention
  co_outbox_deleted :: nat
  co_sweeps_deleted :: nat
  co_events_deleted :: nat

definition compact :: "int \<Rightarrow> int \<Rightarrow> int \<Rightarrow> store \<Rightarrow> compaction outcome" where
  "compact completed_days audit_days now st = (case compaction_report completed_days audit_days now st of
     Inl e \<Rightarrow> Inl e
   | Inr report \<Rightarrow>
       let before = days_before now completed_days;
           st1 = st\<lparr>st_outbox := filter (\<lambda>r. \<not> aged_sent before r) (st_outbox st),
                   st_sweeps := filter (\<lambda>s. \<not> sw_completed_at s < days_before now audit_days) (st_sweeps st)\<rparr>;
           ids = map er_id (filter (\<lambda>r. aged before r \<and> \<not> referenced st1 (er_id r)) (st_events st1));
           st2 = st1\<lparr>st_attempts := filter (\<lambda>a. at_event a \<notin> set ids) (st_attempts st1),
                   st_shadows := filter (\<lambda>s. sh_event s \<notin> set ids) (st_shadows st1),
                   st_narrowings := filter (\<lambda>n. nr_event n \<notin> set ids) (st_narrowings st1),
                   st_events := filter (\<lambda>r. er_id r \<notin> set ids) (st_events st1)\<rparr>
       in if \<not> references_ok st2 then Inl (EventStoreError CompactionFailed)
          else Inr (\<lparr>co_report = report,
                     co_outbox_deleted = length (filter (aged_sent before) (st_outbox st)),
                     co_sweeps_deleted = length (filter (\<lambda>s. sw_completed_at s < days_before now audit_days) (st_sweeps st)),
                     co_events_deleted = length ids\<rparr>, st2))"

end
