(* ===== verification/Store_Machine.thy ===== *)
theory Store_Machine
  imports Store_Records
begin

section \<open>The event store as one machine\<close>

text \<open>
  Every operation that changes the database, as a step; the states it can reach from an empty
  database; and the invariant of the whole database, which every step keeps, retention included.
\<close>

subsection \<open>Steps\<close>

datatype store_op =
    EventOp event_op
  | OutboxOp outbox_op
  | IncidentOp incident_op
  | Approve string string int "(string \<times> string) list" string int string
  | Consume string string
  | Simulate string string bool bool string
  | Narrow string string "dict list" "dict option" "string option"
  | Shadow string bool "string option"
  | Callback string string dict
  | Card string dict "string option"
  | Receipt string string int string
  | Sweep string int int int int
  | Compact int int

fun step :: "store_op \<Rightarrow> int \<Rightarrow> store \<Rightarrow> store_error + store" where
  "step (EventOp op) now st = run_op op now st"
| "step (OutboxOp op) now st = run_outbox op now st"
| "step (IncidentOp op) now st = run_incident op now st"
| "step (Approve d p v ps n e s) now st = drop_result (record_procedure_approval d p v ps n e s now st)"
| "step (Consume d n) now st = drop_result (consume_procedure_approval d n now st)"
| "step (Simulate d s a w v) now st = drop_result (record_procedure_simulation d s a w v now st)"
| "step (Narrow e m cs d r) now st = drop_result (record_narrowing_shadow e m cs d r now st)"
| "step (Shadow e a r) now st = drop_result (record_admission_shadow e a r now st)"
| "step (Callback c e r) now st = drop_result (record_operator_callback c e r now st)"
| "step (Card e p d) now st = drop_result (save_telegram_card_state e p d now st)"
| "step (Receipt e c m h) now st = drop_result (record_telegram_card e c m h now st)"
| "step (Sweep w s c e n) now st = drop_result (record_recovery_sweep w s c e n st)"
| "step (Compact c a) now st = drop_result (compact c a now st)"

text \<open>\<open>runs st st'\<close>: accepted calls, by anybody and at any times, lead from \<open>st\<close> to \<open>st'\<close>.\<close>

inductive runs :: "store \<Rightarrow> store \<Rightarrow> bool" where
  none: "runs st st"
| more: "runs st st1 \<Longrightarrow> step op now st1 = Inr st2 \<Longrightarrow> runs st st2"

definition reachable :: "store \<Rightarrow> bool" where
  "reachable st \<longleftrightarrow> runs new_store st"

definition approvals_ok :: "store \<Rightarrow> bool" where
  "approvals_ok st \<longleftrightarrow> distinct (map ap_digest (st_approvals st)) \<and>
     (\<forall>s\<in>set (st_simulations st). si_status s = ''not_executed'' \<and> \<not> si_network_activity s \<and>
        \<not> si_device_writes s \<and> si_verification s = ''not_executed'') \<and>
     (\<forall>n\<in>set (st_narrowings st). nr_mode n = ''shadow'' \<and> \<not> nr_active n)"

definition store_ok :: "store \<Rightarrow> bool" where
  "store_ok st \<longleftrightarrow> events_ok st \<and> outbox_ok st \<and> incidents_ok st \<and> approvals_ok st \<and> references_ok st"

subsection \<open>What each group of operations leaves alone\<close>

definition event_ids :: "store \<Rightarrow> string set" where
  "event_ids st = er_id ` set (st_events st)"

text \<open>The tables outside the group are the same.\<close>

definition only_events :: "store \<Rightarrow> store \<Rightarrow> bool" where
  "only_events st st' \<longleftrightarrow> st_outbox st' = st_outbox st \<and> st_outbox_seq st' = st_outbox_seq st \<and>
     st_incidents st' = st_incidents st \<and> st_incident_events st' = st_incident_events st \<and>
     st_incident_transitions st' = st_incident_transitions st \<and> st_approvals st' = st_approvals st \<and>
     st_simulations st' = st_simulations st \<and> st_receipts st' = st_receipts st \<and> st_cards st' = st_cards st \<and>
     st_callbacks st' = st_callbacks st \<and> st_shadows st' = st_shadows st \<and>
     st_narrowings st' = st_narrowings st \<and> st_sweeps st' = st_sweeps st"

lemma only_events_ops [simp]:
  "only_events st st" "only_events st (put_event r st)" "only_events st (log_attempt i s now why st)"
  "only_events st (log_attempt i s now why (put_event r st))"
  by (simp_all add: only_events_def put_event_def log_attempt_def)

lemma only_events_insert: "insert_event i d p now st = (r, st') \<Longrightarrow> only_events st st'"
  by (auto simp: insert_event_def only_events_def log_attempt_def Let_def)

lemma run_op_frame:
  assumes "run_op op now st = Inr st'"
  shows "only_events st st' \<and> event_ids st \<subseteq> event_ids st'"
proof
  show "only_events st st'"
    using assms only_events_insert
    by (cases op) (fastforce simp: drop_result_Inr create_or_get_def create_or_update_def transition_def
        schedule_retry_def acquire_lease_def renew_lease_def Let_def split: option.splits if_splits prod.splits)+
  from run_op_shape [OF assms] show "event_ids st \<subseteq> event_ids st'"
  proof (elim disjE)
    assume "changed op now st st'"
    then obtain r' where "st_events st' = set_row er_id r' (st_events st)" by (auto simp: changed_def)
    then have "map er_id (st_events st') = map er_id (st_events st)" by simp
    then show ?thesis unfolding event_ids_def by (metis list.set_map subset_refl)
  qed (auto simp: created_def event_ids_def)
qed

lemma get_ids: "get st i \<noteq> None \<longleftrightarrow> i \<in> event_ids st"
  using row_by_None_iff [of er_id "st_events st" i] by (auto simp: get_def event_ids_def)

lemma run_outbox_frame:
  assumes "run_outbox op now st = Inr st'"
  shows "st' = st\<lparr>st_outbox := st_outbox st', st_outbox_seq := st_outbox_seq st'\<rparr> \<and>
    ox_event ` set (st_outbox st') \<subseteq> ox_event ` set (st_outbox st) \<union> event_ids st"
proof (cases op)
  case (Enqueue i d k p)
  with assms show ?thesis
    using get_ids [of st i]
    by (auto simp: drop_result_Inr enqueue_notification_def Let_def split: option.splits if_splits)
next
  case (Claim n ow l)
  with assms obtain row r where row: "delivery st n = Some row" and st': "st' = put_delivery r st" "ox_event r = ox_event row"
    by (auto simp: drop_result_Inr claim_notification_def Let_def split: option.splits if_splits)
  from row have "row \<in> set (st_outbox st)" by (auto simp: delivery_def dest: row_by_SomeD)
  with st' show ?thesis by (auto simp: put_delivery_def dest!: set_set_row)
next
  case (Finish n s e a b m ow ep)
  with assms obtain row r where row: "delivery st n = Some row" and st': "st' = put_delivery r st" "ox_event r = ox_event row"
    by (auto simp: drop_result_Inr finish_notification_def Let_def split: option.splits if_splits)
  from row have "row \<in> set (st_outbox st)" by (auto simp: delivery_def dest: row_by_SomeD)
  with st' show ?thesis by (auto simp: put_delivery_def dest!: set_set_row)
qed

definition only_incidents :: "store \<Rightarrow> store \<Rightarrow> bool" where
  "only_incidents st st' \<longleftrightarrow> st_events st' = st_events st \<and> st_attempts st' = st_attempts st \<and>
     st_outbox st' = st_outbox st \<and> st_outbox_seq st' = st_outbox_seq st \<and> st_approvals st' = st_approvals st \<and>
     st_simulations st' = st_simulations st \<and> st_receipts st' = st_receipts st \<and> st_cards st' = st_cards st \<and>
     st_callbacks st' = st_callbacks st \<and> st_shadows st' = st_shadows st \<and>
     st_narrowings st' = st_narrowings st \<and> st_sweeps st' = st_sweeps st"

lemma open_incident_frame: "open_incident i u now st = Inr st' \<Longrightarrow> only_incidents st st'"
  by (auto simp: open_incident_def log_incident_def only_incidents_def split: if_splits)

lemma link_event_frame: "link_event i e now st = Inr st' \<Longrightarrow> only_incidents st st'"
  by (auto simp: link_event_def only_incidents_def split: option.splits if_splits)

lemma run_incident_frame:
  assumes "run_incident op now st = Inr st'"
  shows "only_incidents st st'"
proof (cases op)
  case (Join ident e uuid)
  with assms obtain r fr where j: "create_or_join_incident ident e uuid now st = Inr ((r, fr), st')"
    by (auto simp: drop_result_Inr)
  show ?thesis
  proof (rule create_or_joinE [OF j])
    fix st1 st2 i
    assume op: "if fr then i = uuid \<and> open_incident ident uuid now st = Inr st1
         else st1 = st \<and> (\<exists>x\<in>set (st_incidents st). in_identity x = ident \<and> active x \<and> in_id x = i)"
      and li: "link_event i e now st1 = Inr st2" and st': "st' = touch_incident i now st2"
    have "only_incidents st st1"
      using op open_incident_frame [of ident uuid now st st1] by (cases fr) (auto simp: only_incidents_def)
    with link_event_frame [OF li] show ?thesis
      by (simp add: only_incidents_def st' touch_incident_def)
  qed
next
  case (Move i s why)
  with assms show ?thesis
    by (auto simp: drop_result_Inr transition_incident_def Let_def log_incident_def only_incidents_def
        split: option.splits if_splits)
qed

subsection \<open>The invariant\<close>

lemma events_ok_cong: "st_events st' = st_events st \<Longrightarrow> st_attempts st' = st_attempts st \<Longrightarrow> events_ok st' = events_ok st"
  by (simp add: events_ok_def history_def event_attempts_def)

lemma outbox_ok_cong: "st_outbox st' = st_outbox st \<Longrightarrow> st_outbox_seq st' = st_outbox_seq st \<Longrightarrow> outbox_ok st' = outbox_ok st"
  by (simp add: outbox_ok_def)

lemma incidents_ok_mono:
  "incidents_ok st \<Longrightarrow> st_incidents st' = st_incidents st \<Longrightarrow> st_incident_events st' = st_incident_events st \<Longrightarrow>
   st_incident_transitions st' = st_incident_transitions st \<Longrightarrow>
   ie_event ` set (st_incident_events st) \<subseteq> event_ids st' \<Longrightarrow> incidents_ok st'"
  by (simp add: incidents_ok_def incident_row_ok_def incident_history_def event_ids_def)

lemma approvals_ok_cong:
  "st_approvals st' = st_approvals st \<Longrightarrow> st_simulations st' = st_simulations st \<Longrightarrow>
   st_narrowings st' = st_narrowings st \<Longrightarrow> approvals_ok st' = approvals_ok st"
  by (simp add: approvals_ok_def)

lemma event_op_ok:
  assumes "store_ok st" and "run_op op now st = Inr st'"
  shows "store_ok st'"
proof -
  have ev: "events_ok st'"
    using exec_ok [of st "(op, now)"] assms by (simp add: exec_def store_ok_def)
  have fr: "only_events st st'" "event_ids st \<subseteq> event_ids st'" using run_op_frame [OF assms(2)] by auto
  have at: "at_event ` set (st_attempts st') \<subseteq> event_ids st'" using ev by (simp add: events_ok_def event_ids_def)
  have ok: "outbox_ok st" "incidents_ok st" "approvals_ok st" "references_ok st"
    using assms(1) by (simp_all add: store_ok_def)
  have refs: "references_ok st'"
    using ok(4) at fr(2) fr(1)
    unfolding references_ok_def Let_def event_ids_def [symmetric] only_events_def
    by (elim conjE) (intro conjI; simp; blast)
  moreover have "ie_event ` set (st_incident_events st) \<subseteq> event_ids st'"
    using refs fr(1) unfolding references_ok_def Let_def event_ids_def [symmetric] only_events_def by simp
  ultimately show ?thesis
    using ev fr(1) ok outbox_ok_cong [of st' st] incidents_ok_mono [of st st'] approvals_ok_cong [of st' st]
    unfolding store_ok_def only_events_def by blast
qed

lemma outbox_op_ok:
  assumes "store_ok st" and "run_outbox op now st = Inr st'"
  shows "store_ok st'"
proof -
  have ob: "outbox_ok st'"
    using deliver_ok [of st "(op, now)"] assms by (simp add: deliver_def store_ok_def)
  note fr = run_outbox_frame [OF assms(2)]
  then obtain o1 n1 where st': "st' = st\<lparr>st_outbox := o1, st_outbox_seq := n1\<rparr>" by blast
  have "ox_event ` set o1 \<subseteq> event_ids st"
  proof -
    have "ox_event ` set o1 \<subseteq> ox_event ` set (st_outbox st) \<union> event_ids st" using fr by (simp add: st')
    moreover have "ox_event ` set (st_outbox st) \<subseteq> event_ids st"
      using assms(1) unfolding store_ok_def references_ok_def Let_def event_ids_def by simp
    ultimately show ?thesis by blast
  qed
  then have "references_ok st'"
    using assms(1) unfolding store_ok_def references_ok_def Let_def event_ids_def by (simp add: st')
  moreover have "events_ok st'" "approvals_ok st'" "incidents_ok st'"
    using assms(1) by (simp_all add: store_ok_def st' events_ok_def history_def event_attempts_def approvals_ok_def
        incidents_ok_def incident_row_ok_def incident_history_def)
  ultimately show ?thesis using ob by (simp add: store_ok_def)
qed

lemma incident_op_ok:
  assumes "store_ok st" and "run_incident op now st = Inr st'"
  shows "store_ok st'"
proof -
  have inc: "incidents_ok st'" using run_incident_ok [OF _ assms(2)] assms(1) by (simp add: store_ok_def)
  note fr = run_incident_frame [OF assms(2), unfolded only_incidents_def]
  have "references_ok st'"
    using assms(1) inc fr unfolding store_ok_def references_ok_def Let_def incidents_ok_def by simp
  then show ?thesis
    using inc fr assms(1) events_ok_cong [of st' st] outbox_ok_cong [of st' st] approvals_ok_cong [of st' st]
    unfolding store_ok_def by blast
qed

text \<open>Appending to, or replacing in, a table the invariants of the groups do not read.\<close>

lemma groups_cong [simp]:
  "events_ok (st\<lparr>st_approvals := a\<rparr>) = events_ok st" "events_ok (st\<lparr>st_simulations := b\<rparr>) = events_ok st"
  "events_ok (st\<lparr>st_receipts := c\<rparr>) = events_ok st" "events_ok (st\<lparr>st_cards := d\<rparr>) = events_ok st"
  "events_ok (st\<lparr>st_callbacks := e\<rparr>) = events_ok st" "events_ok (st\<lparr>st_shadows := f\<rparr>) = events_ok st"
  "events_ok (st\<lparr>st_narrowings := g\<rparr>) = events_ok st" "events_ok (st\<lparr>st_sweeps := h\<rparr>) = events_ok st"
  "outbox_ok (st\<lparr>st_approvals := a\<rparr>) = outbox_ok st" "outbox_ok (st\<lparr>st_simulations := b\<rparr>) = outbox_ok st"
  "outbox_ok (st\<lparr>st_receipts := c\<rparr>) = outbox_ok st" "outbox_ok (st\<lparr>st_cards := d\<rparr>) = outbox_ok st"
  "outbox_ok (st\<lparr>st_callbacks := e\<rparr>) = outbox_ok st" "outbox_ok (st\<lparr>st_shadows := f\<rparr>) = outbox_ok st"
  "outbox_ok (st\<lparr>st_narrowings := g\<rparr>) = outbox_ok st" "outbox_ok (st\<lparr>st_sweeps := h\<rparr>) = outbox_ok st"
  "incidents_ok (st\<lparr>st_approvals := a\<rparr>) = incidents_ok st" "incidents_ok (st\<lparr>st_simulations := b\<rparr>) = incidents_ok st"
  "incidents_ok (st\<lparr>st_receipts := c\<rparr>) = incidents_ok st" "incidents_ok (st\<lparr>st_cards := d\<rparr>) = incidents_ok st"
  "incidents_ok (st\<lparr>st_callbacks := e\<rparr>) = incidents_ok st" "incidents_ok (st\<lparr>st_shadows := f\<rparr>) = incidents_ok st"
  "incidents_ok (st\<lparr>st_narrowings := g\<rparr>) = incidents_ok st" "incidents_ok (st\<lparr>st_sweeps := h\<rparr>) = incidents_ok st"
  by (simp_all add: events_ok_def history_def event_attempts_def outbox_ok_def incidents_ok_def incident_row_ok_def
      incident_history_def)

text \<open>A new row of a table with a foreign key, once the key is known.\<close>

lemma add_row_ok:
  assumes "store_ok st"
  shows "sh_event h \<in> event_ids st \<Longrightarrow> store_ok (st\<lparr>st_shadows := st_shadows st @ [h]\<rparr>)"
    and "nr_event n \<in> event_ids st \<Longrightarrow> nr_mode n = ''shadow'' \<Longrightarrow> \<not> nr_active n \<Longrightarrow>
         store_ok (st\<lparr>st_narrowings := st_narrowings st @ [n]\<rparr>)"
    and "store_ok (st\<lparr>st_callbacks := cs\<rparr>)"
    and "store_ok (st\<lparr>st_sweeps := ss\<rparr>)"
    and "tc_event ` set ts \<subseteq> event_ids st \<Longrightarrow> store_ok (st\<lparr>st_cards := ts\<rparr>)"
    and "tr_event ` set rs \<subseteq> event_ids st \<Longrightarrow> store_ok (st\<lparr>st_receipts := rs\<rparr>)"
    and "si_digest s \<in> ap_digest ` set (st_approvals st) \<Longrightarrow> si_status s = ''not_executed'' \<Longrightarrow>
         si_verification s = ''not_executed'' \<Longrightarrow> \<not> si_network_activity s \<Longrightarrow> \<not> si_device_writes s \<Longrightarrow>
         store_ok (st\<lparr>st_simulations := st_simulations st @ [s]\<rparr>)"
    and "ap_digest q \<notin> ap_digest ` set (st_approvals st) \<Longrightarrow>
         store_ok (st\<lparr>st_approvals := st_approvals st @ [q]\<rparr>)"
  using assms
  by (simp_all add: store_ok_def approvals_ok_def references_ok_def event_ids_def Let_def subset_insertI2)

lemma card_keys: "store_ok st \<Longrightarrow> tc_event ` set (st_cards st) \<subseteq> event_ids st"
  by (simp add: store_ok_def references_ok_def event_ids_def Let_def)

lemma receipt_keys: "store_ok st \<Longrightarrow> tr_event ` set (st_receipts st) \<subseteq> event_ids st"
  by (simp add: store_ok_def references_ok_def event_ids_def Let_def)

lemma set_upsert: "f ` set (upsert key r rows) \<subseteq> insert (f r) (f ` set rows)"
  by (auto simp: upsert_def dest: set_set_row)

lemma approve_ok: "store_ok st \<Longrightarrow> record_procedure_approval d p v ps n e s now st = Inr (r, st') \<Longrightarrow> store_ok st'"
  by (auto simp: record_procedure_approval_def Let_def split: if_splits intro!: add_row_ok)

lemma consume_ok: "store_ok st \<Longrightarrow> consume_procedure_approval d n now st = Inr (r, st') \<Longrightarrow> store_ok st'"
proof -
  assume ok: "store_ok st" and c: "consume_procedure_approval d n now st = Inr (r, st')"
  then obtain q where st': "st' = st\<lparr>st_approvals := set_row ap_digest q (st_approvals st)\<rparr>"
    by (auto simp: consume_procedure_approval_def Let_def split: option.splits if_splits)
  have "ap_digest ` set (set_row ap_digest q (st_approvals st)) = ap_digest ` set (st_approvals st)"
    by (metis keys_set_row list.set_map)
  with ok show "store_ok st'"
    by (simp add: st' store_ok_def approvals_ok_def references_ok_def Let_def)
qed

lemma simulate_ok: "store_ok st \<Longrightarrow> record_procedure_simulation d s a w v now st = Inr (r, st') \<Longrightarrow> store_ok st'"
  using row_by_None_iff [of ap_digest "st_approvals st" d]
  by (auto simp: record_procedure_simulation_def approval_def Let_def split: if_splits intro!: add_row_ok)

lemma narrow_ok: "store_ok st \<Longrightarrow> record_narrowing_shadow e m cs d r now st = Inr (x, st') \<Longrightarrow> store_ok st'"
  using get_ids [of st e]
  by (auto simp: record_narrowing_shadow_def Let_def split: if_splits intro!: add_row_ok)

lemma shadow_ok: "store_ok st \<Longrightarrow> record_admission_shadow e a r now st = Inr (x, st') \<Longrightarrow> store_ok st'"
  using get_ids [of st e]
  by (auto simp: record_admission_shadow_def Let_def split: option.splits intro!: add_row_ok)

lemma callback_ok: "store_ok st \<Longrightarrow> record_operator_callback c e r now st = Inr (x, st') \<Longrightarrow> store_ok st'"
  by (auto simp: record_operator_callback_def Let_def split: option.splits if_splits intro!: add_row_ok)

lemma card_ok:
  assumes "store_ok st" and c: "save_telegram_card_state e p d now st = Inr (x, st')"
  shows "store_ok st'"
proof -
  from c have e: "e \<in> event_ids st" "tc_event x = e" "st' = st\<lparr>st_cards := upsert tc_event x (st_cards st)\<rparr>"
    using get_ids [of st e] by (auto simp: save_telegram_card_state_def Let_def split: if_splits)
  have "tc_event ` set (upsert tc_event x (st_cards st)) \<subseteq> event_ids st"
    by (rule order_trans [OF set_upsert]) (simp add: card_keys [OF assms(1)] e(1,2))
  then show ?thesis unfolding e(3) by (rule add_row_ok(5) [OF assms(1)])
qed

lemma receipt_ok:
  assumes "store_ok st" and c: "record_telegram_card e c m h now st = Inr (x, st')"
  shows "store_ok st'"
proof -
  let ?k = "\<lambda>x. (tr_event x, tr_chat x)"
  from c have e: "e \<in> event_ids st" "tr_event x = e" "st' = st\<lparr>st_receipts := upsert ?k x (st_receipts st)\<rparr>"
    using get_ids [of st e] by (auto simp: record_telegram_card_def Let_def split: if_splits)
  have "tr_event ` set (upsert ?k x (st_receipts st)) \<subseteq> event_ids st"
    by (rule order_trans [OF set_upsert]) (simp add: receipt_keys [OF assms(1)] e(1,2))
  then show ?thesis unfolding e(3) by (rule add_row_ok(6) [OF assms(1)])
qed

lemma sweep_ok: "store_ok st \<Longrightarrow> record_recovery_sweep w s c e n st = Inr (x, st') \<Longrightarrow> store_ok st'"
  by (auto simp: record_recovery_sweep_def Let_def split: if_splits intro!: add_row_ok)

subsection \<open>Retention\<close>

lemma referenced_cong:
  "st_outbox st' = st_outbox st \<Longrightarrow> st_incident_events st' = st_incident_events st \<Longrightarrow> st_receipts st' = st_receipts st \<Longrightarrow>
   st_cards st' = st_cards st \<Longrightarrow> st_callbacks st' = st_callbacks st \<Longrightarrow> referenced st' = referenced st"
  by (simp add: referenced_def fun_eq_iff)

lemma by_id:
  assumes "distinct (map f xs)" and "x \<in> set xs"
  shows "f x \<in> set (map f (filter P xs)) \<longleftrightarrow> P x"
  using assms by (auto simp: distinct_map inj_on_def)

text \<open>What \<open>compact\<close> leaves, before it checks the foreign keys.\<close>

definition swept :: "int \<Rightarrow> int \<Rightarrow> int \<Rightarrow> store \<Rightarrow> store" where
  "swept completed_days audit_days now st =
     (let before = days_before now completed_days;
          st1 = st\<lparr>st_outbox := filter (\<lambda>r. \<not> aged_sent before r) (st_outbox st),
                  st_sweeps := filter (\<lambda>s. \<not> sw_completed_at s < days_before now audit_days) (st_sweeps st)\<rparr>;
          kept = (\<lambda>i. i \<notin> set (map er_id (filter (\<lambda>r. aged before r \<and> \<not> referenced st1 (er_id r)) (st_events st))))
      in st1\<lparr>st_attempts := filter (\<lambda>a. kept (at_event a)) (st_attempts st),
             st_shadows := filter (\<lambda>s. kept (sh_event s)) (st_shadows st),
             st_narrowings := filter (\<lambda>n. kept (nr_event n)) (st_narrowings st),
             st_events := filter (\<lambda>r. kept (er_id r)) (st_events st)\<rparr>)"

lemma swept_same [simp]:
  "st_incidents (swept a b now st) = st_incidents st" "st_incident_events (swept a b now st) = st_incident_events st"
  "st_incident_transitions (swept a b now st) = st_incident_transitions st"
  "st_approvals (swept a b now st) = st_approvals st" "st_simulations (swept a b now st) = st_simulations st"
  "st_receipts (swept a b now st) = st_receipts st" "st_cards (swept a b now st) = st_cards st"
  "st_callbacks (swept a b now st) = st_callbacks st" "st_outbox_seq (swept a b now st) = st_outbox_seq st"
  "st_outbox (swept a b now st) = filter (\<lambda>r. \<not> aged_sent (days_before now a) r) (st_outbox st)"
  by (simp_all add: swept_def Let_def)

lemma compact_swept:
  "compact a b now st =
     (if a < 1 \<or> b < a then Inl (EventStoreError BadRetention)
      else if \<not> references_ok (swept a b now st) then Inl (EventStoreError CompactionFailed)
      else Inr (fst (projr (compact a b now st)), swept a b now st))"
  by (simp add: compact_def compaction_report_def swept_def Let_def)

lemma compact_result: "compact a b now st = Inr (x, st') \<Longrightarrow> st' = swept a b now st"
  by (auto simp: compact_def compaction_report_def swept_def Let_def split: if_splits)

lemma swept_events:
  assumes "events_ok st"
  shows "st_events (swept a b now st) =
    filter (\<lambda>r. \<not> (aged (days_before now a) r \<and> \<not> referenced (swept a b now st) (er_id r))) (st_events st)"
proof -
  let ?st1 = "st\<lparr>st_outbox := filter (\<lambda>r. \<not> aged_sent (days_before now a) r) (st_outbox st),
                  st_sweeps := filter (\<lambda>s. \<not> sw_completed_at s < days_before now b) (st_sweeps st)\<rparr>"
  have ref: "referenced (swept a b now st) = referenced ?st1" by (rule referenced_cong) simp_all
  have "distinct (map er_id (st_events st))" using assms by (simp add: events_ok_def)
  note by_id [OF this, where P = "\<lambda>r. aged (days_before now a) r \<and> \<not> referenced ?st1 (er_id r)"]
  then show ?thesis unfolding ref by (simp add: swept_def Let_def cong: filter_cong del: set_map)
qed

text \<open>A row is deleted with its event or not at all.\<close>

lemma swept_ids:
  "\<exists>gone. event_ids (swept a b now st) = event_ids st - gone \<and>
     (\<forall>i\<in>gone. \<not> referenced (swept a b now st) i) \<and>
     st_attempts (swept a b now st) = filter (\<lambda>x. at_event x \<notin> gone) (st_attempts st) \<and>
     st_shadows (swept a b now st) = filter (\<lambda>x. sh_event x \<notin> gone) (st_shadows st) \<and>
     st_narrowings (swept a b now st) = filter (\<lambda>x. nr_event x \<notin> gone) (st_narrowings st) \<and>
     st_events (swept a b now st) = filter (\<lambda>x. er_id x \<notin> gone) (st_events st)"
proof -
  let ?st1 = "st\<lparr>st_outbox := filter (\<lambda>r. \<not> aged_sent (days_before now a) r) (st_outbox st),
                  st_sweeps := filter (\<lambda>s. \<not> sw_completed_at s < days_before now b) (st_sweeps st)\<rparr>"
  let ?gone = "set (map er_id (filter (\<lambda>r. aged (days_before now a) r \<and> \<not> referenced ?st1 (er_id r)) (st_events st)))"
  have ref: "referenced (swept a b now st) = referenced ?st1" by (rule referenced_cong) simp_all
  have "\<forall>i\<in>?gone. \<not> referenced (swept a b now st) i" unfolding ref by auto
  moreover have "event_ids (swept a b now st) = event_ids st - ?gone"
    unfolding event_ids_def swept_def Let_def by (auto simp del: set_map)
  ultimately show ?thesis
    by (intro exI [of _ ?gone] conjI) (simp_all add: swept_def Let_def del: set_map)
qed

lemma image_kept: "f ` set xs \<subseteq> A \<Longrightarrow> f ` set (filter (\<lambda>x. f x \<notin> gone) xs) \<subseteq> A - gone"
  by auto

lemma image_unlinked: "f ` set xs \<subseteq> A \<Longrightarrow> \<forall>i\<in>gone. i \<notin> f ` set xs \<Longrightarrow> f ` set xs \<subseteq> A - gone"
  by blast

lemma swept_references: "references_ok st \<Longrightarrow> references_ok (swept a b now st)"
proof -
  assume ok: "references_ok st"
  obtain gone where gone: "event_ids (swept a b now st) = event_ids st - gone"
    and free: "\<forall>i\<in>gone. \<not> referenced (swept a b now st) i"
    and tabs: "st_attempts (swept a b now st) = filter (\<lambda>x. at_event x \<notin> gone) (st_attempts st)"
      "st_shadows (swept a b now st) = filter (\<lambda>x. sh_event x \<notin> gone) (st_shadows st)"
      "st_narrowings (swept a b now st) = filter (\<lambda>x. nr_event x \<notin> gone) (st_narrowings st)"
    using swept_ids by metis
  let ?s = "swept a b now st"
  have old: "at_event ` set (st_attempts st) \<subseteq> event_ids st" "sh_event ` set (st_shadows st) \<subseteq> event_ids st"
      "nr_event ` set (st_narrowings st) \<subseteq> event_ids st" "ox_event ` set (st_outbox st) \<subseteq> event_ids st"
      "ie_event ` set (st_incident_events st) \<subseteq> event_ids st" "tr_event ` set (st_receipts st) \<subseteq> event_ids st"
      "tc_event ` set (st_cards st) \<subseteq> event_ids st"
    and rest: "ie_incident ` set (st_incident_events st) \<subseteq> in_id ` set (st_incidents st)"
      "it_incident ` set (st_incident_transitions st) \<subseteq> in_id ` set (st_incidents st)"
      "si_digest ` set (st_simulations st) \<subseteq> ap_digest ` set (st_approvals st)"
    using ok unfolding references_ok_def Let_def event_ids_def by simp_all
  have "ox_event ` set (st_outbox ?s) \<subseteq> event_ids st" using old(4) by auto
  then have "ox_event ` set (st_outbox ?s) \<subseteq> event_ids st - gone"
    by (rule image_unlinked) (use free in \<open>unfold referenced_def, blast\<close>)
  moreover have "ie_event ` set (st_incident_events st) \<subseteq> event_ids st - gone"
    by (rule image_unlinked [OF old(5)]) (use free in \<open>unfold referenced_def swept_same, blast\<close>)
  moreover have "tr_event ` set (st_receipts st) \<subseteq> event_ids st - gone"
    by (rule image_unlinked [OF old(6)]) (use free in \<open>unfold referenced_def swept_same, blast\<close>)
  moreover have "tc_event ` set (st_cards st) \<subseteq> event_ids st - gone"
    by (rule image_unlinked [OF old(7)]) (use free in \<open>unfold referenced_def swept_same, blast\<close>)
  ultimately show ?thesis
    using old(1-3) [THEN image_kept, of gone] rest
    unfolding references_ok_def Let_def event_ids_def [symmetric] gone tabs swept_same by (intro conjI) assumption+
qed

lemma swept_ok:
  assumes "store_ok st"
  shows "store_ok (swept a b now st)"
    and "r \<in> set (st_events (swept a b now st)) \<Longrightarrow> history (swept a b now st) (er_id r) = history st (er_id r)"
proof -
  let ?s = "swept a b now st"
  obtain gone where at: "st_attempts ?s = filter (\<lambda>x. at_event x \<notin> gone) (st_attempts st)"
    and ev: "st_events ?s = filter (\<lambda>x. er_id x \<notin> gone) (st_events st)"
    and nr: "st_narrowings ?s = filter (\<lambda>x. nr_event x \<notin> gone) (st_narrowings st)"
    using swept_ids [of a b now st] by metis
  have ok: "events_ok st" "outbox_ok st" "incidents_ok st" "approvals_ok st" "references_ok st"
    using assms by (simp_all add: store_ok_def)
  have refs: "references_ok ?s" by (rule swept_references [OF ok(5)])
  have hist: "history ?s i = history st i" if "i \<notin> gone" for i
    using that by (simp add: history_def event_attempts_def at conj_commute cong: conj_cong)
  then show "history ?s (er_id r) = history st (er_id r)" if "r \<in> set (st_events ?s)"
    using that by (simp add: ev)
  have "at_event ` set (st_attempts ?s) \<subseteq> er_id ` set (st_events ?s)"
    using refs unfolding references_ok_def Let_def by (elim conjE)
  moreover have "row_ok r \<and> history_ok (history ?s (er_id r)) (er_state r)" if "r \<in> set (st_events ?s)" for r
    using that ok(1) hist by (simp add: ev events_ok_def)
  moreover have "distinct (map er_id (st_events ?s))"
    using ok(1) by (simp add: ev events_ok_def distinct_map_filter)
  ultimately have "events_ok ?s" by (simp add: events_ok_def)
  moreover have "outbox_ok ?s" using ok(2) by (simp add: outbox_ok_def distinct_map_filter)
  moreover have "incidents_ok ?s"
  proof (rule incidents_ok_mono [OF ok(3)])
    show "ie_event ` set (st_incident_events st) \<subseteq> event_ids ?s"
      using refs unfolding references_ok_def Let_def event_ids_def swept_same by (elim conjE)
  qed simp_all
  moreover have "approvals_ok ?s" using ok(4) by (simp add: approvals_ok_def nr)
  ultimately show "store_ok ?s" using refs by (simp add: store_ok_def)
qed

lemma compact_ok: "store_ok st \<Longrightarrow> compact a b now st = Inr (x, st') \<Longrightarrow> store_ok st'"
  using compact_result [of a b now st x st'] swept_ok(1) [of st a b now] by simp

subsection \<open>Every reachable database\<close>

lemma step_ok:
  assumes "store_ok st" and "step op now st = Inr st'"
  shows "store_ok st'"
  using assms
  by (cases op) (auto simp: drop_result_Inr intro: event_op_ok outbox_op_ok incident_op_ok approve_ok consume_ok
      simulate_ok narrow_ok shadow_ok callback_ok card_ok receipt_ok sweep_ok compact_ok)

lemma runs_ok: "runs st st' \<Longrightarrow> store_ok st \<Longrightarrow> store_ok st'"
  by (induction rule: runs.induct) (auto intro: step_ok)

lemma store_ok_new: "store_ok new_store"
  by (simp add: store_ok_def events_ok_def outbox_ok_def incidents_ok_def one_active_def approvals_ok_def
      references_ok_def new_store_def)

lemma reachable_ok: "reachable st \<Longrightarrow> store_ok st"
  unfolding reachable_def by (rule runs_ok [OF _ store_ok_new])

text \<open>C12: In every database that accepted calls can produce, by any callers and in any order, retention included:
  every foreign key finds its row; event, delivery, incident and approval keys are unique; the
  recorded attempts and incident transitions are paths of their life cycles that end in the stored
  state; an identity has at most one active incident; and no stored simulation or narrowing record
  says that a device was touched.\<close>

theorem reachable_store_is_consistent:
  assumes "reachable st"
  shows "references_ok st \<and> events_ok st \<and> outbox_ok st \<and> incidents_ok st \<and> approvals_ok st"
  using reachable_ok [OF assms] by (simp add: store_ok_def)

lemma reachable_execs: "reachable (execs xs new_store)"
proof (induction xs rule: rev_induct)
  case (snoc x xs)
  obtain op now where x: "x = (op, now)" by (cases x)
  from snoc show ?case
    by (cases "run_op op now (execs xs new_store)")
      (auto simp: x execs_def exec_def reachable_def intro: runs.intros(2) [where op = "EventOp op" and now = now])
qed (simp add: execs_def reachable_def runs.intros)

lemma reachable_leased: "reachable leased_store"
  unfolding leased_store_def by (rule reachable_execs)

definition done_store :: store where
  "done_store = execs [(Transit ''e1'' COMPLETED None None (Some ''w1'') (Some 1), 20)] leased_store"

lemma reachable_done: "reachable done_store"
  using reachable_execs [of "leased_run @ [(Transit ''e1'' COMPLETED None None (Some ''w1'') (Some 1), 20)]"]
  by (simp add: done_store_def leased_store_def execs_def)

theorem consistent_witness:
  "references_ok leased_store \<and> events_ok leased_store \<and> outbox_ok leased_store \<and> incidents_ok leased_store \<and>
   approvals_ok leased_store \<and> get leased_store ''e1'' = Some leased_row"
  using reachable_store_is_consistent [OF reachable_leased] leased_store_get by blast

text \<open>Retention never fails its own foreign-key check and deletes only what it may: exactly the completed or
  terminally failed events older than the limit to which no delivery that remains, incident, card,
  receipt or callback refers, with their attempts; the deliveries sent before the limit; and every
  event that stays keeps its whole recorded history.\<close>

theorem retention_is_exact:
  assumes "reachable st" and "1 \<le> completed_days" and "completed_days \<le> audit_days"
  shows "\<exists>c st'. compact completed_days audit_days now st = Inr (c, st') \<and>
    st_events st' = filter (\<lambda>r. \<not> (aged (days_before now completed_days) r \<and> \<not> referenced st' (er_id r))) (st_events st) \<and>
    st_outbox st' = filter (\<lambda>r. \<not> aged_sent (days_before now completed_days) r) (st_outbox st) \<and>
    (\<forall>r. r \<in> set (st_events st') \<longrightarrow> history st' (er_id r) = history st (er_id r)) \<and>
    st_incidents st' = st_incidents st \<and> st_incident_events st' = st_incident_events st \<and>
    st_receipts st' = st_receipts st \<and> st_cards st' = st_cards st \<and> st_callbacks st' = st_callbacks st \<and>
    st_approvals st' = st_approvals st"
proof -
  note ok = reachable_ok [OF assms(1)]
  let ?s = "swept completed_days audit_days now st"
  have "references_ok ?s" and "events_ok st" using swept_ok(1) [OF ok, of completed_days audit_days now] ok
    by (simp_all add: store_ok_def)
  then have "compact completed_days audit_days now st = Inr (fst (projr (compact completed_days audit_days now st)), ?s)"
    using compact_swept [of completed_days audit_days now st] assms(2,3) by simp
  then show ?thesis
    by (intro exI conjI allI impI)
      (assumption, rule swept_events [OF \<open>events_ok st\<close>], simp, rule swept_ok(2) [OF ok], assumption, simp_all)
qed

theorem retention_witness:
  "\<exists>c st'. compact 7 30 (8 * 86400000000) done_store = Inr (c, st') \<and>
    map er_id (st_events done_store) = [''e1''] \<and> st_events st' = []"
proof -
  have empty: "st_outbox done_store = []" "st_incident_events done_store = []" "st_receipts done_store = []"
      "st_cards done_store = []" "st_callbacks done_store = []"
    and row: "\<exists>r. st_events done_store = [r] \<and> er_id r = ''e1'' \<and> er_state r = COMPLETED \<and> er_updated_at r = 20"
    by (simp_all add: done_store_def leased_store_def leased_run_def run_defs strip_w)
  have "1 \<le> (7::int)" "(7::int) \<le> 30" by simp_all
  from retention_is_exact [OF reachable_done this, of "8 * 86400000000"] empty row show ?thesis
    by (auto simp: referenced_def aged_def days_before_def)
qed

subsection \<open>An approval is spent once\<close>

definition spent :: "string \<Rightarrow> store \<Rightarrow> bool" where
  "spent d st \<longleftrightarrow> (\<exists>r. r \<in> set (st_approvals st) \<and> ap_digest r = d \<and> ap_consumed_at r \<noteq> None)"

lemma step_approvals:
  assumes "step op now st = Inr st'"
  shows "(\<exists>q. st_approvals st' = st_approvals st @ q) \<or>
    (\<exists>d n. op = Consume d n \<and> (\<exists>r. consume_procedure_approval d n now st = Inr (r, st')))"
proof (cases op)
  case (EventOp x)
  with assms run_op_frame [of x now st st'] show ?thesis by (simp add: only_events_def)
next
  case (OutboxOp x)
  with assms run_outbox_frame [of x now st st'] have "st_approvals st' = st_approvals st"
    by (metis step.simps(2) store.select_convs store.surjective store.update_convs)
  then show ?thesis by simp
next
  case (IncidentOp x)
  with assms run_incident_frame [of x now st st'] show ?thesis by (simp add: only_incidents_def)
next
  case (Compact c a)
  with assms show ?thesis by (auto simp: drop_result_Inr dest: compact_result)
qed (use assms in \<open>auto simp: drop_result_Inr Let_def record_procedure_approval_def record_procedure_simulation_def
    record_narrowing_shadow_def record_admission_shadow_def record_operator_callback_def save_telegram_card_state_def
    record_telegram_card_def record_recovery_sweep_def split: if_splits option.splits\<close>)

lemma consume_row:
  assumes "consume_procedure_approval d n now st = Inr (r, st')"
  shows "\<exists>row. row \<in> set (st_approvals st) \<and> ap_digest row = d \<and> ap_nonce row = n \<and> ap_consumed_at row = None \<and>
    now < ap_expires_at row \<and> r = row\<lparr>ap_consumed_at := Some now\<rparr> \<and>
    st_approvals st' = set_row ap_digest r (st_approvals st)"
proof -
  obtain row where "find (\<lambda>r. ap_digest r = d \<and> ap_nonce r = n) (st_approvals st) = Some row"
    using assms by (auto simp: consume_procedure_approval_def split: option.splits)
  moreover from this have "row \<in> set (st_approvals st)" "ap_digest row = d" "ap_nonce row = n"
    by (auto simp: find_Some_iff)
  ultimately show ?thesis
    using assms by (auto simp: consume_procedure_approval_def Let_def not_le split: if_splits)
qed

lemma consume_spends:
  assumes "consume_procedure_approval d n now st = Inr (r, st')"
  shows "spent d st'"
proof -
  obtain row where row: "row \<in> set (st_approvals st)" "ap_digest row = d"
    "r = row\<lparr>ap_consumed_at := Some now\<rparr>" "st_approvals st' = set_row ap_digest r (st_approvals st)"
    using consume_row [OF assms] by blast
  then have "r \<in> set (st_approvals st')" by (force simp: set_row_def)
  moreover have "ap_digest r = d" "ap_consumed_at r \<noteq> None" by (simp_all add: row(2,3))
  ultimately show ?thesis unfolding spent_def by blast
qed

lemma same_digest:
  assumes "store_ok st" and "x \<in> set (st_approvals st)" and "y \<in> set (st_approvals st)" and "ap_digest x = ap_digest y"
  shows "x = y"
  using assms by (simp add: store_ok_def approvals_ok_def distinct_map inj_on_def)

lemma spent_refused:
  assumes "store_ok st" and "spent d st"
  shows "\<exists>e. consume_procedure_approval d n now st = Inl e"
proof (cases "consume_procedure_approval d n now st")
  case (Inr res)
  obtain r st' where "res = (r, st')" by (cases res)
  with Inr consume_row [of d n now st r st'] obtain row where
    "row \<in> set (st_approvals st)" "ap_digest row = d" "ap_consumed_at row = None" by blast
  moreover obtain q where "q \<in> set (st_approvals st)" "ap_digest q = d" "ap_consumed_at q \<noteq> None"
    using assms(2) by (auto simp: spent_def)
  ultimately show ?thesis using same_digest [OF assms(1), of row q] by simp
qed simp

lemma spent_kept:
  assumes "store_ok st" and "spent d st" and "step op now st = Inr st'"
  shows "spent d st'"
  using step_approvals [OF assms(3)]
proof (elim disjE exE conjE)
  fix q assume "st_approvals st' = st_approvals st @ q"
  with assms(2) show ?thesis by (auto simp: spent_def)
next
  fix e n r assume c: "consume_procedure_approval e n now st = Inr (r, st')"
  obtain q where q: "q \<in> set (st_approvals st)" "ap_digest q = d" "ap_consumed_at q \<noteq> None"
    using assms(2) by (auto simp: spent_def)
  have "e \<noteq> d" using spent_refused [OF assms(1,2), of n now] c by auto
  obtain row where "ap_digest row = e" "r = row\<lparr>ap_consumed_at := Some now\<rparr>"
    and st': "st_approvals st' = set_row ap_digest r (st_approvals st)"
    using consume_row [OF c] by blast
  then have "ap_digest r = e" by simp
  with q \<open>e \<noteq> d\<close> have "q \<in> set (st_approvals st')" unfolding st' by (force simp: set_row_def)
  with q show ?thesis unfolding spent_def by blast
qed

lemma spent_runs: "runs st st' \<Longrightarrow> store_ok st \<Longrightarrow> spent d st \<Longrightarrow> spent d st'"
proof (induction rule: runs.induct)
  case (more st st1 op now st2)
  then show ?case using spent_kept [of st1 d op now st2] runs_ok [of st st1] by blast
qed simp

text \<open>A procedure approval is spent at most once: after one accepted consumption, which needs the approval's
  own nonce before its expiry, every later attempt on the same proposal is refused, with any nonce,
  at any time and after any calls in between.\<close>

theorem approval_is_spent_once:
  assumes "reachable st" and "consume_procedure_approval d n t st = Inr (r, st1)" and "runs st1 st2"
  shows "ap_digest r = d \<and> ap_nonce r = n \<and> t < ap_expires_at r \<and>
    (\<exists>e. consume_procedure_approval d n' t' st2 = Inl e)"
proof -
  have ok: "store_ok st1" by (rule consume_ok [OF reachable_ok [OF assms(1)] assms(2)])
  have "spent d st2" by (rule spent_runs [OF assms(3) ok consume_spends [OF assms(2)]])
  from spent_refused [OF runs_ok [OF assms(3) ok] this] consume_row [OF assms(2)] show ?thesis by fastforce
qed

definition signed_store :: store where
  "signed_store = projr (step (Approve ''d1'' ''port_bounce'' 1 [] ''n1'' 50 ''sig'') 10 new_store)"

theorem approval_witness:
  "\<exists>r st1. consume_procedure_approval ''d1'' ''n1'' 20 signed_store = Inr (r, st1) \<and>
    (\<exists>e. consume_procedure_approval ''d1'' ''n1'' 30 st1 = Inl e)"
proof -
  have signed: "step (Approve ''d1'' ''port_bounce'' 1 [] ''n1'' 50 ''sig'') 10 new_store = Inr signed_store"
    by (simp add: signed_store_def drop_result_def record_procedure_approval_def new_store_def Let_def)
  then have "reachable signed_store" unfolding reachable_def by (rule runs.intros(2) [OF runs.intros(1)])
  moreover obtain r st1 where c: "consume_procedure_approval ''d1'' ''n1'' 20 signed_store = Inr (r, st1)"
    by (simp add: signed_store_def drop_result_def record_procedure_approval_def consume_procedure_approval_def
        new_store_def Let_def)
  ultimately have "\<exists>e. consume_procedure_approval ''d1'' ''n1'' 30 st1 = Inl e"
    using approval_is_spent_once [OF _ c runs.intros(1)] by blast
  with c show ?thesis by blast
qed

end
