(* ===== verification/Admission_Slots.thy ===== *)
theory Admission_Slots
  imports Py_Prelude
begin

section \<open>Admission control: concurrency slots\<close>

text \<open>
  Models the concurrency gate of \<open>admission.py\<close>: a counting semaphore made of lock files, one file
  per slot.  Every collection is its own process, so the model is a system of processes that share
  the table of held locks; one attempt of the polling loop of \<open>_held_slot\<close> over all its files is
  one step, and which files can be opened and whether the deadline has passed come with the step.
\<close>

subsection \<open>Slot files\<close>

definition safe_char :: "char \<Rightarrow> bool" where
  "safe_char c \<longleftrightarrow> (CHR ''A'' \<le> c \<and> c \<le> CHR ''Z'') \<or> (CHR ''a'' \<le> c \<and> c \<le> CHR ''z'') \<or>
     (CHR ''0'' \<le> c \<and> c \<le> CHR ''9'') \<or> c \<in> {CHR ''_'', CHR ''.'', CHR ''-''}"

text \<open>\<open>re.sub\<close> of every longest run of other characters by one underscore.\<close>

fun safe_name :: "bool \<Rightarrow> string \<Rightarrow> string" where
  "safe_name in_run [] = []"
| "safe_name in_run (c # cs) =
     (if safe_char c then c # safe_name False cs
      else if in_run then safe_name True cs else CHR ''_'' # safe_name True cs)"

definition sanitize :: "string \<Rightarrow> string" where
  "sanitize name = (if safe_name False name = [] then ''unknown'' else safe_name False name)"

definition device_slot_paths :: "string \<Rightarrow> int \<Rightarrow> string list" where
  "device_slot_paths device_name capacity =
     map (\<lambda>i. ''device.'' @ sanitize device_name @ ''.'' @ show_nat i @ ''.lock'') [0..<nat (max 1 capacity)]"

definition fabric_slot_paths :: "int \<Rightarrow> string list" where
  "fabric_slot_paths capacity = map (\<lambda>i. ''fabric.'' @ show_nat i @ ''.lock'') [0..<nat (max 1 capacity)]"

subsection \<open>Processes and locks\<close>

datatype scope = Device_Scope | Fabric_Scope

text \<open>Where a process is in \<open>admit\<close>, with the slot files it holds.\<close>

datatype phase =
    Wants_Device
  | Wants_Fabric string
  | Inside string string
  | Refused scope
  | Left
  | Unthrottled

record request =
  rq_device :: string
  rq_phase :: phase

record caps =
  cap_device :: int
  cap_fabric :: int

text \<open>\<open>flock\<close>: a path maps to the process that has it locked.\<close>

record gate =
  gt_locks :: "string \<Rightarrow> nat option"
  gt_requests :: "request list"

definition empty_gate :: gate where
  "empty_gate = \<lparr>gt_locks = (\<lambda>_. None), gt_requests = []\<rparr>"

text \<open>One pass of \<open>_held_slot\<close> over its files: the first one that opens and is not locked.\<close>

definition held_slot :: "string list \<Rightarrow> (string \<Rightarrow> bool) \<Rightarrow> (string \<Rightarrow> nat option) \<Rightarrow> string option" where
  "held_slot paths opens locks = find (\<lambda>p. opens p \<and> locks p = None) paths"

fun holds :: "phase \<Rightarrow> string set" where
  "holds (Wants_Fabric d) = {d}"
| "holds (Inside d f) = {d, f}"
| "holds _ = {}"

definition set_phase :: "nat \<Rightarrow> phase \<Rightarrow> gate \<Rightarrow> gate" where
  "set_phase pid ph g = g\<lparr>gt_requests := (gt_requests g)[pid := (gt_requests g ! pid)\<lparr>rq_phase := ph\<rparr>]\<rparr>"

definition unlock :: "string set \<Rightarrow> gate \<Rightarrow> gate" where
  "unlock ps g = g\<lparr>gt_locks := (\<lambda>p. if p \<in> ps then None else gt_locks g p)\<rparr>"

definition lock :: "nat \<Rightarrow> string \<Rightarrow> gate \<Rightarrow> gate" where
  "lock pid p g = g\<lparr>gt_locks := (gt_locks g)(p \<mapsto> pid)\<rparr>"

datatype gate_op =
    Arrive string bool
  | Poll nat "string \<Rightarrow> bool" bool
  | Leave nat

text \<open>
  \<open>Arrive device usable\<close> starts \<open>admit\<close>; without a usable directory it admits unthrottled.  \<open>Poll\<close>
  is one pass of the loop that is running, and the timeout check after it.  \<open>Leave\<close> is the end of the
  process wherever it is: the body returns, raises or the interpreter dies, and the kernel drops its locks.
\<close>

fun admit :: "caps \<Rightarrow> gate_op \<Rightarrow> gate \<Rightarrow> gate" where
  "admit c (Arrive device usable) g =
     g\<lparr>gt_requests := gt_requests g @ [\<lparr>rq_device = device, rq_phase = (if usable then Wants_Device else Unthrottled)\<rparr>]\<rparr>"
| "admit c (Poll pid opens timed_out) g =
     (if pid \<ge> length (gt_requests g) then g
      else case rq_phase (gt_requests g ! pid) of
        Wants_Device \<Rightarrow>
          (case held_slot (device_slot_paths (rq_device (gt_requests g ! pid)) (cap_device c)) opens (gt_locks g) of
             Some p \<Rightarrow> set_phase pid (Wants_Fabric p) (lock pid p g)
           | None \<Rightarrow> if timed_out then set_phase pid (Refused Device_Scope) g else g)
      | Wants_Fabric d \<Rightarrow>
          (case held_slot (fabric_slot_paths (cap_fabric c)) opens (gt_locks g) of
             Some f \<Rightarrow> set_phase pid (Inside d f) (lock pid f g)
           | None \<Rightarrow> if timed_out then set_phase pid (Refused Fabric_Scope) (unlock {d} g) else g)
      | _ \<Rightarrow> g)"
| "admit c (Leave pid) g =
     (if pid \<ge> length (gt_requests g) then g
      else set_phase pid Left (unlock (holds (rq_phase (gt_requests g ! pid))) g))"

inductive gate_reachable :: "caps \<Rightarrow> gate \<Rightarrow> bool" for c :: caps where
  start: "gate_reachable c empty_gate"
| more: "gate_reachable c g \<Longrightarrow> gate_reachable c (admit c op g)"

subsection \<open>The invariant\<close>

definition own_slots :: "caps \<Rightarrow> request \<Rightarrow> bool" where
  "own_slots c r \<longleftrightarrow> (case rq_phase r of
       Wants_Fabric d \<Rightarrow> d \<in> set (device_slot_paths (rq_device r) (cap_device c))
     | Inside d f \<Rightarrow> d \<in> set (device_slot_paths (rq_device r) (cap_device c)) \<and> f \<in> set (fabric_slot_paths (cap_fabric c))
     | _ \<Rightarrow> True)"

definition gate_ok :: "caps \<Rightarrow> gate \<Rightarrow> bool" where
  "gate_ok c g \<longleftrightarrow> (\<forall>p pid. gt_locks g p = Some pid \<longleftrightarrow>
       pid < length (gt_requests g) \<and> p \<in> holds (rq_phase (gt_requests g ! pid))) \<and>
     (\<forall>r\<in>set (gt_requests g). own_slots c r)"

lemma held_slotD: "held_slot ps opens locks = Some p \<Longrightarrow> p \<in> set ps \<and> locks p = None"
  by (auto simp: held_slot_def find_Some_iff)

lemma slot_names_differ: "d \<in> set (device_slot_paths n a) \<Longrightarrow> d \<notin> set (fabric_slot_paths b)"
  by (auto simp: device_slot_paths_def fabric_slot_paths_def)

lemma gate_ok_lock:
  assumes ok: "gate_ok c g" and pid: "pid < length (gt_requests g)" and free: "gt_locks g p = None"
    and holds: "holds ph = insert p (holds (rq_phase (gt_requests g ! pid)))"
    and own: "own_slots c ((gt_requests g ! pid)\<lparr>rq_phase := ph\<rparr>)"
  shows "gate_ok c (set_phase pid ph (lock pid p g))"
proof -
  have "q \<noteq> p" if "k < length (gt_requests g)" "q \<in> holds (rq_phase (gt_requests g ! k))" for k q
    using ok free that unfolding gate_ok_def by (metis option.distinct(1))
  then show ?thesis
    using ok pid holds own
    by (auto simp: gate_ok_def set_phase_def lock_def nth_list_update dest!: set_update_subset_insert [THEN subsetD])
qed

lemma gate_ok_unlock:
  assumes ok: "gate_ok c g" and pid: "pid < length (gt_requests g)" and "holds ph = {}"
    and "own_slots c ((gt_requests g ! pid)\<lparr>rq_phase := ph\<rparr>)"
  shows "gate_ok c (set_phase pid ph (unlock (holds (rq_phase (gt_requests g ! pid))) g))"
proof -
  have "k = pid" if "k < length (gt_requests g)" "q \<in> holds (rq_phase (gt_requests g ! k))"
    "q \<in> holds (rq_phase (gt_requests g ! pid))" for k q
    using ok that pid unfolding gate_ok_def by (metis option.inject)
  then show ?thesis
    using assms
    by (auto simp: gate_ok_def set_phase_def unlock_def nth_list_update split: if_splits
        dest!: set_update_subset_insert [THEN subsetD])
qed

lemma unlock_empty [simp]: "unlock {} g = g"
  by (simp add: unlock_def)

lemma admit_ok:
  assumes ok: "gate_ok c g"
  shows "gate_ok c (admit c op g)"
proof (cases op)
  case (Arrive d u)
  then show ?thesis
    using ok by (auto simp: gate_ok_def own_slots_def nth_append dest: nth_mem split: if_splits)
next
  case (Poll pid opens out)
  show ?thesis
  proof (cases "pid < length (gt_requests g)")
    case True
    let ?r = "gt_requests g ! pid"
    have nle: "\<not> length (gt_requests g) \<le> pid" using True by simp
    have own: "own_slots c ?r" using ok True by (simp add: gate_ok_def)
    show ?thesis
    proof (cases "rq_phase ?r")
      case Wants_Device
      show ?thesis
      proof (cases "held_slot (device_slot_paths (rq_device ?r) (cap_device c)) opens (gt_locks g)")
        case None
        then show ?thesis
          using ok gate_ok_unlock [OF ok True, of "Refused Device_Scope"]
          by (simp add: Poll nle Wants_Device own_slots_def)
      next
        case (Some p)
        from held_slotD [OF Some] show ?thesis
          using gate_ok_lock [OF ok True, of p "Wants_Fabric p"]
          by (simp add: Poll nle Wants_Device Some own_slots_def)
      qed
    next
      case (Wants_Fabric d)
      show ?thesis
      proof (cases "held_slot (fabric_slot_paths (cap_fabric c)) opens (gt_locks g)")
        case None
        then show ?thesis
          using ok gate_ok_unlock [OF ok True, of "Refused Fabric_Scope"]
          by (simp add: Poll nle Wants_Fabric own_slots_def)
      next
        case (Some f)
        from held_slotD [OF Some] show ?thesis
          using gate_ok_lock [OF ok True, of f "Inside d f"] own
          by (simp add: Poll nle Wants_Fabric Some own_slots_def insert_commute)
      qed
    qed (use ok in \<open>simp_all add: Poll nle\<close>)
  qed (use ok in \<open>simp add: Poll\<close>)
next
  case (Leave pid)
  then show ?thesis
    using ok gate_ok_unlock [OF ok, of pid Left] by (simp add: own_slots_def not_le)
qed

lemma gate_reachable_ok: "gate_reachable c g \<Longrightarrow> gate_ok c g"
  by (induction rule: gate_reachable.induct) (auto simp: empty_gate_def gate_ok_def [of c "\<lparr>gt_locks = _, gt_requests = []\<rparr>"] intro: admit_ok)

subsection \<open>The caps hold\<close>

definition inside :: "gate \<Rightarrow> nat set" where
  "inside g = {pid. pid < length (gt_requests g) \<and> (\<exists>d f. rq_phase (gt_requests g ! pid) = Inside d f)}"

definition inside_device :: "gate \<Rightarrow> string \<Rightarrow> nat set" where
  "inside_device g name = {pid \<in> inside g. sanitize (rq_device (gt_requests g ! pid)) = sanitize name}"

text \<open>Processes that each hold a path of one list are at most as many as the list is long.\<close>

lemma holders_bounded:
  assumes ok: "gate_ok c g" and "\<And>pid. pid \<in> A \<Longrightarrow> pid < length (gt_requests g) \<and>
    (\<exists>p. p \<in> holds (rq_phase (gt_requests g ! pid)) \<and> p \<in> set ps)"
  shows "card A \<le> length ps"
proof -
  have "\<forall>pid\<in>A. \<exists>p. p \<in> set ps \<and> gt_locks g p = Some pid"
    using assms(2) ok unfolding gate_ok_def by metis
  then obtain slot where slot: "pid \<in> A \<Longrightarrow> slot pid \<in> set ps \<and> gt_locks g (slot pid) = Some pid" for pid
    by metis
  then have "inj_on slot A" by (metis inj_onI option.inject)
  moreover have "slot ` A \<subseteq> set ps" using slot by blast
  ultimately have "card A \<le> card (set ps)" by (intro card_inj_on_le) simp_all
  then show ?thesis using card_length [of ps] by linarith
qed

lemma same_slots: "sanitize a = sanitize b \<Longrightarrow> device_slot_paths a n = device_slot_paths b n"
  by (simp add: device_slot_paths_def)

lemma inside_slots:
  assumes ok: "gate_ok c g" and "pid \<in> inside g"
  shows "pid < length (gt_requests g) \<and>
    (\<exists>d f. d \<in> holds (rq_phase (gt_requests g ! pid)) \<and> f \<in> holds (rq_phase (gt_requests g ! pid)) \<and>
      d \<in> set (device_slot_paths (rq_device (gt_requests g ! pid)) (cap_device c)) \<and>
      f \<in> set (fabric_slot_paths (cap_fabric c)))"
proof -
  obtain d f where lt: "pid < length (gt_requests g)" and ph: "rq_phase (gt_requests g ! pid) = Inside d f"
    using assms(2) by (auto simp: inside_def)
  moreover have "own_slots c (gt_requests g ! pid)" using ok lt by (simp add: gate_ok_def)
  ultimately show ?thesis by (auto simp: own_slots_def)
qed

text \<open>The collections that run: those with their two slots, and those that were let in without any because the lock
  directory could not be used.\<close>

definition running :: "gate \<Rightarrow> nat set" where
  "running g = {pid. pid < length (gt_requests g) \<and>
     ((\<exists>d f. rq_phase (gt_requests g ! pid) = Inside d f) \<or> rq_phase (gt_requests g ! pid) = Unthrottled)}"

definition running_device :: "gate \<Rightarrow> string \<Rightarrow> nat set" where
  "running_device g name = {pid \<in> running g. sanitize (rq_device (gt_requests g ! pid)) = sanitize name}"

fun let_in :: "(string \<Rightarrow> bool) \<Rightarrow> gate_op \<Rightarrow> bool" where
  "let_in P (Arrive device usable) = (\<not> usable \<and> P device)"
| "let_in P _ = False"

definition unthrottled :: "(string \<Rightarrow> bool) \<Rightarrow> gate \<Rightarrow> nat set" where
  "unthrottled P g = {pid. pid < length (gt_requests g) \<and> rq_phase (gt_requests g ! pid) = Unthrottled \<and> P (rq_device (gt_requests g ! pid))}"

lemma filter_update: "\<not> P y \<Longrightarrow> length (filter P (xs[i := y])) \<le> length (filter P xs)"
  by (induction xs arbitrary: i) (auto split: nat.splits)

lemma unthrottled_step:
  "length (filter (\<lambda>r. rq_phase r = Unthrottled \<and> P (rq_device r)) (gt_requests (admit c op g))) \<le>
   length (filter (\<lambda>r. rq_phase r = Unthrottled \<and> P (rq_device r)) (gt_requests g)) + (if let_in P op then 1 else 0)"
  by (cases op) (auto simp: set_phase_def lock_def unlock_def filter_update split: phase.split option.split)

lemma unthrottled_bounded: "card (unthrottled P (fold (admit c) ops empty_gate)) \<le> length (filter (let_in P) ops)"
proof -
  have "length (filter (\<lambda>r. rq_phase r = Unthrottled \<and> P (rq_device r)) (gt_requests (fold (admit c) ops empty_gate)))
      \<le> length (filter (let_in P) ops)"
  proof (induction ops rule: rev_induct)
    case (snoc op ops)
    with unthrottled_step [of P c op "fold (admit c) ops empty_gate"] show ?case by auto
  qed (simp add: empty_gate_def)
  then show ?thesis by (simp add: unthrottled_def length_filter_conv_card)
qed

lemma inside_bounded:
  assumes "gate_reachable c g"
  shows "card (inside_device g name) \<le> nat (max 1 (cap_device c))" and "card (inside g) \<le> nat (max 1 (cap_fabric c))"
proof -
  note ok = gate_reachable_ok [OF assms]
  have "card (inside g) \<le> length (fabric_slot_paths (cap_fabric c))"
    by (rule holders_bounded [OF ok]) (use inside_slots [OF ok] in blast)
  then show "card (inside g) \<le> nat (max 1 (cap_fabric c))" by (simp add: fabric_slot_paths_def)
  have "card (inside_device g name) \<le> length (device_slot_paths name (cap_device c))"
  proof (rule holders_bounded [OF ok])
    fix pid assume "pid \<in> inside_device g name"
    then have "pid \<in> inside g" and "sanitize (rq_device (gt_requests g ! pid)) = sanitize name"
      by (simp_all add: inside_device_def)
    from inside_slots [OF ok this(1)] same_slots [OF this(2), of "cap_device c"]
    show "pid < length (gt_requests g) \<and>
        (\<exists>p. p \<in> holds (rq_phase (gt_requests g ! pid)) \<and> p \<in> set (device_slot_paths name (cap_device c)))" by metis
  qed
  then show "card (inside_device g name) \<le> nat (max 1 (cap_device c))" by (simp add: device_slot_paths_def)
qed

lemma reachable_fold: "gate_reachable c g \<Longrightarrow> gate_reachable c (fold (admit c) ops g)"
  by (induction ops arbitrary: g) (auto intro: gate_reachable.more)


lemma show_zero: "show_nat 0 = ''0''"
  by code_simp

definition two_collections :: gate where
  "two_collections = fold (admit \<lparr>cap_device = 1, cap_fabric = 4\<rparr>)
     [Arrive ''PE1'' True, Arrive ''PE1'' True, Poll 0 (\<lambda>_. True) True, Poll 1 (\<lambda>_. True) True,
      Poll 0 (\<lambda>_. True) True] empty_gate"

lemma two_collections_phases: "map rq_phase (gt_requests two_collections) =
    [Inside ''device.PE1.0.lock'' ''fabric.0.lock'', Refused Device_Scope]"
  by (simp add: two_collections_def empty_gate_def held_slot_def device_slot_paths_def fabric_slot_paths_def
      sanitize_def safe_char_def set_phase_def lock_def upt_rec show_zero less_eq_char_def)


text \<open>A request is refused only when it must be: a poll that ends in a refusal found every slot file that opens
  held by another process; and with files that open and a free device slot and a free fabric slot, two
  polls admit it.\<close>

theorem refusal_needs_full_slots:
  assumes "gate_reachable c g" and "pid < length (gt_requests g)" and "rq_phase (gt_requests g ! pid) = Wants_Device"
  shows "(rq_phase (gt_requests (admit c (Poll pid opens True) g) ! pid) = Refused Device_Scope \<longleftrightarrow>
      (\<forall>p\<in>set (device_slot_paths (rq_device (gt_requests g ! pid)) (cap_device c)).
         opens p \<longrightarrow> (\<exists>q. q \<noteq> pid \<and> gt_locks g p = Some q))) \<and>
    (\<forall>d f. d \<in> set (device_slot_paths (rq_device (gt_requests g ! pid)) (cap_device c)) \<longrightarrow>
       f \<in> set (fabric_slot_paths (cap_fabric c)) \<longrightarrow> gt_locks g d = None \<longrightarrow> gt_locks g f = None \<longrightarrow>
       pid \<in> inside (admit c (Poll pid (\<lambda>_. True) False) (admit c (Poll pid (\<lambda>_. True) False) g)))"
proof (intro conjI allI impI)
  let ?ps = "device_slot_paths (rq_device (gt_requests g ! pid)) (cap_device c)"
  have mine: "gt_locks g p \<noteq> Some pid" for p
    using gate_reachable_ok [OF assms(1)] assms(3) by (auto simp: gate_ok_def)
  have "held_slot ?ps opens (gt_locks g) = None \<longleftrightarrow> (\<forall>p\<in>set ?ps. opens p \<longrightarrow> gt_locks g p \<noteq> None)"
    by (auto simp: held_slot_def find_None_iff)
  also have "\<dots> \<longleftrightarrow> (\<forall>p\<in>set ?ps. opens p \<longrightarrow> (\<exists>q. q \<noteq> pid \<and> gt_locks g p = Some q))"
    using mine by (metis not_None_eq)
  finally show "rq_phase (gt_requests (admit c (Poll pid opens True) g) ! pid) = Refused Device_Scope \<longleftrightarrow>
      (\<forall>p\<in>set ?ps. opens p \<longrightarrow> (\<exists>q. q \<noteq> pid \<and> gt_locks g p = Some q))"
    using assms(2,3) by (cases "held_slot ?ps opens (gt_locks g)") (simp_all add: not_le set_phase_def lock_def)
next
  let ?ps = "device_slot_paths (rq_device (gt_requests g ! pid)) (cap_device c)" and ?fs = "fabric_slot_paths (cap_fabric c)"
  fix d f assume d: "d \<in> set ?ps" "gt_locks g d = None" and f: "f \<in> set ?fs" "gt_locks g f = None"
  from d obtain p where p: "held_slot ?ps (\<lambda>_. True) (gt_locks g) = Some p"
    by (cases "held_slot ?ps (\<lambda>_. True) (gt_locks g)") (auto simp: held_slot_def find_None_iff)
  let ?g = "set_phase pid (Wants_Fabric p) (lock pid p g)"
  have g: "admit c (Poll pid (\<lambda>_. True) False) g = ?g" using assms(2,3) p by (simp add: not_le)
  have "f \<noteq> p" using slot_names_differ [of p _ "cap_device c" "cap_fabric c"] held_slotD [OF p] f(1) by blast
  then have "gt_locks ?g f = None" using f(2) by (simp add: set_phase_def lock_def)
  with f(1) obtain q where "held_slot ?fs (\<lambda>_. True) (gt_locks ?g) = Some q"
    by (cases "held_slot ?fs (\<lambda>_. True) (gt_locks ?g)") (auto simp: held_slot_def find_None_iff)
  moreover have "rq_phase (gt_requests ?g ! pid) = Wants_Fabric p" "pid < length (gt_requests ?g)"
    using assms(2) by (simp_all add: set_phase_def lock_def)
  ultimately show "pid \<in> inside (admit c (Poll pid (\<lambda>_. True) False) (admit c (Poll pid (\<lambda>_. True) False) g))"
    unfolding g by (simp add: not_le inside_def) (simp add: set_phase_def lock_def)
qed

theorem refusal_witness:
  "\<exists>q. q \<noteq> 2 \<and> gt_locks (admit \<lparr>cap_device = 1, cap_fabric = 4\<rparr> (Arrive ''PE1'' True) two_collections)
     ''device.PE1.0.lock'' = Some q"
proof -
  let ?c = "\<lparr>cap_device = 1, cap_fabric = 4\<rparr>" and ?g = "admit \<lparr>cap_device = 1, cap_fabric = 4\<rparr> (Arrive ''PE1'' True) two_collections"
  have r: "gate_reachable ?c ?g"
    unfolding two_collections_def by (intro gate_reachable.more reachable_fold gate_reachable.start)
  have "length (gt_requests two_collections) = 2"
    using arg_cong [OF two_collections_phases, of length] by simp
  then have g: "2 < length (gt_requests ?g)" "rq_phase (gt_requests ?g ! 2) = Wants_Device"
    "rq_device (gt_requests ?g ! 2) = ''PE1''" by (simp_all add: nth_append)
  have held: "gt_locks ?g ''device.PE1.0.lock'' = Some 0"
    by (simp add: two_collections_def empty_gate_def held_slot_def device_slot_paths_def fabric_slot_paths_def
      sanitize_def safe_char_def set_phase_def lock_def upt_rec show_zero less_eq_char_def)
  have paths: "device_slot_paths ''PE1'' 1 = [''device.PE1.0.lock'']"
    by (simp add: device_slot_paths_def sanitize_def safe_char_def upt_rec show_zero less_eq_char_def)
  have "rq_phase (gt_requests (admit ?c (Poll 2 (\<lambda>_. True) True) ?g) ! 2) = Refused Device_Scope"
    using g held by (simp add: paths held_slot_def set_phase_def del: admit.simps(1)) 
  with refusal_needs_full_slots [OF r g(1,2), of "\<lambda>_. True"] g(3) paths show ?thesis by simp
qed

end
