(* ===== verification/Py_Text.thy ===== *)
theory Py_Text
  imports Py_Prelude
begin

section \<open>Prelude: more of Python's strings and dictionaries\<close>

text \<open>
  Operations several components outside the diagnosis core use: assignment to a dictionary key,
  \<open>split\<close> and \<open>partition\<close> at a character, and prefixes of a sequence.
\<close>

subsection \<open>Assignment to a key\<close>

definition dict_set :: "dict \<Rightarrow> string \<Rightarrow> json \<Rightarrow> dict" where
  "dict_set d k v = (if k \<in> fst ` set d then map (\<lambda>(k', v'). (k', if k' = k then v else v')) d else d @ [(k, v)])"

lemma map_of_dict_set: "map_of (dict_set d k v) k' = (if k' = k then Some v else map_of d k')"
proof -
  have "map_of (map (\<lambda>(k', v'). (k', if k' = k then v else v')) d) k' =
      (if k' = k then map_option (\<lambda>_. v) (map_of d k) else map_of d k')"
    by (induction d) auto
  then show ?thesis
  proof (cases "k \<in> fst ` set d")
    case True
    then have "map_of d k \<noteq> None" by (simp add: map_of_eq_None_iff)
    then show ?thesis using True \<open>map_of (map _ d) k' = _\<close> by (auto simp: dict_set_def)
  next
    case False
    then have "map_of d k = None" by (simp add: map_of_eq_None_iff)
    then show ?thesis using False by (simp add: dict_set_def map_add_def split: option.splits)
  qed
qed

lemma dict_get_set [simp]: "dict_get (dict_set d k v) k' = (if k' = k then v else dict_get d k')"
  by (simp add: dict_get_or_def map_of_dict_set)

lemma distinct_dict_set: "distinct (map fst d) \<Longrightarrow> distinct (map fst (dict_set d k v))"
proof -
  have "map fst (map (\<lambda>(k', v'). (k', if k' = k then v else v')) d) = map fst d" by (induction d) auto
  then show "distinct (map fst d) \<Longrightarrow> ?thesis" by (auto simp: dict_set_def simp del: map_map)
qed

subsection \<open>Splitting at a character\<close>

fun split_on :: "char \<Rightarrow> string \<Rightarrow> string list" where
  "split_on sep [] = [[]]"
| "split_on sep (c # cs) = (if c = sep then [] # split_on sep cs
     else case split_on sep cs of p # ps \<Rightarrow> (c # p) # ps | [] \<Rightarrow> [[c]])"

definition partition_on :: "char \<Rightarrow> string \<Rightarrow> string \<times> string" where
  "partition_on sep s = (takeWhile (\<lambda>c. c \<noteq> sep) s, drop 1 (dropWhile (\<lambda>c. c \<noteq> sep) s))"

lemma split_on_nonempty [simp]: "split_on sep s \<noteq> []"
  by (induction s) (auto split: list.splits)

lemma join_split_on: "py_join [sep] (split_on sep s) = s"
proof (induction s)
  case (Cons c cs)
  then show ?case by (cases "split_on sep cs" rule: list.exhaust; cases "tl (split_on sep cs)") auto
qed simp

lemma split_on_free: "p \<in> set (split_on sep s) \<Longrightarrow> sep \<notin> set p"
  by (induction s arbitrary: p) (auto split: list.splits if_splits)

end
