(* ===== verification/Admission_Budget.thy ===== *)
theory Admission_Budget
  imports Admission_Slots Event_Identity Py_Text
begin

section \<open>Admission control: rate budgets and event runs\<close>

text \<open>
  Models the file-backed sliding windows of \<open>admission.py\<close> (active probes, event runs, event
  identities) and the event-run state file.  What a function reads, decides and writes under one
  exclusive lock is a function from the file to the answer and the new file.  The two budgets take two such
  locks, one after the other, with the time they read before the first; every call is its own
  process, so they are a system of calls that share the files, and a step of a call is one locked
  section.  A log is a list of lines, \<open>None\<close> for a line that is no number.  Times are integers in one unit; the environment's
  limits and windows are the record \<open>budget\<close>.  Without a usable directory every gate admits, which
  the callers see as no call at all.
\<close>

subsection \<open>Sliding windows\<close>

record budget =
  bu_window :: int
  bu_device_limit :: int
  bu_fabric_limit :: int

definition numbers :: "int option list \<Rightarrow> int list" where
  "numbers lines = concat (map (\<lambda>l. case l of Some t \<Rightarrow> [t] | None \<Rightarrow> []) lines)"

definition check_and_record_window :: "int option list \<Rightarrow> int \<Rightarrow> int \<Rightarrow> int \<Rightarrow> bool \<times> int option list" where
  "check_and_record_window lines limit window now =
     (let kept = filter (\<lambda>t. t \<ge> now - window) (numbers lines)
      in if int (length kept) \<ge> limit then (False, lines) else (True, map Some (kept @ [now])))"

type_synonym logs = "string \<Rightarrow> int option list"

definition device_log :: "string \<Rightarrow> string \<Rightarrow> string" where
  "device_log prefix d = prefix @ ''.'' @ sanitize d @ ''.log''"

definition fabric_log :: "string \<Rightarrow> string" where
  "fabric_log prefix = prefix @ ''.fabric.log''"

text \<open>A call with the time it read, before any lock, and the section it is about to enter.\<close>

datatype budget_phase = At_Device | At_Fabric | Within_Budget | Over_Budget string

record budget_call =
  bc_device :: string
  bc_now :: int
  bc_phase :: budget_phase

record budget_gate =
  bg_clock :: int
  bg_files :: logs
  bg_calls :: "budget_call list"

text \<open>The device window under its lock, then the fabric window under its own; what the first recorded stays when
  the second refuses.\<close>

definition window_section :: "string \<Rightarrow> string \<Rightarrow> string \<Rightarrow> budget \<Rightarrow> budget_call \<Rightarrow> logs \<Rightarrow> budget_phase \<times> logs" where
  "window_section prefix device_scope fabric_scope b call files = (case bc_phase call of
     At_Device \<Rightarrow>
       (let path = device_log prefix (bc_device call);
            (ok, ls) = check_and_record_window (files path) (max 1 (bu_device_limit b)) (bu_window b) (bc_now call)
        in (if ok then At_Fabric else Over_Budget device_scope, files(path := ls)))
   | At_Fabric \<Rightarrow>
       (let path = fabric_log prefix;
            (ok, ls) = check_and_record_window (files path) (max 1 (bu_fabric_limit b)) (bu_window b) (bc_now call)
        in (if ok then Within_Budget else Over_Budget fabric_scope, files(path := ls)))
   | ended \<Rightarrow> (ended, files))"

text \<open>Time passes, a call starts and reads the clock, or a call that is under way gets the lock it waits for.\<close>

datatype budget_op = Pass nat | Enter string | Section nat

fun two_windows :: "string \<Rightarrow> string \<Rightarrow> string \<Rightarrow> budget \<Rightarrow> budget_op \<Rightarrow> budget_gate \<Rightarrow> budget_gate" where
  "two_windows prefix device_scope fabric_scope b (Pass n) g = g\<lparr>bg_clock := bg_clock g + int n\<rparr>"
| "two_windows prefix device_scope fabric_scope b (Enter device_name) g =
     g\<lparr>bg_calls := bg_calls g @ [\<lparr>bc_device = device_name, bc_now = bg_clock g, bc_phase = At_Device\<rparr>]\<rparr>"
| "two_windows prefix device_scope fabric_scope b (Section pid) g =
     (if pid \<ge> length (bg_calls g) then g
      else let call = bg_calls g ! pid;
               (phase, files) = window_section prefix device_scope fabric_scope b call (bg_files g)
           in g\<lparr>bg_files := files, bg_calls := (bg_calls g)[pid := call\<lparr>bc_phase := phase\<rparr>]\<rparr>)"

definition check_probe_budget :: "budget \<Rightarrow> budget_op \<Rightarrow> budget_gate \<Rightarrow> budget_gate" where
  "check_probe_budget = two_windows ''probes'' ''probe_device'' ''probe_fabric''"

definition check_event_run_budget :: "budget \<Rightarrow> budget_op \<Rightarrow> budget_gate \<Rightarrow> budget_gate" where
  "check_event_run_budget = two_windows ''events'' ''event_device'' ''event_fabric''"

text \<open>Any files, no call under way, then any steps.\<close>

inductive budget_reachable :: "(budget_op \<Rightarrow> budget_gate \<Rightarrow> budget_gate) \<Rightarrow> budget_gate \<Rightarrow> bool" for gate where
  start: "bg_calls g = [] \<Longrightarrow> budget_reachable gate g"
| more: "budget_reachable gate g \<Longrightarrow> budget_reachable gate (gate op g)"

text \<open>\<open>claim_event_id\<close>: an identity is claimed once per window.\<close>

definition claim_event_id :: "int \<Rightarrow> string \<Rightarrow> int \<Rightarrow> (int \<times> string) option list \<Rightarrow> bool \<times> (int \<times> string) option list" where
  "claim_event_id window event_id now lines =
     (let kept = filter (\<lambda>(t, _). t \<ge> now - window) (concat (map (\<lambda>l. case l of Some e \<Rightarrow> [e] | None \<Rightarrow> []) lines))
      in if event_id \<in> snd ` set kept then (False, lines) else (True, map Some (kept @ [(now, event_id)])))"

subsection \<open>The event-run state file\<close>

record run_policy =
  rp_budget :: budget
  rp_idempotency :: int

text \<open>\<open>_load_event_state\<close>; \<open>JNull\<close> stands for a file that is no JSON.\<close>

definition load_event_state :: "json \<Rightarrow> dict" where
  "load_event_state raw =
     (let state = (case raw of JDict d \<Rightarrow> d | _ \<Rightarrow> []);
          state1 = (case dict_get state ''events'' of JDict _ \<Rightarrow> state | _ \<Rightarrow> dict_set state ''events'' (JDict []))
      in case dict_get state1 ''starts'' of JList _ \<Rightarrow> state1 | _ \<Rightarrow> dict_set state1 ''starts'' (JList []))"

definition events_of :: "json \<Rightarrow> dict" where
  "events_of raw = (case dict_get (load_event_state raw) ''events'' of JDict d \<Rightarrow> d | _ \<Rightarrow> [])"

definition starts_of :: "json \<Rightarrow> json list" where
  "starts_of raw = (case dict_get (load_event_state raw) ''starts'' of JList xs \<Rightarrow> xs | _ \<Rightarrow> [])"

text \<open>\<open>entry\<close> is a dictionary whose numeric \<open>key\<close> is not before the cutoff.\<close>

definition recent :: "string \<Rightarrow> int \<Rightarrow> json \<Rightarrow> bool" where
  "recent key cutoff entry = (case entry of
     JDict d \<Rightarrow> (case numeric (dict_get d key) of Some t \<Rightarrow> t \<ge> cutoff | None \<Rightarrow> False)
   | _ \<Rightarrow> False)"

definition hashable :: "json \<Rightarrow> bool" where
  "hashable v = (case v of JList _ \<Rightarrow> False | JDict _ \<Rightarrow> False | _ \<Rightarrow> True)"

definition lease_seconds :: "run_policy \<Rightarrow> int" where
  "lease_seconds p = min 300000000 (max 1000000 (rp_idempotency p))"

text \<open>Whether the earlier run of this identity blocks a new one; \<open>None\<close> for the \<open>TypeError\<close> of an
  unhashable status.\<close>

definition blocked :: "run_policy \<Rightarrow> int \<Rightarrow> json option \<Rightarrow> bool option" where
  "blocked p now prior = (case prior of
     Some (JDict d) \<Rightarrow>
       (let status = dict_get d ''status'';
            updated = (case numeric (dict_get d ''updated'') of Some t \<Rightarrow> t | None \<Rightarrow> 0)
        in if \<not> hashable status then None
           else Some (status \<in> {JStr ''accepted'', JStr ''running''} \<and> now - updated < lease_seconds p \<or>
                      status \<in> {JStr ''completed'', JStr ''terminal_failed''}))
   | _ \<Rightarrow> Some False)"

definition admit_event_run :: "run_policy \<Rightarrow> string \<Rightarrow> string \<Rightarrow> int \<Rightarrow> json \<Rightarrow> (string option \<times> json) option" where
  "admit_event_run p event_id device_name now raw =
     (let b = rp_budget p;
          retained_starts = filter (recent ''timestamp'' (now - bu_window b)) (starts_of raw);
          retained_events = filter (\<lambda>(_, e). recent ''updated'' (now - rp_idempotency p) e) (events_of raw)
      in case blocked p now (map_of retained_events event_id) of
           None \<Rightarrow> None
         | Some True \<Rightarrow> Some (Some ''event_idempotency'', raw)
         | Some False \<Rightarrow>
             let device_starts = length (filter (\<lambda>e. field e ''device'' = JStr device_name) retained_starts)
             in if int device_starts \<ge> max 1 (bu_device_limit b) then Some (Some ''event_device'', raw)
                else if int (length retained_starts) \<ge> max 1 (bu_fabric_limit b) then Some (Some ''event_fabric'', raw)
                else Some (None, JDict (dict_set (dict_set (load_event_state raw)
                  ''starts'' (JList (retained_starts @ [JDict [(''timestamp'', JInt now), (''device'', JStr device_name),
                      (''event_id'', JStr event_id)]])))
                  ''events'' (JDict (dict_set retained_events event_id
                      (JDict [(''device'', JStr device_name), (''status'', JStr ''accepted''), (''updated'', JInt now)]))))))"

definition finish_event_run :: "string \<Rightarrow> bool \<Rightarrow> int \<Rightarrow> json \<Rightarrow> json" where
  "finish_event_run event_id completed now raw = (case map_of (events_of raw) event_id of
     Some (JDict d) \<Rightarrow>
       JDict (dict_set (load_event_state raw) ''events'' (JDict (dict_set (events_of raw) event_id
         (JDict (dict_set (dict_set d ''status'' (JStr (if completed then ''completed'' else ''retryable_failed'')))
            ''updated'' (JInt now))))))
   | _ \<Rightarrow> raw)"

subsection \<open>Rates\<close>

text \<open>How many of the times fall in the window that ends at \<open>t\<close>.\<close>

definition rate :: "int \<Rightarrow> int \<Rightarrow> int list \<Rightarrow> nat" where
  "rate window t ts = length (filter (\<lambda>x. t - window \<le> x \<and> x \<le> t) ts)"

definition since :: "int \<Rightarrow> int list \<Rightarrow> nat" where
  "since c ts = length (filter (\<lambda>x. c \<le> x) ts)"

lemma since_append [simp]: "since c (xs @ ys) = since c xs + since c ys"
  by (simp add: since_def)

lemma since_single [simp]: "since c [x] = (if c \<le> x then 1 else 0)"
  by (auto simp: since_def)

lemma rate_le_since: "rate w t ts \<le> since (t - w) ts"
  by (induction ts) (auto simp: rate_def since_def)

lemma since_mono: "c \<le> c' \<Longrightarrow> since c' ts \<le> since c ts"
  by (induction ts) (auto simp: since_def)

text \<open>A grant that found fewer than \<open>limit\<close> grants in its own window keeps every window within the limit.\<close>

lemma rate_snoc:
  assumes "\<forall>x\<in>set gs. x \<le> now" and "\<forall>t. rate w t gs \<le> limit" and "since (now - w) gs < limit"
  shows "rate w t (gs @ [now]) \<le> limit"
proof (cases "t - w \<le> now \<and> now \<le> t")
  case True
  have "rate w t gs \<le> since (t - w) gs" by (rule rate_le_since)
  also have "\<dots> \<le> since (now - w) gs" using True by (intro since_mono) simp
  finally show ?thesis using True assms(3) by (simp add: rate_def)
next
  case False
  then show ?thesis using assms(2) by (auto simp: rate_def)
qed

lemma numbers_Some [simp]: "numbers (map Some xs) = xs"
  by (simp add: numbers_def comp_def)

lemma since_filter: "lo \<le> c \<Longrightarrow> since c (filter (\<lambda>t. t \<ge> lo) xs) = since c xs"
  by (induction xs) (auto simp: since_def)

text \<open>A grant under a time that was read earlier loses no entry of the window that ends now.\<close>

lemma window_accepts:
  assumes "check_and_record_window lines limit w r = (True, ls)" and "r \<le> now" and "now - w \<le> c"
  shows "since c (numbers ls) = since c (numbers lines) + (if c \<le> r then 1 else 0)" and "int (since c (numbers lines)) < limit"
proof -
  let ?kept = "filter (\<lambda>t. t \<ge> r - w) (numbers lines)"
  have ls: "ls = map Some (?kept @ [r])" and len: "int (length ?kept) < limit"
    using assms(1) by (auto simp: check_and_record_window_def Let_def split: if_splits)
  have "numbers ls = ?kept @ [r]" unfolding ls by (rule numbers_Some)
  then show "since c (numbers ls) = since c (numbers lines) + (if c \<le> r then 1 else 0)"
    using assms(2,3) by (simp add: since_filter)
  have "since c (numbers lines) = since c ?kept" using assms(2,3) by (simp add: since_filter)
  also have "\<dots> \<le> length ?kept" unfolding since_def by (rule length_filter_le)
  finally show "int (since c (numbers lines)) < limit" using len by linarith
qed

lemma window_refuses: "check_and_record_window lines limit w now = (False, ls) \<Longrightarrow> ls = lines"
  by (auto simp: check_and_record_window_def Let_def split: if_splits)

subsection \<open>The contract of a rate gate\<close>

text \<open>
  The granted calls of a run, in order.  A gate has the contract \<open>rate_gate\<close> when its state tracks the
  granted calls that count: a grant is only given below the limit and is tracked, and nothing else
  makes the state forget.  The calls that count are those \<open>counts\<close> selects.
\<close>

fun granted :: "('a \<Rightarrow> int \<Rightarrow> 's \<Rightarrow> bool \<times> 's) \<Rightarrow> ('a \<times> int) list \<Rightarrow> 's \<Rightarrow> ('a \<times> int) list" where
  "granted call [] s = []"
| "granted call ((a, now) # xs) s =
     (let (ok, s') = call a now s in (if ok then [(a, now)] else []) @ granted call xs s')"

definition counted :: "('a \<Rightarrow> bool) \<Rightarrow> ('a \<times> int) list \<Rightarrow> int list" where
  "counted counts gs = map snd (filter (\<lambda>x. counts (fst x)) gs)"

locale rate_gate =
  fixes call :: "'a \<Rightarrow> int \<Rightarrow> 's \<Rightarrow> bool \<times> 's" and counts :: "'a \<Rightarrow> bool" and w :: int and limit :: nat
    and tracks :: "int \<Rightarrow> int list \<Rightarrow> 's \<Rightarrow> bool"
  assumes tracks_start: "tracks now [] s"
    and tracks_later: "tracks now gs s \<Longrightarrow> now \<le> later \<Longrightarrow> tracks later gs s"
    and grant: "call a now s = (True, s') \<Longrightarrow> counts a \<Longrightarrow> tracks now gs s \<Longrightarrow>
      since (now - w) gs < limit \<and> tracks now (gs @ [now]) s'"
    and other: "call a now s = (ok, s') \<Longrightarrow> \<not> (ok \<and> counts a) \<Longrightarrow> tracks now gs s \<Longrightarrow> tracks now gs s'"
begin

lemma rate_bounded_from:
  assumes "tracks now gs s" and "\<forall>x\<in>set gs. x \<le> now" and "\<forall>t. rate w t gs \<le> limit" and "sorted (now # map snd xs)"
  shows "rate w t (gs @ counted counts (granted call xs s)) \<le> limit"
  using assms
proof (induction xs arbitrary: now gs s)
  case (Cons x xs)
  obtain a later where x: "x = (a, later)" by (cases x)
  obtain ok s' where c: "call a later s = (ok, s')" by (cases "call a later s")
  have le: "now \<le> later" and srt: "sorted (later # map snd xs)" using Cons.prems(4) by (auto simp: x)
  have tr: "tracks later gs s" using tracks_later [OF Cons.prems(1) le] .
  have old: "\<forall>y\<in>set gs. y \<le> later" using Cons.prems(2) le by force
  show ?case
  proof (cases "ok \<and> counts a")
    case True
    then have "call a later s = (True, s')" "counts a" using c by simp_all
    from grant [OF this tr] have g: "since (later - w) gs < limit" "tracks later (gs @ [later]) s'" by auto
    have "\<forall>t. rate w t (gs @ [later]) \<le> limit" using rate_snoc [OF old Cons.prems(3) g(1)] by blast
    moreover have "\<forall>y\<in>set (gs @ [later]). y \<le> later" using old by simp
    ultimately have "rate w t ((gs @ [later]) @ counted counts (granted call xs s')) \<le> limit"
      using Cons.IH [OF g(2)] srt by blast
    then show ?thesis using True by (simp add: x c counted_def)
  next
    case False
    from Cons.IH [OF other [OF c this tr] old Cons.prems(3) srt] show ?thesis
      using False by (auto simp: x c counted_def)
  qed
qed (simp add: counted_def)

lemma rate_bounded:
  assumes "sorted (map snd xs)"
  shows "rate w t (counted counts (granted call xs s)) \<le> limit"
proof (cases xs)
  case (Cons x ys)
  have "\<forall>t. rate w t [] \<le> limit" by (simp add: rate_def)
  with rate_bounded_from [OF tracks_start [of "snd x" s], of xs t] assms show ?thesis by (simp add: Cons)
qed (simp add: rate_def counted_def)

end

subsection \<open>What the windows let through\<close>

text \<open>The times that the calls let through had read, of those \<open>P\<close> selects.\<close>

definition read_times :: "(budget_call \<Rightarrow> bool) \<Rightarrow> budget_call list \<Rightarrow> int list" where
  "read_times P calls = map bc_now (filter P calls)"

text \<open>A log counts at least what it let through, within the window that ends now, and that is within the limit.\<close>

definition window_ok :: "int \<Rightarrow> int \<Rightarrow> (budget_call \<Rightarrow> bool) \<Rightarrow> string \<Rightarrow> budget_gate \<Rightarrow> bool" where
  "window_ok w limit P path g \<longleftrightarrow> (\<forall>c \<ge> bg_clock g - w.
     since c (read_times P (bg_calls g)) \<le> since c (numbers (bg_files g path)) \<and> int (since c (read_times P (bg_calls g))) \<le> limit)"

lemma read_update:
  "i < length calls \<Longrightarrow> bc_now y = bc_now (calls ! i) \<Longrightarrow>
    since c (read_times P (calls[i := y])) + (if P (calls ! i) \<and> c \<le> bc_now y then 1 else 0) =
    since c (read_times P calls) + (if P y \<and> c \<le> bc_now y then 1 else 0)"
proof (induction calls arbitrary: i)
  case (Cons x calls)
  show ?case
  proof (cases i)
    case 0
    with Cons.prems(2) show ?thesis by (auto simp: read_times_def since_def)
  next
    case (Suc j)
    with Cons.IH [of j] Cons.prems show ?thesis by (simp add: read_times_def since_def split: if_splits)
  qed
qed simp

lemma read_kept:
  "i < length calls \<Longrightarrow> bc_now y = bc_now (calls ! i) \<Longrightarrow> P y \<longrightarrow> P (calls ! i) \<Longrightarrow>
    since c (read_times P (calls[i := y])) \<le> since c (read_times P calls)"
  using read_update [of i calls y c P] by (auto split: if_splits)

text \<open>A section that lets nothing more through, and one that does.\<close>

lemma window_ok_same:
  assumes "window_ok w limit P path g" and "i < length (bg_calls g)" and "bc_now y = bc_now (bg_calls g ! i)"
    and "P y \<longrightarrow> P (bg_calls g ! i)" and "\<And>c. bg_clock g - w \<le> c \<Longrightarrow> since c (numbers (bg_files g path)) \<le> since c (numbers (files path))"
  shows "window_ok w limit P path (g\<lparr>bg_files := files, bg_calls := (bg_calls g)[i := y]\<rparr>)"
  unfolding window_ok_def
proof (intro allI impI)
  fix c assume "bg_clock (g\<lparr>bg_files := files, bg_calls := (bg_calls g)[i := y]\<rparr>) - w \<le> c"
  then have c: "bg_clock g - w \<le> c" by simp
  from assms(1) c have old: "since c (read_times P (bg_calls g)) \<le> since c (numbers (bg_files g path))" "int (since c (read_times P (bg_calls g))) \<le> limit"
    by (simp_all add: window_ok_def)
  from read_kept [OF assms(2-4), of c] old assms(5) [OF c]
  show "since c (read_times P (bg_calls (g\<lparr>bg_files := files, bg_calls := (bg_calls g)[i := y]\<rparr>))) \<le>
      since c (numbers (bg_files (g\<lparr>bg_files := files, bg_calls := (bg_calls g)[i := y]\<rparr>) path)) \<and>
    int (since c (read_times P (bg_calls (g\<lparr>bg_files := files, bg_calls := (bg_calls g)[i := y]\<rparr>)))) \<le> limit" by simp
qed

lemma window_ok_more:
  assumes "window_ok w limit P path g" and "i < length (bg_calls g)" and "bc_now y = bc_now (bg_calls g ! i)"
    and "bc_now y \<le> bg_clock g" and "check_and_record_window (bg_files g path) limit w (bc_now y) = (True, ls)"
  shows "window_ok w limit P path (g\<lparr>bg_files := (bg_files g)(path := ls), bg_calls := (bg_calls g)[i := y]\<rparr>)"
  unfolding window_ok_def
proof (intro allI impI)
  fix c assume "bg_clock (g\<lparr>bg_files := (bg_files g)(path := ls), bg_calls := (bg_calls g)[i := y]\<rparr>) - w \<le> c"
  then have c: "bg_clock g - w \<le> c" by simp
  from assms(1) c have old: "since c (read_times P (bg_calls g)) \<le> since c (numbers (bg_files g path))" by (simp add: window_ok_def)
  from read_update [OF assms(2,3), of c P]
  have "since c (read_times P ((bg_calls g)[i := y])) \<le> since c (read_times P (bg_calls g)) + (if c \<le> bc_now y then 1 else 0)"
    by (auto split: if_splits)
  with window_accepts [OF assms(5,4) c] old
  show "since c (read_times P (bg_calls (g\<lparr>bg_files := (bg_files g)(path := ls), bg_calls := (bg_calls g)[i := y]\<rparr>))) \<le>
      since c (numbers (bg_files (g\<lparr>bg_files := (bg_files g)(path := ls), bg_calls := (bg_calls g)[i := y]\<rparr>) path)) \<and>
    int (since c (read_times P (bg_calls (g\<lparr>bg_files := (bg_files g)(path := ls), bg_calls := (bg_calls g)[i := y]\<rparr>)))) \<le> limit"
    by (auto split: if_splits)
qed

text \<open>Another log, or the same one, written by any section: entries of the window are never lost.\<close>

lemma recorded_grows:
  assumes "check_and_record_window (files q) limit w r = (ok, ls)" and "r \<le> now" and "now - w \<le> c"
  shows "since c (numbers (files p)) \<le> since c (numbers ((files(q := ls)) p))"
proof (cases ok)
  case True
  with assms window_accepts(1) [of "files q" limit w r ls now c] show ?thesis by auto
next
  case False
  with assms(1) window_refuses [of "files q" limit w r ls] show ?thesis by simp
qed

definition passed_device :: "string \<Rightarrow> budget_call \<Rightarrow> bool" where
  "passed_device d call \<longleftrightarrow> sanitize (bc_device call) = sanitize d \<and> bc_phase call \<in> {At_Fabric, Within_Budget}"

definition passed_fabric :: "budget_call \<Rightarrow> bool" where
  "passed_fabric call \<longleftrightarrow> bc_phase call = Within_Budget"

definition budget_ok :: "string \<Rightarrow> budget \<Rightarrow> budget_gate \<Rightarrow> bool" where
  "budget_ok prefix b g \<longleftrightarrow> (\<forall>call\<in>set (bg_calls g). bc_now call \<le> bg_clock g) \<and>
     (\<forall>d. window_ok (bu_window b) (max 1 (bu_device_limit b)) (passed_device d) (device_log prefix d) g) \<and>
     window_ok (bu_window b) (max 1 (bu_fabric_limit b)) passed_fabric (fabric_log prefix) g"

lemma section_device_ok:
  assumes ok: "budget_ok prefix b g" and i: "i < length (bg_calls g)" and ph: "bc_phase (bg_calls g ! i) = At_Device"
    and w: "check_and_record_window (bg_files g (device_log prefix (bc_device (bg_calls g ! i)))) (max 1 (bu_device_limit b)) (bu_window b)
      (bc_now (bg_calls g ! i)) = (okay, ls)"
    and y: "y = (bg_calls g ! i)\<lparr>bc_phase := if okay then At_Fabric else Over_Budget scope\<rparr>"
  shows "budget_ok prefix b (g\<lparr>bg_files := (bg_files g)(device_log prefix (bc_device (bg_calls g ! i)) := ls), bg_calls := (bg_calls g)[i := y]\<rparr>)"
proof -
  let ?x = "bg_calls g ! i"
  have now: "bc_now ?x \<le> bg_clock g" using ok i by (simp add: budget_ok_def)
  have now_y: "bc_now y = bc_now ?x" by (simp add: y)
  have grows: "since c (numbers (bg_files g p)) \<le> since c (numbers (((bg_files g)(device_log prefix (bc_device ?x) := ls)) p))" if "bg_clock g - bu_window b \<le> c" for c p
    by (rule recorded_grows [of "bg_files g", OF w now that])
  have dev: "window_ok (bu_window b) (max 1 (bu_device_limit b)) (passed_device d) (device_log prefix d)
      (g\<lparr>bg_files := (bg_files g)(device_log prefix (bc_device ?x) := ls), bg_calls := (bg_calls g)[i := y]\<rparr>)" for d
  proof (cases "okay \<and> sanitize (bc_device ?x) = sanitize d")
    case True
    then have "device_log prefix (bc_device ?x) = device_log prefix d" by (simp add: device_log_def)
    with window_ok_more [OF _ i now_y, of "bu_window b" "max 1 (bu_device_limit b)" "passed_device d" "device_log prefix d" ls] ok w now True now_y
    show ?thesis by (simp add: budget_ok_def)
  next
    case False
    then have "\<not> passed_device d y" by (auto simp: passed_device_def y)
    then show ?thesis using ok grows by (intro window_ok_same [OF _ i now_y]) (auto simp: budget_ok_def simp del: fun_upd_apply)
  qed
  have "\<not> passed_fabric y" by (simp add: passed_fabric_def y)
  then have "window_ok (bu_window b) (max 1 (bu_fabric_limit b)) passed_fabric (fabric_log prefix)
      (g\<lparr>bg_files := (bg_files g)(device_log prefix (bc_device ?x) := ls), bg_calls := (bg_calls g)[i := y]\<rparr>)"
    using ok grows by (intro window_ok_same [OF _ i now_y]) (auto simp: budget_ok_def simp del: fun_upd_apply)
  with dev show ?thesis using ok now now_y unfolding budget_ok_def
    by (auto dest!: set_update_subset_insert [THEN subsetD])
qed

lemma section_fabric_ok:
  assumes ok: "budget_ok prefix b g" and i: "i < length (bg_calls g)" and ph: "bc_phase (bg_calls g ! i) = At_Fabric"
    and w: "check_and_record_window (bg_files g (fabric_log prefix)) (max 1 (bu_fabric_limit b)) (bu_window b)
      (bc_now (bg_calls g ! i)) = (okay, ls)"
    and y: "y = (bg_calls g ! i)\<lparr>bc_phase := if okay then Within_Budget else Over_Budget scope\<rparr>"
  shows "budget_ok prefix b (g\<lparr>bg_files := (bg_files g)(fabric_log prefix := ls), bg_calls := (bg_calls g)[i := y]\<rparr>)"
proof -
  let ?x = "bg_calls g ! i"
  have now: "bc_now ?x \<le> bg_clock g" using ok i by (simp add: budget_ok_def)
  have now_y: "bc_now y = bc_now ?x" by (simp add: y)
  have grows: "since c (numbers (bg_files g p)) \<le> since c (numbers (((bg_files g)(fabric_log prefix := ls)) p))" if "bg_clock g - bu_window b \<le> c" for c p
    by (rule recorded_grows [of "bg_files g", OF w now that])
  have dev: "window_ok (bu_window b) (max 1 (bu_device_limit b)) (passed_device d) (device_log prefix d)
      (g\<lparr>bg_files := (bg_files g)(fabric_log prefix := ls), bg_calls := (bg_calls g)[i := y]\<rparr>)" for d
  proof -
    have "passed_device d y \<longrightarrow> passed_device d ?x" by (auto simp: passed_device_def y ph)
    then show ?thesis using ok grows by (intro window_ok_same [OF _ i now_y]) (auto simp: budget_ok_def simp del: fun_upd_apply)
  qed
  have "window_ok (bu_window b) (max 1 (bu_fabric_limit b)) passed_fabric (fabric_log prefix)
      (g\<lparr>bg_files := (bg_files g)(fabric_log prefix := ls), bg_calls := (bg_calls g)[i := y]\<rparr>)"
  proof (cases okay)
    case True
    with window_ok_more [OF _ i now_y, of "bu_window b" "max 1 (bu_fabric_limit b)" passed_fabric "fabric_log prefix" ls] ok w now now_y
    show ?thesis by (simp add: budget_ok_def)
  next
    case False
    then have "\<not> passed_fabric y" by (simp add: passed_fabric_def y)
    then show ?thesis using ok grows by (intro window_ok_same [OF _ i now_y]) (auto simp: budget_ok_def simp del: fun_upd_apply)
  qed
  with dev show ?thesis using ok now now_y unfolding budget_ok_def
    by (auto dest!: set_update_subset_insert [THEN subsetD])
qed

lemma two_windows_ok:
  assumes ok: "budget_ok prefix b g"
  shows "budget_ok prefix b (two_windows prefix ds fs b op g)"
proof (cases op)
  case (Pass n)
  then show ?thesis using ok by (fastforce simp: budget_ok_def window_ok_def)
next
  case (Enter d)
  then show ?thesis using ok by (auto simp: budget_ok_def window_ok_def read_times_def passed_device_def passed_fabric_def)
next
  case (Section i)
  show ?thesis
  proof (cases "i < length (bg_calls g)")
    case True
    let ?x = "bg_calls g ! i"
    have nle: "\<not> length (bg_calls g) \<le> i" using True by simp
    show ?thesis
    proof (cases "bc_phase ?x")
      case At_Device
      obtain okay ls where w: "check_and_record_window (bg_files g (device_log prefix (bc_device ?x))) (max 1 (bu_device_limit b)) (bu_window b)
        (bc_now ?x) = (okay, ls)" by fastforce
      from section_device_ok [OF ok True At_Device w refl, of ds] show ?thesis
        by (simp add: Section nle At_Device window_section_def w Let_def split: if_splits)
    next
      case At_Fabric
      obtain okay ls where w: "check_and_record_window (bg_files g (fabric_log prefix)) (max 1 (bu_fabric_limit b)) (bu_window b)
        (bc_now ?x) = (okay, ls)" by fastforce
      from section_fabric_ok [OF ok True At_Fabric w refl, of fs] show ?thesis
        by (simp add: Section nle At_Fabric window_section_def w Let_def split: if_splits)
    next
      case Within_Budget
      have "?x\<lparr>bc_phase := Within_Budget\<rparr> = ?x" using Within_Budget by (cases ?x) simp
      with ok show ?thesis by (simp add: Section nle Within_Budget window_section_def \<open>?x\<lparr>bc_phase := Within_Budget\<rparr> = ?x\<close>)
    next
      case (Over_Budget s)
      have "?x\<lparr>bc_phase := Over_Budget s\<rparr> = ?x" using Over_Budget by (cases ?x) simp
      with ok show ?thesis by (simp add: Section nle Over_Budget window_section_def \<open>?x\<lparr>bc_phase := Over_Budget s\<rparr> = ?x\<close>)
    qed
  qed (use ok in \<open>simp add: Section\<close>)
qed

lemma budget_reachable_ok: "budget_reachable (two_windows prefix ds fs b) g \<Longrightarrow> budget_ok prefix b g"
proof (induction rule: budget_reachable.induct)
  case (start g)
  moreover have "0 \<le> max 1 (bu_device_limit b)" "0 \<le> max 1 (bu_fabric_limit b)" by simp_all
  ultimately show ?case by (simp add: budget_ok_def window_ok_def read_times_def since_def)
qed (rule two_windows_ok)

subsection \<open>The event-run state\<close>

lemma events_of_eq: "events_of raw = (case raw of JDict d \<Rightarrow> (case dict_get d ''events'' of JDict e \<Rightarrow> e | _ \<Rightarrow> []) | _ \<Rightarrow> [])"
  by (simp add: events_of_def load_event_state_def Let_def split: json.splits)

lemma starts_of_eq: "starts_of raw = (case raw of JDict d \<Rightarrow> (case dict_get d ''starts'' of JList xs \<Rightarrow> xs | _ \<Rightarrow> []) | _ \<Rightarrow> [])"
  by (simp add: starts_of_def load_event_state_def Let_def split: json.splits)

datatype run_call = Admit string string | Finish string bool

fun run_gate :: "run_policy \<Rightarrow> run_call \<Rightarrow> int \<Rightarrow> json \<Rightarrow> bool \<times> json" where
  "run_gate p (Admit i d) now raw = (case admit_event_run p i d now raw of
     None \<Rightarrow> (False, raw) | Some (refused, raw') \<Rightarrow> (refused = None, raw'))"
| "run_gate p (Finish i c) now raw = (False, finish_event_run i c now raw)"

fun admits_device :: "string \<Rightarrow> run_call \<Rightarrow> bool" where
  "admits_device d (Admit i e) = (e = d)"
| "admits_device d (Finish i c) = False"

text \<open>What an accepted admission finds and writes.\<close>

lemma admitted:
  assumes "run_gate p (Admit i d) now raw = (True, raw')"
  shows "starts_of raw' = filter (recent ''timestamp'' (now - bu_window (rp_budget p))) (starts_of raw) @
      [JDict [(''timestamp'', JInt now), (''device'', JStr d), (''event_id'', JStr i)]]" (is ?starts)
    and "events_of raw' = dict_set (filter (\<lambda>(_, e). recent ''updated'' (now - rp_idempotency p) e) (events_of raw)) i
      (JDict [(''device'', JStr d), (''status'', JStr ''accepted''), (''updated'', JInt now)])" (is ?events)
    and "blocked p now (map_of (filter (\<lambda>(_, e). recent ''updated'' (now - rp_idempotency p) e) (events_of raw)) i) = Some False"
    and "int (length (filter (\<lambda>e. field e ''device'' = JStr d)
      (filter (recent ''timestamp'' (now - bu_window (rp_budget p))) (starts_of raw)))) < max 1 (bu_device_limit (rp_budget p))"
    and "int (length (filter (recent ''timestamp'' (now - bu_window (rp_budget p))) (starts_of raw))) <
      max 1 (bu_fabric_limit (rp_budget p))"
  using assms
  by (auto simp: admit_event_run_def Let_def events_of_eq starts_of_eq split: option.splits bool.splits if_splits)

lemma not_admitted: "run_gate p (Admit i d) now raw = (False, raw') \<Longrightarrow> raw' = raw"
  by (auto simp: admit_event_run_def Let_def split: option.splits bool.splits if_splits)

lemma starts_of_events_set: "starts_of (JDict (dict_set (load_event_state raw) ''events'' x)) = starts_of raw"
  unfolding starts_of_eq [of "JDict (dict_set (load_event_state raw) ''events'' x)"] starts_of_def [of raw] by simp

lemma events_of_events_set: "events_of (JDict (dict_set (load_event_state raw) ''events'' (JDict x))) = x"
  by (simp add: events_of_eq)

lemma finish_starts: "starts_of (finish_event_run i c now raw) = starts_of raw"
  unfolding finish_event_run_def by (simp add: starts_of_events_set split: option.split json.split)

text \<open>The state file tracks the admissions of the runs that \<open>Q\<close> selects.\<close>

definition started :: "(json \<Rightarrow> bool) \<Rightarrow> int \<Rightarrow> json list \<Rightarrow> nat" where
  "started Q c starts = length (filter Q (filter (recent ''timestamp'' c) starts))"

definition run_tracks :: "(json \<Rightarrow> bool) \<Rightarrow> int \<Rightarrow> int \<Rightarrow> int list \<Rightarrow> json \<Rightarrow> bool" where
  "run_tracks Q w now gs raw \<longleftrightarrow> (\<forall>c \<ge> now - w. since c gs \<le> started Q c (starts_of raw))"

lemma recent_mono: "recent key c e \<Longrightarrow> c' \<le> c \<Longrightarrow> recent key c' e"
  by (auto simp: recent_def split: json.splits option.splits)

lemma started_filter: "lo \<le> c \<Longrightarrow> started Q c (filter (recent ''timestamp'' lo) xs) = started Q c xs"
  by (induction xs) (auto simp: started_def dest: recent_mono)

lemma started_append: "started Q c (xs @ ys) = started Q c xs + started Q c ys"
  by (simp add: started_def)

lemma recent_start: "recent ''timestamp'' c (JDict [(''timestamp'', JInt now), (''device'', d), (''event_id'', i)]) \<longleftrightarrow> c \<le> now"
  by (simp add: recent_def dict_get_or_def numeric_def)

lemma admit_tracks:
  assumes call: "run_gate p (Admit i d) now raw = (True, raw')" and tr: "run_tracks Q w now gs raw"
    and w: "w = bu_window (rp_budget p)"
  shows "run_tracks Q w now gs raw'"
    and "Q (JDict [(''timestamp'', JInt now), (''device'', JStr d), (''event_id'', JStr i)]) \<Longrightarrow> run_tracks Q w now (gs @ [now]) raw'"
    and "since (now - w) gs \<le> started Q (now - w) (starts_of raw)"
proof -
  let ?e = "JDict [(''timestamp'', JInt now), (''device'', JStr d), (''event_id'', JStr i)]"
  have st: "started Q c (starts_of raw') = started Q c (starts_of raw) + started Q c [?e]" if "now - w \<le> c" for c
    using that by (simp add: admitted(1) [OF call] w [symmetric] started_append started_filter)
  show "run_tracks Q w now gs raw'" using tr by (auto simp: run_tracks_def st trans_le_add1)
  show "run_tracks Q w now (gs @ [now]) raw'" if "Q ?e"
    using tr that by (auto simp: run_tracks_def st) (auto simp: started_def recent_start trans_le_add1)
  show "since (now - w) gs \<le> started Q (now - w) (starts_of raw)" using tr by (simp add: run_tracks_def)
qed

lemma run_other_tracks:
  assumes "run_gate p a now raw = (ok, raw')" and "run_tracks Q w now gs raw" and "w = bu_window (rp_budget p)"
  shows "run_tracks Q w now gs raw'"
proof (cases a)
  case (Admit i d)
  show ?thesis
  proof (cases ok)
    case True
    with assms show ?thesis using admit_tracks(1) [of p i d now raw raw' Q w gs] by (simp add: Admit)
  next
    case False
    with assms(1) have "raw' = raw" using not_admitted [of p i d now raw raw'] by (simp add: Admit)
    with assms(2) show ?thesis by simp
  qed
next
  case (Finish i c)
  with assms show ?thesis by (auto simp: run_tracks_def finish_starts)
qed

lemma granted_is_admit: "run_gate p a now raw = (True, raw') \<Longrightarrow> \<exists>i d. a = Admit i d"
  by (cases a) auto

interpretation run_device: rate_gate "run_gate p" "admits_device d" "bu_window (rp_budget p)"
  "nat (max 1 (bu_device_limit (rp_budget p)))"
  "run_tracks (\<lambda>e. field e ''device'' = JStr d) (bu_window (rp_budget p))" for p d
proof
  let ?Q = "\<lambda>e. field e ''device'' = JStr d" and ?w = "bu_window (rp_budget p)"
  fix now later :: int and gs and s s' :: json and a ok
  show "run_tracks ?Q ?w now [] s" by (simp add: run_tracks_def since_def)
  show "run_tracks ?Q ?w now gs s \<Longrightarrow> now \<le> later \<Longrightarrow> run_tracks ?Q ?w later gs s" by (simp add: run_tracks_def)
  show "since (now - ?w) gs < nat (max 1 (bu_device_limit (rp_budget p))) \<and> run_tracks ?Q ?w now (gs @ [now]) s'"
    if call: "run_gate p a now s = (True, s')" and ad: "admits_device d a" and tr: "run_tracks ?Q ?w now gs s"
  proof -
    obtain i where a: "a = Admit i d" using granted_is_admit [OF call] ad by auto
    note call = call [unfolded a]
    have "int (started ?Q (now - ?w) (starts_of s)) < max 1 (bu_device_limit (rp_budget p))"
      using admitted(4) [OF call] by (simp add: started_def)
    with admit_tracks(2,3) [OF call tr refl] show ?thesis by (simp add: field_def json_get_or_def dict_get_or_def)
  qed
  show "run_tracks ?Q ?w now gs s'"
    if "run_gate p a now s = (ok, s')" "run_tracks ?Q ?w now gs s" for ok
    by (rule run_other_tracks [OF that refl])
qed

interpretation run_fabric: rate_gate "run_gate p" "\<lambda>_. True" "bu_window (rp_budget p)"
  "nat (max 1 (bu_fabric_limit (rp_budget p)))" "run_tracks (\<lambda>_. True) (bu_window (rp_budget p))" for p
proof
  let ?Q = "\<lambda>_::json. True" and ?w = "bu_window (rp_budget p)"
  fix now later :: int and gs and s s' :: json and a ok
  show "run_tracks ?Q ?w now [] s" by (simp add: run_tracks_def since_def)
  show "run_tracks ?Q ?w now gs s \<Longrightarrow> now \<le> later \<Longrightarrow> run_tracks ?Q ?w later gs s" by (simp add: run_tracks_def)
  show "since (now - ?w) gs < nat (max 1 (bu_fabric_limit (rp_budget p))) \<and> run_tracks ?Q ?w now (gs @ [now]) s'"
    if call: "run_gate p a now s = (True, s')" and tr: "run_tracks ?Q ?w now gs s"
  proof -
    obtain i d where a: "a = Admit i d" using granted_is_admit [OF call] by auto
    note call = call [unfolded a]
    have "int (started ?Q (now - ?w) (starts_of s)) < max 1 (bu_fabric_limit (rp_budget p))"
      using admitted(5) [OF call] by (simp add: started_def)
    with admit_tracks(2,3) [OF call tr refl] show ?thesis by simp
  qed
  show "run_tracks ?Q ?w now gs s'"
    if "run_gate p a now s = (ok, s')" "run_tracks ?Q ?w now gs s" for ok
    by (rule run_other_tracks [OF that refl])
qed

subsection \<open>Identities\<close>

definition entries :: "(int \<times> string) option list \<Rightarrow> (int \<times> string) list" where
  "entries lines = concat (map (\<lambda>l. case l of Some e \<Rightarrow> [e] | None \<Rightarrow> []) lines)"

definition claims_since :: "string \<Rightarrow> int \<Rightarrow> (int \<times> string) list \<Rightarrow> nat" where
  "claims_since i c es = length (filter (\<lambda>(t, j). c \<le> t \<and> j = i) es)"

lemma entries_Some [simp]: "entries (map Some es) = es"
  by (simp add: entries_def comp_def)

lemma claims_since_simps [simp]:
  "claims_since i c (xs @ ys) = claims_since i c xs + claims_since i c ys"
  "claims_since i c [(t, j)] = (if c \<le> t \<and> j = i then 1 else 0)"
  by (auto simp: claims_since_def)

lemma claims_since_filter: "lo \<le> c \<Longrightarrow> claims_since i c (filter (\<lambda>(t, _). t \<ge> lo) es) = claims_since i c es"
  by (induction es) (auto simp: claims_since_def)

lemma claim_result:
  "claim_event_id w j now lines =
     (if 0 < claims_since j (now - w) (entries lines) then (False, lines)
      else (True, map Some (filter (\<lambda>(t, _). t \<ge> now - w) (entries lines) @ [(now, j)])))"
proof -
  have "j \<in> snd ` set (filter (\<lambda>(t, _). t \<ge> now - w) (entries lines)) \<longleftrightarrow> 0 < claims_since j (now - w) (entries lines)"
    by (auto simp: claims_since_def filter_empty_conv image_iff)
  then show ?thesis unfolding claim_event_id_def entries_def [symmetric] Let_def by simp
qed

interpretation claim_rate: rate_gate "\<lambda>j now lines. claim_event_id w j now lines" "\<lambda>j. j = i" w 1
  "\<lambda>now gs lines. \<forall>c \<ge> now - w. since c gs \<le> claims_since i c (entries lines)" for w i
proof
  fix now later :: int and gs and s s' :: "(int \<times> string) option list" and a ok
  show "\<forall>c \<ge> now - w. since c [] \<le> claims_since i c (entries s)" by (simp add: since_def)
  show "\<forall>c \<ge> now - w. since c gs \<le> claims_since i c (entries s) \<Longrightarrow> now \<le> later \<Longrightarrow>
      \<forall>c \<ge> later - w. since c gs \<le> claims_since i c (entries s)" by simp
  show "since (now - w) gs < 1 \<and> (\<forall>c \<ge> now - w. since c (gs @ [now]) \<le> claims_since i c (entries s'))"
    if "claim_event_id w a now s = (True, s')" "a = i" "\<forall>c \<ge> now - w. since c gs \<le> claims_since i c (entries s)"
  proof -
    have none: "claims_since i (now - w) (entries s) = 0"
      and s': "s' = map Some (filter (\<lambda>(t, _). t \<ge> now - w) (entries s) @ [(now, i)])"
      using that(1,2) unfolding claim_result by (simp_all split: if_splits)
    have "entries s' = filter (\<lambda>(t, _). t \<ge> now - w) (entries s) @ [(now, i)]" unfolding s' by (rule entries_Some)
    moreover have "since (now - w) gs \<le> claims_since i (now - w) (entries s)" using that(3) by simp
    ultimately show ?thesis using that(3) none by (simp add: claims_since_filter)
  qed
  show "\<forall>c \<ge> now - w. since c gs \<le> claims_since i c (entries s')"
    if "claim_event_id w a now s = (ok, s')" "\<forall>c \<ge> now - w. since c gs \<le> claims_since i c (entries s)" for ok
  proof (cases ok)
    case True
    with that(1) have s': "s' = map Some (filter (\<lambda>(t, _). t \<ge> now - w) (entries s) @ [(now, a)])"
      unfolding claim_result by (simp split: if_splits)
    have "entries s' = filter (\<lambda>(t, _). t \<ge> now - w) (entries s) @ [(now, a)]" unfolding s' by (rule entries_Some)
    with that(2) show ?thesis by (simp add: claims_since_filter trans_le_add1)
  next
    case False
    with that(1) have "s' = s" unfolding claim_result by (simp split: if_splits)
    with that(2) show ?thesis by simp
  qed
qed

text \<open>What a run leaves: the state after calls that anybody made.\<close>

definition after :: "('a \<Rightarrow> int \<Rightarrow> 's \<Rightarrow> bool \<times> 's) \<Rightarrow> ('a \<times> int) list \<Rightarrow> 's \<Rightarrow> 's" where
  "after call xs s = fold (\<lambda>(a, now) s. snd (call a now s)) xs s"

text \<open>The entry of an identity that keeps others out until \<open>t\<close>.\<close>

definition guards :: "run_policy \<Rightarrow> string \<Rightarrow> int \<Rightarrow> json \<Rightarrow> bool" where
  "guards p i t raw \<longleftrightarrow> (\<exists>d u. map_of (events_of raw) i = Some (JDict d) \<and> numeric (dict_get d ''updated'') = Some u \<and>
     t \<le> u + rp_idempotency p \<and>
     (dict_get d ''status'' = JStr ''completed'' \<or> dict_get d ''status'' = JStr ''accepted'' \<and> t < u + lease_seconds p))"

lemma map_of_filter_kept: "map_of xs k = Some v \<Longrightarrow> P v \<Longrightarrow> map_of (filter (\<lambda>(_, e). P e) xs) k = Some v"
  by (induction xs) (auto split: if_splits)

lemma guards_blocks:
  assumes "guards p i t raw" and "now \<le> t"
  shows "\<exists>e. map_of (filter (\<lambda>(_, e). recent ''updated'' (now - rp_idempotency p) e) (events_of raw)) i = Some e \<and>
    map_of (events_of raw) i = Some e \<and> blocked p now (Some e) = Some True"
proof -
  obtain d u where e: "map_of (events_of raw) i = Some (JDict d)" "numeric (dict_get d ''updated'') = Some u"
    "t \<le> u + rp_idempotency p" and st: "dict_get d ''status'' = JStr ''completed'' \<or>
      dict_get d ''status'' = JStr ''accepted'' \<and> t < u + lease_seconds p"
    using assms(1) by (auto simp: guards_def)
  have "recent ''updated'' (now - rp_idempotency p) (JDict d)" using e(2,3) assms(2) by (simp add: recent_def)
  then have kept: "map_of (filter (\<lambda>(_, e). recent ''updated'' (now - rp_idempotency p) e) (events_of raw)) i = Some (JDict d)"
    using map_of_filter_kept [OF e(1), of "recent ''updated'' (now - rp_idempotency p)"] by simp
  have "blocked p now (Some (JDict d)) = Some True"
    using e(2) st assms(2) by (elim disjE) (simp_all add: blocked_def hashable_def Let_def)
  with kept e(1) show ?thesis by blast
qed

lemma guards_refuses:
  assumes "guards p i t raw" and "now \<le> t"
  shows "run_gate p (Admit i d) now raw = (False, raw)"
  using guards_blocks [OF assms] by (auto simp: admit_event_run_def Let_def)

lemma guards_kept:
  assumes g: "guards p i t raw" and now: "now \<le> t" and a: "\<forall>c. a \<noteq> Finish i c"
  shows "guards p i t (snd (run_gate p a now raw))"
proof (cases a)
  case (Admit j d)
  show ?thesis
  proof (cases "j = i")
    case True
    with guards_refuses [OF g now] g show ?thesis by (simp add: Admit)
  next
    case False
    obtain ok raw' where r: "run_gate p (Admit j d) now raw = (ok, raw')" by (cases "run_gate p (Admit j d) now raw")
    show ?thesis
    proof (cases ok)
      case True
      then have "map_of (events_of raw') i = map_of (events_of raw) i"
        using guards_blocks [OF g now] False r admitted(2) [of p j d now raw raw'] by (auto simp: map_of_dict_set)
      with g show ?thesis unfolding guards_def Admit r by simp
    next
      case False
      with r have "raw' = raw" using not_admitted [of p j d now raw raw'] by simp
      with g r show ?thesis by (simp add: Admit)
    qed
  qed
next
  case (Finish j c)
  with a have "j \<noteq> i" by blast
  then have "map_of (events_of (finish_event_run j c now raw)) i = map_of (events_of raw) i"
    unfolding finish_event_run_def by (simp add: events_of_events_set map_of_dict_set split: option.split json.split)
  with g show ?thesis by (simp add: guards_def Finish)
qed

lemma guards_after:
  assumes "guards p i t raw" and "\<forall>x\<in>set xs. snd x \<le> t \<and> (\<forall>c. fst x \<noteq> Finish i c)"
  shows "guards p i t (after (run_gate p) xs raw)"
  using assms
proof (induction xs arbitrary: raw)
  case (Cons x xs)
  then have "guards p i t (snd (run_gate p (fst x) (snd x) raw))" by (intro guards_kept) auto
  with Cons.IH Cons.prems(2) show ?case by (simp add: after_def case_prod_beta)
qed (simp add: after_def)

lemma admitted_guards:
  assumes "run_gate p (Admit i d) t0 raw = (True, raw1)" and "t < t0 + lease_seconds p" and "t \<le> t0 + rp_idempotency p"
  shows "guards p i t raw1"
  using assms(2,3) admitted(2) [OF assms(1)]
  by (auto simp: guards_def map_of_dict_set dict_get_or_def numeric_def)

lemma finished_guards:
  assumes "guards p i t raw" and "later \<le> t1 + rp_idempotency p"
  shows "guards p i later (finish_event_run i True t1 raw)"
proof -
  obtain d where "map_of (events_of raw) i = Some (JDict d)" using assms(1) by (auto simp: guards_def)
  with assms(2) show ?thesis
    by (auto simp: guards_def finish_event_run_def events_of_events_set map_of_dict_set numeric_def)
qed

subsection \<open>Properties\<close>


definition small_budget :: budget where
  "small_budget = \<lparr>bu_window = 60, bu_device_limit = 1, bu_fabric_limit = 2\<rparr>"

text \<open>Two calls for one device read the clock; the later one gets the lock first.\<close>

definition probe_race :: budget_gate where
  "probe_race = fold (check_probe_budget small_budget)
     [Pass 10, Enter ''PE1'', Pass 5, Enter ''PE1'', Enter ''PE2'', Section 1, Section 0, Section 2, Section 2, Section 1]
     \<lparr>bg_clock = 0, bg_files = (\<lambda>_. []), bg_calls = []\<rparr>"

lemma budget_reachable_fold: "budget_reachable gate g \<Longrightarrow> budget_reachable gate (fold gate ops g)"
  by (induction ops arbitrary: g) (auto intro: budget_reachable.more)

lemma probe_race_reachable: "budget_reachable (check_probe_budget small_budget) probe_race"
  unfolding probe_race_def by (intro budget_reachable_fold budget_reachable.start) simp

lemma probe_race_calls: "map bc_phase (bg_calls probe_race) = [Over_Budget ''probe_device'', Within_Budget, Within_Budget]"
  by code_simp


text \<open>Event runs are rate limited by the state file: whatever runs finish in between, the runs admitted for a
  device in any window are at most its limit and those of the fabric at most the fabric's; a refusal
  writes nothing.\<close>

theorem event_runs_are_rate_limited:
  assumes "sorted (map snd calls)"
  shows "int (rate (bu_window (rp_budget p)) t (counted (admits_device d) (granted (run_gate p) calls raw))) \<le>
      max 1 (bu_device_limit (rp_budget p)) \<and>
    int (rate (bu_window (rp_budget p)) t (counted (\<lambda>_. True) (granted (run_gate p) calls raw))) \<le>
      max 1 (bu_fabric_limit (rp_budget p)) \<and>
    (\<forall>i e now raw1. fst (run_gate p (Admit i e) now raw1) \<or> snd (run_gate p (Admit i e) now raw1) = raw1)"
proof (intro conjI allI)
  show "int (rate (bu_window (rp_budget p)) t (counted (admits_device d) (granted (run_gate p) calls raw))) \<le>
      max 1 (bu_device_limit (rp_budget p))"
    using run_device.rate_bounded [OF assms, of p t d raw] by (simp add: le_nat_iff)
  show "int (rate (bu_window (rp_budget p)) t (counted (\<lambda>_. True) (granted (run_gate p) calls raw))) \<le>
      max 1 (bu_fabric_limit (rp_budget p))"
    using run_fabric.rate_bounded [OF assms, of p t raw] by (simp add: le_nat_iff)
  fix i e now raw1
  obtain ok raw' where r: "run_gate p (Admit i e) now raw1 = (ok, raw')" by (cases "run_gate p (Admit i e) now raw1")
  show "fst (run_gate p (Admit i e) now raw1) \<or> snd (run_gate p (Admit i e) now raw1) = raw1"
    using not_admitted [of p i e now raw1 raw'] by (cases ok) (simp_all only: r fst_conv snd_conv simp_thms)
qed

definition lab_policy :: run_policy where
  "lab_policy = \<lparr>rp_budget = \<lparr>bu_window = 3600000000, bu_device_limit = 1, bu_fabric_limit = 30\<rparr>,
     rp_idempotency = 3600000000\<rparr>"

definition run_calls :: "(run_call \<times> int) list" where
  "run_calls = [(Admit ''e1'' ''PE1'', 10), (Admit ''e1'' ''PE2'', 20), (Admit ''e2'' ''PE1'', 30), (Finish ''e1'' True, 40),
     (Admit ''e3'' ''PE2'', 50)]"

lemma run_grants: "granted (run_gate lab_policy) run_calls JNull = [(Admit ''e1'' ''PE1'', 10), (Admit ''e3'' ''PE2'', 50)]"
  by code_simp

theorem event_runs_witness:
  "rate 3600000000 60 (counted (admits_device ''PE1'') (granted (run_gate lab_policy) run_calls JNull)) \<le> 1 \<and>
   rate 3600000000 60 (counted (\<lambda>_. True) (granted (run_gate lab_policy) run_calls JNull)) \<le> 30 \<and>
   granted (run_gate lab_policy) run_calls JNull = [(Admit ''e1'' ''PE1'', 10), (Admit ''e3'' ''PE2'', 50)]"
proof -
  have "sorted (map snd run_calls)" by (simp add: run_calls_def)
  from event_runs_are_rate_limited [OF this, of lab_policy 60 "''PE1''" JNull] run_grants show ?thesis
    by (simp add: lab_policy_def)
qed

text \<open>C23: An event runs once: an admitted identity is refused to everybody while its lease runs, and after it finished
  as completed for the whole idempotency window, whatever other runs are admitted or finish meanwhile.
  (The lease is at most the idempotency window unless that is under a second.)\<close>

theorem event_runs_once:
  assumes "run_gate p (Admit i d) t0 raw = (True, raw1)" and "t < t0 + lease_seconds p" and "t \<le> t0 + rp_idempotency p"
    and "\<forall>x\<in>set xs. snd x \<le> t \<and> (\<forall>c. fst x \<noteq> Finish i c)"
    and "\<forall>x\<in>set ys. snd x \<le> t1 + rp_idempotency p \<and> (\<forall>c. fst x \<noteq> Finish i c)"
    and "later \<le> t1 + rp_idempotency p"
  shows "run_gate p (Admit i e) t (after (run_gate p) xs raw1) = (False, after (run_gate p) xs raw1) \<and>
    \<not> fst (run_gate p (Admit i e) later (after (run_gate p) ys (finish_event_run i True t1 (after (run_gate p) xs raw1))))"
proof -
  have g: "guards p i t (after (run_gate p) xs raw1)"
    by (rule guards_after [OF admitted_guards [OF assms(1-3)] assms(4)])
  have "guards p i (t1 + rp_idempotency p) (after (run_gate p) ys (finish_event_run i True t1 (after (run_gate p) xs raw1)))"
    by (rule guards_after [OF finished_guards [OF g order_refl] assms(5)])
  from guards_refuses [OF this assms(6)] guards_refuses [OF g order_refl] show ?thesis by simp
qed

theorem event_once_witness:
  "\<exists>raw1. run_gate lab_policy (Admit ''e1'' ''PE1'') 10 JNull = (True, raw1) \<and>
    run_gate lab_policy (Admit ''e1'' ''PE2'') 25 (after (run_gate lab_policy) [(Admit ''e3'' ''PE2'', 20)] raw1) =
      (False, after (run_gate lab_policy) [(Admit ''e3'' ''PE2'', 20)] raw1) \<and>
    \<not> fst (run_gate lab_policy (Admit ''e1'' ''PE2'') 1000000
      (after (run_gate lab_policy) [] (finish_event_run ''e1'' True 50 (after (run_gate lab_policy) [(Admit ''e3'' ''PE2'', 20)] raw1))))"
proof -
  have "fst (run_gate lab_policy (Admit ''e1'' ''PE1'') 10 JNull)" by code_simp
  then obtain raw1 where r: "run_gate lab_policy (Admit ''e1'' ''PE1'') 10 JNull = (True, raw1)"
    by (cases "run_gate lab_policy (Admit ''e1'' ''PE1'') 10 JNull") simp
  have side: "(25::int) < 10 + lease_seconds lab_policy" "(25::int) \<le> 10 + rp_idempotency lab_policy"
    "(1000000::int) \<le> 50 + rp_idempotency lab_policy"
    by (simp_all add: lease_seconds_def lab_policy_def)
  show ?thesis
    by (rule exI [of _ raw1], rule conjI [OF r], rule event_runs_once [OF r side(1,2) _ _ side(3)]) simp_all
qed

end
