(* ===== verification/Procedures.thy ===== *)
theory Procedures
  imports Store_Machine
begin

section \<open>Procedure approvals\<close>

text \<open>
  Models \<open>procedure_registry.py\<close> and \<open>procedure_workflow.py\<close> over the approval tables.  The
  cryptographic library is a parameter: \<open>sha\<close> is the hex digest of a canonical JSON text and
  \<open>mac secret\<close> the keyed one; a canonical text is the value with its keys sorted.  The random nonce
  is an argument, and a time is \<open>None\<close> when it has no time zone.
\<close>

subsection \<open>Proposals\<close>

record procedure_contract =
  pc_name :: string
  pc_version :: int
  pc_required :: "string list"

definition PROCEDURES :: "(string \<times> procedure_contract) list" where
  "PROCEDURES = [(''collect_device_evidence'',
     \<lparr>pc_name = ''collect_device_evidence'', pc_version = 1, pc_required = [''device'']\<rparr>)]"

definition procedure_definition :: "string \<Rightarrow> procedure_contract option" where
  "procedure_definition name = map_of PROCEDURES name"

datatype approval_error =
    ShortSecret | UnknownProcedure | BadParameters | BadTtl | NaiveApproval | DigestMismatch
  | ReceiptExpired | NonceReplayed | BadSignature | StoreRefused store_error | NotVerified

record proposal =
  pp_procedure :: string
  pp_version :: int
  pp_parameters :: dict
  pp_digest :: string

definition canonical_json :: "dict \<Rightarrow> dict" where
  "canonical_json value = stored_dict value"

definition create_proposal :: "(dict \<Rightarrow> string) \<Rightarrow> string \<Rightarrow> dict \<Rightarrow> approval_error + proposal" where
  "create_proposal sha procedure parameters = (case procedure_definition procedure of
     None \<Rightarrow> Inl UnknownProcedure
   | Some c \<Rightarrow>
       if fst ` set parameters \<noteq> set (pc_required c) \<or>
          list_ex (\<lambda>(_, v). \<not> is_string v \<or> v = JStr []) parameters
       then Inl BadParameters
       else Inr \<lparr>pp_procedure = pc_name c, pp_version = pc_version c, pp_parameters = parameters,
              pp_digest = sha (canonical_json [(''procedure'', JStr (pc_name c)), (''version'', JInt (pc_version c)),
                (''parameters'', JDict parameters), (''execution'', JStr ''dry_run_only'')])\<rparr>)"

subsection \<open>Receipts\<close>

record receipt =
  rc_digest :: string
  rc_nonce :: string
  rc_expires_at :: "int option"
  rc_signature :: string

text \<open>Bytes of a string in UTF-8.\<close>

definition utf8_length :: "string \<Rightarrow> nat" where
  "utf8_length s = sum_list (map (\<lambda>c. if (of_char c :: nat) < 128 then 1 else 2) s)"

definition require_secret :: "string \<Rightarrow> approval_error + string" where
  "require_secret secret = (if utf8_length secret < 32 then Inl ShortSecret else Inr secret)"

definition receipt_body :: "proposal \<Rightarrow> string \<Rightarrow> int \<Rightarrow> dict" where
  "receipt_body p nonce expires_at =
     canonical_json [(''proposal_digest'', JStr (pp_digest p)), (''nonce'', JStr nonce), (''expires_at'', JInt expires_at)]"

definition text_parameters :: "dict \<Rightarrow> (string \<times> string) list" where
  "text_parameters d = map (\<lambda>(k, v). (k, case v of JStr s \<Rightarrow> s | _ \<Rightarrow> [])) d"

definition approve_proposal ::
  "(string \<Rightarrow> dict \<Rightarrow> string) \<Rightarrow> proposal \<Rightarrow> string \<Rightarrow> string \<Rightarrow> int \<Rightarrow> int option \<Rightarrow> store option \<Rightarrow>
   approval_error + receipt \<times> store option" where
  "approve_proposal mac p secret nonce ttl_seconds now st = (case require_secret secret of
     Inl e \<Rightarrow> Inl e
   | Inr secret \<Rightarrow>
       if ttl_seconds < 1 then Inl BadTtl
       else case now of None \<Rightarrow> Inl NaiveApproval
       | Some issued \<Rightarrow>
           let expires_at = issued + ttl_seconds * 1000000;
               signature = mac secret (receipt_body p nonce expires_at);
               r = \<lparr>rc_digest = pp_digest p, rc_nonce = nonce, rc_expires_at = Some expires_at, rc_signature = signature\<rparr>
           in case st of None \<Rightarrow> Inr (r, None)
              | Some s \<Rightarrow> (case record_procedure_approval (pp_digest p) (pp_procedure p) (pp_version p)
                    (text_parameters (pp_parameters p)) nonce expires_at signature issued s of
                  Inl e \<Rightarrow> Inl (StoreRefused e)
                | Inr (_, s') \<Rightarrow> Inr (r, Some s')))"

datatype verified = Verified receipt

definition verify_approval ::
  "(string \<Rightarrow> dict \<Rightarrow> string) \<Rightarrow> proposal \<Rightarrow> receipt \<Rightarrow> string \<Rightarrow> string set \<Rightarrow> int option \<Rightarrow> store option \<Rightarrow>
   approval_error + verified \<times> string set \<times> store option" where
  "verify_approval mac p r secret used now st = (case require_secret secret of
     Inl e \<Rightarrow> Inl e
   | Inr secret \<Rightarrow>
       (case (now, rc_expires_at r) of
          (None, _) \<Rightarrow> Inl NaiveApproval
        | (Some _, None) \<Rightarrow> Inl NaiveApproval
        | (Some current, Some expires_at) \<Rightarrow>
            if rc_digest r \<noteq> pp_digest p then Inl DigestMismatch
            else if expires_at \<le> current then Inl ReceiptExpired
            else if st = None \<and> rc_nonce r \<in> used then Inl NonceReplayed
            else if rc_signature r \<noteq> mac secret (receipt_body p (rc_nonce r) expires_at) then Inl BadSignature
            else case st of
              None \<Rightarrow> Inr (Verified r, insert (rc_nonce r) used, None)
            | Some s \<Rightarrow> (case consume_procedure_approval (pp_digest p) (rc_nonce r) current s of
                  Inl e \<Rightarrow> Inl (StoreRefused e)
                | Inr (_, s') \<Rightarrow> Inr (Verified r, used, Some s'))))"

record simulation =
  sm_digest :: string
  sm_status :: string
  sm_network_activity :: bool
  sm_device_writes :: bool
  sm_verification :: string

text \<open>A verified receipt always has an expiry with a zone, so the comparison below cannot raise.\<close>

definition simulate_approved_procedure ::
  "proposal \<Rightarrow> verified option \<Rightarrow> store option \<Rightarrow> int option \<Rightarrow> approval_error + simulation \<times> store option" where
  "simulate_approved_procedure p appr st now = (case appr of
     None \<Rightarrow> Inl NotVerified
   | Some (Verified r) \<Rightarrow>
       (case now of None \<Rightarrow> Inl NaiveApproval
        | Some current \<Rightarrow>
            if (case rc_expires_at r of None \<Rightarrow> True | Some t \<Rightarrow> t \<le> current) then Inl ReceiptExpired
            else if rc_digest r \<noteq> pp_digest p then Inl DigestMismatch
            else
              let res = \<lparr>sm_digest = pp_digest p, sm_status = ''not_executed'', sm_network_activity = False,
                    sm_device_writes = False, sm_verification = ''not_executed''\<rparr>
              in case st of None \<Rightarrow> Inr (res, None)
                 | Some s \<Rightarrow> (case record_procedure_simulation (sm_digest res) (sm_status res) (sm_network_activity res)
                       (sm_device_writes res) (sm_verification res) current s of
                     Inl e \<Rightarrow> Inl (StoreRefused e)
                   | Inr (_, s') \<Rightarrow> Inr (res, Some s'))))"

subsection \<open>Properties\<close>

lemma recorded:
  assumes "record_procedure_approval d pr v ps n e s now st = Inr (r, st')"
  shows "st_approvals st' = st_approvals st @ [r] \<and> ap_digest r = d \<and> ap_nonce r = n \<and> ap_expires_at r = e \<and>
    ap_consumed_at r = None \<and> d \<notin> ap_digest ` set (st_approvals st)"
  using assms by (auto simp: record_procedure_approval_def Let_def split: if_splits)

lemma record_accepts:
  assumes "d \<noteq> []" "pr \<noteq> []" "n \<noteq> []" "s \<noteq> []" "1 \<le> v"
    and "d \<notin> ap_digest ` set (st_approvals st)" and "n \<notin> ap_nonce ` set (st_approvals st)"
  shows "\<exists>r st'. record_procedure_approval d pr v ps n e s now st = Inr (r, st')"
  using assms by (simp add: record_procedure_approval_def Let_def)

lemma fresh_consume:
  assumes "st_approvals st' = xs @ [r]" and "ap_digest r \<notin> ap_digest ` set xs" and "ap_consumed_at r = None"
    and "now < ap_expires_at r"
  shows "\<exists>q st2. consume_procedure_approval (ap_digest r) (ap_nonce r) now st' = Inr (q, st2)"
proof -
  have "find (\<lambda>x. ap_digest x = ap_digest r \<and> ap_nonce x = ap_nonce r) xs = None"
    using assms(2) by (auto simp: find_None_iff image_iff)
  then have "find (\<lambda>x. ap_digest x = ap_digest r \<and> ap_nonce x = ap_nonce r) (st_approvals st') = Some r"
    unfolding assms(1) by (induction xs) (auto split: if_splits)
  with assms(3,4) show ?thesis by (simp add: consume_procedure_approval_def Let_def)
qed

lemma consumed_digests:
  assumes "consume_procedure_approval d n now st = Inr (r, st')"
  shows "ap_digest ` set (st_approvals st') = ap_digest ` set (st_approvals st) \<and> d \<in> ap_digest ` set (st_approvals st)"
proof -
  obtain row where row: "row \<in> set (st_approvals st)" "ap_digest row = d"
    and st': "st_approvals st' = set_row ap_digest r (st_approvals st)" using consume_row [OF assms] by blast
  have "ap_digest ` set (set_row ap_digest r (st_approvals st)) = ap_digest ` set (st_approvals st)"
    by (metis keys_set_row list.set_map)
  with row st' show ?thesis by auto
qed

lemma created_proposal:
  assumes "create_proposal sha name ps = Inr p"
  shows "pp_procedure p \<noteq> [] \<and> 1 \<le> pp_version p"
proof -
  obtain c where c: "procedure_definition name = Some c" "pp_procedure p = pc_name c" "pp_version p = pc_version c"
    using assms unfolding create_proposal_def by (cases "procedure_definition name") (auto split: if_splits)
  have "(name, c) \<in> set PROCEDURES" using c(1) by (simp add: procedure_definition_def map_of_SomeD)
  with c(2,3) show ?thesis by (auto simp: PROCEDURES_def)
qed

text \<open>C25: The approval workflow works and works once: a declared proposal approved under a long enough key, with
  a nonce and a digest the database has not seen, is verified with that key before its expiry; its
  simulation is recorded and reports that nothing was executed; and after that, whatever calls are
  made by anybody, no receipt for the proposal is ever verified against the database again.\<close>

theorem approval_workflow:
  assumes "create_proposal sha name ps = Inr p" and "reachable st" and "32 \<le> utf8_length secret" and "1 \<le> ttl"
    and "pp_digest p \<noteq> []" and "nonce \<noteq> []" and "\<forall>b. mac secret b \<noteq> []"
    and "pp_digest p \<notin> ap_digest ` set (st_approvals st)" and "nonce \<notin> ap_nonce ` set (st_approvals st)"
    and "t < issued + ttl * 1000000"
  shows "\<exists>r st1 v st2 s st3. approve_proposal mac p secret nonce ttl (Some issued) (Some st) = Inr (r, Some st1) \<and>
    verify_approval mac p r secret used (Some t) (Some st1) = Inr (v, used, Some st2) \<and>
    simulate_approved_procedure p (Some v) (Some st2) (Some t) = Inr (s, Some st3) \<and>
    sm_status s = ''not_executed'' \<and> \<not> sm_network_activity s \<and> \<not> sm_device_writes s \<and>
    (\<forall>st4 r' secret' used' t'. runs st3 st4 \<longrightarrow> (\<exists>e. verify_approval mac p r' secret' used' t' (Some st4) = Inl e))"
proof -
  let ?exp = "issued + ttl * 1000000"
  let ?sig = "mac secret (receipt_body p nonce ?exp)"
  have key: "require_secret secret = Inr secret" using assms(3) by (simp add: require_secret_def)
  obtain q st1 where q: "record_procedure_approval (pp_digest p) (pp_procedure p) (pp_version p)
      (text_parameters (pp_parameters p)) nonce ?exp ?sig issued st = Inr (q, st1)"
    using record_accepts [of "pp_digest p" "pp_procedure p" nonce ?sig "pp_version p" st] created_proposal [OF assms(1)]
      assms(5-9) by blast
  note rec = recorded [OF q]
  let ?r = "\<lparr>rc_digest = pp_digest p, rc_nonce = nonce, rc_expires_at = Some ?exp, rc_signature = ?sig\<rparr>"
  have 1: "approve_proposal mac p secret nonce ttl (Some issued) (Some st) = Inr (?r, Some st1)"
    using assms(4) q by (simp add: approve_proposal_def key Let_def)
  have step1: "step (Approve (pp_digest p) (pp_procedure p) (pp_version p) (text_parameters (pp_parameters p)) nonce ?exp ?sig)
      issued st = Inr st1" by (simp add: q drop_result_def)
  obtain q2 st2 where q2: "consume_procedure_approval (pp_digest p) nonce t st1 = Inr (q2, st2)"
    using fresh_consume [of st1 "st_approvals st" q t] rec assms(10) by auto
  have 2: "verify_approval mac p ?r secret used (Some t) (Some st1) = Inr (Verified ?r, used, Some st2)"
    using assms(10) q2 by (simp add: verify_approval_def key)
  have step2: "step (Consume (pp_digest p) nonce) t st1 = Inr st2" by (simp add: q2 drop_result_def)
  have "pp_digest p \<in> ap_digest ` set (st_approvals st2)" using consumed_digests [OF q2] by simp
  then have "Store_Records.approval st2 (pp_digest p) \<noteq> None"
    using row_by_None_iff [of ap_digest "st_approvals st2" "pp_digest p"] by (simp add: approval_def)
  then obtain q3 st3 where q3: "record_procedure_simulation (pp_digest p) ''not_executed'' False False ''not_executed'' t st2 =
      Inr (q3, st3)"
    by (simp add: record_procedure_simulation_def Let_def)
  have step3: "step (Simulate (pp_digest p) ''not_executed'' False False ''not_executed'') t st2 = Inr st3"
    by (simp add: q3 drop_result_def)
  let ?s = "\<lparr>sm_digest = pp_digest p, sm_status = ''not_executed'', sm_network_activity = False, sm_device_writes = False,
    sm_verification = ''not_executed''\<rparr>"
  have 3: "simulate_approved_procedure p (Some (Verified ?r)) (Some st2) (Some t) = Inr (?s, Some st3)"
    using assms(10) q3 by (simp add: simulate_approved_procedure_def Let_def)
  have ok2: "store_ok st2" by (rule step_ok [OF step_ok [OF reachable_ok [OF assms(2)] step1] step2])
  have "\<exists>e. verify_approval mac p r' secret' used' t' (Some st4) = Inl e" if run: "runs st3 st4" for st4 r' secret' used' t'
  proof -
    have sp: "spent (pp_digest p) st4"
      by (rule spent_runs [OF run step_ok [OF ok2 step3] spent_kept [OF ok2 consume_spends [OF q2] step3]])
    have ok4: "store_ok st4" by (rule runs_ok [OF run step_ok [OF ok2 step3]])
    have ref: "\<exists>e. consume_procedure_approval (pp_digest p) (rc_nonce r') c st4 = Inl e" for c
      by (rule spent_refused [OF ok4 sp])
    show ?thesis
    proof (cases "require_secret secret'")
      case (Inr k)
      show ?thesis
      proof (cases t')
        case (Some c)
        with ref [of c] Inr show ?thesis
          by (cases "rc_expires_at r'") (auto simp: verify_approval_def)
      qed (simp add: verify_approval_def Inr)
    qed (simp add: verify_approval_def)
  qed
  with 1 2 3 show ?thesis
    by (intro exI [of _ ?r] exI [of _ st1] exI [of _ "Verified ?r"] exI [of _ st2] exI [of _ ?s] exI [of _ st3]) simp
qed

definition lab_secret :: string where
  "lab_secret = replicate 32 CHR ''k''"

definition lab_proposal :: proposal where
  "lab_proposal = projr (create_proposal (\<lambda>_. ''d1'') ''collect_device_evidence'' [(''device'', JStr ''PE1'')])"

lemma lab_proposal_created:
  "create_proposal (\<lambda>_. ''d1'') ''collect_device_evidence'' [(''device'', JStr ''PE1'')] = Inr lab_proposal \<and>
   pp_digest lab_proposal = ''d1''"
  by (simp add: lab_proposal_def create_proposal_def procedure_definition_def PROCEDURES_def is_string_def)

lemma lab_secret_length: "utf8_length lab_secret = 32"
  by code_simp

lemma new_store_reachable: "reachable new_store" and new_store_approvals: "st_approvals new_store = []"
  by (simp_all add: reachable_def runs.intros new_store_def)

theorem workflow_witness:
  "\<exists>r st1 v st2 s st3.
    approve_proposal (\<lambda>k b. ''sig'') lab_proposal lab_secret ''n1'' 300 (Some 0) (Some new_store) = Inr (r, Some st1) \<and>
    verify_approval (\<lambda>k b. ''sig'') lab_proposal r lab_secret {} (Some 1000) (Some st1) = Inr (v, {}, Some st2) \<and>
    simulate_approved_procedure lab_proposal (Some v) (Some st2) (Some 1000) = Inr (s, Some st3) \<and>
    sm_status s = ''not_executed'' \<and>
    (\<exists>e. verify_approval (\<lambda>k b. ''sig'') lab_proposal r lab_secret {} (Some 2000) (Some st3) = Inl e)"
proof -
  have side: "32 \<le> utf8_length lab_secret" "1 \<le> (300::int)" "pp_digest lab_proposal \<noteq> []" "''n1'' \<noteq> []"
    "\<forall>b::dict. ''sig'' \<noteq> ([]::string)" "pp_digest lab_proposal \<notin> ap_digest ` set (st_approvals new_store)"
    "''n1'' \<notin> ap_nonce ` set (st_approvals new_store)" "(1000::int) < 0 + 300 * 1000000"
    using lab_proposal_created by (simp_all add: lab_secret_length new_store_approvals)
  from approval_workflow [where mac = "\<lambda>k b. ''sig''", OF lab_proposal_created [THEN conjunct1] new_store_reachable side, of "{}"]
  show ?thesis using runs.intros(1) by blast
qed

lemma approved_digest:
  assumes "approve_proposal mac p secret n ttl now (Some st) = Inr (r, Some st1)"
  shows "\<exists>pr v ps e s issued q. record_procedure_approval (pp_digest p) pr v ps n e s issued st = Inr (q, st1)"
  using assms by (auto simp: approve_proposal_def Let_def split: sum.splits option.splits if_splits prod.splits) blast

lemma step_digests: "step op now st = Inr st' \<Longrightarrow> ap_digest ` set (st_approvals st) \<subseteq> ap_digest ` set (st_approvals st')"
  using step_approvals [of op now st st'] consumed_digests by fastforce

lemma runs_digests: "runs st st' \<Longrightarrow> ap_digest ` set (st_approvals st) \<subseteq> ap_digest ` set (st_approvals st')"
proof (induction rule: runs.induct)
  case (more st st1 op now st2)
  from more.IH step_digests [OF more.hyps(2)] show ?case by (rule order_trans)
qed simp

text \<open>A proposal can be approved against a database once, for good: after one accepted approval every later one
  for the same procedure and parameters is refused, under any key, nonce, time and duration, also when
  the first receipt expired without having been used.  (The table's primary key is the digest of the
  proposal, which has no nonce or time in it, and no operation deletes an approval.)\<close>

theorem proposal_is_approved_once:
  assumes "approve_proposal mac p secret n ttl now (Some st) = Inr (r, Some st1)" and "runs st1 st2"
  shows "\<exists>e. approve_proposal mac' p secret' n' ttl' now' (Some st2) = Inl e"
proof -
  obtain pr v ps e s issued q where "record_procedure_approval (pp_digest p) pr v ps n e s issued st = Inr (q, st1)"
    using approved_digest [OF assms(1)] by blast
  from recorded [OF this] have "pp_digest p \<in> ap_digest ` set (st_approvals st1)" by auto
  with runs_digests [OF assms(2)] have mem: "pp_digest p \<in> ap_digest ` set (st_approvals st2)" by blast
  have "\<exists>e. record_procedure_approval (pp_digest p) pr v ps n' ex s issued st2 = Inl e" for pr v ps ex s issued
    using mem by (simp add: record_procedure_approval_def)
  then have ref: "record_procedure_approval (pp_digest p) pr v ps n' ex s issued st2 \<noteq> Inr x" for pr v ps ex s issued x
    by (metis sum.distinct(1))
  show ?thesis
  proof (cases "approve_proposal mac' p secret' n' ttl' now' (Some st2)")
    case (Inr x)
    then obtain r' st3 where "approve_proposal mac' p secret' n' ttl' now' (Some st2) = Inr (r', Some st3)"
      by (auto simp: approve_proposal_def Let_def split: sum.splits option.splits if_splits prod.splits)
    from approved_digest [OF this] ref show ?thesis by metis
  qed simp
qed

theorem approved_once_witness:
  "\<exists>r st1. approve_proposal (\<lambda>k b. ''sig'') lab_proposal lab_secret ''n1'' 1 (Some 0) (Some new_store) = Inr (r, Some st1) \<and>
    (\<exists>e. approve_proposal (\<lambda>k b. ''sig'') lab_proposal lab_secret ''n2'' 300 (Some 9000000000) (Some st1) = Inl e)"
proof -
  obtain r st1 where a: "approve_proposal (\<lambda>k b. ''sig'') lab_proposal lab_secret ''n1'' 1 (Some 0) (Some new_store) = Inr (r, Some st1)"
    using lab_proposal_created
    by (simp add: approve_proposal_def require_secret_def lab_secret_length record_procedure_approval_def new_store_approvals
        lab_proposal_def create_proposal_def procedure_definition_def PROCEDURES_def is_string_def Let_def)
  from proposal_is_approved_once [OF a runs.intros(1)] a show ?thesis by blast
qed

end
