(* ===== verification/Ownership.thy ===== *)
theory Ownership
  imports Py_Prelude
begin

section \<open>Who is told: the ownership table\<close>

text \<open>
  Models \<open>ownership.py\<close>: the declarative table of owners and rules with the checks of its constructors,
  its reader, and the resolution of a finding to owners.  Fields the reader copies without a check
  keep their JSON value.  A \<open>KeyError\<close> of the resolution is \<open>None\<close>; the reader's own error and any other
  exception it lets through (an unhashable name, a threshold that is no number) are two values.
  \<open>float\<close> of a text is the argument \<open>to_float\<close>; numbers are integers.
\<close>

subsection \<open>Owners, rules, tables\<close>

datatype ownership_error = OwnershipError ownership_reason | OtherError
and ownership_reason =
    HalfEscalation | BadThreshold | UndeclaredDefault | UndeclaredOwner | UndeclaredEscalation
  | TableNotMapping | NoOwners | OwnerNeedsName | OwnerTwice | ChannelNeeded | RulesNotList
  | RuleNeedsOwner | RuleTwice | DefaultNeeded | CannotRead

definition DEFAULT_CHANNEL :: string where
  "DEFAULT_CHANNEL = ''notifier-default''"

definition DEFAULT_OWNER_NAME :: string where
  "DEFAULT_OWNER_NAME = ''default''"

record owner =
  ow_name :: string
  ow_channel :: string
  ow_escalate_to :: json
  ow_escalate_after :: "int option"

record ownership_rule =
  or_name :: string
  or_owner :: string
  or_device :: json
  or_role :: json
  or_finding :: json

record ownership_table =
  ot_rules :: "ownership_rule list"
  ot_owners :: "(string \<times> owner) list"
  ot_default :: string

definition mk_owner :: "owner \<Rightarrow> ownership_error + owner" where
  "mk_owner ow =
     (if (ow_escalate_to ow = JNull) \<noteq> (ow_escalate_after ow = None) then Inl (OwnershipError HalfEscalation)
      else case ow_escalate_after ow of
        Some t \<Rightarrow> if t \<le> 0 then Inl (OwnershipError BadThreshold) else Inr ow
      | None \<Rightarrow> Inr ow)"

text \<open>A pin is open, or equal to the value asked about, which is a text or nothing.\<close>

definition open_or :: "json \<Rightarrow> json \<Rightarrow> bool" where
  "open_or pin v \<longleftrightarrow> pin = JNull \<or> pin = v"

definition rule_matches :: "ownership_rule \<Rightarrow> string \<Rightarrow> json \<Rightarrow> json \<Rightarrow> bool" where
  "rule_matches r device role finding =
     (if \<not> open_or (or_device r) (JStr device) then False
      else if \<not> open_or (or_role r) role then False
      else if \<not> open_or (or_finding r) finding then False
      else True)"

text \<open>The loop over the owners: a target that is no text is no key, and a list or dictionary has no hash.\<close>

fun escalations_declared :: "string list \<Rightarrow> owner list \<Rightarrow> ownership_error option" where
  "escalations_declared names [] = None"
| "escalations_declared names (ow # os) = (case ow_escalate_to ow of
     JNull \<Rightarrow> escalations_declared names os
   | JStr s \<Rightarrow> if s \<in> set names then escalations_declared names os else Some (OwnershipError UndeclaredEscalation)
   | JList _ \<Rightarrow> Some OtherError
   | JDict _ \<Rightarrow> Some OtherError
   | _ \<Rightarrow> Some (OwnershipError UndeclaredEscalation))"

definition mk_table :: "ownership_table \<Rightarrow> ownership_error + ownership_table" where
  "mk_table t =
     (if ot_default t \<notin> fst ` set (ot_owners t) then Inl (OwnershipError UndeclaredDefault)
      else if list_ex (\<lambda>r. or_owner r \<notin> fst ` set (ot_owners t)) (ot_rules t) then Inl (OwnershipError UndeclaredOwner)
      else case escalations_declared (map fst (ot_owners t)) (map snd (ot_owners t)) of
        Some e \<Rightarrow> Inl e | None \<Rightarrow> Inr t)"

definition default_table :: ownership_table where
  "default_table = \<lparr>ot_rules = [], ot_owners = [(DEFAULT_OWNER_NAME,
     \<lparr>ow_name = DEFAULT_OWNER_NAME, ow_channel = DEFAULT_CHANNEL, ow_escalate_to = JNull, ow_escalate_after = None\<rparr>)],
     ot_default = DEFAULT_OWNER_NAME\<rparr>"

subsection \<open>Reading a table\<close>

text \<open>\<open>float\<close> of a value that is not \<open>None\<close>; \<open>None\<close> when it raises.\<close>

definition py_float :: "(string \<Rightarrow> int option) \<Rightarrow> json \<Rightarrow> int option" where
  "py_float to_float v = (case v of
     JBool b \<Rightarrow> Some (if b then 1 else 0) | JInt i \<Rightarrow> Some i | JStr s \<Rightarrow> to_float s | _ \<Rightarrow> None)"

definition parse_owner :: "(string \<Rightarrow> int option) \<Rightarrow> string list \<Rightarrow> json \<Rightarrow> ownership_error + owner" where
  "parse_owner to_float seen v = (case v of
     JDict e \<Rightarrow>
       if \<not> truthy (dict_get e ''name'') then Inl (OwnershipError OwnerNeedsName)
       else let name = py_str (dict_get e ''name''); channel = dict_get e ''channel'';
                escalate_after = dict_get e ''escalate_after_seconds''
            in if name \<in> set seen then Inl (OwnershipError OwnerTwice)
               else if \<not> truthy channel \<or> \<not> is_string channel then Inl (OwnershipError ChannelNeeded)
               else if escalate_after \<noteq> JNull \<and> py_float to_float escalate_after = None then Inl OtherError
               else mk_owner \<lparr>ow_name = name, ow_channel = py_str channel, ow_escalate_to = dict_get e ''escalate_to'',
                 ow_escalate_after = (if escalate_after = JNull then None else py_float to_float escalate_after)\<rparr>
   | _ \<Rightarrow> Inl (OwnershipError OwnerNeedsName))"

fun parse_owners ::
  "(string \<Rightarrow> int option) \<Rightarrow> (string \<times> owner) list \<Rightarrow> json list \<Rightarrow> ownership_error + (string \<times> owner) list" where
  "parse_owners to_float owners [] = Inr owners"
| "parse_owners to_float owners (v # vs) = (case parse_owner to_float (map fst owners) v of
     Inl e \<Rightarrow> Inl e | Inr ow \<Rightarrow> parse_owners to_float (owners @ [(ow_name ow, ow)]) vs)"

definition parse_rule :: "nat \<Rightarrow> string list \<Rightarrow> json \<Rightarrow> ownership_error + ownership_rule" where
  "parse_rule index seen v = (case v of
     JDict e \<Rightarrow>
       if \<not> truthy (dict_get e ''owner'') then Inl (OwnershipError RuleNeedsOwner)
       else let name = py_str (py_or (dict_get e ''name'') (JStr (''rule-'' @ show_nat index)))
            in if name \<in> set seen then Inl (OwnershipError RuleTwice)
               else Inr \<lparr>or_name = name, or_owner = py_str (dict_get e ''owner''), or_device = dict_get e ''device'',
                 or_role = dict_get e ''role'', or_finding = dict_get e ''finding''\<rparr>
   | _ \<Rightarrow> Inl (OwnershipError RuleNeedsOwner))"

fun parse_rules :: "nat \<Rightarrow> ownership_rule list \<Rightarrow> json list \<Rightarrow> ownership_error + ownership_rule list" where
  "parse_rules index rules [] = Inr rules"
| "parse_rules index rules (v # vs) = (case parse_rule index (map or_name rules) v of
     Inl e \<Rightarrow> Inl e | Inr r \<Rightarrow> parse_rules (index + 1) (rules @ [r]) vs)"

definition parse_ownership_table :: "(string \<Rightarrow> int option) \<Rightarrow> json \<Rightarrow> ownership_error + ownership_table" where
  "parse_ownership_table to_float data = (case data of
     JDict d \<Rightarrow> (case dict_get d ''owners'' of
         JList (v # vs) \<Rightarrow> (case parse_owners to_float [] (v # vs) of
             Inl e \<Rightarrow> Inl e
           | Inr owners \<Rightarrow> (case py_or (dict_get d ''rules'') (JList []) of
                 JList ws \<Rightarrow> (case parse_rules 0 [] ws of
                     Inl e \<Rightarrow> Inl e
                   | Inr rules \<Rightarrow>
                       if \<not> truthy (dict_get d ''default_owner'') then Inl (OwnershipError DefaultNeeded)
                       else mk_table \<lparr>ot_rules = rules, ot_owners = owners, ot_default = py_str (dict_get d ''default_owner'')\<rparr>)
               | _ \<Rightarrow> Inl (OwnershipError RulesNotList)))
       | _ \<Rightarrow> Inl (OwnershipError NoOwners))
   | _ \<Rightarrow> Inl (OwnershipError TableNotMapping))"

text \<open>What a path gives: no path or no file, a file that cannot be read as YAML, or its value.\<close>

datatype table_file = NoFile | Unreadable | Content json

definition load_ownership_table :: "(string \<Rightarrow> int option) \<Rightarrow> table_file \<Rightarrow> ownership_error + ownership_table" where
  "load_ownership_table to_float f = (case f of
     NoFile \<Rightarrow> Inr default_table
   | Unreadable \<Rightarrow> Inl (OwnershipError CannotRead)
   | Content data \<Rightarrow> parse_ownership_table to_float data)"

subsection \<open>Resolution\<close>

record routing =
  rt_owners :: "owner list"
  rt_matched :: "string option"
  rt_escalated :: bool

definition resolve_ownership :: "ownership_table \<Rightarrow> string \<Rightarrow> json \<Rightarrow> json \<Rightarrow> int option \<Rightarrow> routing option" where
  "resolve_ownership t device role finding age = do {
     let rule = find (\<lambda>r. rule_matches r device role finding) (ot_rules t);
     ow \<leftarrow> map_of (ot_owners t) (case rule of Some r \<Rightarrow> or_owner r | None \<Rightarrow> ot_default t);
     let matched = map_option or_name rule;
     let due = (ow_escalate_to ow \<noteq> JNull \<and> (case (ow_escalate_after ow, age) of
                  (Some limit, Some a) \<Rightarrow> a \<ge> limit | _ \<Rightarrow> False));
     if due then do {
       target \<leftarrow> (case ow_escalate_to ow of JStr s \<Rightarrow> map_of (ot_owners t) s | _ \<Rightarrow> None);
       Some \<lparr>rt_owners = [ow, target], rt_matched = matched, rt_escalated = True\<rparr> }
     else Some \<lparr>rt_owners = [ow], rt_matched = matched, rt_escalated = False\<rparr> }"

subsection \<open>What a table that loads promises\<close>

definition declared :: "string list \<Rightarrow> json \<Rightarrow> bool" where
  "declared names v = (case v of JStr s \<Rightarrow> s \<in> set names | _ \<Rightarrow> False)"

definition owner_ok :: "string list \<Rightarrow> string \<times> owner \<Rightarrow> bool" where
  "owner_ok names e \<longleftrightarrow> ow_name (snd e) = fst e \<and> ow_channel (snd e) \<noteq> [] \<and>
     (case ow_escalate_after (snd e) of
        None \<Rightarrow> ow_escalate_to (snd e) = JNull
      | Some limit \<Rightarrow> 0 < limit \<and> declared names (ow_escalate_to (snd e)))"

definition table_ok :: "ownership_table \<Rightarrow> bool" where
  "table_ok t \<longleftrightarrow> distinct (map fst (ot_owners t)) \<and> list_all (owner_ok (map fst (ot_owners t))) (ot_owners t) \<and>
     ot_default t \<in> fst ` set (ot_owners t) \<and> (\<forall>r\<in>set (ot_rules t). or_owner r \<in> fst ` set (ot_owners t))"

text \<open>What one owner must be before the table knows all names.\<close>

definition owner_shape :: "string \<times> owner \<Rightarrow> bool" where
  "owner_shape e \<longleftrightarrow> ow_name (snd e) = fst e \<and> ow_channel (snd e) \<noteq> [] \<and>
     (ow_escalate_to (snd e) = JNull) = (ow_escalate_after (snd e) = None) \<and>
     (\<forall>limit. ow_escalate_after (snd e) = Some limit \<longrightarrow> 0 < limit)"

lemma mk_owner_Inr: "mk_owner ow = Inr ow' \<Longrightarrow> ow' = ow \<and>
    (ow_escalate_to ow = JNull) = (ow_escalate_after ow = None) \<and> (\<forall>limit. ow_escalate_after ow = Some limit \<longrightarrow> 0 < limit)"
  by (auto simp: mk_owner_def split: if_splits option.splits)

lemma parse_owner_shape:
  assumes "parse_owner to_float seen v = Inr ow"
  shows "owner_shape (ow_name ow, ow) \<and> ow_name ow \<notin> set seen"
proof -
  from assms obtain e where v: "v = JDict e" by (cases v) (simp_all add: parse_owner_def)
  define raw where "raw = \<lparr>ow_name = py_str (dict_get e ''name''), ow_channel = py_str (dict_get e ''channel''),
    ow_escalate_to = dict_get e ''escalate_to'',
    ow_escalate_after = (if dict_get e ''escalate_after_seconds'' = JNull then None
      else py_float to_float (dict_get e ''escalate_after_seconds''))\<rparr>"
  from assms v have mk: "mk_owner raw = Inr ow" and seen: "ow_name raw \<notin> set seen"
    and ch: "truthy (dict_get e ''channel'')" "is_string (dict_get e ''channel'')"
    by (auto simp: parse_owner_def Let_def raw_def split: if_splits)
  from ch have "ow_channel raw \<noteq> []" by (auto simp: raw_def py_str_def elim: is_stringE)
  with mk_owner_Inr [OF mk] seen show ?thesis by (simp add: owner_shape_def)
qed

lemma parse_owners_shape:
  "parse_owners to_float owners vs = Inr owners' \<Longrightarrow> distinct (map fst owners) \<Longrightarrow> list_all owner_shape owners \<Longrightarrow>
     distinct (map fst owners') \<and> list_all owner_shape owners'"
proof (induction vs arbitrary: owners)
  case (Cons v vs)
  then obtain ow where ow: "parse_owner to_float (map fst owners) v = Inr ow"
    and rest: "parse_owners to_float (owners @ [(ow_name ow, ow)]) vs = Inr owners'"
    by (auto split: sum.splits)
  from parse_owner_shape [OF ow] Cons.prems show ?case by (intro Cons.IH [OF rest]) auto
qed simp

lemma escalations_declared_None:
  "escalations_declared names os = None \<Longrightarrow> ow \<in> set os \<Longrightarrow> ow_escalate_to ow \<noteq> JNull \<Longrightarrow>
     declared names (ow_escalate_to ow)"
  by (induction os) (auto simp: declared_def split: json.splits if_splits)

lemma mk_table_ok:
  assumes "mk_table t = Inr t'" and "distinct (map fst (ot_owners t))" and "list_all owner_shape (ot_owners t)"
  shows "table_ok t'"
proof -
  from assms(1) have t: "t' = t" and d: "ot_default t \<in> fst ` set (ot_owners t)"
    and r: "\<forall>r\<in>set (ot_rules t). or_owner r \<in> fst ` set (ot_owners t)"
    and e: "escalations_declared (map fst (ot_owners t)) (map snd (ot_owners t)) = None"
    by (auto simp: mk_table_def list_ex_iff split: if_splits option.splits)
  have "owner_ok (map fst (ot_owners t)) x" if x: "x \<in> set (ot_owners t)" for x
  proof -
    from assms(3) x have s: "owner_shape x" by (simp add: list_all_iff)
    from x have "snd x \<in> set (map snd (ot_owners t))" by simp
    from escalations_declared_None [OF e this] s show ?thesis
      unfolding owner_ok_def owner_shape_def by (cases "ow_escalate_after (snd x)") auto
  qed
  with assms(2) d r show ?thesis by (simp add: t table_ok_def list_all_iff)
qed

lemma default_table_ok: "table_ok default_table"
  by code_simp

lemma load_ok: "load_ownership_table to_float f = Inr t \<Longrightarrow> table_ok t"
proof (cases f)
  case (Content data)
  assume "load_ownership_table to_float f = Inr t"
  with Content obtain owners rules d df where "parse_owners to_float [] d = Inr owners"
    and "mk_table \<lparr>ot_rules = rules, ot_owners = owners, ot_default = df\<rparr> = Inr t"
    by (auto simp: load_ownership_table_def parse_ownership_table_def Let_def simp del: parse_owners.simps
        split: json.splits list.splits sum.splits if_splits option.splits)
  with parse_owners_shape [of to_float "[]" d owners] mk_table_ok show ?thesis by force
qed (use default_table_ok in \<open>auto simp: load_ownership_table_def\<close>)

lemma find_SomeD: "find p xs = Some x \<Longrightarrow> p x \<and> (\<exists>us vs. xs = us @ x # vs \<and> list_all (\<lambda>u. \<not> p u) us)"
proof (induction xs)
  case (Cons y ys)
  show ?case
  proof (cases "p y")
    case True
    with Cons.prems have "y = x" "p x" by simp_all
    then have "y # ys = [] @ x # ys \<and> list_all (\<lambda>u. \<not> p u) []" by simp
    with \<open>p x\<close> show ?thesis by blast
  next
    case False
    with Cons obtain us vs where "p x" "ys = us @ x # vs" "list_all (\<lambda>u. \<not> p u) us" by auto
    then have "y # ys = (y # us) @ x # vs \<and> list_all (\<lambda>u. \<not> p u) (y # us)" using False by simp
    with \<open>p x\<close> show ?thesis by blast
  qed
qed simp

text \<open>The name the table gives for a finding, and whether its owner's threshold has passed.\<close>

definition chosen :: "ownership_table \<Rightarrow> string \<Rightarrow> json \<Rightarrow> json \<Rightarrow> string option \<Rightarrow> string \<Rightarrow> bool" where
  "chosen t device role finding matched name \<longleftrightarrow> (case matched of
     None \<Rightarrow> name = ot_default t \<and> list_all (\<lambda>r. \<not> rule_matches r device role finding) (ot_rules t)
   | Some n \<Rightarrow> \<exists>us r vs. ot_rules t = us @ r # vs \<and> or_name r = n \<and> or_owner r = name \<and>
       rule_matches r device role finding \<and> list_all (\<lambda>u. \<not> rule_matches u device role finding) us)"

lemma routing_of_ok:
  assumes "table_ok t"
  shows "\<exists>rt ow. resolve_ownership t device role finding age = Some rt \<and>
    chosen t device role finding (rt_matched rt) (ow_name ow) \<and> map_of (ot_owners t) (ow_name ow) = Some ow \<and>
    rt_escalated rt = (case (ow_escalate_after ow, age) of (Some limit, Some a) \<Rightarrow> limit \<le> a | _ \<Rightarrow> False) \<and>
    (if rt_escalated rt then \<exists>target s. rt_owners rt = [ow, target] \<and> ow_escalate_to ow = JStr s \<and> map_of (ot_owners t) s = Some target
     else rt_owners rt = [ow])"
proof -
  note ok = assms
  define rule where "rule = find (\<lambda>r. rule_matches r device role finding) (ot_rules t)"
  define name where "name = (case rule of Some r \<Rightarrow> or_owner r | None \<Rightarrow> ot_default t)"
  have ch: "chosen t device role finding (map_option or_name rule) name"
  proof (cases rule)
    case None
    then have "list_all (\<lambda>r. \<not> rule_matches r device role finding) (ot_rules t)"
      by (simp add: rule_def find_None_iff list_all_iff)
    with None show ?thesis by (simp add: chosen_def name_def)
  next
    case (Some r)
    with find_SomeD [of "\<lambda>r. rule_matches r device role finding" "ot_rules t" r]
    show ?thesis unfolding chosen_def name_def rule_def by fastforce
  qed
  have "name \<in> fst ` set (ot_owners t)"
  proof (cases rule)
    case (Some r)
    with find_SomeD [of "\<lambda>r. rule_matches r device role finding" "ot_rules t" r] ok show ?thesis unfolding name_def rule_def table_ok_def by auto
  qed (use ok in \<open>simp add: name_def table_ok_def\<close>)
  then obtain ow where ow: "map_of (ot_owners t) name = Some ow" by (metis map_of_eq_None_iff not_None_eq)
  with ok have "owner_ok (map fst (ot_owners t)) (name, ow)" unfolding table_ok_def list_all_iff by (blast dest: map_of_SomeD)
  then have n: "ow_name ow = name" and esc: "case ow_escalate_after ow of None \<Rightarrow> ow_escalate_to ow = JNull
      | Some limit \<Rightarrow> 0 < limit \<and> declared (map fst (ot_owners t)) (ow_escalate_to ow)"
    unfolding owner_ok_def by (simp, cases "ow_escalate_after ow", simp_all)
  define due where "due = (case (ow_escalate_after ow, age) of (Some limit, Some a) \<Rightarrow> limit \<le> a | _ \<Rightarrow> False)"
  show ?thesis
  proof (cases due)
    case False
    then have "resolve_ownership t device role finding age =
        Some \<lparr>rt_owners = [ow], rt_matched = map_option or_name rule, rt_escalated = False\<rparr>"
      using ow by (simp add: resolve_ownership_def rule_def [symmetric] name_def [symmetric] due_def)
    with False ch ow n show ?thesis by (auto simp: due_def)
  next
    case True
    with esc obtain s where s: "ow_escalate_to ow = JStr s" and "s \<in> fst ` set (ot_owners t)"
      by (auto simp: due_def declared_def split: option.splits json.splits)
    then obtain target where target: "map_of (ot_owners t) s = Some target" by (metis map_of_eq_None_iff not_None_eq)
    with True ow s have "resolve_ownership t device role finding age =
        Some \<lparr>rt_owners = [ow, target], rt_matched = map_option or_name rule, rt_escalated = True\<rparr>"
      by (simp add: resolve_ownership_def rule_def [symmetric] name_def [symmetric] due_def)
    with True ch ow n s target show ?thesis by (auto simp: due_def)
  qed
qed

text \<open>A finding always reaches somebody.  With a table that loads, resolution never fails and never comes back
  empty: the first owner is the one of the first rule that matches, or the default owner when none
  does; and the escalation target, a declared owner, is added behind it exactly when the owner has
  one and the finding is at least as old as its threshold.\<close>

theorem routing_reaches_somebody:
  assumes "load_ownership_table to_float f = Inr t"
  shows "\<exists>rt ow. resolve_ownership t device role finding age = Some rt \<and>
    chosen t device role finding (rt_matched rt) (ow_name ow) \<and> map_of (ot_owners t) (ow_name ow) = Some ow \<and>
    rt_escalated rt = (case (ow_escalate_after ow, age) of (Some limit, Some a) \<Rightarrow> limit \<le> a | _ \<Rightarrow> False) \<and>
    (if rt_escalated rt then \<exists>target s. rt_owners rt = [ow, target] \<and> ow_escalate_to ow = JStr s \<and> map_of (ot_owners t) s = Some target
     else rt_owners rt = [ow])"
  by (rule routing_of_ok [OF load_ok [OF assms]])

definition noc_table :: json where
  "noc_table = JDict [(''owners'', JList [
       JDict [(''name'', JStr ''core''), (''channel'', JStr ''telegram:1''), (''escalate_to'', JStr ''lead''), (''escalate_after_seconds'', JInt 600)],
       JDict [(''name'', JStr ''lead''), (''channel'', JStr ''telegram:2'')]]),
     (''rules'', JList [JDict [(''owner'', JStr ''core''), (''device'', JStr ''P1'')]]),
     (''default_owner'', JStr ''lead'')]"

theorem routing_witness:
  "\<exists>t rt. load_ownership_table (\<lambda>_. None) (Content noc_table) = Inr t \<and>
     resolve_ownership t ''P1'' JNull (JStr ''down'') (Some 700) = Some rt \<and> rt_escalated rt \<and>
     rt_matched rt = Some ''rule-0'' \<and> map ow_name (rt_owners rt) = [''core'', ''lead'']"
proof -
  obtain t where t: "load_ownership_table (\<lambda>_. None) (Content noc_table) = Inr t"
    by (cases "load_ownership_table (\<lambda>_. None) (Content noc_table)") (simp_all, code_simp)
  have "(case load_ownership_table (\<lambda>_. None) (Content noc_table) of Inl _ \<Rightarrow> None | Inr t \<Rightarrow>
      map_option (\<lambda>rt. (rt_escalated rt, rt_matched rt, map ow_name (rt_owners rt)))
        (resolve_ownership t ''P1'' JNull (JStr ''down'') (Some 700))) = Some (True, Some ''rule-0'', [''core'', ''lead''])"
    by code_simp
  with t routing_reaches_somebody [OF t, of "''P1''" JNull "JStr ''down''" "Some 700"] show ?thesis by auto
qed

end
