(* ===== verification/Relay.thy ===== *)
theory Relay
  imports Silences Ownership Event_Identity Py_Text
begin

section \<open>Delivering a finding: silence, ownership, repetition\<close>

text \<open>
  Models \<open>relay_policy.py\<close> and the delivery functions of \<open>notifier.py\<close> it calls.  What the
  configuration files hold, what the state file holds and what a provider's \<open>send\<close> does are
  arguments; the state file after the call is part of the result.  \<open>None\<close> is an exception that leaves
  the function.  Times are instants; \<open>isoformat\<close> and \<open>fromiso\<close> write and read an instant as text.
\<close>

subsection \<open>Providers\<close>

datatype notifier = NoOpNotifier | TelegramNotifier "string list option"

definition get_notifier :: "string option \<Rightarrow> string option \<Rightarrow> string + notifier" where
  "get_notifier provider env =
     (let name = py_lower (py_strip (case provider of
            Some (c # cs) \<Rightarrow> c # cs
          | _ \<Rightarrow> (case env of Some e \<Rightarrow> e | None \<Rightarrow> ''none'')))
      in if name = ''none'' then Inr NoOpNotifier
         else if name = ''telegram'' then Inr (TelegramNotifier None)
         else Inl name)"

record silence_notice =
  sn_id :: string
  sn_reason :: string
  sn_created_by :: string
  sn_expires_at :: string

datatype delivery_error = UnknownProvider string | SendFailed | BadChannel string

record delivery_record =
  dl_attempted :: bool
  dl_provider :: "string option"
  dl_ok :: bool
  dl_error :: "delivery_error option"
  dl_silenced :: bool
  dl_silence :: "silence_notice option"
  dl_message_ids :: "json list"
  dl_owner :: string

definition blank_record :: delivery_record where
  "blank_record = \<lparr>dl_attempted = False, dl_provider = None, dl_ok = False, dl_error = None, dl_silenced = False,
     dl_silence = None, dl_message_ids = [], dl_owner = []\<rparr>"

text \<open>The list of message ids, when the provider returned one; a bool is an \<open>int\<close> too.\<close>

definition message_ids :: "json \<Rightarrow> json list" where
  "message_ids v = (case v of JList xs \<Rightarrow> if list_all (\<lambda>x. numeric x \<noteq> None) xs then xs else [] | _ \<Rightarrow> [])"

text \<open>\<open>sent\<close> is what \<open>send\<close> returns, \<open>None\<close> when it raises.\<close>

definition notify :: "silence_notice option \<Rightarrow> notifier option \<Rightarrow> string option \<Rightarrow> json option \<Rightarrow> delivery_record" where
  "notify silence target env sent = (case silence of
     Some n \<Rightarrow> blank_record\<lparr>dl_silenced := True, dl_silence := Some n, dl_ok := True\<rparr>
   | None \<Rightarrow>
       (case (case target of Some t \<Rightarrow> Inr t | None \<Rightarrow> get_notifier None env) of
          Inl name \<Rightarrow> blank_record\<lparr>dl_error := Some (UnknownProvider name)\<rparr>
        | Inr NoOpNotifier \<Rightarrow> blank_record\<lparr>dl_provider := Some ''none'', dl_ok := True\<rparr>
        | Inr (TelegramNotifier _) \<Rightarrow>
            (let r = blank_record\<lparr>dl_provider := Some ''telegram'', dl_attempted := True\<rparr>
             in case sent of
                  Some v \<Rightarrow> r\<lparr>dl_message_ids := message_ids v, dl_ok := True\<rparr>
                | None \<Rightarrow> r\<lparr>dl_error := Some SendFailed\<rparr>)))"

definition chat_ids :: "string \<Rightarrow> string list" where
  "chat_ids destination = filter (\<lambda>c. c \<noteq> []) (map py_strip (split_on (CHR '','') destination))"

definition notify_owner :: "owner \<Rightarrow> silence_notice option \<Rightarrow> string option \<Rightarrow> json option \<Rightarrow> delivery_record" where
  "notify_owner ow silence env sent = (case silence of
     Some n \<Rightarrow> blank_record\<lparr>dl_silenced := True, dl_silence := Some n, dl_ok := True, dl_owner := ow_name ow\<rparr>
   | None \<Rightarrow>
       if ow_channel ow = DEFAULT_CHANNEL then (notify None None env sent)\<lparr>dl_owner := ow_name ow\<rparr>
       else
         let (provider, destination) = partition_on (CHR '':'') (ow_channel ow); chats = chat_ids destination
         in if provider \<noteq> ''telegram'' \<or> chats = []
            then blank_record\<lparr>dl_error := Some (BadChannel (ow_channel ow)), dl_owner := ow_name ow\<rparr>
            else (notify None (Some (TelegramNotifier (Some chats))) env sent)\<lparr>dl_owner := ow_name ow\<rparr>)"

subsection \<open>The state file\<close>

definition dedup_key :: "string \<Rightarrow> string \<Rightarrow> string" where
  "dedup_key device subj = device @ [char_of (31 :: nat)] @ subj"

text \<open>No file, a file the system refuses to read, one that is not UTF-8, one with nothing but white
  space, one that is not JSON, or its value.\<close>

datatype state_file = Missing | ReadFails | NotUtf8 | Blank | NotJson | Holds json

definition load_state :: "state_file \<Rightarrow> (dict \<times> bool) option" where
  "load_state f = (case f of
     Missing \<Rightarrow> Some ([], True)
   | ReadFails \<Rightarrow> Some ([], False)
   | NotUtf8 \<Rightarrow> None
   | Blank \<Rightarrow> Some ([], True)
   | NotJson \<Rightarrow> Some ([], False)
   | Holds (JDict d) \<Rightarrow> Some (d, True)
   | Holds _ \<Rightarrow> Some ([], False))"

text \<open>The write replaces the file or, when it fails, leaves it as it was.\<close>

definition save_state :: "bool \<Rightarrow> dict \<Rightarrow> state_file \<Rightarrow> state_file" where
  "save_state write_ok state f = (if write_ok then Holds (JDict (stored_dict state)) else f)"

datatype dedup_reason =
    DedupOff | SilencedFirst | NoPrior | SignatureChanged json json | NoTimestamp
  | InsideWindow int | ReminderDue int

record dedup =
  dd_evaluated :: bool
  dd_suppressed :: bool
  dd_readable :: "bool option"
  dd_reason :: dedup_reason

definition signature :: "string \<Rightarrow> dict option \<Rightarrow> json" where
  "signature finding cause = JList [JStr finding, dict_get (case cause of Some c \<Rightarrow> c | None \<Rightarrow> []) ''rung'']"

record page =
  pg_device :: string
  pg_subject :: string
  pg_finding :: string
  pg_cause :: "dict option"
  pg_role :: json
  pg_age :: "int option"

definition page_key :: "page \<Rightarrow> string" where
  "page_key p = dedup_key (pg_device p) (pg_subject p)"

definition page_signature :: "page \<Rightarrow> json" where
  "page_signature p = signature (pg_finding p) (pg_cause p)"

text \<open>The instant a record was last notified at, when its text has one with a time zone.\<close>

definition last_notified :: "(string \<Rightarrow> (int \<times> bool) option) \<Rightarrow> dict \<Rightarrow> int option" where
  "last_notified fromiso prior = (case fromiso (py_str (dict_get prior ''last_notified_at'')) of
     Some (t, True) \<Rightarrow> Some t | _ \<Rightarrow> None)"

text \<open>\<open>evaluate_dedup\<close>; the file is \<open>None\<close> when the feature is off.\<close>

definition evaluate_dedup ::
  "(string \<Rightarrow> (int \<times> bool) option) \<Rightarrow> page \<Rightarrow> state_file option \<Rightarrow> int \<Rightarrow> int \<Rightarrow> dedup option" where
  "evaluate_dedup fromiso p file window now = (case file of
     None \<Rightarrow> Some \<lparr>dd_evaluated = False, dd_suppressed = False, dd_readable = None, dd_reason = DedupOff\<rparr>
   | Some f \<Rightarrow> do {
       (state, readable) \<leftarrow> load_state f;
       let answer = (\<lambda>suppressed readable reason. \<lparr>dd_evaluated = True, dd_suppressed = suppressed,
         dd_readable = Some readable, dd_reason = reason\<rparr>);
       Some (case dict_get state (page_key p) of
         JDict prior \<Rightarrow>
           if \<not> py_eq (dict_get prior ''signature'') (page_signature p)
           then answer False readable (SignatureChanged (dict_get prior ''signature'') (page_signature p))
           else (case last_notified fromiso prior of
               None \<Rightarrow> answer False False NoTimestamp
             | Some prev \<Rightarrow>
                 if now - prev < window then answer True readable (InsideWindow (now - prev))
                 else answer False readable (ReminderDue (now - prev)))
       | _ \<Rightarrow> answer False readable NoPrior) })"

definition record_notification ::
  "(int \<Rightarrow> string) \<Rightarrow> page \<Rightarrow> bool \<Rightarrow> int \<Rightarrow> state_file \<Rightarrow> state_file option" where
  "record_notification isoformat p write_ok now f = do {
     (state, readable) \<leftarrow> load_state f;
     let prior = (case dict_get state (page_key p) of JDict d \<Rightarrow> d | _ \<Rightarrow> []);
     n \<leftarrow> py_int (dict_get_or prior ''notify_count'' (JInt 0));
     Some (save_state write_ok (dict_set state (page_key p) (JDict [
       (''signature'', page_signature p), (''last_notified_at'', JStr (isoformat now)), (''notify_count'', JInt (n + 1)),
       (''device'', JStr (pg_device p)), (''subject'', JStr (pg_subject p))])) f) }"

subsection \<open>The relay\<close>

definition resolve_silences ::
  "silence list option \<Rightarrow> silence_error + silence list \<Rightarrow> silence list \<times> silence_error option" where
  "resolve_silences silences loaded = (case silences of
     Some ss \<Rightarrow> (ss, None)
   | None \<Rightarrow> (case loaded of Inr ss \<Rightarrow> (ss, None) | Inl e \<Rightarrow> ([], Some e)))"

definition resolve_ownership_table ::
  "ownership_table option \<Rightarrow> ownership_error + ownership_table \<Rightarrow> (ownership_table \<times> ownership_reason option) option" where
  "resolve_ownership_table table loaded = (case table of
     Some t \<Rightarrow> Some (t, None)
   | None \<Rightarrow> (case loaded of
       Inr t \<Rightarrow> Some (t, None)
     | Inl (OwnershipError r) \<Rightarrow> Some (default_table, Some r)
     | Inl OtherError \<Rightarrow> None))"

datatype relay_decision = Silenced | Suppressed | Sent | No_Provider | Failed

definition summarize :: "delivery_record list \<Rightarrow> relay_decision" where
  "summarize ds =
     (if list_ex (\<lambda>d. dl_attempted d \<and> dl_ok d) ds then Sent
      else if list_all (\<lambda>d. dl_ok d \<and> \<not> dl_attempted d) ds then No_Provider
      else Failed)"

text \<open>What the caller and the environment configure.  \<open>rc_dedup\<close> is whether a state file is named and
  de-duplication is not switched off.\<close>

record relay_config =
  rc_silences :: "silence list option"
  rc_silence_file :: "json option"
  rc_table :: "ownership_table option"
  rc_table_file :: table_file
  rc_provider :: "string option"
  rc_dedup :: bool
  rc_window :: int

text \<open>The time functions the code takes from the standard library.\<close>

record times_io =
  io_format :: "int \<Rightarrow> string"
  io_parse :: "string \<Rightarrow> (int \<times> bool) option"
  io_float :: "string \<Rightarrow> int option"

record relay_result =
  rr_decision :: relay_decision
  rr_silence :: "silence_notice option"
  rr_dedup :: dedup
  rr_routing :: routing
  rr_ownership_error :: "ownership_reason option"
  rr_silence_error :: "silence_error option"
  rr_deliveries :: "delivery_record list"

definition silence_notice_of :: "(int \<Rightarrow> string) \<Rightarrow> silence \<Rightarrow> silence_notice" where
  "silence_notice_of isoformat s = \<lparr>sn_id = sl_id s, sn_reason = sl_reason s, sn_created_by = sl_created_by s,
     sn_expires_at = isoformat (sl_expires_at s)\<rparr>"

definition deliver_all ::
  "owner list \<Rightarrow> silence_notice option \<Rightarrow> string option \<Rightarrow> (nat \<Rightarrow> json option) \<Rightarrow> delivery_record list" where
  "deliver_all owners silence env send =
     map (\<lambda>(i, ow). notify_owner ow silence env (send i)) (enumerate 0 owners)"

text \<open>The part of \<open>relay\<close> after a finding turned out not to be silenced.\<close>

definition relay_open ::
  "times_io \<Rightarrow> relay_config \<Rightarrow> page \<Rightarrow> owner list \<Rightarrow> (nat \<Rightarrow> json option) \<Rightarrow> bool \<Rightarrow> int \<Rightarrow> state_file \<Rightarrow>
   (relay_decision \<times> dedup \<times> delivery_record list \<times> state_file) option" where
  "relay_open io c p owners send write_ok now f = do {
     dd \<leftarrow> evaluate_dedup (io_parse io) p (if rc_dedup c then Some f else None) (rc_window c) now;
     if dd_suppressed dd then Some (Suppressed, dd, [], f)
     else do {
       let deliveries = deliver_all owners None (rc_provider c) send;
       let decision = summarize deliveries;
       f' \<leftarrow> (if decision = Sent \<and> rc_dedup c then record_notification (io_format io) p write_ok now f else Some f);
       Some (decision, dd, deliveries, f') } }"

definition relay ::
  "times_io \<Rightarrow> relay_config \<Rightarrow> page \<Rightarrow> (nat \<Rightarrow> json option) \<Rightarrow> bool \<Rightarrow> int \<Rightarrow> state_file \<Rightarrow> (relay_result \<times> state_file) option" where
  "relay io c p send write_ok now f = do {
     let (silences, silence_error) = resolve_silences (rc_silences c) (load_silences (io_parse io) (rc_silence_file c));
     let matched = find_silence silences (pg_device p) (JStr (pg_finding p)) (JStr (pg_subject p)) now;
     let notice = map_option (silence_notice_of (io_format io)) matched;
     (table, table_error) \<leftarrow> resolve_ownership_table (rc_table c) (load_ownership_table (io_float io) (rc_table_file c));
     rt \<leftarrow> resolve_ownership table (pg_device p) (pg_role p) (JStr (pg_finding p)) (pg_age p);
     let answer = (\<lambda>d s dd ds. \<lparr>rr_decision = d, rr_silence = s, rr_dedup = dd, rr_routing = rt,
       rr_ownership_error = table_error, rr_silence_error = silence_error, rr_deliveries = ds\<rparr>);
     if notice \<noteq> None then
       Some (answer Silenced notice
         \<lparr>dd_evaluated = False, dd_suppressed = False, dd_readable = None, dd_reason = SilencedFirst\<rparr>
         (deliver_all (rt_owners rt) notice (rc_provider c) send), f)
     else do {
       (d, dd, ds, f') \<leftarrow> relay_open io c p (rt_owners rt) send write_ok now f;
       Some (answer d None dd ds, f') } }"

subsection \<open>What the relay decides\<close>

definition active_silence :: "times_io \<Rightarrow> relay_config \<Rightarrow> page \<Rightarrow> int \<Rightarrow> silence option" where
  "active_silence io c p now =
     find_silence (fst (resolve_silences (rc_silences c) (load_silences (io_parse io) (rc_silence_file c))))
       (pg_device p) (JStr (pg_finding p)) (JStr (pg_subject p)) now"

text \<open>The state file shows this very signature notified less than a window ago.\<close>

definition already_told :: "times_io \<Rightarrow> relay_config \<Rightarrow> page \<Rightarrow> int \<Rightarrow> state_file \<Rightarrow> bool" where
  "already_told io c p now f \<longleftrightarrow> rc_dedup c \<and> (case f of
     Holds (JDict d) \<Rightarrow> (case dict_get d (page_key p) of
       JDict prior \<Rightarrow> py_eq (dict_get prior ''signature'') (page_signature p) \<and>
         (case last_notified (io_parse io) prior of Some t \<Rightarrow> now - t < rc_window c | None \<Rightarrow> False)
     | _ \<Rightarrow> False)
   | _ \<Rightarrow> False)"

lemma evaluate_dedup_told:
  "evaluate_dedup (io_parse io) p (if rc_dedup c then Some f else None) (rc_window c) now = Some dd \<Longrightarrow>
     dd_suppressed dd = already_told io c p now f"
  by (auto simp: evaluate_dedup_def already_told_def load_state_def
      split: if_splits option.splits state_file.splits json.splits)

lemma deliver_all_owners: "map dl_owner (deliver_all owners s env send) = map ow_name owners"
proof -
  have "dl_owner (notify_owner ow s env sent) = ow_name ow" for ow sent
    by (auto simp: notify_owner_def Let_def split: option.split prod.split)
  then have "map dl_owner (deliver_all owners s env send) = map (ow_name \<circ> snd) (enumerate 0 owners)"
    by (simp add: deliver_all_def comp_def case_prod_unfold)
  then show ?thesis by (simp flip: map_map)
qed

lemma silenced_not_attempted: "list_all (\<lambda>d. \<not> dl_attempted d) (deliver_all owners (Some n) env send)"
  by (auto simp: deliver_all_def list_all_iff notify_owner_def blank_record_def)

lemma owners_nonempty: "resolve_ownership t device role finding age = Some rt \<Longrightarrow> rt_owners rt \<noteq> []"
  by (auto simp: resolve_ownership_def bind_Some_iff Let_def split: if_splits option.splits)

lemma record_unwritten: "record_notification isoformat p False now f = Some f' \<Longrightarrow> f' = f"
  by (auto simp: record_notification_def save_state_def bind_Some_iff)

lemma relay_openE:
  assumes "relay_open io c p owners send write_ok now f = Some (d, dd, ds, f')"
  shows "if already_told io c p now f then d = Suppressed \<and> ds = [] \<and> f' = f
    else ds = deliver_all owners None (rc_provider c) send \<and> d = summarize ds \<and>
      (if d = Sent \<and> rc_dedup c then record_notification (io_format io) p write_ok now f = Some f' else f' = f)"
proof -
  from assms obtain dd' where dd: "evaluate_dedup (io_parse io) p (if rc_dedup c then Some f else None) (rc_window c) now = Some dd'"
    unfolding relay_open_def by (auto simp only: bind_Some_iff)
  show ?thesis
  proof (cases "dd_suppressed dd'")
    case True
    with assms dd have "d = Suppressed \<and> ds = [] \<and> f' = f" unfolding relay_open_def dd by auto
    with True show ?thesis by (simp flip: evaluate_dedup_told [OF dd])
  next
    case False
    with assms have "ds = deliver_all owners None (rc_provider c) send \<and> d = summarize ds \<and>
      (if d = Sent \<and> rc_dedup c then record_notification (io_format io) p write_ok now f = Some f' else f' = f)"
      unfolding relay_open_def dd by (auto simp: Let_def bind_Some_iff split: if_splits)
    with False show ?thesis by (simp flip: evaluate_dedup_told [OF dd])
  qed
qed

lemma relayE:
  assumes "relay io c p send write_ok now f = Some (r, f')"
  obtains (Silenced) n where "active_silence io c p now \<noteq> None" "rr_decision r = Silenced" "f' = f"
      "rr_deliveries r = deliver_all (rt_owners (rr_routing r)) (Some n) (rc_provider c) send"
  | (Suppressed) "active_silence io c p now = None" "already_told io c p now f" "rr_decision r = Suppressed"
      "rr_deliveries r = []" "f' = f"
  | (Delivered) "active_silence io c p now = None" "\<not> already_told io c p now f" "rt_owners (rr_routing r) \<noteq> []"
      "rr_deliveries r = deliver_all (rt_owners (rr_routing r)) None (rc_provider c) send"
      "rr_decision r = summarize (rr_deliveries r)"
      "if rr_decision r = Sent \<and> rc_dedup c then record_notification (io_format io) p write_ok now f = Some f' else f' = f"
proof (cases "active_silence io c p now")
  case (Some s)
  with assms have "rr_decision r = Silenced \<and> f' = f \<and>
      rr_deliveries r = deliver_all (rt_owners (rr_routing r)) (Some (silence_notice_of (io_format io) s)) (rc_provider c) send"
    unfolding relay_def active_silence_def by (auto simp: bind_Some_iff Let_def split: prod.splits)
  with Some Silenced show ?thesis by blast
next
  case None
  with assms obtain t rt d dd ds where rt: "resolve_ownership t (pg_device p) (pg_role p) (JStr (pg_finding p)) (pg_age p) = Some rt"
    and open_: "relay_open io c p (rt_owners rt) send write_ok now f = Some (d, dd, ds, f')"
    and r: "rr_routing r = rt" "rr_decision r = d" "rr_deliveries r = ds"
    unfolding relay_def active_silence_def by (auto simp: bind_Some_iff Let_def split: prod.splits)
  note o = relay_openE [OF open_]
  from owners_nonempty [OF rt] r have ne: "rt_owners (rr_routing r) \<noteq> []" by simp
  show ?thesis
  proof (cases "already_told io c p now f")
    case True
    with o None r Suppressed show ?thesis by simp
  next
    case False
    with o None r ne Delivered show ?thesis by simp
  qed
qed

lemma summarize_Sent: "summarize ds = Sent \<longleftrightarrow> (\<exists>d\<in>set ds. dl_attempted d \<and> dl_ok d)"
  by (auto simp: summarize_def list_ex_iff)

lemma summarize_delivered: "summarize ds \<notin> {Silenced, Suppressed}"
  by (simp add: summarize_def)

text \<open>C35: The relay decides as declared.  Delivery is withheld only by a silence in force, or by a state file that
  shows the very same signature sent less than a window ago; then nothing is attempted.  Otherwise
  every owner of the finding, and there is one, gets a delivery, and the answer is \<open>Sent\<close> exactly when
  one of them was attempted and succeeded.  The state file changes only after such a delivery.\<close>

theorem relay_decides:
  assumes "relay io c p send write_ok now f = Some (r, f')"
  shows "(rr_decision r = Silenced \<longleftrightarrow> active_silence io c p now \<noteq> None) \<and>
    (rr_decision r = Suppressed \<longleftrightarrow> active_silence io c p now = None \<and> already_told io c p now f) \<and>
    (if rr_decision r \<in> {Silenced, Suppressed} then list_all (\<lambda>d. \<not> dl_attempted d) (rr_deliveries r)
     else rr_deliveries r \<noteq> [] \<and> map dl_owner (rr_deliveries r) = map ow_name (rt_owners (rr_routing r))) \<and>
    (rr_decision r = Sent \<longleftrightarrow> (\<exists>d\<in>set (rr_deliveries r). dl_attempted d \<and> dl_ok d)) \<and>
    (f' \<noteq> f \<longrightarrow> rr_decision r = Sent \<and> rc_dedup c \<and> write_ok)"
  using assms
proof (cases rule: relayE)
  case (Silenced n)
  then show ?thesis using silenced_not_attempted [of _ n] by (auto simp: list_all_iff)
next
  case Suppressed
  then show ?thesis by simp
next
  case Delivered
  have "f' \<noteq> f \<longrightarrow> rr_decision r = Sent \<and> rc_dedup c \<and> write_ok"
    using Delivered(6) record_unwritten by (cases write_ok) (auto split: if_splits)
  moreover have "map dl_owner (rr_deliveries r) = map ow_name (rt_owners (rr_routing r))"
    by (simp add: Delivered(4) deliver_all_owners)
  moreover from this Delivered(3) have "rr_deliveries r \<noteq> []" by force
  ultimately show ?thesis using Delivered(1,2) summarize_delivered [of "rr_deliveries r"]
    by (simp add: Delivered(5) summarize_Sent)
qed

subsection \<open>Repetition\<close>

definition page_wf :: "page \<Rightarrow> bool" where
  "page_wf p \<longleftrightarrow> wf_json (page_signature p)"

text \<open>A dictionary has each key once.\<close>

definition state_wf :: "state_file \<Rightarrow> bool" where
  "state_wf f \<longleftrightarrow> (case f of Holds (JDict d) \<Rightarrow> distinct (map fst d) | _ \<Rightarrow> True)"

definition state_of :: "state_file \<Rightarrow> dict" where
  "state_of f = (case load_state f of Some (d, _) \<Rightarrow> d | None \<Rightarrow> [])"

lemma state_of_distinct: "state_wf f \<Longrightarrow> distinct (map fst (state_of f))"
  by (auto simp: state_wf_def state_of_def load_state_def split: state_file.split json.split)

lemma page_recorded:
  assumes "record_notification isoformat p True now f = Some f'" and "state_wf f"
  obtains d prior where "f' = Holds (JDict d)" "dict_get d (page_key p) = JDict prior" "distinct (map fst d)"
    "dict_get prior ''signature'' = stored_json (page_signature p)"
    "dict_get prior ''last_notified_at'' = JStr (isoformat now)"
    "\<forall>k. k \<noteq> page_key p \<longrightarrow> dict_get d k = stored_json (dict_get (state_of f) k)"
proof -
  from assms(1) obtain state readable n where l: "load_state f = Some (state, readable)"
    and f': "f' = Holds (JDict (stored_dict (dict_set state (page_key p) (JDict [
       (''signature'', page_signature p), (''last_notified_at'', JStr (isoformat now)), (''notify_count'', JInt (n + 1)),
       (''device'', JStr (pg_device p)), (''subject'', JStr (pg_subject p))]))))" (is "_ = Holds (JDict (stored_dict (dict_set _ _ (JDict ?e))))")
    by (auto simp: record_notification_def save_state_def bind_Some_iff)
  define e where "e = ?e"
  define D where "D = dict_set state (page_key p) (JDict e)"
  have s: "state = state_of f" by (simp add: state_of_def l)
  have d: "distinct (map fst D)"
    unfolding D_def by (rule distinct_dict_set) (simp add: s state_of_distinct [OF assms(2)])
  have e: "distinct (map fst e)" by (simp add: e_def)
  show ?thesis
  proof (rule that)
    show "f' = Holds (JDict (stored_dict D))" by (simp add: f' D_def e_def)
    show "dict_get (stored_dict D) (page_key p) = JDict (stored_dict e)"
      unfolding get_stored [OF d] by (simp add: D_def stored_json_dict del: stored_json.simps)
    show "distinct (map fst (stored_dict D))" by (simp add: distinct_stored d)
    show "dict_get (stored_dict e) ''signature'' = stored_json (page_signature p)"
      unfolding get_stored [OF e] by (simp add: e_def dict_get_or_def del: stored_json.simps)
    show "dict_get (stored_dict e) ''last_notified_at'' = JStr (isoformat now)"
      unfolding get_stored [OF e] by (simp add: e_def dict_get_or_def)
    show "\<forall>k. k \<noteq> page_key p \<longrightarrow> dict_get (stored_dict D) k = stored_json (dict_get (state_of f) k)"
      unfolding get_stored [OF d] by (simp add: D_def s del: stored_json.simps)
  qed
qed

lemma told_after_record:
  assumes "record_notification (io_format io) p True t0 f = Some f'" and "state_wf f" and "rc_dedup c"
    and "io_parse io (io_format io t0) = Some (t0, True)" and "page_key q = page_key p"
  shows "already_told io c q t f' \<longleftrightarrow> py_eq (stored_json (page_signature p)) (page_signature q) \<and> t - t0 < rc_window c"
proof -
  from page_recorded [OF assms(1,2)] obtain d prior where "f' = Holds (JDict d)" "dict_get d (page_key p) = JDict prior"
    "dict_get prior ''signature'' = stored_json (page_signature p)"
    "dict_get prior ''last_notified_at'' = JStr (io_format io t0)" by blast
  with assms(3-5) show ?thesis by (simp add: already_told_def last_notified_def py_str_def)
qed

lemma evaluate_dedup_total: "f \<noteq> NotUtf8 \<Longrightarrow> evaluate_dedup fromiso p (Some f) w now \<noteq> None"
  by (auto simp: evaluate_dedup_def load_state_def split: state_file.splits json.splits)

definition routed :: "times_io \<Rightarrow> relay_config \<Rightarrow> page \<Rightarrow> routing option" where
  "routed io c p = Option.bind (resolve_ownership_table (rc_table c) (load_ownership_table (io_float io) (rc_table_file c)))
     (\<lambda>(t, _). resolve_ownership t (pg_device p) (pg_role p) (JStr (pg_finding p)) (pg_age p))"

lemma relay_None_iff:
  "relay io c p send w now f = None \<longleftrightarrow>
     (case routed io c p of None \<Rightarrow> True
      | Some rt \<Rightarrow> active_silence io c p now = None \<and> relay_open io c p (rt_owners rt) send w now f = None)"
  unfolding relay_def routed_def active_silence_def
  by (auto simp: bind_None_iff bind_Some_iff Let_def split: prod.splits option.splits if_splits)

lemma relay_open_None_iff:
  "relay_open io c p owners send w now f = None \<longleftrightarrow> rc_dedup c \<and>
     (f = NotUtf8 \<or> \<not> already_told io c p now f \<and> summarize (deliver_all owners None (rc_provider c) send) = Sent \<and>
        record_notification (io_format io) p w now f = None)"
proof (cases "evaluate_dedup (io_parse io) p (if rc_dedup c then Some f else None) (rc_window c) now")
  case None
  then have "rc_dedup c \<and> f = NotUtf8"
    using evaluate_dedup_total [of f "io_parse io" p "rc_window c" now] by (auto simp: evaluate_dedup_def split: if_splits)
  with None show ?thesis by (simp add: relay_open_def)
next
  case (Some dd)
  then have u: "\<not> (rc_dedup c \<and> f = NotUtf8)" by (auto simp: evaluate_dedup_def load_state_def)
  from Some u evaluate_dedup_told [OF Some] show ?thesis
    by (auto simp: relay_open_def bind_None_iff Let_def split: if_splits)
qed

lemma same_signature:
  assumes "page_wf p"
  shows "py_eq (stored_json (page_signature p)) (page_signature q) = py_eq (page_signature p) (page_signature q)"
  using py_eq_trans(1) stored_json_eq [of "page_signature p"] stored_json_eq' [of "page_signature p"] assms
  unfolding page_wf_def by blast

lemma suppressed_iff:
  "relay io c p send w now f = Some (r, f') \<Longrightarrow>
     rr_decision r = Suppressed \<longleftrightarrow> active_silence io c p now = None \<and> already_told io c p now f"
  by (erule relayE) (auto simp: summarize_def)

text \<open>A finding that was sent is not sent again within the window, and nothing else is held back by it.  After a
  delivery whose record was written, the same page is suppressed, without a change to the file, until
  the window has passed; then it is let through as a reminder.  A page for the same device and subject
  with another signature is let through at once, and the records of all other keys read as before.\<close>

theorem sent_pages_are_not_repeated:
  assumes "relay io c p send True t0 f = Some (r, f')" and "rr_decision r = Sent" and "rc_dedup c"
    and "state_wf f" and "page_wf p" and "io_parse io (io_format io t0) = Some (t0, True)"
  shows "(\<forall>t send' w. active_silence io c p t = None \<and> t < t0 + rc_window c \<longrightarrow>
      (\<exists>r'. relay io c p send' w t f' = Some (r', f') \<and> rr_decision r' = Suppressed)) \<and>
    (\<forall>q t send' w r' g. page_key q = page_key p \<and> (\<not> py_eq (page_signature p) (page_signature q) \<or> t0 + rc_window c \<le> t) \<and>
      relay io c q send' w t f' = Some (r', g) \<longrightarrow> rr_decision r' \<noteq> Suppressed) \<and>
    (\<forall>k. k \<noteq> page_key p \<longrightarrow> dict_get (state_of f') k = stored_json (dict_get (state_of f) k))"
proof (intro conjI allI impI)
  have rec: "record_notification (io_format io) p True t0 f = Some f'"
    using assms(1-3) by (auto elim!: relayE)
  note told = told_after_record [OF rec assms(4,3,6)]
  from page_recorded [OF rec assms(4)] obtain d where f': "f' = Holds (JDict d)"
    and others: "\<forall>k. k \<noteq> page_key p \<longrightarrow> dict_get d k = stored_json (dict_get (state_of f) k)" by blast
  show "dict_get (state_of f') k = stored_json (dict_get (state_of f) k)" if "k \<noteq> page_key p" for k
    using others that by (simp add: f' state_of_def load_state_def)
  show "\<exists>r'. relay io c p send' w t f' = Some (r', f') \<and> rr_decision r' = Suppressed"
    if t: "active_silence io c p t = None \<and> t < t0 + rc_window c" for t send' w
  proof -
    from t have a: "already_told io c p t f'"
      unfolding told [OF refl] using py_eq_refl(1) assms(5) by (simp add: same_signature page_wf_def)
    have "routed io c p \<noteq> None"
      using assms(1) relay_None_iff [of io c p send True t0 f] by (auto split: option.splits)
    with a have "relay io c p send' w t f' \<noteq> None"
      unfolding relay_None_iff relay_open_None_iff by (auto simp: f' split: option.splits)
    then obtain r' g where r': "relay io c p send' w t f' = Some (r', g)" by auto
    with a t suppressed_iff [OF r'] have "rr_decision r' = Suppressed" by simp
    with r' show ?thesis by (auto elim: relayE simp: summarize_def)
  qed
  show "rr_decision r' \<noteq> Suppressed"
    if "page_key q = page_key p \<and> (\<not> py_eq (page_signature p) (page_signature q) \<or> t0 + rc_window c \<le> t) \<and>
      relay io c q send' w t f' = Some (r', g)" for q t send' w r' g
    using told [of q t] suppressed_iff [of io c q send' w t f' r' g] that by (auto simp: same_signature [OF assms(5)])
qed

text \<open>When the relay raises.  Its documentation says that it never does; it does in exactly three cases: the
  ownership file makes the reader raise something else than its own error, and then nobody is told;
  the state file is not UTF-8, and then nobody is told either; or the page has been delivered and the
  count stored for it is no number, and then the delivery is not recorded.\<close>

theorem relay_raises_exactly:
  assumes "\<forall>t. rc_table c = Some t \<longrightarrow> table_ok t"
  shows "relay io c p send w now f = None \<longleftrightarrow>
    (rc_table c = None \<and> load_ownership_table (io_float io) (rc_table_file c) = Inl OtherError) \<or>
    (active_silence io c p now = None \<and> rc_dedup c \<and> f = NotUtf8) \<or>
    (active_silence io c p now = None \<and> rc_dedup c \<and> \<not> already_told io c p now f \<and>
       (\<exists>rt. routed io c p = Some rt \<and> summarize (deliver_all (rt_owners rt) None (rc_provider c) send) = Sent) \<and>
       (\<exists>prior. dict_get (state_of f) (page_key p) = JDict prior \<and> py_int (dict_get_or prior ''notify_count'' (JInt 0)) = None))"
proof -
  let ?load = "load_ownership_table (io_float io) (rc_table_file c)"
  have routed: "routed io c p = None \<longleftrightarrow> rc_table c = None \<and> ?load = Inl OtherError"
  proof (cases "resolve_ownership_table (rc_table c) ?load")
    case None
    then show ?thesis by (auto simp: routed_def resolve_ownership_table_def split: option.splits sum.splits ownership_error.splits)
  next
    case (Some te)
    then obtain t e where te: "resolve_ownership_table (rc_table c) ?load = Some (t, e)" by (cases te) auto
    then have "table_ok t" using assms default_table_ok load_ok
      by (auto simp: resolve_ownership_table_def split: option.splits sum.splits ownership_error.splits)
    from routing_of_ok [OF this] have "routed io c p \<noteq> None" by (force simp: routed_def te)
    moreover from te have "\<not> (rc_table c = None \<and> ?load = Inl OtherError)"
      by (auto simp: resolve_ownership_table_def)
    ultimately show ?thesis by blast
  qed
  have count: "record_notification (io_format io) p w now f = None \<longleftrightarrow> f = NotUtf8 \<or>
      (\<exists>prior. dict_get (state_of f) (page_key p) = JDict prior \<and> py_int (dict_get_or prior ''notify_count'' (JInt 0)) = None)"
    by (auto simp: record_notification_def bind_None_iff load_state_def state_of_def split: state_file.splits json.splits)
  show ?thesis
    unfolding relay_None_iff relay_open_None_iff count routed [symmetric] by (auto split: option.splits)
qed

definition lab_io :: times_io where
  "lab_io = \<lparr>io_format = (\<lambda>t. ''T''), io_parse = (\<lambda>s. if s = ''T'' then Some (5, True) else None), io_float = (\<lambda>_. None)\<rparr>"

definition lab_config :: relay_config where
  "lab_config = \<lparr>rc_silences = None, rc_silence_file = None, rc_table = None, rc_table_file = NoFile,
     rc_provider = Some ''telegram'', rc_dedup = True, rc_window = 100\<rparr>"

definition lab_page :: page where
  "lab_page = \<lparr>pg_device = ''P1'', pg_subject = ''Gi0'', pg_finding = ''down'', pg_cause = None, pg_role = JNull, pg_age = None\<rparr>"

definition lab_relay :: "int \<Rightarrow> state_file \<Rightarrow> (relay_result \<times> state_file) option" where
  "lab_relay = relay lab_io lab_config lab_page (\<lambda>_. Some (JList [JInt 1])) True"

lemma lab_relay_sent:
  "map_option (\<lambda>(r, f). (rr_decision r, map dl_message_ids (rr_deliveries r), f)) (lab_relay 5 Missing) =
     Some (Sent, [[JInt 1]], Holds (JDict [(page_key lab_page, JDict [(''device'', JStr ''P1''), (''last_notified_at'', JStr ''T''),
       (''notify_count'', JInt 1), (''signature'', JList [JStr ''down'', JNull]), (''subject'', JStr ''Gi0'')])]))"
  by code_simp

theorem relay_decides_witness:
  "\<exists>r f'. lab_relay 5 Missing = Some (r, f') \<and> rr_decision r = Sent \<and>
     active_silence lab_io lab_config lab_page 5 = None \<and> f' \<noteq> Missing"
proof -
  from lab_relay_sent obtain r f' where r: "lab_relay 5 Missing = Some (r, f')" "rr_decision r = Sent" "f' \<noteq> Missing"
    by auto
  with relay_decides [OF r(1) [unfolded lab_relay_def]] show ?thesis by auto
qed

theorem repeats_witness:
  "\<exists>r f' r'. lab_relay 5 Missing = Some (r, f') \<and> rr_decision r = Sent \<and>
     lab_relay 50 f' = Some (r', f') \<and> rr_decision r' = Suppressed"
proof -
  from lab_relay_sent obtain r f' where r: "lab_relay 5 Missing = Some (r, f')" "rr_decision r = Sent" by auto
  have c: "rc_dedup lab_config" "state_wf Missing" "page_wf lab_page" "io_parse lab_io (io_format lab_io 5) = Some (5, True)"
    "active_silence lab_io lab_config lab_page 50 = None" "50 < 5 + rc_window lab_config"
    by code_simp+
  from sent_pages_are_not_repeated [OF r(1) [unfolded lab_relay_def] r(2) c(1-4)] c(5,6) r show ?thesis
    unfolding lab_relay_def by blast
qed

theorem relay_raises_witness:
  "lab_relay 5 NotUtf8 = None \<and>
   lab_relay 5 (Holds (JDict [(page_key lab_page, JDict [(''notify_count'', JNull)])])) = None"
proof -
  have t: "rc_table lab_config = None" by code_simp
  have a: "active_silence lab_io lab_config lab_page 5 = None" "rc_dedup lab_config" by code_simp+
  have b: "\<not> already_told lab_io lab_config lab_page 5 (Holds (JDict [(page_key lab_page, JDict [(''notify_count'', JNull)])]))"
    by code_simp
  have c: "map_option (\<lambda>rt. summarize (deliver_all (rt_owners rt) None (rc_provider lab_config) (\<lambda>_. Some (JList [JInt 1]))))
      (routed lab_io lab_config lab_page) = Some Sent"
    by code_simp
  have d: "dict_get (state_of (Holds (JDict [(page_key lab_page, JDict [(''notify_count'', JNull)])]))) (page_key lab_page) =
      JDict [(''notify_count'', JNull)]" "py_int (dict_get_or [(''notify_count'', JNull)] ''notify_count'' (JInt 0)) = None"
    by code_simp+
  show ?thesis
    unfolding lab_relay_def using a b c d t
    by (subst (1 2) relay_raises_exactly) (auto simp: map_option_case split: option.splits)
qed

end
