(* ===== verification/Event_Routing.thy ===== *)
theory Event_Routing
  imports Py_Text
begin

section \<open>From a log line or an alert to a routing decision\<close>

text \<open>
  Models \<open>iosxr_syslog.py\<close> and \<open>event_routing.py\<close>: the one parser of a router's log line, what a message
  text says about subject and direction, and the decision whether an event is investigated.  A regular
  expression is a function from the text to its matches in the order Python's backtracking tries them,
  each with what it consumed and what is left; the first one counts.  The inventory's names, the JSON
  parser, the hash and the wording of a reason are arguments.
\<close>

subsection \<open>Matching\<close>

type_synonym rx = "string \<Rightarrow> (string \<times> string) list"

definition split_at :: "string \<Rightarrow> nat \<Rightarrow> string \<times> string" where
  "split_at s n = (take n s, drop n s)"

text \<open>\<open>p{lo,hi}\<close>, greedy.\<close>

definition between :: "nat \<Rightarrow> nat \<Rightarrow> (char \<Rightarrow> bool) \<Rightarrow> rx" where
  "between lo hi p s = map (split_at s) (rev [lo..<min (length (takeWhile p s)) hi + 1])"

definition many :: "(char \<Rightarrow> bool) \<Rightarrow> rx" where
  "many p s = between 0 (length s) p s"

definition many1 :: "(char \<Rightarrow> bool) \<Rightarrow> rx" where
  "many1 p s = between 1 (length s) p s"

definition count :: "nat \<Rightarrow> (char \<Rightarrow> bool) \<Rightarrow> rx" where
  "count n = between n n"

definition lit :: "string \<Rightarrow> rx" where
  "lit w s = (if starts_with w s then [split_at s (length w)] else [])"

text \<open>The same under \<open>IGNORECASE\<close>.\<close>

definition ilit :: "string \<Rightarrow> rx" where
  "ilit w s = (if starts_with (py_lower w) (py_lower s) then [split_at s (length w)] else [])"

fun rx_seq :: "rx list \<Rightarrow> rx" where
  "rx_seq [] s = [([], s)]"
| "rx_seq (m # ms) s = concat (map (\<lambda>(a, r). map (\<lambda>(b, r'). (a @ b, r')) (rx_seq ms r)) (m s))"

text \<open>\<open>re.search\<close>: the first match at the first position that has one.\<close>

fun rx_search :: "(string \<Rightarrow> 'a list) \<Rightarrow> string \<Rightarrow> 'a option" where
  "rx_search m [] = (case m [] of x # _ \<Rightarrow> Some x | [] \<Rightarrow> None)"
| "rx_search m (c # cs) = (case m (c # cs) of x # _ \<Rightarrow> Some x | [] \<Rightarrow> rx_search m cs)"

definition is_letter :: "char \<Rightarrow> bool" where
  "is_letter c \<longleftrightarrow> (CHR ''A'' \<le> c \<and> c \<le> CHR ''Z'') \<or> (CHR ''a'' \<le> c \<and> c \<le> CHR ''z'')"

text \<open>\<open>\w\<close>: a letter, a digit or another numeric character, or the underscore.\<close>

definition is_word :: "char \<Rightarrow> bool" where
  "is_word c \<longleftrightarrow> py_isalpha c \<or> is_digit c \<or> c = CHR ''_'' \<or> (of_char c :: nat) \<in> {178, 179, 185, 188, 189, 190}"

definition is_ident :: "char \<Rightarrow> bool" where
  "is_ident c \<longleftrightarrow> is_letter c \<or> is_digit c \<or> c = CHR ''_''"

definition nonspace :: "char \<Rightarrow> bool" where
  "nonspace c \<longleftrightarrow> \<not> py_isspace c"

subsection \<open>The log line\<close>

record syslog_line =
  sy_host :: "string option"
  sy_node :: string
  sy_timestamp :: string
  sy_process :: string
  sy_pid :: string
  sy_mnemonic :: string
  sy_text :: string

definition TIMESTAMP :: rx where
  "TIMESTAMP = rx_seq [count 3 is_word, many1 py_isspace, many1 is_digit, many1 py_isspace, count 2 is_digit,
     lit '':'', count 2 is_digit, lit '':'', count 2 is_digit, lit ''.'', many1 is_digit, many1 py_isspace, many1 is_word]"

text \<open>\<open>$\<close>: the end, or a last line feed.\<close>

definition at_end :: "string \<Rightarrow> bool" where
  "at_end s \<longleftrightarrow> s = [] \<or> s = [CHR 0x0A]"

definition line_body :: "string option \<Rightarrow> string \<Rightarrow> syslog_line list" where
  "line_body host s =
     [\<lparr>sy_host = host, sy_node = node, sy_timestamp = ts, sy_process = process, sy_pid = pid, sy_mnemonic = mn, sy_text = text\<rparr>.
       (node, r1) \<leftarrow> lit ''RP/0/RP0/CPU0'' s, (_, r2) \<leftarrow> lit '':'' r1, (ts, r3) \<leftarrow> TIMESTAMP r2, (_, r4) \<leftarrow> lit '': '' r3,
       (process, r5) \<leftarrow> many1 is_ident r4, (_, r6) \<leftarrow> lit ''['' r5, (pid, r7) \<leftarrow> many1 is_digit r6, (_, r8) \<leftarrow> lit '']: %'' r7,
       (mn, r9) \<leftarrow> many1 (\<lambda>c. is_ident c \<or> c = CHR ''-'') r8, (_, r10) \<leftarrow> lit '' : '' r9,
       (text, r11) \<leftarrow> many (\<lambda>c. c \<noteq> CHR 0x0A) r10, at_end r11]"

definition line_framed :: "string \<Rightarrow> syslog_line list" where
  "line_framed s = [m. (host, r1) \<leftarrow> many1 nonspace s, (_, r2) \<leftarrow> many1 py_isspace r1, m \<leftarrow> line_body (Some host) r2]"

definition match_iosxr_syslog_line :: "string \<Rightarrow> syslog_line option" where
  "match_iosxr_syslog_line line = (case line_framed line @ line_body None line of m # _ \<Rightarrow> Some m | [] \<Rightarrow> None)"

subsection \<open>What a message says\<close>

text \<open>\<open>ipaddress.IPv4Address\<close> of a text: it raises, or its \<open>str\<close> is the text again.\<close>

definition ipv4_octet :: "string \<Rightarrow> bool" where
  "ipv4_octet x \<longleftrightarrow> x \<noteq> [] \<and> list_all is_digit x \<and> length x \<le> 3 \<and> (x = ''0'' \<or> hd x \<noteq> CHR ''0'') \<and>
     (case parse_digits 0 x of Some n \<Rightarrow> n \<le> 255 | None \<Rightarrow> False)"

definition is_ipv4 :: "string \<Rightarrow> bool" where
  "is_ipv4 s \<longleftrightarrow> (let parts = split_on (CHR ''.'') s in length parts = 4 \<and> list_all ipv4_octet parts)"

definition NEIGHBOR :: "string \<Rightarrow> (string \<times> string) list" where
  "NEIGHBOR s = [(peer, direction). (_, r1) \<leftarrow> ilit ''neighbor'' s, (_, r2) \<leftarrow> many1 py_isspace r1,
     (peer, r3) \<leftarrow> many1 nonspace r2, (_, r4) \<leftarrow> many1 py_isspace r3, (direction, _) \<leftarrow> ilit ''Down'' r4 @ ilit ''Up'' r4]"

definition is_ifchar :: "char \<Rightarrow> bool" where
  "is_ifchar c \<longleftrightarrow> is_ident c \<or> c \<in> {CHR ''.'', CHR ''/'', CHR ''-''}"

definition INTERFACE_NAME :: rx where
  "INTERFACE_NAME = rx_seq [count 1 is_letter, between 0 62 is_ifchar]"

definition INTERFACE :: "string \<Rightarrow> string list" where
  "INTERFACE s = [name. (_, r1) \<leftarrow> lit ''Interface'' s, (_, r2) \<leftarrow> many1 py_isspace r1, (name, r3) \<leftarrow> INTERFACE_NAME r2,
     _ \<leftarrow> lit '','' r3]"

definition INTERFACE_TRANSITION :: "string \<Rightarrow> string list" where
  "INTERFACE_TRANSITION s = [direction. (_, r1) \<leftarrow> ilit ''Interface'' s, (_, r2) \<leftarrow> many1 py_isspace r1,
     (_, r3) \<leftarrow> INTERFACE_NAME r2, (_, r4) \<leftarrow> lit '','' r3, (_, r5) \<leftarrow> many py_isspace r4,
     (_, r6) \<leftarrow> ilit ''changed state to'' r5, (_, r7) \<leftarrow> many1 py_isspace r6, (direction, _) \<leftarrow> ilit ''Down'' r7 @ ilit ''Up'' r7]"

definition ipv4_subject :: "string \<Rightarrow> string option" where
  "ipv4_subject text = (case rx_search NEIGHBOR text of
     Some (peer, _) \<Rightarrow> if is_ipv4 peer then Some peer else None | None \<Rightarrow> None)"

definition interface_subject :: "string \<Rightarrow> string option" where
  "interface_subject text = rx_search INTERFACE text"

definition bgp_transition :: "string \<Rightarrow> string" where
  "bgp_transition text = (case rx_search NEIGHBOR text of Some (_, d) \<Rightarrow> py_lower d | None \<Rightarrow> ''unknown'')"

definition interface_transition :: "string \<Rightarrow> string" where
  "interface_transition text = (case rx_search INTERFACE_TRANSITION text of Some d \<Rightarrow> py_lower d | None \<Rightarrow> ''unknown'')"

definition TRANSITION_EXTRACTORS :: "(string \<times> (string \<Rightarrow> string)) list" where
  "TRANSITION_EXTRACTORS = [(''ROUTING-BGP-5-ADJCHANGE'', bgp_transition),
     (''PKT_INFRA-LINK-3-UPDOWN'', interface_transition), (''PKT_INFRA-LINEPROTO-5-UPDOWN'', interface_transition)]"

definition transition_for :: "string \<Rightarrow> string \<Rightarrow> string option" where
  "transition_for mnemonic text = map_option (\<lambda>f. f text) (map_of TRANSITION_EXTRACTORS mnemonic)"

subsection \<open>Decisions\<close>

definition MNEMONIC_FLOW_TABLE :: "(string \<times> string \<times> (string \<Rightarrow> string option)) list" where
  "MNEMONIC_FLOW_TABLE = [(''ROUTING-BGP-5-ADJCHANGE'', ''bgp_session'', ipv4_subject),
     (''PKT_INFRA-LINK-3-UPDOWN'', ''interface'', interface_subject),
     (''PKT_INFRA-LINEPROTO-5-UPDOWN'', ''interface'', interface_subject)]"

definition ALERTNAME_FLOW_TABLE :: "(string \<times> string) list" where
  "ALERTNAME_FLOW_TABLE = [(''BgpSessionDown'', ''bgp_session''), (''InterfaceDown'', ''interface'')]"

datatype why =
    NotALine | NotInTable string | NoDevice | NotInInventory json | NoSubjectInText | Recovery string
  | DirectionUnknown string | Routes json string | NoAlerts | AlertNotObject | ResolvedAlert | AlertNotInTable json
  | AlertDevice why | NoSubjectLabel | BadSubjectLabel json | UnparseableJson | NotAWebhook | EmptyInput

record decision =
  rd_routable :: bool
  rd_flow :: "string option"
  rd_device :: "string option"
  rd_subject :: "string option"
  rd_reason :: string
  rd_source :: string
  rd_matched :: json
  rd_transition :: "string option"
  rd_raw :: "string option"
  rd_ingest :: "string option"

definition refused :: "string \<Rightarrow> string \<Rightarrow> decision" where
  "refused source reason = \<lparr>rd_routable = False, rd_flow = None, rd_device = None, rd_subject = None, rd_reason = reason,
     rd_source = source, rd_matched = JNull, rd_transition = None, rd_raw = None, rd_ingest = None\<rparr>"

text \<open>\<open>str(value or "")\<close> of a field that is a text or nothing.\<close>

definition text_or_empty :: "string option \<Rightarrow> string" where
  "text_or_empty v = (case v of Some s \<Rightarrow> s | None \<Rightarrow> [])"

definition event_material :: "decision \<Rightarrow> string" where
  "event_material d =
     (let raw = text_or_empty (rd_raw d);
          raw_event = (case match_iosxr_syslog_line (py_strip raw) of
            Some m \<Rightarrow> py_join [CHR 0x1E] [sy_node m, sy_timestamp m, sy_process m, sy_pid m, sy_mnemonic m, sy_text m]
          | None \<Rightarrow> raw)
      in py_join [CHR 0x1F] [text_or_empty (rd_device d), py_str (py_or (rd_matched d) (JStr [])), text_or_empty (rd_transition d),
           text_or_empty (rd_subject d), raw_event])"

definition event_id :: "(string \<Rightarrow> string) \<Rightarrow> decision \<Rightarrow> string" where
  "event_id sha d = take 24 (sha (event_material d))"

text \<open>\<open>str\<close> of a field: a routable decision has all three.\<close>

definition str_of :: "string option \<Rightarrow> string" where
  "str_of v = (case v of Some s \<Rightarrow> s | None \<Rightarrow> ''None'')"

definition suggested_command :: "decision \<Rightarrow> string list option" where
  "suggested_command d = (if \<not> rd_routable d then None
     else Some [''nettools'', ''investigate'', str_of (rd_device d), str_of (rd_subject d), ''--flow'', str_of (rd_flow d)])"

definition is_interface_name :: "string \<Rightarrow> bool" where
  "is_interface_name s \<longleftrightarrow> (case s of [] \<Rightarrow> False | c # cs \<Rightarrow> is_letter c \<and> list_all is_ifchar cs \<and> length cs \<le> 62)"

definition validated_subject :: "json \<Rightarrow> string option" where
  "validated_subject v = (case v of
     JStr s \<Rightarrow> (let t = py_strip s in if is_ipv4 t then Some t else if is_interface_name t then Some t else None)
   | _ \<Rightarrow> None)"

definition validated_device :: "string list \<Rightarrow> json \<Rightarrow> why + string" where
  "validated_device known name = (case name of
     JStr (c # cs) \<Rightarrow> if (c # cs) \<in> set known then Inr (c # cs) else Inl (NotInInventory name)
   | _ \<Rightarrow> Inl NoDevice)"

definition json_of :: "string option \<Rightarrow> json" where
  "json_of v = (case v of Some s \<Rightarrow> JStr s | None \<Rightarrow> JNull)"

definition route_iosxr_envelope ::
  "(why \<Rightarrow> string) \<Rightarrow> string list \<Rightarrow> string \<Rightarrow> string \<Rightarrow> string option \<Rightarrow> string option \<Rightarrow> string option \<Rightarrow> decision" where
  "route_iosxr_envelope say known source raw mnemonic text device = (case (mnemonic, text) of
     (Some m, Some t) \<Rightarrow>
       (let base = (refused source [])\<lparr>rd_matched := JStr m, rd_raw := Some raw\<rparr>
        in case map_of MNEMONIC_FLOW_TABLE m of
             None \<Rightarrow> base\<lparr>rd_reason := say (NotInTable m)\<rparr>
           | Some (flow, extract) \<Rightarrow>
               (let tr = transition_for m t; base1 = base\<lparr>rd_flow := Some flow, rd_transition := tr\<rparr>
                in case validated_device known (json_of device) of
                     Inl problem \<Rightarrow> base1\<lparr>rd_reason := say problem\<rparr>
                   | Inr dev \<Rightarrow> (case extract t of
                         None \<Rightarrow> base1\<lparr>rd_device := Some dev, rd_reason := say NoSubjectInText\<rparr>
                       | Some sub \<Rightarrow>
                           (let base2 = base1\<lparr>rd_device := Some dev, rd_subject := Some sub\<rparr>
                            in if tr = Some ''up'' then base2\<lparr>rd_reason := say (Recovery m)\<rparr>
                               else if tr = Some ''unknown'' then base2\<lparr>rd_reason := say (DirectionUnknown m)\<rparr>
                               else base2\<lparr>rd_routable := True, rd_reason := say (Routes (JStr m) flow)\<rparr>))))
   | _ \<Rightarrow> (refused source (say NotALine))\<lparr>rd_raw := Some raw\<rparr>)"

definition text_field :: "dict \<Rightarrow> string \<Rightarrow> string option" where
  "text_field d k = (case dict_get d k of JStr s \<Rightarrow> Some s | _ \<Rightarrow> None)"

definition route_loki_record :: "(why \<Rightarrow> string) \<Rightarrow> string list \<Rightarrow> dict \<Rightarrow> string option \<Rightarrow> decision" where
  "route_loki_record say known rec device =
     (route_iosxr_envelope say known ''loki'' (text_or_empty (text_field rec ''raw_event'')) (text_field rec ''mnemonic'')
        (text_field rec ''text'') device)\<lparr>rd_ingest := text_field rec ''ingest_timestamp_ns''\<rparr>"

definition route_syslog_line :: "(why \<Rightarrow> string) \<Rightarrow> string list \<Rightarrow> string \<Rightarrow> string option \<Rightarrow> decision" where
  "route_syslog_line say known line device =
     (let m = match_iosxr_syslog_line (py_strip line)
      in route_iosxr_envelope say known ''syslog'' line (map_option sy_mnemonic m) (map_option sy_text m) device)"

definition route_alert :: "(why \<Rightarrow> string) \<Rightarrow> string list \<Rightarrow> json \<Rightarrow> decision" where
  "route_alert say known alert = (case alert of
     JDict a \<Rightarrow>
       (let labels = (case dict_get a ''labels'' of JDict d \<Rightarrow> d | _ \<Rightarrow> []);
            alertname = dict_get labels ''alertname'';
            base = (refused ''alertmanager'' [])\<lparr>rd_matched := alertname\<rparr>
        in if dict_get a ''status'' = JStr ''resolved'' then base\<lparr>rd_reason := say ResolvedAlert\<rparr>
           else case (case alertname of JStr n \<Rightarrow> map_of ALERTNAME_FLOW_TABLE n | _ \<Rightarrow> None) of
             None \<Rightarrow> base\<lparr>rd_reason := say (AlertNotInTable alertname)\<rparr>
           | Some flow \<Rightarrow>
               (let base1 = base\<lparr>rd_flow := Some flow\<rparr>
                in case validated_device known (py_or (dict_get labels ''device'') (dict_get labels ''instance'')) of
                     Inl problem \<Rightarrow> base1\<lparr>rd_reason := say (AlertDevice problem)\<rparr>
                   | Inr dev \<Rightarrow> (case validated_subject (dict_get labels ''subject'') of
                         None \<Rightarrow> base1\<lparr>rd_device := Some dev, rd_reason := say
                           (if truthy (dict_get labels ''subject'') then BadSubjectLabel (dict_get labels ''subject'') else NoSubjectLabel)\<rparr>
                       | Some sub \<Rightarrow> base1\<lparr>rd_routable := True, rd_device := Some dev, rd_subject := Some sub,
                           rd_reason := say (Routes alertname flow)\<rparr>)))
   | _ \<Rightarrow> refused ''alertmanager'' (say AlertNotObject))"

definition route_alertmanager :: "(why \<Rightarrow> string) \<Rightarrow> string list \<Rightarrow> dict \<Rightarrow> decision list" where
  "route_alertmanager say known payload = (case dict_get payload ''alerts'' of
     JList (a # as) \<Rightarrow> map (route_alert say known) (a # as)
   | _ \<Rightarrow> [refused ''alertmanager'' (say NoAlerts)])"

definition route_event ::
  "(why \<Rightarrow> string) \<Rightarrow> string list \<Rightarrow> (string \<Rightarrow> json option) \<Rightarrow> string \<Rightarrow> string option \<Rightarrow> decision list" where
  "route_event say known loads raw device =
     (let text = py_strip raw
      in if starts_with ''{'' text then (case loads text of
             None \<Rightarrow> [refused ''unknown'' (say UnparseableJson)]
           | Some (JDict payload) \<Rightarrow>
               if ''alerts'' \<in> fst ` set payload then route_alertmanager say known payload
               else [refused ''unknown'' (say NotAWebhook)]
           | Some _ \<Rightarrow> [refused ''unknown'' (say NotAWebhook)])
         else if text = [] then [refused ''unknown'' (say EmptyInput)]
         else [route_syslog_line say known text device])"

subsection \<open>What a match consumes\<close>

lemma between_D:
  "(a, r) \<in> set (between lo hi p s) \<Longrightarrow> s = a @ r \<and> list_all p a \<and> lo \<le> length a \<and> length a \<le> hi"
proof -
  assume "(a, r) \<in> set (between lo hi p s)"
  then have "(a, r) \<in> split_at s ` {lo..<min (length (takeWhile p s)) hi + 1}"
    by (simp only: between_def set_map set_rev set_upt)
  then obtain n where "(a, r) = split_at s n" "n \<in> {lo..<min (length (takeWhile p s)) hi + 1}" by (rule imageE)
  then have n: "a = take n s" "r = drop n s" "lo \<le> n" and le: "n < Suc (min (length (takeWhile p s)) hi)"
    by (simp_all add: split_at_def)
  from le have m: "n \<le> length (takeWhile p s)" "n \<le> hi" by simp_all
  from m(1) have "take n (takeWhile p s @ dropWhile p s) = take n (takeWhile p s)"
    by (simp del: takeWhile_dropWhile_id)
  with n(1) have "a = take n (takeWhile p s)" by simp
  then have "list_all p a" by (auto simp: list_all_iff dest: in_set_takeD set_takeWhileD)
  moreover have "length a = n" using n(1) m(1) length_takeWhile_le [of p s] by simp
  ultimately show ?thesis using n m by simp
qed

lemma lit_D: "(a, r) \<in> set (lit w s) \<Longrightarrow> a = w \<and> s = w @ r"
  by (auto simp: lit_def split_at_def starts_with_iff split: if_splits)

lemma ilit_D: "(a, r) \<in> set (ilit w s) \<Longrightarrow> py_lower a = py_lower w"
proof -
  assume "(a, r) \<in> set (ilit w s)"
  then obtain t where "py_lower s = py_lower w @ t" "a = take (length w) s"
    by (auto simp: ilit_def split_at_def starts_with_iff split: if_splits)
  then show ?thesis by (simp add: py_lower_def take_map [symmetric])
qed

lemma rx_search_D: "rx_search m s = Some x \<Longrightarrow> \<exists>t. x \<in> set (m t)"
proof (induction s)
  case (Cons c cs)
  show ?case
  proof (cases "m (c # cs)")
    case (Cons y ys)
    with \<open>rx_search m (c # cs) = Some x\<close> show ?thesis by (intro exI [of _ "c # cs"]) simp
  qed (use Cons in simp)
qed (auto split: list.splits intro: exI [of _ "[]"])

lemma INTERFACE_NAME_D: "(a, r) \<in> set (INTERFACE_NAME s) \<Longrightarrow> is_interface_name a"
proof -
  assume "(a, r) \<in> set (INTERFACE_NAME s)"
  then obtain b t c q where "(b, t) \<in> set (count 1 is_letter s)" "(c, q) \<in> set (between 0 62 is_ifchar t)" "a = b @ c"
    by (auto simp: INTERFACE_NAME_def)
  with between_D [of b t 1 1 is_letter s] between_D [of c q 0 62 is_ifchar t] show ?thesis
    by (cases b) (auto simp: count_def is_interface_name_def)
qed

lemma interface_subject_valid: "interface_subject t = Some s \<Longrightarrow> is_interface_name s"
  unfolding interface_subject_def by (drule rx_search_D) (auto simp: INTERFACE_def dest: INTERFACE_NAME_D)

lemma ipv4_subject_valid: "ipv4_subject t = Some s \<Longrightarrow> is_ipv4 s"
  by (auto simp: ipv4_subject_def split: option.splits if_splits)

lemma extractor_valid:
  "map_of MNEMONIC_FLOW_TABLE m = Some (flow, extract) \<Longrightarrow> extract t = Some s \<Longrightarrow> is_ipv4 s \<or> is_interface_name s"
  using interface_subject_valid ipv4_subject_valid by (auto simp: MNEMONIC_FLOW_TABLE_def split: if_splits)

lemma lower_words: "py_lower ''Down'' = ''down''" "py_lower ''Up'' = ''up''"
  by code_simp+

lemma bgp_transition_values: "bgp_transition t \<in> {''down'', ''up'', ''unknown''}"
proof (cases "rx_search NEIGHBOR t")
  case (Some x)
  then obtain peer d where x: "rx_search NEIGHBOR t = Some (peer, d)" by (cases x) auto
  from rx_search_D [OF this] obtain q r where "(d, r) \<in> set (ilit ''Down'' q) \<or> (d, r) \<in> set (ilit ''Up'' q)"
    by (auto simp: NEIGHBOR_def)
  then have "py_lower d \<in> {''down'', ''up''}" using ilit_D lower_words by fastforce
  then show ?thesis by (auto simp: bgp_transition_def x)
qed (simp add: bgp_transition_def)

lemma interface_transition_values: "interface_transition t \<in> {''down'', ''up'', ''unknown''}"
proof (cases "rx_search INTERFACE_TRANSITION t")
  case (Some d)
  from rx_search_D [OF this] obtain q r where "(d, r) \<in> set (ilit ''Down'' q) \<or> (d, r) \<in> set (ilit ''Up'' q)"
    by (auto simp: INTERFACE_TRANSITION_def)
  then have "py_lower d \<in> {''down'', ''up''}" using ilit_D lower_words by fastforce
  then show ?thesis by (auto simp: interface_transition_def Some)
qed (simp add: interface_transition_def)

lemma routed_mnemonics_have_direction:
  "map_of MNEMONIC_FLOW_TABLE m = Some e \<Longrightarrow> transition_for m t \<in> {Some ''down'', Some ''up'', Some ''unknown''}"
  using bgp_transition_values [of t] interface_transition_values [of t]
  by (auto simp: MNEMONIC_FLOW_TABLE_def transition_for_def TRANSITION_EXTRACTORS_def split: if_splits)

lemma set_split_on: "c \<in> set s \<Longrightarrow> c = sep \<or> (\<exists>p\<in>set (split_on sep s). c \<in> set p)"
  by (induction s) (auto split: list.splits)

lemma subject_chars:
  assumes "is_ipv4 s \<or> is_interface_name s"
  shows "s \<noteq> [] \<and> list_all is_ifchar s"
proof (cases "is_ipv4 s")
  case True
  then have d: "\<forall>p\<in>set (split_on (CHR ''.'') s). list_all is_digit p" and l: "length (split_on (CHR ''.'') s) = 4"
    by (auto simp: is_ipv4_def ipv4_octet_def list_all_iff Let_def)
  from l have "s \<noteq> []" by auto
  moreover have "is_ifchar c" if "c \<in> set s" for c
    using that d set_split_on [of c s "CHR ''.''"] by (auto simp: list_all_iff is_ifchar_def is_ident_def)
  ultimately show ?thesis by (simp add: list_all_iff)
next
  case False
  with assms show ?thesis by (cases s) (auto simp: is_interface_name_def is_ifchar_def is_ident_def)
qed

lemma validated_device_known: "validated_device known name = Inr d \<Longrightarrow> name = JStr d \<and> d \<in> set known"
  by (auto simp: validated_device_def split: json.splits list.splits if_splits)

lemma validated_subject_valid: "validated_subject v = Some s \<Longrightarrow> is_ipv4 s \<or> is_interface_name s"
  by (auto simp: validated_subject_def Let_def split: json.splits if_splits)

subsection \<open>Only safe decisions are routable\<close>

definition safe_decision :: "string list \<Rightarrow> decision \<Rightarrow> bool" where
  "safe_decision known d \<longleftrightarrow> (\<exists>dev sub flow. rd_device d = Some dev \<and> dev \<in> set known \<and>
     rd_subject d = Some sub \<and> (is_ipv4 sub \<or> is_interface_name sub) \<and> list_all is_ifchar sub \<and> sub \<noteq> [] \<and>
     rd_flow d = Some flow \<and> flow \<in> {''bgp_session'', ''interface''} \<and>
     suggested_command d = Some [''nettools'', ''investigate'', dev, sub, ''--flow'', flow])"

text \<open>What a routable decision says of a line, of the transport beside it, and of an alert.\<close>

definition line_backs :: "string \<Rightarrow> string option \<Rightarrow> decision \<Rightarrow> bool" where
  "line_backs line device d \<longleftrightarrow> rd_source d = ''syslog'' \<and> device = rd_device d \<and> rd_transition d = Some ''down'' \<and>
     (\<exists>m. match_iosxr_syslog_line line = Some m \<and> transition_for (sy_mnemonic m) (sy_text m) = Some ''down'')"

definition alert_backs :: "json \<Rightarrow> decision \<Rightarrow> bool" where
  "alert_backs alert d \<longleftrightarrow> rd_source d = ''alertmanager'' \<and> (\<exists>a labels n s flow. alert = JDict a \<and> dict_get a ''status'' \<noteq> JStr ''resolved'' \<and>
     dict_get a ''labels'' = JDict labels \<and> dict_get labels ''alertname'' = JStr n \<and>
     map_of ALERTNAME_FLOW_TABLE n = Some flow \<and> rd_flow d = Some flow \<and>
     py_or (dict_get labels ''device'') (dict_get labels ''instance'') = json_of (rd_device d) \<and>
     dict_get labels ''subject'' = JStr s \<and> rd_subject d = Some (py_strip s))"

lemma flows_declared: "map_of MNEMONIC_FLOW_TABLE m = Some (flow, extract) \<Longrightarrow> flow \<in> {''bgp_session'', ''interface''}"
  by (auto simp: MNEMONIC_FLOW_TABLE_def split: if_splits)

lemma alert_flows_declared: "map_of ALERTNAME_FLOW_TABLE m = Some flow \<Longrightarrow> flow \<in> {''bgp_session'', ''interface''}"
  by (auto simp: ALERTNAME_FLOW_TABLE_def split: if_splits)

lemma envelope_safe:
  assumes "rd_routable (route_iosxr_envelope say known source raw mnemonic text device)"
  shows "safe_decision known (route_iosxr_envelope say known source raw mnemonic text device) \<and>
    device = rd_device (route_iosxr_envelope say known source raw mnemonic text device) \<and>
    rd_source (route_iosxr_envelope say known source raw mnemonic text device) = source \<and>
    rd_transition (route_iosxr_envelope say known source raw mnemonic text device) = Some ''down'' \<and>
    (\<exists>m t. mnemonic = Some m \<and> text = Some t \<and> transition_for m t = Some ''down'')"
proof -
  from assms obtain m t flow ext dev sub where m: "mnemonic = Some m" "text = Some t"
    and e: "map_of MNEMONIC_FLOW_TABLE m = Some (flow, ext)" and d: "validated_device known (json_of device) = Inr dev"
    and s: "ext t = Some sub" and tr: "transition_for m t \<noteq> Some ''up''" "transition_for m t \<noteq> Some ''unknown''"
    by (auto simp: route_iosxr_envelope_def refused_def Let_def split: option.splits sum.splits prod.splits if_splits)
  from routed_mnemonics_have_direction [OF e, of t] tr have "transition_for m t = Some ''down''" by auto
  moreover from validated_device_known [OF d] have dev: "device = Some dev" "dev \<in> set known"
    by (auto simp: json_of_def split: option.splits)
  moreover from d have "validated_device known (JStr dev) = Inr dev" by (simp add: dev(1) json_of_def)
  moreover note extractor_valid [OF e s] subject_chars [OF extractor_valid [OF e s]] flows_declared [OF e]
  ultimately show ?thesis unfolding safe_decision_def
    by (simp add: route_iosxr_envelope_def refused_def Let_def json_of_def m e s suggested_command_def str_of_def)
qed

lemma line_safe:
  assumes "rd_routable (route_syslog_line say known line device)"
  shows "safe_decision known (route_syslog_line say known line device) \<and>
    line_backs (py_strip line) device (route_syslog_line say known line device)"
  using envelope_safe [OF assms [unfolded route_syslog_line_def Let_def]]
  by (auto simp: route_syslog_line_def Let_def line_backs_def)

lemma alert_safe:
  assumes "rd_routable (route_alert say known alert)"
  shows "safe_decision known (route_alert say known alert) \<and> alert_backs alert (route_alert say known alert)"
proof -
  from assms obtain a where a: "alert = JDict a" by (cases alert) (simp_all add: route_alert_def refused_def)
  define labels where "labels = (case dict_get a ''labels'' of JDict d \<Rightarrow> d | _ \<Rightarrow> [])"
  from assms obtain n flow dev sub where n: "dict_get labels ''alertname'' = JStr n" "map_of ALERTNAME_FLOW_TABLE n = Some flow"
    and d: "validated_device known (py_or (dict_get labels ''device'') (dict_get labels ''instance'')) = Inr dev"
    and s: "validated_subject (dict_get labels ''subject'') = Some sub" and r: "dict_get a ''status'' \<noteq> JStr ''resolved''"
    by (simp add: a route_alert_def refused_def Let_def labels_def [symmetric]
        split: option.splits sum.splits if_splits json.splits) 
  have dec: "route_alert say known alert = (refused ''alertmanager'' [])\<lparr>rd_matched := JStr n, rd_flow := Some flow,
      rd_routable := True, rd_device := Some dev, rd_subject := Some sub, rd_reason := say (Routes (JStr n) flow)\<rparr>"
    by (simp add: a route_alert_def Let_def labels_def [symmetric] n d s r)
  from n(1) have l: "dict_get a ''labels'' = JDict labels"
    by (cases "dict_get a ''labels''") (simp_all add: labels_def dict_get_or_def)
  from s obtain t where t: "dict_get labels ''subject'' = JStr t" "sub = py_strip t"
    by (auto simp: validated_subject_def Let_def split: json.splits if_splits)
  have "safe_decision known (route_alert say known alert)" unfolding safe_decision_def dec
    using validated_device_known [OF d] validated_subject_valid [OF s] subject_chars [OF validated_subject_valid [OF s]]
      alert_flows_declared [OF n(2)]
    by (simp add: refused_def suggested_command_def str_of_def)
  moreover have "alert_backs alert (route_alert say known alert)" unfolding alert_backs_def dec
    using a l n r t validated_device_known [OF d] by (simp add: refused_def json_of_def)
  ultimately show ?thesis by simp
qed

text \<open>C37: What reaches an investigation is safe, and something that is wrong now.  Whatever the event is, a line,
  a webhook or garbage, a routable decision is about a device of the inventory and a subject that is
  an IPv4 address or an interface name, so the suggested command holds no character a shell would
  interpret beside the inventory's own name.  It comes either from a parsed log line whose message
  reports something going down, and then the device is the one the transport supplied, never one
  of the message; or from one of the webhook's alerts that is not marked resolved, whose name is in the
  table of flows, and then device and subject are those of that alert's labels.\<close>

theorem routed_events_are_safe:
  assumes "d \<in> set (route_event say known loads raw device)" and "rd_routable d"
  shows "(\<exists>dev sub flow. rd_device d = Some dev \<and> dev \<in> set known \<and> rd_subject d = Some sub \<and>
      (is_ipv4 sub \<or> is_interface_name sub) \<and> list_all is_ifchar sub \<and>
      rd_flow d = Some flow \<and> flow \<in> {''bgp_session'', ''interface''} \<and>
      suggested_command d = Some [''nettools'', ''investigate'', dev, sub, ''--flow'', flow]) \<and>
    (rd_source d = ''syslog'' \<and> device = rd_device d \<and> rd_transition d = Some ''down'' \<and>
       (\<exists>m. match_iosxr_syslog_line (py_strip raw) = Some m \<and> transition_for (sy_mnemonic m) (sy_text m) = Some ''down'')
     \<or> rd_source d = ''alertmanager'' \<and>
       (\<exists>p as a labels n s flow. loads (py_strip raw) = Some (JDict p) \<and> dict_get p ''alerts'' = JList as \<and> JDict a \<in> set as \<and>
          dict_get a ''status'' \<noteq> JStr ''resolved'' \<and> dict_get a ''labels'' = JDict labels \<and>
          dict_get labels ''alertname'' = JStr n \<and> map_of ALERTNAME_FLOW_TABLE n = Some flow \<and> rd_flow d = Some flow \<and>
          py_or (dict_get labels ''device'') (dict_get labels ''instance'') = json_of (rd_device d) \<and>
          dict_get labels ''subject'' = JStr s \<and> rd_subject d = Some (py_strip s)))"
proof -
  have r: "\<not> rd_routable (refused source reason)" for source reason by (simp add: refused_def)
  have am: "safe_decision known d \<and> (\<exists>as alert. dict_get p ''alerts'' = JList as \<and> alert \<in> set as \<and> alert_backs alert d)"
    if "d \<in> set (route_alertmanager say known p)" for p
  proof -
    have "\<exists>as alert. dict_get p ''alerts'' = JList as \<and> alert \<in> set as \<and> d = route_alert say known alert"
    proof (cases "\<exists>b bs. dict_get p ''alerts'' = JList (b # bs)")
      case True
      with that show ?thesis by (auto simp: route_alertmanager_def)
    next
      case False
      with that have "d = refused ''alertmanager'' (say NoAlerts)"
        by (auto simp: route_alertmanager_def split: json.splits list.splits)
      with r assms(2) show ?thesis by simp
    qed
    with alert_safe assms(2) show ?thesis by blast
  qed
  have "(\<exists>p. loads (py_strip raw) = Some (JDict p) \<and> d \<in> set (route_alertmanager say known p)) \<or>
      d = route_syslog_line say known (py_strip raw) device"
    using assms r by (auto simp: route_event_def Let_def split: if_splits option.splits json.splits)
  then show ?thesis
  proof (elim disjE exE conjE)
    fix p
    assume p: "loads (py_strip raw) = Some (JDict p)" "d \<in> set (route_alertmanager say known p)"
    from am [OF p(2)] p(1) show ?thesis unfolding safe_decision_def alert_backs_def by fastforce
  next
    assume l: "d = route_syslog_line say known (py_strip raw) device"
    from line_safe [of say known "py_strip raw" device, folded l, OF assms(2)]
    show ?thesis unfolding safe_decision_def line_backs_def py_strip_idem by blast
  qed
qed

subsection \<open>Transport framing\<close>

lemma body_start: "line_body host s \<noteq> [] \<Longrightarrow> \<exists>t. s = CHR ''R'' # t"
proof -
  assume "line_body host s \<noteq> []"
  then have "lit ''RP/0/RP0/CPU0'' s \<noteq> []" by (auto simp: line_body_def)
  then show ?thesis by (auto simp: lit_def starts_with_iff split: if_splits)
qed

lemma body_host: "line_body host s = map (\<lambda>m. m\<lparr>sy_host := host\<rparr>) (line_body None s)"
  by (simp add: line_body_def map_concat comp_def case_prod_unfold if_distrib cong: if_cong)

text \<open>A greedy run of nonempty length whose shorter prefixes lead nowhere.\<close>

lemma many1_longest:
  assumes "takeWhile p s = w" and "w \<noteq> []"
    and "\<And>k. 0 < k \<Longrightarrow> k < length w \<Longrightarrow> f (take k s) (drop k s) = []"
  shows "concat (map (\<lambda>(a, r). f a r) (many1 p s)) = f (take (length w) s) (drop (length w) s)"
proof -
  have l: "length w \<le> length s" using assms(1) length_takeWhile_le [of p s] by simp
  have "rev [1..<length w + 1] = length w # rev [1..<length w]" using assms(2) by (cases w) simp_all
  moreover have "concat (map (\<lambda>k. f (take k s) (drop k s)) (rev [1..<length w])) = []"
    using assms(3) by (auto simp: concat_eq_Nil_conv)
  ultimately show ?thesis using l
    by (simp add: many1_def between_def assms(1) split_at_def comp_def min_absorb1 del: upt_Suc)
qed

lemma framed_line:
  assumes "host \<noteq> []" and "list_all nonspace host" and "gap \<noteq> []" and "list_all py_isspace gap"
    and "line = CHR ''R'' # t"
  shows "line_framed (host @ gap @ line) = line_body (Some host) line"
proof -
  obtain g gs where g: "gap = g # gs" using assms(3) by (cases gap) auto
  have R: "nonspace (CHR ''R'')" by code_simp
  have h: "takeWhile nonspace (host @ gap @ line) = host"
    using assms(2,4) by (simp add: g takeWhile_append nonspace_def list_all_iff)
  have w: "takeWhile py_isspace (gap @ line) = gap"
    using assms(4) R by (simp add: takeWhile_append list_all_iff assms(5) nonspace_def)
  have inner: "[m. (_, r2) \<leftarrow> many1 py_isspace (gap @ line), m \<leftarrow> line_body (Some n) r2] = line_body (Some n) line" for n
  proof -
    have "line_body (Some n) (drop k (gap @ line)) = []" if k: "k < length gap" for k
    proof (rule ccontr)
      assume "line_body (Some n) (drop k (gap @ line)) \<noteq> []"
      from body_start [OF this] obtain u where "drop k gap @ line = CHR ''R'' # u"
        using k by auto
      moreover have "drop k gap = gap ! k # drop (Suc k) gap" using k by (simp add: Cons_nth_drop_Suc)
      ultimately have "gap ! k = CHR ''R''" by simp
      with k assms(4) R show False by (auto simp: nonspace_def list_all_iff dest!: nth_mem)
    qed
    with many1_longest [OF w assms(3), of "\<lambda>_. line_body (Some n)"] show ?thesis by simp
  qed
  have none: "many1 py_isspace (drop k host @ gap @ line) = []" if "k < length host" for k
  proof -
    have "drop k host = host ! k # drop (Suc k) host" using that by (simp add: Cons_nth_drop_Suc)
    moreover have "\<not> py_isspace (host ! k)" using that assms(2) by (auto simp: nonspace_def list_all_iff dest: nth_mem)
    ultimately show ?thesis using that by (simp add: many1_def between_def)
  qed
  let ?f = "\<lambda>n r. [m. (_, r2) \<leftarrow> many1 py_isspace r, m \<leftarrow> line_body (Some n) r2]"
  have "line_framed (host @ gap @ line) = concat (map (\<lambda>(n, r). ?f n r) (many1 nonspace (host @ gap @ line)))"
    by (simp add: line_framed_def)
  also have "\<dots> = ?f (take (length host) (host @ gap @ line)) (drop (length host) (host @ gap @ line))"
    by (rule many1_longest [OF h assms(1)]) (simp add: none)
  also have "\<dots> = line_body (Some host) line" using inner [of host] by simp
  finally show ?thesis .
qed

lemma framed_host: "m \<in> set (line_framed s) \<Longrightarrow> sy_host m \<noteq> None"
  by (auto simp: line_framed_def line_body_def)

lemma strip_fixed: "py_strip s = s \<longleftrightarrow> s = [] \<or> nonspace (hd s) \<and> nonspace (last s)"
proof (cases s)
  case (Cons c cs)
  have len: "length (py_strip s) \<le> length (dropWhile py_isspace s)"
    using length_dropWhile_le [of py_isspace "rev (dropWhile py_isspace s)"] by (simp add: py_strip_def)
  show ?thesis
  proof (cases "py_isspace c")
    case True
    have "length (dropWhile py_isspace s) < length s"
      using True length_dropWhile_le [of py_isspace cs] by (simp add: Cons le_imp_less_Suc)
    with len have "py_strip s \<noteq> s" by (metis leD)
    with True Cons show ?thesis by (simp add: nonspace_def)
  next
    case False
    then have d: "dropWhile py_isspace s = s" by (simp add: Cons)
    have "py_strip s = s \<longleftrightarrow> dropWhile py_isspace (rev s) = rev s" by (simp add: py_strip_def d) (metis rev_swap)
    also have "\<dots> \<longleftrightarrow> \<not> py_isspace (last s)" using Cons by (simp add: dropWhile_eq_self_iff hd_rev)
    finally show ?thesis using Cons False by (simp add: nonspace_def)
  qed
qed simp

lemma framed_decision:
  assumes "match_iosxr_syslog_line line = Some m" and "sy_host m = None" and "py_strip line = line"
    and "host \<noteq> []" and "list_all nonspace host" and "gap \<noteq> []" and "list_all py_isspace gap"
  shows "let framed = host @ gap @ line; d = route_syslog_line say known line device;
           d' = route_syslog_line say known framed device
         in match_iosxr_syslog_line framed = Some (m\<lparr>sy_host := Some host\<rparr>) \<and>
            d' = d\<lparr>rd_raw := Some framed\<rparr> \<and> event_id sha d' = event_id sha d"
proof -
  let ?framed = "host @ gap @ line"
  have unframed: "line_framed line = []"
    using assms(1,2) framed_host [of _ line] by (cases "line_framed line") (auto simp: match_iosxr_syslog_line_def)
  with assms(1) obtain ms where body: "line_body None line = m # ms"
    by (auto simp: match_iosxr_syslog_line_def split: list.splits)
  then obtain t where line: "line = CHR ''R'' # t" using body_start [of None line] by auto
  have mf: "match_iosxr_syslog_line ?framed = Some (m\<lparr>sy_host := Some host\<rparr>)"
    unfolding match_iosxr_syslog_line_def framed_line [OF assms(4-7) line] by (simp add: body_host [of "Some host"] body)
  have "nonspace (last line)" using assms(3) by (simp add: strip_fixed line)
  moreover have "nonspace (hd host)" using assms(4,5) by (cases host) auto
  ultimately have strip: "py_strip ?framed = ?framed" unfolding strip_fixed using assms(4) by (simp add: line)
  have d': "route_syslog_line say known ?framed device = (route_syslog_line say known line device)\<lparr>rd_raw := Some ?framed\<rparr>"
    unfolding route_syslog_line_def strip assms(3) mf assms(1)
    by (auto simp: route_iosxr_envelope_def refused_def Let_def split: option.split sum.split)
  have raw: "rd_raw (route_syslog_line say known line device) = Some line"
    by (auto simp: route_syslog_line_def route_iosxr_envelope_def refused_def Let_def split: option.split sum.split)
  have "event_id sha (route_syslog_line say known ?framed device) = event_id sha (route_syslog_line say known line device)"
    unfolding event_id_def event_material_def d' by (simp add: raw text_or_empty_def strip assms(1,3) mf)
  with mf d' show ?thesis by (simp add: Let_def)
qed

text \<open>The transport's framing does not matter.  A line as the router's own buffer has it and the same line with
  the host name the log forwarder puts before it are parsed to the same fields and get the same
  decision, apart from the raw text, under the same event identity; so one event that arrives by two
  ways is stored once.\<close>

theorem framing_does_not_matter:
  assumes "match_iosxr_syslog_line line = Some m" and "sy_host m = None" and "py_strip line = line"
    and "host \<noteq> []" and "list_all nonspace host" and "gap \<noteq> []" and "list_all py_isspace gap"
  shows "let framed = host @ gap @ line; d = route_syslog_line say known line device;
           d' = route_syslog_line say known framed device
         in match_iosxr_syslog_line framed = Some (m\<lparr>sy_host := Some host\<rparr>) \<and>
            d' = d\<lparr>rd_raw := Some framed\<rparr> \<and> event_id sha d' = event_id sha d"
  by (rule framed_decision [OF assms])

definition flap_line :: string where
  "flap_line = ''RP/0/RP0/CPU0:Aug  8 10:11:12.123 UTC: bgp[1066]: %ROUTING-BGP-5-ADJCHANGE : neighbor 10.255.0.1 Down''"

definition flap_match :: syslog_line where
  "flap_match = \<lparr>sy_host = None, sy_node = ''RP/0/RP0/CPU0'', sy_timestamp = ''Aug  8 10:11:12.123 UTC'', sy_process = ''bgp'',
     sy_pid = ''1066'', sy_mnemonic = ''ROUTING-BGP-5-ADJCHANGE'', sy_text = ''neighbor 10.255.0.1 Down''\<rparr>"

lemma flap_matches: "match_iosxr_syslog_line flap_line = Some flap_match"
  by code_simp

theorem framing_witness:
  "match_iosxr_syslog_line (''pe2'' @ '' '' @ flap_line) = Some (flap_match\<lparr>sy_host := Some ''pe2''\<rparr>)"
proof -
  have c: "sy_host flap_match = None" "py_strip flap_line = flap_line" "''pe2'' \<noteq> []" "list_all nonspace ''pe2''"
    "'' '' \<noteq> []" "list_all py_isspace '' ''"
    by code_simp+
  from framing_does_not_matter [OF flap_matches c] show ?thesis by (simp add: Let_def)
qed

theorem routed_witness:
  "\<exists>d. route_event (\<lambda>_. []) [''PE2''] (\<lambda>_. None) flap_line (Some ''PE2'') = [d] \<and> rd_routable d \<and>
     suggested_command d = Some [''nettools'', ''investigate'', ''PE2'', ''10.255.0.1'', ''--flow'', ''bgp_session'']"
proof -
  have "(case route_event (\<lambda>_. []) [''PE2''] (\<lambda>_. None) flap_line (Some ''PE2'') of [d] \<Rightarrow>
      rd_routable d \<and> rd_subject d = Some ''10.255.0.1'' \<and> rd_flow d = Some ''bgp_session'' | _ \<Rightarrow> False)"
    by code_simp
  then obtain d where d: "route_event (\<lambda>_. []) [''PE2''] (\<lambda>_. None) flap_line (Some ''PE2'') = [d]" "rd_routable d"
    "rd_subject d = Some ''10.255.0.1''" "rd_flow d = Some ''bgp_session''"
    by (auto split: list.splits)
  then have "d \<in> set (route_event (\<lambda>_. []) [''PE2''] (\<lambda>_. None) flap_line (Some ''PE2''))" by simp
  from routed_events_are_safe [OF this d(2), THEN conjunct1] d show ?thesis by auto
qed

end
