(* ===== verification/Event_Intake.thy ===== *)
theory Event_Intake
  imports Event_Routing Event_Recovery
begin

section \<open>Event intake: envelopes and the authenticated receiver\<close>

text \<open>
  Models \<open>event_envelope.py\<close> and \<open>receive_syslog\<close> of \<open>event_receiver.py\<close> over the event store.  The hash
  of an event identity, the keyed hash of a body, the UTF-8 decoder, the wording of a routing reason
  and the writer and reader of ISO timestamps are arguments; a body is its list of bytes.
\<close>

subsection \<open>Envelopes\<close>

record envelope =
  en_version :: json
  en_id :: string
  en_source :: string
  en_received_at :: string
  en_device :: "string option"
  en_object_type :: "string option"
  en_subject :: "string option"
  en_matched :: json
  en_transition :: "string option"
  en_raw :: "string option"
  en_device_time :: "string option"
  en_timestamp :: "string option"
  en_reason :: string
  en_routable :: bool

definition from_routing_decision ::
  "(string \<Rightarrow> string) \<Rightarrow> (int \<Rightarrow> string) \<Rightarrow> decision \<Rightarrow> int \<Rightarrow> envelope" where
  "from_routing_decision sha isoformat d received_at =
     \<lparr>en_version = JInt 2, en_id = event_id sha d, en_source = rd_source d, en_received_at = isoformat received_at,
      en_device = rd_device d, en_object_type = rd_flow d, en_subject = rd_subject d, en_matched = rd_matched d,
      en_transition = rd_transition d, en_raw = rd_raw d, en_device_time = None, en_timestamp = rd_ingest d,
      en_reason = rd_reason d, en_routable = rd_routable d\<rparr>"

definition payload :: "envelope \<Rightarrow> dict" where
  "payload e = [(''schema_version'', en_version e), (''event_id'', JStr (en_id e)), (''source_kind'', JStr (en_source e)),
     (''received_at'', JStr (en_received_at e)), (''device'', json_of (en_device e)), (''object_type'', json_of (en_object_type e)),
     (''subject'', json_of (en_subject e)), (''matched'', en_matched e), (''transition'', json_of (en_transition e)),
     (''raw_trigger'', json_of (en_raw e)), (''device_time'', json_of (en_device_time e)),
     (''source_timestamp_ns'', json_of (en_timestamp e)), (''routing_reason'', JStr (en_reason e)),
     (''routable'', JBool (en_routable e))]"

datatype envelope_error = FieldMissing | BadVersion | BadIdentity | BadTime | NaiveTime | IdentityMismatch

definition REQUIRED :: "string list" where
  "REQUIRED = [''schema_version'', ''event_id'', ''source_kind'', ''received_at'', ''routing_reason'', ''routable'']"

definition from_payload :: "(string \<Rightarrow> (int \<times> bool) option) \<Rightarrow> dict \<Rightarrow> envelope_error + envelope" where
  "from_payload fromiso p =
     (if list_ex (\<lambda>k. k \<notin> fst ` set p) REQUIRED then Inl FieldMissing
      else if \<not> py_eq (dict_get p ''schema_version'') (JInt 2) then Inl BadVersion
      else if \<not> is_string (dict_get p ''event_id'') \<or> \<not> truthy (dict_get p ''event_id'') then Inl BadIdentity
      else case dict_get p ''received_at'' of
        JStr t \<Rightarrow> (case fromiso t of
            None \<Rightarrow> Inl BadTime
          | Some (_, zoned) \<Rightarrow>
              if \<not> zoned then Inl NaiveTime
              else Inr \<lparr>en_version = dict_get p ''schema_version'', en_id = py_str (dict_get p ''event_id''),
                en_source = py_str (dict_get p ''source_kind''), en_received_at = t,
                en_device = text_field p ''device'', en_object_type = text_field p ''object_type'',
                en_subject = text_field p ''subject'', en_matched = json_of (text_field p ''matched''),
                en_transition = text_field p ''transition'', en_raw = text_field p ''raw_trigger'',
                en_device_time = text_field p ''device_time'', en_timestamp = text_field p ''source_timestamp_ns'',
                en_reason = py_str (dict_get p ''routing_reason''), en_routable = truthy (dict_get p ''routable'')\<rparr>)
      | _ \<Rightarrow> Inl BadTime)"

definition routing_decision :: "(string \<Rightarrow> string) \<Rightarrow> envelope \<Rightarrow> envelope_error + decision" where
  "routing_decision sha e =
     (let d = \<lparr>rd_routable = en_routable e, rd_flow = en_object_type e, rd_device = en_device e, rd_subject = en_subject e,
            rd_reason = en_reason e, rd_source = en_source e, rd_matched = en_matched e, rd_transition = en_transition e,
            rd_raw = en_raw e, rd_ingest = en_timestamp e\<rparr>
      in if event_id sha d \<noteq> en_id e then Inl IdentityMismatch else Inr d)"

text \<open>What a worker does with a stored payload: \<open>EventEnvelopeV2.from_payload(\<dots>).routing_decision()\<close>.\<close>

definition stored_decision ::
  "(string \<Rightarrow> string) \<Rightarrow> (string \<Rightarrow> (int \<times> bool) option) \<Rightarrow> dict \<Rightarrow> envelope_error + decision" where
  "stored_decision sha fromiso p = (case from_payload fromiso p of Inl e \<Rightarrow> Inl e | Inr env \<Rightarrow> routing_decision sha env)"

subsection \<open>The receiver\<close>

datatype receive_error = NotConfigured | BadSize | NonAsciiSignature | BadSignature | NotUtf8 | StoreError store_error

record received =
  rv_envelope :: envelope
  rv_decision :: decision
  rv_created :: bool

text \<open>\<open>compare_digest\<close> of texts raises when one has a character outside ASCII.\<close>

definition ascii :: "string \<Rightarrow> bool" where
  "ascii s \<longleftrightarrow> list_all (\<lambda>c. (of_char c :: nat) < 128) s"

definition receive_syslog ::
  "(string \<Rightarrow> string \<Rightarrow> string) \<Rightarrow> (string \<Rightarrow> string) \<Rightarrow> (string \<Rightarrow> string option) \<Rightarrow> (int \<Rightarrow> string) \<Rightarrow> (why \<Rightarrow> string) \<Rightarrow>
   string list \<Rightarrow> string \<Rightarrow> json \<Rightarrow> string \<Rightarrow> string \<Rightarrow> int \<Rightarrow> int \<Rightarrow> int \<Rightarrow> store \<Rightarrow> receive_error + received \<times> store" where
  "receive_syslog mac sha decode isoformat say known body signature secret device maximum received_at now st =
     (case (secret, signature) of
        (_ # _, JStr sig) \<Rightarrow>
          if body = [] \<or> int (length body) > maximum then Inl BadSize
          else if \<not> ascii sig then Inl NonAsciiSignature
          else if sig \<noteq> mac secret body then Inl BadSignature
          else (case decode body of
              None \<Rightarrow> Inl NotUtf8
            | Some line \<Rightarrow>
                (let d = route_syslog_line say known line (Some device);
                     e = from_routing_decision sha isoformat d received_at
                 in case create_or_get (en_id e) (case en_device e of Some (c # cs) \<Rightarrow> c # cs | _ \<Rightarrow> ''unknown'') (payload e) False now st of
                      Inl err \<Rightarrow> Inl (StoreError err)
                    | Inr ((_, is_new), st') \<Rightarrow> Inr (\<lparr>rv_envelope = e, rv_decision = d, rv_created = is_new\<rparr>, st')))
      | _ \<Rightarrow> Inl NotConfigured)"

subsection \<open>Round trip\<close>

lemma payload_keys: "distinct (map fst (payload e))"
  by (simp add: payload_def)

lemma json_of_stored [simp]: "stored_json (json_of v) = json_of v"
  by (cases v) (simp_all add: json_of_def)

lemma payload_fields:
  "dict_get (payload e) ''schema_version'' = en_version e"
  "dict_get (payload e) ''event_id'' = JStr (en_id e)"
  "dict_get (payload e) ''source_kind'' = JStr (en_source e)"
  "dict_get (payload e) ''received_at'' = JStr (en_received_at e)"
  "dict_get (payload e) ''device'' = json_of (en_device e)"
  "dict_get (payload e) ''object_type'' = json_of (en_object_type e)"
  "dict_get (payload e) ''subject'' = json_of (en_subject e)"
  "dict_get (payload e) ''matched'' = en_matched e"
  "dict_get (payload e) ''transition'' = json_of (en_transition e)"
  "dict_get (payload e) ''raw_trigger'' = json_of (en_raw e)"
  "dict_get (payload e) ''device_time'' = json_of (en_device_time e)"
  "dict_get (payload e) ''source_timestamp_ns'' = json_of (en_timestamp e)"
  "dict_get (payload e) ''routing_reason'' = JStr (en_reason e)"
  "dict_get (payload e) ''routable'' = JBool (en_routable e)"
  by (simp_all add: payload_def dict_get_or_def)

lemma stored_fields:
  "dict_get (stored_dict (payload e)) ''schema_version'' = stored_json (en_version e)"
  "dict_get (stored_dict (payload e)) ''event_id'' = JStr (en_id e)"
  "dict_get (stored_dict (payload e)) ''source_kind'' = JStr (en_source e)"
  "dict_get (stored_dict (payload e)) ''received_at'' = JStr (en_received_at e)"
  "dict_get (stored_dict (payload e)) ''device'' = json_of (en_device e)"
  "dict_get (stored_dict (payload e)) ''object_type'' = json_of (en_object_type e)"
  "dict_get (stored_dict (payload e)) ''subject'' = json_of (en_subject e)"
  "dict_get (stored_dict (payload e)) ''matched'' = stored_json (en_matched e)"
  "dict_get (stored_dict (payload e)) ''transition'' = json_of (en_transition e)"
  "dict_get (stored_dict (payload e)) ''raw_trigger'' = json_of (en_raw e)"
  "dict_get (stored_dict (payload e)) ''device_time'' = json_of (en_device_time e)"
  "dict_get (stored_dict (payload e)) ''source_timestamp_ns'' = json_of (en_timestamp e)"
  "dict_get (stored_dict (payload e)) ''routing_reason'' = JStr (en_reason e)"
  "dict_get (stored_dict (payload e)) ''routable'' = JBool (en_routable e)"
  by (simp_all add: get_stored [OF payload_keys] payload_fields)

lemma text_field_json_of: "dict_get p k = json_of v \<Longrightarrow> text_field p k = v"
  by (cases v) (simp_all add: text_field_def json_of_def)

lemma stored_texts:
  "text_field (stored_dict (payload e)) ''device'' = en_device e"
  "text_field (stored_dict (payload e)) ''object_type'' = en_object_type e"
  "text_field (stored_dict (payload e)) ''subject'' = en_subject e"
  "text_field (stored_dict (payload e)) ''transition'' = en_transition e"
  "text_field (stored_dict (payload e)) ''raw_trigger'' = en_raw e"
  "text_field (stored_dict (payload e)) ''device_time'' = en_device_time e"
  "text_field (stored_dict (payload e)) ''source_timestamp_ns'' = en_timestamp e"
  by (rule text_field_json_of, rule stored_fields)+

text \<open>A decision whose trigger name is a text or nothing, as every log line's is.\<close>

definition named_decision :: "decision \<Rightarrow> bool" where
  "named_decision d \<longleftrightarrow> (\<exists>v. rd_matched d = json_of v)"

lemma stored_payload_reads:
  assumes "named_decision d" and "fromiso (isoformat t) = Some (t, True)" and "event_id sha d \<noteq> []"
  shows "from_payload fromiso (stored_dict (payload (from_routing_decision sha isoformat d t))) =
    Inr (from_routing_decision sha isoformat d t)"
proof -
  define e where "e = from_routing_decision sha isoformat d t"
  obtain v where v: "rd_matched d = json_of v" using assms(1) by (auto simp: named_decision_def)
  have e: "en_version e = JInt 2" "en_matched e = json_of v" "en_received_at e = isoformat t" "en_id e = event_id sha d"
    by (simp_all add: e_def from_routing_decision_def v)
  have "list_ex (\<lambda>k. k \<notin> fst ` set (stored_dict (payload e))) REQUIRED = False"
    unfolding keys_stored by (simp add: payload_def REQUIRED_def)
  moreover have "text_field (stored_dict (payload e)) ''matched'' = v"
    by (rule text_field_json_of) (simp add: stored_fields e(2))
  ultimately show ?thesis
    unfolding e_def [symmetric] from_payload_def
    by (simp add: stored_fields stored_texts e assms(2,3) py_str_def numeric_def)
qed

lemma envelope_reads:
  assumes "named_decision d" and "fromiso (isoformat t) = Some (t, True)" and "event_id sha d \<noteq> []"
  shows "stored_decision sha fromiso (stored_dict (payload (from_routing_decision sha isoformat d t))) = Inr d"
proof -
  have "routing_decision sha (from_routing_decision sha isoformat d t) = Inr d"
    by (cases d) (simp add: routing_decision_def from_routing_decision_def Let_def)
  then show ?thesis by (simp add: stored_decision_def stored_payload_reads [of d fromiso isoformat t sha, OF assms])
qed

text \<open>C38: An event survives storage.  The payload of an envelope, written with sorted keys and read back by a
  worker, gives the routing decision it was made from, under the same identity.\<close>

theorem envelope_round_trip:
  assumes "named_decision d" and "fromiso (isoformat t) = Some (t, True)" and "event_id sha d \<noteq> []"
  shows "stored_decision sha fromiso (stored_dict (payload (from_routing_decision sha isoformat d t))) = Inr d"
  by (rule envelope_reads [of d fromiso isoformat t sha, OF assms])

subsection \<open>Receiving\<close>

lemma route_named: "named_decision (route_syslog_line say known line device)"
  unfolding named_decision_def route_syslog_line_def route_iosxr_envelope_def refused_def
  by (auto simp: Let_def json_of_def split: option.split sum.split intro: exI [of _ None] exI [of _ "Some _"])

lemma payload_received_at:
  "k \<noteq> ''received_at'' \<Longrightarrow> dict_get (payload (e\<lparr>en_received_at := x\<rparr>)) k = dict_get (payload e) k"
  by (simp add: payload_def dict_get_or_def)

lemma payload_key_set: "set (map fst (payload e)) = set (map fst (payload e'))"
  by (simp add: payload_def)

lemma validate_received_at:
  "validate_keys p (payload (e\<lparr>en_received_at := x\<rparr>)) SYSLOG_MUTABLE = validate_keys p (payload e) SYSLOG_MUTABLE"
proof -
  have "(k \<notin> set SYSLOG_MUTABLE \<and> \<not> py_eq (dict_get p k) (dict_get (payload (e\<lparr>en_received_at := x\<rparr>)) k)) =
      (k \<notin> set SYSLOG_MUTABLE \<and> \<not> py_eq (dict_get p k) (dict_get (payload e) k))" for k
    using payload_received_at by (auto simp: SYSLOG_MUTABLE_def)
  then show ?thesis unfolding validate_keys_def payload_key_set [of "e\<lparr>en_received_at := x\<rparr>" e] by simp
qed

lemma payload_syslog: "en_version e = JInt 2 \<Longrightarrow> is_syslog (payload e)"
  by (simp add: is_syslog_def payload_fields numeric_def)

lemma campaign_no_payload:
  assumes "py_eq (dict_get p ''kind'') (JStr ''campaign_phase'')" and "\<not> is_syslog p"
  shows "validate_payload_update p (payload e) \<noteq> None"
proof -
  have k: "dict_get p ''kind'' = JStr ''campaign_phase''" using assms(1)
    by (cases "dict_get p ''kind''") (auto simp: numeric_def split: if_splits)
  then have "''kind'' \<in> fst ` set p" by (auto simp: dict_get_or_def split: option.splits dest: map_of_SomeD intro: rev_image_eqI)
  then obtain v where v: "(''kind'', v) \<in> set p" by auto
  have "map_of (payload e) ''kind'' = None" by (simp add: payload_def)
  with v have "\<not> py_eq (JDict p) (JDict (payload e))" by (fastforce simp: eq_items_iff)
  moreover have "\<not> py_eq (dict_get (payload e) ''kind'') (JStr ''campaign_phase'')"
    by (simp add: payload_def dict_get_or_def)
  ultimately show ?thesis using assms(2) by (simp add: validate_payload_update_def)
qed

text \<open>What an accepted creation of an envelope leaves, and what the same event, received later, does.\<close>

lemma create_again:
  assumes "create_or_get i d (payload e) False now st = Inr ((r, fresh), st')" and "en_version e = JInt 2"
    and "en_matched e = json_of v"
  shows "get st' i = Some r \<and> er_device r = d \<and> (fresh \<longrightarrow> er_payload r = stored_dict (payload e)) \<and>
    create_or_get i d (payload (e\<lparr>en_received_at := x\<rparr>)) False later st' = Inr ((r, False), st')"
proof (cases "get st i")
  case None
  with assms(1) have new: "create_or_get i d (payload e) False now st = Inr ((r, True), st')" "fresh"
    by (auto simp: create_or_get_def split: prod.splits)
  note row = create_new [OF new(1)]
  have s: "is_syslog (er_payload r)"
    using row by (simp add: is_syslog_def stored_fields assms(2) numeric_def)
  have p: "is_syslog (payload (e\<lparr>en_received_at := x\<rparr>))" by (rule payload_syslog) (simp add: assms(2))
  have "wf_json (JDict (payload e))" by (simp add: payload_def assms(2,3) json_of_def split: option.split)
  from validate_stored [OF this] s row payload_syslog [OF assms(2)]
  have "validate_keys (stored_dict (payload e)) (payload e) SYSLOG_MUTABLE = None"
    by (simp add: validate_payload_update_def)
  with row s p show ?thesis
    by (simp add: create_or_get_def validate_payload_update_def validate_received_at)
next
  case (Some q)
  with assms(1) have q: "q = r" "st' = st" "\<not> fresh" "er_device r = d"
    and v: "known_kind (er_payload r) \<Longrightarrow> validate_payload_update (er_payload r) (payload e) = None"
    by (auto simp: create_or_get_def split: if_splits option.splits)
  have "validate_payload_update (er_payload r) (payload (e\<lparr>en_received_at := x\<rparr>)) = None" if k: "known_kind (er_payload r)"
  proof -
    have "is_syslog (er_payload r)" using v [OF k] campaign_no_payload [of "er_payload r" e] k by (auto simp: known_kind_def)
    with v [OF k] payload_syslog [of e] payload_syslog [of "e\<lparr>en_received_at := x\<rparr>"] assms(2) show ?thesis
      by (simp add: validate_payload_update_def validate_received_at)
  qed
  with Some q show ?thesis by (auto simp: create_or_get_def)
qed

lemma receiveE:
  assumes "receive_syslog mac sha decode isoformat say known body signature secret device maximum t now st = Inr (r, st')"
  obtains line sig row where "signature = JStr sig" "sig = mac secret body" "secret \<noteq> []" "body \<noteq> []" "int (length body) \<le> maximum"
    "ascii sig" "decode body = Some line" "rv_decision r = route_syslog_line say known line (Some device)"
    "rv_envelope r = from_routing_decision sha isoformat (rv_decision r) t"
    "create_or_get (en_id (rv_envelope r)) (case en_device (rv_envelope r) of Some (c # cs) \<Rightarrow> c # cs | _ \<Rightarrow> ''unknown'')
       (payload (rv_envelope r)) False now st = Inr ((row, rv_created r), st')"
  using assms
  by (auto simp: receive_syslog_def Let_def split: list.splits json.splits if_splits option.splits sum.splits prod.splits)

lemma receiveI:
  assumes "secret \<noteq> []" "body \<noteq> []" "int (length body) \<le> maximum" "ascii (mac secret body)" "decode body = Some line"
    and "route_syslog_line say known line (Some device) = d"
  shows "receive_syslog mac sha decode isoformat say known body (JStr (mac secret body)) secret device maximum t now st =
    (let e = from_routing_decision sha isoformat d t in case create_or_get (en_id e) (case en_device e of Some (c # cs) \<Rightarrow> c # cs | _ \<Rightarrow> ''unknown'') (payload e) False now st of
       Inl err \<Rightarrow> Inl (StoreError err)
     | Inr ((_, is_new), st') \<Rightarrow> Inr (\<lparr>rv_envelope = e, rv_decision = d, rv_created = is_new\<rparr>, st'))"
  using assms by (auto simp: receive_syslog_def Let_def neq_Nil_conv)

text \<open>C39: Receiving is authenticated and idempotent.  A body is stored only under the keyed hash of its exact bytes and
  within the size limit; a worker that reads the new row back gets the very decision the receiver
  made; and the same body received again, at any later time, changes nothing and is reported as known.\<close>

theorem received_events_are_stored_once:
  assumes "receive_syslog mac sha decode isoformat say known body signature secret device maximum t now st = Inr (r, st')"
    and "fromiso (isoformat t) = Some (t, True)" and "\<forall>m. sha m \<noteq> []"
  shows "signature = JStr (mac secret body) \<and> int (length body) \<le> maximum \<and>
    (\<exists>row. get st' (en_id (rv_envelope r)) = Some row \<and>
       (rv_created r \<longrightarrow> stored_decision sha fromiso (er_payload row) = Inr (rv_decision r))) \<and>
    (\<exists>r'. receive_syslog mac sha decode isoformat say known body signature secret device maximum t2 later st' = Inr (r', st') \<and>
       \<not> rv_created r' \<and> en_id (rv_envelope r') = en_id (rv_envelope r))"
  using assms(1)
proof (cases rule: receiveE)
  case (1 line sig row)
  let ?d = "rv_decision r" and ?e = "rv_envelope r"
  let ?e2 = "from_routing_decision sha isoformat ?d t2"
  have named: "named_decision ?d" unfolding 1(8) by (rule route_named)
  then obtain v where v: "rd_matched ?d = json_of v" by (auto simp: named_decision_def)
  have e: "en_version ?e = JInt 2" "en_matched ?e = json_of v" by (simp_all add: 1(9) from_routing_decision_def v)
  have e2: "?e2 = ?e\<lparr>en_received_at := isoformat t2\<rparr>" unfolding 1(9) by (simp add: from_routing_decision_def)
  note again = create_again [OF 1(10) e, of "isoformat t2" later]
  have "event_id sha ?d \<noteq> []" using assms(3) by (simp add: event_id_def)
  from envelope_reads [of ?d fromiso isoformat t sha, OF named assms(2) this] again have stored: "rv_created r \<longrightarrow> stored_decision sha fromiso (er_payload row) = Inr ?d"
    by (simp add: 1(9))
  have received_again: "receive_syslog mac sha decode isoformat say known body signature secret device maximum t2 later st' =
      Inr (\<lparr>rv_envelope = ?e2, rv_decision = ?d, rv_created = False\<rparr>, st')"
    unfolding 1(1) 1(2) receiveI [of secret body maximum mac decode, OF 1(3-5) 1(6) [unfolded 1(2)] 1(7) 1(8) [symmetric]]
    using again by (simp add: e2 Let_def)
  show ?thesis
  proof (intro conjI exI)
    show "signature = JStr (mac secret body)" "int (length body) \<le> maximum" using 1(1,2,5) by simp_all
    show "get st' (en_id ?e) = Some row" using again by simp
    show "rv_created r \<longrightarrow> stored_decision sha fromiso (er_payload row) = Inr ?d" by (rule stored)
    show "en_id (rv_envelope \<lparr>rv_envelope = ?e2, rv_decision = ?d, rv_created = False\<rparr>) = en_id ?e" by (simp add: e2)
  qed (simp_all add: received_again)
qed

lemma identity_differs:
  assumes "create_or_get i d (payload e) False now st = Inr ((r, True), st')" and "en_version e = JInt 2"
    and "en_raw e = Some x" and "en_raw e' = Some y" and "x \<noteq> y" and "en_version e' = JInt 2"
  shows "create_or_get i d (payload e') False later st' = Inl (EventStoreError (IdentityDiffers i IMMUTABLE_DIFFERS))"
proof -
  note row = create_new [OF assms(1)]
  have s: "is_syslog (stored_dict (payload e))" by (simp add: is_syslog_def stored_fields assms(2) numeric_def)
  have "''raw_trigger'' \<in> set (map fst (stored_dict (payload e)))"
    using keys_stored [of "payload e"] by (simp add: payload_def)
  moreover have "\<not> py_eq (dict_get (stored_dict (payload e)) ''raw_trigger'') (dict_get (payload e') ''raw_trigger'')"
    by (simp add: stored_fields payload_fields assms(3,4) assms(5) [symmetric] json_of_def)
  moreover have "''raw_trigger'' \<notin> set SYSLOG_MUTABLE" by (simp add: SYSLOG_MUTABLE_def)
  ultimately have "list_ex (\<lambda>k. k \<notin> set SYSLOG_MUTABLE \<and>
      \<not> py_eq (dict_get (stored_dict (payload e)) k) (dict_get (payload e') k)) (map fst (stored_dict (payload e)))"
    unfolding list_ex_iff by blast
  moreover have "set (map fst (stored_dict (payload e))) = set (map fst (payload e'))"
    using payload_key_set [of e e'] by (simp add: keys_stored)
  ultimately have "validate_payload_update (stored_dict (payload e)) (payload e') = Some IMMUTABLE_DIFFERS"
    using s payload_syslog [OF assms(6)] by (simp add: validate_payload_update_def validate_keys_def)
  with row s show ?thesis by (simp add: create_or_get_def known_kind_def)
qed

text \<open>C40: One event that arrives by two ways is an error.  The identity of an event ignores the host name the log
  forwarder puts before the line, but its payload keeps the raw line, which no update may change; so
  after a line was stored, the forwarded form of the same line, correctly signed, raises instead of
  being recognised as known.\<close>

theorem forwarded_copy_raises:
  assumes "receive_syslog mac sha decode isoformat say known body signature secret device maximum t now st = Inr (r, st')"
    and "rv_created r" and "decode body = Some line"
    and "match_iosxr_syslog_line line = Some m" and "sy_host m = None" and "py_strip line = line"
    and "host \<noteq> []" and "list_all nonspace host" and "gap \<noteq> []" and "list_all py_isspace gap"
    and "decode copy = Some (host @ gap @ line)" and "copy \<noteq> []" and "int (length copy) \<le> maximum" and "ascii (mac secret copy)"
  shows "receive_syslog mac sha decode isoformat say known copy (JStr (mac secret copy)) secret device maximum t2 later st' =
    Inl (StoreError (EventStoreError (IdentityDiffers (en_id (rv_envelope r)) IMMUTABLE_DIFFERS)))"
  using assms(1)
proof (cases rule: receiveE)
  case (1 line1 sig row)
  let ?d = "rv_decision r"
  let ?d2 = "route_syslog_line say known (host @ gap @ line) (Some device)"
  let ?e2 = "from_routing_decision sha isoformat ?d2 t2"
  have d: "?d = route_syslog_line say known line (Some device)" using 1(7,8) assms(3) by simp
  from framed_decision [OF assms(4-10), of say known "Some device" sha] d
  have d2: "?d2 = ?d\<lparr>rd_raw := Some (host @ gap @ line)\<rparr>" and same: "event_id sha ?d2 = event_id sha ?d"
    unfolding Let_def d by blast+
  have raw: "rd_raw ?d = Some line"
    unfolding d by (auto simp: route_syslog_line_def route_iosxr_envelope_def refused_def Let_def split: option.split sum.split)
  have "create_or_get (en_id (rv_envelope r)) (case en_device (rv_envelope r) of Some (c # cs) \<Rightarrow> c # cs | _ \<Rightarrow> ''unknown'')
      (payload ?e2) False later st' = Inl (EventStoreError (IdentityDiffers (en_id (rv_envelope r)) IMMUTABLE_DIFFERS))"
    by (rule identity_differs [OF 1(10) [unfolded eqTrueI [OF assms(2)]], where x = line and y = "host @ gap @ line"])
      (use assms(7) in \<open>simp_all add: 1(9) from_routing_decision_def raw d2\<close>)
  moreover have "en_id ?e2 = en_id (rv_envelope r)" "en_device ?e2 = en_device (rv_envelope r)"
    unfolding 1(9) by (simp_all add: from_routing_decision_def same, simp add: d2)
  ultimately show ?thesis
    unfolding receiveI [of secret copy maximum mac decode, OF 1(3) assms(12-14) assms(11) refl] by (simp add: Let_def)
qed

subsection \<open>Concrete inputs\<close>

definition lab_sha :: "string \<Rightarrow> string" where
  "lab_sha m = ''h''"

definition lab_isoformat :: "int \<Rightarrow> string" where
  "lab_isoformat t = ''T''"

definition lab_fromiso :: "string \<Rightarrow> (int \<times> bool) option" where
  "lab_fromiso s = (if s = ''T'' then Some (5, True) else None)"

definition lab_receive :: "string \<Rightarrow> int \<Rightarrow> store \<Rightarrow> receive_error + received \<times> store" where
  "lab_receive body now st = receive_syslog (\<lambda>_ _. ''m'') lab_sha Some lab_isoformat (\<lambda>_. []) [''PE2''] body (JStr ''m'') ''s'' ''PE2'' 200 5 now st"

lemma lab_times: "lab_fromiso (lab_isoformat 5) = Some (5, True)" "\<forall>m. lab_sha m \<noteq> []"
  by (simp_all add: lab_fromiso_def lab_isoformat_def lab_sha_def)

lemma lab_received:
  obtains r st' where "lab_receive flap_line 5 new_store = Inr (r, st')" "rv_created r" "en_id (rv_envelope r) = ''h''"
proof -
  have "(case lab_receive flap_line 5 new_store of Inr (r, _) \<Rightarrow> rv_created r \<and> en_id (rv_envelope r) = ''h'' | _ \<Rightarrow> False)"
    by code_simp
  then show ?thesis using that by (auto split: sum.splits prod.splits)
qed

theorem envelope_witness:
  "stored_decision lab_sha lab_fromiso (stored_dict (payload (from_routing_decision lab_sha lab_isoformat
     (route_syslog_line (\<lambda>_. []) [''PE2''] flap_line (Some ''PE2'')) 5))) =
   Inr (route_syslog_line (\<lambda>_. []) [''PE2''] flap_line (Some ''PE2''))"
  by (rule envelope_round_trip [of _ lab_fromiso lab_isoformat 5 lab_sha, OF route_named lab_times(1)]) (simp add: event_id_def lab_sha_def)

theorem received_witness:
  "\<exists>st' row. get st' ''h'' = Some row \<and>
     (\<exists>r'. lab_receive flap_line 9 st' = Inr (r', st') \<and> \<not> rv_created r')"
proof (rule lab_received)
  fix r st' assume r: "lab_receive flap_line 5 new_store = Inr (r, st')" "rv_created r" "en_id (rv_envelope r) = ''h''"
  from received_events_are_stored_once [where fromiso = lab_fromiso and isoformat = lab_isoformat and sha = lab_sha and t = 5 and
      ?t2.0 = 5 and later = 9, OF r(1) [unfolded lab_receive_def] lab_times] r(2)
  show ?thesis unfolding lab_receive_def r(3) [symmetric] by blast
qed

theorem forwarded_witness:
  "\<exists>st'. lab_receive (''pe2'' @ '' '' @ flap_line) 9 st' =
     Inl (StoreError (EventStoreError (IdentityDiffers ''h'' IMMUTABLE_DIFFERS)))"
proof (rule lab_received)
  fix r st' assume r: "lab_receive flap_line 5 new_store = Inr (r, st')" "rv_created r" "en_id (rv_envelope r) = ''h''"
  have c: "sy_host flap_match = None" "py_strip flap_line = flap_line" "''pe2'' \<noteq> []" "list_all nonspace ''pe2''"
    "'' '' \<noteq> []" "list_all py_isspace '' ''"
    by code_simp+
  have "''pe2'' @ '' '' @ flap_line \<noteq> []" "int (length (''pe2'' @ '' '' @ flap_line)) \<le> 200" "ascii ''m''"
    by code_simp+
  from forwarded_copy_raises [OF r(1) [unfolded lab_receive_def] r(2) refl flap_matches c refl this, of 5 9] r(3)
  show ?thesis unfolding lab_receive_def by auto
qed

end
