(* ===== verification/Model_Ingress.thy ===== *)
theory Model_Ingress
  imports Event_Routing
begin

section \<open>Pinned arguments: what a model may choose in a tool call\<close>

text \<open>
  Models \<open>model_ingress.py\<close>: the context an event pins, the table of the staged tools' parameters, the
  manifest a model is offered and the one function that turns its arguments into a call.  The wording
  of refusals and of the reasons for excluded tools is left out.
\<close>

subsection \<open>The pinned context\<close>

record pinned_context =
  pc_device :: string
  pc_subject :: "string option"
  pc_flow :: "string option"

datatype context_error = NoUsableDevice | EmptySubject | EmptyFlow

definition PinnedContext :: "string option \<Rightarrow> string option \<Rightarrow> string option \<Rightarrow> context_error + pinned_context" where
  "PinnedContext device subject flow = (case device of
     None \<Rightarrow> Inl NoUsableDevice
   | Some d \<Rightarrow>
       if py_strip d = [] then Inl NoUsableDevice
       else if subject = Some [] then Inl EmptySubject
       else if flow = Some [] then Inl EmptyFlow
       else Inr \<lparr>pc_device = d, pc_subject = subject, pc_flow = flow\<rparr>)"

subsection \<open>The table of parameters\<close>

datatype param_role = PINNED | ENUMERATED

record param_spec =
  ps_name :: string
  ps_role :: param_role
  ps_value :: "pinned_context \<Rightarrow> string option"
  ps_shape_check :: "(string \<Rightarrow> bool) option"
  ps_choices :: "string list"
  ps_required :: bool

text \<open>The two ways a parameter is declared; \<open>context_attr\<close> is the selector it names.\<close>

definition pinned :: "string \<Rightarrow> (pinned_context \<Rightarrow> string option) \<Rightarrow> (string \<Rightarrow> bool) option \<Rightarrow> param_spec" where
  "pinned name attr shape = \<lparr>ps_name = name, ps_role = PINNED, ps_value = attr, ps_shape_check = shape, ps_choices = [], ps_required = False\<rparr>"

definition enumerated :: "string \<Rightarrow> string list \<Rightarrow> bool \<Rightarrow> param_spec" where
  "enumerated name choices required = \<lparr>ps_name = name, ps_role = ENUMERATED, ps_value = (\<lambda>_. None), ps_shape_check = None,
     ps_choices = choices, ps_required = required\<rparr>"

definition INVESTIGATE_LAB_FLOWS :: "string list" where
  "INVESTIGATE_LAB_FLOWS = [''bgp_session'', ''interface'', ''isis_adjacency'', ''ldp_session'']"

definition is_known_investigate_flow :: "string \<Rightarrow> bool" where
  "is_known_investigate_flow v \<longleftrightarrow> v \<in> set INVESTIGATE_LAB_FLOWS"

definition PIN_TABLE :: "(string \<times> param_spec list) list" where
  "PIN_TABLE = [
     (''explore_lab'', [pinned ''device_name'' (Some \<circ> pc_device) None]),
     (''check_lab'', [pinned ''scope'' (Some \<circ> pc_device) None,
        enumerated ''intent'' [''facts'', ''interfaces'', ''bgp'', ''lldp'', ''isis'', ''sr''] False]),
     (''investigate_lab'', [pinned ''device_name'' (Some \<circ> pc_device) None, pinned ''subject'' pc_subject None,
        pinned ''flow'' pc_flow (Some is_known_investigate_flow)]),
     (''history_lab'', [pinned ''device_name'' (Some \<circ> pc_device) None,
        enumerated ''mode'' [''latest_diff'', ''golden_diff'', ''flaps''] False]),
     (''probe_lab'', [pinned ''device_name'' (Some \<circ> pc_device) None, enumerated ''kind'' [''ping'', ''traceroute''] True,
        pinned ''address'' pc_subject (Some is_ipv4)])]"

definition STRUCTURALLY_EXCLUDED_TOOLS :: "string list" where
  "STRUCTURALLY_EXCLUDED_TOOLS = [''expand_lab_evidence'', ''lookup_lab'']"

subsection \<open>Offers\<close>

record tool_offer =
  to_name :: string
  to_description :: string
  to_input_schema :: dict
  to_pinned :: "(string \<times> string) list"
  to_enumerated :: "(string \<times> string list) list"

text \<open>
  One pass over the declared parameters: what is pinned, enumerated, kept in the schema and required.
  \<open>Inl\<close> excludes the tool.  The outer \<open>None\<close> is the exception of \<open>dict(\<dots>)\<close> on a property that is no
  object.
\<close>

fun offer_parameters ::
  "param_spec list \<Rightarrow> dict \<Rightarrow> pinned_context \<Rightarrow>
   (unit + (string \<times> string) list \<times> (string \<times> string list) list \<times> dict \<times> string list) option" where
  "offer_parameters [] properties ctx = Some (Inr ([], [], [], []))"
| "offer_parameters (spec # specs) properties ctx = (case map_of properties (ps_name spec) of
     None \<Rightarrow> Some (Inl ())
   | Some property \<Rightarrow> (case ps_role spec of
       PINNED \<Rightarrow> (case ps_value spec ctx of
           None \<Rightarrow> Some (Inl ())
         | Some v \<Rightarrow>
             if (case ps_shape_check spec of Some ok \<Rightarrow> \<not> ok v | None \<Rightarrow> False) then Some (Inl ())
             else map_option (map_sum id (\<lambda>(p, e, s, r). ((ps_name spec, v) # p, e, s, r))) (offer_parameters specs properties ctx))
     | ENUMERATED \<Rightarrow> (case property of
           JDict d \<Rightarrow> map_option (map_sum id (\<lambda>(p, e, s, r). (p, (ps_name spec, ps_choices spec) # e, (ps_name spec, JDict d) # s,
               (if ps_required spec then [ps_name spec] else []) @ r))) (offer_parameters specs properties ctx)
         | _ \<Rightarrow> None)))"

definition build_one_offer :: "dict \<Rightarrow> param_spec list \<Rightarrow> pinned_context \<Rightarrow> tool_offer option option" where
  "build_one_offer tool specs ctx =
     (case (dict_get tool ''name'', dict_get tool ''description'', dict_get tool ''input_schema'') of
        (JStr name, JStr description, JDict schema) \<Rightarrow> (case dict_get schema ''properties'' of
            JDict properties \<Rightarrow>
              if \<not> fst ` set properties \<subseteq> ps_name ` set specs then Some None
              else map_option (\<lambda>r. case r of
                  Inl _ \<Rightarrow> None
                | Inr (p, e, s, req) \<Rightarrow> Some \<lparr>to_name = name, to_description = description,
                    to_input_schema = [(''type'', JStr ''object''), (''properties'', JDict s), (''required'', JList (map JStr req)),
                      (''additionalProperties'', JBool False)],
                    to_pinned = p, to_enumerated = e\<rparr>) (offer_parameters specs properties ctx)
          | _ \<Rightarrow> Some None)
      | _ \<Rightarrow> Some None)"

text \<open>\<open>name not in allowed\<close> is an exception for a name that cannot be hashed.\<close>

definition offer_for :: "json \<Rightarrow> pinned_context \<Rightarrow> string list \<Rightarrow> tool_offer option option" where
  "offer_for tool ctx allowlist = (case tool of
     JDict t \<Rightarrow> (case dict_get t ''name'' of
         JStr name \<Rightarrow>
           if name \<notin> set allowlist \<or> name \<in> set STRUCTURALLY_EXCLUDED_TOOLS then Some None
           else (case map_of PIN_TABLE name of None \<Rightarrow> Some None | Some specs \<Rightarrow> build_one_offer t specs ctx)
       | JList _ \<Rightarrow> None
       | JDict _ \<Rightarrow> None
       | _ \<Rightarrow> Some None)
   | _ \<Rightarrow> Some None)"

fun build_offers :: "json list \<Rightarrow> pinned_context \<Rightarrow> string list \<Rightarrow> tool_offer list option" where
  "build_offers [] ctx allowlist = Some []"
| "build_offers (tool # tools) ctx allowlist = do {
     offer \<leftarrow> offer_for tool ctx allowlist;
     offers \<leftarrow> build_offers tools ctx allowlist;
     Some (case offer of Some off \<Rightarrow> off # offers | None \<Rightarrow> offers)
   }"

subsection \<open>Arguments\<close>

datatype argument_refusal =
  ArgumentsNotObject | PinnedSupplied "string list" | UnknownSupplied "string list" | RequiredMissing string | NotAChoice string json

definition is_choice :: "string list \<Rightarrow> json \<Rightarrow> bool" where
  "is_choice choices v \<longleftrightarrow> (case v of JStr s \<Rightarrow> s \<in> set choices | _ \<Rightarrow> False)"

definition choices_of :: "tool_offer \<Rightarrow> string \<Rightarrow> string list" where
  "choices_of off k = (case map_of (to_enumerated off) k of Some cs \<Rightarrow> cs | None \<Rightarrow> [])"

definition required_keys :: "tool_offer \<Rightarrow> string list" where
  "required_keys off = (case dict_get (to_input_schema off) ''required'' of
     JList ks \<Rightarrow> concat (map (\<lambda>k. case k of JStr s \<Rightarrow> [s] | _ \<Rightarrow> []) ks) | _ \<Rightarrow> [])"

definition resolve_arguments :: "tool_offer \<Rightarrow> json \<Rightarrow> argument_refusal + dict" where
  "resolve_arguments off supplied = (case supplied of
     JDict args \<Rightarrow>
       (let keys = map fst args;
            collisions = sort (filter (\<lambda>k. k \<in> fst ` set (to_pinned off)) keys);
            unknown = sort (filter (\<lambda>k. k \<notin> fst ` set (to_enumerated off)) keys)
        in if collisions \<noteq> [] then Inl (PinnedSupplied collisions)
           else if unknown \<noteq> [] then Inl (UnknownSupplied unknown)
           else case find (\<lambda>k. k \<notin> set keys) (required_keys off) of
             Some k \<Rightarrow> Inl (RequiredMissing k)
           | None \<Rightarrow> (case find (\<lambda>(k, v). \<not> is_choice (choices_of off k) v) args of
               Some (k, v) \<Rightarrow> Inl (NotAChoice k v)
             | None \<Rightarrow> Inr (fold (\<lambda>(k, v) d. dict_set d k v) args (map (\<lambda>(k, v). (k, JStr v)) (to_pinned off)))))
   | _ \<Rightarrow> Inl ArgumentsNotObject)"

subsection \<open>The table is well formed\<close>

definition spec_ok :: "param_spec \<Rightarrow> bool" where
  "spec_ok s \<longleftrightarrow> (ps_role s = ENUMERATED \<longrightarrow> ps_choices s \<noteq> [])"

lemma table_distinct: "map_of PIN_TABLE name = Some specs \<Longrightarrow> distinct (map ps_name specs)"
  by (auto simp: PIN_TABLE_def pinned_def enumerated_def split: if_splits)

subsection \<open>What an offer holds\<close>

text \<open>The specification of the pass: which parameter of the tool holds what.\<close>

lemma map_sum_Inr: "map_sum id g z = Inr y \<longleftrightarrow> (\<exists>x. z = Inr x \<and> y = g x)"
  by (cases z) auto

lemma offer_parameters_spec:
  assumes "offer_parameters specs properties ctx = Some (Inr (p, e, s, r))" and "distinct (map ps_name specs)"
  shows "map fst p = map ps_name (filter (\<lambda>x. ps_role x = PINNED) specs) \<and>
    e = map (\<lambda>x. (ps_name x, ps_choices x)) (filter (\<lambda>x. ps_role x = ENUMERATED) specs) \<and>
    map fst s = map ps_name (filter (\<lambda>x. ps_role x = ENUMERATED) specs) \<and>
    r = map ps_name (filter (\<lambda>x. ps_role x = ENUMERATED \<and> ps_required x) specs) \<and>
    (\<forall>x\<in>set specs. ps_name x \<in> fst ` set properties) \<and> set s \<subseteq> set properties \<and>
    (\<forall>x\<in>set specs. ps_role x = PINNED \<longrightarrow> (\<exists>v. ps_value x ctx = Some v \<and> (ps_name x, v) \<in> set p \<and>
       (case ps_shape_check x of Some ok \<Rightarrow> ok v | None \<Rightarrow> True)))"
  using assms
proof (induction specs arbitrary: p e s r)
  case (Cons x xs)
  from Cons.prems(1) obtain property where look: "map_of properties (ps_name x) = Some property"
    by (auto split: option.splits)
  then have mem: "(ps_name x, property) \<in> set properties" by (rule map_of_SomeD)
  show ?case
  proof (cases "ps_role x")
    case PINNED
    with Cons.prems(1) look obtain v q where v: "ps_value x ctx = Some v" "case ps_shape_check x of Some ok \<Rightarrow> ok v | None \<Rightarrow> True"
      and q: "offer_parameters xs properties ctx = Some (Inr (q, e, s, r))" "p = (ps_name x, v) # q"
      by (auto split: option.splits if_splits simp: map_sum_Inr)
    have ih: "distinct (map ps_name xs)" using Cons.prems(2) by simp
    note ih = Cons.IH [OF q(1) this]
    from ih v q(2) mem PINNED show ?thesis
      by (intro conjI) (simp, simp, simp, simp, force, simp, fastforce)
  next
    case ENUMERATED
    with Cons.prems(1) look obtain d e' s' r' where d: "property = JDict d"
      and q: "offer_parameters xs properties ctx = Some (Inr (p, e', s', r'))"
      and eq: "e = (ps_name x, ps_choices x) # e'" "s = (ps_name x, JDict d) # s'" "r = (if ps_required x then [ps_name x] else []) @ r'"
      by (auto split: json.splits simp: map_sum_Inr)
    have ih: "distinct (map ps_name xs)" using Cons.prems(2) by simp
    note ih = Cons.IH [OF q this]
    from ih d eq mem ENUMERATED show ?thesis
      by (intro conjI) (simp, simp, simp, simp, force, simp, simp)
  qed
qed simp

lemma build_one_offerE:
  assumes "build_one_offer tool specs ctx = Some (Some off)"
  obtains properties schema p e s r where "dict_get tool ''name'' = JStr (to_name off)" "dict_get tool ''input_schema'' = JDict schema"
    "dict_get schema ''properties'' = JDict properties" "fst ` set properties \<subseteq> ps_name ` set specs"
    "offer_parameters specs properties ctx = Some (Inr (p, e, s, r))" "to_pinned off = p" "to_enumerated off = e"
    "dict_get (to_input_schema off) ''properties'' = JDict s" "required_keys off = r"
    "dict_get (to_input_schema off) ''required'' = JList (map JStr r)"
proof -
  from assms obtain name description schema properties where
    h: "dict_get tool ''name'' = JStr name" "dict_get tool ''input_schema'' = JDict schema" "dict_get schema ''properties'' = JDict properties"
      "fst ` set properties \<subseteq> ps_name ` set specs"
    and m: "map_option (\<lambda>r. case r of Inl _ \<Rightarrow> None | Inr (p, e, s, req) \<Rightarrow> Some \<lparr>to_name = name, to_description = description,
        to_input_schema = [(''type'', JStr ''object''), (''properties'', JDict s), (''required'', JList (map JStr req)),
          (''additionalProperties'', JBool False)], to_pinned = p, to_enumerated = e\<rparr>) (offer_parameters specs properties ctx) = Some (Some off)"
    by (auto simp: build_one_offer_def split: json.splits if_splits)
  from m obtain z where z: "offer_parameters specs properties ctx = Some z" by auto
  show ?thesis
  proof (cases z)
    case (Inl u)
    with m z show ?thesis by simp
  next
    case (Inr y)
    obtain p e s r where y: "y = (p, e, s, r)" by (cases y) auto
    have strs: "concat (map (\<lambda>k. case k of JStr s \<Rightarrow> [s] | _ \<Rightarrow> []) (map JStr r)) = r" by (induction r) auto
    from m have off: "off = \<lparr>to_name = name, to_description = description,
        to_input_schema = [(''type'', JStr ''object''), (''properties'', JDict s), (''required'', JList (map JStr r)),
          (''additionalProperties'', JBool False)], to_pinned = p, to_enumerated = e\<rparr>"
      by (simp add: z Inr y)
    show ?thesis
      by (rule that [of schema properties p e s r])
        (use h z Inr y strs in \<open>simp_all add: off required_keys_def dict_get_or_def\<close>)
  qed
qed

lemma offer_forE:
  assumes "offer_for tool ctx allowlist = Some (Some off)"
  obtains t specs where "tool = JDict t" "map_of PIN_TABLE (to_name off) = Some specs" "build_one_offer t specs ctx = Some (Some off)"
    "to_name off \<in> set allowlist" "to_name off \<notin> set STRUCTURALLY_EXCLUDED_TOOLS"
proof -
  from assms obtain t name specs where "tool = JDict t" "dict_get t ''name'' = JStr name" "name \<in> set allowlist"
    "name \<notin> set STRUCTURALLY_EXCLUDED_TOOLS" "map_of PIN_TABLE name = Some specs" "build_one_offer t specs ctx = Some (Some off)"
    by (auto simp: offer_for_def split: json.splits if_splits option.splits)
  moreover from this(6) have "dict_get t ''name'' = JStr (to_name off)" by (rule build_one_offerE)
  ultimately show ?thesis using that by simp
qed

lemma build_offers_member:
  "build_offers tools ctx allowlist = Some offers \<Longrightarrow> off \<in> set offers \<Longrightarrow> \<exists>tool\<in>set tools. offer_for tool ctx allowlist = Some (Some off)"
  by (induction tools arbitrary: offers) (auto simp: bind_Some_iff split: option.splits)

subsection \<open>What a call holds\<close>

lemma map_of_fold_set:
  "map_of (fold (\<lambda>(k, v) d. dict_set d k v) kvs d) k =
     (case map_of (rev kvs) k of Some v \<Rightarrow> Some v | None \<Rightarrow> map_of d k)"
proof (induction kvs arbitrary: d)
  case (Cons x xs)
  then show ?case by (cases x) (auto simp: map_of_dict_set map_add_def split: option.splits)
qed simp

lemma sort_empty [simp]: "sort xs = [] \<longleftrightarrow> xs = []" for xs :: "string list"
  by (metis length_0_conv length_sort)

lemma find_None_all: "find P xs = None \<Longrightarrow> \<forall>x\<in>set xs. \<not> P x"
  by (simp add: find_None_iff)

lemma map_of_texts: "map_of (map (\<lambda>(k, v). (k, JStr v)) xs) k = map_option JStr (map_of xs k)"
  by (induction xs) auto

lemma resolve_argumentsE:
  assumes "resolve_arguments off supplied = Inr args"
  obtains given where "supplied = JDict given" "fst ` set given \<inter> fst ` set (to_pinned off) = {}"
    "fst ` set given \<subseteq> fst ` set (to_enumerated off)" "set (required_keys off) \<subseteq> fst ` set given"
    "\<And>k v. (k, v) \<in> set given \<Longrightarrow> is_choice (choices_of off k) v"
    "\<And>k. map_of args k = (case map_of (rev given) k of Some v \<Rightarrow> Some v | None \<Rightarrow> map_option JStr (map_of (to_pinned off) k))"
proof -
  from assms obtain given where g: "supplied = JDict given" by (auto simp: resolve_arguments_def split: json.splits)
  with assms have "filter (\<lambda>k. k \<in> fst ` set (to_pinned off)) (map fst given) = []"
    "filter (\<lambda>k. k \<notin> fst ` set (to_enumerated off)) (map fst given) = []"
    "find (\<lambda>k. k \<notin> set (map fst given)) (required_keys off) = None"
    "find (\<lambda>(k, v). \<not> is_choice (choices_of off k) v) given = None"
    and args: "args = fold (\<lambda>(k, v) d. dict_set d k v) given (map (\<lambda>(k, v). (k, JStr v)) (to_pinned off))"
    by (auto simp: resolve_arguments_def Let_def split: if_splits option.splits)
  then show ?thesis
    by (intro that [OF g]) (auto simp: filter_empty_conv map_of_fold_set map_of_texts split: option.split dest!: find_None_all)
qed

text \<open>What a parameter of a resolved call may be.\<close>

definition parameter_ok :: "pinned_context \<Rightarrow> dict \<Rightarrow> param_spec \<Rightarrow> bool" where
  "parameter_ok ctx args x = (case ps_role x of
     PINNED \<Rightarrow> (case ps_value x ctx of
         Some v \<Rightarrow> map_of args (ps_name x) = Some (JStr v) \<and> (case ps_shape_check x of Some ok \<Rightarrow> ok v | None \<Rightarrow> True)
       | None \<Rightarrow> False)
   | ENUMERATED \<Rightarrow> (case map_of args (ps_name x) of
         Some v \<Rightarrow> is_choice (ps_choices x) v
       | None \<Rightarrow> \<not> ps_required x))"

lemma filtered_choices:
  "distinct (map ps_name specs) \<Longrightarrow> x \<in> set specs \<Longrightarrow> ps_role x = ENUMERATED \<Longrightarrow>
   map_of (map (\<lambda>x. (ps_name x, ps_choices x)) (filter (\<lambda>x. ps_role x = ENUMERATED) specs)) (ps_name x) = Some (ps_choices x)"
  by (induction specs) (auto simp: image_iff)

lemma resolved_call:
  assumes "build_offers tools ctx allowlist = Some offers" and "off \<in> set offers" and "resolve_arguments off supplied = Inr args"
  shows "\<exists>specs. map_of PIN_TABLE (to_name off) = Some specs \<and> to_name off \<in> set allowlist \<and>
    (\<forall>x\<in>set specs. parameter_ok ctx args x) \<and> dom (map_of args) \<subseteq> ps_name ` set specs"
proof -
  from build_offers_member [OF assms(1,2)] obtain tool where "offer_for tool ctx allowlist = Some (Some off)" by blast
  then obtain t specs where specs: "map_of PIN_TABLE (to_name off) = Some specs" and b: "build_one_offer t specs ctx = Some (Some off)"
    and allowed: "to_name off \<in> set allowlist"
    by (rule offer_forE)
  note dis = table_distinct [OF specs]
  from b show ?thesis
  proof (rule build_one_offerE)
    fix properties schema p e s r
    assume o1: "offer_parameters specs properties ctx = Some (Inr (p, e, s, r))" "to_pinned off = p" "to_enumerated off = e"
      "required_keys off = r"
    note spec = offer_parameters_spec [OF o1(1) dis]
    from spec have names: "map fst p = map ps_name (filter (\<lambda>x. ps_role x = PINNED) specs)"
      and choices: "e = map (\<lambda>x. (ps_name x, ps_choices x)) (filter (\<lambda>x. ps_role x = ENUMERATED) specs)"
      and req: "r = map ps_name (filter (\<lambda>x. ps_role x = ENUMERATED \<and> ps_required x) specs)"
      and sat: "\<And>x. x \<in> set specs \<Longrightarrow> ps_role x = PINNED \<Longrightarrow> \<exists>v. ps_value x ctx = Some v \<and> (ps_name x, v) \<in> set p \<and>
        (case ps_shape_check x of Some ok \<Rightarrow> ok v | None \<Rightarrow> True)"
      by simp_all
    have keys: "fst ` set p = ps_name ` {x \<in> set specs. ps_role x = PINNED}" "fst ` set e = ps_name ` {x \<in> set specs. ps_role x = ENUMERATED}"
    proof -
      have "fst ` set p = set (map fst p)" by simp
      also have "\<dots> = ps_name ` {x \<in> set specs. ps_role x = PINNED}" unfolding names by auto
      finally show "fst ` set p = ps_name ` {x \<in> set specs. ps_role x = PINNED}" .
      show "fst ` set e = ps_name ` {x \<in> set specs. ps_role x = ENUMERATED}" unfolding choices by force
    qed
    have distinct_p: "distinct (map fst p)" unfolding names using dis by (simp add: distinct_map_filter)
    from assms(3) show ?thesis
    proof (rule resolve_argumentsE)
      fix given
      assume given: "fst ` set given \<inter> fst ` set (to_pinned off) = {}" "fst ` set given \<subseteq> fst ` set (to_enumerated off)"
        "set (required_keys off) \<subseteq> fst ` set given" and choice: "\<And>k v. (k, v) \<in> set given \<Longrightarrow> is_choice (choices_of off k) v"
        and args: "\<And>k. map_of args k = (case map_of (rev given) k of Some v \<Rightarrow> Some v | None \<Rightarrow> map_option JStr (map_of (to_pinned off) k))"
      have pinned: "parameter_ok ctx args x" if x: "x \<in> set specs" "ps_role x = PINNED" for x
      proof -
        from sat [OF x] obtain v where v: "ps_value x ctx = Some v" "(ps_name x, v) \<in> set p" "case ps_shape_check x of Some ok \<Rightarrow> ok v | None \<Rightarrow> True"
          by blast
        have "map_of p (ps_name x) = Some v" using v(2) distinct_p by simp
        moreover have "map_of (rev given) (ps_name x) = None"
          using given(1) v(2) o1(2) by (force simp: map_of_eq_None_iff)
        ultimately show ?thesis using x(2) v args [of "ps_name x"] o1(2) by (simp add: parameter_ok_def)
      qed
      have chosen: "parameter_ok ctx args x" if x: "x \<in> set specs" "ps_role x = ENUMERATED" for x
      proof -
        have c: "choices_of off (ps_name x) = ps_choices x"
          using filtered_choices [OF dis x] choices o1(3) by (simp add: choices_of_def)
        have "ps_name x \<notin> fst ` set p" using keys(1) x dis by (auto simp: distinct_map inj_on_def)
        then have np: "map_of (to_pinned off) (ps_name x) = None" using o1(2) by (simp add: map_of_eq_None_iff)
        show ?thesis
        proof (cases "map_of (rev given) (ps_name x)")
          case None
          then have "ps_name x \<notin> fst ` set given" by (simp add: map_of_eq_None_iff)
          then have "\<not> ps_required x" using given(3) o1(4) req x by auto
          with None np x(2) args [of "ps_name x"] show ?thesis by (simp add: parameter_ok_def)
        next
          case (Some v)
          then have "(ps_name x, v) \<in> set given" using map_of_SomeD by fastforce
          from choice [OF this] Some x(2) c args [of "ps_name x"] show ?thesis by (simp add: parameter_ok_def)
        qed
      qed
      have "dom (map_of args) \<subseteq> ps_name ` set specs"
      proof
        fix k assume "k \<in> dom (map_of args)"
        have "k \<in> fst ` set given \<or> k \<in> fst ` set p"
        proof (rule ccontr)
          assume "\<not> (k \<in> fst ` set given \<or> k \<in> fst ` set p)"
          then have "map_of (rev given) k = None" "map_of (to_pinned off) k = None" using o1(2) by (simp_all add: map_of_eq_None_iff)
          with args [of k] \<open>k \<in> dom (map_of args)\<close> show False by (simp add: domIff)
        qed
        then show "k \<in> ps_name ` set specs" using given(2) keys o1(3) by auto
      qed
      moreover have "\<forall>x\<in>set specs. parameter_ok ctx args x" using pinned chosen by (metis param_role.exhaust)
      ultimately show ?thesis using specs allowed by blast
    qed
  qed
qed

text \<open>A model chooses nothing but choices.  Whatever arguments it supplies, a call that resolves is one of the
  allowed tools of the table; every pinned parameter holds the value the event pinned, which passes
  the parameter's check; every other one is absent or one of its declared choices; and there is no
  further argument.\<close>

theorem calls_are_pinned:
  assumes "build_offers tools ctx allowlist = Some offers" and "off \<in> set offers" and "resolve_arguments off supplied = Inr args"
  shows "\<exists>specs. map_of PIN_TABLE (to_name off) = Some specs \<and> to_name off \<in> set allowlist \<and>
    (\<forall>x\<in>set specs. parameter_ok ctx args x) \<and> dom (map_of args) \<subseteq> ps_name ` set specs"
  by (rule resolved_call [OF assms])

definition lab_tool :: json where
  "lab_tool = JDict [(''name'', JStr ''check_lab''), (''description'', JStr ''state''), (''input_schema'', JDict [(''type'', JStr ''object''),
     (''properties'', JDict [(''scope'', JDict [(''type'', JStr ''string'')]), (''intent'', JDict [(''type'', JStr ''string'')])])])]"

definition lab_context :: pinned_context where
  "lab_context = \<lparr>pc_device = ''PE2'', pc_subject = Some ''10.255.0.1'', pc_flow = Some ''bgp_session''\<rparr>"

definition lab_offer :: tool_offer where
  "lab_offer = hd (the (build_offers [lab_tool] lab_context [''check_lab'']))"

lemma lab_offered:
  "build_offers [lab_tool] lab_context [''check_lab''] = Some [lab_offer]"
  "resolve_arguments lab_offer (JDict [(''intent'', JStr ''bgp'')]) = Inr [(''scope'', JStr ''PE2''), (''intent'', JStr ''bgp'')]"
  "resolve_arguments lab_offer (JDict [(''scope'', JStr ''fabric'')]) = Inl (PinnedSupplied [''scope''])"
  by code_simp+

theorem pinned_witness:
  "list_all (parameter_ok lab_context [(''scope'', JStr ''PE2''), (''intent'', JStr ''bgp'')]) (the (map_of PIN_TABLE (to_name lab_offer)))"
  using calls_are_pinned [OF lab_offered(1) _ lab_offered(2)] by (auto simp: list_all_iff)

end
