(* ===== verification/Investigation.thy ===== *)
theory Investigation
  imports Epoch
begin

section \<open>One investigation, end to end\<close>

text \<open>
  Models the deterministic half of \<open>investigation.py\<close>, a run without an analyst, and \<open>render_report\<close> of
  \<open>render.py\<close>: the epoch, the question whether the subject exists, the walk, the report and the payload
  a caller gets.  The reading and rendering of the log window, the counts of the device sessions, the
  narrowing shadow and the prose of a coherence verdict are arguments.  The second part proves what a
  caller may conclude from a payload that calls itself trustworthy.
\<close>

subsection \<open>The report\<close>

definition NEXT_CHECK :: "(string \<times> string) list" where
  "NEXT_CHECK = [
     (''peer_not_established'',
        ''Read the peer'' @
        [CHR 0x27] @
        ''s own view of the session: the far end may be refusing, or configured with a different '' @
        ''AS or authentication.''),
     (''transport_blocked'',
        ''The TCP socket to port 179 is not established. Check for an ACL, a control-plane '' @
        ''policy, or an administratively shut neighbour.''),
     (''peer_unreachable_no_route'',
        ''There is no route to the peer'' @
        [CHR 0x27] @
        ''s loopback. Check the IGP on the path before looking at BGP again.''),
     (''igp_isolated'',
        ''The subject device has no IS-IS adjacencies. Check its interfaces and IS-IS '' @
        ''configuration on the device itself.''),
     (''interface_line_down'',
        ''A physical interface on the path is down. Check the port, the optic and the far end '' @
        ''before anything above it.''),
     (''adjacency_not_up'',
        ''The IS-IS adjacency on this interface has not formed, though the interface itself is '' @
        ''healthy. Check IS-IS configuration on both ends -- area, authentication, network type, '' @
        ''or whether IS-IS is enabled on this interface at all.''),
     (''session_not_up'',
        ''No LDP session is Oper on this interface, though the interface itself is healthy. Check '' @
        ''LDP configuration on both ends -- whether LDP is enabled on this interface at all, '' @
        ''discovery hello parameters, and whether the peer'' @
        [CHR 0x27] @
        ''s transport address (usually its loopback) is reachable.''),
     (CAUSE_NOT_LOCALISED,
        ''Every layer beneath the symptom is healthy, so the cause is not in this ladder. Check '' @
        ''configuration and policy on both ends.''),
     (ALL_LAYERS_HEALTHY,
        ''No fault on this dependency path. If a problem is being reported, it is about something '' @
        ''this flow does not cover.''),
     (NO_FAULT_ON_PATH,
        ''The session is healthy. The broken rungs below are real and are not on the path between '' @
        ''these two endpoints -- check them on their own terms.''),
     (UNDETERMINED,
        ''A rung could not be read, so nothing below it was evaluated. Fix the collection failure '' @
        ''and run again.''),
     (SUBJECT_NOT_FOUND,
        ''This device has no such object. Check the name or address against the device'' @
        [CHR 0x27] @
        ''s own inventory of them -- the reason lists what it does have. Nothing was '' @
        ''investigated, so nothing here is a statement about the network.''),
     (TEMPORALLY_INCOHERENT,
        ''The fabric changed while it was being read, so these observations do not describe one '' @
        ''state. Run again once it has settled.'')]"

definition next_check_for :: "string \<Rightarrow> string" where
  "next_check_for finding = (case map_of NEXT_CHECK finding of
     Some advice \<Rightarrow> advice
   | None \<Rightarrow> ''No specific guidance is registered for '' @ repr_str finding @
       ''. Read the rung table below and treat the lowest broken rung as the starting point.'')"

definition first_key :: "rung_outcome \<Rightarrow> string option" where
  "first_key x = (case cr_evidence_keys (ro_result x) of k # _ \<Rightarrow> Some k | [] \<Rightarrow> None)"

definition reason_suffix :: "rung_outcome \<Rightarrow> string" where
  "reason_suffix x = (case cr_reason (ro_result x) of Some (c # cs) \<Rightarrow> '': '' @ c # cs | _ \<Rightarrow> [])"

fun observations :: "nat \<Rightarrow> nat \<Rightarrow> rung_outcome list \<Rightarrow> json list" where
  "observations n len [] = []"
| "observations n len (x # xs) =
     JDict ([(''claim'', JStr (show_nat n @ ''/'' @ show_nat len @ '' '' @ ro_rung x @ '' on '' @ ro_device x @ '' is '' @
        status_value (ro_status x) @ reason_suffix x)), (''position'', JInt (int n)), (''of'', JInt (int len))] @
        (case first_key x of Some k \<Rightarrow> [(''evidence_key'', JStr k)] | None \<Rightarrow> []))
     # observations (Suc n) len xs"

text \<open>\<open>index = {o.rung: n \<dots>}\<close>: the last position of a rung's name.\<close>

definition rung_index :: "rung_outcome list \<Rightarrow> string \<Rightarrow> nat option" where
  "rung_index os = map_of (rev (zip (map ro_rung os) [1..<Suc (length os)]))"

definition obs_of :: "rung_outcome list \<Rightarrow> rung_outcome list \<Rightarrow> json" where
  "obs_of os xs = JList (concat (map (\<lambda>x. case rung_index os (ro_rung x) of
     Some n \<Rightarrow> [JStr (''obs-'' @ show_nat n)] | None \<Rightarrow> []) xs))"

definition all_obs :: "rung_outcome list \<Rightarrow> json" where
  "all_obs os = JList (map (\<lambda>r. JStr (''obs-'' @ show_nat (case rung_index os r of Some n \<Rightarrow> n | None \<Rightarrow> 0)))
     (from_keys (map ro_rung os)))"

definition claim_based_on :: "string \<Rightarrow> json \<Rightarrow> json" where
  "claim_based_on claim based_on = JDict [(''claim'', JStr claim), (''based_on'', based_on)]"

definition cause_claim :: "rung_outcome \<Rightarrow> rung_outcome list \<Rightarrow> string" where
  "cause_claim c chain =
     (if chain \<noteq> [] then ro_rung c @ '' on '' @ ro_device c @ '' is the lowest broken layer, and '' @
          py_join '', '' (map ro_rung chain) @ '' '' @ (if length chain > 1 then ''are'' else ''is'') @
          '' broken above it -- consistent with '' @ ro_rung c @ '' being the cause of the reported symptom.''
      else ro_rung c @ '' on '' @ ro_device c @
          '' is the only broken layer and nothing beneath it is broken, so the cause is at this layer.'')"

definition interpretations :: "descent_result \<Rightarrow> json list" where
  "interpretations d =
     (let os = dr_outcomes d; why = (case dr_reason d of Some r \<Rightarrow> r | None \<Rightarrow> ''None'')
      in if cause d \<noteq> None \<and> dr_finding d \<notin> {UNDETERMINED, NO_FAULT_ON_PATH, TEMPORALLY_INCOHERENT}
         then [claim_based_on (cause_claim (the (cause d)) (causal_chain d)) (obs_of os (causal_chain d @ [the (cause d)]))]
         else if dr_finding d = NO_FAULT_ON_PATH
         then [claim_based_on (''The symptom rung is healthy, so nothing beneath it explains anything. '' @
                show_nat (length (broken_outcomes os)) @ '' broken rung(s) were observed and are not on the dependency path between '' @
                dr_device d @ '' and '' @ dr_subject d @ ''.'') (obs_of os (take 1 os @ broken_outcomes os))]
         else if dr_finding d = ALL_LAYERS_HEALTHY
         then [claim_based_on (''Every layer between '' @ dr_device d @ '' and '' @ dr_subject d @
                '' is healthy. No fault was found on this dependency path.'') (all_obs os)]
         else if dr_finding d = UNDETERMINED
         then [claim_based_on (''The walk stopped at an unread rung, so nothing below it was evaluated and no cause can be named. Reason: '' @
                why) (all_obs os)]
         else if dr_finding d = SUBJECT_NOT_FOUND
         then [claim_based_on (''No investigation was run: '' @ why @ '' Nothing here is a statement about the network.'') (JList [])]
         else if dr_finding d = TEMPORALLY_INCOHERENT
         then [claim_based_on (''The fabric changed between the walk and the re-read, so these observations do not describe one '' @
                ''state and no causal claim is supported by them.'') (all_obs os)]
         else [])"

definition render_report :: "descent_result \<Rightarrow> json" where
  "render_report d = JDict [(''authoritative'', JBool True), (''generated_by'', JStr ''code''), (''finding'', JStr (dr_finding d)),
     (''rungs_examined'', JInt (int (length (dr_outcomes d)))),
     (''observations'', JList (observations 1 (length (dr_outcomes d)) (dr_outcomes d))),
     (''interpretations'', JList (interpretations d)),
     (''recommendation'', JDict [(''next_check'', JStr (next_check_for (dr_finding d))), (''requires_human'', JBool True)])]"

definition report_grounding_note :: string where
  "report_grounding_note =
     ''not graded: the authoritative report is generated from the descent'' @ [CHR 0x27] @
     ''s typed fields, so grounding it would check code against itself and '' @
     ''always pass. The model paraphrase, where present, is graded normally.''"

subsection \<open>The inventory\<close>

record inventory_note =
  nt_applies_to :: "string option"
  nt_note :: json
  nt_author :: json
  nt_recorded :: json

record inventory_entry =
  in_name :: string
  in_router_id :: "string option"
  in_notes :: "inventory_note list"

definition inventory_resolver :: "inventory_entry list \<Rightarrow> resolver" where
  "inventory_resolver entries subject = (case find (\<lambda>e. in_router_id e = Some subject) entries of
     Some e \<Rightarrow> OneDevice (in_name e)
   | None \<Rightarrow> ResolverError (''no device in the inventory owns '' @ repr_str subject @ ''; refusing to fall back to '' @
       ''the local device, because reading the wrong device'' @ [CHR 0x27] @ ''s state produces a '' @
       ''healthy-looking answer about the wrong thing''))"

definition origin_prefix_for :: "inventory_entry list \<Rightarrow> string \<Rightarrow> string + string" where
  "origin_prefix_for entries device = (case find (\<lambda>e. in_name e = device) entries of
     None \<Rightarrow> Inl (repr_str device @ '' is not in the inventory'')
   | Some e \<Rightarrow> (case in_router_id e of
       Some (c # cs) \<Rightarrow> Inr (c # cs @ ''/32'')
     | _ \<Rightarrow> Inl (repr_str device @ '' has no router_id in the inventory, so the route back '' @
         ''toward it cannot be looked up; a path-scoped rung is unevaluated '' @ ''rather than guessing a prefix'')))"

definition note_applies :: "string list \<Rightarrow> inventory_note \<Rightarrow> bool" where
  "note_applies intents_read n =
     (let applies = py_lower (py_strip (case nt_applies_to n of Some s \<Rightarrow> s | None \<Rightarrow> []))
      in applies = [] \<or> applies \<in> set intents_read)"

definition note_json :: "string \<Rightarrow> inventory_note \<Rightarrow> json" where
  "note_json device n = JDict [(''device'', JStr device),
     (''applies_to'', (case nt_applies_to n of Some s \<Rightarrow> JStr s | None \<Rightarrow> JNull)), (''note'', nt_note n),
     (''author'', nt_author n), (''recorded'', nt_recorded n)]"

definition notes_for_devices :: "inventory_entry list \<Rightarrow> string list \<Rightarrow> string list \<Rightarrow> json list" where
  "notes_for_devices entries devices intents_read =
     concat (map (\<lambda>e. map (note_json (in_name e)) (filter (note_applies intents_read) (in_notes e)))
       (filter (\<lambda>e. in_name e \<in> set devices) entries))"

subsection \<open>The result\<close>

definition EMITTED :: string where "EMITTED = ''emitted''"
definition WITHHELD :: string where "WITHHELD = ''withheld''"
definition COVERAGE_LIMITED :: string where "COVERAGE_LIMITED = ''coverage_limited''"
definition NOT_ATTEMPTED :: string where "NOT_ATTEMPTED = ''not_attempted''"

definition FINDINGS_WITHOUT_A_CAUSE :: "string list" where
  "FINDINGS_WITHOUT_A_CAUSE = [UNDETERMINED, NO_FAULT_ON_PATH, TEMPORALLY_INCOHERENT, SUBJECT_NOT_FOUND]"

text \<open>The fields a run without an analyst sets; the paraphrases keep their defaults.\<close>

record investigation =
  iv_device :: string
  iv_subject :: string
  iv_flow :: string
  iv_descent :: descent_result
  iv_report :: json
  iv_report_status :: string
  iv_correlation :: json
  iv_correlation_status :: string
  iv_coverage :: json
  iv_operator_notes :: "json list"
  iv_origin_unresolved :: "string option"
  iv_sessions :: json
  iv_narrowing_shadow :: json

definition trustworthy :: "investigation \<Rightarrow> bool" where
  "trustworthy r \<longleftrightarrow> dr_finding (iv_descent r) \<notin> {UNDETERMINED, TEMPORALLY_INCOHERENT, SUBJECT_NOT_FOUND}"

definition outcome_dict :: "rung_outcome \<Rightarrow> dict" where
  "outcome_dict x = [(''rung'', JStr (ro_rung x)), (''device'', JStr (ro_device x)),
     (''reason'', (case cr_reason (ro_result x) of Some s \<Rightarrow> JStr s | None \<Rightarrow> JNull))]"

abbreviation outcome_json :: "rung_outcome \<Rightarrow> json" where
  "outcome_json x \<equiv> JDict (outcome_dict x)"

definition off_path :: "investigation \<Rightarrow> json list" where
  "off_path r = (if dr_finding (iv_descent r) \<noteq> NO_FAULT_ON_PATH then []
     else map outcome_json (broken_outcomes (dr_outcomes (iv_descent r))))"

definition cause_json :: "descent_result \<Rightarrow> json" where
  "cause_json d = (case cause d of
     Some c \<Rightarrow> if dr_finding d \<notin> set FINDINGS_WITHOUT_A_CAUSE then outcome_json c else JNull
   | None \<Rightarrow> JNull)"

definition rung_dict :: "nat \<Rightarrow> nat \<Rightarrow> rung_outcome \<Rightarrow> dict" where
  "rung_dict n len x = [(''position'', JInt (int n)), (''of'', JInt (int len)), (''rung'', JStr (ro_rung x)), (''device'', JStr (ro_device x)),
     (''status'', JStr (status_value (ro_status x))),
     (''reason'', (case cr_reason (ro_result x) of Some s \<Rightarrow> JStr s | None \<Rightarrow> JNull)),
     (''evidence_keys'', JList (map JStr (cr_evidence_keys (ro_result x))))]"

fun rung_dicts :: "nat \<Rightarrow> nat \<Rightarrow> rung_outcome list \<Rightarrow> dict list" where
  "rung_dicts n len [] = []"
| "rung_dicts n len (x # xs) = rung_dict n len x # rung_dicts (Suc n) len xs"

fun state_value :: "coherence_state \<Rightarrow> string" where
  "state_value COHERENT = ''coherent''"
| "state_value FABRIC_MOVED = ''fabric_moved''"
| "state_value WINDOW_LIMITED = ''window_limited''"
| "state_value UNVERIFIED = ''unverified''"

definition reread_json :: "reread \<Rightarrow> json" where
  "reread_json r = JDict [(''rung'', JStr (rr_rung r)), (''device'', JStr (rr_device r)), (''before'', JStr (rr_before r)),
     (''after'', JStr (rr_after r)), (''agrees'', JBool (agrees r)),
     (''detail'', (case rr_detail r of Some s \<Rightarrow> JStr s | None \<Rightarrow> JNull))]"

definition coherence_json :: "(coherence \<Rightarrow> string) \<Rightarrow> coherence \<Rightarrow> json" where
  "coherence_json prose c = JDict [(''status'', JStr (state_value (coherence_status c))), (''ok'', JBool (coherence_ok c)),
     (''refuses'', JBool (refuses c)), (''caveat'', (if has_caveat c then JStr (prose c) else JNull)),
     (''skew_seconds'', JInt (ch_skew c)), (''bound_seconds'', JInt (ch_bound c)), (''within_bound'', JBool (within_bound c)),
     (''stable'', JBool (stable c)), (''detail'', JStr (prose c)), (''rereads'', JList (map reread_json (ch_rereads c)))]"

text \<open>The half of a section a model would write: not attempted without an analyst.\<close>

definition paraphrase_json :: "string \<Rightarrow> json" where
  "paraphrase_json summary = JDict [(''status'', JStr NOT_ATTEMPTED), (''content'', JNull), (''authoritative'', JBool False),
     (''grounding'', JStr summary)]"

definition to_payload :: "(coherence \<Rightarrow> string) \<Rightarrow> string \<Rightarrow> investigation \<Rightarrow> dict" where
  "to_payload prose summary r =
     (let d = iv_descent r
      in [(''tool'', JStr ''investigate''), (''device'', JStr (iv_device r)), (''subject'', JStr (iv_subject r)),
          (''flow'', JStr (iv_flow r)), (''finding'', JStr (dr_finding d)),
          (''reason'', (case dr_reason d of Some s \<Rightarrow> JStr s | None \<Rightarrow> JNull)),
          (''origin_unresolved'', (case iv_origin_unresolved r of Some s \<Rightarrow> JStr s | None \<Rightarrow> JNull)),
          (''operator_notes'', JList (iv_operator_notes r)), (''narrowing_shadow'', iv_narrowing_shadow r),
          (''cause'', cause_json d), (''causal_chain'', JList (map outcome_json (causal_chain d))),
          (''rungs_examined'', JInt (int (length (dr_outcomes d)))),
          (''rungs'', JList (map JDict (rung_dicts 1 (length (dr_outcomes d)) (dr_outcomes d)))),
          (''report'', JDict [(''status'', JStr (iv_report_status r)), (''content'', iv_report r), (''authoritative'', JBool True),
             (''grounding'', JStr report_grounding_note), (''paraphrase'', paraphrase_json summary)]),
          (''correlation'', JDict [(''status'', JStr (iv_correlation_status r)), (''content'', iv_correlation r),
             (''authoritative'', JBool True), (''grounding'', JStr report_grounding_note), (''caveat'', JNull),
             (''paraphrase'', paraphrase_json summary)]),
          (''off_path'', JList (off_path r)),
          (''coherence'', (case dr_coherence d of Some c \<Rightarrow> coherence_json prose c | None \<Rightarrow> JNull)),
          (''sessions'', iv_sessions r), (''usage'', JNull), (''coverage'', iv_coverage r), (''repairs'', JList []),
          (''trustworthy'', JBool (trustworthy r))])"

subsection \<open>The run\<close>

datatype investigate_error = BadFlow flow_error | BadCollection string

text \<open>What a run without an analyst takes from outside: the device counts and the log window of the cause.\<close>

record surroundings =
  su_inventory :: "inventory_entry list"
  su_fabric :: fabric
  su_error_text :: string
  su_sessions :: "evidence_epoch \<Rightarrow> json"
  su_timeline :: "descent_result \<Rightarrow> string \<Rightarrow> json \<times> json"
  su_shadow :: "descent_result \<Rightarrow> json"

definition walked_result ::
  "surroundings \<Rightarrow> flow \<Rightarrow> string \<Rightarrow> string \<Rightarrow> string \<Rightarrow> evidence_epoch \<Rightarrow> string option \<Rightarrow> descent_result \<Rightarrow> investigation" where
  "walked_result su f device subject flow ep unresolved d =
     (let touched = device # map ro_device (dr_outcomes d);
          intents = map (\<lambda>st. py_lower (cs_name st)) (concat (map rg_collect (fl_descent f)));
          (correlation, coverage, status) = (case cause d of
             Some c \<Rightarrow> (let (t, cov) = su_timeline su d (ro_device c) in (t, cov, EMITTED))
           | None \<Rightarrow> (JNull, JNull, NOT_ATTEMPTED))
      in \<lparr>iv_device = device, iv_subject = subject, iv_flow = flow, iv_descent = d, iv_report = render_report d,
          iv_report_status = EMITTED, iv_correlation = correlation, iv_correlation_status = status, iv_coverage = coverage,
          iv_operator_notes = notes_for_devices (su_inventory su) touched intents, iv_origin_unresolved = unresolved,
          iv_sessions = su_sessions su ep, iv_narrowing_shadow = su_shadow su d\<rparr>)"

definition absent_result ::
  "surroundings \<Rightarrow> flow \<Rightarrow> string \<Rightarrow> string \<Rightarrow> string \<Rightarrow> evidence_epoch \<Rightarrow> string option \<Rightarrow> check_result \<Rightarrow> investigation" where
  "absent_result su f device subject flow ep unresolved presence =
     (let d = \<lparr>dr_flow = fl_object_type f, dr_device = device, dr_subject = subject, dr_finding = SUBJECT_NOT_FOUND, dr_outcomes = [],
            dr_evidence_keys = cr_evidence_keys presence, dr_reason = cr_reason presence, dr_coherence = None\<rparr>
      in \<lparr>iv_device = device, iv_subject = subject, iv_flow = flow, iv_descent = d, iv_report = render_report d,
          iv_report_status = EMITTED, iv_correlation = JNull, iv_correlation_status = NOT_ATTEMPTED, iv_coverage = JNull,
          iv_operator_notes = [], iv_origin_unresolved = unresolved, iv_sessions = su_sessions su ep, iv_narrowing_shadow = JNull\<rparr>)"

text \<open>The presence check of a flow, when it has one, and a verdict that refuses the walk.\<close>

definition presence_of :: "flow \<Rightarrow> dict \<Rightarrow> string \<Rightarrow> check_result option option" where
  "presence_of f ev subject = (case fl_subject_present f of
     None \<Rightarrow> Some None
   | Some p \<Rightarrow> map_option Some (run_presence p ev subject))"

definition absent :: "check_result option \<Rightarrow> check_result option" where
  "absent presence = (case presence of Some c \<Rightarrow> if cr_status c = BROKEN then Some c else None | None \<Rightarrow> None)"

text \<open>\<open>None\<close> is any other exception raised below this module.\<close>

definition investigate_epoch ::
  "surroundings \<Rightarrow> flow \<Rightarrow> resolver option \<Rightarrow> string \<Rightarrow> string \<Rightarrow> string \<Rightarrow> string option \<Rightarrow> string option \<Rightarrow>
   evidence_epoch \<Rightarrow> investigation option" where
  "investigate_epoch su f resolve device subject flow origin unresolved ep = do {
     presence \<leftarrow> presence_of f (for_device ep device) subject;
     case absent presence of
       Some c \<Rightarrow> Some (absent_result su f device subject flow ep unresolved c)
     | None \<Rightarrow> map_option (walked_result su f device subject flow ep unresolved)
         (run_descent f device subject (\<lambda>t _ _. Some (for_device ep t)) resolve
           (Some (\<lambda>os. Some (check_coherence (su_fabric su) f os ep subject device resolve (su_error_text su)))) origin)
   }"

definition investigate ::
  "surroundings \<Rightarrow> resolver option \<Rightarrow> int \<Rightarrow> string \<Rightarrow> string \<Rightarrow> string \<Rightarrow> (investigate_error + investigation) option" where
  "investigate su resolver bound device subject flow = (case flow_for flow of
     Inl err \<Rightarrow> Some (Inl (BadFlow err))
   | Inr f \<Rightarrow>
       (let resolve = Some (case resolver of Some r \<Rightarrow> r | None \<Rightarrow> inventory_resolver (su_inventory su));
            (origin, unresolved) = (case origin_prefix_for (su_inventory su) device of Inl msg \<Rightarrow> (None, Some msg) | Inr p \<Rightarrow> (Some p, None))
        in do {
          collected \<leftarrow> collect_epoch (su_fabric su) f device subject resolve bound origin;
          case collected of
            Inl msg \<Rightarrow> Some (Inl (BadCollection msg))
          | Inr ep \<Rightarrow> map_option Inr (investigate_epoch su f resolve device subject flow origin unresolved ep)
        }))"

subsection \<open>What a run returns\<close>

lemma flow_for_registered: "flow_for flow = Inr f \<Longrightarrow> (flow, f) \<in> set FLOWS"
  by (auto simp: flow_for_def split: if_splits option.splits dest: map_of_SomeD)

lemma investigate_parts:
  assumes "investigate su resolver bound device subject flow = Some (Inr r)"
  obtains f ep origin unresolved resolve where "(flow, f) \<in> set FLOWS" "flow_for flow = Inr f"
    "resolve = Some (case resolver of Some x \<Rightarrow> x | None \<Rightarrow> inventory_resolver (su_inventory su))"
    "investigate_epoch su f resolve device subject flow origin unresolved ep = Some r"
  using assms
  by (simp add: investigate_def Let_def bind_Some_iff split: sum.splits prod.splits) (metis flow_for_registered sum.exhaust)+

lemma investigate_epoch_parts:
  assumes "investigate_epoch su f resolve device subject flow origin unresolved ep = Some r"
  obtains (absent) c where "presence_of f (for_device ep device) subject = Some (Some c)" "cr_status c = BROKEN"
      "r = absent_result su f device subject flow ep unresolved c"
  | (walked) d where "run_descent f device subject (\<lambda>t _ _. Some (for_device ep t)) resolve
        (Some (\<lambda>os. Some (check_coherence (su_fabric su) f os ep subject device resolve (su_error_text su)))) origin = Some d"
      "r = walked_result su f device subject flow ep unresolved d"
  using assms
  by (auto simp: investigate_epoch_def bind_Some_iff absent_def split: option.splits if_splits)

lemma walked_result_fields [simp]:
  "iv_descent (walked_result su f device subject flow ep unresolved d) = d"
  "iv_device (walked_result su f device subject flow ep unresolved d) = device"
  "iv_subject (walked_result su f device subject flow ep unresolved d) = subject"
  "iv_flow (walked_result su f device subject flow ep unresolved d) = flow"
  "iv_sessions (walked_result su f device subject flow ep unresolved d) = su_sessions su ep"
  "iv_narrowing_shadow (walked_result su f device subject flow ep unresolved d) = su_shadow su d"
  by (simp_all add: walked_result_def Let_def split: prod.split)

lemma absent_result_fields [simp]:
  "dr_finding (iv_descent (absent_result su f device subject flow ep unresolved c)) = SUBJECT_NOT_FOUND"
  "dr_outcomes (iv_descent (absent_result su f device subject flow ep unresolved c)) = []"
  "iv_device (absent_result su f device subject flow ep unresolved c) = device"
  "iv_subject (absent_result su f device subject flow ep unresolved c) = subject"
  "iv_flow (absent_result su f device subject flow ep unresolved c) = flow"
  by (simp_all add: absent_result_def Let_def)

lemma absent_untrusted: "\<not> trustworthy (absent_result su f device subject flow ep unresolved c)"
  by (simp add: trustworthy_def)

lemma run_descent_coherence:
  "run_descent f device subject collector resolver (Some (\<lambda>os. Some (check os))) origin = Some d \<Longrightarrow>
     dr_coherence d = Some (check (dr_outcomes d))"
  by (auto simp: run_descent_def bind_Some_iff)

text \<open>C17: A caller may act on a trustworthy answer.  When a run says so, every rung of the flow's ladder was
  read and cites evidence the result carries, and the symptom and the lowest broken rung were each evaluated
  again, on fresh evidence, with the status the walk had recorded.  A cause is named only under a
  broken symptom; it is then that lowest broken rung, still broken when it was evaluated again.
  (For a rung scoped to the path the second evaluation covers all physical interfaces, see
  \<open>reread_ignores_the_path\<close>.)\<close>

theorem trustworthy_answers_are_supported:
  assumes "investigate su resolver bound device subject flow = Some (Inr r)" and "trustworthy r"
  shows "\<exists>f. (flow, f) \<in> set FLOWS \<and> rung_path (iv_descent r) = map rg_name (fl_descent f) \<and>
    (\<forall>x\<in>set (dr_outcomes (iv_descent r)). ro_status x \<noteq> UNEVALUATED \<and> cr_evidence_keys (ro_result x) \<noteq> [] \<and>
       set (cr_evidence_keys (ro_result x)) \<subseteq> set (dr_evidence_keys (iv_descent r))) \<and>
    (\<exists>c. dr_coherence (iv_descent r) = Some c \<and> stable c) \<and>
    (\<forall>i < length (dr_outcomes (iv_descent r)). i = 0 \<or> lowest_broken (dr_outcomes (iv_descent r)) i \<longrightarrow>
       (\<exists>g\<in>set (fl_descent f). \<exists>c. rg_name g = ro_rung (dr_outcomes (iv_descent r) ! i) \<and>
          reread_result (su_fabric su) device subject (Some (case resolver of Some x \<Rightarrow> x | None \<Rightarrow> inventory_resolver (su_inventory su)))
            (su_error_text su) g = Inr c \<and> cr_status c = ro_status (dr_outcomes (iv_descent r) ! i))) \<and>
    (cause_json (iv_descent r) \<noteq> JNull \<longrightarrow> ro_status (hd (dr_outcomes (iv_descent r))) = BROKEN \<and>
       (\<exists>i. lowest_broken (dr_outcomes (iv_descent r)) i \<and> cause_json (iv_descent r) = outcome_json (dr_outcomes (iv_descent r) ! i)))"
  using assms(1)
proof (rule investigate_parts)
  fix f ep origin unresolved resolve
  assume f: "(flow, f) \<in> set FLOWS"
    and resolve: "resolve = Some (case resolver of Some x \<Rightarrow> x | None \<Rightarrow> inventory_resolver (su_inventory su))"
    and run: "investigate_epoch su f resolve device subject flow origin unresolved ep = Some r"
  from run show ?thesis
  proof (cases rule: investigate_epoch_parts)
    case absent
    then show ?thesis using assms(2) absent_untrusted by simp
  next
    case (walked d)
    note lad = registered_ladder [OF f]
    from walked(1) obtain ks why where shape: "walk_shape (fl_descent f) (dr_outcomes d)"
      and finding: "dr_finding d = finding_spec (map rg_finding (fl_descent f)) (map ro_status (dr_outcomes d)) (refused_by (dr_coherence d))"
      by (rule ladder.run_descent_parts [OF lad])
    have d: "iv_descent r = d" using walked(2) by simp
    with assms(2) have "dr_finding d \<noteq> UNDETERMINED" "dr_finding d \<noteq> TEMPORALLY_INCOHERENT" by (auto simp: trustworthy_def)
    with finding have read: "UNEVALUATED \<notin> set (map ro_status (dr_outcomes d))" and agreed: "\<not> refused_by (dr_coherence d)"
      by (auto simp: finding_spec_def split: if_splits)
    have names: "rung_path d = map rg_name (fl_descent f)"
      using walk_shape_names [OF shape] walk_shape_complete [OF shape read] by (simp add: rung_path_def)
    have cited: "ro_status x \<noteq> UNEVALUATED \<and> cr_evidence_keys (ro_result x) \<noteq> [] \<and> set (cr_evidence_keys (ro_result x)) \<subseteq> set (dr_evidence_keys d)"
      if "x \<in> set (dr_outcomes d)" for x
    proof -
      have "ro_status x \<noteq> UNEVALUATED" using read that by force
      with ladder.outcomes_cited [OF lad walked(1) that] show ?thesis by simp
    qed
    obtain c where c: "dr_coherence d = Some c"
      "c = check_coherence (su_fabric su) f (dr_outcomes d) ep subject device resolve (su_error_text su)"
      using run_descent_coherence [OF walked(1)] by blast
    with agreed have refuses: "\<not> refuses c" by (simp add: refused_by_def)
    note again = rereads_agree(2) [OF shape ladder.well_formed [OF lad] refuses [unfolded c(2)], unfolded resolve]
    have named: "\<exists>i. lowest_broken (dr_outcomes d) i \<and> cause_json d = outcome_json (dr_outcomes d ! i)" if cause: "cause_json d \<noteq> JNull"
    proof -
      from cause have bs: "broken_outcomes (dr_outcomes d) \<noteq> []" by (auto simp: cause_json_def cause_def Let_def split: if_splits)
      then obtain i where "lowest_broken (dr_outcomes d) i" using lowest_broken_exists by blast
      moreover from this have "cause d = Some (dr_outcomes d ! i)" using lowest_broken_last bs by (simp add: cause_def)
      ultimately show ?thesis using cause by (auto simp: cause_json_def split: if_splits)
    qed
    from c(1) refuses have "dr_coherence d = Some c \<and> stable c" by (simp add: refuses_iff_not_stable)
    moreover have "ro_status (hd (dr_outcomes d)) = BROKEN" if cause: "cause_json d \<noteq> JNull"
    proof -
      from cause have bs: "broken_outcomes (dr_outcomes d) \<noteq> []" and n: "dr_finding d \<noteq> NO_FAULT_ON_PATH"
        by (auto simp: cause_json_def cause_def Let_def FINDINGS_WITHOUT_A_CAUSE_def split: if_splits)
      then have ne: "dr_outcomes d \<noteq> []" by (auto simp: broken_outcomes_def)
      have "ro_status (hd (dr_outcomes d)) \<noteq> HEALTHY"
      proof
        assume "ro_status (hd (dr_outcomes d)) = HEALTHY"
        then have "hd (map ro_status (dr_outcomes d)) = HEALTHY" using ne by (simp add: hd_map)
        moreover have "BROKEN \<in> set (map ro_status (dr_outcomes d))" using bs by (force simp: broken_outcomes_def filter_empty_conv)
        ultimately have "dr_finding d = NO_FAULT_ON_PATH"
          using finding read agreed last_broken_None [of "map ro_status (dr_outcomes d)"]
          by (auto simp: finding_spec_def split: option.split)
        with n show False by simp
      qed
      moreover have "ro_status (hd (dr_outcomes d)) \<noteq> UNEVALUATED" using read hd_in_set [OF ne] by force
      ultimately show ?thesis by (cases "ro_status (hd (dr_outcomes d))") auto
    qed
    ultimately show ?thesis unfolding d using f names cited again named by (intro exI [of _ f]) blast
  qed
qed

subsection \<open>A recorded run\<close>

definition lab_inventory :: "inventory_entry list" where
  "lab_inventory = [\<lparr>in_name = ''RR1'', in_router_id = Some ''10.255.0.1'', in_notes = []\<rparr>,
     \<lparr>in_name = ''PE2'', in_router_id = Some ''10.255.0.12'',
       in_notes = [\<lparr>nt_applies_to = Some ''ISIS'', nt_note = JStr ''uplinks are shut on Mondays'', nt_author = JStr ''ops'', nt_recorded = JNull\<rparr>]\<rparr>,
     \<lparr>in_name = ''P1'', in_router_id = Some ''10.255.0.99'', in_notes = []\<rparr>]"

definition lab_surroundings :: surroundings where
  "lab_surroundings = \<lparr>su_inventory = lab_inventory, su_fabric = recorded_fabric (path_evidence ''down''), su_error_text = [],
     su_sessions = (\<lambda>_. JDict []), su_timeline = (\<lambda>_ _. (JDict [], JDict [])), su_shadow = (\<lambda>_. JNull)\<rparr>"

definition lab_run :: "string \<Rightarrow> (investigate_error + investigation) option" where
  "lab_run subject = investigate lab_surroundings None 30 ''RR1'' subject ''bgp_session''"

definition lab_answer :: "string \<Rightarrow> (string \<times> bool \<times> bool \<times> nat) option" where
  "lab_answer subject = (case lab_run subject of
     Some (Inr r) \<Rightarrow> Some (dr_finding (iv_descent r), trustworthy r, cause_json (iv_descent r) = JNull, length (iv_operator_notes r))
   | _ \<Rightarrow> None)"

lemma lab_answers:
  "lab_answer ''10.255.0.12'' = Some (''interface_line_down'', True, False, 1)"
  "lab_answer ''10.255.0.99'' = Some (SUBJECT_NOT_FOUND, False, True, 0)"
  by code_simp+

lemma lab_run_Some:
  obtains r where "lab_run ''10.255.0.12'' = Some (Inr r)" "dr_finding (iv_descent r) = ''interface_line_down''" "trustworthy r"
    "cause_json (iv_descent r) \<noteq> JNull"
  using lab_answers(1) by (auto simp: lab_answer_def split: option.splits sum.splits)

theorem trustworthy_witness:
  "\<exists>r. lab_run ''10.255.0.12'' = Some (Inr r) \<and> rung_path (iv_descent r) = map rg_name (fl_descent BGP_SESSION_FLOW) \<and>
     ro_status (hd (dr_outcomes (iv_descent r))) = BROKEN \<and> (\<exists>i. lowest_broken (dr_outcomes (iv_descent r)) i)"
proof (rule lab_run_Some)
  fix r assume r: "lab_run ''10.255.0.12'' = Some (Inr r)" "dr_finding (iv_descent r) = ''interface_line_down''" "trustworthy r"
    "cause_json (iv_descent r) \<noteq> JNull"
  from trustworthy_answers_are_supported [OF r(1) [unfolded lab_run_def] r(3)] r(1,4) show ?thesis by (auto simp: FLOWS_def)
qed

end
