(* ===== verification/Receipts.thy ===== *)
theory Receipts
  imports Investigation Event_Identity
begin

section \<open>Receipts: what the event agent accepts as an answer\<close>

text \<open>
  Models \<open>event_reporting.py\<close>: the reader that turns the payload of an investigation, which arrives over
  a transport, into the receipt a ticket is answered with.  \<open>None\<close> is an exception that is not a
  \<open>ReceiptValidationError\<close>; the wording of the errors is left out.  The second part composes it with the
  runner: which payloads of \<open>investigate\<close> the reader accepts.
\<close>

subsection \<open>The vocabulary\<close>

definition DECLARED_FINDINGS :: "string list" where
  "DECLARED_FINDINGS = concat (map (fl_findings \<circ> snd) FLOWS)"

definition NO_CAUSE_FINDINGS :: "string list" where
  "NO_CAUSE_FINDINGS = [ALL_LAYERS_HEALTHY, CAUSE_NOT_LOCALISED, NO_FAULT_ON_PATH, SUBJECT_NOT_FOUND,
     TEMPORALLY_INCOHERENT, UNDETERMINED]"

definition VALID_RUNG_STATUS :: "string list" where
  "VALID_RUNG_STATUS = [''healthy'', ''broken'', ''unevaluated'']"

datatype receipt_error =
    UnexpectedTool | NotAText string | UnsupportedFlow string | UndeclaredFinding string | NotABool
  | NotAnObject string | NotObjects string | RungCount | RungPositions | RungIdentity | RungStatus | RungReason | RungKeys
  | CauseForbidden string | CauseInvalid | CauseNotBroken | RefusedButTrustworthy | ShadowActive

record receipt =
  rc_device :: string
  rc_subject :: string
  rc_flow :: string
  rc_finding :: string
  rc_reason :: "string option"
  rc_trustworthy :: bool
  rc_cause :: "dict option"
  rc_causal_chain :: "dict list"
  rc_rungs :: "dict list"
  rc_coherence :: "dict option"
  rc_coverage :: "dict option"
  rc_sessions :: "dict option"
  rc_operator_notes :: "dict list"
  rc_off_path :: "dict list"
  rc_report_status :: "string option"
  rc_correlation_status :: "string option"
  rc_narrowing_shadow :: "dict option"

subsection \<open>The parts\<close>

definition required_text :: "dict \<Rightarrow> string \<Rightarrow> receipt_error + string" where
  "required_text p k = (case dict_get p k of
     JStr s \<Rightarrow> if py_strip s = [] then Inl (NotAText k) else Inr s
   | _ \<Rightarrow> Inl (NotAText k))"

definition object_or_none :: "dict \<Rightarrow> string \<Rightarrow> receipt_error + dict option" where
  "object_or_none p k = (case dict_get p k of
     JNull \<Rightarrow> Inr None | JDict d \<Rightarrow> Inr (Some d) | _ \<Rightarrow> Inl (NotAnObject k))"

fun all_objects :: "json list \<Rightarrow> dict list option" where
  "all_objects [] = Some []"
| "all_objects (JDict d # vs) = map_option (\<lambda>ds. d # ds) (all_objects vs)"
| "all_objects (_ # vs) = None"

definition object_sequence :: "dict \<Rightarrow> string \<Rightarrow> receipt_error + dict list" where
  "object_sequence p k = (case dict_get p k of
     JList vs \<Rightarrow> (case all_objects vs of Some ds \<Rightarrow> Inr ds | None \<Rightarrow> Inl (NotObjects k))
   | _ \<Rightarrow> Inl (NotObjects k))"

text \<open>\<open>status not in _VALID_RUNG_STATUS\<close>, a \<open>TypeError\<close> for a value that cannot be hashed.\<close>

definition valid_status :: "json \<Rightarrow> bool option" where
  "valid_status v = (case v of JList _ \<Rightarrow> None | JDict _ \<Rightarrow> None | JStr s \<Rightarrow> Some (s \<in> set VALID_RUNG_STATUS) | _ \<Rightarrow> Some False)"

definition rung_error :: "nat \<Rightarrow> nat \<Rightarrow> dict \<Rightarrow> receipt_error option option" where
  "rung_error position len r =
     (if \<not> py_eq (dict_get r ''position'') (JInt (int position)) \<or> \<not> py_eq (dict_get r ''of'') (JInt (int len)) then Some (Some RungPositions)
      else if \<not> is_string (dict_get r ''rung'') \<or> \<not> is_string (dict_get r ''device'') then Some (Some RungIdentity)
      else do {
        known \<leftarrow> valid_status (dict_get r ''status'');
        Some (if \<not> known then Some RungStatus
              else if \<not> is_string (dict_get r ''reason'') then Some RungReason
              else case dict_get r ''evidence_keys'' of
                JList ks \<Rightarrow> if list_all is_string ks then None else Some RungKeys
              | _ \<Rightarrow> Some RungKeys)
      })"

fun rungs_error :: "nat \<Rightarrow> nat \<Rightarrow> dict list \<Rightarrow> receipt_error option option" where
  "rungs_error position len [] = Some None"
| "rungs_error position len (r # rs) = do {
     e \<leftarrow> rung_error position len r;
     case e of Some err \<Rightarrow> Some (Some err) | None \<Rightarrow> rungs_error (Suc position) len rs
   }"

definition rungs_of :: "dict \<Rightarrow> (receipt_error + dict list) option" where
  "rungs_of p = (case object_sequence p ''rungs'' of
     Inl e \<Rightarrow> Some (Inl e)
   | Inr rs \<Rightarrow>
       if numeric (dict_get p ''rungs_examined'') \<noteq> Some (int (length rs)) \<or> rs = [] then Some (Inl RungCount)
       else map_option (\<lambda>e. case e of Some err \<Rightarrow> Inl err | None \<Rightarrow> Inr rs) (rungs_error 1 (length rs) rs))"

definition nonempty_text :: "json \<Rightarrow> bool" where
  "nonempty_text v \<longleftrightarrow> is_string v \<and> truthy v"

definition cause_error :: "dict \<Rightarrow> dict list \<Rightarrow> receipt_error option" where
  "cause_error c rungs =
     (if \<not> nonempty_text (dict_get c ''rung'') \<or> \<not> nonempty_text (dict_get c ''device'') \<or> \<not> nonempty_text (dict_get c ''reason'')
      then Some CauseInvalid
      else if list_ex (\<lambda>r. dict_get r ''rung'' = dict_get c ''rung'' \<and> dict_get r ''device'' = dict_get c ''device'' \<and>
          dict_get r ''status'' = JStr ''broken'') rungs then None
      else Some CauseNotBroken)"

fun first_error :: "receipt_error option list \<Rightarrow> receipt_error option" where
  "first_error [] = None"
| "first_error (Some e # es) = Some e"
| "first_error (None # es) = first_error es"

definition status_text :: "dict option \<Rightarrow> string option" where
  "status_text d = (case d of Some s \<Rightarrow> (case dict_get s ''status'' of JStr t \<Rightarrow> Some t | _ \<Rightarrow> None) | None \<Rightarrow> None)"

abbreviation sum_bind :: "('e + 'a) \<Rightarrow> ('a \<Rightarrow> ('e + 'b) option) \<Rightarrow> ('e + 'b) option" where
  "sum_bind x k \<equiv> (case x of Inl e \<Rightarrow> Some (Inl e) | Inr v \<Rightarrow> k v)"

abbreviation guard :: "bool \<Rightarrow> 'e \<Rightarrow> ('e + 'b) option \<Rightarrow> ('e + 'b) option" where
  "guard bad e k \<equiv> (if bad then Some (Inl e) else k)"

subsection \<open>The reader\<close>

text \<open>The fields after the rungs.\<close>

definition parse_rest ::
  "dict \<Rightarrow> string \<Rightarrow> string \<Rightarrow> string \<Rightarrow> string \<Rightarrow> bool \<Rightarrow> dict list \<Rightarrow> (receipt_error + receipt) option" where
  "parse_rest p device subject flow finding trusted rungs =
     sum_bind (object_or_none p ''cause'') (\<lambda>cause.
     guard (finding \<in> set NO_CAUSE_FINDINGS \<and> cause \<noteq> None) (CauseForbidden finding) (
     sum_bind (case cause of Some c \<Rightarrow> (case cause_error c rungs of Some e \<Rightarrow> Inl e | None \<Rightarrow> Inr ()) | None \<Rightarrow> Inr ()) (\<lambda>_.
     sum_bind (object_sequence p ''causal_chain'') (\<lambda>chain.
     sum_bind (case first_error (map (\<lambda>c. cause_error c rungs) chain) of Some e \<Rightarrow> Inl e | None \<Rightarrow> Inr ()) (\<lambda>_.
     sum_bind (object_or_none p ''coherence'') (\<lambda>coh.
     guard (trusted \<and> (case coh of Some c \<Rightarrow> dict_get c ''refuses'' = JBool True | None \<Rightarrow> False)) RefusedButTrustworthy (
     sum_bind (object_or_none p ''coverage'') (\<lambda>coverage.
     sum_bind (object_or_none p ''sessions'') (\<lambda>sessions.
     sum_bind (object_sequence p ''operator_notes'') (\<lambda>notes.
     sum_bind (object_sequence p ''off_path'') (\<lambda>off.
     sum_bind (object_or_none p ''report'') (\<lambda>report.
     sum_bind (object_or_none p ''correlation'') (\<lambda>correlation.
     sum_bind (object_or_none p ''narrowing_shadow'') (\<lambda>shadow.
     guard (case shadow of Some s \<Rightarrow> dict_get s ''active'' \<noteq> JBool False | None \<Rightarrow> False) ShadowActive (
     Some (Inr \<lparr>rc_device = device, rc_subject = subject, rc_flow = flow, rc_finding = finding,
       rc_reason = (case dict_get p ''reason'' of JStr s \<Rightarrow> Some s | _ \<Rightarrow> None), rc_trustworthy = trusted, rc_cause = cause,
       rc_causal_chain = chain, rc_rungs = rungs, rc_coherence = coh, rc_coverage = coverage, rc_sessions = sessions,
       rc_operator_notes = notes, rc_off_path = off, rc_report_status = status_text report,
       rc_correlation_status = status_text correlation, rc_narrowing_shadow = shadow\<rparr>))))))))))))))))"

definition parse_receipt :: "dict \<Rightarrow> (receipt_error + receipt) option" where
  "parse_receipt p =
     guard (dict_get p ''tool'' \<noteq> JStr ''investigate'') UnexpectedTool (
     sum_bind (required_text p ''device'') (\<lambda>device.
     sum_bind (required_text p ''subject'') (\<lambda>subject.
     sum_bind (required_text p ''flow'') (\<lambda>flow.
     guard (flow \<notin> fst ` set FLOWS) (UnsupportedFlow flow) (
     sum_bind (required_text p ''finding'') (\<lambda>finding.
     guard (finding \<notin> set DECLARED_FINDINGS) (UndeclaredFinding finding) (
     case dict_get p ''trustworthy'' of
       JBool trusted \<Rightarrow> do {
         rungs \<leftarrow> rungs_of p;
         sum_bind rungs (parse_rest p device subject flow finding trusted)
       }
     | _ \<Rightarrow> Some (Inl NotABool))))))))"

definition ticket_extra :: "receipt \<Rightarrow> dict" where
  "ticket_extra r = [(''causal_chain'', JList (map JDict (rc_causal_chain r))),
     (''reason'', (case rc_reason r of Some s \<Rightarrow> JStr s | None \<Rightarrow> JNull)), (''rungs'', JList (map JDict (rc_rungs r))),
     (''coverage'', (case rc_coverage r of Some d \<Rightarrow> JDict d | None \<Rightarrow> JNull)),
     (''sessions'', (case rc_sessions r of Some d \<Rightarrow> JDict d | None \<Rightarrow> JNull)),
     (''operator_notes'', JList (map JDict (rc_operator_notes r))), (''off_path'', JList (map JDict (rc_off_path r)))]"

subsection \<open>Every verdict of a rung gives a reason\<close>

definition reasoned :: "check_result \<Rightarrow> bool" where
  "reasoned r \<longleftrightarrow> cr_reason r \<noteq> None \<and> cr_reason r \<noteq> Some []"

lemma verdict_reason:
  "healthy subj keys rs dt = Some r \<Longrightarrow> cr_reason r = rs"
  "broken rsn subj keys dt = Some r \<Longrightarrow> cr_reason r = Some rsn"
  "unevaluated rsn subj keys dt = Some r \<Longrightarrow> cr_reason r = Some rsn"
  by (auto simp: verdict_defs dest: CheckResult_SomeD)

lemma require_parsed_reasoned: "require_parsed ev key s = Some (Inl b) \<Longrightarrow> reasoned b"
  by (auto simp: require_parsed_def bind_Some_iff reasoned_def dest!: verdict_reason split: json.splits if_splits)

lemma gated_reasoned:
  assumes "gated ev key s h body = Some r"
    and "\<And>b. reasoned b \<Longrightarrow> h b = Some r \<Longrightarrow> reasoned r"
    and "body (dict_get ev key) = Some r \<Longrightarrow> reasoned r"
  shows "reasoned r"
proof (cases "parsed_ok ev key")
  case True
  with assms show ?thesis by (simp add: gated_parsed)
next
  case False
  with assms(1,2) require_parsed_reasoned show ?thesis by (metis gated_unread)
qed

lemmas reason_simps = bind_Some_iff Let_def reasoned_def

lemma bgp_reasoned:
  "bgp_session_state ev peer = Some r \<Longrightarrow> reasoned r"
  unfolding bgp_session_state_def Let_def
  by (erule gated_reasoned) (auto simp: reason_simps split: option.splits if_splits dest!: verdict_reason)

lemma route_reasoned:
  "route_present ev peer = Some r \<Longrightarrow> reasoned r"
  unfolding route_present_def Let_def
  by (erule gated_reasoned) (auto simp: reason_simps split: option.splits if_splits dest!: verdict_reason)

lemma adjacency_reasoned: "isis_adjacency ev x = Some r \<Longrightarrow> reasoned r"
  unfolding isis_adjacency_def Let_def
  by (erule gated_reasoned) (auto simp: reason_simps split: option.splits if_splits dest!: verdict_reason)

lemma isis_tiers_reasoned:
  "isis_interface_tier ev name = Some r \<Longrightarrow> reasoned r"
  "isis_lldp_tier ev name = Some r \<Longrightarrow> reasoned r"
  "isis_neighbor_up ev name = Some r \<Longrightarrow> reasoned r"
proof -
  show i: "reasoned r" if "isis_interface_tier ev name = Some r" for r
    using that unfolding isis_interface_tier_def Let_def
    by (elim gated_reasoned) (auto simp: reason_simps split: option.splits if_splits dest!: verdict_reason)
  show l: "reasoned r" if "isis_lldp_tier ev name = Some r" for r
    using that unfolding isis_lldp_tier_def Let_def
    by (elim gated_reasoned) (auto simp: reason_simps split: option.splits if_splits dest!: verdict_reason i [unfolded reasoned_def])
  show "reasoned r" if "isis_neighbor_up ev name = Some r" for r
    using that unfolding isis_neighbor_up_def Let_def
    by (elim gated_reasoned) (auto simp: reason_simps split: option.splits if_splits dest!: verdict_reason l [unfolded reasoned_def])
qed

lemma ldp_tiers_reasoned:
  "ldp_intent_tier ev name = Some r \<Longrightarrow> reasoned r"
  "ldp_config_tier ev name = Some r \<Longrightarrow> reasoned r"
  "ldp_interface_tier ev name = Some r \<Longrightarrow> reasoned r"
  "ldp_discovery_tier ev name = Some r \<Longrightarrow> reasoned r"
  "ldp_session_up ev name = Some r \<Longrightarrow> reasoned r"
proof -
  show i: "reasoned r" if "ldp_intent_tier ev name = Some r" for r
    using that unfolding ldp_intent_tier_def Let_def
    by (elim gated_reasoned) (auto simp: reason_simps split: option.splits if_splits dest!: verdict_reason)
  show c: "reasoned r" if "ldp_config_tier ev name = Some r" for r
    using that unfolding ldp_config_tier_def Let_def
    by (elim gated_reasoned) (auto simp: reason_simps split: option.splits if_splits dest!: verdict_reason i [unfolded reasoned_def])
  show f: "reasoned r" if "ldp_interface_tier ev name = Some r" for r
    using that unfolding ldp_interface_tier_def Let_def
    by (elim gated_reasoned) (auto simp: reason_simps split: option.splits if_splits dest!: verdict_reason c [unfolded reasoned_def])
  show d: "reasoned r" if "ldp_discovery_tier ev name = Some r" for r
    using that unfolding ldp_discovery_tier_def Let_def
    by (elim gated_reasoned) (auto simp: reason_simps split: option.splits if_splits dest!: verdict_reason f [unfolded reasoned_def])
  show "reasoned r" if "ldp_session_up ev name = Some r" for r
    using that unfolding ldp_session_up_def Let_def
    by (elim gated_reasoned) (auto simp: reason_simps split: option.splits if_splits dest!: verdict_reason d [unfolded reasoned_def])
qed

lemma transport_reasoned: "bgp_transport ev peer = Some r \<Longrightarrow> reasoned r"
  unfolding bgp_transport_def Let_def
  by (erule gated_reasoned) (auto simp: reason_simps transport_of_meta_def split: option.splits if_splits prod.splits dest!: verdict_reason)

lemma py_join_nonempty: "xs \<noteq> [] \<Longrightarrow> [] \<notin> set xs \<Longrightarrow> py_join sep xs \<noteq> []"
  by (cases xs; cases "tl xs") auto

lemma bail_detail_nonempty: "bail_detail name bails \<noteq> []"
proof -
  have "[] \<notin> set (concat (map (\<lambda>b. case b of Some r \<Rightarrow> if r = [] then [] else [r] | None \<Rightarrow> []) bails))"
    by (auto split: option.splits if_splits)
  from py_join_nonempty [OF _ this] show ?thesis by (simp add: bail_detail_def Let_def)
qed

lemma read_observation_reasoned:
  assumes h: "read_interface_observation ev name = Some (Inl b)"
  shows "reasoned b"
proof -
  note h = h [unfolded read_interface_observation_def Let_def]
  from h obtain d where d: "dedicated_observation ev name = Some d" by (auto simp: bind_Some_iff)
  with h obtain t where t: "dedicated_observation ev name = Some (Inl t)"
    by (cases d) (simp_all)
  with h obtain bulk where bulk: "require_parsed ev ''interfaces'' (Some name) = Some bulk"
    by (auto simp: bind_Some_iff)
  show ?thesis
  proof (cases bulk)
    case (Inl c)
    with h t bulk show ?thesis
      by (auto simp: reasoned_def bail_detail_nonempty bail_detail_nonempty [symmetric] dest!: verdict_reason)
  next
    case (Inr sec)
    with h t bulk show ?thesis
      by (auto simp: bind_Some_iff reasoned_def dest!: verdict_reason split: option.splits)
  qed
qed

lemma state_reasoned:
  assumes h: "interface_state ev name previous = Some r"
  shows "reasoned r"
proof -
  from h obtain obs where obs: "read_interface_observation ev name = Some obs"
    by (auto simp: interface_state_def bind_Some_iff)
  show ?thesis
  proof (cases obs)
    case (Inl b)
    with h obs show ?thesis by (simp add: interface_state_def read_observation_reasoned)
  next
    case (Inr q)
    then obtain a l c keys where q: "obs = Inr ((a, l, c), keys)" by (cases q) auto
    show ?thesis
    proof (cases "a = JStr ''up'' \<and> l = JStr ''up''")
      case True
      with h obs q obtain pc pk where pc: "previous_observation previous name = Some (pc, pk)"
        by (auto simp: interface_state_def bind_Some_iff)
      obtain st detail where "counter_delta_status c pc (previous \<noteq> None) = (st, detail)" by fastforce
      with h obs q True pc show ?thesis
        by (cases st) (auto simp: interface_state_def reasoned_def dest!: verdict_reason)
    qed (use h obs q in \<open>auto simp: interface_state_def reasoned_def dest!: verdict_reason\<close>)
  qed
qed

lemma registered_reasoned:
  assumes "(name, f) \<in> set FLOWS" and "r \<in> set (fl_descent f)" and "rg_check r ev s = Some c"
  shows "reasoned c"
  using assms bgp_reasoned route_reasoned adjacency_reasoned isis_tiers_reasoned(3) ldp_tiers_reasoned(5) transport_reasoned state_reasoned
  by (auto simp: ladder_defs Rung_def on_subject_def split: option.splits)

lemma aggregate_reasoned:
  assumes "\<forall>c\<in>set results. reasoned c" and "aggregate r results agg = Some c"
  shows "reasoned c"
proof (cases results)
  case Nil
  with assms(2) show ?thesis by (auto simp: aggregate_def reasoned_def dest!: CheckResult_SomeD(2))
next
  case (Cons x xs)
  show ?thesis
  proof (cases xs)
    case Nil
    with Cons assms show ?thesis by (simp add: aggregate_def)
  next
    case (Cons y ys)
    with \<open>results = x # xs\<close> assms(2) show ?thesis
      by (auto simp: aggregate_def Let_def reasoned_def dest!: CheckResult_SomeD(2) split: if_splits)
  qed
qed

lemma device_results_reasoned:
  assumes "\<And>ev s c. rg_check r ev s = Some c \<Longrightarrow> reasoned c"
    and "device_results r subject evidence_for origin targets acc agg = Some (results, agg')"
    and "\<forall>c\<in>set acc. reasoned c"
  shows "\<forall>c\<in>set results. reasoned c"
  using assms(2,3)
proof (induction targets arbitrary: acc agg)
  case (Cons t ts)
  have check: "\<forall>c\<in>set rs. reasoned c" if "map_m (rg_check r ev) ss = Some rs" for ev ss rs
    using that
  proof (induction ss arbitrary: rs)
    case (Cons s ss)
    then show ?case using assms(1) by (auto simp: bind_Some_iff)
  qed simp
  have none: "reasoned c" if "unevaluated (''no objects to check on '' @ t @ '' for rung '' @ repr_str (rg_name r)) (Some subject) [] None = Some c" for c
    using that by (auto simp: reasoned_def dest!: verdict_reason)
  from Cons.prems obtain ev ss ov where ev: "evidence_for t = Some ev" "rung_subjects r subject ev origin = Some (ss, ov)"
    by (auto simp: bind_Some_iff)
  show ?case
  proof (cases "ss = []")
    case True
    with Cons.prems ev obtain c where "unevaluated (''no objects to check on '' @ t @ '' for rung '' @ repr_str (rg_name r)) (Some subject) [] None = Some c"
      "device_results r subject evidence_for origin ts (acc @ [c]) (case ov of Some a \<Rightarrow> Some a | None \<Rightarrow> agg) = Some (results, agg')"
      by (auto simp: bind_Some_iff Let_def)
    with Cons.IH Cons.prems(2) none show ?thesis by fastforce
  next
    case False
    with Cons.prems ev obtain rs where "map_m (rg_check r ev) ss = Some rs"
      "device_results r subject evidence_for origin ts (acc @ rs) (case ov of Some a \<Rightarrow> Some a | None \<Rightarrow> agg) = Some (results, agg')"
      by (auto simp: bind_Some_iff Let_def)
    with Cons.IH Cons.prems(2) check show ?thesis by fastforce
  qed
qed simp

lemma resolve_error_reasoned:
  "resolve_devices r device subject resolver = Inl msg \<Longrightarrow> resolver = Some resolve \<Longrightarrow> (\<And>m. resolve subject = ResolverError m \<Longrightarrow> m \<noteq> []) \<Longrightarrow> msg \<noteq> []"
  by (auto simp: resolve_devices_def split: if_splits resolved.splits)

lemma walk_reasoned:
  assumes "\<forall>r\<in>set rs. \<forall>ev s c. rg_check r ev s = Some c \<longrightarrow> reasoned c"
    and "\<And>m. resolve subject = ResolverError m \<Longrightarrow> m \<noteq> []"
    and "walk device subject collector (Some resolve) origin rs = Some (os, ks, why)"
  shows "\<forall>x\<in>set os. reasoned (ro_result x)"
  using assms(1,3)
proof (induction rs arbitrary: os ks why)
  case (Cons r rs)
  show ?case
  proof (cases "resolve_devices r device subject (Some resolve)")
    case (Inl msg)
    with Cons.prems(2) resolve_error_reasoned [OF Inl refl assms(2)] show ?thesis
      by (auto simp: bind_Some_iff reasoned_def dest!: CheckResult_SomeD(2))
  next
    case (Inr devices)
    with Cons.prems(2) obtain c where c: "evaluate_rung r devices subject (\<lambda>t. collector t r subject) origin = Some c"
      by (auto simp: bind_Some_iff)
    then obtain results agg where d: "device_results r subject (\<lambda>t. collector t r subject) origin devices [] None = Some (results, agg)"
      and a: "aggregate r results agg = Some c"
      by (auto simp: evaluate_rung_def bind_Some_iff)
    have "\<And>ev s c. rg_check r ev s = Some c \<Longrightarrow> reasoned c" using Cons.prems(1) by simp
    from aggregate_reasoned [OF device_results_reasoned [OF this d] a] have "reasoned c" by simp
    then show ?thesis using Inr c Cons.prems Cons.IH by (auto simp: bind_Some_iff Let_def split: if_splits)
  qed
qed simp

lemma walk_devices:
  assumes "device \<noteq> []" and "\<And>d. resolve subject = OneDevice d \<Longrightarrow> d \<noteq> []" and "\<And>ds. resolve subject \<noteq> ManyDevices ds"
    and "walk device subject collector (Some resolve) origin rs = Some (os, ks, why)"
  shows "\<forall>x\<in>set os. ro_device x \<noteq> [] \<and> ro_rung x \<in> rg_name ` set rs"
  using assms(4)
proof (induction rs arbitrary: os ks why)
  case (Cons r rs)
  show ?case
  proof (cases "resolve_devices r device subject (Some resolve)")
    case (Inl msg)
    with Cons.prems assms(1) show ?thesis by (auto simp: bind_Some_iff)
  next
    case (Inr devices)
    then have "py_join '', '' devices \<noteq> []"
      using assms(1-3) by (auto simp: resolve_devices_def split: if_splits resolved.splits)
    with Inr Cons show ?thesis by (fastforce simp: bind_Some_iff Let_def split: if_splits)
  qed
qed simp

subsection \<open>Which payloads are accepted\<close>

lemma all_objects_map [simp]: "all_objects (map JDict ds) = Some ds"
  by (induction ds) auto

lemma rung_dict_fields [simp]:
  "dict_get (rung_dict n len x) ''position'' = JInt (int n)"
  "dict_get (rung_dict n len x) ''of'' = JInt (int len)"
  "dict_get (rung_dict n len x) ''rung'' = JStr (ro_rung x)"
  "dict_get (rung_dict n len x) ''device'' = JStr (ro_device x)"
  "dict_get (rung_dict n len x) ''status'' = JStr (status_value (ro_status x))"
  "dict_get (rung_dict n len x) ''reason'' = (case cr_reason (ro_result x) of Some s \<Rightarrow> JStr s | None \<Rightarrow> JNull)"
  "dict_get (rung_dict n len x) ''evidence_keys'' = JList (map JStr (cr_evidence_keys (ro_result x)))"
  by (simp_all add: rung_dict_def dict_get_or_def)

lemma outcome_dict_fields [simp]:
  "dict_get (outcome_dict x) ''rung'' = JStr (ro_rung x)"
  "dict_get (outcome_dict x) ''device'' = JStr (ro_device x)"
  "dict_get (outcome_dict x) ''reason'' = (case cr_reason (ro_result x) of Some s \<Rightarrow> JStr s | None \<Rightarrow> JNull)"
  by (simp_all add: outcome_dict_def dict_get_or_def)

lemma length_rung_dicts [simp]: "length (rung_dicts n len os) = length os"
  by (induction os arbitrary: n) auto

lemma rung_dicts_Nil [simp]: "rung_dicts n len os = [] \<longleftrightarrow> os = []"
  by (cases os) auto

lemma valid_status_value [simp]: "valid_status (JStr (status_value s)) = Some True"
  by (cases s) (simp_all add: valid_status_def VALID_RUNG_STATUS_def)

lemma rung_dict_accepted: "reasoned (ro_result x) \<Longrightarrow> rung_error n len (rung_dict n len x) = Some None"
  by (auto simp: rung_error_def reasoned_def numeric_def list_all_iff)

lemma rung_dicts_accepted:
  "\<forall>x\<in>set os. reasoned (ro_result x) \<Longrightarrow> rungs_error n len (rung_dicts n len os) = Some None"
  by (induction os arbitrary: n) (auto simp: rung_dict_accepted)

lemma rung_dicts_member:
  "x \<in> set os \<Longrightarrow> \<exists>r\<in>set (rung_dicts n len os). dict_get r ''rung'' = JStr (ro_rung x) \<and> dict_get r ''device'' = JStr (ro_device x) \<and>
     dict_get r ''status'' = JStr (status_value (ro_status x))"
  by (induction os arbitrary: n) auto

lemma broken_accepted:
  assumes "x \<in> set os" and "ro_status x = BROKEN" and "reasoned (ro_result x)" and "ro_rung x \<noteq> []" and "ro_device x \<noteq> []"
  shows "cause_error (outcome_dict x) (rung_dicts n len os) = None"
proof -
  have "list_ex (\<lambda>r. dict_get r ''rung'' = JStr (ro_rung x) \<and> dict_get r ''device'' = JStr (ro_device x) \<and> dict_get r ''status'' = JStr ''broken'')
      (rung_dicts n len os)"
    using rung_dicts_member [OF assms(1), of n len] assms(2) by (auto simp: list_ex_iff)
  with assms show ?thesis by (auto simp: cause_error_def nonempty_text_def reasoned_def)
qed

lemma first_error_None: "first_error es = None \<longleftrightarrow> (\<forall>e\<in>set es. e = None)"
  by (induction es rule: first_error.induct) auto

lemma to_payload_fields:
  "dict_get (to_payload prose summary r) ''tool'' = JStr ''investigate''"
  "dict_get (to_payload prose summary r) ''device'' = JStr (iv_device r)"
  "dict_get (to_payload prose summary r) ''subject'' = JStr (iv_subject r)"
  "dict_get (to_payload prose summary r) ''flow'' = JStr (iv_flow r)"
  "dict_get (to_payload prose summary r) ''finding'' = JStr (dr_finding (iv_descent r))"
  "dict_get (to_payload prose summary r) ''operator_notes'' = JList (iv_operator_notes r)"
  "dict_get (to_payload prose summary r) ''narrowing_shadow'' = iv_narrowing_shadow r"
  "dict_get (to_payload prose summary r) ''cause'' = cause_json (iv_descent r)"
  "dict_get (to_payload prose summary r) ''causal_chain'' = JList (map outcome_json (causal_chain (iv_descent r)))"
  "dict_get (to_payload prose summary r) ''rungs_examined'' = JInt (int (length (dr_outcomes (iv_descent r))))"
  "dict_get (to_payload prose summary r) ''rungs'' =
     JList (map JDict (rung_dicts 1 (length (dr_outcomes (iv_descent r))) (dr_outcomes (iv_descent r))))"
  "dict_get (to_payload prose summary r) ''off_path'' = JList (off_path r)"
  "dict_get (to_payload prose summary r) ''coherence'' =
     (case dr_coherence (iv_descent r) of Some c \<Rightarrow> coherence_json prose c | None \<Rightarrow> JNull)"
  "dict_get (to_payload prose summary r) ''sessions'' = iv_sessions r"
  "dict_get (to_payload prose summary r) ''coverage'' = iv_coverage r"
  "dict_get (to_payload prose summary r) ''trustworthy'' = JBool (trustworthy r)"
  "is_dict (dict_get (to_payload prose summary r) ''report'')"
  "is_dict (dict_get (to_payload prose summary r) ''correlation'')"
  by (simp_all add: to_payload_def dict_get_or_def Let_def is_dict_def)

lemma object_or_none_dict: "is_dict (dict_get p k) \<or> dict_get p k = JNull \<Longrightarrow> \<exists>x. object_or_none p k = Inr x"
  by (auto simp: object_or_none_def is_dict_def split: json.splits)

lemma object_sequence_map: "dict_get p k = JList (map JDict ds) \<Longrightarrow> object_sequence p k = Inr ds"
  by (simp add: object_sequence_def)

lemma findings_have_text: "f \<in> set DECLARED_FINDINGS \<Longrightarrow> py_strip f \<noteq> []"
proof -
  have "list_all (\<lambda>s. py_strip s \<noteq> []) DECLARED_FINDINGS" by code_simp
  then show "f \<in> set DECLARED_FINDINGS \<Longrightarrow> ?thesis" by (simp add: list_all_iff)
qed

lemma flows_have_text: "(name, f) \<in> set FLOWS \<Longrightarrow> py_strip name \<noteq> []"
proof -
  have "list_all (\<lambda>s. py_strip s \<noteq> []) (map fst FLOWS)" by code_simp
  then show "(name, f) \<in> set FLOWS \<Longrightarrow> ?thesis" by (force simp: list_all_iff)
qed

lemma flow_finding_declared: "(name, f) \<in> set FLOWS \<Longrightarrow> x \<in> set (fl_findings f) \<Longrightarrow> x \<in> set DECLARED_FINDINGS"
  by (force simp: DECLARED_FINDINGS_def)

lemma rung_names: "(name, f) \<in> set FLOWS \<Longrightarrow> [] \<notin> rg_name ` set (fl_descent f)"
  by (auto simp: ladder_defs Rung_def)

lemma parse_head:
  assumes "(iv_flow r, f) \<in> set FLOWS" and "py_strip (iv_device r) \<noteq> []" and "py_strip (iv_subject r) \<noteq> []"
    and "dr_finding (iv_descent r) \<in> set (fl_findings f)"
  shows "parse_receipt (to_payload prose summary r) = do {
    rungs \<leftarrow> rungs_of (to_payload prose summary r);
    case rungs of Inl e \<Rightarrow> Some (Inl e)
    | Inr rs \<Rightarrow> parse_rest (to_payload prose summary r) (iv_device r) (iv_subject r) (iv_flow r) (dr_finding (iv_descent r)) (trustworthy r) rs }"
proof -
  have "iv_flow r \<in> fst ` set FLOWS" using assms(1) by force
  moreover have f: "dr_finding (iv_descent r) \<in> set DECLARED_FINDINGS" using assms(1,4) by (rule flow_finding_declared)
  ultimately show ?thesis
    using assms(2,3) findings_have_text [OF f] flows_have_text [OF assms(1)]
    by (simp add: parse_receipt_def required_text_def to_payload_fields)
qed

lemma rungs_of_payload:
  assumes "\<forall>x\<in>set (dr_outcomes (iv_descent r)). reasoned (ro_result x)"
  shows "rungs_of (to_payload prose summary r) = Some (if dr_outcomes (iv_descent r) = [] then Inl RungCount
    else Inr (rung_dicts 1 (length (dr_outcomes (iv_descent r))) (dr_outcomes (iv_descent r))))"
  using rung_dicts_accepted [OF assms] object_sequence_map [of "to_payload prose summary r" "''rungs''"]
  by (simp add: rungs_of_def to_payload_fields numeric_def)

definition described :: "rung_outcome \<Rightarrow> bool" where
  "described x \<longleftrightarrow> reasoned (ro_result x) \<and> ro_rung x \<noteq> [] \<and> ro_device x \<noteq> []"

lemma cause_json_cases:
  obtains (none) "cause_json d = JNull"
  | (named) x where "cause_json d = JDict (outcome_dict x)" "x \<in> set (dr_outcomes d)" "ro_status x = BROKEN"
proof (cases "cause_json d = JNull")
  case False
  then obtain x where x: "cause d = Some x" "cause_json d = JDict (outcome_dict x)"
    by (auto simp: cause_json_def split: option.splits if_splits)
  then have "broken_outcomes (dr_outcomes d) \<noteq> []" "x = last (broken_outcomes (dr_outcomes d))"
    by (auto simp: cause_def Let_def split: if_splits)
  then have "x \<in> set (broken_outcomes (dr_outcomes d))" by simp
  with x show ?thesis by (intro named) (auto simp: broken_outcomes_def)
qed (rule none)

lemma causal_chain_broken: "x \<in> set (causal_chain d) \<Longrightarrow> x \<in> set (dr_outcomes d) \<and> ro_status x = BROKEN"
  by (auto simp: causal_chain_def Let_def broken_outcomes_def dest!: in_set_butlastD split: if_splits)

lemma parse_rest_forbidden:
  assumes "dr_finding (iv_descent r) \<in> set NO_CAUSE_FINDINGS" and "cause_json (iv_descent r) \<noteq> JNull"
  shows "parse_rest (to_payload prose summary r) a b c (dr_finding (iv_descent r)) t rs = Some (Inl (CauseForbidden (dr_finding (iv_descent r))))"
proof (cases rule: cause_json_cases [of "iv_descent r"])
  case none
  with assms(2) show ?thesis by simp
next
  case (named x)
  then have "object_or_none (to_payload prose summary r) ''cause'' = Inr (Some (outcome_dict x))"
    by (simp add: object_or_none_def to_payload_fields)
  then show ?thesis by (simp add: parse_rest_def assms(1))
qed

lemma parse_rest_accepted:
  fixes r prose summary
  defines "d \<equiv> iv_descent r" and "p \<equiv> to_payload prose summary r"
  assumes "\<forall>x\<in>set (dr_outcomes d). described x"
    and "dr_finding d \<in> set NO_CAUSE_FINDINGS \<Longrightarrow> cause_json d = JNull"
    and "trustworthy r \<Longrightarrow> \<not> refused_by (dr_coherence d)"
    and "is_dict (iv_sessions r)" and "is_dict (iv_coverage r) \<or> iv_coverage r = JNull" and "iv_narrowing_shadow r = JNull"
    and "iv_operator_notes r = map JDict notes"
  shows "\<exists>rc. parse_rest p (iv_device r) (iv_subject r) (iv_flow r) (dr_finding d) (trustworthy r)
      (rung_dicts 1 (length (dr_outcomes d)) (dr_outcomes d)) = Some (Inr rc) \<and>
    rc_finding rc = dr_finding d \<and> rc_trustworthy rc = trustworthy r \<and> rc_subject rc = iv_subject r \<and>
    rc_cause rc = (case cause_json d of JDict c \<Rightarrow> Some c | _ \<Rightarrow> None) \<and> length (rc_rungs rc) = length (dr_outcomes d)"
proof -
  let ?rungs = "rung_dicts 1 (length (dr_outcomes d)) (dr_outcomes d)"
  have ok: "cause_error (outcome_dict x) ?rungs = None" if "x \<in> set (dr_outcomes d)" "ro_status x = BROKEN" for x
    by (rule broken_accepted) (use that assms(3) in \<open>auto simp: described_def\<close>)
  have chain: "object_sequence p ''causal_chain'' = Inr (map outcome_dict (causal_chain d))"
    by (rule object_sequence_map) (simp add: p_def d_def to_payload_fields)
  have chain_ok: "first_error (map (\<lambda>c. cause_error c ?rungs) (map outcome_dict (causal_chain d))) = None"
    using ok causal_chain_broken by (auto simp: first_error_None)
  obtain cause where cause: "object_or_none p ''cause'' = Inr cause" "cause = (case cause_json d of JDict c \<Rightarrow> Some c | _ \<Rightarrow> None)"
    and cause_ok: "(case cause of Some c \<Rightarrow> cause_error c ?rungs = None | None \<Rightarrow> True)"
  proof (cases rule: cause_json_cases [of d])
    case none
    then show ?thesis by (intro that [of None]) (simp_all add: object_or_none_def p_def to_payload_fields d_def)
  next
    case (named x)
    then show ?thesis using ok [of x]
      by (intro that [of "Some (outcome_dict x)"]) (simp_all add: object_or_none_def p_def to_payload_fields d_def)
  qed
  have forbidden: "\<not> (dr_finding d \<in> set NO_CAUSE_FINDINGS \<and> cause \<noteq> None)" using assms(4) cause(2) by auto
  obtain coh where coh: "object_or_none p ''coherence'' = Inr coh"
    and coh_ok: "\<not> (trustworthy r \<and> (case coh of Some c \<Rightarrow> dict_get c ''refuses'' = JBool True | None \<Rightarrow> False))"
  proof (cases "dr_coherence d")
    case None
    then show ?thesis by (intro that [of None]) (simp_all add: object_or_none_def p_def to_payload_fields d_def)
  next
    case (Some c)
    obtain e where e: "coherence_json prose c = JDict e" "dict_get e ''refuses'' = JBool (refuses c)"
      by (simp add: coherence_json_def dict_get_or_def)
    with Some assms(5) show ?thesis
      by (intro that [of "Some e"]) (simp_all add: object_or_none_def p_def to_payload_fields d_def refused_by_def)
  qed
  have obj: "object_or_none p k = Inr (case dict_get p k of JDict x \<Rightarrow> Some x | _ \<Rightarrow> None)"
    if "is_dict (dict_get p k) \<or> dict_get p k = JNull" for k
    using that by (auto simp: object_or_none_def is_dict_def split: json.splits)
  have shadow: "object_or_none p ''narrowing_shadow'' = Inr None"
    by (simp add: object_or_none_def p_def to_payload_fields assms(8))
  have noted: "object_sequence p ''operator_notes'' = Inr notes"
    by (rule object_sequence_map) (simp add: p_def to_payload_fields assms(9))
  have off: "object_sequence p ''off_path'' = Inr (if dr_finding d \<noteq> NO_FAULT_ON_PATH then [] else map outcome_dict (broken_outcomes (dr_outcomes d)))"
    by (rule object_sequence_map) (simp add: p_def to_payload_fields off_path_def d_def)
  have shapes: "is_dict (dict_get p ''coverage'') \<or> dict_get p ''coverage'' = JNull" "is_dict (dict_get p ''sessions'') \<or> dict_get p ''sessions'' = JNull"
    "is_dict (dict_get p ''report'') \<or> dict_get p ''report'' = JNull" "is_dict (dict_get p ''correlation'') \<or> dict_get p ''correlation'' = JNull"
    using assms(6,7) by (simp_all add: p_def to_payload_fields)
  have cause_sum: "(case cause of Some c \<Rightarrow> (case cause_error c ?rungs of Some e \<Rightarrow> Inl e | None \<Rightarrow> Inr ()) | None \<Rightarrow> Inr ()) = (Inr () :: receipt_error + unit)"
    using cause_ok by (auto split: option.splits)
  show ?thesis
    unfolding parse_rest_def cause(1) sum.case if_not_P [OF forbidden] cause_sum chain chain_ok option.case coh if_not_P [OF coh_ok]
      obj [OF shapes(1)] obj [OF shapes(2)] obj [OF shapes(3)] obj [OF shapes(4)] noted off shadow
    by (simp add: cause(2))
qed

subsection \<open>Receipts of investigations\<close>

lemma findings_differ:
  "UNDETERMINED \<noteq> ALL_LAYERS_HEALTHY" "TEMPORALLY_INCOHERENT \<noteq> ALL_LAYERS_HEALTHY" "NO_FAULT_ON_PATH \<noteq> ALL_LAYERS_HEALTHY"
  "CAUSE_NOT_LOCALISED \<noteq> ALL_LAYERS_HEALTHY" "UNDETERMINED \<noteq> CAUSE_NOT_LOCALISED" "TEMPORALLY_INCOHERENT \<noteq> CAUSE_NOT_LOCALISED"
  "UNDETERMINED \<noteq> SUBJECT_NOT_FOUND" "TEMPORALLY_INCOHERENT \<noteq> SUBJECT_NOT_FOUND" "ALL_LAYERS_HEALTHY \<noteq> SUBJECT_NOT_FOUND"
  "NO_FAULT_ON_PATH \<noteq> SUBJECT_NOT_FOUND" "CAUSE_NOT_LOCALISED \<noteq> SUBJECT_NOT_FOUND" "NO_FAULT_ON_PATH \<noteq> CAUSE_NOT_LOCALISED"
  by (simp_all add: finding_defs)

lemma universal_members:
  "ALL_LAYERS_HEALTHY \<in> set UNIVERSAL_FINDINGS" "CAUSE_NOT_LOCALISED \<in> set UNIVERSAL_FINDINGS" "SUBJECT_NOT_FOUND \<in> set UNIVERSAL_FINDINGS"
  by (simp_all add: UNIVERSAL_FINDINGS_def)

context ladder
begin

lemma finding_cause:
  assumes "run_descent fl device subject collector resolver coh origin = Some d"
  shows "dr_finding d = ALL_LAYERS_HEALTHY \<Longrightarrow> cause d = None"
    and "dr_finding d = CAUSE_NOT_LOCALISED \<Longrightarrow> cause d \<noteq> None"
    and "dr_finding d \<noteq> SUBJECT_NOT_FOUND"
    and "dr_outcomes d \<noteq> []"
proof -
  from assms obtain ks why where shape: "walk_shape (fl_descent fl) (dr_outcomes d)"
    and f: "dr_finding d = finding_spec (map rg_finding (fl_descent fl)) (map ro_status (dr_outcomes d)) (refused_by (dr_coherence d))"
    by (rule run_descent_parts)
  have own: "map rg_finding (fl_descent fl) ! i \<notin> set UNIVERSAL_FINDINGS" if "last_broken (map ro_status (dr_outcomes d)) = Some i" for i
    using finding_distinct [of i] last_broken_Some [OF that] walk_shape_length [OF shape] by simp
  have cause: "cause d = None \<longleftrightarrow> last_broken (map ro_status (dr_outcomes d)) = None"
    by (force simp: cause_def Let_def last_broken_None broken_outcomes_def filter_empty_conv)
  show "dr_finding d = ALL_LAYERS_HEALTHY \<Longrightarrow> cause d = None"
    using f own cause findings_differ universal_members by (auto simp: finding_spec_def split: if_splits option.splits)
  show "dr_finding d = CAUSE_NOT_LOCALISED \<Longrightarrow> cause d \<noteq> None"
    using f cause findings_differ by (auto simp: finding_spec_def split: if_splits option.splits)
  show "dr_finding d \<noteq> SUBJECT_NOT_FOUND"
    using f own findings_differ universal_members by (auto simp: finding_spec_def split: if_splits option.splits)
  show "dr_outcomes d \<noteq> []"
    using shape well_formed by (cases "dr_outcomes d"; cases "fl_descent fl") (auto simp: well_formed_flow_def)
qed

lemma trusted_agreed:
  assumes "run_descent fl device subject collector resolver coh origin = Some d"
    and "dr_finding d \<noteq> UNDETERMINED" and "dr_finding d \<noteq> TEMPORALLY_INCOHERENT"
  shows "\<not> refused_by (dr_coherence d)"
  using assms(1)
proof (rule run_descent_parts)
  fix ks why
  assume "dr_finding d = finding_spec (map rg_finding (fl_descent fl)) (map ro_status (dr_outcomes d)) (refused_by (dr_coherence d))"
  with assms(2,3) show ?thesis by (auto simp: finding_spec_def split: if_splits)
qed

end

lemma resolver_named:
  assumes "\<forall>e\<in>set entries. in_name e \<noteq> []"
  shows "inventory_resolver entries subject = OneDevice d \<Longrightarrow> d \<noteq> []"
    and "inventory_resolver entries subject \<noteq> ManyDevices ds"
    and "inventory_resolver entries subject = ResolverError m \<Longrightarrow> m \<noteq> []"
  using assms by (auto simp: inventory_resolver_def find_Some_iff split: option.splits)

lemma walked_notes: "\<exists>notes. iv_operator_notes (walked_result su f device subject flow ep unresolved d) = map JDict notes"
proof -
  have "\<exists>n. note_json dv x = JDict n" for dv x by (simp add: note_json_def)
  then have "\<exists>ns. map (note_json dv) xs = map JDict ns" for dv xs
    by (induction xs) (auto intro: exI [of _ "[]"], metis list.simps(9))
  then have "\<exists>ns. concat (map (\<lambda>e. map (note_json (in_name e)) (g e)) es) = map JDict ns" for g and es :: "inventory_entry list"
    by (induction es) (auto intro: exI [of _ "[]"], metis map_append)
  then show ?thesis by (simp add: walked_result_def Let_def notes_for_devices_def split: prod.split)
qed

lemma walked_coverage:
  "(\<forall>d n. is_dict (snd (su_timeline su d n)) \<or> snd (su_timeline su d n) = JNull) \<Longrightarrow>
   is_dict (iv_coverage (walked_result su f device subject flow ep unresolved d)) \<or>
   iv_coverage (walked_result su f device subject flow ep unresolved d) = JNull"
  by (simp add: walked_result_def Let_def split: prod.split option.split) (metis snd_conv)

text \<open>What the reader needs of the world around a run: a device and subject that are no blanks, named inventory entries,
  objects for the counts and the coverage, and no narrowing shadow, as on the MCP surface.\<close>

definition plain_surroundings :: "surroundings \<Rightarrow> bool" where
  "plain_surroundings su \<longleftrightarrow> (\<forall>e\<in>set (su_inventory su). in_name e \<noteq> []) \<and> (\<forall>ep. is_dict (su_sessions su ep)) \<and>
     (\<forall>d n. is_dict (snd (su_timeline su d n)) \<or> snd (su_timeline su d n) = JNull) \<and> (\<forall>d. su_shadow su d = JNull)"

lemma walked_accepted:
  assumes f: "(flow, f) \<in> set FLOWS" and su: "plain_surroundings su" and dev: "py_strip device \<noteq> []" and sub: "py_strip subject \<noteq> []"
    and d: "run_descent f device subject collector (Some (inventory_resolver (su_inventory su))) coh origin = Some d"
    and r: "r = walked_result su f device subject flow ep unresolved d"
  shows "if dr_finding d = CAUSE_NOT_LOCALISED
    then parse_receipt (to_payload prose summary r) = Some (Inl (CauseForbidden CAUSE_NOT_LOCALISED))
    else \<exists>rc. parse_receipt (to_payload prose summary r) = Some (Inr rc) \<and> rc_finding rc = dr_finding d \<and>
      rc_trustworthy rc = trustworthy r \<and> rc_subject rc = subject \<and>
      rc_cause rc = (case cause_json d of JDict c \<Rightarrow> Some c | _ \<Rightarrow> None) \<and> length (rc_rungs rc) = length (dr_outcomes d)"
proof -
  note lad = registered_ladder [OF f]
  from d obtain ks why where w: "walk device subject collector (Some (inventory_resolver (su_inventory su))) origin (fl_descent f) =
      Some (dr_outcomes d, ks, why)"
    by (rule ladder.run_descent_parts [OF lad])
  have named: "\<forall>e\<in>set (su_inventory su). in_name e \<noteq> []" using su by (simp add: plain_surroundings_def)
  have "device \<noteq> []" using dev by (auto simp: py_strip_def py_lstrip_def)
  from walk_devices [OF this resolver_named(1) [OF named] resolver_named(2) [OF named] w]
  have dn: "\<forall>x\<in>set (dr_outcomes d). ro_device x \<noteq> [] \<and> ro_rung x \<in> rg_name ` set (fl_descent f)" .
  have "\<forall>r\<in>set (fl_descent f). \<forall>ev s c. rg_check r ev s = Some c \<longrightarrow> reasoned c"
    using registered_reasoned [OF f] by blast
  from walk_reasoned [OF this resolver_named(3) [OF named] w]
  have re: "\<forall>x\<in>set (dr_outcomes d). reasoned (ro_result x)" .
  have described: "\<forall>x\<in>set (dr_outcomes d). described x"
    using dn re rung_names [OF f] by (force simp: described_def)
  note fc = ladder.finding_cause [OF lad d]
  have iv [simp]: "iv_descent r = d" "iv_device r = device" "iv_subject r = subject" "iv_flow r = flow" by (simp_all add: r)
  have declared: "dr_finding (iv_descent r) \<in> set (fl_findings f)" using ladder.finding_declared [OF lad d] by simp
  have head: "parse_receipt (to_payload prose summary r) = parse_rest (to_payload prose summary r) device subject flow (dr_finding d)
      (trustworthy r) (rung_dicts 1 (length (dr_outcomes d)) (dr_outcomes d))"
    using parse_head [of r f prose summary] f dev sub declared rungs_of_payload [of r prose summary] re fc(4) by simp
  show ?thesis
  proof (cases "dr_finding d = CAUSE_NOT_LOCALISED")
    case True
    with fc(2) have "cause_json d \<noteq> JNull"
      using findings_differ by (auto simp: cause_json_def FINDINGS_WITHOUT_A_CAUSE_def finding_defs)
    with True parse_rest_forbidden [of r prose summary] show ?thesis
      unfolding head by (simp add: NO_CAUSE_FINDINGS_def)
  next
    case False
    have "cause_json d = JNull" if "dr_finding d \<in> set NO_CAUSE_FINDINGS"
      using that False fc(1) by (auto simp: NO_CAUSE_FINDINGS_def cause_json_def FINDINGS_WITHOUT_A_CAUSE_def split: option.split)
    moreover have "\<not> refused_by (dr_coherence d)" if "trustworthy r"
      using that ladder.trusted_agreed [OF lad d] by (simp add: trustworthy_def)
    moreover have "is_dict (iv_sessions r)" "iv_narrowing_shadow r = JNull"
      using su by (simp_all add: r plain_surroundings_def)
    moreover have "is_dict (iv_coverage r) \<or> iv_coverage r = JNull"
      unfolding r by (rule walked_coverage) (use su in \<open>simp add: plain_surroundings_def\<close>)
    moreover obtain ns where "iv_operator_notes r = map JDict ns" using walked_notes r by blast
    ultimately show ?thesis
      using False described parse_rest_accepted [of r ns prose summary] unfolding head by simp
  qed
qed

text \<open>C8: What the event agent makes of an investigation.  A payload of the live surface is accepted as a receipt with
  the same finding, trust, subject, cause and rungs, except in two cases the reader refuses: a
  finding that no cause was localised, whose payload names the symptom as its cause, and a subject
  that was not found, whose payload has no rungs.\<close>

theorem receipts_of_investigations:
  assumes "investigate su None bound device subject flow = Some (Inr r)" and "plain_surroundings su"
    and "py_strip device \<noteq> []" and "py_strip subject \<noteq> []"
  shows "let finding = dr_finding (iv_descent r); parsed = parse_receipt (to_payload prose summary r)
    in if finding = SUBJECT_NOT_FOUND then parsed = Some (Inl RungCount)
       else if finding = CAUSE_NOT_LOCALISED then parsed = Some (Inl (CauseForbidden CAUSE_NOT_LOCALISED))
       else \<exists>rc. parsed = Some (Inr rc) \<and> rc_finding rc = finding \<and> rc_trustworthy rc = trustworthy r \<and> rc_subject rc = subject \<and>
         rc_cause rc = (case cause_json (iv_descent r) of JDict c \<Rightarrow> Some c | _ \<Rightarrow> None) \<and>
         length (rc_rungs rc) = length (dr_outcomes (iv_descent r))"
  using assms(1)
proof (rule investigate_parts)
  fix f ep origin unresolved resolve
  assume f: "(flow, f) \<in> set FLOWS"
    and res: "resolve = Some (case None of Some x \<Rightarrow> x | None \<Rightarrow> inventory_resolver (su_inventory su))"
    and run: "investigate_epoch su f resolve device subject flow origin unresolved ep = Some r"
  from run [unfolded res option.case] show ?thesis
  proof (cases rule: investigate_epoch_parts)
    case (absent c)
    have "SUBJECT_NOT_FOUND \<in> set (fl_findings f)"
      using FLOWS_well_formed [OF f] universal_members(3) by (auto simp: well_formed_flow_def)
    then have "parse_receipt (to_payload prose summary r) = Some (Inl RungCount)"
      using parse_head [of r f prose summary] f assms(3,4) rungs_of_payload [of r prose summary] absent(3) by simp
    then show ?thesis by (simp add: absent(3))
  next
    case (walked d)
    have "dr_finding d \<noteq> SUBJECT_NOT_FOUND" by (rule ladder.finding_cause(3) [OF registered_ladder [OF f] walked(1)])
    then have "dr_finding (iv_descent r) \<noteq> SUBJECT_NOT_FOUND" "dr_finding (iv_descent r) = dr_finding d" by (simp_all add: walked(2))
    with walked_accepted [OF f assms(2-4) walked(1,2), of prose summary] show ?thesis
      unfolding Let_def walked(2) by simp
  qed
qed

lemma lab_plain: "plain_surroundings lab_surroundings"
  by (simp add: plain_surroundings_def lab_surroundings_def lab_inventory_def is_dict_def)

theorem receipts_witness:
  "\<exists>r rc. lab_run ''10.255.0.12'' = Some (Inr r) \<and> parse_receipt (to_payload (\<lambda>_. []) [] r) = Some (Inr rc) \<and>
     rc_finding rc = ''interface_line_down'' \<and> rc_trustworthy rc"
proof (rule lab_run_Some)
  fix r assume r: "lab_run ''10.255.0.12'' = Some (Inr r)" "dr_finding (iv_descent r) = ''interface_line_down''" "trustworthy r"
  have s: "py_strip ''RR1'' \<noteq> []" "py_strip ''10.255.0.12'' \<noteq> []" by code_simp+
  from receipts_of_investigations [OF r(1) [unfolded lab_run_def] lab_plain s, of "\<lambda>_. []" "[]"] r
  show ?thesis by (auto simp: Let_def finding_defs)
qed

end
