(* ===== verification/Event_Agent.thy ===== *)
theory Event_Agent
  imports Model_Ingress Receipts
begin

section \<open>The event agent: one bounded tool-calling loop\<close>

text \<open>
  Models \<open>trigger_table.py\<close> and, of \<open>event_agent.py\<close>, the resolution of an event's context, the plan of an event
  and the loop itself.  The model, the tools and the clock are functions of an unknown world that they
  may change; the tables on disk, the JSON reader and the wording of refusals are arguments.  Tickets,
  notifications and chat activity are written beside the loop and left out, but for the closing of the
  ticket.  Times are integers of one unit.  An exception that escapes the loop is a flag of its state.
\<close>

subsection \<open>The trigger table\<close>

definition REVIEWED_FIRING_MNEMONICS :: "string list" where
  "REVIEWED_FIRING_MNEMONICS = [''ROUTING-BGP-5-ADJCHANGE'']"

definition unhashable :: "json \<Rightarrow> bool" where
  "unhashable v \<longleftrightarrow> (case v of JList _ \<Rightarrow> True | JDict _ \<Rightarrow> True | _ \<Rightarrow> False)"

text \<open>\<open>mnemonic \<mapsto> trigger\<close>, in order; a later entry for a mnemonic wins.\<close>

fun build_trigger_index :: "json list \<Rightarrow> (json \<times> json) list option" where
  "build_trigger_index [] = Some []"
| "build_trigger_index (entry # entries) = (case entry of
     JDict e \<Rightarrow>
       if ''trigger'' \<notin> fst ` set e then build_trigger_index entries
       else if ''mnemonic'' \<notin> fst ` set e \<or> unhashable (dict_get e ''mnemonic'') then None
       else map_option (\<lambda>index. (dict_get e ''mnemonic'', dict_get e ''trigger'') # index) (build_trigger_index entries)
   | _ \<Rightarrow> build_trigger_index entries)"

definition index_get :: "(json \<times> json) list \<Rightarrow> json \<Rightarrow> json" where
  "index_get index m = (case map_of (rev index) m of Some t \<Rightarrow> t | None \<Rightarrow> JNull)"

datatype trigger_error = LiveSetDiffers | NothingToInvestigateWith json | NoRoute json

definition fires :: "json \<Rightarrow> bool" where
  "fires entry \<longleftrightarrow> (case entry of
     JDict e \<Rightarrow> (case dict_get e ''trigger'' of JDict t \<Rightarrow> truthy (dict_get t ''fires'') | _ \<Rightarrow> False)
   | _ \<Rightarrow> False)"

definition mnemonic_of :: "json \<Rightarrow> json" where
  "mnemonic_of entry = (case entry of JDict e \<Rightarrow> dict_get e ''mnemonic'' | _ \<Rightarrow> JNull)"

definition entry_error :: "string list \<Rightarrow> json \<Rightarrow> trigger_error option" where
  "entry_error routable entry = (case entry of
     JDict e \<Rightarrow>
       if \<not> fires entry then None
       else if \<not> truthy (dict_get e ''investigate_with'') then Some (NothingToInvestigateWith (mnemonic_of entry))
       else if mnemonic_of entry \<notin> JStr ` set routable then Some (NoRoute (mnemonic_of entry))
       else None
   | _ \<Rightarrow> None)"

fun first_entry_error :: "string list \<Rightarrow> json list \<Rightarrow> trigger_error option" where
  "first_entry_error routable [] = None"
| "first_entry_error routable (e # es) = (case entry_error routable e of Some err \<Rightarrow> Some err | None \<Rightarrow> first_entry_error routable es)"

text \<open>The error raised, if any; the outer \<open>None\<close> is the exception of a mnemonic that cannot be hashed.\<close>

definition validate_trigger_table :: "json list \<Rightarrow> json list option \<Rightarrow> string list \<Rightarrow> trigger_error option option" where
  "validate_trigger_table loaded table routable =
     (let entries = (case table of Some t \<Rightarrow> t | None \<Rightarrow> loaded);
          firing = map mnemonic_of (filter fires entries)
      in if list_ex unhashable firing then None
         else if table = None \<and> set firing \<noteq> JStr ` set REVIEWED_FIRING_MNEMONICS then Some (Some LiveSetDiffers)
         else Some (first_entry_error routable entries))"

text \<open>The wrapper of \<open>event_agent.py\<close>: it loads the table itself and passes it on.\<close>

definition agent_validate :: "json list \<Rightarrow> json list option \<Rightarrow> trigger_error option option" where
  "agent_validate loaded table =
     (let entries = (case table of Some t \<Rightarrow> t | None \<Rightarrow> loaded)
      in validate_trigger_table loaded (Some entries) (map fst MNEMONIC_FLOW_TABLE))"

subsection \<open>The context of an event\<close>

datatype resolve_refusal = NotRoutableDecision | NoMnemonic | NoTriggerEntry json | NotCleared json | NoContext context_error

text \<open>\<open>None\<close> is an exception: a table that is inconsistent or not of the expected shape.\<close>

definition resolve_context :: "json list \<Rightarrow> decision \<Rightarrow> (resolve_refusal + pinned_context) option" where
  "resolve_context loaded d =
     (if \<not> rd_routable d then Some (Inl NotRoutableDecision)
      else if \<not> truthy (rd_matched d) then Some (Inl NoMnemonic)
      else case agent_validate loaded None of
        None \<Rightarrow> None
      | Some (Some err) \<Rightarrow> None
      | Some None \<Rightarrow> do {
          index \<leftarrow> build_trigger_index loaded;
          if unhashable (rd_matched d) then None
          else case index_get index (rd_matched d) of
            JNull \<Rightarrow> Some (Inl (NoTriggerEntry (rd_matched d)))
          | JDict t \<Rightarrow>
              if \<not> truthy (dict_get t ''fires'') then Some (Inl (NotCleared (rd_matched d)))
              else (case PinnedContext (rd_device d) (rd_subject d) (rd_flow d) of
                  Inl e \<Rightarrow> Some (Inl (NoContext e))
                | Inr ctx \<Rightarrow> Some (Inr ctx))
          | _ \<Rightarrow> None
        })"

definition OFFERED_TOOLS :: "string list" where
  "OFFERED_TOOLS = [''explore_lab'', ''check_lab'', ''investigate_lab'', ''history_lab'']"

definition offer_tools :: "json list \<Rightarrow> pinned_context \<Rightarrow> tool_offer list option" where
  "offer_tools tools ctx = build_offers tools ctx OFFERED_TOOLS"

subsection \<open>Bounds, replies and the state of the loop\<close>

record agent_bounds =
  ab_max_iterations :: int
  ab_time_budget :: int
  ab_max_tool_calls :: int
  ab_max_calls_per_tool :: "(string \<times> int) list"
  ab_max_result_chars :: int

definition AgentBounds :: agent_bounds where
  "AgentBounds = \<lparr>ab_max_iterations = 4, ab_time_budget = 90, ab_max_tool_calls = 6,
     ab_max_calls_per_tool = [(''investigate_lab'', 1)], ab_max_result_chars = 20000\<rparr>"

text \<open>The world: a clock, the tools' manifest, one model turn, one tool call, the closing of the ticket.  \<open>None\<close> is an exception.\<close>

record 'w outside =
  ow_clock :: "'w \<Rightarrow> int \<times> 'w"
  ow_list_tools :: "'w \<Rightarrow> json list option \<times> 'w"
  ow_caller :: "json list \<Rightarrow> json list \<Rightarrow> int \<Rightarrow> 'w \<Rightarrow> json option \<times> 'w"
  ow_call_tool :: "string \<Rightarrow> dict \<Rightarrow> int \<Rightarrow> 'w \<Rightarrow> (string \<times> bool) option \<times> 'w"
  ow_close :: "'w \<Rightarrow> bool \<times> 'w"
  ow_loads :: "string \<Rightarrow> json option"

datatype call_refusal = CallsExhausted | ToolExhausted string | TimeExhausted | NotOffered json | BadArguments string argument_refusal

record tool_call =
  tc_tool :: json
  tc_arguments :: dict
  tc_is_error :: bool
  tc_skipped :: bool
  tc_fabrication :: bool

record 'w agent_state =
  as_world :: 'w
  as_messages :: "json list"
  as_results :: "json list"
  as_turns :: nat
  as_calls :: "tool_call list"
  as_fabrications :: "(string \<times> dict) list"
  as_limits :: "string list"
  as_per_tool :: "(string \<times> int) list"
  as_total :: int
  as_stopped :: string
  as_finished :: bool
  as_tool_failure :: bool
  as_receipt :: "receipt option"
  as_raised :: bool

definition record_limit :: "string \<Rightarrow> 'w agent_state \<Rightarrow> 'w agent_state" where
  "record_limit key st = (if key \<in> set (as_limits st) then st else st\<lparr>as_limits := as_limits st @ [key]\<rparr>)"

definition tick :: "'w outside \<Rightarrow> 'w agent_state \<Rightarrow> int \<times> 'w agent_state" where
  "tick out st = (let (t, w) = ow_clock out (as_world st) in (t, st\<lparr>as_world := w\<rparr>))"

definition result_json :: "json \<Rightarrow> json \<Rightarrow> string \<Rightarrow> bool \<Rightarrow> json" where
  "result_json call_id name content is_error =
     JDict [(''id'', call_id), (''name'', name), (''content'', JStr content), (''is_error'', JBool is_error)]"

definition refuse ::
  "(call_refusal \<Rightarrow> string) \<Rightarrow> json \<Rightarrow> json \<Rightarrow> dict \<Rightarrow> call_refusal \<Rightarrow> bool \<Rightarrow> 'w agent_state \<Rightarrow> 'w agent_state" where
  "refuse say call_id name args why fabrication st = st\<lparr>
     as_results := as_results st @ [result_json call_id name (say why) True],
     as_calls := as_calls st @ [\<lparr>tc_tool = name, tc_arguments = args, tc_is_error = True, tc_skipped = True, tc_fabrication = fabrication\<rparr>]\<rparr>"

subsection \<open>One requested call\<close>

text \<open>\<open>_classify_call_result\<close>: whether the result is an error.\<close>

definition classify_call_result :: "(string \<Rightarrow> json option) \<Rightarrow> string \<Rightarrow> bool \<Rightarrow> bool" where
  "classify_call_result loads text is_error =
     (is_error \<or> (case loads text of Some (JDict p) \<Rightarrow> dict_get p ''status'' = JStr ''error'' | _ \<Rightarrow> False))"

definition truncation_note :: "agent_bounds \<Rightarrow> string \<Rightarrow> string" where
  "truncation_note b text = [CHR 0x0A] @ ''...[event_agent max_result_chars budget exceeded: '' @ show_nat (length text) @ '' chars, kept '' @
     show_int (ab_max_result_chars b) @ '']''"

text \<open>The answer of \<open>investigate_lab\<close>, read once; \<open>Inl\<close> is a receipt the reader refuses.\<close>

definition read_receipt :: "(string \<Rightarrow> json option) \<Rightarrow> string \<Rightarrow> string \<Rightarrow> bool \<Rightarrow> receipt option \<Rightarrow> (receipt_error + receipt) option option" where
  "read_receipt loads name text is_error held =
     (if name = ''investigate_lab'' \<and> \<not> is_error \<and> held = None then
        (case loads text of Some (JDict p) \<Rightarrow> map_option Some (parse_receipt p) | _ \<Rightarrow> Some None)
      else Some None)"

text \<open>A tool was called: its text and error flag become the result the model sees.\<close>

definition record_result ::
  "'w outside \<Rightarrow> agent_bounds \<Rightarrow> (receipt_error \<Rightarrow> string) \<Rightarrow> json \<Rightarrow> string \<Rightarrow> dict \<Rightarrow> string \<Rightarrow> bool \<Rightarrow> 'w agent_state \<Rightarrow> 'w agent_state" where
  "record_result out b say_receipt call_id name args text flagged st =
     (let failed = classify_call_result (ow_loads out) text flagged;
          long = int (length text) > ab_max_result_chars b;
          st = (if long then record_limit ''max_result_chars'' st else st);
          content = (if long then take (nat (ab_max_result_chars b)) text @ truncation_note b text else text);
          is_error = (failed \<or> long);
          call = \<lparr>tc_tool = JStr name, tc_arguments = args, tc_is_error = is_error, tc_skipped = False, tc_fabrication = False\<rparr>;
          done = st\<lparr>as_results := as_results st @ [result_json call_id (JStr name) content is_error], as_calls := as_calls st @ [call]\<rparr>
      in case read_receipt (ow_loads out) name text is_error (as_receipt st) of
           None \<Rightarrow> done\<lparr>as_raised := True\<rparr>
         | Some None \<Rightarrow> done
         | Some (Some (Inl e)) \<Rightarrow> st\<lparr>as_results := as_results st @ [result_json call_id (JStr name) (say_receipt e) True],
             as_calls := as_calls st @ [call\<lparr>tc_is_error := True\<rparr>]\<rparr>
         | Some (Some (Inr rc)) \<Rightarrow> done\<lparr>as_receipt := Some rc\<rparr>)"

definition per_tool_count :: "'w agent_state \<Rightarrow> string \<Rightarrow> int" where
  "per_tool_count st name = (case map_of (as_per_tool st) name of Some n \<Rightarrow> n | None \<Rightarrow> 0)"

definition dispatch_call ::
  "'w outside \<Rightarrow> agent_bounds \<Rightarrow> (receipt_error \<Rightarrow> string) \<Rightarrow> int \<Rightarrow> json \<Rightarrow> string \<Rightarrow> dict \<Rightarrow> 'w agent_state \<Rightarrow> 'w agent_state" where
  "dispatch_call out b say_receipt deadline call_id name args st =
     (let st = st\<lparr>as_total := as_total st + 1, as_per_tool := AList.update name (per_tool_count st name + 1) (as_per_tool st)\<rparr>;
          (now, st) = tick out st;
          (reply, w) = ow_call_tool out name args (max 5 (deadline - now)) (as_world st);
          st = st\<lparr>as_world := w\<rparr>
      in case reply of
           None \<Rightarrow> record_result out b say_receipt call_id name args ''tool call failed'' True (st\<lparr>as_tool_failure := True\<rparr>)
         | Some (text, flagged) \<Rightarrow> record_result out b say_receipt call_id name args text flagged st)"

text \<open>The offer of a name; the later of two offers of one name wins.\<close>

definition offer_named :: "tool_offer list \<Rightarrow> json \<Rightarrow> tool_offer option" where
  "offer_named offers name = (case name of JStr n \<Rightarrow> find (\<lambda>x. to_name x = n) (rev offers) | _ \<Rightarrow> None)"

definition tool_cap :: "agent_bounds \<Rightarrow> json \<Rightarrow> int option" where
  "tool_cap b name = (case name of JStr (c # cs) \<Rightarrow> map_of (ab_max_calls_per_tool b) (c # cs) | _ \<Rightarrow> None)"

definition text_of_name :: "json \<Rightarrow> string" where
  "text_of_name name = (case name of JStr n \<Rightarrow> n | _ \<Rightarrow> [])"

definition requested_arguments :: "dict \<Rightarrow> dict" where
  "requested_arguments c = (case dict_get c ''arguments'' of JDict a \<Rightarrow> a | _ \<Rightarrow> [])"

text \<open>The checks before a call is sent, in order: the budgets, the clock, the offer, the arguments.\<close>

definition checked_call ::
  "'w outside \<Rightarrow> agent_bounds \<Rightarrow> (call_refusal \<Rightarrow> string) \<Rightarrow> (receipt_error \<Rightarrow> string) \<Rightarrow> int \<Rightarrow> tool_offer list \<Rightarrow>
   json \<Rightarrow> json \<Rightarrow> dict \<Rightarrow> 'w agent_state \<Rightarrow> 'w agent_state" where
  "checked_call out b say say_receipt deadline offers name call_id args st =
     (let (now, st) = tick out st
      in if deadline \<le> now then
           (let (_, st) = tick out st in refuse say call_id name args TimeExhausted False (record_limit ''time_budget_s'' st))
         else case offer_named offers name of
           None \<Rightarrow> refuse say call_id name args (NotOffered name) False st
         | Some off \<Rightarrow> (case resolve_arguments off (JDict args) of
             Inl e \<Rightarrow> refuse say call_id name args (BadArguments (to_name off) e) True
               (st\<lparr>as_fabrications := as_fabrications st @ [(to_name off, args)]\<rparr>)
           | Inr resolved \<Rightarrow> dispatch_call out b say_receipt deadline call_id (to_name off) resolved st))"

definition handle_call ::
  "'w outside \<Rightarrow> agent_bounds \<Rightarrow> (call_refusal \<Rightarrow> string) \<Rightarrow> (receipt_error \<Rightarrow> string) \<Rightarrow> int \<Rightarrow> tool_offer list \<Rightarrow>
   json \<Rightarrow> 'w agent_state \<Rightarrow> 'w agent_state" where
  "handle_call out b say say_receipt deadline offers call st = (case call of
     JDict c \<Rightarrow>
       (let name = dict_get c ''name'';
            call_id = py_or (dict_get c ''id'') (JStr (py_str name @ ''-'' @ show_nat (length (as_calls st))));
            args = requested_arguments c
        in if ab_max_tool_calls b \<le> as_total st then refuse say call_id name args CallsExhausted False (record_limit ''max_tool_calls'' st)
           else if unhashable name then
             (if truthy name then st\<lparr>as_raised := True\<rparr>
              else let (now, st) = tick out st in
                if deadline \<le> now then
                  (let (_, st) = tick out st in refuse say call_id name args TimeExhausted False (record_limit ''time_budget_s'' st))
                else st\<lparr>as_raised := True\<rparr>)
           else if (case tool_cap b name of Some cap \<Rightarrow> cap \<le> per_tool_count st (text_of_name name) | None \<Rightarrow> False) then
             refuse say call_id name args (ToolExhausted (text_of_name name)) False
               (record_limit (''max_calls_per_tool:'' @ text_of_name name) st)
           else checked_call out b say say_receipt deadline offers name call_id args st)
   | _ \<Rightarrow> st)"

fun handle_calls ::
  "'w outside \<Rightarrow> agent_bounds \<Rightarrow> (call_refusal \<Rightarrow> string) \<Rightarrow> (receipt_error \<Rightarrow> string) \<Rightarrow> int \<Rightarrow> tool_offer list \<Rightarrow>
   json list \<Rightarrow> 'w agent_state \<Rightarrow> 'w agent_state" where
  "handle_calls out b say say_receipt deadline offers [] st = st"
| "handle_calls out b say say_receipt deadline offers (c # cs) st =
     (let st = handle_call out b say say_receipt deadline offers c st
      in if as_raised st then st else handle_calls out b say say_receipt deadline offers cs st)"

subsection \<open>One turn and the loop\<close>

definition turn_field :: "json \<Rightarrow> string \<Rightarrow> json" where
  "turn_field turn k = (case turn of JDict t \<Rightarrow> dict_get t k | _ \<Rightarrow> JNull)"

text \<open>\<open>list (turn.get(''tool_calls'') or [])\<close>.\<close>

definition requested_calls :: "json \<Rightarrow> json list option" where
  "requested_calls turn = iterate (py_or (turn_field turn ''tool_calls'') (JList []))"

definition offered_json :: "tool_offer \<Rightarrow> json" where
  "offered_json x = JDict [(''name'', JStr (to_name x)), (''description'', JStr (to_description x)), (''input_schema'', JDict (to_input_schema x))]"

text \<open>One turn that has begun at \<open>now\<close>; whether the loop goes on.\<close>

definition agent_turn ::
  "'w outside \<Rightarrow> agent_bounds \<Rightarrow> (call_refusal \<Rightarrow> string) \<Rightarrow> (receipt_error \<Rightarrow> string) \<Rightarrow> int \<Rightarrow> tool_offer list \<Rightarrow> int \<Rightarrow>
   'w agent_state \<Rightarrow> 'w agent_state \<times> bool" where
  "agent_turn out b say say_receipt deadline offers now st =
     (let (turn, w) = ow_caller out (as_messages st) (map offered_json offers) (max 5 (deadline - now)) (as_world st);
          st = st\<lparr>as_world := w, as_turns := as_turns st + 1\<rparr>
      in case turn of
           None \<Rightarrow> (st\<lparr>as_stopped := ''caller_error''\<rparr>, False)
         | Some t \<Rightarrow>
             (let said = py_or (turn_field t ''text'') (JStr []); reason = py_or (turn_field t ''stop_reason'') (JStr ''end_turn'')
              in case requested_calls t of
                   None \<Rightarrow> (st\<lparr>as_raised := True\<rparr>, False)
                 | Some [] \<Rightarrow>
                     if \<not> truthy said then (st\<lparr>as_stopped := ''empty_turn''\<rparr>, False)
                     else (st\<lparr>as_stopped := py_str reason, as_finished := True\<rparr>, False)
                 | Some calls \<Rightarrow>
                     (let st = st\<lparr>as_messages := as_messages st @ [JDict [(''role'', JStr ''assistant''), (''text'', said), (''tool_calls'', JList calls)]],
                            as_results := []\<rparr>;
                          st = handle_calls out b say say_receipt deadline offers calls st
                      in if as_raised st then (st, False)
                         else (st\<lparr>as_messages := as_messages st @ [JDict [(''role'', JStr ''tool_results''), (''results'', JList (as_results st))]]\<rparr>, True))))"

text \<open>The \<open>while\<close> loop, counting the iterations that are left.\<close>

fun agent_loop ::
  "'w outside \<Rightarrow> agent_bounds \<Rightarrow> (call_refusal \<Rightarrow> string) \<Rightarrow> (receipt_error \<Rightarrow> string) \<Rightarrow> int \<Rightarrow> tool_offer list \<Rightarrow> nat \<Rightarrow>
   'w agent_state \<Rightarrow> 'w agent_state" where
  "agent_loop out b say say_receipt deadline offers 0 st = record_limit ''max_iterations'' (st\<lparr>as_stopped := ''max_iterations''\<rparr>)"
| "agent_loop out b say say_receipt deadline offers (Suc left) st =
     (let (now, st) = tick out st
      in if deadline \<le> now then record_limit ''time_budget_s'' (st\<lparr>as_stopped := ''time_budget''\<rparr>)
         else let (st, more) = agent_turn out b say say_receipt deadline offers now st
           in if more then agent_loop out b say say_receipt deadline offers left st else st)"

subsection \<open>Runs\<close>

record event_run =
  ag_ran :: bool
  ag_mode :: string
  ag_tools_offered :: "string list"
  ag_tool_calls :: "tool_call list"
  ag_turns :: nat
  ag_stopped_because :: string
  ag_complete :: bool
  ag_limits_hit :: "string list"
  ag_fabrications :: "(string \<times> dict) list"
  ag_ticket :: "string option"
  ag_receipt :: "receipt option"

definition not_run :: "string \<Rightarrow> string \<Rightarrow> event_run" where
  "not_run mode stopped = \<lparr>ag_ran = False, ag_mode = mode, ag_tools_offered = [], ag_tool_calls = [], ag_turns = 0, ag_stopped_because = stopped,
     ag_complete = False, ag_limits_hit = [], ag_fabrications = [], ag_ticket = None, ag_receipt = None\<rparr>"

definition initial_state :: "json \<Rightarrow> 'w \<Rightarrow> 'w agent_state" where
  "initial_state question w = \<lparr>as_world = w, as_messages = [question], as_results = [], as_turns = 0, as_calls = [], as_fabrications = [],
     as_limits = [], as_per_tool = [], as_total = 0, as_stopped = ''end_turn'', as_finished = False, as_tool_failure = False, as_receipt = None,
     as_raised = False\<rparr>"

text \<open>What is left of a loop when the ticket closes, or does not.\<close>

definition finished_run :: "string \<Rightarrow> string \<Rightarrow> tool_offer list \<Rightarrow> bool \<Rightarrow> 'w agent_state \<Rightarrow> event_run" where
  "finished_run mode ticket offers closed st = \<lparr>ag_ran = True, ag_mode = mode, ag_tools_offered = map to_name offers, ag_tool_calls = as_calls st,
     ag_turns = as_turns st, ag_stopped_because = (if closed then as_stopped st else ''ticket_close_failed''),
     ag_complete = (closed \<and> as_finished st \<and> \<not> as_tool_failure st), ag_limits_hit = as_limits st, ag_fabrications = as_fabrications st,
     ag_ticket = Some ticket, ag_receipt = as_receipt st\<rparr>"

text \<open>\<open>_dispatch\<close>: the run, or \<open>None\<close> for an exception, and the receipt read before it.\<close>

definition dispatch ::
  "'w outside \<Rightarrow> agent_bounds \<Rightarrow> (call_refusal \<Rightarrow> string) \<Rightarrow> (receipt_error \<Rightarrow> string) \<Rightarrow> pinned_context \<Rightarrow> string \<Rightarrow> string \<Rightarrow> json \<Rightarrow> int \<Rightarrow>
   'w \<Rightarrow> event_run option \<times> receipt option \<times> 'w" where
  "dispatch out b say say_receipt ctx mode ticket question start w =
     (case ow_list_tools out w of
        (None, w) \<Rightarrow> (Some (not_run mode ''list_tools_failed''), None, w)
      | (Some tools, w) \<Rightarrow> (case offer_tools tools ctx of
          None \<Rightarrow> (None, None, w)
        | Some [] \<Rightarrow> (Some (not_run mode ''not_run''), None, w)
        | Some offers \<Rightarrow>
            (let st = agent_loop out b say say_receipt (start + ab_time_budget b) offers (nat (ab_max_iterations b)) (initial_state question w)
             in if as_raised st then (None, as_receipt st, as_world st)
                else let (_, st) = tick out st; (closed, w) = ow_close out (as_world st)
                  in (Some (finished_run mode ticket offers closed st), as_receipt st, w))))"

subsection \<open>What the loop keeps\<close>

text \<open>A call that was sent: one of the offered tools, with the event's own arguments.\<close>

definition call_ok :: "pinned_context \<Rightarrow> tool_call \<Rightarrow> bool" where
  "call_ok ctx c \<longleftrightarrow> (\<exists>name specs. tc_tool c = JStr name \<and> name \<in> set OFFERED_TOOLS \<and> map_of PIN_TABLE name = Some specs \<and>
     (\<forall>x\<in>set specs. parameter_ok ctx (tc_arguments c) x) \<and> dom (map_of (tc_arguments c)) \<subseteq> ps_name ` set specs)"

definition sent :: "tool_call list \<Rightarrow> tool_call list" where
  "sent calls = filter (\<lambda>c. \<not> tc_skipped c) calls"

definition sent_to :: "tool_call list \<Rightarrow> string \<Rightarrow> tool_call list" where
  "sent_to calls name = filter (\<lambda>c. tc_tool c = JStr name) (sent calls)"

definition within_caps :: "agent_bounds \<Rightarrow> tool_call list \<Rightarrow> bool" where
  "within_caps b calls \<longleftrightarrow> int (length (sent calls)) \<le> max 0 (ab_max_tool_calls b) \<and>
     (\<forall>name cap. name \<noteq> [] \<longrightarrow> map_of (ab_max_calls_per_tool b) name = Some cap \<longrightarrow> int (length (sent_to calls name)) \<le> max 0 cap)"

definition agent_ok :: "agent_bounds \<Rightarrow> pinned_context \<Rightarrow> 'w agent_state \<Rightarrow> bool" where
  "agent_ok b ctx st \<longleftrightarrow> as_total st = int (length (sent (as_calls st))) \<and>
     (\<forall>name. per_tool_count st name = int (length (sent_to (as_calls st) name))) \<and>
     within_caps b (as_calls st) \<and> list_all (call_ok ctx) (sent (as_calls st))"

lemma sent_append [simp]: "sent (xs @ ys) = sent xs @ sent ys" "sent [] = []"
  by (simp_all add: sent_def)

lemma sent_to_append [simp]: "sent_to (xs @ ys) name = sent_to xs name @ sent_to ys name"
  by (simp add: sent_to_def)

lemma sent_skipped [simp]: "tc_skipped c \<Longrightarrow> sent [c] = []" "tc_skipped c \<Longrightarrow> sent_to [c] name = []"
  by (simp_all add: sent_def sent_to_def)

text \<open>The parts of the state the invariant reads.\<close>

definition same_calls :: "'w agent_state \<Rightarrow> 'w agent_state \<Rightarrow> bool" where
  "same_calls st st' \<longleftrightarrow> as_total st' = as_total st \<and> as_per_tool st' = as_per_tool st \<and> sent (as_calls st') = sent (as_calls st)"

lemma same_calls_ok: "same_calls st st' \<Longrightarrow> agent_ok b ctx st \<Longrightarrow> agent_ok b ctx st'"
  by (simp add: same_calls_def agent_ok_def per_tool_count_def within_caps_def sent_to_def)

lemma same_calls_trans: "same_calls a b \<Longrightarrow> same_calls b c \<Longrightarrow> same_calls a c"
  by (simp add: same_calls_def)

lemma same_calls_updates [simp]:
  "same_calls st st" "same_calls st (record_limit key st)" "same_calls st (snd (tick out st))" "same_calls st (st\<lparr>as_world := w\<rparr>)"
  "same_calls st (refuse say i n a why f st)" "same_calls st (st\<lparr>as_raised := r\<rparr>)" "same_calls st (st\<lparr>as_stopped := s\<rparr>)"
  "same_calls st (st\<lparr>as_fabrications := fs\<rparr>)" "same_calls st (st\<lparr>as_messages := ms\<rparr>)" "same_calls st (st\<lparr>as_results := rs\<rparr>)"
  by (auto simp: same_calls_def record_limit_def tick_def refuse_def split: prod.split)

lemma tickE: "tick out st = (t, st') \<Longrightarrow> same_calls st st'"
  using same_calls_updates(3) [of st out] by simp

text \<open>A call that is sent: the counters go up by one, and one call is added under its name and arguments.\<close>

lemma refused_or_read:
  obtains "r = None" | "r = Some None" | e where "r = Some (Some (Inl e))" | x where "r = Some (Some (Inr x))"
  by (cases r; cases "the r"; cases "the (the r)") auto

lemma record_result_calls:
  obtains c where "as_calls (record_result out b sr i name args text flagged st) = as_calls st @ [c]" "\<not> tc_skipped c"
    "tc_tool c = JStr name" "tc_arguments c = args" "as_total (record_result out b sr i name args text flagged st) = as_total st"
    "as_per_tool (record_result out b sr i name args text flagged st) = as_per_tool st"
proof -
  define s where "s = (if int (length text) > ab_max_result_chars b then record_limit ''max_result_chars'' st else st)"
  have s: "as_calls s = as_calls st" "as_total s = as_total st" "as_per_tool s = as_per_tool st"
    by (simp_all add: s_def record_limit_def)
  obtain e where e: "as_calls (record_result out b sr i name args text flagged st) =
      as_calls s @ [\<lparr>tc_tool = JStr name, tc_arguments = args, tc_is_error = e, tc_skipped = False, tc_fabrication = False\<rparr>]"
    "as_total (record_result out b sr i name args text flagged st) = as_total s"
    "as_per_tool (record_result out b sr i name args text flagged st) = as_per_tool s"
    unfolding record_result_def Let_def s_def [symmetric] by (cases "read_receipt (ow_loads out) name text
      (classify_call_result (ow_loads out) text flagged \<or> ab_max_result_chars b < int (length text)) (as_receipt s)" rule: refused_or_read)
      simp_all
  show ?thesis by (rule that [OF e(1) [unfolded s]]) (simp_all add: e s)
qed

lemma dispatch_call_calls:
  obtains c where "as_calls (dispatch_call out b sr dl i name args st) = as_calls st @ [c]" "\<not> tc_skipped c"
    "tc_tool c = JStr name" "tc_arguments c = args" "as_total (dispatch_call out b sr dl i name args st) = as_total st + 1"
    "as_per_tool (dispatch_call out b sr dl i name args st) = AList.update name (per_tool_count st name + 1) (as_per_tool st)"
proof -
  define s0 where "s0 = st\<lparr>as_total := as_total st + 1, as_per_tool := AList.update name (per_tool_count st name + 1) (as_per_tool st)\<rparr>"
  obtain now s1 where t: "tick out s0 = (now, s1)" by fastforce
  obtain reply w where r: "ow_call_tool out name args (max 5 (dl - now)) (as_world s1) = (reply, w)" by fastforce
  have s1: "as_calls s1 = as_calls st" "as_total s1 = as_total st + 1"
    "as_per_tool s1 = AList.update name (per_tool_count st name + 1) (as_per_tool st)"
    using t by (auto simp: tick_def s0_def split: prod.splits)
  have eq: "dispatch_call out b sr dl i name args st = (case reply of
      None \<Rightarrow> record_result out b sr i name args ''tool call failed'' True (s1\<lparr>as_world := w, as_tool_failure := True\<rparr>)
    | Some (text, flagged) \<Rightarrow> record_result out b sr i name args text flagged (s1\<lparr>as_world := w\<rparr>))"
    by (simp add: dispatch_call_def s0_def [symmetric] t r split: option.split)
  show ?thesis
  proof (cases reply)
    case None
    show ?thesis
      by (rule record_result_calls [of out b sr i name args "''tool call failed''" True "s1\<lparr>as_world := w, as_tool_failure := True\<rparr>"])
        (use s1 None eq in \<open>auto intro: that\<close>)
  next
    case (Some x)
    obtain said flagged where x: "x = (said, flagged)" by fastforce
    show ?thesis
      by (rule record_result_calls [of out b sr i name args said flagged "s1\<lparr>as_world := w\<rparr>"]) (use s1 Some x eq in \<open>auto intro: that\<close>)
  qed
qed

lemma dispatch_call_ok:
  assumes "agent_ok b ctx st" and "as_total st < ab_max_tool_calls b"
    and "\<And>cap. map_of (ab_max_calls_per_tool b) name = Some cap \<Longrightarrow> per_tool_count st name < cap"
    and "\<And>c. tc_tool c = JStr name \<Longrightarrow> tc_arguments c = args \<Longrightarrow> call_ok ctx c"
  shows "agent_ok b ctx (dispatch_call out b sr dl i name args st)"
proof (rule dispatch_call_calls [of out b sr dl i name args st])
  fix c
  assume c: "as_calls (dispatch_call out b sr dl i name args st) = as_calls st @ [c]" "\<not> tc_skipped c"
    "tc_tool c = JStr name" "tc_arguments c = args" "as_total (dispatch_call out b sr dl i name args st) = as_total st + 1"
    "as_per_tool (dispatch_call out b sr dl i name args st) = AList.update name (per_tool_count st name + 1) (as_per_tool st)"
  have s: "sent [c] = [c]" "\<And>n. sent_to [c] n = (if n = name then [c] else [])" using c(2,3) by (simp_all add: sent_def sent_to_def)
  have count: "per_tool_count (dispatch_call out b sr dl i name args st) n = per_tool_count st n + (if n = name then 1 else 0)" for n
    by (simp add: per_tool_count_def c(6) update_conv')
  show ?thesis
    using assms by (auto simp: agent_ok_def within_caps_def c s count)
qed

text \<open>Every argument set an offer resolves to is a call that may be sent.\<close>

definition pinned_offers :: "pinned_context \<Rightarrow> tool_offer list \<Rightarrow> bool" where
  "pinned_offers ctx offers \<longleftrightarrow> (\<forall>off\<in>set offers. \<forall>supplied args c. resolve_arguments off supplied = Inr args \<longrightarrow>
     tc_tool c = JStr (to_name off) \<longrightarrow> tc_arguments c = args \<longrightarrow> call_ok ctx c)"

lemma offer_tools_pinned: "offer_tools tools ctx = Some offers \<Longrightarrow> pinned_offers ctx offers"
  using resolved_call [of tools ctx OFFERED_TOOLS offers] by (fastforce simp: pinned_offers_def call_ok_def offer_tools_def)

lemma offer_named_member: "offer_named offers name = Some off \<Longrightarrow> off \<in> set offers \<and> name = JStr (to_name off)"
  by (auto simp: offer_named_def find_Some_iff split: json.splits) (metis length_rev nth_mem set_rev)

lemma call_ok_name: "call_ok ctx c \<Longrightarrow> tc_tool c \<noteq> JStr []"
  by (auto simp: call_ok_def OFFERED_TOOLS_def)

lemma same_calls_count: "same_calls st st' \<Longrightarrow> per_tool_count st' name = per_tool_count st name"
  by (simp add: same_calls_def per_tool_count_def)

lemma refused_ok: "same_calls st s \<Longrightarrow> agent_ok b ctx st \<Longrightarrow> agent_ok b ctx (refuse say i n a why f s)"
  by (rule same_calls_ok [OF same_calls_trans [OF _ same_calls_updates(5)]])

lemma checked_call_ok:
  assumes ok: "agent_ok b ctx st" and offers: "pinned_offers ctx offers" and room: "as_total st < ab_max_tool_calls b"
    and cap: "\<And>c. tool_cap b name = Some c \<Longrightarrow> per_tool_count st (text_of_name name) < c"
  shows "agent_ok b ctx (checked_call out b say sr dl offers name i args st)"
proof -
  obtain now s1 where t: "tick out st = (now, s1)" by fastforce
  note s1 = tickE [OF t]
  obtain now2 s2 where t2: "tick out s1 = (now2, s2)" by fastforce
  note s2 = same_calls_trans [OF s1 tickE [OF t2]]
  show ?thesis
  proof (cases "dl \<le> now")
    case True
    then show ?thesis
      by (simp add: checked_call_def t t2 refused_ok [OF same_calls_trans [OF s2 same_calls_updates(2)] ok])
  next
    case False
    show ?thesis
    proof (cases "offer_named offers name")
      case None
      then show ?thesis using False by (simp add: checked_call_def t refused_ok [OF s1 ok])
    next
      case (Some off)
      from offer_named_member [OF this] have off: "off \<in> set offers" "name = JStr (to_name off)" by auto
      show ?thesis
      proof (cases "resolve_arguments off (JDict args)")
        case (Inl e)
        then show ?thesis
          using False Some by (simp add: checked_call_def t refused_ok [OF same_calls_trans [OF s1 same_calls_updates(8)] ok])
      next
        case (Inr resolved)
        have call: "call_ok ctx c" if "tc_tool c = JStr (to_name off)" "tc_arguments c = resolved" for c
          using offers off(1) Inr that by (auto simp: pinned_offers_def)
        have named: "to_name off \<noteq> []"
          using call_ok_name [OF call, of "\<lparr>tc_tool = JStr (to_name off), tc_arguments = resolved, tc_is_error = False, tc_skipped = False,
            tc_fabrication = False\<rparr>"] by simp
        have "agent_ok b ctx (dispatch_call out b sr dl i (to_name off) resolved s1)"
        proof (rule dispatch_call_ok [OF same_calls_ok [OF s1 ok] _ _ call])
          show "as_total s1 < ab_max_tool_calls b" using s1 room by (simp add: same_calls_def)
          show "per_tool_count s1 (to_name off) < c" if "map_of (ab_max_calls_per_tool b) (to_name off) = Some c" for c
            using cap [of c] that off(2) named
            by (cases "to_name off") (simp_all add: same_calls_count [OF s1] tool_cap_def text_of_name_def)
        qed
        then show ?thesis using False Some Inr by (simp add: checked_call_def t)
      qed
    qed
  qed
qed

lemma handle_call_ok:
  assumes "agent_ok b ctx st" and "pinned_offers ctx offers"
  shows "agent_ok b ctx (handle_call out b say sr dl offers call st)"
proof (cases call)
  case (JDict c)
  obtain now s1 where t: "tick out st = (now, s1)" by fastforce
  note s1 = tickE [OF t]
  obtain now2 s2 where t2: "tick out s1 = (now2, s2)" by fastforce
  note s2 = same_calls_trans [OF s1 tickE [OF t2]]
  note ok = refused_ok [OF same_calls_updates(2) assms(1)] refused_ok [OF same_calls_trans [OF s2 same_calls_updates(2)] assms(1)]
    same_calls_ok [OF same_calls_updates(6) assms(1)] same_calls_ok [OF same_calls_trans [OF s1 same_calls_updates(6)] assms(1)]
  show ?thesis
    by (auto simp: handle_call_def JDict Let_def t t2 ok not_le split: option.split intro!: checked_call_ok assms)
qed (simp_all add: handle_call_def assms)

lemma handle_calls_ok:
  "agent_ok b ctx st \<Longrightarrow> pinned_offers ctx offers \<Longrightarrow> agent_ok b ctx (handle_calls out b say sr dl offers calls st)"
  by (induction calls arbitrary: st) (auto simp: Let_def intro: handle_call_ok)

lemma agent_turn_ok:
  assumes "agent_ok b ctx st" and "pinned_offers ctx offers"
  shows "agent_ok b ctx (fst (agent_turn out b say sr dl offers now st))"
proof -
  obtain turn w where c: "ow_caller out (as_messages st) (map offered_json offers) (max 5 (dl - now)) (as_world st) = (turn, w)" by fastforce
  define s where "s = st\<lparr>as_world := w, as_turns := Suc (as_turns st)\<rparr>"
  have s: "same_calls st s" by (simp add: s_def same_calls_def)
  note ok = same_calls_ok [OF _ assms(1)]
  show ?thesis
  proof (cases turn)
    case None
    have "same_calls st (st\<lparr>as_world := w, as_turns := Suc (as_turns st), as_stopped := ''caller_error''\<rparr>)"
      by (simp add: same_calls_def)
    with None show ?thesis by (simp add: agent_turn_def c ok)
  next
    case (Some t)
    show ?thesis
    proof (cases "requested_calls t")
      case None
      have "same_calls st (st\<lparr>as_world := w, as_turns := Suc (as_turns st), as_raised := True\<rparr>)"
        by (simp add: same_calls_def)
      with None Some show ?thesis by (simp add: agent_turn_def c ok)
    next
      case (Some calls)
      have after: "agent_ok b ctx (handle_calls out b say sr dl offers calls (s\<lparr>as_messages := ms, as_results := []\<rparr>))" for ms
      proof (rule handle_calls_ok [OF ok assms(2)])
        show "same_calls st (s\<lparr>as_messages := ms, as_results := []\<rparr>)" using s by (simp add: same_calls_def)
      qed
      have fin: "same_calls st (s\<lparr>as_stopped := x, as_finished := True\<rparr>)" "same_calls st (s\<lparr>as_stopped := x\<rparr>)" for x
        using s by (simp_all add: same_calls_def)
      note turned = \<open>turn = Some t\<close> Some
      show ?thesis
      proof (cases calls)
        case Nil
        with turned show ?thesis by (simp add: agent_turn_def c s_def [symmetric] Let_def ok [OF fin(1)] ok [OF fin(2)])
      next
        case (Cons x xs)
        note after = after [unfolded Cons]
        from turned Cons show ?thesis
          by (simp add: agent_turn_def c s_def [symmetric] Let_def after same_calls_ok [OF same_calls_updates(9) after] del: handle_calls.simps)
      qed
    qed
  qed
qed

lemma agent_loop_ok:
  "agent_ok b ctx st \<Longrightarrow> pinned_offers ctx offers \<Longrightarrow> agent_ok b ctx (agent_loop out b say sr dl offers n st)"
proof (induction n arbitrary: st)
  case 0
  have "same_calls st (record_limit ''max_iterations'' (st\<lparr>as_stopped := ''max_iterations''\<rparr>))"
    by (rule same_calls_trans [OF same_calls_updates(7) same_calls_updates(2)])
  then show ?case using same_calls_ok 0(1) by fastforce
next
  case (Suc n)
  obtain now s1 where t: "tick out st = (now, s1)" by fastforce
  note ok = same_calls_ok [OF tickE [OF t] Suc.prems(1)]
  have "same_calls s1 (record_limit ''time_budget_s'' (s1\<lparr>as_stopped := ''time_budget''\<rparr>))"
    by (rule same_calls_trans [OF same_calls_updates(7) same_calls_updates(2)])
  from same_calls_ok [OF this ok] agent_turn_ok [OF ok Suc.prems(2)] Suc.IH Suc.prems(2) show ?case
    by (auto simp: t split: prod.split) (metis fst_conv)+
qed

lemma turns_kept [simp]:
  "as_turns (record_limit key st) = as_turns st" "as_turns (snd (tick out st)) = as_turns st" "as_turns (refuse say i n a why f st) = as_turns st"
  "as_turns (record_result out b sr i name args text flagged st) = as_turns st"
  by (auto simp: record_limit_def tick_def refuse_def record_result_def Let_def split: prod.split option.split sum.split)

lemma tick_turns: "tick out st = (t, st') \<Longrightarrow> as_turns st' = as_turns st"
  using turns_kept(2) [of out st] by simp

lemma call_turns [simp]: "as_turns (dispatch_call out b sr dl i name args st) = as_turns st"
  by (auto simp: dispatch_call_def Let_def split: prod.split option.split dest!: tick_turns)

lemma checked_turns [simp]: "as_turns (checked_call out b say sr dl offers name i args st) = as_turns st"
  by (auto simp: checked_call_def split: prod.split option.split sum.split dest!: tick_turns)

lemma handle_turns [simp]: "as_turns (handle_call out b say sr dl offers call st) = as_turns st"
  by (auto simp: handle_call_def Let_def split: prod.split json.split dest!: tick_turns)

lemma handle_all_turns [simp]: "as_turns (handle_calls out b say sr dl offers calls st) = as_turns st"
  by (induction calls arbitrary: st) (simp_all add: Let_def)

lemma agent_turn_turns: "as_turns (fst (agent_turn out b say sr dl offers now st)) = Suc (as_turns st)"
  by (auto simp: agent_turn_def Let_def split: prod.split option.split list.split simp del: handle_calls.simps)

lemma agent_loop_turns: "as_turns (agent_loop out b say sr dl offers n st) \<le> as_turns st + n"
proof (induction n arbitrary: st)
  case (Suc n)
  obtain now s1 where t: "tick out st = (now, s1)" by fastforce
  obtain s2 more where a: "agent_turn out b say sr dl offers now s1 = (s2, more)" by fastforce
  from agent_turn_turns [of out b say sr dl offers now s1] a tick_turns [OF t] have "as_turns s2 = Suc (as_turns st)" by simp
  with Suc.IH [of s2] show ?case by (simp add: t a tick_turns [OF t])
qed simp

lemma initial_ok: "agent_ok b ctx (initial_state q w)"
  by (simp add: agent_ok_def initial_state_def within_caps_def per_tool_count_def sent_to_def)

lemma started_ok: "offer_tools tools ctx = Some offers \<Longrightarrow> agent_ok b ctx (agent_loop out b say sr dl offers n (initial_state q w))"
  by (rule agent_loop_ok [OF initial_ok offer_tools_pinned])

subsection \<open>The world's own record\<close>

text \<open>
  What a run sends is what the world sees, not what the run writes down about itself.  \<open>recorded out\<close> is any world
  with a recorder between it and the program: each tool call is appended with its name and arguments, each turn
  of the model is counted, and nothing else is touched.
\<close>

type_synonym log = "(string \<times> dict) list \<times> nat"

definition recorded :: "'w outside \<Rightarrow> ('w \<times> log) outside" where
  "recorded out = \<lparr>
     ow_clock = (\<lambda>(w, l). let (t, w) = ow_clock out w in (t, w, l)),
     ow_list_tools = (\<lambda>(w, l). let (tools, w) = ow_list_tools out w in (tools, w, l)),
     ow_caller = (\<lambda>ms offers wait (w, calls, n). let (turn, w) = ow_caller out ms offers wait w in (turn, w, calls, Suc n)),
     ow_call_tool = (\<lambda>name args wait (w, calls, n). let (reply, w) = ow_call_tool out name args wait w in (reply, w, calls @ [(name, args)], n)),
     ow_close = (\<lambda>(w, l). let (closed, w) = ow_close out w in (closed, w, l)),
     ow_loads = ow_loads out\<rparr>"

lemma recorded_simps [simp]:
  "fst (ow_clock (recorded out) x) = fst (ow_clock out (fst x))"
  "snd (ow_clock (recorded out) x) = (snd (ow_clock out (fst x)), snd x)"
  "fst (ow_list_tools (recorded out) x) = fst (ow_list_tools out (fst x))"
  "snd (ow_list_tools (recorded out) x) = (snd (ow_list_tools out (fst x)), snd x)"
  "fst (ow_caller (recorded out) ms offers wait x) = fst (ow_caller out ms offers wait (fst x))"
  "snd (ow_caller (recorded out) ms offers wait x) = (snd (ow_caller out ms offers wait (fst x)), fst (snd x), Suc (snd (snd x)))"
  "fst (ow_call_tool (recorded out) name args wait x) = fst (ow_call_tool out name args wait (fst x))"
  "snd (ow_call_tool (recorded out) name args wait x) =
     (snd (ow_call_tool out name args wait (fst x)), fst (snd x) @ [(name, args)], snd (snd x))"
  "fst (ow_close (recorded out) x) = fst (ow_close out (fst x))"
  "snd (ow_close (recorded out) x) = (snd (ow_close out (fst x)), snd x)"
  "ow_loads (recorded out) = ow_loads out"
  by (simp_all add: recorded_def case_prod_beta)

text \<open>The state without the record: recording changes nothing of a run.\<close>

definition unrecorded :: "('w \<times> log) agent_state \<Rightarrow> 'w agent_state" where
  "unrecorded st = \<lparr>as_world = fst (as_world st), as_messages = as_messages st, as_results = as_results st, as_turns = as_turns st,
     as_calls = as_calls st, as_fabrications = as_fabrications st, as_limits = as_limits st, as_per_tool = as_per_tool st,
     as_total = as_total st, as_stopped = as_stopped st, as_finished = as_finished st, as_tool_failure = as_tool_failure st,
     as_receipt = as_receipt st, as_raised = as_raised st\<rparr>"

lemma unrecorded_fields [simp]:
  "as_world (unrecorded st) = fst (as_world st)" "as_messages (unrecorded st) = as_messages st" "as_results (unrecorded st) = as_results st"
  "as_turns (unrecorded st) = as_turns st" "as_calls (unrecorded st) = as_calls st" "as_fabrications (unrecorded st) = as_fabrications st"
  "as_limits (unrecorded st) = as_limits st" "as_per_tool (unrecorded st) = as_per_tool st" "as_total (unrecorded st) = as_total st"
  "as_stopped (unrecorded st) = as_stopped st" "as_finished (unrecorded st) = as_finished st"
  "as_tool_failure (unrecorded st) = as_tool_failure st" "as_receipt (unrecorded st) = as_receipt st" "as_raised (unrecorded st) = as_raised st"
  by (simp_all add: unrecorded_def)

lemma unrecorded_updates [simp]:
  "unrecorded (st\<lparr>as_world := x\<rparr>) = (unrecorded st)\<lparr>as_world := fst x\<rparr>" "unrecorded (st\<lparr>as_messages := ms\<rparr>) = (unrecorded st)\<lparr>as_messages := ms\<rparr>"
  "unrecorded (st\<lparr>as_results := rs\<rparr>) = (unrecorded st)\<lparr>as_results := rs\<rparr>" "unrecorded (st\<lparr>as_turns := n\<rparr>) = (unrecorded st)\<lparr>as_turns := n\<rparr>"
  "unrecorded (st\<lparr>as_calls := cs\<rparr>) = (unrecorded st)\<lparr>as_calls := cs\<rparr>"
  "unrecorded (st\<lparr>as_fabrications := fs\<rparr>) = (unrecorded st)\<lparr>as_fabrications := fs\<rparr>"
  "unrecorded (st\<lparr>as_limits := ls\<rparr>) = (unrecorded st)\<lparr>as_limits := ls\<rparr>" "unrecorded (st\<lparr>as_per_tool := pt\<rparr>) = (unrecorded st)\<lparr>as_per_tool := pt\<rparr>"
  "unrecorded (st\<lparr>as_total := i\<rparr>) = (unrecorded st)\<lparr>as_total := i\<rparr>" "unrecorded (st\<lparr>as_stopped := s\<rparr>) = (unrecorded st)\<lparr>as_stopped := s\<rparr>"
  "unrecorded (st\<lparr>as_finished := f\<rparr>) = (unrecorded st)\<lparr>as_finished := f\<rparr>"
  "unrecorded (st\<lparr>as_tool_failure := f\<rparr>) = (unrecorded st)\<lparr>as_tool_failure := f\<rparr>"
  "unrecorded (st\<lparr>as_receipt := rc\<rparr>) = (unrecorded st)\<lparr>as_receipt := rc\<rparr>" "unrecorded (st\<lparr>as_raised := f\<rparr>) = (unrecorded st)\<lparr>as_raised := f\<rparr>"
  by (simp_all add: unrecorded_def)

lemma unrecorded_tick [simp]:
  "fst (tick (recorded out) st) = fst (tick out (unrecorded st))" "unrecorded (snd (tick (recorded out) st)) = snd (tick out (unrecorded st))"
  by (simp_all add: tick_def case_prod_beta)

lemma tick_fabrications [simp]: "as_fabrications (snd (tick out st)) = as_fabrications st"
  by (simp add: tick_def case_prod_beta)

lemma limit_fields [simp]:
  "as_results (record_limit key st) = as_results st" "as_calls (record_limit key st) = as_calls st"
  "as_receipt (record_limit key st) = as_receipt st" "as_world (record_limit key st) = as_world st"
  by (simp_all add: record_limit_def)

lemma unrecorded_limit [simp]: "unrecorded (record_limit key st) = record_limit key (unrecorded st)"
  by (simp add: record_limit_def)

lemma unrecorded_refuse [simp]: "unrecorded (refuse say i name args why f st) = refuse say i name args why f (unrecorded st)"
  by (simp add: refuse_def)

lemma unrecorded_result [simp]:
  "unrecorded (record_result (recorded out) b sr i name args text flagged st) = record_result out b sr i name args text flagged (unrecorded st)"
  by (simp add: record_result_def Let_def split: option.split sum.split)

lemma unrecorded_count [simp]: "per_tool_count (unrecorded st) name = per_tool_count st name"
  by (simp add: per_tool_count_def)

lemma unrecorded_call [simp]:
  "unrecorded (dispatch_call (recorded out) b sr dl i name args st) = dispatch_call out b sr dl i name args (unrecorded st)"
  by (simp add: dispatch_call_def Let_def case_prod_beta tick_def split: option.split)

lemma unrecorded_checked [simp]:
  "unrecorded (checked_call (recorded out) b say sr dl offers name i args st) = checked_call out b say sr dl offers name i args (unrecorded st)"
  by (simp add: checked_call_def case_prod_beta split: option.split sum.split)

lemma unrecorded_handle [simp]:
  "unrecorded (handle_call (recorded out) b say sr dl offers call st) = handle_call out b say sr dl offers call (unrecorded st)"
  by (simp add: handle_call_def Let_def case_prod_beta cong: option.case_cong split: json.split)

lemma unrecorded_handle_raised [simp]:
  "as_raised (handle_call (recorded out) b say sr dl offers call st) = as_raised (handle_call out b say sr dl offers call (unrecorded st))"
  by (simp flip: unrecorded_handle)

lemma unrecorded_handles [simp]:
  "unrecorded (handle_calls (recorded out) b say sr dl offers calls st) = handle_calls out b say sr dl offers calls (unrecorded st)"
  by (induction calls arbitrary: st) (simp_all add: Let_def)

lemma unrecorded_handles_fields [simp]:
  "as_raised (handle_calls (recorded out) b say sr dl offers calls st) = as_raised (handle_calls out b say sr dl offers calls (unrecorded st))"
  "as_messages (handle_calls (recorded out) b say sr dl offers calls st) = as_messages (handle_calls out b say sr dl offers calls (unrecorded st))"
  "as_results (handle_calls (recorded out) b say sr dl offers calls st) = as_results (handle_calls out b say sr dl offers calls (unrecorded st))"
  by (simp_all flip: unrecorded_handles)

lemma unrecorded_turn [simp]:
  "unrecorded (fst (agent_turn (recorded out) b say sr dl offers now st)) = fst (agent_turn out b say sr dl offers now (unrecorded st))"
  "snd (agent_turn (recorded out) b say sr dl offers now st) = snd (agent_turn out b say sr dl offers now (unrecorded st))"
  by (simp_all add: agent_turn_def Let_def case_prod_beta del: handle_calls.simps split: option.split list.split)

lemma unrecorded_loop:
  "unrecorded (agent_loop (recorded out) b say sr dl offers n st) = agent_loop out b say sr dl offers n (unrecorded st)"
  by (induction n arbitrary: st) (simp_all add: case_prod_beta)

text \<open>The run's own books agree with the record.\<close>

definition logged :: "('w \<times> log) agent_state \<Rightarrow> bool" where
  "logged st \<longleftrightarrow> map (\<lambda>(name, args). (JStr name, args)) (fst (snd (as_world st))) = map (\<lambda>c. (tc_tool c, tc_arguments c)) (sent (as_calls st)) \<and>
     snd (snd (as_world st)) = as_turns st"

lemma logged_tick [simp]: "logged (snd (tick (recorded out) st)) = logged st"
  by (simp add: logged_def tick_def case_prod_beta)

lemma logged_updates [simp]:
  "logged (record_limit key st) = logged st" "logged (refuse say i name args why f st) = logged st" "logged (st\<lparr>as_raised := r\<rparr>) = logged st"
  "logged (st\<lparr>as_stopped := s\<rparr>) = logged st" "logged (st\<lparr>as_fabrications := fs\<rparr>) = logged st" "logged (st\<lparr>as_messages := ms\<rparr>) = logged st"
  "logged (st\<lparr>as_results := rs\<rparr>) = logged st" "logged (st\<lparr>as_finished := r\<rparr>) = logged st"
  by (simp_all add: logged_def record_limit_def refuse_def)

lemma record_result_world [simp]: "as_world (record_result out b sr i name args text flagged st) = as_world st"
  by (auto simp: record_result_def record_limit_def Let_def split: option.split sum.split)

lemma logged_call [simp]: "logged st \<Longrightarrow> logged (dispatch_call (recorded out) b sr dl i name args st)"
proof (rule dispatch_call_calls [of "recorded out" b sr dl i name args st])
  fix c
  assume st: "logged st" and c: "as_calls (dispatch_call (recorded out) b sr dl i name args st) = as_calls st @ [c]" "\<not> tc_skipped c"
    "tc_tool c = JStr name" "tc_arguments c = args"
  have "snd (as_world (dispatch_call (recorded out) b sr dl i name args st)) = (fst (snd (as_world st)) @ [(name, args)], snd (snd (as_world st)))"
    by (simp add: dispatch_call_def Let_def case_prod_beta tick_def split: option.split)
  then show ?thesis using st c by (simp add: logged_def) (simp add: sent_def)
qed

lemma logged_checked: "logged st \<Longrightarrow> logged (checked_call (recorded out) b say sr dl offers name i args st)"
  by (auto simp: checked_call_def case_prod_beta split: option.split sum.split)

lemma logged_handle: "logged st \<Longrightarrow> logged (handle_call (recorded out) b say sr dl offers call st)"
  by (auto simp: handle_call_def Let_def case_prod_beta logged_checked split: json.split)

lemma logged_handles: "logged st \<Longrightarrow> logged (handle_calls (recorded out) b say sr dl offers calls st)"
  by (induction calls arbitrary: st) (auto simp: Let_def logged_handle)

lemma logged_turn: "logged st \<Longrightarrow> logged (fst (agent_turn (recorded out) b say sr dl offers now st))"
proof -
  assume st: "logged st"
  define s where "s = st\<lparr>as_world := snd (ow_caller (recorded out) (as_messages st) (map offered_json offers) (max 5 (dl - now)) (as_world st)),
    as_turns := Suc (as_turns st)\<rparr>"
  have s: "logged s" using st by (simp add: logged_def s_def)
  then show ?thesis
    by (auto simp: agent_turn_def Let_def case_prod_beta s_def [symmetric] logged_handles simp del: handle_calls.simps recorded_simps
        split: option.split list.split)
qed

lemma logged_loop: "logged st \<Longrightarrow> logged (agent_loop (recorded out) b say sr dl offers n st)"
  by (induction n arbitrary: st) (auto simp: case_prod_beta logged_turn)

lemma dispatch_loop:
  assumes "ow_list_tools out w = (Some tools, world)" and "offer_tools tools ctx = Some offers" and "offers \<noteq> []"
  shows "dispatch out b say sr ctx mode ticket question start w =
    (let st = agent_loop out b say sr (start + ab_time_budget b) offers (nat (ab_max_iterations b)) (initial_state question world)
     in if as_raised st then (None, as_receipt st, as_world st)
        else let (_, st) = tick out st; (closed, w) = ow_close out (as_world st)
          in (Some (finished_run mode ticket offers closed st), as_receipt st, w))"
  using assms by (cases offers) (simp_all add: dispatch_def Let_def case_prod_beta)

text \<open>A dispatched event in the recorded world: the same run, and the record of a state that keeps the bounds.\<close>

lemma recorded_dispatch:
  assumes "dispatch out b say sr ctx mode ticket question start w = (run, receipt, w')"
  obtains calls turns where "dispatch (recorded out) b say sr ctx mode ticket question start (w, [], 0) = (run, receipt, w', calls, turns)"
    and "\<forall>(name, args)\<in>set calls. \<forall>c. tc_tool c = JStr name \<longrightarrow> tc_arguments c = args \<longrightarrow> call_ok ctx c"
    and "int (length calls) \<le> max 0 (ab_max_tool_calls b)"
    and "\<And>name cap. name \<noteq> [] \<Longrightarrow> map_of (ab_max_calls_per_tool b) name = Some cap \<Longrightarrow>
      int (length (filter (\<lambda>x. fst x = name) calls)) \<le> max 0 cap"
    and "int turns \<le> max 0 (ab_max_iterations b)"
    and "\<And>r. run = Some r \<Longrightarrow> map (\<lambda>c. (tc_tool c, tc_arguments c)) (sent (ag_tool_calls r)) = map (\<lambda>(name, args). (JStr name, args)) calls \<and>
      ag_turns r = turns"
proof (cases "\<exists>tools world offers. ow_list_tools out w = (Some tools, world) \<and> offer_tools tools ctx = Some offers \<and> offers \<noteq> []")
  case False
  obtain listed world where l: "ow_list_tools out w = (listed, world)" by fastforce
  then have "ow_list_tools (recorded out) (w, [], 0) = (listed, world, [], 0)" by (simp add: recorded_def)
  moreover from assms False l have "dispatch out b say sr ctx mode ticket question start w = (run, None, world) \<and> receipt = None \<and> w' = world"
    by (auto simp: dispatch_def split: option.splits list.splits)
  moreover from this False l have "run = None \<or> (\<exists>why. run = Some (not_run mode why))"
    by (auto simp: dispatch_def split: option.splits list.splits)
  ultimately have "dispatch (recorded out) b say sr ctx mode ticket question start (w, [], 0) = (run, receipt, w', [], 0)"
    using False l by (auto simp: dispatch_def split: option.splits list.splits)
  then show thesis by (rule that) (use \<open>run = None \<or> _\<close> in \<open>auto simp: not_run_def\<close>)
next
  case True
  then obtain tools world offers where l: "ow_list_tools out w = (Some tools, world)" and o: "offer_tools tools ctx = Some offers" "offers \<noteq> []"
    by blast
  then have lr: "ow_list_tools (recorded out) (w, [], 0) = (Some tools, world, [], 0)" by (simp add: recorded_def)
  define st where "st = agent_loop (recorded out) b say sr (start + ab_time_budget b) offers (nat (ab_max_iterations b)) (initial_state question (world, [], 0))"
  have init: "unrecorded (initial_state question (world, [], 0)) = initial_state question world"
    by (simp add: unrecorded_def initial_state_def)
  have plain: "agent_loop out b say sr (start + ab_time_budget b) offers (nat (ab_max_iterations b)) (initial_state question world) = unrecorded st"
    unfolding st_def unrecorded_loop init ..
  have log: "logged st" unfolding st_def by (rule logged_loop) (simp add: logged_def initial_state_def)
  have ok: "agent_ok b ctx st" unfolding st_def by (rule started_ok [OF o(1)])
  have turns: "as_turns st \<le> nat (ab_max_iterations b)"
    using agent_loop_turns [of "recorded out" b say sr "start + ab_time_budget b" offers "nat (ab_max_iterations b)" "initial_state question (world, [], 0)"]
    unfolding st_def [symmetric] by (simp add: initial_state_def)
  obtain v calls n where world: "as_world st = (v, calls, n)" by (cases "as_world st") auto
  have books: "map (\<lambda>(name, args). (JStr name, args)) calls = map (\<lambda>c. (tc_tool c, tc_arguments c)) (sent (as_calls st))" "n = as_turns st"
    using log by (simp_all add: logged_def world)
  have eq: "dispatch (recorded out) b say sr ctx mode ticket question start (w, [], 0) = (run, receipt, w', calls, n)"
    using assms unfolding dispatch_loop [OF l o] dispatch_loop [OF lr o] st_def [symmetric] plain
    by (auto simp: Let_def case_prod_beta tick_def world finished_run_def split: if_splits)
  have kept: "sent (as_calls st) = sent (ag_tool_calls r) \<and> ag_turns r = as_turns st" if "run = Some r" for r
    using assms that unfolding dispatch_loop [OF l o] plain
    by (auto simp: Let_def case_prod_beta tick_def finished_run_def split: if_splits)
  have len: "length calls = length (sent (as_calls st))" using arg_cong [OF books(1), of length] by simp
  have pinned: "call_ok ctx c" if m: "(name, args) \<in> set calls" and c: "tc_tool c = JStr name" "tc_arguments c = args" for name args c
  proof -
    have "(JStr name, args) \<in> set (map (\<lambda>(name, args). (JStr name, args)) calls)" using m by force
    then obtain d where "d \<in> set (sent (as_calls st))" "tc_tool d = JStr name" "tc_arguments d = args" unfolding books(1) by auto
    with ok c show ?thesis by (auto simp: agent_ok_def list_all_iff call_ok_def)
  qed
  show thesis
  proof (rule that [OF eq])
    show "\<forall>(name, args)\<in>set calls. \<forall>c. tc_tool c = JStr name \<longrightarrow> tc_arguments c = args \<longrightarrow> call_ok ctx c"
      using pinned by auto
    show "int (length calls) \<le> max 0 (ab_max_tool_calls b)" using ok by (simp add: len agent_ok_def within_caps_def)
    show "int n \<le> max 0 (ab_max_iterations b)" using turns by (simp add: books(2))
    fix name cap assume cap: "name \<noteq> []" "map_of (ab_max_calls_per_tool b) name = Some cap"
    have "length (filter (\<lambda>x. fst x = name) calls) = length (filter (\<lambda>x. fst x = JStr name) (map (\<lambda>(name, args). (JStr name, args)) calls))"
      by (simp add: filter_map comp_def case_prod_beta)
    also have "\<dots> = length (sent_to (as_calls st) name)" unfolding books(1) by (simp add: filter_map comp_def sent_to_def)
    finally show "int (length (filter (\<lambda>x. fst x = name) calls)) \<le> max 0 cap" using ok cap by (simp add: agent_ok_def within_caps_def)
  next
    fix r assume "run = Some r"
    from kept [OF this] books show "map (\<lambda>c. (tc_tool c, tc_arguments c)) (sent (ag_tool_calls r)) = map (\<lambda>(name, args). (JStr name, args)) calls \<and>
      ag_turns r = n" by simp
  qed
qed

text \<open>C6: Whatever the tools' manifest, the model and the replies are, and whether the run returns or raises: put a recorder
  between the program and the world, which changes neither the run nor the world, and every call the
  world receives is to one of the four read tools the agent may offer, carries exactly the parameters of that
  tool's pinning row, and the device, subject and flow among them are those of the event, checked for
  shape; and a run that returns lists exactly these calls, in order, as sent.\<close>

theorem sent_calls_are_pinned:
  assumes "dispatch out b say say_receipt ctx mode ticket question start w = (run, receipt, w')"
  shows "\<exists>calls turns. dispatch (recorded out) b say say_receipt ctx mode ticket question start (w, [], 0) = (run, receipt, w', calls, turns) \<and>
    (\<forall>(name, args)\<in>set calls. \<exists>specs. name \<in> set OFFERED_TOOLS \<and> map_of PIN_TABLE name = Some specs \<and>
       (\<forall>x\<in>set specs. parameter_ok ctx args x) \<and> dom (map_of args) \<subseteq> ps_name ` set specs) \<and>
    (\<forall>r. run = Some r \<longrightarrow> map (\<lambda>c. (tc_tool c, tc_arguments c)) (sent (ag_tool_calls r)) = map (\<lambda>(name, args). (JStr name, args)) calls)"
proof (rule recorded_dispatch [OF assms])
  fix calls turns
  assume d: "dispatch (recorded out) b say say_receipt ctx mode ticket question start (w, [], 0) = (run, receipt, w', calls, turns)"
    and ok: "\<forall>(name, args)\<in>set calls. \<forall>c. tc_tool c = JStr name \<longrightarrow> tc_arguments c = args \<longrightarrow> call_ok ctx c"
    and books: "\<And>r. run = Some r \<Longrightarrow> map (\<lambda>c. (tc_tool c, tc_arguments c)) (sent (ag_tool_calls r)) = map (\<lambda>(name, args). (JStr name, args)) calls \<and>
      ag_turns r = turns"
  have "\<exists>specs. name \<in> set OFFERED_TOOLS \<and> map_of PIN_TABLE name = Some specs \<and> (\<forall>x\<in>set specs. parameter_ok ctx args x) \<and>
      dom (map_of args) \<subseteq> ps_name ` set specs" if "(name, args) \<in> set calls" for name args
  proof -
    have "call_ok ctx \<lparr>tc_tool = JStr name, tc_arguments = args, tc_is_error = False, tc_skipped = False, tc_fabrication = False\<rparr>"
      using ok that by fastforce
    then show ?thesis by (simp add: call_ok_def)
  qed
  with d books show ?thesis by blast
qed

text \<open>C9: The budgets hold for any model, and whether the run returns or raises: the calls the world receives, by the
  same recorder, are no more in all, and to a tool with a cap, than the bounds allow, and the model is asked for
  no more turns than the iterations; a run that returns counts its turns right.\<close>

theorem runs_are_bounded:
  assumes "dispatch out b say say_receipt ctx mode ticket question start w = (run, receipt, w')"
  shows "\<exists>calls turns. dispatch (recorded out) b say say_receipt ctx mode ticket question start (w, [], 0) = (run, receipt, w', calls, turns) \<and>
    int (length calls) \<le> max 0 (ab_max_tool_calls b) \<and>
    (\<forall>name cap. name \<noteq> [] \<longrightarrow> map_of (ab_max_calls_per_tool b) name = Some cap \<longrightarrow>
       int (length (filter (\<lambda>x. fst x = name) calls)) \<le> max 0 cap) \<and>
    int turns \<le> max 0 (ab_max_iterations b) \<and> (\<forall>r. run = Some r \<longrightarrow> ag_turns r = turns)"
  by (rule recorded_dispatch [OF assms]) blast

text \<open>A model that keeps asking for the same tool, twice a turn, once with arguments of its own, given one turn; a clock that does not move.\<close>

definition eager_call :: "dict \<Rightarrow> json" where
  "eager_call args = JDict [(''name'', JStr ''check_lab''), (''arguments'', JDict args)]"

definition eager_model :: "nat outside" where
  "eager_model = \<lparr>ow_clock = (\<lambda>w. (0, w)), ow_list_tools = (\<lambda>w. (Some [lab_tool], w)),
     ow_caller = (\<lambda>messages offers wait w. (Some (JDict [(''tool_calls'', JList [eager_call [(''intent'', JStr ''bgp'')],
       eager_call [(''scope'', JStr ''fabric'')]])]), w + 1)),
     ow_call_tool = (\<lambda>name args wait w. (Some (''ok'', False), w)), ow_close = (\<lambda>w. (True, w)), ow_loads = (\<lambda>t. None)\<rparr>"

definition one_turn :: agent_bounds where
  "one_turn = AgentBounds\<lparr>ab_max_iterations := 1\<rparr>"

definition eager_run :: event_run where
  "eager_run = \<lparr>ag_ran = True, ag_mode = ''observe'', ag_tools_offered = [''check_lab''],
     ag_tool_calls = [\<lparr>tc_tool = JStr ''check_lab'', tc_arguments = [(''scope'', JStr ''PE2''), (''intent'', JStr ''bgp'')], tc_is_error = False,
         tc_skipped = False, tc_fabrication = False\<rparr>,
       \<lparr>tc_tool = JStr ''check_lab'', tc_arguments = [(''scope'', JStr ''fabric'')], tc_is_error = True,
         tc_skipped = True, tc_fabrication = True\<rparr>],
     ag_turns = 1, ag_stopped_because = ''max_iterations'', ag_complete = False, ag_limits_hit = [''max_iterations''],
     ag_fabrications = [(''check_lab'', [(''scope'', JStr ''fabric'')])], ag_ticket = Some ''INC-1'', ag_receipt = None\<rparr>"

lemma eager_dispatch:
  "dispatch eager_model one_turn (\<lambda>e. ''refused'') (\<lambda>e. ''refused'') lab_context ''observe'' ''INC-1'' JNull 0 0 = (Some eager_run, None, 1)"
  by code_simp

theorem sent_calls_witness:
  "\<exists>args turns. dispatch (recorded eager_model) one_turn (\<lambda>e. ''refused'') (\<lambda>e. ''refused'') lab_context ''observe'' ''INC-1'' JNull 0 (0, [], 0) =
     (Some eager_run, None, 1, [(''check_lab'', args)], turns) \<and> map_of args ''scope'' = Some (JStr ''PE2'')"
proof -
  have one: "map (\<lambda>c. (tc_tool c, tc_arguments c)) (sent (ag_tool_calls eager_run)) =
      [(JStr ''check_lab'', [(''scope'', JStr ''PE2''), (''intent'', JStr ''bgp'')])]"
    by (simp add: eager_run_def sent_def)
  from sent_calls_are_pinned [OF eager_dispatch] obtain calls turns where
    d: "dispatch (recorded eager_model) one_turn (\<lambda>e. ''refused'') (\<lambda>e. ''refused'') lab_context ''observe'' ''INC-1'' JNull 0 (0, [], 0) =
      (Some eager_run, None, 1, calls, turns)"
    and c: "map (\<lambda>c. (tc_tool c, tc_arguments c)) (sent (ag_tool_calls eager_run)) = map (\<lambda>(name, args). (JStr name, args)) calls" by blast
  from c one have "calls = [(''check_lab'', [(''scope'', JStr ''PE2''), (''intent'', JStr ''bgp'')])]" by (cases calls) auto
  with d show ?thesis by simp
qed

theorem runs_bounded_witness:
  "\<exists>calls turns. dispatch (recorded eager_model) one_turn (\<lambda>e. ''refused'') (\<lambda>e. ''refused'') lab_context ''observe'' ''INC-1'' JNull 0 (0, [], 0) =
     (Some eager_run, None, 1, calls, turns) \<and> turns = 1 \<and> length calls \<le> 6"
  using runs_are_bounded [OF eager_dispatch] by (simp add: one_turn_def AgentBounds_def eager_run_def) fastforce

end
