(* ===== verification/Event_Worker.thy ===== *)
theory Event_Worker
  imports Event_Agent Event_Intake Store_Machine
begin

section \<open>Workers: from a durable event to a finished run\<close>

text \<open>
  Models \<open>run_event\<close> of \<open>event_agent.py\<close> around the loop, \<open>EventWorker\<close> of \<open>event_receiver.py\<close> and
  \<open>RecoveryService\<close> of \<open>recovery_service.py\<close>: the composition of the event store, the receiver's
  payloads, admission and the agent.  A transaction reads the clock of the store first, and whatever
  other processes and the heartbeat thread committed since is part of that reading (\<open>ho_transact\<close>).
  Admission and the MCP server are operations of the unknown world; \<open>Admission_Budget\<close> models the former.
  The shadow records of a receipt are written when the loop ends.  Only runs with a store are modelled.
\<close>

subsection \<open>The host\<close>

record 'w host =
  ho_transact :: "'w \<Rightarrow> store \<Rightarrow> int \<times> store \<times> 'w"
  ho_wall :: "'w \<Rightarrow> int \<times> 'w"
  ho_admit :: "string \<Rightarrow> string \<Rightarrow> 'w \<Rightarrow> (string \<times> string) option \<times> 'w"
  ho_finish :: "string \<Rightarrow> bool \<Rightarrow> 'w \<Rightarrow> 'w"
  ho_enter :: "'w \<Rightarrow> bool \<times> 'w"
  ho_leave :: "'w \<Rightarrow> bool \<times> 'w"
  ho_ticket :: "'w \<Rightarrow> string \<times> 'w"
  ho_uuid :: "'w \<Rightarrow> string \<times> 'w"
  ho_outside :: "'w outside"

record agent_setup =
  se_bounds :: agent_bounds
  se_say :: "call_refusal \<Rightarrow> string"
  se_say_receipt :: "receipt_error \<Rightarrow> string"
  se_table :: "json list"
  se_max_age :: int
  se_base :: int
  se_attempts :: nat
  se_sha :: "string \<Rightarrow> string"
  se_isoformat :: "int \<Rightarrow> string"
  se_fromiso :: "string \<Rightarrow> (int \<times> bool) option"
  se_question :: "decision \<Rightarrow> json"
  se_caller :: bool
  se_toolset :: bool
  se_admit :: bool

definition transact :: "'w host \<Rightarrow> (int \<Rightarrow> store \<Rightarrow> 'a outcome) \<Rightarrow> store \<Rightarrow> 'w \<Rightarrow> (store_error + 'a) \<times> store \<times> 'w" where
  "transact h op st w = (let (now, st, w) = ho_transact h w st in case op now st of
     Inl e \<Rightarrow> (Inl e, st, w)
   | Inr (x, st') \<Rightarrow> (Inr x, st', w))"

definition read_event :: "'w host \<Rightarrow> string \<Rightarrow> store \<Rightarrow> 'w \<Rightarrow> event_row option \<times> store \<times> 'w" where
  "read_event h i st w = (let (now, st, w) = ho_transact h w st in (get st i, st, w))"

subsection \<open>Receipts as shadow records\<close>

fun all_dicts :: "json list \<Rightarrow> dict list option" where
  "all_dicts [] = Some []"
| "all_dicts (JDict d # vs) = map_option ((#) d) (all_dicts vs)"
| "all_dicts (v # vs) = None"

text \<open>The candidates, decision and refusal of an inactive shadow, if they have the right shape.\<close>

definition shadow_fields :: "dict \<Rightarrow> (dict list \<times> dict option \<times> string option) option" where
  "shadow_fields s =
     (if dict_get s ''mode'' = JStr ''shadow'' \<and> dict_get s ''active'' = JBool False then
        (case dict_get s ''candidates'' of
           JList vs \<Rightarrow> do {
             candidates \<leftarrow> all_dicts vs;
             choice \<leftarrow> (case dict_get s ''decision'' of JNull \<Rightarrow> Some None | JDict d \<Rightarrow> Some (Some d) | _ \<Rightarrow> None);
             refusal \<leftarrow> (case dict_get s ''refusal'' of JNull \<Rightarrow> Some None | JStr r \<Rightarrow> Some (Some r) | _ \<Rightarrow> None);
             Some (candidates, choice, refusal)
           }
         | _ \<Rightarrow> None)
      else None)"

definition receipt_identity :: "receipt \<Rightarrow> (case_error + incident_identity) option" where
  "receipt_identity rc = (case rc_cause rc of
     Some c \<Rightarrow> if rc_trustworthy rc then
         (case (dict_get c ''rung'', dict_get c ''device'') of
            (JStr rung, JStr device) \<Rightarrow> Some (IncidentIdentity device rung (rc_subject rc))
          | _ \<Rightarrow> None)
       else None
   | None \<Rightarrow> None)"

text \<open>Whether the function returns; an error of the store is swallowed, one of SQLite is not.\<close>

definition record_incident :: "'w host \<Rightarrow> string \<Rightarrow> receipt \<Rightarrow> store \<Rightarrow> 'w \<Rightarrow> bool \<times> store \<times> 'w" where
  "record_incident h i rc st w = (case receipt_identity rc of
     Some (Inr ident) \<Rightarrow>
       (let (uuid, w) = ho_uuid h w; (r, st, w) = transact h (create_or_join_incident ident i uuid) st w
        in (r \<noteq> Inl IntegrityError, st, w))
   | _ \<Rightarrow> (True, st, w))"

definition record_receipt_shadows :: "'w host \<Rightarrow> string \<Rightarrow> receipt \<Rightarrow> store \<Rightarrow> 'w \<Rightarrow> bool \<times> store \<times> 'w" where
  "record_receipt_shadows h i rc st w = (case Option.bind (rc_narrowing_shadow rc) shadow_fields of
     Some (candidates, choice, refusal) \<Rightarrow>
       (case transact h (record_narrowing_shadow i ''shadow'' candidates choice refusal) st w of
          (Inl e, st, w) \<Rightarrow> (e \<noteq> IntegrityError, st, w)
        | (Inr _, st, w) \<Rightarrow> record_incident h i rc st w)
   | None \<Rightarrow> record_incident h i rc st w)"

subsection \<open>The age of an event\<close>

datatype age_refusal = UnusableTimestamp | StaleEvent

definition DEFAULT_MAX_EVENT_AGE :: int where
  "DEFAULT_MAX_EVENT_AGE = 300 * 1000000000"

text \<open>Times are nanoseconds.\<close>

definition event_age_refusal :: "int \<Rightarrow> int \<Rightarrow> decision \<Rightarrow> age_refusal option" where
  "event_age_refusal configured now d = (case rd_ingest d of
     None \<Rightarrow> None
   | Some t \<Rightarrow> (case py_int (JStr t) of
       None \<Rightarrow> Some UnusableTimestamp
     | Some ingest \<Rightarrow>
         (let max_age = (if configured < 0 then DEFAULT_MAX_EVENT_AGE else configured)
          in if now - ingest > max_age then Some StaleEvent else None)))"

subsection \<open>Opening the durable work\<close>

datatype work_opening = Opened | Already "string option" | Unavailable

definition lease_matches :: "string \<Rightarrow> event_row \<Rightarrow> event_row option \<Rightarrow> bool" where
  "lease_matches i lease current \<longleftrightarrow> er_id lease = i \<and> (case current of
     Some r \<Rightarrow> er_state r = RUNNING \<and> er_lease_owner r = er_lease_owner lease \<and> er_lease_epoch r = er_lease_epoch lease
   | None \<Rightarrow> False)"

text \<open>The transitions an unleased run makes; \<open>record\<close> is the row as \<open>create_or_get\<close> returned it.\<close>

definition mark_admitted :: "'w host \<Rightarrow> string \<Rightarrow> event_row \<Rightarrow> store \<Rightarrow> 'w \<Rightarrow> (store_error + event_row) \<times> store \<times> 'w" where
  "mark_admitted h i row st w =
     (if er_state row \<in> {RETRYABLE_FAILED, RECEIVED}
      then transact h (transition i ADMITTED None None None None) st w else (Inr row, st, w))"

definition mark_running :: "'w host \<Rightarrow> string \<Rightarrow> event_row \<Rightarrow> store \<Rightarrow> 'w \<Rightarrow> work_opening \<times> store \<times> 'w" where
  "mark_running h i row st w =
     (if er_state row = RUNNING then (Opened, st, w)
      else (case mark_admitted h i row st w of
          (Inl e, st, w) \<Rightarrow> (Unavailable, st, w)
        | (Inr _, st, w) \<Rightarrow> (case transact h (transition i RUNNING None None None None) st w of
            (Inl e, st, w) \<Rightarrow> (Unavailable, st, w)
          | (Inr _, st, w) \<Rightarrow> (Opened, st, w))))"

definition open_event ::
  "'w host \<Rightarrow> agent_setup \<Rightarrow> event_row option \<Rightarrow> decision \<Rightarrow> store \<Rightarrow> 'w \<Rightarrow> work_opening \<times> store \<times> 'w" where
  "open_event h se lease d st w =
     (let (stamp, w) = ho_wall h w;
          e = from_routing_decision (se_sha se) (se_isoformat se) d stamp
      in case transact h (create_or_get (en_id e) (case en_device e of Some (c # cs) \<Rightarrow> c # cs | _ \<Rightarrow> ''unknown'') (payload e) False) st w of
           (Inl _, st, w) \<Rightarrow> (Unavailable, st, w)
         | (Inr (row, is_new), st, w) \<Rightarrow> (case lease of
             Some l \<Rightarrow>
               (let (current, st, w) = read_event h (en_id e) st w
                in (if lease_matches (en_id e) l current then Opened else Unavailable, st, w))
           | None \<Rightarrow>
               if er_state row = RUNNING \<and> er_lease_owner row \<noteq> None then (Unavailable, st, w)
               else if \<not> is_new \<and> er_state row = COMPLETED then (Already (er_ticket_id row), st, w)
               else mark_running h (en_id e) row st w))"

subsection \<open>Closing it\<close>

definition lease_owner :: "event_row option \<Rightarrow> string option" where
  "lease_owner lease = Option.bind lease er_lease_owner"

definition held_epoch :: "event_row option \<Rightarrow> int option" where
  "held_epoch lease = map_option er_lease_epoch lease"

text \<open>\<open>store_terminal\<close>; an error of the store is swallowed.\<close>

definition store_terminal ::
  "'w host \<Rightarrow> agent_setup \<Rightarrow> string \<Rightarrow> event_row option \<Rightarrow> event_run \<Rightarrow> store \<Rightarrow> 'w \<Rightarrow> store \<times> 'w" where
  "store_terminal h se i lease run st w =
     (let (current, st, w) = read_event h i st w
      in case current of
           None \<Rightarrow> (st, w)
         | Some row \<Rightarrow>
             if ag_complete run then
               snd (transact h (transition i COMPLETED None (ag_ticket run) (lease_owner lease) (held_epoch lease)) st w)
             else if er_state row \<in> {ADMITTED, RUNNING} then
               snd (transact h (schedule_retry i (ag_stopped_because run) (ag_ticket run) (se_base se) (se_attempts se)
                 (lease_owner lease) (held_epoch lease)) st w)
             else (st, w))"

definition close_run ::
  "'w host \<Rightarrow> agent_setup \<Rightarrow> string \<Rightarrow> event_row option \<Rightarrow> event_run \<Rightarrow> store \<Rightarrow> 'w \<Rightarrow> event_run option \<times> store \<times> 'w" where
  "close_run h se i lease run st w =
     (let w = (if se_admit se then ho_finish h i (ag_complete run) w else w)
      in (Some run, store_terminal h se i lease run st w))"

subsection \<open>The run\<close>

text \<open>\<open>_dispatch\<close> with what it writes to the store; \<open>None\<close> is an exception.\<close>

definition agent_run ::
  "'w host \<Rightarrow> agent_setup \<Rightarrow> pinned_context \<Rightarrow> string \<Rightarrow> decision \<Rightarrow> int \<Rightarrow> store \<Rightarrow> 'w \<Rightarrow> event_run option \<times> store \<times> 'w" where
  "agent_run h se ctx mode d start st w =
     (let (ticket, w) = ho_ticket h w;
          (run, rc, w) = dispatch (ho_outside h) (se_bounds se) (se_say se) (se_say_receipt se) ctx mode ticket (se_question se d) start w;
          (returned, st, w) = (case rc of None \<Rightarrow> (True, st, w) | Some r \<Rightarrow> record_receipt_shadows h (event_id (se_sha se) d) r st w)
      in (if returned then run else None, st, w))"

text \<open>The live MCP server around the run: whatever raises inside it, or while it closes, ends as one failed start.\<close>

definition failed_start :: event_run where
  "failed_start = not_run ''live'' ''mcp_start_failed''"

definition live_run ::
  "'w host \<Rightarrow> agent_setup \<Rightarrow> event_row option \<Rightarrow> pinned_context \<Rightarrow> decision \<Rightarrow> int \<Rightarrow> store \<Rightarrow> 'w \<Rightarrow> event_run option \<times> store \<times> 'w" where
  "live_run h se lease ctx d start st w =
     (let i = event_id (se_sha se) d; (entered, w) = ho_enter h w
      in if \<not> entered then close_run h se i lease failed_start st w
         else (case agent_run h se ctx ''live'' d start st w of
             (None, st, w) \<Rightarrow> (let (_, w) = ho_leave h w in close_run h se i lease failed_start st w)
           | (Some run, st, w) \<Rightarrow>
               (let (run, st, w) = close_run h se i lease run st w; (left, w) = ho_leave h w
                in if left then (run, st, w) else close_run h se i lease failed_start st w)))"

definition fixtures_run ::
  "'w host \<Rightarrow> agent_setup \<Rightarrow> event_row option \<Rightarrow> pinned_context \<Rightarrow> decision \<Rightarrow> int \<Rightarrow> store \<Rightarrow> 'w \<Rightarrow> event_run option \<times> store \<times> 'w" where
  "fixtures_run h se lease ctx d start st w = (case agent_run h se ctx ''fixtures'' d start st w of
     (None, st, w) \<Rightarrow> (None, st, w)
   | (Some run, st, w) \<Rightarrow> close_run h se (event_id (se_sha se) d) lease run st w)"

text \<open>A refusal of admission: a shadow record and, if that was written, a retry, which is not signed with the lease.\<close>

definition admission_text :: "string \<times> string \<Rightarrow> string" where
  "admission_text why = fst why @ '': '' @ snd why"

definition retry_text :: "string \<times> string \<Rightarrow> string" where
  "retry_text why = ''legacy admission refused: '' @ fst why"

definition refuse_admission ::
  "'w host \<Rightarrow> agent_setup \<Rightarrow> string \<Rightarrow> string \<Rightarrow> string \<times> string \<Rightarrow> store \<Rightarrow> 'w \<Rightarrow> event_run option \<times> store \<times> 'w" where
  "refuse_admission h se i mode why st w =
     (let (shadow, st, w) = transact h (record_admission_shadow i False (Some (admission_text why))) st w;
          (st, w) = (case shadow of
             Inl _ \<Rightarrow> (st, w)
           | Inr _ \<Rightarrow> snd (transact h (schedule_retry i (retry_text why) None (se_base se) (se_attempts se) None None) st w))
      in (Some (not_run mode ''event_admission_refused''), st, w))"

definition admitted_run ::
  "'w host \<Rightarrow> agent_setup \<Rightarrow> event_row option \<Rightarrow> pinned_context \<Rightarrow> decision \<Rightarrow> int \<Rightarrow> store \<Rightarrow> 'w \<Rightarrow> event_run option \<times> store \<times> 'w" where
  "admitted_run h se lease ctx d start st w =
     (let i = event_id (se_sha se) d; go = (if se_toolset se then fixtures_run else live_run)
      in if \<not> se_admit se then go h se lease ctx d start st w
         else (case ho_admit h i (pc_device ctx) w of
             (Some why, w) \<Rightarrow> refuse_admission h se i (if se_toolset se then ''fixtures'' else ''live'') why st w
           | (None, w) \<Rightarrow> (let (_, st, w) = transact h (record_admission_shadow i True None) st w in go h se lease ctx d start st w)))"

definition run_event ::
  "'w host \<Rightarrow> agent_setup \<Rightarrow> event_row option \<Rightarrow> decision \<Rightarrow> store \<Rightarrow> 'w \<Rightarrow> event_run option \<times> store \<times> 'w" where
  "run_event h se lease d st w =
     (let (start, w) = ow_clock (ho_outside h) w
      in case open_event h se lease d st w of
           (Unavailable, st, w) \<Rightarrow> (Some (not_run ''plan'' ''event_store_failed''), st, w)
         | (Already ticket, st, w) \<Rightarrow>
             (Some ((not_run ''plan'' ''event_store_completed_duplicate'')\<lparr>ag_complete := True, ag_ticket := ticket\<rparr>), st, w)
         | (Opened, st, w) \<Rightarrow>
             (let (now, w) = (if lease = None then ho_wall h w else (0, w))
              in if lease = None \<and> event_age_refusal (se_max_age se) now d \<noteq> None
                 then (Some (not_run ''plan'' ''stale_event''), st, w)
                 else (case resolve_context (se_table se) d of
                     None \<Rightarrow> (None, st, w)
                   | Some (Inl _) \<Rightarrow> (Some (not_run ''plan'' ''not_run''), st, w)
                   | Some (Inr ctx) \<Rightarrow>
                       if \<not> se_caller se then (Some (not_run ''plan'' ''not_run''), st, w)
                       else admitted_run h se lease ctx d start st w)))"

subsection \<open>The worker and the sweep\<close>

text \<open>A runner: whether it returned, with the store and the world it leaves.\<close>

type_synonym 'w runner = "event_row \<Rightarrow> store \<Rightarrow> 'w \<Rightarrow> bool \<times> store \<times> 'w"

text \<open>The calls of the worker carry the instant at which its batch began, or were given one.\<close>

definition run_claimed ::
  "'w host \<Rightarrow> agent_setup \<Rightarrow> int option \<Rightarrow> 'w runner \<Rightarrow> event_row \<Rightarrow> store \<Rightarrow> 'w \<Rightarrow> bool \<times> store \<times> 'w" where
  "run_claimed h se fixed runner leased st w = (case runner leased st w of
     (True, st, w) \<Rightarrow> (True, st, w)
   | (False, st, w) \<Rightarrow>
       (case transact h (\<lambda>now. schedule_retry (er_id leased) ''event runner failed'' None (se_base se) (se_attempts se)
           (er_lease_owner leased) (Some (er_lease_epoch leased)) (case fixed of Some t \<Rightarrow> t | None \<Rightarrow> now)) st w of
          (Inl (EventLeaseError _), st, w) \<Rightarrow> (True, st, w)
        | (Inl _, st, w) \<Rightarrow> (False, st, w)
        | (Inr _, st, w) \<Rightarrow> (True, st, w)))"

fun run_batch ::
  "'w host \<Rightarrow> agent_setup \<Rightarrow> string \<Rightarrow> int \<Rightarrow> int option \<Rightarrow> int \<Rightarrow> 'w runner \<Rightarrow> event_row list \<Rightarrow> store \<Rightarrow> 'w \<Rightarrow>
   bool \<times> string list \<times> store \<times> 'w" where
  "run_batch h se owner lease_time fixed current runner [] st w = (True, [], st, w)"
| "run_batch h se owner lease_time fixed current runner (r # rs) st w =
     (case transact h (\<lambda>_. acquire_lease (er_id r) owner lease_time current) st w of
        (Inl _, st, w) \<Rightarrow> run_batch h se owner lease_time fixed current runner rs st w
      | (Inr leased, st, w) \<Rightarrow>
          (let (returned, st, w) = run_claimed h se fixed runner leased st w
           in if \<not> returned then (False, [er_id r], st, w)
              else let (returned, claimed, st, w) = run_batch h se owner lease_time fixed current runner rs st w
                in (returned, er_id r # claimed, st, w)))"

definition run_eligible ::
  "'w host \<Rightarrow> agent_setup \<Rightarrow> string \<Rightarrow> int \<Rightarrow> int option \<Rightarrow> 'w runner \<Rightarrow> store \<Rightarrow> 'w \<Rightarrow> bool \<times> string list \<times> store \<times> 'w" where
  "run_eligible h se owner lease_time fixed runner st w =
     (let (now, st, w) = ho_transact h w st; current = (case fixed of Some t \<Rightarrow> t | None \<Rightarrow> now)
      in run_batch h se owner lease_time fixed current runner (recoverable_events current st) st w)"

text \<open>\<open>RecoveryService._run_event\<close>.\<close>

definition recovery_runner :: "'w host \<Rightarrow> agent_setup \<Rightarrow> 'w runner" where
  "recovery_runner h se leased st w = (case stored_decision (se_sha se) (se_fromiso se) (er_payload leased) of
     Inl _ \<Rightarrow> (False, st, w)
   | Inr d \<Rightarrow> (let (run, st, w) = run_event h se (Some leased) d st w in (run \<noteq> None, st, w)))"

text \<open>\<open>sweep_once\<close>; the drain gives the number of outcomes or raises.  \<open>None\<close> is the exception of the sweep record.\<close>

definition sweep_once ::
  "'w host \<Rightarrow> agent_setup \<Rightarrow> string \<Rightarrow> int \<Rightarrow> int option \<Rightarrow> 'w runner \<Rightarrow> (store \<Rightarrow> 'w \<Rightarrow> nat option \<times> store \<times> 'w) \<Rightarrow>
   store \<Rightarrow> 'w \<Rightarrow> (string list \<times> nat) option \<times> store \<times> 'w" where
  "sweep_once h se owner lease_time fixed runner drain st w =
     (let (began, st, w) = ho_transact h w st; started = (case fixed of Some t \<Rightarrow> t | None \<Rightarrow> began);
          (returned, claimed, st, w) = run_eligible h se owner lease_time fixed runner st w;
          claimed = (if returned then claimed else []);
          (outcomes, st, w) = drain st w; n = (case outcomes of Some k \<Rightarrow> k | None \<Rightarrow> 0);
          (r, st, w) = transact h (\<lambda>now. record_recovery_sweep owner started (if fixed = None then now else started)
            (int (length claimed)) (int n)) st w
      in (case r of Inl _ \<Rightarrow> None | Inr _ \<Rightarrow> Some (claimed, n), st, w))"

subsection \<open>A worker is a client of the store\<close>

text \<open>Other processes commit only accepted calls; \<open>keeps Q f\<close>: whatever \<open>f\<close> does to the store is a sequence of them.\<close>

definition orderly :: "'w host \<Rightarrow> bool" where
  "orderly h \<longleftrightarrow> (\<forall>w st t st' w'. ho_transact h w st = (t, st', w') \<longrightarrow> runs st st')"

lemma runs_trans: "runs b c \<Longrightarrow> runs a b \<Longrightarrow> runs a c"
  by (induction rule: runs.induct) (auto intro: runs.intros)

lemma runs_step: "step op now st = Inr st' \<Longrightarrow> runs st st'"
  by (rule runs.more [OF runs.none])

lemma orderlyD: "orderly h \<Longrightarrow> ho_transact h w st = (t, st', w') \<Longrightarrow> runs st st'"
  unfolding orderly_def by blast

lemma transact_runs:
  assumes "orderly h" and "transact h op st w = (r, st', w')" and "\<And>now s x s'. op now s = Inr (x, s') \<Longrightarrow> runs s s'"
  shows "runs st st'"
proof -
  obtain now s1 w1 where t: "ho_transact h w st = (now, s1, w1)" by (metis prod_cases3)
  note orderlyD [OF assms(1) t]
  with assms(2,3) t show ?thesis
    by (auto simp: transact_def split: sum.splits prod.splits) (blast intro: runs_trans)
qed

lemma read_runs: "orderly h \<Longrightarrow> read_event h i st w = (r, st', w') \<Longrightarrow> runs st st'"
  by (auto simp: read_event_def split: prod.splits dest: orderlyD)

lemma call_runs:
  "create_or_get i dev p b now st = Inr (x1, st') \<Longrightarrow> runs st st'"
  "transition i s why tk ow ep now st = Inr (x2, st') \<Longrightarrow> runs st st'"
  "schedule_retry i r tk b1 m ow ep now st = Inr (x3, st') \<Longrightarrow> runs st st'"
  "acquire_lease i ow1 l now st = Inr (x4, st') \<Longrightarrow> runs st st'"
  "create_or_join_incident ident i u now st = Inr (x5, st') \<Longrightarrow> runs st st'"
  "record_narrowing_shadow i md cs d rf now st = Inr (x6, st') \<Longrightarrow> runs st st'"
  "record_admission_shadow i a why now st = Inr (x7, st') \<Longrightarrow> runs st st'"
  "record_recovery_sweep wk sd ce n1 n2 st = Inr (x8, st') \<Longrightarrow> runs st st'"
  subgoal by (rule runs_step [of "EventOp (Create i dev p b)" now]) (simp add: drop_result_def)
  subgoal by (rule runs_step [of "EventOp (Transit i s why tk ow ep)" now]) (simp add: drop_result_def)
  subgoal by (rule runs_step [of "EventOp (Retry i r tk b1 m ow ep)" now]) (simp add: drop_result_def)
  subgoal by (rule runs_step [of "EventOp (Acquire i ow1 l)" now]) (simp add: drop_result_def)
  subgoal by (rule runs_step [of "IncidentOp (Join ident i u)" now]) (simp add: drop_result_def)
  subgoal by (rule runs_step [of "Narrow i md cs d rf" now]) (simp add: drop_result_def)
  subgoal by (rule runs_step [of "Shadow i a why" now]) (simp add: drop_result_def)
  subgoal by (rule runs_step [of "Sweep wk sd ce n1 n2" now]) (simp add: drop_result_def)
  done

lemma called:
  assumes "orderly h"
  shows "transact h (create_or_get i dev p b) st w = (y1, st', w') \<Longrightarrow> runs st st'"
    and "transact h (transition i s why tk ow ep) st w = (y2, st', w') \<Longrightarrow> runs st st'"
    and "transact h (schedule_retry i r tk b1 m ow ep) st w = (y3, st', w') \<Longrightarrow> runs st st'"
    and "transact h (create_or_join_incident ident i u) st w = (y4, st', w') \<Longrightarrow> runs st st'"
    and "transact h (record_narrowing_shadow i md cs d rf) st w = (y5, st', w') \<Longrightarrow> runs st st'"
    and "transact h (record_admission_shadow i a why) st w = (y6, st', w') \<Longrightarrow> runs st st'"
  by (erule transact_runs [OF assms], erule call_runs)+

lemma record_incident_runs: "orderly h \<Longrightarrow> record_incident h i rc st w = (b, st', w') \<Longrightarrow> runs st st'"
  by (auto simp: record_incident_def Let_def runs.none split: prod.splits option.splits sum.splits intro: called(4))

lemma record_receipt_shadows_runs: "orderly h \<Longrightarrow> record_receipt_shadows h i rc st w = (b, st', w') \<Longrightarrow> runs st st'"
  by (auto simp: record_receipt_shadows_def split: prod.splits option.splits sum.splits
      intro: called(5) runs_trans [OF record_incident_runs called(5)] record_incident_runs)

lemma mark_running_runs: "orderly h \<Longrightarrow> mark_running h i row st w = (x, st', w') \<Longrightarrow> runs st st'"
  by (auto simp: mark_running_def mark_admitted_def runs.none split: prod.splits sum.splits if_splits
      intro: called(2) runs_trans [OF called(2) called(2)])

lemma open_event_runs: "orderly h \<Longrightarrow> open_event h se lease d st w = (x, st', w') \<Longrightarrow> runs st st'"
  by (auto simp: open_event_def Let_def split: prod.splits sum.splits option.splits if_splits
      intro: called(1) runs_trans [OF read_runs called(1)] runs_trans [OF mark_running_runs called(1)])

lemma store_terminal_runs:
  assumes h: "orderly h" and run: "store_terminal h se i lease run st w = (st', w')"
  shows "runs st st'"
proof -
  obtain current s1 w1 where r: "read_event h i st w = (current, s1, w1)" by (metis prod_cases3)
  note r1 = read_runs [OF h r]
  obtain x2 s2 w2 where t: "transact h (transition i COMPLETED None (ag_ticket run) (lease_owner lease) (held_epoch lease)) s1 w1 = (x2, s2, w2)"
    by (metis prod_cases3)
  obtain x3 s3 w3 where u: "transact h (schedule_retry i (ag_stopped_because run) (ag_ticket run) (se_base se) (se_attempts se)
      (lease_owner lease) (held_epoch lease)) s1 w1 = (x3, s3, w3)"
    by (metis prod_cases3)
  from run r1 runs_trans [OF called(2) [OF h t] r1] runs_trans [OF called(3) [OF h u] r1] show ?thesis
    by (auto simp: store_terminal_def r t u split: option.splits if_splits)
qed

lemma close_run_runs: "orderly h \<Longrightarrow> close_run h se i lease run st w = (x, st', w') \<Longrightarrow> runs st st'"
  by (auto simp: close_run_def dest: store_terminal_runs)

lemma agent_run_runs: "orderly h \<Longrightarrow> agent_run h se ctx mode d start st w = (x, st', w') \<Longrightarrow> runs st st'"
  by (auto simp: agent_run_def Let_def runs.none split: prod.splits option.splits dest: record_receipt_shadows_runs)

lemma fixtures_run_runs: "orderly h \<Longrightarrow> fixtures_run h se lease ctx d start st w = (x, st', w') \<Longrightarrow> runs st st'"
  by (auto simp: fixtures_run_def split: prod.splits option.splits dest: agent_run_runs intro: runs_trans [OF close_run_runs agent_run_runs])

lemma live_run_runs: "orderly h \<Longrightarrow> live_run h se lease ctx d start st w = (x, st', w') \<Longrightarrow> runs st st'"
  by (auto simp: live_run_def Let_def split: prod.splits option.splits if_splits
      intro: close_run_runs runs_trans [OF close_run_runs agent_run_runs] runs_trans [OF close_run_runs runs_trans [OF close_run_runs agent_run_runs]])

lemma refuse_admission_runs:
  assumes h: "orderly h" and run: "refuse_admission h se i mode why st w = (x, st', w')"
  shows "runs st st'"
proof -
  obtain q s1 w1 where a: "transact h (record_admission_shadow i False (Some (admission_text why))) st w = (q, s1, w1)"
    by (metis prod_cases3)
  obtain q2 s2 w2 where b: "transact h (schedule_retry i (retry_text why) None (se_base se) (se_attempts se) None None) s1 w1 = (q2, s2, w2)"
    by (metis prod_cases3)
  from run called(6) [OF h a] runs_trans [OF called(3) [OF h b] called(6) [OF h a]] show ?thesis
    by (auto simp: refuse_admission_def Let_def a b split: sum.splits)
qed

lemma admitted_run_runs: "orderly h \<Longrightarrow> admitted_run h se lease ctx d start st w = (x, st', w') \<Longrightarrow> runs st st'"
  by (auto simp: admitted_run_def Let_def split: prod.splits option.splits if_splits
      intro: fixtures_run_runs live_run_runs refuse_admission_runs runs_trans [OF fixtures_run_runs called(6)] runs_trans [OF live_run_runs called(6)])

lemma run_event_runs: "orderly h \<Longrightarrow> run_event h se lease d st w = (x, st', w') \<Longrightarrow> runs st st'"
  by (auto simp: run_event_def Let_def split: prod.splits work_opening.splits option.splits sum.splits if_splits
      intro: open_event_runs runs_trans [OF admitted_run_runs open_event_runs])

lemma recovery_runner_runs: "orderly h \<Longrightarrow> recovery_runner h se leased st w = (b, st', w') \<Longrightarrow> runs st st'"
  by (auto simp: recovery_runner_def runs.none split: sum.splits prod.splits dest: run_event_runs)

definition orderly_runner :: "'w runner \<Rightarrow> bool" where
  "orderly_runner runner \<longleftrightarrow> (\<forall>leased st w b st' w'. runner leased st w = (b, st', w') \<longrightarrow> runs st st')"

lemma recovery_runner_orderly: "orderly h \<Longrightarrow> orderly_runner (recovery_runner h se)"
  by (auto simp: orderly_runner_def dest: recovery_runner_runs)

lemma run_claimed_runs:
  assumes "orderly h" and "orderly_runner runner" and "run_claimed h se fixed runner leased st w = (b, st', w')"
  shows "runs st st'"
proof -
  obtain b1 s1 w1 where r: "runner leased st w = (b1, s1, w1)" by (metis prod_cases3)
  with assms(2) have r1: "runs st s1" unfolding orderly_runner_def by blast
  obtain x2 s2 w2 where u: "transact h (\<lambda>now. schedule_retry (er_id leased) ''event runner failed'' None (se_base se) (se_attempts se)
      (er_lease_owner leased) (Some (er_lease_epoch leased)) (case fixed of Some t \<Rightarrow> t | None \<Rightarrow> now)) s1 w1 = (x2, s2, w2)"
    by (metis prod_cases3)
  have "runs s1 s2" by (rule transact_runs [OF assms(1) u]) (rule call_runs(3))
  from assms(3) r1 runs_trans [OF this r1] show ?thesis
    by (auto simp: run_claimed_def r u split: bool.splits sum.splits store_error.splits)
qed

lemma run_batch_runs:
  "orderly h \<Longrightarrow> orderly_runner runner \<Longrightarrow> run_batch h se owner l fixed current runner rs st w = (b, cl, st', w') \<Longrightarrow> runs st st'"
proof (induction rs arbitrary: st w b cl st' w')
  case (Cons r rs)
  obtain x s1 w1 where a: "transact h (\<lambda>_. acquire_lease (er_id r) owner l current) st w = (x, s1, w1)" by (metis prod_cases3)
  have a1: "runs st s1" by (rule transact_runs [OF Cons.prems(1) a]) (rule call_runs(4))
  show ?case
  proof (cases x)
    case (Inl e)
    with Cons.prems(3) a have "run_batch h se owner l fixed current runner rs s1 w1 = (b, cl, st', w')" by simp
    from Cons.IH [OF Cons.prems(1,2) this] a1 show ?thesis by (rule runs_trans)
  next
    case (Inr leased)
    obtain b2 s2 w2 where c: "run_claimed h se fixed runner leased s1 w1 = (b2, s2, w2)" by (metis prod_cases3)
    note c1 = runs_trans [OF run_claimed_runs [OF Cons.prems(1,2) c] a1]
    obtain b3 cl3 s3 w3 where d: "run_batch h se owner l fixed current runner rs s2 w2 = (b3, cl3, s3, w3)" by (metis prod_cases4)
    from Cons.prems(3) a Inr c d c1 runs_trans [OF Cons.IH [OF Cons.prems(1,2) d] c1] show ?thesis by (auto split: if_splits)
  qed
qed (simp add: runs.none)

lemma run_eligible_runs:
  "orderly h \<Longrightarrow> orderly_runner runner \<Longrightarrow> run_eligible h se owner l fixed runner st w = (b, cl, st', w') \<Longrightarrow> runs st st'"
  by (auto simp: run_eligible_def Let_def split: prod.splits dest: orderlyD intro: runs_trans [OF run_batch_runs])

text \<open>A recovery sweep is a client of the store like any other.  While the other processes commit only accepted
  calls, whatever admission, the model, the tools and the notification drain answer, the database after
  a sweep is one that accepted calls lead to; so it stays consistent, whether the sweep returns or
  raises.\<close>

theorem sweeps_are_accepted_calls:
  assumes "orderly h" and "\<And>s v n s' v'. drain s v = (n, s', v') \<Longrightarrow> runs s s'"
    and "sweep_once h se owner lease_time fixed (recovery_runner h se) drain st w = (r, st', w')"
  shows "runs st st' \<and> (reachable st \<longrightarrow> store_ok st')"
proof -
  obtain now s1 w1 where a: "ho_transact h w st = (now, s1, w1)" by (metis prod_cases3)
  note a1 = orderlyD [OF assms(1) a]
  obtain b cl s2 w2 where e: "run_eligible h se owner lease_time fixed (recovery_runner h se) s1 w1 = (b, cl, s2, w2)" by (metis prod_cases4)
  note e1 = runs_trans [OF run_eligible_runs [OF assms(1) recovery_runner_orderly [OF assms(1)] e] a1]
  obtain n s3 w3 where d: "drain s2 w2 = (n, s3, w3)" by (metis prod_cases3)
  note d1 = runs_trans [OF assms(2) [OF d] e1]
  obtain x s4 w4 where q: "transact h (\<lambda>t. record_recovery_sweep owner (case fixed of Some t \<Rightarrow> t | None \<Rightarrow> now) (if fixed = None then t
      else (case fixed of Some t \<Rightarrow> t | None \<Rightarrow> now)) (int (length (if b then cl else []))) (int (case n of Some k \<Rightarrow> k | None \<Rightarrow> 0))) s3 w3 = (x, s4, w4)"
    by (metis prod_cases3)
  have "runs s3 s4" by (rule transact_runs [OF assms(1) q]) (rule call_runs(8))
  moreover have "s4 = st'" using assms(3) by (simp add: sweep_once_def Let_def a e d q)
  ultimately have "runs st st'" using runs_trans d1 by blast
  then show ?thesis using runs_ok reachable_ok by blast
qed

subsection \<open>What becomes of one event\<close>

text \<open>From here the process is alone with the file; \<open>P\<close> holds of every instant its transactions read.\<close>

definition alone :: "'w host \<Rightarrow> (int \<Rightarrow> bool) \<Rightarrow> bool" where
  "alone h P \<longleftrightarrow> (\<forall>w st t st' w'. ho_transact h w st = (t, st', w') \<longrightarrow> st' = st \<and> P t)"

lemma aloneD: "alone h P \<Longrightarrow> ho_transact h w st = (t, st', w') \<Longrightarrow> st' = st \<and> P t"
  unfolding alone_def by blast

definition same_events :: "store \<Rightarrow> store \<Rightarrow> bool" where
  "same_events st st' \<longleftrightarrow> st_events st' = st_events st \<and> st_attempts st' = st_attempts st"

lemma same_events_refl [simp]: "same_events st st" by (simp add: same_events_def)

lemma same_events_trans: "same_events b c \<Longrightarrow> same_events a b \<Longrightarrow> same_events a c"
  by (simp add: same_events_def)

lemma same_events_get: "same_events st st' \<Longrightarrow> get st' i = get st i"
  by (simp add: same_events_def get_def)

lemma transact_alone:
  assumes "alone h P" and "transact h op st w = (r, st', w')"
  obtains (refused) t e where "P t" "op t st = Inl e" "r = Inl e" "st' = st"
  | (accepted) t x where "P t" "op t st = Inr (x, st')" "r = Inr x"
proof -
  obtain t s1 w1 where h: "ho_transact h w st = (t, s1, w1)" by (metis prod_cases3)
  with assms(1) have s: "s1 = st" "P t" by (auto dest: aloneD)
  show thesis
  proof (cases "op t st")
    case (Inl e)
    with assms(2) h s show thesis by (auto simp: transact_def intro: refused)
  next
    case (Inr y)
    with assms(2) h s show thesis by (cases y) (auto simp: transact_def intro: accepted)
  qed
qed

lemma read_alone: "alone h P \<Longrightarrow> read_event h i st w = (r, st', w') \<Longrightarrow> r = get st i \<and> st' = st"
  by (auto simp: read_event_def split: prod.splits dest: aloneD)

lemma shadow_same: "record_admission_shadow i a why t st = Inr (x, st') \<Longrightarrow> same_events st st'"
  "record_narrowing_shadow i md cs d rf t st = Inr (y, st') \<Longrightarrow> same_events st st'"
  by (auto simp: record_admission_shadow_def record_narrowing_shadow_def Let_def same_events_def split: option.splits if_splits)

lemma incident_same: "create_or_join_incident ident i u t st = Inr (x, st') \<Longrightarrow> same_events st st'"
  using run_incident_frame [of "Join ident i u" t st st'] by (simp add: drop_result_def same_events_def only_incidents_def)

lemma transact_same:
  assumes "alone h P" and "transact h op st w = (r, st', w')" and "\<And>t x s'. op t st = Inr (x, s') \<Longrightarrow> same_events st s'"
  shows "same_events st st'"
  using assms(1,2) by (cases rule: transact_alone) (auto intro: assms(3))

lemma record_incident_same: "alone h P \<Longrightarrow> record_incident h i rc st w = (b, st', w') \<Longrightarrow> same_events st st'"
  by (auto simp: record_incident_def Let_def split: prod.splits option.splits sum.splits intro: transact_same [OF _ _ incident_same])

lemma record_receipt_shadows_same: "alone h P \<Longrightarrow> record_receipt_shadows h i rc st w = (b, st', w') \<Longrightarrow> same_events st st'"
  by (auto simp: record_receipt_shadows_def split: prod.splits option.splits sum.splits
      intro: record_incident_same transact_same [OF _ _ shadow_same(2)]
        same_events_trans [OF record_incident_same transact_same [OF _ _ shadow_same(2)]])

lemma agent_run_same: "alone h P \<Longrightarrow> agent_run h se ctx mode d start st w = (x, st', w') \<Longrightarrow> same_events st st'"
  by (auto simp: agent_run_def Let_def split: prod.splits option.splits dest: record_receipt_shadows_same)

text \<open>A run of the loop was made in the mode it was given, or its tools could not be listed.\<close>

lemma agent_run_mode: "agent_run h se ctx mode d start st w = (Some run, st', w') \<Longrightarrow> ag_mode run = mode \<and>
    (ag_ran run \<or> ag_stopped_because run \<in> {''list_tools_failed'', ''not_run''})"
  by (auto simp: agent_run_def Let_def dispatch_def not_run_def finished_run_def split: prod.splits option.splits list.splits if_splits)

text \<open>Calls the fence refuses.\<close>

lemma lease_fence_error: "lease_fence r ow ep t = Some e \<Longrightarrow> \<exists>x. e = EventLeaseError x"
  by (auto simp: lease_fence_def split: option.splits if_splits)

lemma transition_fenced: "get st i = Some r \<Longrightarrow> lease_fence r ow ep t \<noteq> None \<Longrightarrow> \<exists>e. transition i s why tk ow ep t st = Inl e"
  by (auto simp: transition_def)

lemma retry_fenced: "get st i = Some r \<Longrightarrow> lease_fence r ow ep t \<noteq> None \<Longrightarrow> \<exists>e. schedule_retry i why tk b m ow ep t st = Inl e"
  by (auto simp: schedule_retry_def)

lemma transact_refused:
  "alone h P \<Longrightarrow> transact h op st w = (r, st', w') \<Longrightarrow> (\<And>t. P t \<Longrightarrow> \<exists>e. op t st = Inl e) \<Longrightarrow> st' = st"
  by (erule (1) transact_alone) fastforce+

definition fenced :: "(int \<Rightarrow> bool) \<Rightarrow> event_row \<Rightarrow> string option \<Rightarrow> int option \<Rightarrow> bool" where
  "fenced P r ow ep \<longleftrightarrow> (\<forall>t. P t \<longrightarrow> lease_fence r ow ep t \<noteq> None)"

lemma refuse_admission_same:
  assumes al: "alone h P" and g: "get st i = Some r" and f: "fenced P r None None"
    and run: "refuse_admission h se i mode why st w = (x, st', w')"
  shows "same_events st st'"
proof -
  obtain q s1 w1 where a: "transact h (record_admission_shadow i False (Some (admission_text why))) st w = (q, s1, w1)"
    by (metis prod_cases3)
  note s1 = transact_same [OF al a shadow_same(1)]
  obtain q2 s2 w2 where b: "transact h (schedule_retry i (retry_text why) None (se_base se) (se_attempts se) None None) s1 w1 = (q2, s2, w2)"
    by (metis prod_cases3)
  have "s2 = s1"
    by (rule transact_refused [OF al b]) (use f same_events_get [OF s1] g in \<open>auto simp: fenced_def intro!: retry_fenced\<close>)
  with run a b s1 show ?thesis by (auto simp: refuse_admission_def Let_def split: sum.splits)
qed

lemma open_leased:
  assumes al: "alone h P" and "get st (event_id (se_sha se) d) = Some r" and "open_event h se (Some l) d st w = (x, st', w')"
  shows "st' = st \<and> x \<in> {Opened, Unavailable}"
proof -
  obtain stamp v where v: "ho_wall h w = (stamp, v)" by fastforce
  define e where "e = from_routing_decision (se_sha se) (se_isoformat se) d stamp"
  have id: "en_id e = event_id (se_sha se) d" by (simp add: e_def from_routing_decision_def)
  obtain q s1 w1 where t: "transact h (create_or_get (en_id e) (case en_device e of Some (c # cs) \<Rightarrow> c # cs | _ \<Rightarrow> ''unknown'') (payload e) False) st v = (q, s1, w1)"
    by (metis prod_cases3)
  have "s1 = st"
    using al t by (cases rule: transact_alone) (use assms(2) id in \<open>auto simp: create_or_get_def split: if_splits option.splits\<close>)
  moreover obtain current s2 w2 where r: "read_event h (en_id e) s1 w1 = (current, s2, w2)" by (metis prod_cases3)
  moreover note read_alone [OF al r]
  ultimately show ?thesis using assms(3) by (auto simp: open_event_def Let_def v t r e_def [symmetric] split: sum.splits prod.splits if_splits)
qed

lemma store_terminal_fenced:
  assumes al: "alone h P" and g: "get st i = Some r" and f: "fenced P r (lease_owner lease) (held_epoch lease)"
    and run: "store_terminal h se i lease run st w = (st', w')"
  shows "st' = st"
proof -
  obtain current s1 w1 where r: "read_event h i st w = (current, s1, w1)" by (metis prod_cases3)
  from read_alone [OF al r] g have c: "current = Some r" "s1 = st" by auto
  obtain x2 s2 w2 where t: "transact h (transition i COMPLETED None (ag_ticket run) (lease_owner lease) (held_epoch lease)) st w1 = (x2, s2, w2)"
    by (metis prod_cases3)
  have s2: "s2 = st" by (rule transact_refused [OF al t]) (use f g in \<open>auto simp: fenced_def intro!: transition_fenced\<close>)
  obtain x3 s3 w3 where u: "transact h (schedule_retry i (ag_stopped_because run) (ag_ticket run) (se_base se) (se_attempts se)
      (lease_owner lease) (held_epoch lease)) st w1 = (x3, s3, w3)"
    by (metis prod_cases3)
  have "s3 = st" by (rule transact_refused [OF al u]) (use f g in \<open>auto simp: fenced_def intro!: retry_fenced\<close>)
  with run s2 show ?thesis by (auto simp: store_terminal_def r c t u split: if_splits)
qed

lemma close_run_fenced:
  "alone h P \<Longrightarrow> get st i = Some r \<Longrightarrow> fenced P r (lease_owner lease) (held_epoch lease) \<Longrightarrow>
     close_run h se i lease run st w = (x, st', w') \<Longrightarrow> x = Some run \<and> st' = st"
  by (auto simp: close_run_def dest: store_terminal_fenced)

lemma agent_run_get: "alone h P \<Longrightarrow> agent_run h se ctx mode d start st w = (x, st', w') \<Longrightarrow> get st' i = get st i"
  by (rule same_events_get [OF agent_run_same])

lemma fixtures_run_fenced:
  assumes "alone h P" and "get st (event_id (se_sha se) d) = Some r" and "fenced P r (lease_owner lease) (held_epoch lease)"
    and "fixtures_run h se lease ctx d start st w = (x, st', w')"
  shows "same_events st st'"
proof -
  obtain y s1 w1 where a: "agent_run h se ctx ''fixtures'' d start st w = (y, s1, w1)" by (metis prod_cases3)
  note s1 = agent_run_same [OF assms(1) a]
  have "get s1 (event_id (se_sha se) d) = Some r" using agent_run_get [OF assms(1) a] assms(2) by simp
  note close = close_run_fenced [OF assms(1) this assms(3)]
  show ?thesis
  proof (cases y)
    case None
    with assms(4) a s1 show ?thesis by (simp add: fixtures_run_def)
  next
    case (Some run)
    with assms(4) a have "close_run h se (event_id (se_sha se) d) lease run s1 w1 = (x, st', w')" by (simp add: fixtures_run_def)
    from close [OF this] s1 show ?thesis by simp
  qed
qed

lemma live_run_fenced:
  assumes al: "alone h P" and g: "get st (event_id (se_sha se) d) = Some r" and f: "fenced P r (lease_owner lease) (held_epoch lease)"
    and run: "live_run h se lease ctx d start st w = (x, st', w')"
  shows "same_events st st'"
proof -
  let ?i = "event_id (se_sha se) d"
  obtain entered v where v: "ho_enter h w = (entered, v)" by fastforce
  obtain y s1 w1 where a: "agent_run h se ctx ''live'' d start st v = (y, s1, w1)" by (metis prod_cases3)
  note s1 = agent_run_same [OF al a]
  have g1: "get s1 ?i = Some r" using agent_run_get [OF al a] g by simp
  obtain left w2 where l: "ho_leave h w1 = (left, w2)" by fastforce
  show ?thesis
  proof (cases entered)
    case False
    with run v have "close_run h se ?i lease failed_start st v = (x, st', w')" by (simp add: live_run_def)
    from close_run_fenced [OF al g f this] show ?thesis by simp
  next
    case True
    show ?thesis
    proof (cases y)
      case None
      with run v True a l have "close_run h se ?i lease failed_start s1 w2 = (x, st', w')" by (simp add: live_run_def)
      from close_run_fenced [OF al g1 f this] s1 show ?thesis by simp
    next
      case (Some fin)
      obtain y2 s2 w3 where c: "close_run h se ?i lease fin s1 w1 = (y2, s2, w3)" by (metis prod_cases3)
      from close_run_fenced [OF al g1 f this] have s2: "s2 = s1" by simp
      obtain left2 w4 where l2: "ho_leave h w3 = (left2, w4)" by fastforce
      show ?thesis
      proof (cases left2)
        case True
        with run v \<open>entered\<close> a Some c l2 s2 s1 show ?thesis by (simp add: live_run_def)
      next
        case False
        with run v \<open>entered\<close> a Some c l2 s2 have "close_run h se ?i lease failed_start s1 w4 = (x, st', w')" by (simp add: live_run_def)
        from close_run_fenced [OF al g1 f this] s1 show ?thesis by simp
      qed
    qed
  qed
qed

lemma admitted_run_fenced:
  assumes al: "alone h P" and g: "get st (event_id (se_sha se) d) = Some r" and f: "fenced P r (lease_owner lease) (held_epoch lease)"
    and none: "fenced P r None None" and run: "admitted_run h se lease ctx d start st w = (x, st', w')"
  shows "same_events st st'"
proof -
  let ?i = "event_id (se_sha se) d"
  define go where "go = (if se_toolset se then fixtures_run else live_run :: 'a host \<Rightarrow> _)"
  have go: "same_events s s'" if "get s ?i = Some r" "go h se lease ctx d start s v = (y, s', v')" for s v y s' v'
    using that fixtures_run_fenced [OF al that(1) f] live_run_fenced [OF al that(1) f] by (auto simp: go_def split: if_splits)
  obtain why w1 where a: "ho_admit h ?i (pc_device ctx) w = (why, w1)" by fastforce
  obtain q s2 w2 where b: "transact h (record_admission_shadow ?i True None) st w1 = (q, s2, w2)" by (metis prod_cases3)
  note s2 = transact_same [OF al b shadow_same(1)]
  have g2: "get s2 ?i = Some r" using same_events_get [OF s2] g by simp
  show ?thesis
  proof (cases "se_admit se")
    case False
    with run have "go h se lease ctx d start st w = (x, st', w')" by (simp add: admitted_run_def go_def Let_def)
    from go [OF g this] show ?thesis .
  next
    case True
    show ?thesis
    proof (cases why)
      case None
      with run True a b have "go h se lease ctx d start s2 w2 = (x, st', w')" by (simp add: admitted_run_def go_def Let_def)
      from same_events_trans [OF go [OF g2 this] s2] show ?thesis .
    next
      case (Some e)
      with run True a have "refuse_admission h se ?i (if se_toolset se then ''fixtures'' else ''live'') e st w1 = (x, st', w')"
        by (simp add: admitted_run_def Let_def)
      from refuse_admission_same [OF al g none this] show ?thesis .
    qed
  qed
qed

lemma run_event_fenced:
  assumes al: "alone h P" and g: "get st (event_id (se_sha se) d) = Some r"
    and f: "fenced P r (er_lease_owner l) (Some (er_lease_epoch l))" "fenced P r None None"
    and run: "run_event h se (Some l) d st w = (x, st', w')"
  shows "same_events st st'"
proof -
  obtain start v where c: "ow_clock (ho_outside h) w = (start, v)" by fastforce
  obtain o1 s1 w1 where op: "open_event h se (Some l) d st v = (o1, s1, w1)" by (metis prod_cases3)
  from open_leased [OF al g op] have s1: "s1 = st" "o1 \<in> {Opened, Unavailable}" by auto
  have f1: "fenced P r (lease_owner (Some l)) (held_epoch (Some l))" using f(1) by (simp add: lease_owner_def held_epoch_def)
  show ?thesis
    using run c op s1 admitted_run_fenced [OF al g f1 f(2)]
    by (auto simp: run_event_def split: option.splits sum.splits if_splits)
qed

subsection \<open>Leases of a long batch\<close>

lemma expired_fenced: "er_lease_owner r = Some x \<Longrightarrow> er_lease_expires_at r = Some e \<Longrightarrow> fenced (\<lambda>t. e \<le> t) r ow ep"
  by (simp add: fenced_def lease_fence_def)

lemma acquire_leaseE:
  assumes "acquire_lease i ow l t st = Inr (r, st')"
  shows "get st' i = Some r" and "er_id r = i" and "er_state r = RUNNING" and "er_lease_owner r = Some ow"
    and "er_lease_expires_at r = Some (t + l)" and "er_retry_at r = None"
proof -
  obtain row where row: "get st i = Some row" and r: "r = row\<lparr>er_state := RUNNING, er_updated_at := t, er_lease_owner := Some ow,
      er_lease_expires_at := Some (t + l), er_lease_epoch := er_lease_epoch row + 1, er_retry_at := None\<rparr>"
    and st': "st' = log_attempt i RUNNING t (Some (''lease acquired by '' @ ow)) (put_event r st)"
    using assms by (auto simp: acquire_lease_def Let_def split: if_splits option.splits)
  show "er_id r = i" using get_Some_id [OF row] r by simp
  with get_put_log [OF row] st' show "get st' i = Some r" by simp
  show "er_state r = RUNNING" "er_lease_owner r = Some ow" "er_lease_expires_at r = Some (t + l)" "er_retry_at r = None" by (simp_all add: r)
qed

lemma get_member: "get st i = Some r \<Longrightarrow> r \<in> set (st_events st)"
  by (auto simp: get_def dest: row_by_SomeD)

text \<open>C18: The leases of a batch are dated at its beginning.  When earlier runs of the batch have lasted as long as a
  lease, an event claimed then is leased in the past: its run is made, but neither its completion nor
  its failure is recorded, and when the worker returns the event is still up for recovery.\<close>

theorem late_claims_are_lost:
  assumes "acquire_lease i owner lease_time current st = Inr (leased, st1)"
    and "alone h (\<lambda>t. current + lease_time \<le> t)"
    and "\<And>d. stored_decision (se_sha se) (se_fromiso se) (er_payload leased) = Inr d \<Longrightarrow> event_id (se_sha se) d = i"
    and "0 < se_base se" and "1 \<le> se_attempts se"
  shows "\<exists>st' w'. run_claimed h se None (recovery_runner h se) leased st1 w = (True, st', w') \<and> same_events st1 st' \<and>
    (current + lease_time \<le> t \<longrightarrow> leased \<in> set (recoverable_events t st'))"
proof -
  note acq = acquire_leaseE [OF assms(1)]
  have f: "fenced (\<lambda>t. current + lease_time \<le> t) leased ow ep" for ow ep by (rule expired_fenced [OF acq(4,5)])
  obtain b s2 w2 where run: "recovery_runner h se leased st1 w = (b, s2, w2)" by (metis prod_cases3)
  have s2: "same_events st1 s2"
  proof (cases "stored_decision (se_sha se) (se_fromiso se) (er_payload leased)")
    case (Inl e)
    with run show ?thesis by (simp add: recovery_runner_def)
  next
    case (Inr d)
    obtain x s3 w3 where r: "run_event h se (Some leased) d st1 w = (x, s3, w3)" by (metis prod_cases3)
    have "get st1 (event_id (se_sha se) d) = Some leased" using acq(1) assms(3) [OF Inr] by simp
    from run_event_fenced [OF assms(2) this f f r] run Inr r show ?thesis by (simp add: recovery_runner_def)
  qed
  note g2 = same_events_get [OF s2, of i, unfolded acq(1)]
  obtain q s4 w4 where u: "transact h (\<lambda>now. schedule_retry (er_id leased) ''event runner failed'' None (se_base se) (se_attempts se)
      (er_lease_owner leased) (Some (er_lease_epoch leased)) now) s2 w2 = (q, s4, w4)"
    by (metis prod_cases3)
  from assms(2) u have q: "s4 = s2 \<and> (\<exists>e. q = Inl (EventLeaseError e))"
    by (cases rule: transact_alone)
      (use g2 acq assms(4,5) in \<open>auto simp: schedule_retry_def lease_fence_def\<close>)
  have "leased \<in> set (recoverable_events t s2)" if "current + lease_time \<le> t"
    using that get_member [OF g2] acq by (simp add: recoverable_events_def lease_lapsed_def)
  with run u q s2 show ?thesis by (cases b) (auto simp: run_claimed_def)
qed

subsection \<open>Refused before the loop\<close>

lemma get_insert: "get st i = None \<Longrightarrow> insert_event i dev p t st = (r, st') \<Longrightarrow> get st' i = Some r \<and> er_state r = RECEIVED \<and>
    er_lease_owner r = None \<and> er_lease_expires_at r = None"
  using insert_event_props [of i dev p t st r st'] by (auto simp: get_def born_def row_by_append)

lemma transition_accepted:
  assumes "get st i = Some r" and "er_lease_owner r = None" and "s \<in> ALLOWED_TRANSITIONS (er_state r)"
  shows "\<exists>r' st'. transition i s why tk ow ep t st = Inr (r', st') \<and> get st' i = Some r' \<and> er_state r' = s \<and> er_lease_owner r' = None \<and>
    er_lease_expires_at r' = None \<and> er_retry_at r' = None"
  using assms get_put_log [OF assms(1)] get_Some_id [OF assms(1)]
  by (simp add: transition_def lease_fence_def Let_def)

lemma transact_transition:
  assumes "alone h P" and "transact h (transition i s why tk ow ep) st w = (x, st', w')" and "get st i = Some r" and "er_lease_owner r = None"
    and "s \<in> ALLOWED_TRANSITIONS (er_state r)"
  obtains r' where "x = Inr r'" "get st' i = Some r'" "er_state r' = s" "er_lease_owner r' = None" "er_lease_expires_at r' = None" "er_retry_at r' = None"
  using assms(1,2)
proof (cases rule: transact_alone)
  case (refused t e)
  with transition_accepted [OF assms(3-5), of why tk ow ep t] that show thesis by auto
next
  case (accepted t y)
  with transition_accepted [OF assms(3-5), of why tk ow ep t] that show thesis by auto
qed

text \<open>An event that is running, with nobody who holds it and no date on which anybody would look at it.\<close>

definition stranded :: "string \<Rightarrow> store \<Rightarrow> bool" where
  "stranded i st \<longleftrightarrow> (case get st i of
     Some r \<Rightarrow> er_state r = RUNNING \<and> er_lease_owner r = None \<and> er_lease_expires_at r = None \<and> er_retry_at r = None
   | None \<Rightarrow> False)"

lemma open_new:
  assumes al: "alone h P" and new: "get st (event_id (se_sha se) d) = None" and run: "open_event h se None d st w = (x, st', w')"
  shows "x = Opened \<and> stranded (event_id (se_sha se) d) st'"
proof -
  let ?i = "event_id (se_sha se) d"
  obtain stamp v where v: "ho_wall h w = (stamp, v)" by fastforce
  define e where "e = from_routing_decision (se_sha se) (se_isoformat se) d stamp"
  have id: "en_id e = ?i" by (simp add: e_def from_routing_decision_def)
  obtain q s1 w1 where t: "transact h (create_or_get (en_id e) (case en_device e of Some (c # cs) \<Rightarrow> c # cs | _ \<Rightarrow> ''unknown'') (payload e) False) st v = (q, s1, w1)"
    by (metis prod_cases3)
  from al t obtain row where row: "q = Inr (row, True)" "get s1 ?i = Some row" "er_state row = RECEIVED" "er_lease_owner row = None"
    by (cases rule: transact_alone) (use new id in \<open>auto simp: create_or_get_def split: prod.splits dest!: get_insert\<close>)
  obtain y2 s2 w2 where a: "transact h (transition ?i ADMITTED None None None None) s1 w1 = (y2, s2, w2)" by (metis prod_cases3)
  from transact_transition [OF al a row(2,4)] row(3) obtain r2 where r2: "y2 = Inr r2" "get s2 ?i = Some r2" "er_state r2 = ADMITTED"
    "er_lease_owner r2 = None" by (auto simp: ALLOWED_TRANSITIONS_def)
  obtain y3 s3 w3 where b: "transact h (transition ?i RUNNING None None None None) s2 w2 = (y3, s3, w3)" by (metis prod_cases3)
  from transact_transition [OF al b r2(2,4)] r2(3) obtain r3 where r3: "y3 = Inr r3" "get s3 ?i = Some r3" "er_state r3 = RUNNING"
    "er_lease_owner r3 = None" "er_lease_expires_at r3 = None" "er_retry_at r3 = None" by (auto simp: ALLOWED_TRANSITIONS_def)
  have "(x, st', w') = (Opened, s3, w3)"
    using run row a [folded id] r2(1) b [folded id] r3(1)
    by (simp add: open_event_def Let_def v e_def [symmetric] t mark_running_def mark_admitted_def)
  with r3 show ?thesis by (simp add: stranded_def)
qed

lemma stranded_not_listed: "stranded i st \<Longrightarrow> get st i = Some r \<Longrightarrow> r \<notin> set (recoverable_events t st)"
  by (simp add: stranded_def recoverable_events_def retry_due_def lease_lapsed_def)

lemma close_run_result: "close_run h se i lease run st w = (x, st', w') \<Longrightarrow> x = Some run"
  by (simp add: close_run_def)

lemma admitted_run_mode:
  "admitted_run h se lease ctx d start st w = (Some run, st', w') \<Longrightarrow> ag_mode run \<noteq> ''plan''"
  by (auto simp: admitted_run_def fixtures_run_def live_run_def refuse_admission_def Let_def failed_start_def not_run_def
      split: prod.splits option.splits if_splits sum.splits dest!: agent_run_mode close_run_result)

text \<open>C19: An event that \<open>run_event\<close> refuses before the loop, because it is stale, has no reviewed trigger or no model
  is configured, has been marked as running already and stays so: nobody holds it, it has no retry
  date and no attempt to count, and recovery never lists it.  Here the event was new and the caller
  held no lease.\<close>

theorem refused_events_are_stranded:
  assumes "alone h P" and "get st (event_id (se_sha se) d) = None"
    and "run_event h se None d st w = (Some run, st', w')" and "ag_mode run = ''plan''"
  shows "\<exists>r. get st' (event_id (se_sha se) d) = Some r \<and> er_state r = RUNNING \<and> ag_stopped_because run \<in> {''stale_event'', ''not_run''} \<and>
    (\<forall>t. r \<notin> set (recoverable_events t st'))"
proof -
  let ?i = "event_id (se_sha se) d"
  obtain start v where c: "ow_clock (ho_outside h) w = (start, v)" by fastforce
  obtain o1 s1 w1 where op: "open_event h se None d st v = (o1, s1, w1)" by (metis prod_cases3)
  from open_new [OF assms(1,2) op] have s1: "o1 = Opened" "stranded ?i s1" by auto
  have mode: "ag_mode run \<noteq> ''plan''" if "admitted_run h se None ctx d start s1 w2 = (Some run, st', w')" for ctx w2
    by (rule admitted_run_mode [OF that])
  from assms(3,4) c op s1 have "st' = s1 \<and> ag_stopped_because run \<in> {''stale_event'', ''not_run''}"
    by (auto simp: run_event_def Let_def not_run_def split: prod.splits option.splits sum.splits if_splits dest!: mode)
  with s1(2) stranded_not_listed show ?thesis by (fastforce simp: stranded_def split: option.splits)
qed

subsection \<open>Runs under a lease\<close>

text \<open>\<open>held i r ow expiry st\<close>: the store holds the row of \<open>i\<close> as it was leased.\<close>

definition held :: "string \<Rightarrow> event_row \<Rightarrow> int \<Rightarrow> store \<Rightarrow> bool" where
  "held i r expiry st \<longleftrightarrow> get st i = Some r \<and> er_state r = RUNNING \<and> er_lease_owner r \<noteq> None \<and> er_lease_expires_at r = Some expiry"

text \<open>The row a run leaves, after so many failed attempts before it and at a time before the lease's end.\<close>

definition settled :: "agent_setup \<Rightarrow> nat \<Rightarrow> int \<Rightarrow> event_run \<Rightarrow> event_row \<Rightarrow> bool" where
  "settled se failures expiry run r \<longleftrightarrow> er_lease_owner r = None \<and>
     (if ag_complete run then er_state r = COMPLETED
      else er_terminal_reason r = Some (ag_stopped_because run) \<and>
        (if se_attempts se \<le> failures + 1 then er_state r = DEAD_LETTER \<and> er_retry_at r = None
         else er_state r = RETRYABLE_FAILED \<and> (\<exists>t < expiry. er_retry_at r = Some (t + se_base se * 2 ^ failures))))"

lemma held_signed: "held i r expiry st \<Longrightarrow> t < expiry \<Longrightarrow> lease_fence r (lease_owner (Some r)) (held_epoch (Some r)) t = None"
  by (auto simp: held_def lease_fence_def lease_owner_def held_epoch_def)

lemma held_unsigned: "held i r expiry st \<Longrightarrow> fenced (\<lambda>t. t < expiry) r None None"
  by (auto simp: held_def fenced_def lease_fence_def)

lemma held_same: "held i r expiry st \<Longrightarrow> same_events st st' \<Longrightarrow> held i r expiry st'"
  by (simp add: held_def same_events_get)

lemma complete_signed:
  assumes "held i r expiry st" and "t < expiry"
  shows "\<exists>r' st'. transition i COMPLETED None tk (lease_owner (Some r)) (held_epoch (Some r)) t st = Inr (r', st') \<and>
    get st' i = Some r' \<and> er_lease_owner r' = None \<and> er_state r' = COMPLETED"
proof -
  have g: "get st i = Some r" "er_state r = RUNNING" using assms(1) by (simp_all add: held_def)
  show ?thesis
    using held_signed [OF assms] g get_put_log [OF g(1)] get_Some_id [OF g(1)]
    by (simp add: transition_def ALLOWED_TRANSITIONS_def Let_def)
qed

lemma retry_signed:
  assumes "held i r expiry st" and "t < expiry" and "0 < se_base se" and "1 \<le> se_attempts se" and "\<not> ag_complete run"
  shows "\<exists>x st' r'. schedule_retry i (ag_stopped_because run) tk (se_base se) (se_attempts se) (lease_owner (Some r)) (held_epoch (Some r)) t st = Inr (x, st') \<and>
    get st' i = Some r' \<and> settled se (failed_attempts st i) expiry run r'"
proof -
  have g: "get st i = Some r" "er_state r = RUNNING" using assms(1) by (simp_all add: held_def)
  show ?thesis
    using held_signed [OF assms(1,2)] g get_put_log [OF g(1)] get_Some_id [OF g(1)] assms(2-5)
    by (auto simp add: schedule_retry_def Let_def settled_def)
qed

lemma close_run_signed:
  assumes al: "alone h (\<lambda>t. t < expiry)" and hd: "held i r expiry st" and se: "0 < se_base se" "1 \<le> se_attempts se"
    and run: "close_run h se i (Some r) run st w = (x, st', w')"
  shows "\<exists>r'. get st' i = Some r' \<and> settled se (failed_attempts st i) expiry run r'"
proof -
  obtain v where tm: "store_terminal h se i (Some r) run st v = (st', w')" using run by (auto simp: close_run_def Let_def)
  obtain current s1 w1 where r: "read_event h i st v = (current, s1, w1)" by (metis prod_cases3)
  from read_alone [OF al r] hd have c: "current = Some r" "s1 = st" by (auto simp: held_def)
  obtain x2 s2 w2 where t: "transact h (transition i COMPLETED None (ag_ticket run) (lease_owner (Some r)) (held_epoch (Some r))) st w1 = (x2, s2, w2)"
    by (metis prod_cases3)
  have s2: "\<exists>r'. get s2 i = Some r' \<and> er_lease_owner r' = None \<and> er_state r' = COMPLETED"
    using al t
  proof (cases rule: transact_alone)
    case (refused now e)
    with complete_signed [OF hd refused(1), of "ag_ticket run"] show ?thesis by auto
  next
    case (accepted now x)
    with complete_signed [OF hd accepted(1), of "ag_ticket run"] show ?thesis by auto
  qed
  obtain x3 s3 w3 where u: "transact h (schedule_retry i (ag_stopped_because run) (ag_ticket run) (se_base se) (se_attempts se)
      (lease_owner (Some r)) (held_epoch (Some r))) st w1 = (x3, s3, w3)"
    by (metis prod_cases3)
  have s3: "\<exists>r'. get s3 i = Some r' \<and> settled se (failed_attempts st i) expiry run r'" if "\<not> ag_complete run"
    using al u
  proof (cases rule: transact_alone)
    case (refused now e)
    with retry_signed [OF hd refused(1) se that, of "ag_ticket run"] show ?thesis by auto
  next
    case (accepted now x)
    with retry_signed [OF hd accepted(1) se that, of "ag_ticket run"] show ?thesis by auto
  qed
  show ?thesis
  proof (cases "ag_complete run")
    case True
    with tm s2 show ?thesis by (auto simp: store_terminal_def r c t settled_def)
  next
    case False
    with tm s3 hd show ?thesis by (auto simp: store_terminal_def r c u held_def)
  qed
qed

text \<open>A second close, of a failed start, leaves a settled event as it is.\<close>

lemma close_run_settled:
  assumes al: "alone h P" and g: "get st i = Some r" "er_state r \<notin> {ADMITTED, RUNNING}"
    and run: "close_run h se i lease failed_start st w = (x, st', w')"
  shows "st' = st"
proof -
  obtain v where tm: "store_terminal h se i lease failed_start st v = (st', w')" using run by (auto simp: close_run_def Let_def)
  obtain current s1 w1 where r: "read_event h i st v = (current, s1, w1)" by (metis prod_cases3)
  from read_alone [OF al r] tm g show ?thesis by (auto simp: store_terminal_def r failed_start_def not_run_def)
qed

text \<open>The live server failed to close after its run had already been closed: the run is reported as a failed
  start, the row is what the run itself left, and the second close changes nothing.\<close>

definition closed_before :: "'w host \<Rightarrow> agent_setup \<Rightarrow> nat \<Rightarrow> int \<Rightarrow> event_row \<Rightarrow> decision \<Rightarrow> store \<Rightarrow> store \<Rightarrow> 'w \<Rightarrow> event_row \<Rightarrow> bool" where
  "closed_before h se failures expiry r d st st' w' r' \<longleftrightarrow> \<not> se_toolset se \<and>
     (\<exists>ctx start s v fin s1 w1 w2 w3. same_events st s \<and> agent_run h se ctx ''live'' d start s v = (Some fin, s1, w1) \<and>
        close_run h se (event_id (se_sha se) d) (Some r) fin s1 w1 = (Some fin, st', w2) \<and> ho_leave h w2 = (False, w3) \<and>
        close_run h se (event_id (se_sha se) d) (Some r) failed_start st' w3 = (Some failed_start, st', w') \<and>
        settled se failures expiry fin r')"

definition outcome_of :: "'w host \<Rightarrow> agent_setup \<Rightarrow> int \<Rightarrow> event_row \<Rightarrow> decision \<Rightarrow> store \<Rightarrow> event_run \<Rightarrow> store \<Rightarrow> 'w \<Rightarrow> event_row \<Rightarrow> bool" where
  "outcome_of h se expiry r d st run st' w' r' \<longleftrightarrow>
     (let failures = failed_attempts st (event_id (se_sha se) d)
      in settled se failures expiry run r' \<or> run = failed_start \<and> closed_before h se failures expiry r d st st' w' r')"

lemma same_events_failures: "same_events st s \<Longrightarrow> failed_attempts s i = failed_attempts st i"
  by (simp add: same_events_def failed_attempts_def event_attempts_def)

lemma closed_before_same:
  "same_events st s \<Longrightarrow> closed_before h se n expiry r d s st' w' r' \<Longrightarrow> closed_before h se n expiry r d st st' w' r'"
  unfolding closed_before_def by (blast intro: same_events_trans)

lemma outcome_same:
  "same_events st s \<Longrightarrow> outcome_of h se expiry r d s run st' w' r' \<Longrightarrow> outcome_of h se expiry r d st run st' w' r'"
  using closed_before_same by (fastforce simp: outcome_of_def Let_def same_events_failures)

definition parked :: "event_run \<Rightarrow> bool" where
  "parked run \<longleftrightarrow> \<not> ag_ran run \<and> (ag_mode run = ''plan'' \<or> ag_stopped_because run = ''event_admission_refused'')"

lemma settled_state: "settled se n expiry run r \<Longrightarrow> er_state r \<notin> {ADMITTED, RUNNING}"
  by (auto simp: settled_def split: if_splits)

lemma agent_run_unparked:
  "agent_run h se ctx mode d start st w = (Some run, st', w') \<Longrightarrow> mode \<noteq> ''plan'' \<Longrightarrow> \<not> parked run"
  by (auto simp: parked_def dest!: agent_run_mode)

lemma fixtures_run_outcome:
  assumes al: "alone h (\<lambda>t. t < expiry)" and hd: "held (event_id (se_sha se) d) r expiry st" and se: "0 < se_base se" "1 \<le> se_attempts se"
    and mode: "se_toolset se" and run: "fixtures_run h se (Some r) ctx d start st w = (Some run, st', w')"
  shows "\<not> parked run \<and> (\<exists>r'. get st' (event_id (se_sha se) d) = Some r' \<and> outcome_of h se expiry r d st run st' w' r')"
proof -
  obtain y s1 w1 where a: "agent_run h se ctx ''fixtures'' d start st w = (y, s1, w1)" by (metis prod_cases3)
  note hd1 = held_same [OF hd agent_run_same [OF al a]]
  from run a obtain run' where y: "y = Some run'" "close_run h se (event_id (se_sha se) d) (Some r) run' s1 w1 = (Some run, st', w')"
    by (auto simp: fixtures_run_def split: option.splits)
  from close_run_result [OF y(2)] have "run' = run" by simp
  with close_run_signed [OF al hd1 se y(2)] agent_run_unparked [OF a [unfolded y(1)]]
    same_events_failures [OF agent_run_same [OF al a]] show ?thesis
    by (auto simp: outcome_of_def Let_def)
qed

lemma live_run_outcome:
  assumes al: "alone h (\<lambda>t. t < expiry)" and hd: "held (event_id (se_sha se) d) r expiry st" and se: "0 < se_base se" "1 \<le> se_attempts se"
    and mode: "\<not> se_toolset se" and run: "live_run h se (Some r) ctx d start st w = (Some run, st', w')"
  shows "\<not> parked run \<and> (\<exists>r'. get st' (event_id (se_sha se) d) = Some r' \<and> outcome_of h se expiry r d st run st' w' r')"
proof -
  let ?i = "event_id (se_sha se) d"
  have fs: "\<not> parked failed_start" "\<not> ag_complete failed_start" by (simp_all add: parked_def failed_start_def not_run_def)
  obtain entered v where v: "ho_enter h w = (entered, v)" by fastforce
  obtain y s1 w1 where a: "agent_run h se ctx ''live'' d start st v = (y, s1, w1)" by (metis prod_cases3)
  note hd1 = held_same [OF hd agent_run_same [OF al a]]
  obtain left w2 where l: "ho_leave h w1 = (left, w2)" by fastforce
  have failed: "run = failed_start \<and> (\<exists>r'. get st' ?i = Some r' \<and> outcome_of h se expiry r d st failed_start st' w' r')"
    if "held ?i r expiry s" "same_events st s" "close_run h se ?i (Some r) failed_start s w3 = (Some run, st', w')" for s w3
    using close_run_signed [OF al that(1) se that(3)] close_run_result [OF that(3)] same_events_failures [OF that(2), of ?i]
    by (auto simp: outcome_of_def Let_def)
  show ?thesis
  proof (cases entered)
    case False
    with run v have "close_run h se ?i (Some r) failed_start st v = (Some run, st', w')" by (simp add: live_run_def)
    from failed [OF hd same_events_refl this] fs(1) show ?thesis by simp
  next
    case True
    show ?thesis
    proof (cases y)
      case None
      with run v True a l have "close_run h se ?i (Some r) failed_start s1 w2 = (Some run, st', w')" by (simp add: live_run_def)
      from failed [OF hd1 agent_run_same [OF al a] this] fs(1) show ?thesis by simp
    next
      case (Some fin)
      obtain y2 s2 w3 where c: "close_run h se ?i (Some r) fin s1 w1 = (y2, s2, w3)" by (metis prod_cases3)
      from close_run_signed [OF al hd1 se c] obtain r' where r': "get s2 ?i = Some r'" "settled se (failed_attempts st ?i) expiry fin r'"
        using same_events_failures [OF agent_run_same [OF al a], of ?i] by auto
      obtain left2 w4 where l2: "ho_leave h w3 = (left2, w4)" by fastforce
      show ?thesis
      proof (cases left2)
        case True
        with run v \<open>entered\<close> a Some c l2 close_run_result [OF c] have "run = fin" "st' = s2" by (simp_all add: live_run_def)
        with r' agent_run_unparked [OF a [unfolded Some]] show ?thesis by (auto simp: outcome_of_def Let_def)
      next
        case False
        with run v \<open>entered\<close> a Some c l2 have k: "close_run h se ?i (Some r) failed_start s2 w4 = (Some run, st', w')"
          by (simp add: live_run_def)
        have st': "st' = s2" and run': "run = failed_start" and y2: "y2 = Some fin"
          using close_run_settled [OF al r'(1) settled_state [OF r'(2)] k] close_run_result [OF k] close_run_result [OF c]
          by simp_all
        have "closed_before h se (failed_attempts st ?i) expiry r d st st' w' r'"
          unfolding closed_before_def using mode same_events_refl a Some c l2 False k r'(2)
          by (simp only: st' run' y2) blast
        with r' run' fs(1) st' show ?thesis by (auto simp: outcome_of_def Let_def)
      qed
    qed
  qed
qed

lemma leased_run_cases:
  assumes al: "alone h (\<lambda>t. t < expiry)" and hd: "held (event_id (se_sha se) d) r expiry st" and se: "0 < se_base se" "1 \<le> se_attempts se"
    and run: "run_event h se (Some r) d st w = (Some run, st', w')"
  shows "parked run \<and> same_events st st' \<or> \<not> parked run \<and> (\<exists>r'. get st' (event_id (se_sha se) d) = Some r' \<and> outcome_of h se expiry r d st run st' w' r')"
proof -
  let ?i = "event_id (se_sha se) d"
  have g: "get st ?i = Some r" using hd by (simp add: held_def)
  obtain start v where c: "ow_clock (ho_outside h) w = (start, v)" by fastforce
  obtain o1 s1 w1 where op: "open_event h se (Some r) d st v = (o1, s1, w1)" by (metis prod_cases3)
  from open_leased [OF al g op] have s1: "s1 = st" "o1 \<in> {Opened, Unavailable}" by auto
  have adm: "parked run \<and> same_events st st' \<or> \<not> parked run \<and> (\<exists>r'. get st' ?i = Some r' \<and> outcome_of h se expiry r d st run st' w' r')"
    if a: "admitted_run h se (Some r) ctx d start st w2 = (Some run, st', w')" for ctx w2
  proof -
    obtain why w3 where q: "ho_admit h ?i (pc_device ctx) w2 = (why, w3)" by fastforce
    obtain y s2 w4 where b: "transact h (record_admission_shadow ?i True None) st w3 = (y, s2, w4)" by (metis prod_cases3)
    note hd2 = held_same [OF hd transact_same [OF al b shadow_same(1)]]
    have ref: "parked run \<and> same_events st st'"
      if "refuse_admission h se ?i mode e st w3 = (Some run, st', w')" for mode e
      using refuse_admission_same [OF al g held_unsigned [OF hd] that] that
      by (auto simp: refuse_admission_def Let_def parked_def not_run_def split: prod.splits sum.splits)
    have go: "\<not> parked run \<and> (\<exists>r'. get st' ?i = Some r' \<and> outcome_of h se expiry r d st run st' w' r')"
      if "held ?i r expiry s" "same_events st s"
        "(if se_toolset se then fixtures_run else live_run) h se (Some r) ctx d start s w5 = (Some run, st', w')" for s w5
    proof -
      from that(3) fixtures_run_outcome [OF al that(1) se] live_run_outcome [OF al that(1) se]
      have "\<not> parked run \<and> (\<exists>r'. get st' ?i = Some r' \<and> outcome_of h se expiry r d s run st' w' r')"
        by (cases "se_toolset se") simp_all
      then show ?thesis using outcome_same [OF that(2), of h se expiry r d run st' w'] by auto
    qed
    show ?thesis
    proof (cases "se_admit se")
      case False
      with a have "(if se_toolset se then fixtures_run else live_run) h se (Some r) ctx d start st w2 = (Some run, st', w')"
        unfolding admitted_run_def Let_def by simp
      from go [OF hd same_events_refl this] show ?thesis by simp
    next
      case True
      show ?thesis
      proof (cases why)
        case None
        with a True q b have "(if se_toolset se then fixtures_run else live_run) h se (Some r) ctx d start s2 w4 = (Some run, st', w')"
          unfolding admitted_run_def Let_def by simp
        from go [OF hd2 transact_same [OF al b shadow_same(1)] this] show ?thesis by simp
      next
        case (Some e)
        with a True q ref show ?thesis unfolding admitted_run_def Let_def by simp
      qed
    qed
  qed
  from run c op s1 show ?thesis
    by (auto simp: run_event_def Let_def parked_def not_run_def split: option.splits sum.splits if_splits dest!: adm)
qed

text \<open>C36: What a run under a live lease leaves of its event, when nothing else touches the store (no other process,
  nor the heartbeats that would renew this lease) and the lease outlives the run.  A completed run is
  recorded as completed; any other run of the loop is recorded with its own reason, as a dead letter once
  the attempts are used up and before that as a retry whose date grows with the failures; either way the
  lease is given back.  Only a run that ends as a failed start may leave something else: the live server
  failed to close after the run had been closed, and then the row is what that run's own outcome says.
  A run that admission refused, or that stopped before the loop, changes nothing at all: no attempt is
  counted and the lease stays until it lapses.\<close>

theorem leased_runs_are_settled:
  assumes "alone h (\<lambda>t. t < expiry)" and "held (event_id (se_sha se) d) r expiry st" and "0 < se_base se" and "1 \<le> se_attempts se"
    and "run_event h se (Some r) d st w = (Some run, st', w')"
  shows "if parked run then same_events st st' else \<exists>r'. get st' (event_id (se_sha se) d) = Some r' \<and> outcome_of h se expiry r d st run st' w' r'"
  using leased_run_cases [OF assms] by auto

subsection \<open>Witnesses\<close>

text \<open>A host whose clock stands still, that admits every run and whose tools cannot be listed.\<close>

definition still_world :: "nat outside" where
  "still_world = \<lparr>ow_clock = (\<lambda>w. (0, w)), ow_list_tools = (\<lambda>w. (None, w)), ow_caller = (\<lambda>_ _ _ w. (None, w)),
     ow_call_tool = (\<lambda>_ _ _ w. (None, w)), ow_close = (\<lambda>w. (True, w)), ow_loads = (\<lambda>_. None)\<rparr>"

definition still_host :: "int \<Rightarrow> nat host" where
  "still_host t = \<lparr>ho_transact = (\<lambda>w st. (t, st, w)), ho_wall = (\<lambda>w. (5, w)), ho_admit = (\<lambda>_ _ w. (None, w)), ho_finish = (\<lambda>_ _ w. w),
     ho_enter = (\<lambda>w. (True, w)), ho_leave = (\<lambda>w. (True, w)), ho_ticket = (\<lambda>w. (''INC-1'', w)), ho_uuid = (\<lambda>w. (''u'', w)),
     ho_outside = still_world\<rparr>"

definition still_setup :: agent_setup where
  "still_setup = \<lparr>se_bounds = AgentBounds, se_say = (\<lambda>_. []), se_say_receipt = (\<lambda>_. []),
     se_table = [JDict [(''mnemonic'', JStr ''ROUTING-BGP-5-ADJCHANGE''), (''investigate_with'', JStr ''bgp_session''),
       (''trigger'', JDict [(''fires'', JBool True)])]],
     se_max_age = 300, se_base = 5, se_attempts = 3, se_sha = lab_sha, se_isoformat = lab_isoformat, se_fromiso = lab_fromiso,
     se_question = (\<lambda>_. JNull), se_caller = True, se_toolset = True, se_admit = True\<rparr>"

lemma still_setup_fields [simp]:
  "se_sha still_setup = lab_sha" "se_fromiso still_setup = lab_fromiso" "se_base still_setup = 5" "se_attempts still_setup = 3"
  "se_toolset still_setup"
  by (simp_all add: still_setup_def)

definition flap_decision :: decision where
  "flap_decision = \<lparr>rd_routable = True, rd_flow = Some ''bgp_session'', rd_device = Some ''PE2'', rd_subject = Some ''10.255.0.1'',
     rd_reason = [], rd_source = ''syslog'', rd_matched = JStr ''ROUTING-BGP-5-ADJCHANGE'', rd_transition = Some ''down'',
     rd_raw = Some flap_line, rd_ingest = None\<rparr>"

lemma flap_routed: "route_syslog_line (\<lambda>_. []) [''PE2''] flap_line (Some ''PE2'') = flap_decision"
  by code_simp

text \<open>The event of that line, received at 5 and leased at 10 for 100.\<close>

definition claimed_store :: store where
  "claimed_store = (let p = payload (from_routing_decision lab_sha lab_isoformat flap_decision 5)
     in execs [(Create ''h'' ''PE2'' p False, 5), (Transit ''h'' ADMITTED None None None None, 6), (Acquire ''h'' ''w1'' 100, 10)] new_store)"

lemma still_alone: "P t \<Longrightarrow> alone (still_host t) P"
  by (simp add: alone_def still_host_def)

lemma still_orderly: "orderly (still_host t)"
  by (auto simp: orderly_def still_host_def runs.none)

lemma reachable_claimed: "reachable claimed_store"
  unfolding claimed_store_def Let_def by (rule reachable_execs)

definition still_drain :: "store \<Rightarrow> nat \<Rightarrow> nat option \<times> store \<times> nat" where
  "still_drain st w = (Some 0, st, w)"

theorem sweeps_witness:
  "store_ok (fst (snd (sweep_once (still_host 200) still_setup ''w2'' 180 None (recovery_runner (still_host 200) still_setup) still_drain claimed_store 0)))"
proof -
  obtain r st' w' where s: "sweep_once (still_host 200) still_setup ''w2'' 180 None (recovery_runner (still_host 200) still_setup) still_drain claimed_store 0
      = (r, st', w')" by (metis prod_cases3)
  from sweeps_are_accepted_calls [OF still_orderly _ s] reachable_claimed s show ?thesis
    by (simp add: still_drain_def runs.none)
qed

lemma claimed_again:
  "\<exists>leased st1. acquire_lease ''h'' ''w2'' 180 200 claimed_store = Inr (leased, st1) \<and>
     stored_decision lab_sha lab_fromiso (er_payload leased) = Inr flap_decision"
proof -
  have "(case acquire_lease ''h'' ''w2'' 180 200 claimed_store of Inr (r, _) \<Rightarrow> stored_decision lab_sha lab_fromiso (er_payload r) = Inr flap_decision
     | _ \<Rightarrow> False)" by code_simp
  then show ?thesis by (auto split: sum.splits prod.splits)
qed

theorem late_claims_witness:
  "\<exists>leased st1 st' w'. acquire_lease ''h'' ''w2'' 180 200 claimed_store = Inr (leased, st1) \<and>
     run_claimed (still_host 400) still_setup None (recovery_runner (still_host 400) still_setup) leased st1 0 = (True, st', w') \<and>
     leased \<in> set (recoverable_events 400 st')"
proof -
  from claimed_again obtain leased st1 where l: "acquire_lease ''h'' ''w2'' 180 200 claimed_store = Inr (leased, st1)"
    "stored_decision lab_sha lab_fromiso (er_payload leased) = Inr flap_decision" by blast
  have "event_id lab_sha flap_decision = ''h''" by (simp add: event_id_def lab_sha_def)
  with late_claims_are_lost [where h = "still_host 400" and se = still_setup and w = 0 and t = 400, OF l(1) still_alone] l show ?thesis
    by auto
qed

theorem stranded_witness:
  "\<exists>run st' w' r. run_event (still_host 7) still_setup None (flap_decision\<lparr>rd_routable := False\<rparr>) new_store 0 = (Some run, st', w') \<and>
     get st' ''h'' = Some r \<and> er_state r = RUNNING \<and> r \<notin> set (recoverable_events 1000 st')"
proof -
  have i: "event_id (se_sha still_setup) (flap_decision\<lparr>rd_routable := False\<rparr>) = ''h''" by (simp add: event_id_def lab_sha_def)
  have "(case run_event (still_host 7) still_setup None (flap_decision\<lparr>rd_routable := False\<rparr>) new_store 0 of (Some run, _) \<Rightarrow> ag_mode run = ''plan''
     | _ \<Rightarrow> False)" by code_simp
  then obtain run st' w' where r: "run_event (still_host 7) still_setup None (flap_decision\<lparr>rd_routable := False\<rparr>) new_store 0 = (Some run, st', w')"
    "ag_mode run = ''plan''" by (auto split: option.splits prod.splits)
  have "get new_store ''h'' = None" by (simp add: get_def new_store_def)
  from refused_events_are_stranded [OF still_alone [where P = "\<lambda>_. True", OF TrueI] this [folded i] r] i r(1) show ?thesis by auto
qed

theorem leased_runs_witness:
  "\<exists>run st' w' r'. run_event (still_host 20) still_setup (get claimed_store ''h'') flap_decision claimed_store 0 = (Some run, st', w') \<and>
     get st' ''h'' = Some r' \<and> er_state r' = RETRYABLE_FAILED \<and> er_lease_owner r' = None \<and>
     er_terminal_reason r' = Some (ag_stopped_because run) \<and> (\<exists>t < 110. er_retry_at r' = Some (t + 5))"
proof -
  have i: "event_id (se_sha still_setup) flap_decision = ''h''" by (simp add: event_id_def lab_sha_def)
  have n: "failed_attempts claimed_store ''h'' = 0" by code_simp
  have "(case get claimed_store ''h'' of Some r \<Rightarrow> held ''h'' r 110 claimed_store \<and>
      (case run_event (still_host 20) still_setup (Some r) flap_decision claimed_store 0 of (Some run, _) \<Rightarrow> \<not> parked run \<and> \<not> ag_complete run
        | _ \<Rightarrow> False) | _ \<Rightarrow> False)" by code_simp
  then obtain r run st' w' where r: "get claimed_store ''h'' = Some r" "held ''h'' r 110 claimed_store"
    "run_event (still_host 20) still_setup (Some r) flap_decision claimed_store 0 = (Some run, st', w')" "\<not> parked run" "\<not> ag_complete run"
    by (auto split: option.splits prod.splits)
  from leased_runs_are_settled [OF still_alone r(2) [folded i] _ _ r(3)] r i show ?thesis
    by (auto simp: outcome_of_def closed_before_def settled_def Let_def n)
qed

end
