(* ===== verification/Log_Window.thy ===== *)
theory Log_Window
  imports Event_Routing "HOL-Library.Product_Lexorder" "HOL-Library.Sublist"
begin

section \<open>The log window of an investigation\<close>

text \<open>
  Models \<open>coverage.py\<close>, \<open>log_window.py\<close> and \<open>log_episodes.py\<close>: what a read of a device's log covers, the
  reductions of a window and their account, and the temporal shape of what is left.  A record is the
  dictionary the parser of the log makes: its fields are texts, and one that is absent reads as the empty
  text.  A duration is a double as Python computes it, each operation rounded, and a rate is the pair of a
  count and a duration.  The second part
  proves what a reader may conclude from the counts, rates and episodes.
\<close>

subsection \<open>Coverage\<close>

definition IOSXR_SEVERITY_LEVELS :: "(string \<times> nat) list" where
  "IOSXR_SEVERITY_LEVELS = [(''emergencies'', 0), (''alerts'', 1), (''critical'', 2), (''errors'', 3), (''warnings'', 4),
     (''notifications'', 5), (''informational'', 6), (''debugging'', 7)]"

definition ALL_SEVERITIES :: "nat list" where
  "ALL_SEVERITIES = [0..<8]"

definition severities_at_or_below :: "string \<Rightarrow> nat list" where
  "severities_at_or_below level = (case map_of IOSXR_SEVERITY_LEVELS (py_lower (py_strip level)) of
     None \<Rightarrow> [] | Some ceiling \<Rightarrow> [0..<Suc ceiling])"

datatype gap = QueryIncomplete | SeveritiesMissing "nat list" | Truncated nat nat | DroppedAtSource nat | Note string

record coverage =
  cv_device :: string
  cv_source :: string
  cv_query_complete :: bool
  cv_window_start :: json
  cv_window_end :: json
  cv_severity_available :: "nat list"
  cv_records_available :: "nat option"
  cv_records_returned :: nat
  cv_dropped_at_source :: nat
  cv_kept_unattributable :: nat
  cv_notes :: "string list"

definition severity_missing :: "coverage \<Rightarrow> nat list" where
  "severity_missing c = filter (\<lambda>s. s \<notin> set (cv_severity_available c)) ALL_SEVERITIES"

definition truncated :: "coverage \<Rightarrow> bool" where
  "truncated c \<longleftrightarrow> (case cv_records_available c of None \<Rightarrow> False | Some n \<Rightarrow> cv_records_returned c < n)"

definition gaps :: "coverage \<Rightarrow> gap list" where
  "gaps c = (if cv_query_complete c then [] else [QueryIncomplete]) @
     (if severity_missing c = [] then [] else [SeveritiesMissing (severity_missing c)]) @
     (if truncated c then [Truncated (cv_records_returned c) (case cv_records_available c of Some n \<Rightarrow> n | None \<Rightarrow> 0)] else []) @
     (if cv_dropped_at_source c = 0 then [] else [DroppedAtSource (cv_dropped_at_source c)]) @ map Note (cv_notes c)"

text \<open>\<open>int(v) if str(v).isdigit() else default\<close>; a superscript digit passes \<open>isdigit\<close> and \<open>int\<close> raises.\<close>

definition is_digitlike :: "char \<Rightarrow> bool" where
  "is_digitlike c \<longleftrightarrow> is_digit c \<or> (of_char c :: nat) \<in> {178, 179, 185}"

definition read_count :: "json \<Rightarrow> nat option option" where
  "read_count v = (let s = py_str v in if s \<noteq> [] \<and> list_all is_digitlike s
     then map_option Some (parse_digits 0 s) else Some None)"

definition read_length :: "json \<Rightarrow> nat option" where
  "read_length v = (if \<not> truthy v then Some 0 else case v of
     JList xs \<Rightarrow> Some (length xs) | JStr s \<Rightarrow> Some (length s) | JDict d \<Rightarrow> Some (length d) | _ \<Rightarrow> None)"

definition read_level :: "json \<Rightarrow> string option" where
  "read_level v = (if \<not> truthy v then Some [] else case v of JStr s \<Rightarrow> Some s | _ \<Rightarrow> None)"

definition coverage_from_logging :: "dict \<Rightarrow> string \<Rightarrow> coverage option" where
  "coverage_from_logging parsed device = do {
     meta \<leftarrow> as_dict (py_or (dict_get parsed ''meta'') (JDict []));
     level \<leftarrow> read_level (dict_get meta ''buffer_level'');
     available \<leftarrow> read_count (dict_get meta ''buffer_messages_logged'');
     returned \<leftarrow> read_length (dict_get parsed ''records'');
     dropped \<leftarrow> read_count (dict_get meta ''messages_dropped'');
     Some \<lparr>cv_device = device, cv_source = ''device_buffer'', cv_query_complete = True,
       cv_window_start = dict_get meta ''window_start'', cv_window_end = dict_get meta ''window_end'',
       cv_severity_available = severities_at_or_below level, cv_records_available = available,
       cv_records_returned = returned, cv_dropped_at_source = (case dropped of Some n \<Rightarrow> n | None \<Rightarrow> 0),
       cv_kept_unattributable = 0,
       cv_notes = (if dict_get meta ''syslog_enabled'' = JBool False then [''syslog logging is disabled on this device''] else []) @
         (if truthy (dict_get meta ''buffer_level'') then [] else [''the source did not report its buffer level''])\<rparr>
   }"

subsection \<open>Addresses in a text\<close>

text \<open>\<open>findall\<close> of a pattern that begins and ends at a word boundary: \<open>n\<close> characters belong to the last match,
  \<open>word\<close> says whether the character before is a word character.\<close>

fun find_words :: "(string \<Rightarrow> string list) \<Rightarrow> nat \<Rightarrow> bool \<Rightarrow> string \<Rightarrow> string list" where
  "find_words m n word [] = []"
| "find_words m (Suc n) word (c # cs) = find_words m n (is_word c) cs"
| "find_words m 0 word (c # cs) = (case (if word then [] else m (c # cs)) of
     x # _ \<Rightarrow> x # find_words m (length x - 1) (is_word c) cs
   | [] \<Rightarrow> find_words m 0 (is_word c) cs)"

definition ends_word :: "string \<Rightarrow> bool" where
  "ends_word r \<longleftrightarrow> r = [] \<or> \<not> is_word (hd r)"

definition QUAD :: rx where
  "QUAD = rx_seq [between 1 3 is_digit, lit ''.'', between 1 3 is_digit, lit ''.'', between 1 3 is_digit, lit ''.'', between 1 3 is_digit]"

definition addresses :: "string \<Rightarrow> string list" where
  "addresses = find_words (\<lambda>s. [a. (a, r) \<leftarrow> QUAD s, ends_word r]) 0 False"

fun contains :: "string \<Rightarrow> string \<Rightarrow> bool" where
  "contains p [] \<longleftrightarrow> p = []"
| "contains p (c # cs) \<longleftrightarrow> starts_with p (c # cs) \<or> contains p cs"

subsection \<open>Reductions\<close>

definition text_at :: "dict \<Rightarrow> string \<Rightarrow> string" where
  "text_at r k = (case dict_get r k of JStr s \<Rightarrow> s | _ \<Rightarrow> [])"

datatype attribution = SourceAddress | GeneratingProcess

record noise_rule =
  nr_facility :: string
  nr_attribution :: attribution
  nr_sources :: "string list"
  nr_markers :: "string list"

text \<open>Whether the constructor accepts the rule.\<close>

definition rule_accepted :: "noise_rule \<Rightarrow> bool" where
  "rule_accepted q \<longleftrightarrow> \<not> (nr_attribution q = SourceAddress \<and> nr_sources q = []) \<and>
     \<not> (nr_attribution q = GeneratingProcess \<and> nr_markers q = [])"

definition noise :: "noise_rule \<Rightarrow> dict \<Rightarrow> bool" where
  "noise q r \<longleftrightarrow> dict_get r ''facility'' = JStr (nr_facility q) \<and> (case nr_attribution q of
     SourceAddress \<Rightarrow> (let found = addresses (text_at r ''text'') in found \<noteq> [] \<and> list_all (\<lambda>a. a \<in> set (nr_sources q)) found)
   | GeneratingProcess \<Rightarrow> list_all (\<lambda>m. contains m (text_at r ''text'')) (nr_markers q))"

definition COLLECTOR_SOURCES :: "string list" where
  "COLLECTOR_SOURCES = [''172.20.250.1'', ''172.20.250.2'', ''172.20.250.5'', ''172.20.250.6'']"

definition COLLECTOR_NOISE :: "noise_rule list" where
  "COLLECTOR_NOISE = [
     \<lparr>nr_facility = ''SECURITY-SSHD_SYSLOG_PRX'', nr_attribution = SourceAddress, nr_sources = COLLECTOR_SOURCES, nr_markers = []\<rparr>,
     \<lparr>nr_facility = ''SYSDB-SYSDB'', nr_attribution = GeneratingProcess, nr_sources = [],
      nr_markers = [''client '' @ [CHR 0x27] @ ''exec'' @ [CHR 0x27], ''/vty/'']\<rparr>]"

definition record_key :: "dict \<Rightarrow> string \<times> string \<times> string" where
  "record_key r = (text_at r ''timestamp'', text_at r ''mnemonic'', text_at r ''text'')"

fun dedupe_from :: "(string \<times> string \<times> string) list \<Rightarrow> dict list \<Rightarrow> dict list" where
  "dedupe_from seen [] = []"
| "dedupe_from seen (r # rs) = (if record_key r \<in> set seen then dedupe_from seen rs else r # dedupe_from (record_key r # seen) rs)"

definition dedupe :: "dict list \<Rightarrow> dict list" where
  "dedupe rs = dedupe_from [] rs"

definition drop_collector_noise :: "dict list \<Rightarrow> noise_rule list \<Rightarrow> dict list \<times> nat" where
  "drop_collector_noise rs rules =
     (let kept = filter (\<lambda>r. \<not> list_ex (\<lambda>q. noise q r) rules) rs
      in (kept, length (filter (\<lambda>r. dict_get r ''facility'' \<in> set (map (JStr \<circ> nr_facility) rules)) kept)))"

definition filter_to_subject :: "dict list \<Rightarrow> string option \<Rightarrow> dict list" where
  "filter_to_subject rs subject = (case subject of
     Some (c # cs) \<Rightarrow> filter (\<lambda>r. contains (c # cs) (text_at r ''text'')) rs
   | _ \<Rightarrow> rs)"

record shaped_window =
  sw_records :: "dict list"
  sw_total_in :: nat
  sw_duplicates :: nat
  sw_noise :: nat
  sw_unrelated :: nat
  sw_unattributed :: nat
  sw_coverage :: "coverage option"

definition shape_window :: "dict list \<Rightarrow> string option \<Rightarrow> bool \<Rightarrow> coverage option \<Rightarrow> shaped_window" where
  "shape_window rs subject drop_noise cov =
     (let unique = dedupe rs;
          (kept, unattributed) = (if drop_noise then drop_collector_noise unique COLLECTOR_NOISE else (unique, 0));
          narrowed = filter_to_subject kept subject
      in \<lparr>sw_records = narrowed, sw_total_in = length rs, sw_duplicates = length rs - length unique,
          sw_noise = length unique - length kept, sw_unrelated = length kept - length narrowed,
          sw_unattributed = unattributed,
          sw_coverage = map_option (\<lambda>c. c\<lparr>cv_kept_unattributable := unattributed\<rparr>) cov\<rparr>)"

subsection \<open>Device time\<close>

type_synonym device_timestamp = "nat \<times> nat \<times> nat \<times> nat \<times> nat \<times> nat"

definition MONTHS :: "string list" where
  "MONTHS = [''Jan'', ''Feb'', ''Mar'', ''Apr'', ''May'', ''Jun'', ''Jul'', ''Aug'', ''Sep'', ''Oct'', ''Nov'', ''Dec'']"

definition month_number :: "string \<Rightarrow> nat option" where
  "month_number m = map_of (zip MONTHS [1..<13]) m"

definition stamp_fields :: "string \<Rightarrow> (string \<times> string list) list" where
  "stamp_fields s = [(mon, [day, hour, minute, second, ms]). (mon, r1) \<leftarrow> count 3 is_letter s, (_, r2) \<leftarrow> many1 py_isspace r1,
     (day, r3) \<leftarrow> between 1 2 is_digit r2, (_, r4) \<leftarrow> many1 py_isspace r3, (hour, r5) \<leftarrow> count 2 is_digit r4, (_, r6) \<leftarrow> lit '':'' r5,
     (minute, r7) \<leftarrow> count 2 is_digit r6, (_, r8) \<leftarrow> lit '':'' r7, (second, r9) \<leftarrow> count 2 is_digit r8, (_, r10) \<leftarrow> lit ''.'' r9,
     (ms, r11) \<leftarrow> count 3 is_digit r10, (_, r12) \<leftarrow> many1 py_isspace r11, (_, r13) \<leftarrow> many1 nonspace r12, at_end r13]"

definition parse_device_timestamp :: "string \<Rightarrow> device_timestamp option" where
  "parse_device_timestamp s = (case stamp_fields (py_strip s) of
     (mon, [day, hour, minute, second, ms]) # _ \<Rightarrow> do {
       m \<leftarrow> month_number mon; d \<leftarrow> parse_digits 0 day; h \<leftarrow> parse_digits 0 hour; mi \<leftarrow> parse_digits 0 minute;
       sec \<leftarrow> parse_digits 0 second; milli \<leftarrow> parse_digits 0 ms; Some (m, d, h, mi, sec, milli) }
   | _ \<Rightarrow> None)"

text \<open>\<open>datetime\<close> in the anchor year 2000, a leap year, or in the next: the milliseconds since the anchor
  year began; it raises on a day or an hour that does not exist.\<close>

definition month_lengths :: "bool \<Rightarrow> nat list" where
  "month_lengths leap = [31, if leap then 29 else 28, 31, 30, 31, 30, 31, 31, 30, 31, 30, 31]"

definition valid_stamp :: "bool \<Rightarrow> device_timestamp \<Rightarrow> bool" where
  "valid_stamp leap = (\<lambda>(m, d, h, mi, s, ms). 1 \<le> m \<and> m \<le> 12 \<and> 1 \<le> d \<and> d \<le> month_lengths leap ! (m - 1) \<and>
     h < 24 \<and> mi < 60 \<and> s < 60 \<and> ms < 1000)"

definition milliseconds :: "bool \<Rightarrow> device_timestamp \<Rightarrow> int" where
  "milliseconds leap = (\<lambda>(m, d, h, mi, s, ms).
     (((int (sum_list (take (m - 1) (month_lengths leap)) + (d - 1)) * 24 + int h) * 60 + int mi) * 60 + int s) * 1000 + int ms)"

definition YEAR_2000 :: int where
  "YEAR_2000 = 366 * 24 * 60 * 60 * 1000"

definition in_2000 :: "device_timestamp \<Rightarrow> int option" where
  "in_2000 t = (if valid_stamp True t then Some (milliseconds True t) else None)"

definition in_2001 :: "device_timestamp \<Rightarrow> int option" where
  "in_2001 t = (if valid_stamp False t then Some (YEAR_2000 + milliseconds False t) else None)"

definition milliseconds_between :: "device_timestamp \<Rightarrow> device_timestamp \<Rightarrow> int option" where
  "milliseconds_between earlier later = do {
     lo \<leftarrow> in_2000 earlier; hi \<leftarrow> in_2000 later;
     hi \<leftarrow> (if hi < lo then in_2001 later else Some hi);
     Some (hi - lo) }"

text \<open>
  A double, as an integer number of units of \<open>1 / (1000 * 2 ^ 62)\<close> seconds: in these units a millisecond is
  whole, and so is a multiple of \<open>2 ^ -62\<close> seconds, as all doubles that occur here are.  \<open>fl\<close>
  rounds an exact result that is not negative to 53 significant bits, half to even; a result of less than \<open>2 ^ -9\<close>
  seconds is a multiple of \<open>2 ^ -62\<close> already and stays.
\<close>

definition MILLISECOND :: int where "MILLISECOND = 2 ^ 62"
definition SECOND :: int where "SECOND = 1000 * MILLISECOND"

function excess_bits :: "int \<Rightarrow> nat" where
  "excess_bits n = (if n < 2 ^ 53 then 0 else Suc (excess_bits (n div 2)))"
  by pat_completeness auto

termination
  by (relation "measure nat") auto

declare excess_bits.simps [simp del]

definition round_half_even :: "int \<Rightarrow> int \<Rightarrow> int" where
  "round_half_even m d = (let q = m div d; r = m mod d in if 2 * r < d \<or> 2 * r = d \<and> even q then q else q + 1)"

definition fl :: "int \<Rightarrow> int" where
  "fl m = (let d = 1000 * 2 ^ excess_bits (m div 1000) in d * round_half_even m d)"

text \<open>\<open>total_seconds\<close>: the microseconds divided by a million, correctly rounded.\<close>

definition total_seconds :: "int \<Rightarrow> int" where
  "total_seconds ms = fl (ms * MILLISECOND)"

definition seconds_between :: "device_timestamp \<Rightarrow> device_timestamp \<Rightarrow> int option" where
  "seconds_between earlier later = map_option total_seconds (milliseconds_between earlier later)"

subsection \<open>Rates and bursts\<close>

definition RATE_WINDOW :: int where
  "RATE_WINDOW = 60 * SECOND"

text \<open>\<open>value - offsets[left] > 60.0\<close>, the difference rounded.\<close>

definition too_old :: "int \<Rightarrow> int \<Rightarrow> bool" where
  "too_old v x \<longleftrightarrow> RATE_WINDOW < fl (v - x)"

text \<open>The two-pointer scan: \<open>left\<close> moves forward over the offsets that are too old.\<close>

definition advance :: "int list \<Rightarrow> int \<Rightarrow> nat \<Rightarrow> nat" where
  "advance offsets v left = left + length (takeWhile (too_old v) (drop left offsets))"

fun scan_rate :: "int list \<Rightarrow> nat \<Rightarrow> nat \<Rightarrow> int list \<Rightarrow> nat \<Rightarrow> nat" where
  "scan_rate offsets left best [] right = best"
| "scan_rate offsets left best (v # vs) right =
     (let left = advance offsets v left in scan_rate offsets left (max best (right - left + 1)) vs (Suc right))"

definition max_rate_1m :: "int list \<Rightarrow> nat" where
  "max_rate_1m offsets = scan_rate offsets 0 0 offsets 0"

fun burst_runs :: "nat \<Rightarrow> bool \<Rightarrow> int list \<Rightarrow> nat" where
  "burst_runs runs in_run (a # b # xs) =
     (if fl (b - a) < RATE_WINDOW then burst_runs (if in_run then runs else Suc runs) True (b # xs)
      else burst_runs runs False (b # xs))"
| "burst_runs runs in_run xs = runs"

definition bursts :: "int list \<Rightarrow> nat" where
  "bursts offsets = (if length offsets < 2 then 0 else burst_runs 0 False offsets)"

record mnemonic_aggregate =
  ma_mnemonic :: string
  ma_count :: nat
  ma_first_seen :: string
  ma_last_seen :: string
  ma_sample :: string
  ma_window :: "int option"
  ma_rate :: "(nat \<times> int) option"
  ma_max_rate :: "nat option"
  ma_bursts :: "nat option"
  ma_untimed :: nat

text \<open>The dated records, in the order of the calendar fields, and how many could not be dated.\<close>

definition stamp_of :: "dict \<Rightarrow> device_timestamp option" where
  "stamp_of r = parse_device_timestamp (text_at r ''timestamp'')"

definition timed :: "dict list \<Rightarrow> (device_timestamp \<times> dict) list" where
  "timed rs = sort_key fst (concat (map (\<lambda>r. case stamp_of r of Some t \<Rightarrow> [(t, r)] | None \<Rightarrow> []) rs))"

definition untimed :: "dict list \<Rightarrow> nat" where
  "untimed rs = length (filter (\<lambda>r. stamp_of r = None) rs)"

definition aggregate_group :: "string \<Rightarrow> dict list \<Rightarrow> mnemonic_aggregate option" where
  "aggregate_group mnemonic members = (case timed members of
     [] \<Rightarrow> Some \<lparr>ma_mnemonic = mnemonic, ma_count = length members, ma_first_seen = [], ma_last_seen = [],
       ma_sample = text_at (last members) ''text'', ma_window = None, ma_rate = None, ma_max_rate = None, ma_bursts = None,
       ma_untimed = untimed members\<rparr>
   | (anchor, first) # rest \<Rightarrow> do {
       offsets \<leftarrow> map_m (\<lambda>(t, _). seconds_between anchor t) ((anchor, first) # rest);
       let span = (if length offsets > 1 then Some (fl (last offsets - hd offsets)) else None);
       Some \<lparr>ma_mnemonic = mnemonic, ma_count = length members, ma_first_seen = text_at first ''timestamp'',
         ma_last_seen = text_at (snd (last ((anchor, first) # rest))) ''timestamp'',
         ma_sample = text_at (snd (last ((anchor, first) # rest))) ''text'', ma_window = span,
         ma_rate = (case span of Some w \<Rightarrow> if w > 0 then Some (length offsets, w) else None | None \<Rightarrow> None),
         ma_max_rate = Some (max_rate_1m offsets), ma_bursts = Some (bursts offsets), ma_untimed = untimed members\<rparr>
     })"

definition aggregate_by_mnemonic :: "dict list \<Rightarrow> mnemonic_aggregate list option" where
  "aggregate_by_mnemonic rs = map_m (\<lambda>m. aggregate_group m (filter (\<lambda>r. text_at r ''mnemonic'' = m) rs))
     (from_keys (map (\<lambda>r. text_at r ''mnemonic'') rs))"

subsection \<open>Episodes\<close>

record protocol_timer =
  pt_protocol :: string
  pt_facility :: string
  pt_hold_seconds :: int

definition PROTOCOL_HOLD_TIMERS :: "protocol_timer list" where
  "PROTOCOL_HOLD_TIMERS = [\<lparr>pt_protocol = ''bgp'', pt_facility = ''ROUTING-BGP'', pt_hold_seconds = 180\<rparr>,
     \<lparr>pt_protocol = ''isis'', pt_facility = ''ROUTING-ISIS'', pt_hold_seconds = 30\<rparr>]"

definition timer_for :: "dict \<Rightarrow> protocol_timer option" where
  "timer_for r = find (\<lambda>t. dict_get r ''facility'' = JStr (pt_facility t)) PROTOCOL_HOLD_TIMERS"

definition SMALLEST_TIMER :: protocol_timer where
  "SMALLEST_TIMER = hd (sort_key pt_hold_seconds PROTOCOL_HOLD_TIMERS)"

text \<open>The bound of a pair and the protocol it was taken from, if the pair named one.\<close>

definition pair_bound :: "dict \<Rightarrow> dict \<Rightarrow> int \<times> string option" where
  "pair_bound prev nxt = (case (timer_for prev, timer_for nxt) of
     (None, None) \<Rightarrow> (pt_hold_seconds SMALLEST_TIMER, None)
   | (Some a, None) \<Rightarrow> (pt_hold_seconds a, Some (pt_protocol a))
   | (None, Some b) \<Rightarrow> (pt_hold_seconds b, Some (pt_protocol b))
   | (Some a, Some b) \<Rightarrow> (let t = (if pt_hold_seconds a < pt_hold_seconds b then b else a) in (pt_hold_seconds t, Some (pt_protocol t))))"

definition subject_hint :: "dict list \<Rightarrow> string option" where
  "subject_hint rs = (case find (\<lambda>x. x \<noteq> None) (map (\<lambda>r. rx_search INTERFACE (text_at r ''text'')) rs) of
     Some x \<Rightarrow> x | None \<Rightarrow> None)"

record episode_join =
  ej_gap :: int
  ej_bound :: int
  ej_protocol :: "string option"

record episode =
  ep_id :: string
  ep_device :: string
  ep_subject :: "string option"
  ep_start :: string
  ep_end :: string
  ep_records :: "dict list"
  ep_joins :: "episode_join list"

definition padded :: "nat \<Rightarrow> string" where
  "padded n = (let s = show_nat n in replicate (4 - length s) (CHR ''0'') @ s)"

definition finish_episode :: "(device_timestamp \<times> dict) list \<Rightarrow> episode_join list \<Rightarrow> string \<Rightarrow> nat \<Rightarrow> episode" where
  "finish_episode members joins device index =
     (let rs = map snd members
      in \<lparr>ep_id = ''EP-'' @ padded index, ep_device = device, ep_subject = subject_hint rs, ep_start = text_at (hd rs) ''timestamp'',
          ep_end = text_at (last rs) ''timestamp'', ep_records = rs, ep_joins = joins\<rparr>)"

definition join_of :: "int \<Rightarrow> dict \<Rightarrow> dict \<Rightarrow> episode_join" where
  "join_of gap prev nxt = \<lparr>ej_gap = gap, ej_bound = fst (pair_bound prev nxt), ej_protocol = snd (pair_bound prev nxt)\<rparr>"

text \<open>\<open>n\<close> is the number of the episode that \<open>current\<close> will be; a bound is in seconds.\<close>

fun gather :: "string \<Rightarrow> (device_timestamp \<times> dict) list \<Rightarrow> episode_join list \<Rightarrow> nat \<Rightarrow> (device_timestamp \<times> dict) list \<Rightarrow> episode list option" where
  "gather device current joins n [] = Some (if current = [] then [] else [finish_episode current joins device n])"
| "gather device current joins n ((t, r) # ts) =
     (if current = [] then gather device [(t, r)] joins n ts
      else do {
        gap \<leftarrow> seconds_between (fst (last current)) t;
        if gap \<le> fst (pair_bound (snd (last current)) r) * SECOND
        then gather device (current @ [(t, r)]) (joins @ [join_of gap (snd (last current)) r]) n ts
        else do { es \<leftarrow> gather device [(t, r)] [] (Suc n) ts; Some (finish_episode current joins device n # es) } })"

record episode_set =
  es_episodes :: "episode list"
  es_device :: string
  es_considered :: nat
  es_unordered :: nat
  es_coverage :: "coverage option"

definition build_episodes :: "dict list \<Rightarrow> string \<Rightarrow> coverage option \<Rightarrow> episode_set option" where
  "build_episodes rs device cov = do {
     es \<leftarrow> gather device [] [] 1 (timed rs);
     Some \<lparr>es_episodes = es, es_device = device, es_considered = length rs, es_unordered = untimed rs, es_coverage = cov\<rparr> }"

section \<open>What the numbers say\<close>

subsection \<open>Rounding\<close>

lemma round_bounds:
  assumes "0 < d"
  shows "2 * \<bar>d * round_half_even m d - m\<bar> \<le> d"
    and "m \<le> c * d \<Longrightarrow> round_half_even m d \<le> c" and "c * d \<le> m \<Longrightarrow> c \<le> round_half_even m d"
    and "d dvd m \<Longrightarrow> d * round_half_even m d = m"
proof -
  have m: "m = d * (m div d) + m mod d" "0 \<le> m mod d" "m mod d < d" using assms by simp_all
  show "2 * \<bar>d * round_half_even m d - m\<bar> \<le> d"
  proof (cases "2 * (m mod d) < d \<or> 2 * (m mod d) = d \<and> even (m div d)")
    case True
    then have r: "d * round_half_even m d = d * (m div d)" "2 * (m mod d) \<le> d" by (auto simp: round_half_even_def Let_def)
    then have "d * round_half_even m d - m = - (m mod d)" using m(1) by linarith
    then show ?thesis using r(2) m(2) by simp
  next
    case False
    then have r: "d * round_half_even m d = d * (m div d) + d" "d \<le> 2 * (m mod d)" by (auto simp: round_half_even_def Let_def distrib_left)
    then have "d * round_half_even m d - m = d - m mod d" using m(1) by linarith
    then show ?thesis using r(2) m(3) by simp
  qed
  show "round_half_even m d \<le> c" if "m \<le> c * d"
  proof (cases "m mod d = 0")
    case True
    with m(1) that assms have "d * (m div d) \<le> d * c" by (simp add: mult.commute)
    with assms have "m div d \<le> c" by (rule mult_left_le_imp_le [rotated])
    with True assms show ?thesis by (simp add: round_half_even_def)
  next
    case False
    with m(2) have "0 < m mod d" by simp
    moreover have "m \<le> d * c" using that by (simp add: mult.commute)
    ultimately have "d * (m div d) < d * c" using m(1) by linarith
    with assms have "m div d < c" by simp
    then show ?thesis by (simp add: round_half_even_def Let_def)
  qed
  show "c \<le> round_half_even m d" if "c * d \<le> m"
  proof -
    have "c \<le> m div d" using zdiv_mono1 [OF that assms] assms by simp
    then show ?thesis by (simp add: round_half_even_def Let_def)
  qed
  show "d * round_half_even m d = m" if "d dvd m" using that assms by (auto simp: round_half_even_def)
qed

lemma round_mono:
  assumes "0 < d" and "a \<le> b"
  shows "round_half_even a d \<le> round_half_even b d"
proof (cases "a div d = b div d")
  case True
  have "a mod d \<le> b mod d" using assms(2) True by (simp add: minus_div_mult_eq_mod [symmetric])
  with True show ?thesis by (auto simp: round_half_even_def Let_def)
next
  case False
  moreover have "a div d \<le> b div d" using assms by (intro zdiv_mono1) auto
  ultimately show ?thesis by (auto simp: round_half_even_def Let_def)
qed

lemma excess_bits_le: "n < 2 ^ (53 + k) \<Longrightarrow> excess_bits n \<le> k"
proof (induction k arbitrary: n)
  case 0
  then show ?case by (subst excess_bits.simps) simp
next
  case (Suc k)
  then have "n < 2 ^ (53 + k) * 2" by (simp add: power_add)
  then have "n div 2 < 2 ^ (53 + k)" by linarith
  then have "excess_bits (n div 2) \<le> k" by (rule Suc.IH)
  then show ?case by (subst excess_bits.simps) simp
qed

lemma excess_bits_bound: "n < 2 ^ (53 + excess_bits n)" "0 < excess_bits n \<Longrightarrow> 2 ^ (52 + excess_bits n) \<le> n"
proof (induction n rule: excess_bits.induct)
  case (1 n)
  case 1
  show ?case
  proof (cases "n < 2 ^ 53")
    case True
    then show ?thesis by (subst excess_bits.simps) simp
  next
    case False
    then have "n div 2 < 2 ^ (53 + excess_bits (n div 2))" using "1.IH"(1) by blast
    then have "n < 2 * 2 ^ (53 + excess_bits (n div 2))" by linarith
    moreover have "(2 :: int) * 2 ^ (53 + excess_bits (n div 2)) = 2 ^ (53 + Suc (excess_bits (n div 2)))"
      by (simp only: power_Suc add_Suc_right)
    moreover have "excess_bits n = Suc (excess_bits (n div 2))" using False by (subst excess_bits.simps) simp
    ultimately show ?thesis by (simp only:)
  qed
  case 2
  show ?case
  proof (cases "n < 2 ^ 53")
    case True
    with 2 show ?thesis by (subst (asm) excess_bits.simps) simp
  next
    case False
    have "2 ^ (52 + Suc (excess_bits (n div 2))) \<le> n"
    proof (cases "excess_bits (n div 2) = 0")
      case True
      with False show ?thesis by simp
    next
      case pos: False
      then have "2 ^ (52 + excess_bits (n div 2)) \<le> n div 2" using "1.IH"(2) False by blast
      then have "2 * 2 ^ (52 + excess_bits (n div 2)) \<le> n" by linarith
      moreover have "(2 :: int) * 2 ^ (52 + excess_bits (n div 2)) = 2 ^ (52 + Suc (excess_bits (n div 2)))"
        by (simp only: power_Suc add_Suc_right)
      ultimately show ?thesis by (simp only:)
    qed
    with False show ?thesis by (subst excess_bits.simps) simp
  qed
qed

lemma excess_bits_mono: "a \<le> b \<Longrightarrow> excess_bits a \<le> excess_bits b"
  using excess_bits_le [of a "excess_bits b"] excess_bits_bound(1) [of b] by linarith

lemma fl_error:
  assumes "m < 1000 * 2 ^ (53 + k)"
  shows "2 * \<bar>fl m - m\<bar> \<le> 1000 * 2 ^ k"
proof -
  have "m div 1000 < 2 ^ (53 + k)" using assms by (simp add: div_less_iff_less_mult mult.commute)
  then have "excess_bits (m div 1000) \<le> k" by (rule excess_bits_le)
  then have "(2 :: int) ^ excess_bits (m div 1000) \<le> 2 ^ k" by (simp add: power_increasing)
  moreover have "2 * \<bar>1000 * 2 ^ excess_bits (m div 1000) * round_half_even m (1000 * 2 ^ excess_bits (m div 1000)) - m\<bar> \<le>
      1000 * 2 ^ excess_bits (m div 1000)" by (rule round_bounds(1)) simp
  ultimately show ?thesis unfolding fl_def Let_def by linarith
qed

lemma fl_exact:
  assumes "1000 * 2 ^ k dvd m" and "m \<le> 1000 * 2 ^ (53 + k)"
  shows "fl m = m"
proof -
  have "1000 * 2 ^ excess_bits (m div 1000) dvd m"
  proof (cases "m < 1000 * 2 ^ (53 + k)")
    case True
    then have "m div 1000 < 2 ^ (53 + k)" by (simp add: div_less_iff_less_mult mult.commute)
    then have "excess_bits (m div 1000) \<le> k" by (rule excess_bits_le)
    then have "(1000 :: int) * 2 ^ excess_bits (m div 1000) dvd 1000 * 2 ^ k" by (simp add: le_imp_power_dvd)
    with assms(1) show ?thesis by (rule dvd_trans [rotated])
  next
    case False
    with assms(2) have m: "m = 1000 * 2 ^ (53 + k)" by simp
    have "excess_bits (2 ^ (53 + k)) \<le> Suc k" by (rule excess_bits_le) simp
    then show ?thesis unfolding m by (simp add: le_imp_power_dvd)
  qed
  then show ?thesis unfolding fl_def Let_def by (intro round_bounds(4)) simp_all
qed

lemma fl_mono:
  assumes "a \<le> b"
  shows "fl a \<le> fl b"
proof -
  let ?k = "excess_bits (a div 1000)" and ?l = "excess_bits (b div 1000)"
  have "a div 1000 \<le> b div 1000" using assms by (rule zdiv_mono1) simp
  then have le: "?k \<le> ?l" by (rule excess_bits_mono)
  show ?thesis
  proof (cases "?k = ?l")
    case True
    with round_mono [OF _ assms, of "1000 * 2 ^ ?l"] show ?thesis by (simp add: fl_def Let_def)
  next
    case False
    with le have lt: "?k < ?l" by simp
    have "a div 1000 < 2 ^ (53 + ?k)" by (rule excess_bits_bound(1))
    then have "a \<le> 2 ^ 53 * (1000 * 2 ^ ?k)" by (simp add: power_add; linarith)
    then have "round_half_even a (1000 * 2 ^ ?k) \<le> 2 ^ 53" by (intro round_bounds(2)) simp_all
    then have "fl a \<le> 1000 * 2 ^ ?k * 2 ^ 53" unfolding fl_def Let_def by (intro mult_left_mono) simp_all
    also have "\<dots> \<le> 1000 * 2 ^ ?l * 2 ^ 52"
    proof -
      have "(2 :: int) ^ Suc ?k \<le> 2 ^ ?l" using lt by (intro power_increasing) simp_all
      then show ?thesis by simp
    qed
    also have "\<dots> \<le> fl b"
    proof -
      have "2 ^ (52 + ?l) \<le> b div 1000" using lt by (intro excess_bits_bound(2)) simp
      then have "2 ^ 52 * (1000 * 2 ^ ?l) \<le> b" by (simp add: power_add; linarith)
      then have "2 ^ 52 \<le> round_half_even b (1000 * 2 ^ ?l)" by (intro round_bounds(3)) simp_all
      then show ?thesis unfolding fl_def Let_def by (intro mult_left_mono) simp_all
    qed
    finally show ?thesis .
  qed
qed

lemma fl_0 [simp]: "fl 0 = 0"
  by (rule fl_exact [of 0]) simp_all

text \<open>A span of less than two years, as a double, is within \<open>2 ^ 46\<close> units, far less than a millisecond.\<close>

definition TWO_YEARS :: int where "TWO_YEARS = 2 ^ 36"

lemma total_seconds_error: "ms < TWO_YEARS \<Longrightarrow> \<bar>total_seconds ms - ms * MILLISECOND\<bar> \<le> 2 ^ 46"
  using fl_error [of "ms * MILLISECOND" 36] by (simp add: total_seconds_def TWO_YEARS_def MILLISECOND_def)

lemma total_seconds_mono: "a \<le> b \<Longrightarrow> total_seconds a \<le> total_seconds b"
  unfolding total_seconds_def by (rule fl_mono) (simp add: MILLISECOND_def)

lemma whole_seconds:
  assumes "s \<le> 2 ^ 53"
  shows "total_seconds (s * 1000) = s * SECOND"
proof -
  have "fl (s * SECOND) = s * SECOND"
    by (rule fl_exact [of 62]) (use assms in \<open>simp_all add: SECOND_def MILLISECOND_def\<close>)
  then show ?thesis by (simp add: total_seconds_def SECOND_def mult.assoc)
qed

lemma total_seconds_0: "total_seconds 0 = 0"
  by (simp add: total_seconds_def)

text \<open>A double is not rounded again.\<close>

lemma total_seconds_double: "fl (total_seconds ms) = total_seconds ms"
proof -
  let ?k = "excess_bits (ms * MILLISECOND div 1000)" and ?q = "round_half_even (ms * MILLISECOND) (1000 * 2 ^ excess_bits (ms * MILLISECOND div 1000))"
  have "ms * MILLISECOND div 1000 < 2 ^ (53 + ?k)" by (rule excess_bits_bound(1))
  then have "ms * MILLISECOND \<le> 2 ^ 53 * (1000 * 2 ^ ?k)" by (simp add: power_add; linarith)
  then have "?q \<le> 2 ^ 53" by (intro round_bounds(2)) simp_all
  then have "1000 * 2 ^ ?k * ?q \<le> 1000 * 2 ^ ?k * 2 ^ 53" by (intro mult_left_mono) simp_all
  then show ?thesis unfolding total_seconds_def fl_def [of "ms * MILLISECOND"] Let_def
    by (intro fl_exact [of ?k]) (simp_all add: power_add ac_simps)
qed

text \<open>One span against a whole number of seconds is exact.\<close>

lemma within_seconds:
  assumes "ms < TWO_YEARS" and "0 \<le> s" and "s \<le> 2 ^ 53"
  shows "total_seconds ms \<le> s * SECOND \<longleftrightarrow> ms \<le> s * 1000"
proof
  assume "ms \<le> s * 1000"
  from total_seconds_mono [OF this] whole_seconds [OF assms(3)] show "total_seconds ms \<le> s * SECOND" by simp
next
  assume le: "total_seconds ms \<le> s * SECOND"
  show "ms \<le> s * 1000"
  proof (rule ccontr)
    assume "\<not> ms \<le> s * 1000"
    then have "(s * 1000 + 1) * MILLISECOND \<le> ms * MILLISECOND" by (intro mult_right_mono) (simp_all add: MILLISECOND_def)
    with total_seconds_error [OF assms(1)] le show False by (simp add: SECOND_def MILLISECOND_def distrib_right)
  qed
qed

text \<open>A difference of two spans is exact up to the millisecond, but not at the minute itself.\<close>

lemma difference_error:
  assumes "0 \<le> a" and "a \<le> b" and "b < TWO_YEARS"
  shows "\<bar>fl (total_seconds b - total_seconds a) - (b - a) * MILLISECOND\<bar> \<le> 2 ^ 48"
proof -
  have ea: "\<bar>total_seconds a - a * MILLISECOND\<bar> \<le> 2 ^ 46" and eb: "\<bar>total_seconds b - b * MILLISECOND\<bar> \<le> 2 ^ 46"
    by (rule total_seconds_error, use assms in linarith)+
  have "total_seconds 0 \<le> total_seconds a" using assms(1) by (rule total_seconds_mono)
  then have "0 \<le> total_seconds a" by (simp add: total_seconds_def)
  moreover have "b * MILLISECOND \<le> 2 ^ 98" using assms(3) by (simp add: TWO_YEARS_def MILLISECOND_def)
  ultimately have "total_seconds b - total_seconds a < 1000 * 2 ^ (53 + 36)" using eb by simp
  from fl_error [OF this] have "\<bar>fl (total_seconds b - total_seconds a) - (total_seconds b - total_seconds a)\<bar> \<le> 2 ^ 46" by simp
  with ea eb show ?thesis by (simp add: left_diff_distrib)
qed

lemma measured_gap:
  assumes "0 \<le> a" and "a \<le> b" and "b < TWO_YEARS"
  shows "b - a < 60000 \<Longrightarrow> fl (total_seconds b - total_seconds a) < RATE_WINDOW"
    and "60000 < b - a \<Longrightarrow> RATE_WINDOW < fl (total_seconds b - total_seconds a)"
proof -
  note e = difference_error [OF assms]
  show "fl (total_seconds b - total_seconds a) < RATE_WINDOW" if "b - a < 60000"
  proof -
    have "(b - a) * MILLISECOND \<le> 59999 * MILLISECOND" using that by (intro mult_right_mono) (simp_all add: MILLISECOND_def)
    with e show ?thesis by (simp add: RATE_WINDOW_def SECOND_def MILLISECOND_def)
  qed
  show "RATE_WINDOW < fl (total_seconds b - total_seconds a)" if "60000 < b - a"
  proof -
    have "60001 * MILLISECOND \<le> (b - a) * MILLISECOND" using that by (intro mult_right_mono) (simp_all add: MILLISECOND_def)
    with e show ?thesis by (simp add: RATE_WINDOW_def SECOND_def MILLISECOND_def)
  qed
qed

text \<open>At the minute the rounding decides: two gaps of exactly a minute, of which the first measures more and the second less.\<close>

lemma exact_minutes:
  "RATE_WINDOW < fl (total_seconds 120001 - total_seconds 60001)" "fl (total_seconds 120002 - total_seconds 60002) < RATE_WINDOW"
  by code_simp+

subsection \<open>The peak rate\<close>

text \<open>How many of the first \<open>j + 1\<close> offsets are, as measured, not too old at the last of them.\<close>

definition rate_at :: "int list \<Rightarrow> nat \<Rightarrow> nat" where
  "rate_at offsets j = length (filter (\<lambda>x. \<not> too_old (offsets ! j) x) (take (Suc j) offsets))"

lemma too_old_mono: "x \<le> y \<Longrightarrow> v \<le> w \<Longrightarrow> too_old v y \<Longrightarrow> too_old w x"
  unfolding too_old_def using fl_mono [of "v - y" "w - x"] by simp

lemma too_old_self [simp]: "\<not> too_old v v"
  by (simp add: too_old_def RATE_WINDOW_def SECOND_def MILLISECOND_def)

lemma advance_skips:
  assumes "left \<le> i" and "i < advance offsets v left"
  shows "too_old v (offsets ! i)"
proof -
  let ?w = "takeWhile (too_old v) (drop left offsets)"
  have i: "i - left < length ?w" using assms by (simp add: advance_def)
  then have "?w ! (i - left) \<in> set ?w" by (rule nth_mem)
  moreover have "?w ! (i - left) = drop left offsets ! (i - left)" using i by (rule takeWhile_nth)
  moreover have "left \<le> length offsets" using i length_takeWhile_le [of "too_old v" "drop left offsets"] by simp
  ultimately show ?thesis using assms(1) by (auto dest: set_takeWhileD)
qed

lemma advance_stops: "advance offsets v left < length offsets \<Longrightarrow> \<not> too_old v (offsets ! advance offsets v left)"
  using nth_length_takeWhile [of "too_old v" "drop left offsets"] by (simp add: advance_def less_diff_conv2)

lemma advance_le:
  assumes "left \<le> j" and "j < length offsets"
  shows "advance offsets (offsets ! j) left \<le> j"
proof (rule ccontr)
  assume "\<not> ?thesis"
  with advance_skips [OF assms(1), of offsets "offsets ! j"] show False by simp
qed

lemma rate_at_suffix:
  assumes "sorted offsets" and "j < length offsets" and "left \<le> j"
    and "\<And>i. i < left \<Longrightarrow> too_old (offsets ! j) (offsets ! i)" and "\<not> too_old (offsets ! j) (offsets ! left)"
  shows "rate_at offsets j = j - left + 1"
proof -
  have split: "take (Suc j) offsets = take left offsets @ drop left (take (Suc j) offsets)"
    using assms(3) by (metis append_take_drop_id le_SucI min.absorb1 take_take)
  have "filter (\<lambda>x. \<not> too_old (offsets ! j) x) (take left offsets) = []"
    using assms(2-4) by (force simp: filter_empty_conv in_set_conv_nth)
  moreover have "\<forall>x\<in>set (drop left (take (Suc j) offsets)). \<not> too_old (offsets ! j) x"
  proof
    fix x assume "x \<in> set (drop left (take (Suc j) offsets))"
    then obtain i where "i < Suc j - left" "x = offsets ! (left + i)" using assms(2) by (auto simp: in_set_conv_nth)
    then have "left + i \<le> j" "x = offsets ! (left + i)" by auto
    with sorted_nth_mono [OF assms(1), of left "left + i"] assms(2,5) too_old_mono [of "offsets ! left" x "offsets ! j" "offsets ! j"]
    show "\<not> too_old (offsets ! j) x" by auto
  qed
  ultimately show ?thesis unfolding rate_at_def by (subst split) (use assms(2,3) in \<open>simp add: Suc_diff_le\<close>)
qed

lemma scan_rate_fold:
  assumes "sorted offsets"
  shows "left \<le> right \<Longrightarrow> right \<le> length offsets \<Longrightarrow>
    (\<And>i. i < left \<Longrightarrow> right < length offsets \<Longrightarrow> too_old (offsets ! right) (offsets ! i)) \<Longrightarrow>
    scan_rate offsets left best (drop right offsets) right = fold max (map (rate_at offsets) [right..<length offsets]) best"
proof (induction "length offsets - right" arbitrary: left right best)
  case (Suc n)
  then have r: "right < length offsets" by simp
  let ?l = "advance offsets (offsets ! right) left"
  have l: "?l \<le> right" using advance_le Suc.prems(1) r by blast
  have below: "too_old (offsets ! right) (offsets ! i)" if "i < ?l" for i
    using that Suc.prems(3) r advance_skips [of left i offsets "offsets ! right"] by (cases "i < left") auto
  have rate: "rate_at offsets right = right - ?l + 1"
    by (rule rate_at_suffix [OF assms r l below]) (use advance_stops l r in \<open>auto intro: order.strict_trans1\<close>)
  have "too_old (offsets ! Suc right) (offsets ! i)" if "i < ?l" "Suc right < length offsets" for i
    using below [OF that(1)] sorted_nth_mono [OF assms, of right "Suc right"] that(2) too_old_mono [of "offsets ! i" "offsets ! i"] by simp
  then have "scan_rate offsets ?l (max best (rate_at offsets right)) (drop (Suc right) offsets) (Suc right) =
      fold max (map (rate_at offsets) [Suc right..<length offsets]) (max best (rate_at offsets right))"
    using Suc.hyps(1) [of "Suc right" ?l] Suc.hyps(2) l r by simp
  with r show ?case by (simp add: Cons_nth_drop_Suc [symmetric] Let_def rate upt_conv_Cons max.commute)
qed simp

lemma peak_fold_ge: "(best :: nat) \<le> fold max xs best \<and> (\<forall>x\<in>set xs. x \<le> fold max xs best)"
  by (induction xs arbitrary: best) (auto, (metis max.bounded_iff)+)

lemma peak_fold_in: "fold max xs (best :: nat) \<in> insert best (set xs)"
proof (induction xs arbitrary: best)
  case (Cons x xs)
  from Cons [of "max x best"] show ?case by (auto simp: max_def split: if_splits)
qed simp

lemma max_rate_fold: "sorted offsets \<Longrightarrow> max_rate_1m offsets = fold max (map (rate_at offsets) [0..<length offsets]) 0"
  using scan_rate_fold [of offsets 0 0 0] by (simp add: max_rate_1m_def)

lemma length_filter_mono: "(\<And>x. p x \<Longrightarrow> q x) \<Longrightarrow> length (filter p xs) \<le> length (filter q xs)"
  by (induction xs) (auto simp: le_SucI)

lemma length_filter_take: "length (filter p (take n xs)) \<le> length (filter p xs)"
  by (metis append_take_drop_id filter_append length_append le_add1)

lemma peak:
  assumes "sorted offsets"
  shows "j < length offsets \<Longrightarrow> rate_at offsets j \<le> max_rate_1m offsets"
    and "offsets \<noteq> [] \<Longrightarrow> \<exists>j < length offsets. rate_at offsets j = max_rate_1m offsets"
proof -
  note ge = peak_fold_ge [of 0 "map (rate_at offsets) [0..<length offsets]"]
  show le: "rate_at offsets j \<le> max_rate_1m offsets" if "j < length offsets" for j
    using that ge unfolding max_rate_fold [OF assms] by simp
  assume ne: "offsets \<noteq> []"
  have pos: "1 \<le> rate_at offsets 0" using ne by (cases offsets) (simp_all add: rate_at_def)
  have "max_rate_1m offsets \<in> insert 0 (rate_at offsets ` {0..<length offsets})"
    using peak_fold_in [of "map (rate_at offsets) [0..<length offsets]" 0] by (simp add: max_rate_fold [OF assms])
  moreover have "max_rate_1m offsets \<noteq> 0" using le [of 0] pos ne by auto
  ultimately show "\<exists>j < length offsets. rate_at offsets j = max_rate_1m offsets" by auto
qed

text \<open>How many of the exact offsets, in milliseconds, a window of a width holds from \<open>t\<close> on, both ends included.\<close>

definition in_window :: "int \<Rightarrow> int \<Rightarrow> int list \<Rightarrow> nat" where
  "in_window width t offsets = length (filter (\<lambda>x. t \<le> x \<and> x \<le> t + width) offsets)"

definition spans :: "int list \<Rightarrow> bool" where
  "spans offsets \<longleftrightarrow> sorted offsets \<and> (\<forall>x\<in>set offsets. 0 \<le> x \<and> x < TWO_YEARS)"

lemma rate_at_measured:
  assumes "j < length offsets"
  shows "rate_at (map total_seconds offsets) j =
    length (filter (\<lambda>x. \<not> too_old (total_seconds (offsets ! j)) (total_seconds x)) (take (Suc j) offsets))"
  using assms by (simp add: rate_at_def take_map filter_map comp_def)

text \<open>The measured rate lies between the counts of windows of a minute less a millisecond and of a minute.\<close>

lemma window_below_rate:
  assumes "spans offsets"
  shows "in_window 59999 t offsets = 0 \<or> (\<exists>j < length offsets. in_window 59999 t offsets \<le> rate_at (map total_seconds offsets) j)"
proof (cases "\<exists>j < length offsets. offsets ! j \<le> t + 59999")
  case True
  define j where "j = Max {j. j < length offsets \<and> offsets ! j \<le> t + 59999}"
  have fin: "finite {j. j < length offsets \<and> offsets ! j \<le> t + 59999}" by simp
  have j: "j < length offsets" "offsets ! j \<le> t + 59999" using Max_in [OF fin] True unfolding j_def by auto
  have late: "t + 59999 < offsets ! i" if "j < i" "i < length offsets" for i
  proof (rule ccontr)
    assume "\<not> ?thesis"
    with that(2) have "i \<le> j" unfolding j_def by (intro Max_ge [OF fin]) simp
    with that(1) show False by simp
  qed
  have srt: "sorted offsets" and range: "\<And>x. x \<in> set offsets \<Longrightarrow> 0 \<le> x \<and> x < TWO_YEARS" using assms by (auto simp: spans_def)
  have "filter (\<lambda>x. t \<le> x \<and> x \<le> t + 59999) (drop (Suc j) offsets) = []"
    using late by (simp add: filter_empty_conv all_set_conv_all_nth not_le)
  moreover have "filter (\<lambda>x. t \<le> x \<and> x \<le> t + 59999) offsets =
      filter (\<lambda>x. t \<le> x \<and> x \<le> t + 59999) (take (Suc j) offsets) @ filter (\<lambda>x. t \<le> x \<and> x \<le> t + 59999) (drop (Suc j) offsets)"
    by (simp only: filter_append [symmetric] append_take_drop_id)
  ultimately have "in_window 59999 t offsets = length (filter (\<lambda>x. t \<le> x \<and> x \<le> t + 59999) (take (Suc j) offsets))"
    unfolding in_window_def by simp
  also have "\<dots> \<le> length (filter (\<lambda>x. \<not> too_old (total_seconds (offsets ! j)) (total_seconds x)) (take (Suc j) offsets))"
  proof -
    have "\<not> too_old (total_seconds (offsets ! j)) (total_seconds x)" if "x \<in> set (take (Suc j) offsets)" "t \<le> x" for x
    proof -
      from that(1) obtain i where "i \<le> j" "x = offsets ! i" using j(1) by (auto simp: in_set_conv_nth less_Suc_eq_le)
      then have "x \<le> offsets ! j" "x \<in> set offsets" using sorted_nth_mono [OF srt] j(1) by auto
      with measured_gap(1) [of x "offsets ! j"] range [of x] range [of "offsets ! j"] j that(2) show ?thesis
        by (simp add: too_old_def)
    qed
    then have "filter (\<lambda>x. t \<le> x \<and> x \<le> t + 59999) (take (Suc j) offsets) =
      filter (\<lambda>x. t \<le> x \<and> x \<le> t + 59999 \<and> \<not> too_old (total_seconds (offsets ! j)) (total_seconds x)) (take (Suc j) offsets)"
      by (intro filter_cong) auto
    then show ?thesis by (rule ssubst) (rule length_filter_mono, simp)
  qed
  finally have "in_window 59999 t offsets \<le> rate_at (map total_seconds offsets) j" unfolding rate_at_measured [OF j(1)] .
  with j(1) show ?thesis by blast
next
  case False
  then have "in_window 59999 t offsets = 0" by (force simp: in_window_def filter_empty_conv in_set_conv_nth)
  then show ?thesis ..
qed

lemma rate_below_window:
  assumes "spans offsets" and "j < length offsets"
  shows "rate_at (map total_seconds offsets) j \<le> in_window 60000 (offsets ! j - 60000) offsets"
proof -
  have srt: "sorted offsets" and range: "\<And>x. x \<in> set offsets \<Longrightarrow> 0 \<le> x \<and> x < TWO_YEARS" using assms(1) by (auto simp: spans_def)
  have "offsets ! j - 60000 \<le> x \<and> x \<le> offsets ! j"
    if "x \<in> set (take (Suc j) offsets)" "\<not> too_old (total_seconds (offsets ! j)) (total_seconds x)" for x
  proof -
    from that(1) obtain i where "i \<le> j" "x = offsets ! i" using assms(2) by (auto simp: in_set_conv_nth less_Suc_eq_le)
    then have x: "x \<le> offsets ! j" "x \<in> set offsets" using sorted_nth_mono [OF srt] assms(2) by auto
    then have "0 \<le> x" "offsets ! j < TWO_YEARS" using range assms(2) by simp_all
    from measured_gap(2) [OF this(1) x(1) this(2)] that(2) have "\<not> 60000 < offsets ! j - x" by (auto simp: too_old_def)
    with x(1) show ?thesis by linarith
  qed
  then have "filter (\<lambda>x. \<not> too_old (total_seconds (offsets ! j)) (total_seconds x)) (take (Suc j) offsets) =
      filter (\<lambda>x. \<not> too_old (total_seconds (offsets ! j)) (total_seconds x) \<and> offsets ! j - 60000 \<le> x \<and> x \<le> offsets ! j - 60000 + 60000)
        (take (Suc j) offsets)"
    by (intro filter_cong) auto
  then have "rate_at (map total_seconds offsets) j \<le>
      length (filter (\<lambda>x. offsets ! j - 60000 \<le> x \<and> x \<le> offsets ! j - 60000 + 60000) (take (Suc j) offsets))"
    unfolding rate_at_measured [OF assms(2)] by (rule ssubst) (rule length_filter_mono, simp)
  also have "\<dots> \<le> in_window 60000 (offsets ! j - 60000) offsets" unfolding in_window_def by (rule length_filter_take)
  finally show ?thesis .
qed

lemma sorted_measured: "sorted offsets \<Longrightarrow> sorted (map total_seconds offsets)"
  by (simp add: sorted_iff_nth_mono total_seconds_mono)

text \<open>A burst begins at a short gap that no short gap precedes.\<close>

definition short_gap :: "int list \<Rightarrow> nat \<Rightarrow> bool" where
  "short_gap offsets i \<longleftrightarrow> fl (offsets ! Suc i - offsets ! i) < RATE_WINDOW"

definition burst_starts :: "bool \<Rightarrow> int list \<Rightarrow> nat list" where
  "burst_starts in_run offsets = filter (\<lambda>i. short_gap offsets i \<and> (if i = 0 then \<not> in_run else \<not> short_gap offsets (i - 1)))
     [0..<length offsets - 1]"

lemma burst_starts_Cons: "length (burst_starts in_run (a # b # xs)) =
  (if fl (b - a) < RATE_WINDOW \<and> \<not> in_run then 1 else 0) + length (burst_starts (fl (b - a) < RATE_WINDOW) (b # xs))"
proof -
  have up: "[0..<length (a # b # xs) - 1] = 0 # map Suc [0..<length (b # xs) - 1]" by (simp add: map_Suc_upt upt_conv_Cons del: upt_Suc)
  have "filter (\<lambda>i. short_gap (a # b # xs) i \<and> (if i = 0 then \<not> in_run else \<not> short_gap (a # b # xs) (i - 1))) (map Suc [0..<length (b # xs) - 1]) =
      map Suc (burst_starts (fl (b - a) < RATE_WINDOW) (b # xs))"
    unfolding burst_starts_def filter_map by (intro arg_cong [of _ _ "map Suc"] filter_cong) (auto simp: short_gap_def nth_Cons' split: if_splits)
  then show ?thesis unfolding burst_starts_def [of in_run] up by (simp add: short_gap_def)
qed

lemma burst_runs_starts: "burst_runs runs in_run offsets = runs + length (burst_starts in_run offsets)"
  by (induction runs in_run offsets rule: burst_runs.induct) (simp_all add: burst_starts_Cons burst_starts_def [of _ "[]"] burst_starts_def [of _ "[_]"])

subsection \<open>What the reductions remove\<close>

lemma dedupe_from_subseq: "subseq (dedupe_from seen rs) rs"
  by (induction seen rs rule: dedupe_from.induct) (auto intro: subseq_Cons')

lemma dedupe_from_keys: "distinct (map record_key (dedupe_from seen rs)) \<and> set (map record_key (dedupe_from seen rs)) \<inter> set seen = {}"
  by (induction seen rs rule: dedupe_from.induct) auto

lemma dedupe_from_covers: "r \<in> set rs \<Longrightarrow> record_key r \<in> set seen \<union> record_key ` set (dedupe_from seen rs)"
  by (induction seen rs rule: dedupe_from.induct) auto

text \<open>Why a record may be missing from a window: the rules claim it, or it does not name the subject.\<close>

definition claimed_as_noise :: "bool \<Rightarrow> dict \<Rightarrow> bool" where
  "claimed_as_noise drop_noise r \<longleftrightarrow> drop_noise \<and> list_ex (\<lambda>q. noise q r) COLLECTOR_NOISE"

definition off_subject :: "string option \<Rightarrow> dict \<Rightarrow> bool" where
  "off_subject subject r \<longleftrightarrow> (case subject of Some (c # cs) \<Rightarrow> \<not> contains (c # cs) (text_at r ''text'') | _ \<Rightarrow> False)"

lemma filter_to_subject_eq: "filter_to_subject rs subject = filter (\<lambda>r. \<not> off_subject subject r) rs"
  by (auto simp: filter_to_subject_def off_subject_def split: option.split list.split)

lemma shape_window_records:
  "sw_records (shape_window rs subject drop_noise cov) =
     filter (\<lambda>r. \<not> off_subject subject r) (filter (\<lambda>r. \<not> claimed_as_noise drop_noise r) (dedupe rs))"
  by (simp add: shape_window_def Let_def filter_to_subject_eq drop_collector_noise_def claimed_as_noise_def del: filter_filter)

text \<open>The account of a window is complete: what was kept and the three counts add up to what came in, what is kept
  is in its order and free of repetitions, and every record that is missing either repeats one of the
  same time, mnemonic and text, or is attributed to the collector, or does not name the subject.\<close>

theorem shape_window_accounts:
  "let w = shape_window rs subject drop_noise cov
   in length (sw_records w) + sw_duplicates w + sw_noise w + sw_unrelated w = length rs \<and> subseq (sw_records w) rs \<and>
      distinct (map record_key (sw_records w)) \<and>
      list_all (\<lambda>r. list_ex (\<lambda>r'. record_key r' = record_key r \<and>
        (r' \<in> set (sw_records w) \<or> claimed_as_noise drop_noise r' \<or> off_subject subject r')) rs) rs"
proof -
  define w where "w = shape_window rs subject drop_noise cov"
  let ?u = "dedupe rs"
  let ?k = "filter (\<lambda>r. \<not> claimed_as_noise drop_noise r) ?u"
  have sub: "subseq ?u rs" unfolding dedupe_def by (rule dedupe_from_subseq)
  have recs: "sw_records w = filter (\<lambda>r. \<not> off_subject subject r) ?k" unfolding w_def by (rule shape_window_records)
  then have kept: "subseq (sw_records w) rs" using sub by (metis subseq_filter_left subseq_order.trans)
  have counts: "sw_duplicates w = length rs - length ?u" "sw_noise w = length ?u - length ?k" "sw_unrelated w = length ?k - length (sw_records w)"
    unfolding recs by (simp_all add: w_def shape_window_def Let_def drop_collector_noise_def filter_to_subject_eq claimed_as_noise_def del: filter_filter)
  have le: "length (sw_records w) \<le> length ?k" "length ?k \<le> length ?u" unfolding recs by (rule length_filter_le)+
  moreover have "length ?u \<le> length rs" using sub by (rule list_emb_length)
  ultimately have "length (sw_records w) + sw_duplicates w + sw_noise w + sw_unrelated w = length rs" using counts le by linarith
  moreover have "distinct (map record_key (sw_records w))"
    unfolding recs using dedupe_from_keys [of "[]" rs] by (auto simp: dedupe_def distinct_map intro: inj_on_subset)
  moreover have "list_all (\<lambda>r. list_ex (\<lambda>r'. record_key r' = record_key r \<and>
      (r' \<in> set (sw_records w) \<or> claimed_as_noise drop_noise r' \<or> off_subject subject r')) rs) rs"
  proof -
    have "\<exists>r'\<in>set rs. record_key r' = record_key r \<and> (r' \<in> set (sw_records w) \<or> claimed_as_noise drop_noise r' \<or> off_subject subject r')"
      if "r \<in> set rs" for r
    proof -
      from dedupe_from_covers [OF that, of "[]"] obtain r' where r': "r' \<in> set ?u" "record_key r' = record_key r"
        by (auto simp: dedupe_def)
      with list_emb_set [OF sub] have "r' \<in> set rs" by blast
      with r' show ?thesis unfolding recs by auto
    qed
    then show ?thesis by (simp add: list_all_iff list_ex_iff)
  qed
  ultimately show ?thesis using kept unfolding w_def [symmetric] Let_def by blast
qed

text \<open>Nothing that names an address outside the management hosts is attributed to the collector's sessions.\<close>

lemma foreign_sessions_survive:
  assumes "a \<in> set (addresses (text_at r ''text''))" and "a \<notin> set COLLECTOR_SOURCES"
    and "dict_get r ''facility'' = JStr ''SECURITY-SSHD_SYSLOG_PRX''"
  shows "\<not> claimed_as_noise drop_noise r"
  using assms by (auto simp: claimed_as_noise_def COLLECTOR_NOISE_def noise_def Let_def list_all_iff)

subsection \<open>The calendar\<close>

lemma month_lengths_length [simp]: "length (month_lengths leap) = 12"
  by (simp add: month_lengths_def)

lemma month_start:
  assumes "1 \<le> m" "m < m'" "m' \<le> 12"
  shows "sum_list (take (m - 1) (month_lengths leap)) + month_lengths leap ! (m - 1) \<le> sum_list (take (m' - 1) (month_lengths leap))"
proof -
  have "sum_list (take (m - 1) (month_lengths leap)) + month_lengths leap ! (m - 1) = sum_list (take m (month_lengths leap))"
    using take_Suc_conv_app_nth [of "m - 1" "month_lengths leap"] assms by simp
  also have "\<dots> \<le> sum_list (take m (month_lengths leap) @ drop m (take (m' - 1) (month_lengths leap)))" by simp
  also have "take m (month_lengths leap) @ drop m (take (m' - 1) (month_lengths leap)) = take (m' - 1) (month_lengths leap)"
    using assms by (metis Suc_diff_1 Suc_leI append_take_drop_id diff_le_mono less_Suc_eq_le min.absorb1 min_less_iff_conj not_less_eq take_take zero_less_one_class.zero_less_one zero_less_Suc le_simps(2) le_trans)
  finally show ?thesis .
qed

lemma milliseconds_mono:
  assumes "valid_stamp leap a" "valid_stamp leap b" "a \<le> b"
  shows "milliseconds leap a \<le> milliseconds leap b"
proof -
  obtain m d h mi s ms where a: "a = (m, d, h, mi, s, ms)" by (metis prod_cases6)
  obtain m' d' h' mi' s' ms' where b: "b = (m', d', h', mi', s', ms')" by (metis prod_cases6)
  define x where "x = sum_list (take (m - 1) (month_lengths leap)) + (d - 1)"
  define y where "y = sum_list (take (m' - 1) (month_lengths leap)) + (d' - 1)"
  have "m < m' \<Longrightarrow> x < y"
    using month_start [of m m' leap] assms(1,2) unfolding a b valid_stamp_def x_def y_def by auto
  moreover have "m = m' \<Longrightarrow> d < d' \<Longrightarrow> x < y" "m = m' \<Longrightarrow> d = d' \<Longrightarrow> x = y"
    using assms(1,2) unfolding a b valid_stamp_def x_def y_def by auto
  ultimately have "x < y \<or> x = y \<and> (h < h' \<or> h = h' \<and> (mi < mi' \<or> mi = mi' \<and> (s < s' \<or> s = s' \<and> ms \<le> ms')))"
    using assms(3) unfolding a b by (auto simp: less_eq_prod_def order.order_iff_strict)
  moreover have "h < 24" "mi < 60" "s < 60" "ms < 1000" using assms(1) unfolding a valid_stamp_def by auto
  ultimately show ?thesis
    unfolding a b milliseconds_def split_conv x_def [symmetric] y_def [symmetric] by (elim disjE conjE) simp_all
qed

lemma milliseconds_range:
  assumes "valid_stamp leap t"
  shows "0 \<le> milliseconds leap t" and "milliseconds leap t < YEAR_2000"
proof -
  obtain m d h mi s ms where t: "t = (m, d, h, mi, s, ms)" by (metis prod_cases6)
  have v: "1 \<le> m" "m \<le> 12" "d \<le> month_lengths leap ! (m - 1)" "1 \<le> d" "h \<le> 23" "mi \<le> 59" "s \<le> 59" "ms \<le> 999"
    using assms by (auto simp: t valid_stamp_def)
  have "sum_list (take (m - 1) (month_lengths leap)) + month_lengths leap ! (m - 1) = sum_list (take m (month_lengths leap))"
    using take_Suc_conv_app_nth [of "m - 1" "month_lengths leap"] v by simp
  also have "\<dots> \<le> sum_list (take m (month_lengths leap)) + sum_list (drop m (month_lengths leap))" by simp
  also have "\<dots> = sum_list (month_lengths leap)" by (simp flip: sum_list_append)
  also have "\<dots> \<le> 366" by (simp add: month_lengths_def)
  finally have "sum_list (take (m - 1) (month_lengths leap)) + (d - 1) \<le> 365" using v by linarith
  then show "0 \<le> milliseconds leap t" "milliseconds leap t < YEAR_2000" using v by (simp_all add: t milliseconds_def YEAR_2000_def)
qed

lemma milliseconds_forward:
  assumes "valid_stamp True a" "valid_stamp True b" "a \<le> b"
  shows "milliseconds_between a b = Some (milliseconds True b - milliseconds True a)"
  using milliseconds_mono [OF assms] assms(1,2) by (simp add: milliseconds_between_def in_2000_def)

lemma milliseconds_between_range: "milliseconds_between a b = Some n \<Longrightarrow> 0 \<le> n \<and> n < TWO_YEARS"
  using milliseconds_range [of True a] milliseconds_range [of True b] milliseconds_range [of False b]
  by (auto simp: milliseconds_between_def in_2000_def in_2001_def YEAR_2000_def TWO_YEARS_def split: if_splits Option.bind_splits)

lemma seconds_forward:
  assumes "valid_stamp True a" "valid_stamp True b" "a \<le> b"
  shows "seconds_between a b = Some (total_seconds (milliseconds True b - milliseconds True a))"
  by (simp add: seconds_between_def milliseconds_forward [OF assms])

lemma seconds_valid: "seconds_between a b = Some n \<Longrightarrow> valid_stamp True a \<and> valid_stamp True b"
  by (auto simp: seconds_between_def milliseconds_between_def in_2000_def split: if_splits Option.bind_splits)

subsection \<open>Aggregates\<close>

lemma timed_eq: "timed rs = sort_key fst (map (\<lambda>r. (the (stamp_of r), r)) (filter (\<lambda>r. stamp_of r \<noteq> None) rs))"
proof -
  have "concat (map (\<lambda>r. case stamp_of r of Some t \<Rightarrow> [(t, r)] | None \<Rightarrow> []) rs) =
      map (\<lambda>r. (the (stamp_of r), r)) (filter (\<lambda>r. stamp_of r \<noteq> None) rs)"
    by (induction rs) (auto split: option.split)
  then show ?thesis by (simp add: timed_def)
qed

lemma set_timed: "set (timed rs) = {(t, r). r \<in> set rs \<and> stamp_of r = Some t}"
  by (force simp: timed_eq)

lemma sorted_timed: "sorted (map fst (timed rs))"
  by (simp add: timed_def)

lemma length_timed: "length (timed rs) + untimed rs = length rs"
  using sum_length_filter_compl [of "\<lambda>r. stamp_of r = None" rs] by (simp add: timed_eq untimed_def)

text \<open>The exact distances of the dated records from the first of them, in milliseconds, all in one calendar year.\<close>

definition offsets_of :: "dict list \<Rightarrow> int list" where
  "offsets_of rs = (case timed rs of [] \<Rightarrow> [] | (anchor, _) # _ \<Rightarrow>
     map (\<lambda>(t, _). milliseconds True t - milliseconds True anchor) (timed rs))"

lemma offsets_of_map: "timed rs = (anchor, first) # rest \<Longrightarrow>
  offsets_of rs = map (\<lambda>(t, _). milliseconds True t - milliseconds True anchor) (timed rs)"
  by (simp add: offsets_of_def)

lemma map_m_SomeD: "map_m f xs = Some ys \<Longrightarrow> length ys = length xs \<and> (\<forall>i < length xs. f (xs ! i) = Some (ys ! i))"
proof (induction xs arbitrary: ys)
  case (Cons x xs)
  then obtain y zs where "f x = Some y" "map_m f xs = Some zs" "ys = y # zs" by (auto split: Option.bind_splits)
  with Cons.IH [of zs] show ?case by (auto simp: nth_Cons')
qed simp

lemma group_offsets:
  assumes "timed rs = (anchor, first) # rest" and "map_m (\<lambda>(t, _). seconds_between anchor t) ((anchor, first) # rest) = Some offsets"
  shows "offsets = map total_seconds (offsets_of rs)" and "spans (offsets_of rs)" and "\<And>t r. (t, r) \<in> set (timed rs) \<Longrightarrow> valid_stamp True t \<and> anchor \<le> t"
proof -
  note m = map_m_SomeD [OF assms(2)]
  have valid: "valid_stamp True t \<and> valid_stamp True anchor \<and> anchor \<le> t" if "(t, r) \<in> set (timed rs)" for t r
  proof -
    from that obtain i where i: "i < length (timed rs)" "timed rs ! i = (t, r)" by (auto simp: in_set_conv_nth)
    with m assms(1) have "seconds_between anchor t = Some (offsets ! i)" by (metis (mono_tags, lifting) case_prod_conv)
    moreover have "map fst (timed rs) ! i = t" using i by simp
    moreover have "map fst (timed rs) ! 0 = anchor" using assms(1) by simp
    ultimately have "anchor \<le> t \<and> seconds_between anchor t = Some (offsets ! i)"
      using sorted_nth_mono [OF sorted_timed, of 0 i rs] i(1) by simp
    then show ?thesis using seconds_valid by blast
  qed
  then show "\<And>t r. (t, r) \<in> set (timed rs) \<Longrightarrow> valid_stamp True t \<and> anchor \<le> t" by blast
  show "offsets = map total_seconds (offsets_of rs)"
  proof (rule nth_equalityI)
    show "length offsets = length (map total_seconds (offsets_of rs))" using m assms(1) by (simp add: offsets_of_def)
    fix i assume i: "i < length offsets"
    obtain t r where tr: "timed rs ! i = (t, r)" by fastforce
    with i m assms(1) have mem: "(t, r) \<in> set (timed rs)" by (metis nth_mem)
    have "seconds_between anchor t = Some (offsets ! i)" using m i tr assms(1) by (metis (mono_tags, lifting) case_prod_conv)
    with seconds_forward [of anchor t] valid [OF mem] have "offsets ! i = total_seconds (milliseconds True t - milliseconds True anchor)" by simp
    moreover have "offsets_of rs ! i = milliseconds True t - milliseconds True anchor"
      unfolding offsets_of_map [OF assms(1)] using i m tr assms(1) by (subst nth_map) simp_all
    moreover have "i < length (offsets_of rs)" unfolding offsets_of_map [OF assms(1)] using i m assms(1) by simp
    ultimately show "offsets ! i = map total_seconds (offsets_of rs) ! i" by simp
  qed
  have "sorted (map (\<lambda>(t, _). milliseconds True t - milliseconds True anchor) (timed rs))"
    unfolding sorted_iff_nth_mono
  proof (intro allI impI)
    fix i j assume ij: "i \<le> j" "j < length (map (\<lambda>(t, _). milliseconds True t - milliseconds True anchor) (timed rs))"
    obtain t r u q where tr: "timed rs ! i = (t, r)" "timed rs ! j = (u, q)" by fastforce
    have "t \<le> u" using sorted_nth_mono [OF sorted_timed, of i j rs] ij tr by simp
    moreover have "valid_stamp True t" "valid_stamp True u" using valid ij tr by (metis le_less_trans length_map nth_mem)+
    ultimately have "milliseconds True t \<le> milliseconds True u" by (rule milliseconds_mono [rotated 2])
    then show "map (\<lambda>(t, _). milliseconds True t - milliseconds True anchor) (timed rs) ! i \<le>
        map (\<lambda>(t, _). milliseconds True t - milliseconds True anchor) (timed rs) ! j" using ij tr by simp
  qed
  then have "sorted (offsets_of rs)" unfolding offsets_of_def assms(1) by simp
  moreover have "0 \<le> x \<and> x < TWO_YEARS" if x: "x \<in> set (offsets_of rs)" for x
  proof -
    from x obtain t r where "(t, r) \<in> set (timed rs)" "x = milliseconds True t - milliseconds True anchor"
      unfolding offsets_of_map [OF assms(1)] by auto
    with valid [of t r] milliseconds_forward [of anchor t] milliseconds_between_range [of anchor t x] show ?thesis by simp
  qed
  ultimately show "spans (offsets_of rs)" by (simp add: spans_def)
qed

lemma aggregate_group_facts:
  assumes "aggregate_group m rs = Some a"
  shows "ma_mnemonic a = m" and "ma_count a = length rs" and "ma_untimed a = untimed rs"
    and "ma_max_rate a = (if timed rs = [] then None else Some (max_rate_1m (map total_seconds (offsets_of rs))))"
    and "ma_bursts a = (if timed rs = [] then None else Some (bursts (map total_seconds (offsets_of rs))))"
    and "ma_window a = (if length (timed rs) > 1 then Some (total_seconds (last (offsets_of rs))) else None)"
    and "spans (offsets_of rs)" and "\<And>t r. (t, r) \<in> set (timed rs) \<Longrightarrow> valid_stamp True t"
proof -
  have "ma_mnemonic a = m \<and> ma_count a = length rs \<and> ma_untimed a = untimed rs \<and>
    ma_max_rate a = (if timed rs = [] then None else Some (max_rate_1m (map total_seconds (offsets_of rs)))) \<and>
    ma_bursts a = (if timed rs = [] then None else Some (bursts (map total_seconds (offsets_of rs)))) \<and>
    ma_window a = (if length (timed rs) > 1 then Some (total_seconds (last (offsets_of rs))) else None) \<and>
    spans (offsets_of rs) \<and> (\<forall>t r. (t, r) \<in> set (timed rs) \<longrightarrow> valid_stamp True t)"
  proof (cases "timed rs")
    case Nil
    with assms show ?thesis by (auto simp: aggregate_group_def offsets_of_def spans_def)
  next
    case (Cons p rest)
    obtain anchor first where p: "p = (anchor, first)" by fastforce
    note tm = Cons [unfolded p]
    from assms obtain offsets where m: "map_m (\<lambda>(t, _). seconds_between anchor t) ((anchor, first) # rest) = Some offsets"
      unfolding aggregate_group_def tm by (auto simp del: map_m.simps split: Option.bind_splits)
    note g = group_offsets [OF tm m]
    have len: "length offsets = length (timed rs)" using map_m_SomeD [OF m] tm by simp
    have valid: "\<forall>t r. (t, r) \<in> set (timed rs) \<longrightarrow> valid_stamp True t" using g(3) by blast
    from assms len [unfolded tm] have "a = \<lparr>ma_mnemonic = m, ma_count = length rs, ma_first_seen = ma_first_seen a, ma_last_seen = ma_last_seen a,
        ma_sample = ma_sample a, ma_window = (if length (timed rs) > 1 then Some (fl (last offsets - hd offsets)) else None), ma_rate = ma_rate a,
        ma_max_rate = Some (max_rate_1m offsets), ma_bursts = Some (bursts offsets), ma_untimed = untimed rs\<rparr>"
      unfolding aggregate_group_def tm list.case prod.case m by (auto simp: Let_def)
    note eqs = arg_cong [OF this, of ma_mnemonic] arg_cong [OF this, of ma_count] arg_cong [OF this, of ma_window]
      arg_cong [OF this, of ma_max_rate] arg_cong [OF this, of ma_bursts] arg_cong [OF this, of ma_untimed]
    have "offsets_of rs \<noteq> []" "hd (offsets_of rs) = 0" by (simp_all add: offsets_of_def tm)
    then have "fl (last offsets - hd offsets) = total_seconds (last (offsets_of rs))"
      unfolding g(1) by (simp add: last_map hd_map total_seconds_double total_seconds_0)
    then show ?thesis using valid g(2) tm eqs unfolding g(1) [symmetric] by simp
  qed
  then show "ma_mnemonic a = m" "ma_count a = length rs" "ma_untimed a = untimed rs"
    "ma_max_rate a = (if timed rs = [] then None else Some (max_rate_1m (map total_seconds (offsets_of rs))))"
    "ma_bursts a = (if timed rs = [] then None else Some (bursts (map total_seconds (offsets_of rs))))"
    "ma_window a = (if length (timed rs) > 1 then Some (total_seconds (last (offsets_of rs))) else None)"
    "spans (offsets_of rs)" "\<And>t r. (t, r) \<in> set (timed rs) \<Longrightarrow> valid_stamp True t" by blast+
qed

definition same_mnemonic :: "string \<Rightarrow> dict list \<Rightarrow> dict list" where
  "same_mnemonic m rs = filter (\<lambda>r. text_at r ''mnemonic'' = m) rs"

lemma aggregates:
  assumes "aggregate_by_mnemonic rs = Some as"
  shows "map ma_mnemonic as = from_keys (map (\<lambda>r. text_at r ''mnemonic'') rs)"
    and "a \<in> set as \<Longrightarrow> aggregate_group (ma_mnemonic a) (same_mnemonic (ma_mnemonic a) rs) = Some a"
    and "r \<in> set rs \<Longrightarrow> \<exists>a\<in>set as. ma_mnemonic a = text_at r ''mnemonic''"
proof -
  let ?ms = "from_keys (map (\<lambda>r. text_at r ''mnemonic'') rs)"
  note m = map_m_SomeD [OF assms [unfolded aggregate_by_mnemonic_def same_mnemonic_def [symmetric]]]
  then have name: "ma_mnemonic (as ! i) = ?ms ! i" if "i < length ?ms" for i using that aggregate_group_facts(1) by blast
  with m show names: "map ma_mnemonic as = ?ms" by (intro nth_equalityI) auto
  show "a \<in> set as \<Longrightarrow> aggregate_group (ma_mnemonic a) (same_mnemonic (ma_mnemonic a) rs) = Some a"
    using m name by (metis in_set_conv_nth)
  assume "r \<in> set rs"
  then have "text_at r ''mnemonic'' \<in> set ?ms" by (simp add: set_from_keys)
  then show "\<exists>a\<in>set as. ma_mnemonic a = text_at r ''mnemonic''" unfolding names [symmetric] by auto
qed

text \<open>C14: The aggregates summarise without dropping: one per mnemonic, in the order of first appearance, each counting
  all its records.  When something could be dated, the two-pointer scan over the doubles gives the peak, the largest number
  of occurrences that, measured back from one of them, are at most a minute old, and the bursts are the maximal runs of
  measured gaps of less than a minute.  Against the exact milliseconds the peak is no less than the count of any window of 59.999
  seconds and no more than that of some window of 60, and a gap is measured as short when it is less than a minute and as
  long when it is more; at exactly a minute the rounding decides (\<open>exact_minutes\<close>).\<close>

theorem aggregates_count_and_peak:
  assumes "aggregate_by_mnemonic rs = Some as" and "a \<in> set as"
  shows "map ma_mnemonic as = from_keys (map (\<lambda>r. text_at r ''mnemonic'') rs) \<and>
    (let mine = same_mnemonic (ma_mnemonic a) rs; exact = offsets_of mine; measured = map total_seconds exact
     in ma_count a = length mine \<and> length exact + ma_untimed a = ma_count a \<and>
        (case ma_max_rate a of
           None \<Rightarrow> exact = []
         | Some peak \<Rightarrow> (\<forall>j < length measured. rate_at measured j \<le> peak) \<and> (\<exists>j < length measured. rate_at measured j = peak) \<and>
             (\<forall>t. in_window 59999 t exact \<le> peak) \<and> (\<exists>t. peak \<le> in_window 60000 t exact) \<and>
             ma_bursts a = Some (length (burst_starts False measured)) \<and>
             (\<forall>i. Suc i < length exact \<longrightarrow> (exact ! Suc i - exact ! i < 60000 \<longrightarrow> short_gap measured i) \<and>
               (60000 < exact ! Suc i - exact ! i \<longrightarrow> \<not> short_gap measured i))))"
proof -
  let ?mine = "same_mnemonic (ma_mnemonic a) rs"
  let ?exact = "offsets_of ?mine"
  let ?measured = "map total_seconds ?exact"
  note f = aggregate_group_facts [OF aggregates(2) [OF assms]]
  have len: "length ?exact = length (timed ?mine)" by (cases "timed ?mine") (auto simp: offsets_of_def)
  have count: "ma_count a = length ?mine \<and> length ?exact + ma_untimed a = ma_count a"
    using f len length_timed [of ?mine] by simp
  show ?thesis
  proof (cases "timed ?mine = []")
    case True
    with f len count aggregates(1) [OF assms(1)] show ?thesis by (simp add: Let_def)
  next
    case False
    then have ne: "?exact \<noteq> []" using len by auto
    have runs: "bursts ?measured = length (burst_starts False ?measured)"
      by (cases ?measured; cases "tl ?measured") (auto simp: bursts_def burst_runs_starts burst_starts_def)
    have srt: "sorted ?exact" and range: "\<And>x. x \<in> set ?exact \<Longrightarrow> 0 \<le> x \<and> x < TWO_YEARS" using f(7) by (auto simp: spans_def)
    note pk = peak [OF sorted_measured [OF srt]]
    from pk(2) ne obtain j where j: "j < length ?exact" "rate_at ?measured j = max_rate_1m ?measured" by auto
    have gaps: "(?exact ! Suc i - ?exact ! i < 60000 \<longrightarrow> short_gap ?measured i) \<and> (60000 < ?exact ! Suc i - ?exact ! i \<longrightarrow> \<not> short_gap ?measured i)"
      if "Suc i < length ?exact" for i
      using measured_gap [of "?exact ! i" "?exact ! Suc i"] that range [of "?exact ! i"] range [of "?exact ! Suc i"]
        sorted_nth_mono [OF srt, of i "Suc i"] by (auto simp: short_gap_def)
    have low: "in_window 59999 t ?exact \<le> max_rate_1m ?measured" for t
      using window_below_rate [OF f(7), of t] pk(1) by (auto intro: order.trans)
    have high: "max_rate_1m ?measured \<le> in_window 60000 (?exact ! j - 60000) ?exact"
      using rate_below_window [OF f(7) j(1)] j(2) by simp
    have rate: "ma_max_rate a = Some (max_rate_1m ?measured)" "ma_bursts a = Some (length (burst_starts False ?measured))"
      using f(4,5) False runs by simp_all
    have some: "\<exists>j < length ?measured. rate_at ?measured j = max_rate_1m ?measured" using j by auto
    have high: "\<exists>t. max_rate_1m ?measured \<le> in_window 60000 t ?exact" using high by blast
    show ?thesis unfolding Let_def rate option.case
      by (intro conjI allI impI aggregates(1) [OF assms(1)] conjunct1 [OF count] conjunct2 [OF count] pk(1) some low high refl
        conjunct1 [OF gaps, rule_format] conjunct2 [OF gaps, rule_format])
  qed
qed

text \<open>The spread of a group is the latest less the earliest of its dates in one calendar year.\<close>

lemma sorted_le_last: "sorted (xs :: int list) \<Longrightarrow> x \<in> set xs \<Longrightarrow> x \<le> last xs"
  by (induction xs) auto

lemma offsets_spread:
  assumes "timed rs = (anchor, first) # rest" and "spans (offsets_of rs)"
    and "\<And>t r. (t, r) \<in> set (timed rs) \<Longrightarrow> valid_stamp True t" and "(t, r) \<in> set (timed rs)" and "(u, q) \<in> set (timed rs)"
  shows "milliseconds True u \<le> milliseconds True t + last (offsets_of rs)" and "last (offsets_of rs) < TWO_YEARS"
proof -
  have ne: "offsets_of rs \<noteq> []" using assms(1) by (simp add: offsets_of_def)
  from last_in_set [OF this] assms(2) show "last (offsets_of rs) < TWO_YEARS" by (simp add: spans_def)
  have low: "milliseconds True anchor \<le> milliseconds True v" if "(v, p) \<in> set (timed rs)" for v p
  proof -
    from that obtain i where i: "i < length (timed rs)" "timed rs ! i = (v, p)" by (auto simp: in_set_conv_nth)
    then have "map fst (timed rs) ! i = v" by simp
    moreover have "map fst (timed rs) ! 0 = anchor" using assms(1) by simp
    ultimately have "anchor \<le> v" using sorted_nth_mono [OF sorted_timed, of 0 i rs] i(1) by simp
    moreover have "valid_stamp True anchor" using assms(3) [of anchor first] assms(1) by simp
    ultimately show ?thesis using milliseconds_mono assms(3) [OF that] by blast
  qed
  have "milliseconds True u - milliseconds True anchor \<in> set (offsets_of rs)"
    using assms(5) unfolding offsets_of_map [OF assms(1)] by force
  then have "milliseconds True u - milliseconds True anchor \<le> last (offsets_of rs)"
    using assms(2) sorted_le_last unfolding spans_def by blast
  with low [OF assms(4)] show "milliseconds True u \<le> milliseconds True t + last (offsets_of rs)" by simp
qed

lemma december:
  assumes "fst t = 12"
  shows "335 * 86400000 \<le> milliseconds True t"
proof -
  obtain d h mi s ms where t: "t = (12, d, h, mi, s, ms)" using assms by (metis fst_conv prod_cases6)
  have "sum_list (take 11 (month_lengths True)) = 335" by (simp add: month_lengths_def)
  then show ?thesis unfolding t milliseconds_def by simp
qed

lemma january:
  assumes "valid_stamp leap t" "fst t = 1"
  shows "milliseconds leap t < 31 * 86400000"
proof -
  obtain d h mi s ms where t: "t = (1, d, h, mi, s, ms)" using assms(2) by (metis fst_conv prod_cases6)
  with assms(1) have "d - 1 \<le> 30" "h \<le> 23" "mi \<le> 59" "s \<le> 59" "ms \<le> 999" by (auto simp: valid_stamp_def month_lengths_def)
  then show ?thesis unfolding t milliseconds_def by simp
qed

text \<open>The turn of a year is not recognised where it is promised to be.  \<open>seconds_between\<close> puts a January event
  after a December one within 62 days, but the records of a group are sorted by calendar fields before it
  is asked, so a window with one of each reports a span of more than 304 days.\<close>

theorem new_year_takes_ten_months:
  assumes "aggregate_by_mnemonic rs = Some as" and "r \<in> set rs" and "q \<in> set rs" and "text_at r ''mnemonic'' = text_at q ''mnemonic''"
    and "stamp_of r = Some t" and "stamp_of q = Some u" and "fst t = 12" and "fst u = 1"
  shows "(\<exists>a\<in>set as. ma_mnemonic a = text_at r ''mnemonic'' \<and> (\<exists>w. ma_window a = Some w \<and> 304 * 86400 * SECOND < w)) \<and>
    (\<exists>s. seconds_between t u = Some s \<and> s \<le> 62 * 86400 * SECOND)"
proof -
  obtain a where a: "a \<in> set as" "ma_mnemonic a = text_at r ''mnemonic''" using aggregates(3) [OF assms(1,2)] by blast
  let ?mine = "same_mnemonic (text_at r ''mnemonic'') rs"
  note f = aggregate_group_facts [OF aggregates(2) [OF assms(1) a(1), unfolded a(2)]]
  have mem: "(t, r) \<in> set (timed ?mine)" "(u, q) \<in> set (timed ?mine)"
    using assms by (simp_all add: set_timed same_mnemonic_def)
  then obtain anchor first rest where tm: "timed ?mine = (anchor, first) # rest" by (cases "timed ?mine") auto
  have "t \<noteq> u" using assms(7,8) by auto
  with mem have "length (timed ?mine) > 1" unfolding tm by (cases rest) auto
  with f(6) have w: "ma_window a = Some (total_seconds (last (offsets_of ?mine)))" by simp
  have v: "valid_stamp True t" "valid_stamp True u" using f(8) mem by blast+
  have spread: "milliseconds True t \<le> milliseconds True u + last (offsets_of ?mine)" "last (offsets_of ?mine) < TWO_YEARS"
    by (rule offsets_spread [OF tm f(7) _ mem(2,1)], rule f(8), assumption)+
  have "304 * 86400 * 1000 < last (offsets_of ?mine)"
    using spread(1) december [OF assms(7)] january [OF v(2) assms(8)] by simp
  then have "304 * 86400 * SECOND < total_seconds (last (offsets_of ?mine))"
    using within_seconds [OF spread(2), of "304 * 86400"] by simp
  moreover have vf: "valid_stamp False u"
    using v(2) assms(8) by (auto simp: valid_stamp_def month_lengths_def)
  have between: "milliseconds_between t u = Some (YEAR_2000 + milliseconds False u - milliseconds True t)"
    using v vf december [OF assms(7)] january [OF v(2) assms(8)] by (simp add: milliseconds_between_def in_2000_def in_2001_def)
  have "YEAR_2000 + milliseconds False u - milliseconds True t \<le> 62 * 86400 * 1000"
    using december [OF assms(7)] january [OF vf assms(8)] by (simp add: YEAR_2000_def)
  then have "\<exists>s. seconds_between t u = Some s \<and> s \<le> 62 * 86400 * SECOND"
    using within_seconds [of "YEAR_2000 + milliseconds False u - milliseconds True t" "62 * 86400"] milliseconds_between_range [OF between]
    by (simp add: seconds_between_def between)
  ultimately show ?thesis using a w by blast
qed

subsection \<open>Episodes\<close>

text \<open>How far apart two records are, exactly, against the bound of the pair.\<close>

definition near :: "dict \<Rightarrow> dict \<Rightarrow> bool option" where
  "near a b = do { t \<leftarrow> stamp_of a; u \<leftarrow> stamp_of b; gap \<leftarrow> milliseconds_between t u; Some (gap \<le> fst (pair_bound a b) * 1000) }"

lemma pair_bound_range: "0 \<le> fst (pair_bound a b) \<and> fst (pair_bound a b) \<le> 2 ^ 53"
proof -
  have "pt_hold_seconds p \<in> {180, 30}" if "timer_for r = Some p" for p r
    using that by (auto simp: timer_for_def PROTOCOL_HOLD_TIMERS_def split: if_splits)
  moreover have "pt_hold_seconds SMALLEST_TIMER = 30" by code_simp
  ultimately show ?thesis by (fastforce simp: pair_bound_def Let_def split: option.split)
qed

text \<open>The comparison of the doubles is that of the exact gap.\<close>

lemma near_measured:
  assumes "stamp_of a = Some t" and "stamp_of b = Some u" and "seconds_between t u = Some gap"
  shows "near a b = Some (gap \<le> fst (pair_bound a b) * SECOND)"
proof -
  obtain ms where ms: "milliseconds_between t u = Some ms" "gap = total_seconds ms" using assms(3) by (auto simp: seconds_between_def)
  from milliseconds_between_range [OF ms(1)] pair_bound_range [of a b] within_seconds [of ms "fst (pair_bound a b)"] show ?thesis
    by (simp add: near_def assms(1,2) ms)
qed

fun linked :: "dict list \<Rightarrow> bool" where
  "linked (a # b # rs) \<longleftrightarrow> near a b = Some True \<and> linked (b # rs)"
| "linked rs \<longleftrightarrow> rs \<noteq> []"

fun separated :: "episode list \<Rightarrow> bool" where
  "separated (e # f # es) \<longleftrightarrow> near (last (ep_records e)) (hd (ep_records f)) = Some False \<and> separated (f # es)"
| "separated es \<longleftrightarrow> True"

definition episode_ok :: "episode \<Rightarrow> bool" where
  "episode_ok e \<longleftrightarrow> linked (ep_records e) \<and> length (ep_joins e) + 1 = length (ep_records e) \<and>
     list_all (\<lambda>j. ej_gap j \<le> ej_bound j * SECOND) (ep_joins e) \<and>
     ep_start e = text_at (hd (ep_records e)) ''timestamp'' \<and> ep_end e = text_at (last (ep_records e)) ''timestamp''"

lemma linked_snoc: "linked rs \<Longrightarrow> near (last rs) r = Some True \<Longrightarrow> linked (rs @ [r])"
  by (induction rs rule: linked.induct) auto

lemma gather_sound:
  assumes "gather device current joins n ts = Some es" and "current \<noteq> []" and "linked (map snd current)"
    and "length joins + 1 = length current" and "list_all (\<lambda>j. ej_gap j \<le> ej_bound j * SECOND) joins"
    and "\<And>t r. (t, r) \<in> set (current @ ts) \<Longrightarrow> stamp_of r = Some t"
  shows "concat (map ep_records es) = map snd (current @ ts) \<and> list_all episode_ok es \<and> separated es \<and>
    es \<noteq> [] \<and> hd (ep_records (hd es)) = snd (hd current) \<and> hd es \<in> set es"
  using assms
proof (induction device current joins n ts arbitrary: es rule: gather.induct)
  case (1 device current joins n)
  then show ?case by (auto simp: finish_episode_def Let_def episode_ok_def hd_map)
next
  case (2 device current joins n t r ts)
  let ?p = "last current"
  obtain gap where g: "seconds_between (fst ?p) t = Some gap" using "2.prems"(1,2) by (auto split: Option.bind_splits)
  have "?p \<in> set (current @ (t, r) # ts)" using "2.prems"(2) by simp
  then have st: "stamp_of (snd ?p) = Some (fst ?p)" using "2.prems"(6) [of "fst ?p" "snd ?p"] by simp
  have near: "near (snd ?p) r = Some (gap \<le> fst (pair_bound (snd ?p) r) * SECOND)"
    using "2.prems"(6) [of t r] st g by (simp add: near_measured)
  show ?case
  proof (cases "gap \<le> fst (pair_bound (snd ?p) r) * SECOND")
    case True
    with near "2.prems"(2,3) have "linked (map snd (current @ [(t, r)]))" by (simp add: linked_snoc last_map)
    then have "concat (map ep_records es) = map snd ((current @ [(t, r)]) @ ts) \<and> list_all episode_ok es \<and> separated es \<and>
        es \<noteq> [] \<and> hd (ep_records (hd es)) = snd (hd (current @ [(t, r)])) \<and> hd es \<in> set es"
      using "2.prems" g True by (intro "2.IH"(2) [of gap]) (auto simp: join_of_def)
    with "2.prems"(2) show ?thesis by simp
  next
    case False
    then obtain fs where fs: "gather device [(t, r)] [] (Suc n) ts = Some fs" "es = finish_episode current joins device n # fs"
      using "2.prems"(1,2) g by (auto split: Option.bind_splits)
    have ih: "concat (map ep_records fs) = map snd ([(t, r)] @ ts) \<and> list_all episode_ok fs \<and> separated fs \<and>
        fs \<noteq> [] \<and> hd (ep_records (hd fs)) = snd (hd [(t, r)]) \<and> hd fs \<in> set fs"
      using "2.prems" g False fs(1) by (intro "2.IH"(3) [of gap]) auto
    then obtain f gs where f: "fs = f # gs" by (cases fs) auto
    have "episode_ok (finish_episode current joins device n)"
      using "2.prems" by (simp add: finish_episode_def Let_def episode_ok_def)
    moreover have "near (last (ep_records (finish_episode current joins device n))) (hd (ep_records f)) = Some False"
      using near False ih "2.prems"(2) f by (simp add: finish_episode_def Let_def last_map)
    ultimately show ?thesis using ih f fs(2) "2.prems"(2) by (simp add: finish_episode_def Let_def hd_map)
  qed
qed

text \<open>C15: Episodes split the dated records, in calendar order, without loss: their records strung together are the
  dated ones, every adjacent pair inside an episode lies within the bound of its own protocols, the pair
  across two episodes does not, and the rest is counted as unordered.\<close>

theorem episodes_partition_the_window:
  assumes "build_episodes rs device cov = Some es"
  shows "concat (map ep_records (es_episodes es)) = map snd (timed rs) \<and> list_all episode_ok (es_episodes es) \<and>
    separated (es_episodes es) \<and> sum_list (map (\<lambda>e. length (ep_records e)) (es_episodes es)) + es_unordered es = es_considered es"
proof -
  obtain eps where eps: "gather device [] [] 1 (timed rs) = Some eps" "es_episodes es = eps" "es_unordered es = untimed rs" "es_considered es = length rs"
    using assms by (auto simp: build_episodes_def split: Option.bind_splits)
  have main: "concat (map ep_records eps) = map snd (timed rs) \<and> list_all episode_ok eps \<and> separated eps"
  proof (cases "timed rs")
    case Nil
    with eps(1) show ?thesis by simp
  next
    case (Cons p ts)
    obtain t r where p: "p = (t, r)" by fastforce
    have st: "stamp_of q = Some u" if "(u, q) \<in> set ([(t, r)] @ ts)" for u q
      using that set_timed [of rs] Cons p by auto
    from gather_sound [of device "[(t, r)]" "[]" 1 ts eps] st eps(1) Cons p show ?thesis by simp
  qed
  moreover have "sum_list (map (\<lambda>e. length (ep_records e)) eps) = length (concat (map ep_records eps))" by (simp add: length_concat comp_def)
  ultimately show ?thesis using eps length_timed [of rs] by simp
qed

subsection \<open>Witnesses\<close>

definition log_record :: "string \<Rightarrow> string \<Rightarrow> dict" where
  "log_record stamp msg = [(''facility'', JStr ''ROUTING-BGP''), (''timestamp'', JStr stamp),
     (''mnemonic'', JStr ''ROUTING-BGP-5-ADJCHANGE''), (''text'', JStr msg)]"

definition new_year_log :: "dict list" where
  "new_year_log = [log_record ''Dec 31 23:59:59.500 UTC'' ''neighbor 10.255.0.12 Down'', log_record ''Jan 1 00:00:00.500 UTC'' ''neighbor 10.255.0.12 Up'']"

definition flap_log :: "dict list" where
  "flap_log = [log_record ''Aug 16 07:41:00.000 UTC'' ''a'', log_record ''Aug 16 07:41:30.000 UTC'' ''b'',
     log_record ''Aug 16 07:42:00.000 UTC'' ''c'', log_record ''Aug 16 07:47:01.000 UTC'' ''d'', log_record ''unknown'' ''e'']"

definition flap_aggregate :: mnemonic_aggregate where
  "flap_aggregate = \<lparr>ma_mnemonic = ''ROUTING-BGP-5-ADJCHANGE'', ma_count = 5, ma_first_seen = ''Aug 16 07:41:00.000 UTC'',
     ma_last_seen = ''Aug 16 07:47:01.000 UTC'', ma_sample = ''d'', ma_window = Some (361 * SECOND), ma_rate = Some (4, 361 * SECOND),
     ma_max_rate = Some 3, ma_bursts = Some 1, ma_untimed = 1\<rparr>"


lemma flap_mine: "same_mnemonic ''ROUTING-BGP-5-ADJCHANGE'' flap_log = flap_log"
  by code_simp

theorem aggregates_witness:
  "length (offsets_of flap_log) = 4 \<and> (\<exists>j < 4. rate_at (map total_seconds (offsets_of flap_log)) j = 3) \<and>
   (\<forall>t. in_window 59999 t (offsets_of flap_log) \<le> 3) \<and> (\<exists>t. 3 \<le> in_window 60000 t (offsets_of flap_log))"
proof -
  have agg: "aggregate_by_mnemonic flap_log = Some [flap_aggregate]" by code_simp
  have four: "length (offsets_of flap_log) = 4" by code_simp
  from aggregates_count_and_peak [OF agg, of flap_aggregate] four show ?thesis
    by (simp add: Let_def flap_aggregate_def flap_mine)
qed

theorem new_year_witness:
  "\<exists>s. seconds_between (12, 31, 23, 59, 59, 500) (1, 1, 0, 0, 0, 500) = Some s \<and> s \<le> 62 * 86400 * SECOND"
proof -
  let ?r = "log_record ''Dec 31 23:59:59.500 UTC'' ''neighbor 10.255.0.12 Down''"
  let ?q = "log_record ''Jan 1 00:00:00.500 UTC'' ''neighbor 10.255.0.12 Up''"
  have "aggregate_by_mnemonic new_year_log \<noteq> None" by code_simp
  then obtain as where as: "aggregate_by_mnemonic new_year_log = Some as" by blast
  have "stamp_of ?r = Some (12, 31, 23, 59, 59, 500)" "stamp_of ?q = Some (1, 1, 0, 0, 0, 500)" "text_at ?r ''mnemonic'' = text_at ?q ''mnemonic''"
    by code_simp+
  with new_year_takes_ten_months [OF as, of ?r ?q] show ?thesis by (simp add: new_year_log_def)
qed

theorem episodes_witness:
  "\<exists>es. build_episodes flap_log ''PE2'' None = Some es \<and> separated (es_episodes es) \<and> length (es_episodes es) = 2 \<and>
     sum_list (map (\<lambda>e. length (ep_records e)) (es_episodes es)) + 1 = 5"
proof -
  have "(case build_episodes flap_log ''PE2'' None of Some es \<Rightarrow> length (es_episodes es) = 2 \<and> es_unordered es = 1 \<and> es_considered es = 5 | None \<Rightarrow> False)"
    by code_simp
  then obtain es where es: "build_episodes flap_log ''PE2'' None = Some es" "length (es_episodes es) = 2" "es_unordered es = 1" "es_considered es = 5"
    by (auto split: option.splits)
  from episodes_partition_the_window [OF es(1)] es show ?thesis by simp
qed

end
