(* ===== verification/Grounding.thy ===== *)
theory Grounding
  imports Investigation Log_Window
begin

section \<open>The gate between a model's prose and its reader\<close>

text \<open>
  Models \<open>grounding.py\<close>, and what \<open>investigate\<close> of
  \<open>investigation.py\<close> does with the verdict: citations, coverage of the chain, identifiers, the closed
  next step, invented causes, claims of absence and timelines.  A failure is its kind and its locus; the
  sentence explaining it is left out.  A report is any JSON value; \<open>None\<close> is the exception an
  unhashable reference raises.  Text is that of characters below 256, so the typographic apostrophe is
  left out, and the ellipsis behind a cut locus is a flag.
\<close>

subsection \<open>Verdicts\<close>

datatype failure_kind =
    MalformedReport | MalformedObservation | EmptyClaim | UncitedObservation | InventedEvidenceKey
  | MalformedInterpretation | UncitedInterpretation | DanglingReference
  | MalformedRecommendation | RecommendationNotFlagged | RecommendationNotClosed
  | UncitedRung | ChainLinkNotArgued | UncontainedIdentifier | UnsupportedCause | VerifiedNothing
  | UnbackedAbsenceClaim | AbsenceClaimExceedsCoverage
  | UncitedTimeline | MalformedTimelineEntry | InventedTimestamp | MnemonicMismatch

record failure =
  gf_kind :: failure_kind
  gf_locus :: string

definition fails :: "failure_kind \<Rightarrow> string \<Rightarrow> failure" where
  "fails k l = \<lparr>gf_kind = k, gf_locus = l\<rparr>"

record grounding =
  gr_failures :: "failure list"
  gr_observations :: nat
  gr_citations :: nat
  gr_covered :: nat
  gr_required :: nat
  gr_absence :: nat
  gr_timeline :: nat
  gr_identifiers :: nat
  gr_recommendations :: nat
  gr_invented :: nat

definition nothing :: grounding where
  "nothing = \<lparr>gr_failures = [], gr_observations = 0, gr_citations = 0, gr_covered = 0, gr_required = 0, gr_absence = 0,
     gr_timeline = 0, gr_identifiers = 0, gr_recommendations = 0, gr_invented = 0\<rparr>"

definition ok :: "grounding \<Rightarrow> bool" where
  "ok g \<longleftrightarrow> gr_failures g = []"

definition vacuous :: "grounding \<Rightarrow> bool" where
  "vacuous g \<longleftrightarrow> ok g \<and> gr_observations g = 0 \<and> gr_citations g = 0 \<and> gr_required g = 0 \<and> gr_absence g = 0 \<and>
     gr_timeline g = 0 \<and> gr_identifiers g = 0 \<and> gr_recommendations g = 0 \<and> gr_invented g = 0"

definition merge :: "grounding \<Rightarrow> grounding \<Rightarrow> grounding" where
  "merge g h = \<lparr>gr_failures = gr_failures g @ gr_failures h, gr_observations = gr_observations g + gr_observations h,
     gr_citations = gr_citations g + gr_citations h, gr_covered = gr_covered g + gr_covered h,
     gr_required = gr_required g + gr_required h, gr_absence = gr_absence g + gr_absence h,
     gr_timeline = gr_timeline g + gr_timeline h, gr_identifiers = gr_identifiers g + gr_identifiers h,
     gr_recommendations = gr_recommendations g + gr_recommendations h, gr_invented = gr_invented g + gr_invented h\<rparr>"

text \<open>Maximal runs of characters outside \<open>p\<close>; with \<open>py_isspace\<close> this is \<open>str.split\<close>.\<close>

fun split_where :: "(char \<Rightarrow> bool) \<Rightarrow> string \<Rightarrow> string list" where
  "split_where p [] = [[]]"
| "split_where p (c # cs) = (if p c then [] # split_where p cs
     else case split_where p cs of w # ws \<Rightarrow> (c # w) # ws | [] \<Rightarrow> [[c]])"

definition pieces :: "(char \<Rightarrow> bool) \<Rightarrow> string \<Rightarrow> string list" where
  "pieces p s = filter (\<lambda>w. w \<noteq> []) (split_where p s)"

definition flat :: "string \<Rightarrow> string" where
  "flat s = py_join '' '' (pieces py_isspace s)"

definition MAX_LOCUS_LENGTH :: nat where
  "MAX_LOCUS_LENGTH = 120"

text \<open>The text and whether an ellipsis follows it.\<close>

definition locus :: "string \<Rightarrow> string \<times> bool" where
  "locus s = (if length (flat s) > MAX_LOCUS_LENGTH then (take (MAX_LOCUS_LENGTH - 1) (flat s), True) else (flat s, False))"

definition observation_label :: "nat \<Rightarrow> string" where
  "observation_label i = ''obs-'' @ show_nat i"

definition observation_labels :: "nat \<Rightarrow> string list" where
  "observation_labels n = map observation_label [1..<Suc n]"

definition descent_evidence_keys :: "descent_result \<Rightarrow> string list" where
  "descent_evidence_keys d = dr_evidence_keys d @ concat (map (\<lambda>x. cr_evidence_keys (ro_result x)) (dr_outcomes d))"

subsection \<open>Identifiers\<close>

definition SLASH :: rx where
  "SLASH = rx_seq [lit ''/'', between 1 2 is_digit]"

definition ipv4_addresses :: "string \<Rightarrow> string list" where
  "ipv4_addresses = find_words (\<lambda>s. [a @ b. (a, r) \<leftarrow> QUAD s, (b, r') \<leftarrow> SLASH r @ [([], r)], ends_word r']) 0 False"

definition is_head_char :: "char \<Rightarrow> bool" where
  "is_head_char c \<longleftrightarrow> is_letter c \<or> c = CHR ''-''"

definition is_port :: "string \<Rightarrow> bool" where
  "is_port s \<longleftrightarrow> list_all (\<lambda>p. p \<noteq> [] \<and> list_all is_digit p) (split_where (\<lambda>c. c = CHR ''/'' \<or> c = CHR ''.'') s)"

text \<open>\<open>_IFACE.fullmatch\<close>: a head of letters and hyphens can end only where the digits begin.\<close>

definition iface_fullmatch :: "string \<Rightarrow> (string \<times> string) option" where
  "iface_fullmatch s = (let head = takeWhile is_head_char s; port = dropWhile is_head_char s
     in if head \<noteq> [] \<and> is_letter (hd head) \<and> length head \<le> 21 \<and> is_port port then Some (head, port) else None)"

definition is_trailing :: "char \<Rightarrow> bool" where
  "is_trailing c \<longleftrightarrow> c \<in> set ''.,;:!?)]''"

definition is_tail :: "string \<Rightarrow> bool" where
  "is_tail s \<longleftrightarrow> list_all is_trailing s \<or> (starts_with [CHR 0x27, CHR ''s''] s \<and> list_all is_trailing (drop 2 s)) \<or>
     (starts_with [CHR 0x27] s \<and> list_all is_trailing (drop 1 s))"

fun trim_tail :: "string \<Rightarrow> string" where
  "trim_tail [] = []"
| "trim_tail (c # cs) = (if is_tail (c # cs) then [] else c # trim_tail cs)"

definition clean_token :: "string \<Rightarrow> string" where
  "clean_token token = py_strip (trim_tail (dropWhile (\<lambda>c. c \<in> set ''(['') (py_strip token)))"

definition longest_first :: "(string \<times> string) list" where
  "longest_first = sort_key (\<lambda>e. - int (length (fst e))) expansions_lower"

text \<open>The sorted table, computed once for evaluation.\<close>

lemma longest_first_table [code]:
  "longest_first = [(''gigabitethernet'', ''gigabitethernet''), (''fourhundredgige'', ''fourhundredgige''),
     (''twentyfivegige'', ''twentyfivegige''), (''bundle-ether'', ''bundle-ether''), (''hundredgige'', ''hundredgige''),
     (''fortygige'', ''fortygige''), (''tunnel-ip'', ''tunnel-ip''), (''tunnel-te'', ''tunnel-te''), (''loopback'', ''loopback''),
     (''tengige'', ''tengige''), (''mgmteth'', ''mgmteth''), (''mgmt'', ''mgmteth''), (''null'', ''null''), (''twe'', ''twentyfivegige''),
     (''bvi'', ''bvi''), (''gi'', ''gigabitethernet''), (''te'', ''tengige''), (''fo'', ''fortygige''), (''hu'', ''hundredgige''),
     (''fh'', ''fourhundredgige''), (''be'', ''bundle-ether''), (''lo'', ''loopback''), (''mg'', ''mgmteth''), (''nu'', ''null''),
     (''bv'', ''bvi''), (''ti'', ''tunnel-ip''), (''tt'', ''tunnel-te'')]"
  by code_simp

definition expansion_of :: "string \<Rightarrow> string option" where
  "expansion_of head = map_option snd (find (\<lambda>(short, long). head = short \<or> long = head) longest_first)"

definition canonical_clean :: "string \<Rightarrow> string" where
  "canonical_clean token = (case iface_fullmatch token of
     None \<Rightarrow> py_lower token
   | Some (head, port) \<Rightarrow> (case expansion_of (py_lower head) of Some long \<Rightarrow> long @ port | None \<Rightarrow> py_lower token))"

definition canonical_identifier :: "string \<Rightarrow> string" where
  "canonical_identifier token = canonical_clean (clean_token token)"

definition name_family :: "string \<Rightarrow> string option" where
  "name_family name = (let s = py_strip name; head = takeWhile is_letter s; digits = dropWhile is_letter s
     in if 1 \<le> length head \<and> length head \<le> 6 \<and> 1 \<le> length digits \<and> length digits \<le> 3 \<and> list_all is_digit digits
        then Some head else None)"

definition device_name_families :: "string list \<Rightarrow> string list" where
  "device_name_families names = concat (map (\<lambda>n. case name_family n of Some a \<Rightarrow> [a] | None \<Rightarrow> []) names)"

definition in_family :: "string list \<Rightarrow> string \<Rightarrow> bool" where
  "in_family families token \<longleftrightarrow> list_ex (\<lambda>a. let digits = drop (length a) token in
     py_lower (take (length a) token) = py_lower a \<and> 1 \<le> length digits \<and> length digits \<le> 3 \<and> list_all is_digit digits) families"

definition is_separator :: "char \<Rightarrow> bool" where
  "is_separator c \<longleftrightarrow> py_isspace c \<or> c \<in> set '',()[]''"

definition identifiers_of :: "string \<Rightarrow> string list" where
  "identifiers_of text = map canonical_identifier (filter (\<lambda>t. t \<noteq> []) (map clean_token
       (pieces (\<lambda>c. is_separator c \<or> c = CHR '':'') text))) @ map py_lower (ipv4_addresses text)"

definition outcome_texts :: "rung_outcome \<Rightarrow> string list" where
  "outcome_texts x = [ro_device x] @ (case cr_subject (ro_result x) of Some s \<Rightarrow> [s] | None \<Rightarrow> []) @
     (case cr_reason (ro_result x) of Some s \<Rightarrow> [s] | None \<Rightarrow> []) @ cr_evidence_keys (ro_result x)"

definition evidence_identifiers :: "descent_result \<Rightarrow> string list" where
  "evidence_identifiers d = concat (map identifiers_of ([dr_device d, dr_subject d] @
     (case dr_reason d of Some s \<Rightarrow> [s] | None \<Rightarrow> []) @ dr_evidence_keys d @ concat (map outcome_texts (dr_outcomes d))))"

definition numbered :: "(nat \<Rightarrow> string) \<Rightarrow> json list \<Rightarrow> (string \<times> json) list" where
  "numbered name vs = zip (map name [1..<Suc (length vs)]) vs"

definition claims_of :: "(nat \<Rightarrow> string) \<Rightarrow> json \<Rightarrow> (string \<times> string) list" where
  "claims_of name v = (case v of
     JList vs \<Rightarrow> concat (map (\<lambda>(l, x). case field x ''claim'' of JStr c \<Rightarrow> [(l, c)] | _ \<Rightarrow> []) (numbered name vs))
   | _ \<Rightarrow> [])"

definition report_prose :: "dict \<Rightarrow> (string \<times> string) list" where
  "report_prose r = claims_of observation_label (dict_get r ''observations'') @
     claims_of (\<lambda>i. ''interpretation-'' @ show_nat i) (dict_get r ''interpretations'') @
     (case field (dict_get r ''recommendation'') ''claim'' of JStr c \<Rightarrow> [(''recommendation'', c)] | _ \<Rightarrow> [])"

definition candidates :: "string list \<Rightarrow> string \<Rightarrow> string list" where
  "candidates families text = ipv4_addresses text @ filter (\<lambda>t. t \<noteq> [] \<and> (iface_fullmatch t \<noteq> None \<or> in_family families t))
     (map clean_token (pieces is_separator text))"

definition contained :: "string list \<Rightarrow> string \<Rightarrow> bool" where
  "contained known token \<longleftrightarrow> canonical_identifier token \<in> set known \<or> py_lower token \<in> set known"

definition check_identifier_containment :: "json \<Rightarrow> descent_result \<Rightarrow> grounding" where
  "check_identifier_containment report d = (case report of
     JDict r \<Rightarrow>
       (let known = evidence_identifiers d;
            families = device_name_families (dr_device d # map ro_device (dr_outcomes d));
            found = concat (map (\<lambda>(l, text). map (Pair l) (candidates families text)) (report_prose r))
        in nothing\<lparr>gr_failures := map (\<lambda>(l, _). fails UncontainedIdentifier l) (filter (\<lambda>(_, t). \<not> contained known t) found),
             gr_identifiers := length found\<rparr>)
   | _ \<Rightarrow> nothing)"

subsection \<open>The next step and invented causes\<close>

definition check_recommendation_closed :: "json \<Rightarrow> descent_result \<Rightarrow> grounding" where
  "check_recommendation_closed report d = (case field (field report ''recommendation'') ''next_check'' of
     JStr s \<Rightarrow>
       if py_strip s = [] then nothing
       else if locus s = locus (next_check_for (dr_finding d)) then nothing\<lparr>gr_recommendations := 1\<rparr>
       else nothing\<lparr>gr_recommendations := 1, gr_failures := [fails RecommendationNotClosed ''recommendation'']\<rparr>
   | _ \<Rightarrow> nothing)"

definition UNSUPPORTED_CAUSE_VOCABULARY :: "string list" where
  "UNSUPPORTED_CAUSE_VOCABULARY = [''application'', ''service running'', ''service is down'', ''configuration problem'', ''misconfigur'',
     ''firewall'', ''access list'', ''acl '', ''security polic'', ''software bug'', ''software issue'', ''hardware failure'',
     ''process crash'', ''memory leak'', ''cpu utilization'', ''authentication issue'', ''certificate expir'']"

definition proposes_cause :: "string \<Rightarrow> bool" where
  "proposes_cause text \<longleftrightarrow> list_ex (\<lambda>p. contains p (py_lower text)) UNSUPPORTED_CAUSE_VOCABULARY"

definition check_no_invented_cause :: "json \<Rightarrow> descent_result \<Rightarrow> grounding" where
  "check_no_invented_cause report d = (case report of
     JDict r \<Rightarrow> if cause d \<noteq> None then nothing
       else nothing\<lparr>gr_failures := map (\<lambda>(l, _). fails UnsupportedCause l) (filter (\<lambda>(_, t). proposes_cause t) (report_prose r)),
              gr_invented := length (report_prose r)\<rparr>
   | _ \<Rightarrow> nothing)"

subsection \<open>Citations\<close>

definition sequence_of :: "json \<Rightarrow> string \<Rightarrow> failure + json list" where
  "sequence_of report key = (case report of
     JDict r \<Rightarrow> (case dict_get_or r key (JList []) of
         JNull \<Rightarrow> Inr [] | JList vs \<Rightarrow> Inr vs | _ \<Rightarrow> Inl (fails MalformedReport key))
   | _ \<Rightarrow> Inl (fails MalformedReport key))"

definition nonblank :: "json \<Rightarrow> bool" where
  "nonblank v \<longleftrightarrow> (case v of JStr s \<Rightarrow> py_strip s \<noteq> [] | _ \<Rightarrow> False)"

definition claim_failures :: "dict \<Rightarrow> string \<Rightarrow> failure list" where
  "claim_failures d l = (if nonblank (dict_get d ''claim'') then [] else [fails EmptyClaim l])"

text \<open>The failures of one observation and the citations it makes.\<close>

definition observation_verdict :: "string list \<Rightarrow> string \<times> json \<Rightarrow> failure list \<times> nat" where
  "observation_verdict keys = (\<lambda>(l, v). case v of
     JDict d \<Rightarrow> (case dict_get d ''evidence_key'' of
         JStr k \<Rightarrow> if py_strip k = [] then (claim_failures d l @ [fails UncitedObservation l], 0)
           else (claim_failures d l @ (if k \<in> set keys then [] else [fails InventedEvidenceKey l]), 1)
       | _ \<Rightarrow> (claim_failures d l @ [fails UncitedObservation l], 0))
   | _ \<Rightarrow> ([fails MalformedObservation l], 0))"

text \<open>\<open>reference in known\<close>: hashing a list or an object raises.\<close>

definition known_reference :: "string list \<Rightarrow> json \<Rightarrow> bool option" where
  "known_reference known v = (case v of
     JList _ \<Rightarrow> None | JDict _ \<Rightarrow> None | JStr s \<Rightarrow> Some (s \<in> set known) | _ \<Rightarrow> Some False)"

definition interpretation_verdict :: "string list \<Rightarrow> string \<times> json \<Rightarrow> (failure list \<times> nat) option" where
  "interpretation_verdict known = (\<lambda>(l, v). case v of
     JDict d \<Rightarrow> (case dict_get d ''based_on'' of
         JList (r # rs) \<Rightarrow> do {
           bad \<leftarrow> filter_m (\<lambda>x. map_option Not (known_reference known x)) (r # rs);
           Some (claim_failures d l @ map (\<lambda>_. fails DanglingReference l) bad, length (r # rs))
         }
       | _ \<Rightarrow> Some (claim_failures d l @ [fails UncitedInterpretation l], 0))
   | _ \<Rightarrow> Some ([fails MalformedInterpretation l], 0))"

definition recommendation_failures :: "json \<Rightarrow> failure list" where
  "recommendation_failures v = (case v of
     JNull \<Rightarrow> []
   | JDict d \<Rightarrow> if dict_get d ''requires_human'' = JBool True then [] else [fails RecommendationNotFlagged ''recommendation'']
   | _ \<Rightarrow> [fails MalformedRecommendation ''recommendation''])"

definition check_grounding :: "json \<Rightarrow> string list \<Rightarrow> grounding option" where
  "check_grounding report keys = (case sequence_of report ''observations'' of
     Inl bad \<Rightarrow> Some (nothing\<lparr>gr_failures := [bad]\<rparr>)
   | Inr observed \<Rightarrow> (case sequence_of report ''interpretations'' of
       Inl bad \<Rightarrow> Some (nothing\<lparr>gr_failures := [bad]\<rparr>)
     | Inr argued \<Rightarrow> do {
         let xs = map (observation_verdict keys) (numbered observation_label observed);
         ys \<leftarrow> map_m (interpretation_verdict (observation_labels (length observed))) (numbered (\<lambda>i. ''interp-'' @ show_nat i) argued);
         Some (nothing\<lparr>gr_failures := concat (map fst xs) @ concat (map fst ys) @ recommendation_failures (field report ''recommendation''),
           gr_observations := length observed, gr_citations := sum_list (map snd xs) + sum_list (map snd ys)\<rparr>)
       }))"

subsection \<open>Coverage of the chain\<close>

text \<open>The first observation that cites a key.\<close>

definition key_labels :: "json list \<Rightarrow> (string \<times> string) list" where
  "key_labels observed = concat (map (\<lambda>(l, v). case field v ''evidence_key'' of JStr k \<Rightarrow> [(k, l)] | _ \<Rightarrow> [])
     (numbered observation_label observed))"

definition rung_hit :: "(string \<times> string) list \<Rightarrow> rung_outcome \<Rightarrow> string option" where
  "rung_hit labels x = (case filter (\<lambda>k. map_of labels k \<noteq> None) (cr_evidence_keys (ro_result x)) of
     k # _ \<Rightarrow> map_of labels k | [] \<Rightarrow> None)"

definition required_outcomes :: "descent_result \<Rightarrow> rung_outcome list" where
  "required_outcomes d = filter (\<lambda>x. cr_evidence_keys (ro_result x) \<noteq> []) (dr_outcomes d)"

text \<open>\<open>rung_labels\<close>: a rung met twice keeps its last label.\<close>

definition rung_labels :: "(string \<times> string) list \<Rightarrow> descent_result \<Rightarrow> (string \<times> string) list" where
  "rung_labels labels d = rev (concat (map (\<lambda>x. case rung_hit labels x of Some l \<Rightarrow> [(ro_rung x, l)] | None \<Rightarrow> []) (required_outcomes d)))"

definition cited_labels :: "json list \<Rightarrow> string list" where
  "cited_labels argued = concat (map (\<lambda>v. case field v ''based_on'' of
     JList rs \<Rightarrow> concat (map (\<lambda>r. case r of JStr s \<Rightarrow> [s] | _ \<Rightarrow> []) rs) | _ \<Rightarrow> []) argued)"

definition rung_locus :: "rung_outcome \<Rightarrow> string" where
  "rung_locus x = ''rung:'' @ ro_rung x"

definition chain_of :: "descent_result \<Rightarrow> rung_outcome list" where
  "chain_of d = causal_chain d @ (case cause d of Some c \<Rightarrow> [c] | None \<Rightarrow> [])"

definition check_chain_coverage :: "json \<Rightarrow> descent_result \<Rightarrow> grounding" where
  "check_chain_coverage report d = (case sequence_of report ''observations'' of
     Inl bad \<Rightarrow> nothing\<lparr>gr_failures := [bad]\<rparr>
   | Inr observed \<Rightarrow>
       (let argued = (case sequence_of report ''interpretations'' of Inr vs \<Rightarrow> vs | Inl _ \<Rightarrow> []);
            labels = key_labels observed; required = required_outcomes d;
            uncovered = filter (\<lambda>x. rung_hit labels x = None) required;
            unargued = filter (\<lambda>x. case map_of (rung_labels labels d) (ro_rung x) of
              Some l \<Rightarrow> l \<notin> set (cited_labels argued) | None \<Rightarrow> False) (chain_of d)
        in nothing\<lparr>gr_failures := map (\<lambda>x. fails UncitedRung (rung_locus x)) uncovered @
               map (\<lambda>x. fails ChainLinkNotArgued (rung_locus x)) unargued,
             gr_covered := length required - length uncovered, gr_required := length required\<rparr>))"

subsection \<open>The gates\<close>

datatype claim_part = Items string nat | Recommends | Found json

definition claims_present :: "json \<Rightarrow> claim_part list" where
  "claims_present payload = (case payload of
     JDict d \<Rightarrow> concat (map (\<lambda>k. case dict_get d k of JList (v # vs) \<Rightarrow> [Items k (length (v # vs))] | _ \<Rightarrow> [])
         [''observations'', ''interpretations'', ''timeline'']) @
       (if is_dict (dict_get d ''recommendation'') then [Recommends] else []) @
       (case dict_get d ''correlation'' of
          JDict c \<Rightarrow> (case map_of c ''found'' of Some v \<Rightarrow> [Found v] | None \<Rightarrow> [])
        | _ \<Rightarrow> [])
   | _ \<Rightarrow> [])"

definition refuse_unmeasured :: "grounding \<Rightarrow> json \<Rightarrow> string \<Rightarrow> grounding" where
  "refuse_unmeasured g payload l =
     (if \<not> vacuous g \<or> claims_present payload = [] then g
      else g\<lparr>gr_failures := gr_failures g @ [fails VerifiedNothing l], gr_identifiers := 0\<rparr>)"

definition ground_report :: "json \<Rightarrow> descent_result \<Rightarrow> grounding option" where
  "ground_report report d = do {
     g \<leftarrow> check_grounding report (descent_evidence_keys d);
     Some (refuse_unmeasured
       (merge (merge (merge (merge g (check_chain_coverage report d)) (check_identifier_containment report d))
         (check_recommendation_closed report d)) (check_no_invented_cause report d))
       report ''report'')
   }"

definition check_absence_coverage :: "json \<Rightarrow> coverage option \<Rightarrow> grounding" where
  "check_absence_coverage claim cov = (case claim of
     JDict d \<Rightarrow>
       if field (dict_get d ''correlation'') ''found'' \<noteq> JBool False then nothing
       else (case cov of
           None \<Rightarrow> nothing\<lparr>gr_failures := [fails UnbackedAbsenceClaim ''correlation.found''], gr_absence := 1\<rparr>
         | Some c \<Rightarrow>
             if gaps c = [] then nothing\<lparr>gr_absence := 1\<rparr>
             else nothing\<lparr>gr_failures := [fails AbsenceClaimExceedsCoverage (''correlation.found via '' @ fst (locus (cv_source c)))],
               gr_absence := 1\<rparr>)
   | _ \<Rightarrow> nothing\<lparr>gr_failures := [fails MalformedReport ''correlation'']\<rparr>)"

text \<open>The mnemonics of the window's records at a device timestamp; \<open>None\<close> when no record has it.\<close>

definition mnemonics_at :: "dict list \<Rightarrow> string \<Rightarrow> string list option" where
  "mnemonics_at rs at = (case filter (\<lambda>r. dict_get r ''timestamp'' = JStr at) rs of
     [] \<Rightarrow> None | r # ss \<Rightarrow> Some (map (\<lambda>q. py_str (dict_get_or q ''mnemonic'' (JStr []))) (r # ss)))"

definition entry_failures :: "dict list \<Rightarrow> string \<times> json \<Rightarrow> failure list" where
  "entry_failures rs = (\<lambda>(l, v). case v of
     JDict d \<Rightarrow> (case dict_get d ''at'' of
         JStr at \<Rightarrow> (case mnemonics_at rs at of
             None \<Rightarrow> [fails InventedTimestamp l]
           | Some ms \<Rightarrow> (case dict_get d ''mnemonic'' of
               JStr (c # cs) \<Rightarrow> if c # cs \<in> set ms then [] else [fails MnemonicMismatch l]
             | _ \<Rightarrow> []))
       | _ \<Rightarrow> [fails InventedTimestamp l])
   | _ \<Rightarrow> [fails MalformedTimelineEntry l])"

definition timeline_label :: "nat \<Rightarrow> string" where
  "timeline_label i = ''timeline['' @ show_nat i @ '']''"

definition check_timeline_citations :: "json \<Rightarrow> shaped_window option \<Rightarrow> grounding" where
  "check_timeline_citations claim w = (case claim of
     JDict d \<Rightarrow> (case dict_get d ''timeline'' of
         JNull \<Rightarrow> nothing
       | JList [] \<Rightarrow> nothing
       | JList vs \<Rightarrow> (case w of
           None \<Rightarrow> nothing\<lparr>gr_failures := [fails UncitedTimeline ''timeline''], gr_timeline := length vs\<rparr>
         | Some w \<Rightarrow> nothing\<lparr>gr_failures := concat (map (entry_failures (sw_records w)) (numbered timeline_label vs)),
             gr_timeline := length vs\<rparr>)
       | _ \<Rightarrow> nothing\<lparr>gr_failures := [fails MalformedReport ''timeline'']\<rparr>)
   | _ \<Rightarrow> nothing\<lparr>gr_failures := [fails MalformedReport ''correlation'']\<rparr>)"

definition ground_correlation :: "json \<Rightarrow> coverage option \<Rightarrow> shaped_window option \<Rightarrow> grounding" where
  "ground_correlation claim cov w =
     refuse_unmeasured (merge (check_absence_coverage claim cov) (check_timeline_citations claim w)) claim ''correlation''"

subsection \<open>What is emitted\<close>

text \<open>The paraphrases of a run with an analyst: what the payload carries of the decoded answer, and its status.\<close>

definition not_authoritative :: "json \<Rightarrow> json" where
  "not_authoritative v = (case v of JDict d \<Rightarrow> JDict (dict_set d ''authoritative'' (JBool False)) | _ \<Rightarrow> v)"

definition report_paraphrase :: "json \<Rightarrow> descent_result \<Rightarrow> (json option \<times> string) option" where
  "report_paraphrase decoded d = do {
     g \<leftarrow> ground_report decoded d;
     Some (if ok g then (Some (not_authoritative decoded), EMITTED) else (None, WITHHELD))
   }"

definition correlation_paraphrase :: "json \<Rightarrow> coverage option \<Rightarrow> shaped_window option \<Rightarrow> json option \<times> string" where
  "correlation_paraphrase decoded cov w =
     (let g = ground_correlation decoded cov w
      in if ok g then (Some (not_authoritative decoded), EMITTED)
         else if list_all (\<lambda>f. gf_kind f = AbsenceClaimExceedsCoverage) (gr_failures g)
         then (Some (not_authoritative decoded), COVERAGE_LIMITED)
         else (None, WITHHELD))"

section \<open>What an emitted report is worth\<close>

subsection \<open>Reading the verdicts back\<close>

lemma gr_failures_merge [simp]: "gr_failures (merge g h) = gr_failures g @ gr_failures h"
  by (simp add: merge_def)

lemma gr_failures_nothing [simp]: "gr_failures nothing = []"
  by (simp add: nothing_def)

lemma ok_refuse: "ok (refuse_unmeasured g p l) \<Longrightarrow> gr_failures g = []"
  by (auto simp: refuse_unmeasured_def ok_def split: if_splits)

lemma numbered_mem: "(l, v) \<in> set (numbered name vs) \<longleftrightarrow> (\<exists>i < length vs. l = name (Suc i) \<and> v = vs ! i)"
proof
  show "(l, v) \<in> set (numbered name vs) \<Longrightarrow> \<exists>i < length vs. l = name (Suc i) \<and> v = vs ! i"
    by (auto simp: numbered_def in_set_zip simp del: upt_Suc)
  assume "\<exists>i < length vs. l = name (Suc i) \<and> v = vs ! i"
  then obtain i where "i < length vs" "l = name (Suc i)" "v = vs ! i" by blast
  then show "(l, v) \<in> set (numbered name vs)"
    unfolding numbered_def in_set_zip by (intro exI [of _ i]) (simp del: upt_Suc)
qed

lemma labels_mem: "l \<in> set (observation_labels n) \<longleftrightarrow> (\<exists>i < n. l = observation_label (Suc i))"
  by (auto simp: observation_labels_def map_Suc_upt [symmetric] simp del: upt_Suc)

lemma filter_m_NilD: "filter_m p xs = Some [] \<Longrightarrow> x \<in> set xs \<Longrightarrow> p x = Some False"
  by (induction xs) (auto split: Option.bind_splits if_splits)

lemma map_m_mem: "map_m f xs = Some ys \<Longrightarrow> x \<in> set xs \<Longrightarrow> \<exists>y\<in>set ys. f x = Some y"
  by (induction xs arbitrary: ys) (auto split: Option.bind_splits)

text \<open>What the reader of an emitted report may rely on, observation by observation.\<close>

definition cites :: "json \<Rightarrow> string \<Rightarrow> bool" where
  "cites v k \<longleftrightarrow> field v ''evidence_key'' = JStr k"

definition supported_observation :: "string list \<Rightarrow> json \<Rightarrow> bool" where
  "supported_observation keys v \<longleftrightarrow> nonblank (field v ''claim'') \<and> list_ex (cites v) keys"

definition supported_interpretation :: "nat \<Rightarrow> json \<Rightarrow> bool" where
  "supported_interpretation n v \<longleftrightarrow> nonblank (field v ''claim'') \<and> (case field v ''based_on'' of
     JList (r # rs) \<Rightarrow> list_all (\<lambda>x. list_ex (\<lambda>l. x = JStr l) (observation_labels n)) (r # rs) | _ \<Rightarrow> False)"

definition reported :: "json list \<Rightarrow> rung_outcome \<Rightarrow> bool" where
  "reported observed x \<longleftrightarrow> list_ex (\<lambda>v. list_ex (cites v) (cr_evidence_keys (ro_result x))) observed"

text \<open>Some interpretation refers to an observation that cites a key of this rung.\<close>

definition argued_for :: "json list \<Rightarrow> json list \<Rightarrow> rung_outcome list \<Rightarrow> rung_outcome \<Rightarrow> bool" where
  "argued_for observed argued required x \<longleftrightarrow> list_ex (\<lambda>y. ro_rung y = ro_rung x \<and>
     list_ex (\<lambda>(l, v). l \<in> set (cited_labels argued) \<and> list_ex (cites v) (cr_evidence_keys (ro_result y)))
       (numbered observation_label observed)) required"

definition agrees_with :: "string \<Rightarrow> string \<Rightarrow> bool" where
  "agrees_with s a \<longleftrightarrow> flat s = flat a \<or>
     (120 < length (flat s) \<and> 120 < length (flat a) \<and> take 119 (flat s) = take 119 (flat a))"

lemma observation_verdict_ok:
  assumes "fst (observation_verdict keys (l, v)) = []"
  shows "supported_observation keys v"
  using assms by (cases v) (auto simp: observation_verdict_def supported_observation_def claim_failures_def cites_def list_ex_iff
      split: json.splits if_splits)

lemma interpretation_verdict_ok:
  assumes "interpretation_verdict (observation_labels n) (l, v) = Some y" and "fst y = []"
  shows "supported_interpretation n v"
proof -
  obtain d where v: "v = JDict d" using assms by (cases v) (auto simp: interpretation_verdict_def)
  obtain r rs where b: "dict_get d ''based_on'' = JList (r # rs)"
    using assms unfolding v interpretation_verdict_def by (auto split: json.splits list.splits)
  from assms obtain bad where bad: "filter_m (\<lambda>x. map_option Not (known_reference (observation_labels n) x)) (r # rs) = Some bad"
      "claim_failures d l = []" "bad = []"
    unfolding v interpretation_verdict_def by (auto simp: b simp del: filter_m.simps split: Option.bind_splits)
  have known: "list_ex (\<lambda>l. x = JStr l) (observation_labels n)" if "x \<in> set (r # rs)" for x
    using filter_m_NilD [OF bad(1) [unfolded bad(3)] that] by (auto simp: known_reference_def list_ex_iff split: json.splits)
  then show ?thesis using bad(2) b v by (auto simp: supported_interpretation_def claim_failures_def list_all_iff split: if_splits)
qed

lemma check_grounding_ok:
  assumes "check_grounding report keys = Some g" and "gr_failures g = []"
  obtains r observed argued where "report = JDict r" "sequence_of report ''observations'' = Inr observed"
    "sequence_of report ''interpretations'' = Inr argued" "list_all (supported_observation keys) observed"
    "list_all (supported_interpretation (length observed)) argued" "recommendation_failures (field report ''recommendation'') = []"
proof -
  obtain observed where o1: "sequence_of report ''observations'' = Inr observed"
    using assms by (auto simp: check_grounding_def split: sum.splits)
  obtain argued where a1: "sequence_of report ''interpretations'' = Inr argued"
    using assms o1 by (auto simp: check_grounding_def split: sum.splits)
  obtain r where r: "report = JDict r" using o1 by (cases report) (auto simp: sequence_of_def)
  from assms o1 a1 obtain ys where ys: "map_m (interpretation_verdict (observation_labels (length observed))) (numbered (\<lambda>i. ''interp-'' @ show_nat i) argued) = Some ys"
    "concat (map fst (map (observation_verdict keys) (numbered observation_label observed))) = []" "concat (map fst ys) = []"
    "recommendation_failures (field report ''recommendation'') = []"
    by (auto simp: check_grounding_def split: Option.bind_splits)
  have "supported_observation keys v" if "v \<in> set observed" for v
  proof -
    from that obtain l where "(l, v) \<in> set (numbered observation_label observed)" unfolding numbered_mem by (metis in_set_conv_nth)
    with ys(2) have "fst (observation_verdict keys (l, v)) = []" by (auto simp: concat_eq_Nil_conv)
    then show ?thesis by (rule observation_verdict_ok)
  qed
  moreover have "supported_interpretation (length observed) v" if "v \<in> set argued" for v
  proof -
    from that obtain l where "(l, v) \<in> set (numbered (\<lambda>i. ''interp-'' @ show_nat i) argued)" unfolding numbered_mem by (metis in_set_conv_nth)
    from map_m_mem [OF ys(1) this] ys(3) show ?thesis by (auto intro: interpretation_verdict_ok simp: concat_eq_Nil_conv)
  qed
  ultimately show ?thesis using that [OF r o1 a1] ys(4) by (simp add: list_all_iff)
qed

lemma key_labels_mem:
  assumes "map_of (key_labels observed) k = Some l"
  shows "\<exists>v. (l, v) \<in> set (numbered observation_label observed) \<and> cites v k"
proof -
  from map_of_SomeD [OF assms] obtain v where "(l, v) \<in> set (numbered observation_label observed)"
      "(k, l) \<in> set (case field v ''evidence_key'' of JStr k \<Rightarrow> [(k, l)] | _ \<Rightarrow> [])"
    by (auto simp: key_labels_def)
  then show ?thesis by (auto simp: cites_def split: json.splits)
qed

lemma rung_hit_mem:
  assumes "rung_hit (key_labels observed) x = Some l"
  shows "\<exists>v. (l, v) \<in> set (numbered observation_label observed) \<and> list_ex (cites v) (cr_evidence_keys (ro_result x))"
proof -
  obtain k ks where k: "filter (\<lambda>k. map_of (key_labels observed) k \<noteq> None) (cr_evidence_keys (ro_result x)) = k # ks"
      "map_of (key_labels observed) k = Some l"
    using assms by (auto simp: rung_hit_def split: list.splits)
  then have "k \<in> set (cr_evidence_keys (ro_result x))" using list.set_intros(1) [of k ks] unfolding k(1) [symmetric] by simp
  with key_labels_mem [OF k(2)] show ?thesis by (auto simp: list_ex_iff)
qed

lemma check_chain_ok:
  assumes "gr_failures (check_chain_coverage report d) = []"
    and "sequence_of report ''observations'' = Inr observed" and "sequence_of report ''interpretations'' = Inr argued"
  shows "list_all (reported observed) (required_outcomes d)"
    and "list_all (argued_for observed argued (required_outcomes d)) (filter (\<lambda>x. cr_evidence_keys (ro_result x) \<noteq> []) (chain_of d))"
proof -
  let ?labels = "key_labels observed"
  from assms have covered: "rung_hit ?labels x \<noteq> None" if "x \<in> set (required_outcomes d)" for x
    using that by (auto simp: check_chain_coverage_def Let_def filter_empty_conv)
  from assms have argued: "l \<in> set (cited_labels argued)" if "x \<in> set (chain_of d)" "map_of (rung_labels ?labels d) (ro_rung x) = Some l" for x l
    using that by (auto simp: check_chain_coverage_def Let_def filter_empty_conv split: option.splits)
  show "list_all (reported observed) (required_outcomes d)"
    unfolding list_all_iff
  proof
    fix x assume "x \<in> set (required_outcomes d)"
    then obtain l where "rung_hit ?labels x = Some l" using covered by blast
    from rung_hit_mem [OF this] show "reported observed x" by (auto simp: reported_def list_ex_iff numbered_mem)
  qed
  show "list_all (argued_for observed argued (required_outcomes d)) (filter (\<lambda>x. cr_evidence_keys (ro_result x) \<noteq> []) (chain_of d))"
    unfolding list_all_iff
  proof
    fix x assume x: "x \<in> set (filter (\<lambda>x. cr_evidence_keys (ro_result x) \<noteq> []) (chain_of d))"
    have "x \<in> set (dr_outcomes d)"
      using x by (auto simp: chain_of_def causal_chain_def cause_def broken_outcomes_def Let_def split: if_splits dest!: in_set_butlastD)
        (metis (no_types, lifting) filter_is_subset last_in_set subsetD)
    with x have "x \<in> set (required_outcomes d)" by (simp add: required_outcomes_def)
    moreover from covered [OF this] have "ro_rung x \<in> fst ` set (rung_labels ?labels d)"
      using \<open>x \<in> set (required_outcomes d)\<close> by (force simp: rung_labels_def)
    then obtain l where l: "map_of (rung_labels ?labels d) (ro_rung x) = Some l" by (metis map_of_eq_None_iff option.exhaust)
    from map_of_SomeD [OF l] obtain y where y: "y \<in> set (required_outcomes d)" "rung_hit ?labels y = Some l" "ro_rung y = ro_rung x"
      by (auto simp: rung_labels_def split: option.splits)
    with rung_hit_mem [OF y(2)] argued [OF _ l] x show "argued_for observed argued (required_outcomes d) x"
      by (fastforce simp: argued_for_def list_ex_iff)
  qed
qed

lemma locus_eq: "locus s = locus a \<longleftrightarrow> agrees_with s a"
  by (auto simp: locus_def agrees_with_def MAX_LOCUS_LENGTH_def)


text \<open>The closed field compares 119 characters.  A next step passes exactly when it is blank, equals the
  descent's own once white space is collapsed, or shares its first 119 characters when both are longer
  than 120; what follows those is not read.\<close>

theorem closed_field_reads_119_characters:
  "ok (check_recommendation_closed report d) \<longleftrightarrow> (case field (field report ''recommendation'') ''next_check'' of
     JStr s \<Rightarrow> py_strip s = [] \<or> flat s = flat (next_check_for (dr_finding d)) \<or>
       (120 < length (flat s) \<and> 120 < length (flat (next_check_for (dr_finding d))) \<and>
        take 119 (flat s) = take 119 (flat (next_check_for (dr_finding d))))
   | _ \<Rightarrow> True)"
  by (auto simp: check_recommendation_closed_def ok_def locus_eq agrees_with_def split: json.split)

subsection \<open>The report of the code itself\<close>

lemma mem_dropWhile: "c \<in> set s \<Longrightarrow> \<not> p c \<Longrightarrow> c \<in> set (dropWhile p s)"
  by (induction s) auto

lemma strip_mem:
  assumes "c \<in> set s" and "\<not> py_isspace c"
  shows "py_strip s \<noteq> []"
  using mem_dropWhile [of c s py_isspace] mem_dropWhile [of c "rev (dropWhile py_isspace s)" py_isspace] assms by (auto simp: py_strip_def)

definition own_cited :: "rung_outcome \<Rightarrow> bool" where
  "own_cited x \<longleftrightarrow> (case cr_evidence_keys (ro_result x) of k # _ \<Rightarrow> py_strip k \<noteq> [] | [] \<Rightarrow> False)"

lemma observations_length [simp]: "length (observations n len xs) = length xs"
  by (induction n len xs rule: observations.induct) auto

lemma own_observation:
  assumes "set (cr_evidence_keys (ro_result x)) \<subseteq> set keys"
  shows "fst (observation_verdict keys (l, hd (observations n len [x]))) = [] \<longleftrightarrow> own_cited x"
proof -
  have "nonblank (JStr (show_nat n @ ''/'' @ show_nat len @ '' '' @ ro_rung x @ '' on '' @ ro_device x @ '' is '' @ status_value (ro_status x) @ reason_suffix x))"
    unfolding nonblank_def json.case by (rule strip_mem [of "CHR ''/''"]) (simp, code_simp)
  with assms show ?thesis
    by (cases "cr_evidence_keys (ro_result x)") (auto simp: observation_verdict_def claim_failures_def own_cited_def first_key_def dict_get_or_def)
qed

lemma own_observations:
  "length ls = length xs \<Longrightarrow> (\<And>x. x \<in> set xs \<Longrightarrow> set (cr_evidence_keys (ro_result x)) \<subseteq> set keys) \<Longrightarrow>
    concat (map fst (map (observation_verdict keys) (zip ls (observations n len xs)))) = [] \<longleftrightarrow> list_all own_cited xs"
proof (induction xs arbitrary: ls n)
  case (Cons x xs)
  then obtain l ms where ls: "ls = l # ms" by (cases ls) auto
  with Cons.IH [of ms "Suc n"] Cons.prems own_observation [of x keys l n len] show ?case by simp
qed simp

lemma rung_index_range: "rung_index os r = Some n \<Longrightarrow> \<exists>i < length os. n = Suc i"
  by (auto simp: rung_index_def in_set_zip simp del: upt_Suc dest!: map_of_SomeD)

lemma rung_index_some:
  assumes "x \<in> set os"
  obtains n where "rung_index os (ro_rung x) = Some n"
proof -
  from assms obtain i where "i < length os" "x = os ! i" by (auto simp: in_set_conv_nth)
  then have "(ro_rung x, [1..<Suc (length os)] ! i) \<in> set (zip (map ro_rung os) [1..<Suc (length os)])"
    unfolding in_set_zip by (intro exI [of _ i]) (simp del: upt_Suc)
  then have "\<exists>n. rung_index os (ro_rung x) = Some n" unfolding rung_index_def by (intro weak_map_of_SomeI) (simp only: set_rev)
  then show ?thesis using that by blast
qed

definition resolves :: "rung_outcome list \<Rightarrow> json list \<Rightarrow> bool" where
  "resolves os rs \<longleftrightarrow> list_all (\<lambda>x. list_ex (\<lambda>l. x = JStr l) (observation_labels (length os))) rs"

lemma resolves_index:
  assumes "rung_index os r = Some n"
  shows "resolves os [JStr (''obs-'' @ show_nat n)]"
  using rung_index_range [OF assms] by (auto simp: resolves_def list_ex_iff labels_mem observation_label_def)

lemma resolves_concat: "(\<And>x. x \<in> set xss \<Longrightarrow> resolves os x) \<Longrightarrow> resolves os (concat xss)"
  by (auto simp: resolves_def list_all_iff)

lemma obs_of_resolves:
  assumes "set xs \<subseteq> set os"
  obtains rs where "obs_of os xs = JList rs" "resolves os rs" "rs = [] \<longleftrightarrow> xs = []"
proof (rule that)
  let ?rs = "concat (map (\<lambda>x. case rung_index os (ro_rung x) of Some n \<Rightarrow> [JStr (''obs-'' @ show_nat n)] | None \<Rightarrow> []) xs)"
  show "obs_of os xs = JList ?rs" by (simp add: obs_of_def)
  have "resolves os (case rung_index os (ro_rung x) of Some n \<Rightarrow> [JStr (''obs-'' @ show_nat n)] | None \<Rightarrow> [])" for x
    by (cases "rung_index os (ro_rung x)") (simp add: resolves_def, simp only: option.case resolves_index)
  then show "resolves os ?rs" by (intro resolves_concat) auto
  show "?rs = [] \<longleftrightarrow> xs = []" using assms by (cases xs) (auto split: option.split elim: rung_index_some)
qed

lemma all_obs_resolves:
  obtains rs where "all_obs os = JList rs" "resolves os rs" "rs = [] \<longleftrightarrow> os = []"
proof (rule that)
  let ?f = "\<lambda>r. JStr (''obs-'' @ show_nat (case rung_index os r of Some n \<Rightarrow> n | None \<Rightarrow> 0))"
  show "all_obs os = JList (map ?f (from_keys (map ro_rung os)))" by (simp add: all_obs_def)
  have "resolves os [?f r]" if "r \<in> set (map ro_rung os)" for r
  proof -
    from that obtain x where x: "x \<in> set os" "r = ro_rung x" by auto
    from rung_index_some [OF x(1)] obtain n where "rung_index os r = Some n" using x(2) by metis
    then show ?thesis using resolves_index [of os r n] by (simp only: option.case)
  qed
  then show "resolves os (map ?f (from_keys (map ro_rung os)))" by (simp add: resolves_def list_all_iff)
  show "map ?f (from_keys (map ro_rung os)) = [] \<longleftrightarrow> os = []" by simp
qed

lemma cause_members: "cause d = Some c \<Longrightarrow> set (causal_chain d @ [c]) \<subseteq> set (dr_outcomes d)"
  by (auto simp: cause_def causal_chain_def broken_outcomes_def Let_def split: if_splits dest!: in_set_butlastD)
    (metis (no_types, lifting) filter_is_subset last_in_set subsetD)

definition shaped :: "descent_result \<Rightarrow> json list \<Rightarrow> bool" where
  "shaped d js \<longleftrightarrow> js = [] \<or> (\<exists>c rs. js = [claim_based_on c (JList rs)] \<and> nonblank (JStr c) \<and> resolves (dr_outcomes d) rs \<and>
     (rs = [] \<longleftrightarrow> dr_outcomes d = [] \<or> (cause d = None \<and> dr_finding d = SUBJECT_NOT_FOUND)))"

lemma shapedI:
  assumes "b = JList rs" "resolves (dr_outcomes d) rs" "nonblank (JStr c)"
    and "rs = [] \<longleftrightarrow> dr_outcomes d = [] \<or> (cause d = None \<and> dr_finding d = SUBJECT_NOT_FOUND)"
  shows "shaped d [claim_based_on c b]"
  using assms unfolding shaped_def by blast

lemma advice_findings_differ:
  "NO_FAULT_ON_PATH \<noteq> SUBJECT_NOT_FOUND" "ALL_LAYERS_HEALTHY \<noteq> SUBJECT_NOT_FOUND" "UNDETERMINED \<noteq> SUBJECT_NOT_FOUND"
  "TEMPORALLY_INCOHERENT \<noteq> SUBJECT_NOT_FOUND"
  by code_simp+

lemma nonblank_char: "\<not> py_isspace c \<Longrightarrow> nonblank (JStr (c # s))"
  unfolding nonblank_def json.case by (rule strip_mem [of c]) simp_all

lemma visible: "\<not> py_isspace CHR ''T''" "\<not> py_isspace CHR ''E''" "\<not> py_isspace CHR ''N''" "\<not> py_isspace CHR ''o''"
  by code_simp+

lemma cause_claim_nonblank: "nonblank (JStr (cause_claim c chain))"
  unfolding cause_claim_def nonblank_def json.case by (rule strip_mem [of "CHR ''o''"]) (simp_all add: visible)

lemma interpretations_shaped: "shaped d (interpretations d)"
proof -
  let ?os = "dr_outcomes d" and ?f = "dr_finding d"
  let ?named = "cause d \<noteq> None \<and> ?f \<notin> {UNDETERMINED, NO_FAULT_ON_PATH, TEMPORALLY_INCOHERENT}"
  note differ = advice_findings_differ advice_findings_differ [symmetric]
  obtain all where all: "all_obs ?os = JList all" "resolves ?os all" "all = [] \<longleftrightarrow> ?os = []" by (rule all_obs_resolves)
  have "set (take 1 ?os @ broken_outcomes ?os) \<subseteq> set ?os" using set_take_subset [of 1 ?os] by (auto simp: broken_outcomes_def)
  then obtain off where off: "obs_of ?os (take 1 ?os @ broken_outcomes ?os) = JList off" "resolves ?os off"
    "off = [] \<longleftrightarrow> take 1 ?os @ broken_outcomes ?os = []" by (rule obs_of_resolves)
  have off': "off = [] \<longleftrightarrow> ?os = []" using off(3) by (cases ?os) (auto simp: broken_outcomes_def)
  consider (named) ?named | (path) "\<not> ?named" "?f = NO_FAULT_ON_PATH"
    | (healthy) "\<not> ?named" "?f \<noteq> NO_FAULT_ON_PATH" "?f = ALL_LAYERS_HEALTHY"
    | (unread) "\<not> ?named" "?f \<noteq> NO_FAULT_ON_PATH" "?f \<noteq> ALL_LAYERS_HEALTHY" "?f = UNDETERMINED"
    | (absent) "\<not> ?named" "?f \<noteq> NO_FAULT_ON_PATH" "?f \<noteq> ALL_LAYERS_HEALTHY" "?f \<noteq> UNDETERMINED" "?f = SUBJECT_NOT_FOUND"
    | (moved) "\<not> ?named" "?f \<noteq> NO_FAULT_ON_PATH" "?f \<noteq> ALL_LAYERS_HEALTHY" "?f \<noteq> UNDETERMINED" "?f \<noteq> SUBJECT_NOT_FOUND" "?f = TEMPORALLY_INCOHERENT"
    | (none) "\<not> ?named" "?f \<noteq> NO_FAULT_ON_PATH" "?f \<noteq> ALL_LAYERS_HEALTHY" "?f \<noteq> UNDETERMINED" "?f \<noteq> SUBJECT_NOT_FOUND" "?f \<noteq> TEMPORALLY_INCOHERENT"
    by argo
  then show ?thesis
  proof cases
    case named
    then obtain c where c: "cause d = Some c" by blast
    obtain rs where rs: "obs_of ?os (causal_chain d @ [c]) = JList rs" "resolves ?os rs" "rs = [] \<longleftrightarrow> causal_chain d @ [c] = []"
      by (rule obs_of_resolves [OF cause_members [OF c]])
    show ?thesis unfolding interpretations_def Let_def if_P [OF named] unfolding c option.sel
      by (rule shapedI [OF rs(1,2) cause_claim_nonblank]) (use rs(3) cause_members [OF c] c in auto)
  next
    case path
    show ?thesis unfolding interpretations_def Let_def if_not_P [OF path(1)] if_P [OF path(2)]
      by (rule shapedI [OF off(1,2)]) (simp add: nonblank_char visible, use off' path(2) differ in simp)
  next
    case healthy
    show ?thesis unfolding interpretations_def Let_def if_not_P [OF healthy(1)] if_not_P [OF healthy(2)] if_P [OF healthy(3)]
      by (rule shapedI [OF all(1,2)]) (simp add: nonblank_char visible, use all(3) healthy(3) differ in simp)
  next
    case unread
    show ?thesis unfolding interpretations_def Let_def if_not_P [OF unread(1)] if_not_P [OF unread(2)] if_not_P [OF unread(3)] if_P [OF unread(4)]
      by (rule shapedI [OF all(1,2)]) (simp add: nonblank_char visible, use all(3) unread(4) differ in simp)
  next
    case absent
    have "cause d = None" using absent(1,2,4,5) differ by auto
    then show ?thesis
      unfolding interpretations_def Let_def if_not_P [OF absent(1)] if_not_P [OF absent(2)] if_not_P [OF absent(3)] if_not_P [OF absent(4)] if_P [OF absent(5)]
      by (intro shapedI [OF refl]) (simp_all add: resolves_def nonblank_char visible absent(5))
  next
    case moved
    show ?thesis
      unfolding interpretations_def Let_def if_not_P [OF moved(1)] if_not_P [OF moved(2)] if_not_P [OF moved(3)] if_not_P [OF moved(4)]
        if_not_P [OF moved(5)] if_P [OF moved(6)]
      by (rule shapedI [OF all(1,2)]) (simp add: nonblank_char visible, use all(3) moved(6) differ in simp)
  next
    case none
    then have "interpretations d = []" by (simp add: interpretations_def Let_def)
    then show ?thesis by (simp add: shaped_def)
  qed
qed

lemma resolving_references: "resolves os rs \<Longrightarrow>
  filter_m (\<lambda>x. map_option Not (known_reference (observation_labels (length os)) x)) rs = Some []"
  by (induction rs) (auto simp: resolves_def list_ex_iff known_reference_def)

lemma own_interpretations:
  assumes "shaped d js"
  shows "\<exists>ys. map_m (interpretation_verdict (observation_labels (length (dr_outcomes d)))) (numbered name js) = Some ys \<and>
    (concat (map fst ys) = [] \<longleftrightarrow> js = [] \<or> \<not> (dr_outcomes d = [] \<or> (cause d = None \<and> dr_finding d = SUBJECT_NOT_FOUND)))"
proof (cases "js = []")
  case True
  then show ?thesis by (simp add: numbered_def)
next
  case False
  with assms obtain c rs where js: "js = [claim_based_on c (JList rs)]" "nonblank (JStr c)" "resolves (dr_outcomes d) rs"
    "rs = [] \<longleftrightarrow> dr_outcomes d = [] \<or> (cause d = None \<and> dr_finding d = SUBJECT_NOT_FOUND)" by (auto simp: shaped_def)
  have "\<exists>n. interpretation_verdict (observation_labels (length (dr_outcomes d))) (l, claim_based_on c (JList rs)) =
      Some (if rs = [] then [fails UncitedInterpretation l] else [], n)" for l
    using js(2) resolving_references [OF js(3)]
    by (cases rs) (simp_all add: interpretation_verdict_def claim_based_on_def dict_get_or_def claim_failures_def del: filter_m.simps)
  then obtain n where "interpretation_verdict (observation_labels (length (dr_outcomes d))) (name 1, claim_based_on c (JList rs)) =
      Some (if rs = [] then [fails UncitedInterpretation (name 1)] else [], n)" by blast
  then show ?thesis using js(4) by (simp add: js(1) numbered_def)
qed

text \<open>C7: The note beside the authoritative report says that grading it would always pass.  It passes citation
  integrity exactly when every outcome of the walk has a key that is not blank, and the report argues
  from at least one observation or not at all; so not for a subject that does not exist, nor for a walk
  that met a rung with nothing to cite.\<close>

theorem own_report_against_the_gate:
  "map_option ok (check_grounding (render_report d) (descent_evidence_keys d)) = Some
     (list_all own_cited (dr_outcomes d) \<and>
      (interpretations d = [] \<or> (dr_outcomes d \<noteq> [] \<and> \<not> (cause d = None \<and> dr_finding d = SUBJECT_NOT_FOUND))))"
proof -
  let ?os = "dr_outcomes d"
  have o1: "sequence_of (render_report d) ''observations'' = Inr (observations 1 (length ?os) ?os)"
    and a1: "sequence_of (render_report d) ''interpretations'' = Inr (interpretations d)"
    and r1: "recommendation_failures (field (render_report d) ''recommendation'') = []"
    by (simp_all add: render_report_def sequence_of_def dict_get_or_def recommendation_failures_def)
  obtain ys where ys: "map_m (interpretation_verdict (observation_labels (length ?os))) (numbered (\<lambda>i. ''interp-'' @ show_nat i) (interpretations d)) = Some ys"
    "concat (map fst ys) = [] \<longleftrightarrow> interpretations d = [] \<or> \<not> (?os = [] \<or> (cause d = None \<and> dr_finding d = SUBJECT_NOT_FOUND))"
    using own_interpretations [OF interpretations_shaped] by blast
  have xs: "concat (map fst (map (observation_verdict (descent_evidence_keys d)) (numbered observation_label (observations 1 (length ?os) ?os)))) = [] \<longleftrightarrow>
      list_all own_cited ?os"
    unfolding numbered_def observations_length by (rule own_observations) (auto simp: descent_evidence_keys_def simp del: upt_Suc)
  have "map_option ok (check_grounding (render_report d) (descent_evidence_keys d)) =
    Some (concat (map fst (map (observation_verdict (descent_evidence_keys d)) (numbered observation_label (observations 1 (length ?os) ?os)))) = [] \<and>
      concat (map fst ys) = [])"
    unfolding check_grounding_def o1 a1 sum.case observations_length ys(1) r1 by (simp add: ok_def Let_def del: map_map concat_eq_Nil_conv)
  then show ?thesis unfolding xs ys(2) by auto
qed

subsection \<open>Correlations\<close>

definition entry_in_window :: "dict list \<Rightarrow> json \<Rightarrow> bool" where
  "entry_in_window rs v \<longleftrightarrow> (case field v ''at'' of
     JStr at \<Rightarrow> list_ex (\<lambda>r. dict_get r ''timestamp'' = JStr at) rs \<and> (case field v ''mnemonic'' of
       JStr (c # cs) \<Rightarrow> list_ex (\<lambda>r. dict_get r ''timestamp'' = JStr at \<and> py_str (dict_get_or r ''mnemonic'' (JStr [])) = c # cs) rs
     | _ \<Rightarrow> True)
   | _ \<Rightarrow> False)"

lemma entry_ok:
  assumes "entry_failures rs (l, v) = []"
  shows "entry_in_window rs v"
proof -
  obtain d where v: "v = JDict d" using assms by (cases v) (auto simp: entry_failures_def)
  obtain at where at: "dict_get d ''at'' = JStr at" using assms unfolding v entry_failures_def by (auto split: json.splits)
  obtain r ss where m: "filter (\<lambda>r. dict_get r ''timestamp'' = JStr at) rs = r # ss"
    using assms unfolding v entry_failures_def by (auto simp: at mnemonics_at_def split: list.splits)
  have mem: "q \<in> set (r # ss) \<longleftrightarrow> q \<in> set rs \<and> dict_get q ''timestamp'' = JStr at" for q unfolding m [symmetric] by simp
  have "list_ex (\<lambda>r. dict_get r ''timestamp'' = JStr at) rs" using mem [of r] by (auto simp: list_ex_iff)
  moreover have "list_ex (\<lambda>r. dict_get r ''timestamp'' = JStr at \<and> py_str (dict_get_or r ''mnemonic'' (JStr [])) = c # cs) rs"
    if "dict_get d ''mnemonic'' = JStr (c # cs)" for c cs
  proof -
    have "c # cs \<in> (\<lambda>q. py_str (dict_get_or q ''mnemonic'' (JStr []))) ` set (r # ss)"
      using assms that unfolding v entry_failures_def by (auto simp: at mnemonics_at_def m split: if_splits)
    then show ?thesis using mem by (fastforce simp: list_ex_iff)
  qed
  ultimately show ?thesis unfolding entry_in_window_def v by (auto simp: at split: json.split list.split)
qed

lemma complete_coverage:
  assumes "coverage_from_logging parsed device = Some c" and "gaps c = []"
  shows "\<exists>meta. py_or (dict_get parsed ''meta'') (JDict []) = JDict meta \<and>
    (\<exists>level. dict_get meta ''buffer_level'' = JStr level \<and> py_lower (py_strip level) = ''debugging'') \<and>
    dict_get meta ''syslog_enabled'' \<noteq> JBool False \<and> cv_dropped_at_source c = 0 \<and> \<not> truncated c"
proof -
  obtain meta level where m: "py_or (dict_get parsed ''meta'') (JDict []) = JDict meta" "read_level (dict_get meta ''buffer_level'') = Some level"
      "cv_severity_available c = severities_at_or_below level"
      "cv_notes c = (if dict_get meta ''syslog_enabled'' = JBool False then [''syslog logging is disabled on this device''] else []) @
         (if truthy (dict_get meta ''buffer_level'') then [] else [''the source did not report its buffer level''])"
    using assms(1) by (auto simp: coverage_from_logging_def as_dict_def split: Option.bind_splits json.splits)
  from assms(2) have g: "severity_missing c = []" "\<not> truncated c" "cv_dropped_at_source c = 0" "cv_notes c = []"
    by (auto simp: gaps_def split: if_splits)
  have "7 \<in> set (severities_at_or_below level)"
    using g(1) m(3) by (auto simp: severity_missing_def ALL_SEVERITIES_def filter_empty_conv)
  then have "py_lower (py_strip level) = ''debugging''"
    by (auto simp: severities_at_or_below_def IOSXR_SEVERITY_LEVELS_def split: option.splits if_splits)
  moreover from m(2) this have "dict_get meta ''buffer_level'' = JStr level"
    by (auto simp: read_level_def py_lower_def split: if_splits json.splits)
  ultimately show ?thesis using m g by (auto split: if_splits)
qed

text \<open>C5: A correlation that is emitted at full strength is backed by the log it was made from: it denies related
  events only over a buffer the device keeps at debugging level, with nothing dropped and no records left
  unread, and each entry of its timeline quotes a time, and a mnemonic at that time, that the window has.\<close>

theorem emitted_correlations_are_backed:
  assumes "coverage_from_logging parsed device = Some c"
    and "correlation_paraphrase decoded (Some c) (Some w) = (Some shown, status)" and "status = EMITTED"
  shows "\<exists>r. decoded = JDict r \<and>
    (if field (dict_get r ''correlation'') ''found'' = JBool False
     then \<exists>meta level. py_or (dict_get parsed ''meta'') (JDict []) = JDict meta \<and> dict_get meta ''buffer_level'' = JStr level \<and>
       py_lower (py_strip level) = ''debugging'' \<and> dict_get meta ''syslog_enabled'' \<noteq> JBool False \<and>
       cv_dropped_at_source c = 0 \<and> \<not> truncated c
     else True) \<and>
    (case dict_get r ''timeline'' of JNull \<Rightarrow> True | JList vs \<Rightarrow> list_all (entry_in_window (sw_records w)) vs | _ \<Rightarrow> False)"
proof -
  have "EMITTED \<noteq> COVERAGE_LIMITED" "EMITTED \<noteq> WITHHELD" by code_simp+
  with assms(2,3) have "ok (ground_correlation decoded (Some c) (Some w))"
    by (auto simp: correlation_paraphrase_def Let_def split: if_splits)
  then have a: "gr_failures (check_absence_coverage decoded (Some c)) = []" and t: "gr_failures (check_timeline_citations decoded (Some w)) = []"
    using ok_refuse by (fastforce simp: ground_correlation_def)+
  obtain r where r: "decoded = JDict r" using a by (cases decoded) (auto simp: check_absence_coverage_def)
  have "field (dict_get r ''correlation'') ''found'' = JBool False \<Longrightarrow> gaps c = []"
    using a unfolding r check_absence_coverage_def by (auto split: if_splits)
  moreover have "case dict_get r ''timeline'' of JNull \<Rightarrow> True | JList vs \<Rightarrow> list_all (entry_in_window (sw_records w)) vs | _ \<Rightarrow> False"
  proof -
    have "entry_in_window (sw_records w) v" if "dict_get r ''timeline'' = JList vs" "v \<in> set vs" for v vs
    proof -
      from that(2) obtain l where "(l, v) \<in> set (numbered timeline_label vs)" unfolding numbered_mem by (metis in_set_conv_nth)
      moreover have "concat (map (entry_failures (sw_records w)) (numbered timeline_label vs)) = []"
        using t that unfolding r check_timeline_citations_def by (auto simp del: concat_eq_Nil_conv split: list.splits)
      ultimately show ?thesis by (intro entry_ok [of _ l]) auto
    qed
    then show ?thesis using t unfolding r check_timeline_citations_def by (auto simp: list_all_iff split: json.splits)
  qed
  ultimately show ?thesis using complete_coverage [OF assms(1)] r by (auto split: if_splits)
qed

subsection \<open>Witnesses\<close>

definition port_descent :: descent_result where
  "port_descent = \<lparr>dr_flow = ''interface'', dr_device = ''PE2'', dr_subject = ''Gi0/0/0/0'', dr_finding = ''interface_line_down'',
     dr_outcomes = [\<lparr>ro_rung = ''interface_line'', ro_device = ''PE2'', ro_result = \<lparr>cr_status = BROKEN, cr_reason = None,
       cr_subject = None, cr_evidence_keys = [''PE2:interfaces:Gi0/0/0/0''], cr_device_text = None\<rparr>\<rparr>],
     dr_evidence_keys = [], dr_reason = None, dr_coherence = None\<rparr>"

definition port_report :: json where
  "port_report = JDict [
     (''observations'', JList [JDict [(''claim'', JStr ''GigabitEthernet0/0/0/0 on PE2 is down.''), (''evidence_key'', JStr ''PE2:interfaces:Gi0/0/0/0'')]]),
     (''interpretations'', JList [JDict [(''claim'', JStr ''The port was shut, so nothing above it works.''), (''based_on'', JList [JStr ''obs-1''])]]),
     (''recommendation'', JDict [(''claim'', JStr ''Check the port.''), (''requires_human'', JBool True)])]"

lemma port_identifiers:
  "evidence_identifiers port_descent = [''pe2'', ''gigabitethernet0/0/0/0'', ''pe2'', ''pe2'', ''interfaces'', ''gigabitethernet0/0/0/0'']"
  by code_simp

lemma port_contained: "gr_failures (check_identifier_containment port_report port_descent) = []"
proof -
  have "device_name_families (dr_device port_descent # map ro_device (dr_outcomes port_descent)) = [''PE'', ''PE'']" by code_simp
  moreover have "report_prose (case port_report of JDict r \<Rightarrow> r) = [(''obs-1'', ''GigabitEthernet0/0/0/0 on PE2 is down.''),
      (''interpretation-1'', ''The port was shut, so nothing above it works.''), (''recommendation'', ''Check the port.'')]" by code_simp
  moreover have "candidates [''PE'', ''PE''] ''GigabitEthernet0/0/0/0 on PE2 is down.'' = [''GigabitEthernet0/0/0/0'', ''PE2'']"
    "candidates [''PE'', ''PE''] ''The port was shut, so nothing above it works.'' = []" "candidates [''PE'', ''PE''] ''Check the port.'' = []"
    by code_simp+
  moreover have "canonical_identifier ''GigabitEthernet0/0/0/0'' = ''gigabitethernet0/0/0/0''" "canonical_identifier ''PE2'' = ''pe2''" by code_simp+
  ultimately show ?thesis
    by (simp add: check_identifier_containment_def port_report_def port_identifiers contained_def)
qed


text \<open>An invented diagnosis behind the opening of the descent's own advice.\<close>

definition absent_descent :: descent_result where
  "absent_descent = port_descent\<lparr>dr_finding := SUBJECT_NOT_FOUND, dr_outcomes := []\<rparr>"

definition extended_advice :: string where
  "extended_advice = take 119 (next_check_for SUBJECT_NOT_FOUND) @ '' the firewall, replace the line card.''"

lemma extended_advice_passes:
  "ok (check_recommendation_closed (JDict [(''recommendation'', JDict [(''next_check'', JStr extended_advice)])]) absent_descent)"
  by code_simp

definition quiet_log :: dict where
  "quiet_log = [(''meta'', JDict [(''buffer_level'', JStr ''debugging''), (''buffer_messages_logged'', JStr ''5'')]),
     (''records'', JList (map JDict flap_log))]"

definition quiet_claim :: json where
  "quiet_claim = JDict [(''correlation'', JDict [(''found'', JBool False)]),
     (''timeline'', JList [JDict [(''at'', JStr ''Aug 16 07:41:30.000 UTC''), (''mnemonic'', JStr ''ROUTING-BGP-5-ADJCHANGE'')]])]"

theorem backed_witness:
  "\<exists>r. quiet_claim = JDict r \<and> (case dict_get r ''timeline'' of JNull \<Rightarrow> True
     | JList vs \<Rightarrow> list_all (entry_in_window (sw_records (shape_window flap_log None True None))) vs | _ \<Rightarrow> False)"
proof -
  have "(case coverage_from_logging quiet_log ''PE2'' of Some c \<Rightarrow>
      (case correlation_paraphrase quiet_claim (Some c) (Some (shape_window flap_log None True None)) of (Some _, s) \<Rightarrow> s = EMITTED | _ \<Rightarrow> False)
    | None \<Rightarrow> False)" by code_simp
  then obtain c shown s where c: "coverage_from_logging quiet_log ''PE2'' = Some c" "s = EMITTED"
      "correlation_paraphrase quiet_claim (Some c) (Some (shape_window flap_log None True None)) = (Some shown, s)"
    by (auto split: option.splits prod.splits)
  from emitted_correlations_are_backed [OF c(1,3,2)] show ?thesis by blast
qed

end
