(* ===== verification/Config_Diff.thy ===== *)
theory Config_Diff
  imports Neighbor_Checks
begin

section \<open>Configured intent against observed state\<close>

text \<open>
  Models \<open>config_diff.py\<close>: three fields of one interface, each compared between a section of the running
  configuration and a section of operational state, with the outcome that they cannot be compared kept
  apart from both answers.  \<open>None\<close> is an exception.  Gathering the sections from a device is left out.
\<close>

datatype diff_outcome = Agrees | Disagrees | CannotCompare

record field_diff =
  fd_field :: string
  fd_outcome :: diff_outcome
  fd_intent :: json
  fd_observed :: json
  fd_reason :: "string option"
  fd_intent_key :: "string option"
  fd_observed_key :: "string option"

text \<open>The constructor: an incomparable field must say why.\<close>

definition field_diff_of ::
  "string \<Rightarrow> diff_outcome \<Rightarrow> json \<Rightarrow> json \<Rightarrow> string option \<Rightarrow> string option \<Rightarrow> string option \<Rightarrow> field_diff option" where
  "field_diff_of name outcome intent observed reason intent_key observed_key =
     (if outcome = CannotCompare \<and> (reason = None \<or> reason = Some []) then None
      else Some \<lparr>fd_field = name, fd_outcome = outcome, fd_intent = intent, fd_observed = observed, fd_reason = reason,
        fd_intent_key = intent_key, fd_observed_key = observed_key\<rparr>)"

record reconciliation =
  rc_device :: string
  rc_subject :: string
  rc_fields :: "field_diff list"

definition disagreements :: "reconciliation \<Rightarrow> field_diff list" where
  "disagreements r = filter (\<lambda>f. fd_outcome f = Disagrees) (rc_fields r)"

definition incomparable :: "reconciliation \<Rightarrow> field_diff list" where
  "incomparable r = filter (\<lambda>f. fd_outcome f = CannotCompare) (rc_fields r)"

definition has_disagreement :: "reconciliation \<Rightarrow> bool" where
  "has_disagreement r \<longleftrightarrow> disagreements r \<noteq> []"

definition find_by_interface :: "json list \<Rightarrow> string \<Rightarrow> json option option" where
  "find_by_interface records name = find_interface ''interface'' name records"

definition section_meta :: "json \<Rightarrow> dict option" where
  "section_meta section = do {
     parsed \<leftarrow> json_get (py_or (field section ''data'') (JDict [])) ''parsed'';
     meta \<leftarrow> json_get (py_or parsed (JDict [])) ''meta'';
     Some (case meta of JDict m \<Rightarrow> m | _ \<Rightarrow> [])
   }"

text \<open>The sides that could not be read, each with the reason its section gives.\<close>

definition missing_sides :: "string \<Rightarrow> check_result + json \<Rightarrow> string \<Rightarrow> check_result + json \<Rightarrow> string list" where
  "missing_sides intent_key intent observed_key observed =
     (case intent of Inl b \<Rightarrow> [''intent ('' @ intent_key @ ''): '' @ bail_reason b] | Inr _ \<Rightarrow> []) @
     (case observed of Inl b \<Rightarrow> [''observed ('' @ observed_key @ ''): '' @ bail_reason b] | Inr _ \<Rightarrow> [])"

definition diff_isis_adjacency :: "dict \<Rightarrow> string \<Rightarrow> string \<Rightarrow> field_diff option" where
  "diff_isis_adjacency ev device name =
     (let ik = evidence_key device ''config_isis'' None; ok = evidence_key device ''isis'' (Some name)
      in do {
        config \<leftarrow> require_parsed ev ''config_isis'' (Some name);
        isis \<leftarrow> require_parsed ev ''isis'' (Some name);
        case (config, isis) of
          (Inr cs, Inr os) \<Rightarrow> do {
            configured \<leftarrow> do { rs \<leftarrow> parsed_records cs; find_by_interface rs name };
            neighbor \<leftarrow> do { rs \<leftarrow> parsed_records os; find_by_interface rs name };
            up \<leftarrow> (case neighbor of None \<Rightarrow> Some False | Some r \<Rightarrow> map_option (\<lambda>v. v = JStr ''Up'') (json_get r ''state''));
            let enabled = (configured \<noteq> None);
            if enabled = up then field_diff_of ''isis_adjacency'' Agrees (JBool enabled) (JBool up) None (Some ik) (Some ok)
            else field_diff_of ''isis_adjacency'' Disagrees (JBool enabled) (JBool up)
              (Some (device @ '':'' @ name @ (if enabled
                 then '' is enabled under the configured IS-IS process ('' @ [CHR 0x27] @ ''router isis'' @ [CHR 0x27] @
                   '' carries an interface stanza for it) but shows no Up adjacency in '' @ [CHR 0x27] @ ''show isis neighbors'' @ [CHR 0x27]
                 else '' shows an Up IS-IS adjacency in '' @ [CHR 0x27] @ ''show isis neighbors'' @ [CHR 0x27] @
                   '' but has no interface stanza under the configured IS-IS process''))) (Some ik) (Some ok)
          }
        | _ \<Rightarrow> field_diff_of ''isis_adjacency'' CannotCompare JNull JNull (Some (py_join ''; '' (missing_sides ik config ok isis))) (Some ik) (Some ok)
      })"

definition diff_interface_admin_state :: "dict \<Rightarrow> string \<Rightarrow> string \<Rightarrow> field_diff option" where
  "diff_interface_admin_state ev device name =
     (let ik = evidence_key device ''config_interface'' (Some name); ok = evidence_key device ''interfaces'' (Some name)
      in do {
        config \<leftarrow> require_parsed ev (template_key ''config_interface'' name) (Some name);
        shown \<leftarrow> require_parsed ev ''interfaces'' (Some name);
        case (config, shown) of
          (Inr cs, Inr os) \<Rightarrow> do {
            meta \<leftarrow> section_meta cs;
            let shutdown = truthy (dict_get meta ''shutdown'');
            hit \<leftarrow> do { rs \<leftarrow> parsed_records os; find_by_interface rs name };
            case hit of
              None \<Rightarrow> field_diff_of ''interface_admin_state'' CannotCompare (JBool shutdown) JNull
                (Some (''observed ('' @ ok @ ''): '' @ [CHR 0x27] @ ''interfaces'' @ [CHR 0x27] @ '' parsed, but has no record for '' @ repr_str name @
                  '' -- present in config but never reported by '' @ [CHR 0x27] @ ''show interfaces brief'' @ [CHR 0x27])) (Some ik) (Some ok)
            | Some r \<Rightarrow> do {
                state \<leftarrow> json_get r ''admin_state'';
                if (\<not> shutdown) = (state = JStr ''up'')
                then field_diff_of ''interface_admin_state'' Agrees (JBool shutdown) state None (Some ik) (Some ok)
                else field_diff_of ''interface_admin_state'' Disagrees (JBool shutdown) state
                  (Some (device @ '':'' @ name @ (if shutdown then '' carries a '' else '' carries no '') @ [CHR 0x27] @ ''shutdown'' @ [CHR 0x27] @
                    '' line in its configuration but '' @ [CHR 0x27] @ ''show interfaces brief'' @ [CHR 0x27] @ '' reports admin_state='' @
                    py_repr state @ (if shutdown then '', not administratively down'' else '', not up''))) (Some ik) (Some ok)
              }
          }
        | _ \<Rightarrow> field_diff_of ''interface_admin_state'' CannotCompare JNull JNull (Some (py_join ''; '' (missing_sides ik config ok shown))) (Some ik) (Some ok)
      })"

definition UNOBSERVED :: string where
  "UNOBSERVED = ''no observed intent in this build reports a per-interface IPv4 address -- '' @ [CHR 0x27] @ ''interfaces'' @ [CHR 0x27] @
     '' ('' @ [CHR 0x27] @ ''show interfaces brief'' @ [CHR 0x27] @ '') carries admin/line state, encapsulation, MTU and bandwidth only '' @
     ''(parsers.parse_xr_interfaces); there is nothing on the operational axis to compare this field against''"

definition diff_interface_ipv4_address :: "dict \<Rightarrow> string \<Rightarrow> string \<Rightarrow> field_diff option" where
  "diff_interface_ipv4_address ev device name =
     (let ik = evidence_key device ''config_interface'' (Some name)
      in do {
        config \<leftarrow> require_parsed ev (template_key ''config_interface'' name) (Some name);
        case config of
          Inl b \<Rightarrow> field_diff_of ''ipv4_address'' CannotCompare JNull JNull (Some (''intent ('' @ ik @ ''): '' @ bail_reason b)) (Some ik) None
        | Inr cs \<Rightarrow> do {
            meta \<leftarrow> section_meta cs;
            field_diff_of ''ipv4_address'' CannotCompare (dict_get meta ''ipv4_address'') JNull (Some UNOBSERVED) (Some ik) None
          }
      })"

definition reconcile_interface :: "dict \<Rightarrow> string \<Rightarrow> string \<Rightarrow> reconciliation option" where
  "reconcile_interface ev device name = do {
     a \<leftarrow> diff_isis_adjacency ev device name;
     b \<leftarrow> diff_interface_admin_state ev device name;
     c \<leftarrow> diff_interface_ipv4_address ev device name;
     Some \<lparr>rc_device = device, rc_subject = name, rc_fields = [a, b, c]\<rparr>
   }"

section \<open>What a disagreement means\<close>

text \<open>The first record of a section for an interface, in either spelling of its name.\<close>

definition own_record :: "dict \<Rightarrow> string \<Rightarrow> string \<Rightarrow> json option option" where
  "own_record ev key name = do { rs \<leftarrow> parsed_records (dict_get ev key); find_by_interface rs name }"

definition adjacency_up :: "json option \<Rightarrow> bool" where
  "adjacency_up r \<longleftrightarrow> (case r of None \<Rightarrow> False | Some v \<Rightarrow> json_get v ''state'' = Some (JStr ''Up''))"

definition admin_up :: "json \<Rightarrow> bool" where
  "admin_up r \<longleftrightarrow> json_get r ''admin_state'' = Some (JStr ''up'')"

definition configured_shutdown :: "dict \<Rightarrow> string \<Rightarrow> bool" where
  "configured_shutdown ev key \<longleftrightarrow> (case section_meta (dict_get ev key) of Some m \<Rightarrow> truthy (dict_get m ''shutdown'') | None \<Rightarrow> False)"

definition explained :: "field_diff \<Rightarrow> bool" where
  "explained f \<longleftrightarrow> (case fd_reason f of Some (c # cs) \<Rightarrow> True | _ \<Rightarrow> False)"

lemma field_diff_ofD: "field_diff_of n out i obs why ik ok = Some f \<Longrightarrow>
  fd_field f = n \<and> fd_outcome f = out \<and> (out \<noteq> CannotCompare \<or> explained f)"
  by (auto simp: field_diff_of_def explained_def neq_Nil_conv split: if_splits)

lemma require_cases:
  assumes "require_parsed ev key s = Some x"
  obtains b where "x = Inl b" "\<not> parsed_ok ev key" | "x = Inr (dict_get ev key)" "parsed_ok ev key"
  using assms by (cases x) (auto simp: require_parsed_Inr dest: require_parsed_Inl)

lemma isis_diff:
  assumes "diff_isis_adjacency ev device name = Some f"
  shows "fd_field f = ''isis_adjacency''"
    and "parsed_ok ev ''config_isis'' \<and> parsed_ok ev ''isis'' \<Longrightarrow> \<exists>c n. own_record ev ''config_isis'' name = Some c \<and> own_record ev ''isis'' name = Some n \<and>
       fd_outcome f = (if (c \<noteq> None) = adjacency_up n then Agrees else Disagrees)"
    and "\<not> (parsed_ok ev ''config_isis'' \<and> parsed_ok ev ''isis'') \<Longrightarrow> fd_outcome f = CannotCompare \<and> explained f"
proof -
  obtain x y where xy: "require_parsed ev ''config_isis'' (Some name) = Some x" "require_parsed ev ''isis'' (Some name) = Some y"
    using assms by (auto simp: diff_isis_adjacency_def Let_def split: Option.bind_splits)
  have "fd_field f = ''isis_adjacency'' \<and> (if parsed_ok ev ''config_isis'' \<and> parsed_ok ev ''isis''
    then \<exists>c n. own_record ev ''config_isis'' name = Some c \<and> own_record ev ''isis'' name = Some n \<and>
       fd_outcome f = (if (c \<noteq> None) = adjacency_up n then Agrees else Disagrees)
    else fd_outcome f = CannotCompare \<and> explained f)"
    using xy(1)
  proof (cases rule: require_cases)
    case 1
    with assms xy show ?thesis by (auto simp: diff_isis_adjacency_def Let_def dest!: field_diff_ofD)
  next
    case cs: 2
    from xy(2) show ?thesis
    proof (cases rule: require_cases)
      case 1
      with assms xy cs show ?thesis by (auto simp: diff_isis_adjacency_def Let_def dest!: field_diff_ofD)
    next
      case os: 2
      from assms obtain c n up where r: "own_record ev ''config_isis'' name = Some c" "own_record ev ''isis'' name = Some n"
        "(case n of None \<Rightarrow> Some False | Some r \<Rightarrow> map_option (\<lambda>v. v = JStr ''Up'') (json_get r ''state'')) = Some up"
        "fd_field f = ''isis_adjacency'' \<and> fd_outcome f = (if (c \<noteq> None) = up then Agrees else Disagrees)"
        unfolding diff_isis_adjacency_def Let_def xy cs(1) os(1) own_record_def
        by (auto split: Option.bind_splits if_splits dest!: field_diff_ofD)
      from r(3) have "up = adjacency_up n" by (auto simp: adjacency_up_def split: option.splits)
      with r(1,2,4) cs(2) os(2) show ?thesis by auto
    qed
  qed
  then show "fd_field f = ''isis_adjacency''"
    "parsed_ok ev ''config_isis'' \<and> parsed_ok ev ''isis'' \<Longrightarrow> \<exists>c n. own_record ev ''config_isis'' name = Some c \<and> own_record ev ''isis'' name = Some n \<and>
       fd_outcome f = (if (c \<noteq> None) = adjacency_up n then Agrees else Disagrees)"
    "\<not> (parsed_ok ev ''config_isis'' \<and> parsed_ok ev ''isis'') \<Longrightarrow> fd_outcome f = CannotCompare \<and> explained f" by (auto split: if_splits)
qed

lemma admin_diff:
  assumes "diff_interface_admin_state ev device name = Some f"
  defines "key \<equiv> template_key ''config_interface'' name"
  shows "fd_field f = ''interface_admin_state''"
    and "parsed_ok ev key \<and> parsed_ok ev ''interfaces'' \<Longrightarrow> \<exists>n. own_record ev ''interfaces'' name = Some n \<and>
       fd_outcome f = (case n of None \<Rightarrow> CannotCompare | Some r \<Rightarrow> if admin_up r = configured_shutdown ev key then Disagrees else Agrees) \<and>
       (fd_outcome f \<noteq> CannotCompare \<or> explained f)"
    and "\<not> (parsed_ok ev key \<and> parsed_ok ev ''interfaces'') \<Longrightarrow> fd_outcome f = CannotCompare \<and> explained f"
proof -
  obtain x y where xy: "require_parsed ev key (Some name) = Some x" "require_parsed ev ''interfaces'' (Some name) = Some y"
    using assms by (auto simp: diff_interface_admin_state_def Let_def split: Option.bind_splits)
  have "fd_field f = ''interface_admin_state'' \<and> (if parsed_ok ev key \<and> parsed_ok ev ''interfaces''
    then \<exists>n. own_record ev ''interfaces'' name = Some n \<and>
       fd_outcome f = (case n of None \<Rightarrow> CannotCompare | Some r \<Rightarrow> if admin_up r = configured_shutdown ev key then Disagrees else Agrees) \<and>
       (fd_outcome f \<noteq> CannotCompare \<or> explained f)
    else fd_outcome f = CannotCompare \<and> explained f)"
    using xy(1)
  proof (cases rule: require_cases)
    case 1
    with assms(1) xy show ?thesis unfolding key_def by (auto simp: diff_interface_admin_state_def Let_def dest!: field_diff_ofD)
  next
    case cs: 2
    from xy(2) show ?thesis
    proof (cases rule: require_cases)
      case 1
      with assms(1) xy cs show ?thesis unfolding key_def by (auto simp: diff_interface_admin_state_def Let_def dest!: field_diff_ofD)
    next
      case os: 2
      note body = assms(1) [unfolded diff_interface_admin_state_def Let_def xy [unfolded key_def] cs(1) [unfolded key_def] os(1)]
      from body obtain meta n where r: "section_meta (dict_get ev key) = Some meta" "own_record ev ''interfaces'' name = Some n"
        unfolding own_record_def key_def by (auto split: Option.bind_splits)
      have out: "case n of None \<Rightarrow> fd_field f = ''interface_admin_state'' \<and> fd_outcome f = CannotCompare \<and> explained f
          | Some r \<Rightarrow> \<exists>v. json_get r ''admin_state'' = Some v \<and> fd_field f = ''interface_admin_state'' \<and>
              fd_outcome f = (if (\<not> truthy (dict_get meta ''shutdown'')) = (v = JStr ''up'') then Agrees else Disagrees)"
      proof (cases n)
        case None
        with body r show ?thesis unfolding own_record_def key_def by (auto dest!: field_diff_ofD)
      next
        case (Some p)
        with body r obtain v where v: "json_get p ''admin_state'' = Some v" unfolding own_record_def key_def by (auto split: Option.bind_splits)
        show ?thesis
          using body r Some v unfolding own_record_def key_def
          by (cases "(\<not> truthy (dict_get meta ''shutdown'')) = (v = JStr ''up'')") (simp_all, (blast dest: field_diff_ofD)+)
      qed
      have "configured_shutdown ev key = truthy (dict_get meta ''shutdown'')" by (simp add: configured_shutdown_def r(1))
      with r(2) out cs(2) os(2) show ?thesis by (auto simp: admin_up_def split: option.splits)
    qed
  qed
  then show "fd_field f = ''interface_admin_state''"
    "parsed_ok ev key \<and> parsed_ok ev ''interfaces'' \<Longrightarrow> \<exists>n. own_record ev ''interfaces'' name = Some n \<and>
       fd_outcome f = (case n of None \<Rightarrow> CannotCompare | Some r \<Rightarrow> if admin_up r = configured_shutdown ev key then Disagrees else Agrees) \<and>
       (fd_outcome f \<noteq> CannotCompare \<or> explained f)"
    "\<not> (parsed_ok ev key \<and> parsed_ok ev ''interfaces'') \<Longrightarrow> fd_outcome f = CannotCompare \<and> explained f" by (auto split: if_splits)
qed

lemma address_diff:
  assumes "diff_interface_ipv4_address ev device name = Some f"
  shows "fd_field f = ''ipv4_address'' \<and> fd_outcome f = CannotCompare \<and> explained f"
  using assms by (auto simp: diff_interface_ipv4_address_def Let_def split: Option.bind_splits sum.splits dest!: field_diff_ofD)

text \<open>C32: Reconciliation never turns an absence into an answer.  It always has its three fields; one that could not be
  compared says why; adjacency and admin state are only compared when both their sections were read, and
  then exactly by the first record of the interface, in either spelling of its name; the address is never
  compared.\<close>

theorem absence_is_never_an_answer:
  assumes "reconcile_interface ev device name = Some r"
  shows "\<exists>a b c. rc_fields r = [a, b, c] \<and> map fd_field (rc_fields r) = [''isis_adjacency'', ''interface_admin_state'', ''ipv4_address''] \<and>
    list_all explained (incomparable r) \<and>
    (if parsed_ok ev ''config_isis'' \<and> parsed_ok ev ''isis''
     then \<exists>mine theirs. own_record ev ''config_isis'' name = Some mine \<and> own_record ev ''isis'' name = Some theirs \<and>
       fd_outcome a = (if (mine \<noteq> None) = adjacency_up theirs then Agrees else Disagrees)
     else fd_outcome a = CannotCompare) \<and>
    (if parsed_ok ev (template_key ''config_interface'' name) \<and> parsed_ok ev ''interfaces''
     then \<exists>port. own_record ev ''interfaces'' name = Some port \<and> fd_outcome b = (case port of None \<Rightarrow> CannotCompare
       | Some p \<Rightarrow> if admin_up p = configured_shutdown ev (template_key ''config_interface'' name) then Disagrees else Agrees)
     else fd_outcome b = CannotCompare) \<and>
    fd_outcome c = CannotCompare"
proof -
  obtain a b c where abc: "diff_isis_adjacency ev device name = Some a" "diff_interface_admin_state ev device name = Some b"
    "diff_interface_ipv4_address ev device name = Some c" "r = \<lparr>rc_device = device, rc_subject = name, rc_fields = [a, b, c]\<rparr>"
    using assms by (auto simp: reconcile_interface_def split: Option.bind_splits)
  note i = isis_diff [OF abc(1)] and m = admin_diff [OF abc(2)] and d = address_diff [OF abc(3)]
  have "explained a" if "fd_outcome a = CannotCompare" using i(2,3) that by (metis diff_outcome.distinct)
  moreover have "explained b" if "fd_outcome b = CannotCompare" using m(2,3) that by metis
  ultimately have "list_all explained (incomparable r)" using d by (auto simp: abc(4) incomparable_def)
  moreover have "if parsed_ok ev ''config_isis'' \<and> parsed_ok ev ''isis''
     then \<exists>mine theirs. own_record ev ''config_isis'' name = Some mine \<and> own_record ev ''isis'' name = Some theirs \<and>
       fd_outcome a = (if (mine \<noteq> None) = adjacency_up theirs then Agrees else Disagrees)
     else fd_outcome a = CannotCompare" unfolding if_bool_eq_conj using i(2,3) by blast
  moreover have "if parsed_ok ev (template_key ''config_interface'' name) \<and> parsed_ok ev ''interfaces''
     then \<exists>port. own_record ev ''interfaces'' name = Some port \<and> fd_outcome b = (case port of None \<Rightarrow> CannotCompare
       | Some p \<Rightarrow> if admin_up p = configured_shutdown ev (template_key ''config_interface'' name) then Disagrees else Agrees)
     else fd_outcome b = CannotCompare"
    unfolding if_bool_eq_conj using m(2,3) by blast
  moreover have "rc_fields r = [a, b, c]" "map fd_field (rc_fields r) = [''isis_adjacency'', ''interface_admin_state'', ''ipv4_address'']"
    using i(1) m(1) d by (simp_all add: abc(4))
  moreover have "fd_outcome c = CannotCompare" using d by simp
  ultimately show ?thesis by (intro exI conjI)
qed

text \<open>A second neighbor on a port is not looked at: when the first one is not up the port counts as having no
  adjacency, though another record of the same port is up.\<close>

definition lan_evidence :: dict where
  "lan_evidence =
    (let section = (\<lambda>rs. JDict [(''data'', JDict [(''parse_status'', JStr ''ok''), (''parsed'', JDict [(''records'', JList rs), (''meta'', JDict [])])])]);
         port = (''interface'', JStr ''Gi0/0/0/0'')
     in [(''device'', JStr ''PE3''), (''config_isis'', section [JDict [(''interface'', JStr ''GigabitEthernet0/0/0/0'')]]),
         (''isis'', section [JDict [port, (''state'', JStr ''Init'')], JDict [port, (''state'', JStr ''Up'')]]),
         (''config_interface:Gi0/0/0/0'', section []), (''interfaces'', section [JDict [port, (''admin_state'', JStr ''up'')]])])"

definition lan_result :: reconciliation where
  "lan_result = (case reconcile_interface lan_evidence ''PE3'' ''Gi0/0/0/0'' of Some r \<Rightarrow> r | None \<Rightarrow> \<lparr>rc_device = [], rc_subject = [], rc_fields = []\<rparr>)"

lemma second_neighbor_is_ignored: "map fd_outcome (rc_fields lan_result) = [Disagrees, Agrees, CannotCompare]"
  by code_simp

theorem reconcile_witness:
  "list_all explained (incomparable lan_result) \<and> has_disagreement lan_result"
proof -
  have "reconcile_interface lan_evidence ''PE3'' ''Gi0/0/0/0'' \<noteq> None" by code_simp
  then have r: "reconcile_interface lan_evidence ''PE3'' ''Gi0/0/0/0'' = Some lan_result" by (auto simp: lan_result_def)
  have "has_disagreement lan_result" by code_simp
  with absence_is_never_an_answer [OF r] show ?thesis by blast
qed

end
