(* ===== verification/Correlation.thy ===== *)
theory Correlation
  imports Py_Text
begin

section \<open>Diagnoses that belong together\<close>

text \<open>
  Models \<open>incident_correlation.py\<close>: grouping diagnoses by a shared cause, subject or device, and what is
  left out of the first grouping and why.  The fields a ledger row may lack are JSON values, null when
  absent; the ledger writes texts.  A group's sentence of explanation is left out.
\<close>

datatype basis = SameCause | SameSubject | SameDevice

record diagnosis_ref =
  dx_id :: string
  dx_device :: string
  dx_subject :: string
  dx_flow :: string
  dx_finding :: string
  dx_cause_rung :: json
  dx_cause_device :: json
  dx_cause_subject :: json
  dx_recorded_at :: json
  dx_run_id :: json

record incident_group =
  ic_basis :: basis
  ic_key :: "json list"
  ic_members :: "diagnosis_ref list"

text \<open>\<open>groups.setdefault(key, []).append(d)\<close>, then the groups with at least two members.\<close>

definition grouped :: "(diagnosis_ref \<Rightarrow> json list) \<Rightarrow> diagnosis_ref list \<Rightarrow> (json list \<times> diagnosis_ref list) list" where
  "grouped key ds = map (\<lambda>k. (k, filter (\<lambda>d. key d = k) ds)) (from_keys (map key ds))"

definition incidents_of :: "basis \<Rightarrow> (diagnosis_ref \<Rightarrow> json list) \<Rightarrow> diagnosis_ref list \<Rightarrow> incident_group list" where
  "incidents_of b key ds = map (\<lambda>(k, ms). \<lparr>ic_basis = b, ic_key = k, ic_members = ms\<rparr>) (filter (\<lambda>(k, ms). 2 \<le> length ms) (grouped key ds))"

definition caused :: "diagnosis_ref \<Rightarrow> bool" where
  "caused d \<longleftrightarrow> dx_cause_rung d \<noteq> JNull \<and> dx_cause_device d \<noteq> JNull"

definition cause_key :: "diagnosis_ref \<Rightarrow> json list" where
  "cause_key d = [dx_cause_device d, dx_cause_rung d, dx_cause_subject d]"

definition correlate_by_cause :: "diagnosis_ref list \<Rightarrow> incident_group list \<times> diagnosis_ref list \<times> diagnosis_ref list" where
  "correlate_by_cause ds =
     (let cs = filter caused ds
      in (incidents_of SameCause cause_key (filter (\<lambda>d. dx_cause_subject d \<noteq> JNull \<and> dx_run_id d \<noteq> JNull) cs),
          filter (\<lambda>d. dx_cause_subject d = JNull) cs, filter (\<lambda>d. dx_run_id d = JNull) cs))"

definition correlate_by_subject :: "diagnosis_ref list \<Rightarrow> incident_group list" where
  "correlate_by_subject ds = incidents_of SameSubject (\<lambda>d. [JStr (dx_subject d)]) ds"

definition correlate_by_device :: "diagnosis_ref list \<Rightarrow> incident_group list" where
  "correlate_by_device ds = incidents_of SameDevice (\<lambda>d. [JStr (dx_device d)]) ds"

record correlation_result =
  cs_incidents :: "incident_group list"
  cs_clusters :: "incident_group list"
  cs_without_subject :: "diagnosis_ref list"
  cs_without_run :: "diagnosis_ref list"

definition counts :: "correlation_result \<Rightarrow> nat \<times> nat" where
  "counts r = (length (cs_without_subject r), length (cs_without_run r))"

definition correlate :: "diagnosis_ref list \<Rightarrow> correlation_result" where
  "correlate ds = (let (incidents, without_subject, without_run) = correlate_by_cause ds
     in \<lparr>cs_incidents = incidents, cs_clusters = correlate_by_subject ds @ correlate_by_device ds,
         cs_without_subject = without_subject, cs_without_run = without_run\<rparr>)"

text \<open>A row of the ledger; \<open>None\<close> when its cause is neither an object nor empty.\<close>

definition ref_of_row :: "dict \<Rightarrow> diagnosis_ref option" where
  "ref_of_row e = (case py_or (dict_get e ''cause'') (JDict []) of
     JDict c \<Rightarrow> Some \<lparr>dx_id = py_str (dict_get e ''id''), dx_device = py_str (dict_get e ''device''), dx_subject = py_str (dict_get e ''subject''),
       dx_flow = py_str (dict_get e ''flow''), dx_finding = py_str (dict_get e ''finding''), dx_cause_rung = dict_get c ''rung'',
       dx_cause_device = dict_get c ''device'', dx_cause_subject = dict_get c ''subject'', dx_recorded_at = dict_get e ''recorded_at'',
       dx_run_id = dict_get e ''run_id''\<rparr>
   | _ \<Rightarrow> None)"

definition from_ledger_diagnoses :: "dict list \<Rightarrow> diagnosis_ref list option" where
  "from_ledger_diagnoses rows = map_m ref_of_row rows"

section \<open>What an incident asserts\<close>

definition traceable :: "diagnosis_ref \<Rightarrow> bool" where
  "traceable d \<longleftrightarrow> caused d \<and> dx_cause_subject d \<noteq> JNull \<and> dx_run_id d \<noteq> JNull"

lemma incidents_mem:
  "i \<in> set (incidents_of b key ds) \<longleftrightarrow> (\<exists>d\<in>set ds. i = \<lparr>ic_basis = b, ic_key = key d, ic_members = filter (\<lambda>e. key e = key d) ds\<rparr> \<and>
     2 \<le> length (filter (\<lambda>e. key e = key d) ds))"
  by (auto simp: incidents_of_def grouped_def image_iff)

lemma incidents_keys: "distinct (map ic_key (incidents_of b key ds))"
proof -
  have "map ic_key (incidents_of b key ds) = map fst (filter (\<lambda>(k, ms). 2 \<le> length ms) (grouped key ds))"
    by (auto simp: incidents_of_def)
  moreover have "distinct (map fst (grouped key ds))" by (simp add: grouped_def comp_def)
  ultimately show ?thesis by (simp add: distinct_map_filter)
qed

lemma two_members: "d \<in> set xs \<Longrightarrow> e \<in> set xs \<Longrightarrow> d \<noteq> e \<Longrightarrow> 2 \<le> length xs"
  by (cases xs rule: remdups_adj.cases) auto

text \<open>Two diagnoses of one incident share the broken rung, its device and its subject, and each names its run.\<close>

definition sound_incident :: "diagnosis_ref list \<Rightarrow> incident_group \<Rightarrow> bool" where
  "sound_incident ds i \<longleftrightarrow> ic_basis i = SameCause \<and> 2 \<le> length (ic_members i) \<and>
     list_all (\<lambda>d. d \<in> set ds \<and> traceable d \<and> cause_key d = ic_key i) (ic_members i)"

text \<open>C33: An incident asserts exactly one cause and no diagnosis is lost.  Its members were given, share device, rung
  and subject of the cause and name their runs; no two incidents have the same cause; two different
  traceable diagnoses of one cause are members of one incident; and a diagnosis that names a cause but is
  not traceable is listed with what it lacks, and counted.\<close>

theorem incidents_assert_one_cause:
  fixes ds
  assumes "d \<in> set ds" and "e \<in> set ds" and "d \<noteq> e" and "caused d"
  shows "list_all (sound_incident ds) (cs_incidents (correlate ds)) \<and> distinct (map ic_key (cs_incidents (correlate ds))) \<and>
    (if traceable d \<and> traceable e \<and> cause_key d = cause_key e
     then list_ex (\<lambda>i. d \<in> set (ic_members i) \<and> e \<in> set (ic_members i)) (cs_incidents (correlate ds)) else True) \<and>
    (traceable d \<or> d \<in> set (cs_without_subject (correlate ds)) \<or> d \<in> set (cs_without_run (correlate ds))) \<and>
    counts (correlate ds) = (length (cs_without_subject (correlate ds)), length (cs_without_run (correlate ds)))"
proof -
  let ?ts = "filter (\<lambda>d. dx_cause_subject d \<noteq> JNull \<and> dx_run_id d \<noteq> JNull) (filter caused ds)"
  have inc: "cs_incidents (correlate ds) = incidents_of SameCause cause_key ?ts" by (simp add: correlate_def correlate_by_cause_def Let_def)
  have "list_all (sound_incident ds) (cs_incidents (correlate ds))"
    unfolding inc list_all_iff by (auto simp: incidents_mem sound_incident_def traceable_def list_all_iff)
  moreover have "list_ex (\<lambda>i. d \<in> set (ic_members i) \<and> e \<in> set (ic_members i)) (cs_incidents (correlate ds))"
    if t: "traceable d" "traceable e" "cause_key d = cause_key e"
  proof -
    let ?ms = "filter (\<lambda>x. cause_key x = cause_key d) ?ts"
    have m: "d \<in> set ?ms" "e \<in> set ?ms" using t assms(1,2) by (auto simp: traceable_def)
    have "2 \<le> length ?ms" by (rule two_members [OF m assms(3)])
    with m have "\<lparr>ic_basis = SameCause, ic_key = cause_key d, ic_members = ?ms\<rparr> \<in> set (incidents_of SameCause cause_key ?ts)"
      unfolding incidents_mem by (intro bexI [of _ d]) simp_all
    then show ?thesis unfolding inc list_ex_iff by (rule bexI [rotated]) (use m in simp)
  qed
  moreover have "traceable d \<or> d \<in> set (cs_without_subject (correlate ds)) \<or> d \<in> set (cs_without_run (correlate ds))"
    using assms(1,4) by (auto simp: correlate_def correlate_by_cause_def Let_def traceable_def)
  moreover have "distinct (map ic_key (cs_incidents (correlate ds)))" unfolding inc by (rule incidents_keys)
  ultimately show ?thesis unfolding counts_def by (simp only: if_bool_eq_conj simp_thms) blast
qed

definition port_row :: "string \<Rightarrow> json \<Rightarrow> dict" where
  "port_row i run = [(''id'', JStr i), (''device'', JStr ''RR1''), (''subject'', JStr i), (''flow'', JStr ''bgp_session''),
     (''finding'', JStr ''interface_line_down''), (''cause'', JDict [(''rung'', JStr ''interface_line''), (''device'', JStr ''PE2''),
       (''subject'', JStr ''Gi0/0/0/0'')]), (''run_id'', run)]"

definition port_refs :: "diagnosis_ref list" where
  "port_refs = (case from_ledger_diagnoses [port_row ''d1'' (JStr ''r1''), port_row ''d2'' (JStr ''r2''), port_row ''d3'' JNull] of
     Some ds \<Rightarrow> ds | None \<Rightarrow> [])"

theorem incidents_witness:
  "list_all (sound_incident port_refs) (cs_incidents (correlate port_refs)) \<and> length (cs_incidents (correlate port_refs)) = 1 \<and>
   counts (correlate port_refs) = (0, 1)"
proof -
  have "port_refs ! 0 \<in> set port_refs" "port_refs ! 1 \<in> set port_refs" "port_refs ! 0 \<noteq> port_refs ! 1" "caused (port_refs ! 0)"
    "length (cs_incidents (correlate port_refs)) = 1" "counts (correlate port_refs) = (0, 1)"
    by code_simp+
  with incidents_assert_one_cause [of "port_refs ! 0" port_refs "port_refs ! 1"] show ?thesis by simp
qed

end
