(* ===== verification/Topology.thy ===== *)
theory Topology
  imports Interface_Kind Event_Identity Event_Routing Investigation
begin

section \<open>Topology: expected counts, anomalies and evidence neighbourhoods\<close>

text \<open>
  Models \<open>topology.py\<close>: what a device is expected to have, counted from parsed evidence; the report of
  links whose two ends disagree; and the neighbourhood of a subject, grown hop by hop.  Evidence is an
  association list from device names to sections.  The result \<open>None\<close> stands for an exception: a missing
  key, a section that is no dictionary, a refused argument.  The inventory is the list of entries of
  \<open>Investigation\<close>; the order in which Python walks a set is an argument.
\<close>

subsection \<open>Reading sections\<close>

definition records_of :: "dict \<Rightarrow> string \<Rightarrow> json list option option" where
  "records_of ev intent = do {
     data \<leftarrow> (case dict_get_or ev intent (JDict []) of JDict s \<Rightarrow> as_dict (dict_get_or s ''data'' (JDict [])) | _ \<Rightarrow> Some []);
     if dict_get data ''parse_status'' \<noteq> JStr PARSE_OK then Some None
     else do {
       p \<leftarrow> as_dict (py_or (dict_get data ''parsed'') (JDict []));
       rs \<leftarrow> iterate (py_or (dict_get p ''records'') (JList []));
       Some (Some rs) } }"

text \<open>\<open>dict(meta)\<close>: what is no dictionary counts as an exception here.\<close>

definition bgp_meta :: "dict \<Rightarrow> dict option option" where
  "bgp_meta ev = do {
     s \<leftarrow> as_dict (dict_get_or ev ''bgp'' (JDict []));
     data \<leftarrow> as_dict (dict_get_or s ''data'' (JDict []));
     if dict_get data ''parse_status'' \<noteq> JStr PARSE_OK then Some None
     else do {
       p \<leftarrow> as_dict (py_or (dict_get data ''parsed'') (JDict []));
       m \<leftarrow> as_dict (py_or (dict_get p ''meta'') (JDict []));
       Some (Some m) } }"

definition derive_device_expected :: "dict \<Rightarrow> dict option option" where
  "derive_device_expected ev = do {
     isis \<leftarrow> records_of ev ''isis'';
     case isis of None \<Rightarrow> Some None
     | Some rs \<Rightarrow> do {
         meta \<leftarrow> bgp_meta ev;
         peers \<leftarrow> (case meta of
             Some m \<Rightarrow> if truthy (dict_get_or m ''active'' (JBool True))
               then map_option (\<lambda>n. [(''bgp_peers'', JInt n)]) (py_int (dict_get_or m ''neighbor_count'' (JInt 0))) else Some []
           | None \<Rightarrow> Some []);
         Some (Some ((''isis_adjacencies'', JInt (int (length rs))) # peers)) } }"

fun derive_expected :: "(string \<times> dict) list \<Rightarrow> (string \<times> dict) list option" where
  "derive_expected [] = Some []"
| "derive_expected ((name, ev) # evs) = do {
     e \<leftarrow> derive_device_expected ev; rest \<leftarrow> derive_expected evs;
     Some (case e of None \<Rightarrow> rest | Some x \<Rightarrow> (name, x) # rest) }"

definition lldp_records :: "dict \<Rightarrow> json list option" where
  "lldp_records ev = map_option (\<lambda>rs. case rs of None \<Rightarrow> [] | Some xs \<Rightarrow> xs) (records_of ev ''lldp'')"

definition configured_hostname :: "dict \<Rightarrow> string option" where
  "configured_hostname ev = (case dict_get ev ''facts'' of
     JDict section \<Rightarrow> (case dict_get section ''data'' of
       JDict data \<Rightarrow> if dict_get data ''parse_status'' \<noteq> JStr PARSE_OK then None
         else (case field (dict_get data ''parsed'') ''meta'' of
           JDict meta \<Rightarrow> (case dict_get meta ''hostname'' of
             JStr h \<Rightarrow> if py_strip h \<noteq> [] then Some h else None | _ \<Rightarrow> None)
         | _ \<Rightarrow> None)
     | _ \<Rightarrow> None)
   | _ \<Rightarrow> None)"

subsection \<open>Names\<close>

text \<open>
  \<open>casefold\<close>: the sharp s folds to two letters.  The micro sign folds to a letter outside the modelled
  characters that nothing else folds to, so it stands for itself.
\<close>

definition casefold :: "string \<Rightarrow> string" where
  "casefold s = concat (map (\<lambda>c. if (of_char c :: nat) = 223 then ''ss'' else [py_lower_char c]) s)"

text \<open>The dictionary is filled device by device: a label overwrites, a hostname only fills a gap.\<close>

fun hostname_fill :: "(string \<times> string) list \<Rightarrow> (string \<times> dict) list \<Rightarrow> (string \<times> string) list" where
  "hostname_fill m [] = m"
| "hostname_fill m ((name, ev) # evs) =
     (let m1 = (casefold name, name) # m
      in hostname_fill (case configured_hostname ev of
           Some h \<Rightarrow> if map_of m1 (casefold h) = None then (casefold h, name) # m1 else m1
         | None \<Rightarrow> m1) evs)"

definition hostname_map :: "(string \<times> dict) list \<Rightarrow> (string \<times> string) list" where
  "hostname_map evs = hostname_fill [] evs"

definition resolve_device :: "json \<Rightarrow> (string \<times> string) list \<Rightarrow> string option" where
  "resolve_device v m = (case v of JStr s \<Rightarrow> map_of m (casefold (py_strip s)) | _ \<Rightarrow> None)"

subsection \<open>Anomalies\<close>

text \<open>\<open>record[key]\<close>\<close>

definition key_of :: "json \<Rightarrow> string \<Rightarrow> json option" where
  "key_of v k = (case v of JDict d \<Rightarrow> map_of d k | _ \<Rightarrow> None)"

record lldp_disagreement =
  ld_device :: string
  ld_local :: json
  ld_claims :: string
  ld_reported :: json
  ld_claims_interface :: json
  ld_actual :: "(json \<times> json) list"

definition mirrors :: "(string \<times> string) list \<Rightarrow> string \<Rightarrow> json \<Rightarrow> json \<Rightarrow> bool option" where
  "mirrors m device r other = do {
     n \<leftarrow> key_of other ''neighbor'';
     if resolve_device n m = Some device then do {
       l \<leftarrow> key_of other ''local_interface''; p \<leftarrow> key_of r ''neighbor_interface''; Some (py_eq l p) }
     else Some False }"

definition seen_on :: "json \<Rightarrow> json list \<Rightarrow> (json \<times> json) list option" where
  "seen_on r others = do {
     on \<leftarrow> filter_m (\<lambda>other. do { l \<leftarrow> key_of other ''local_interface''; p \<leftarrow> key_of r ''neighbor_interface''; Some (py_eq l p) }) others;
     map_m (\<lambda>other. do { n \<leftarrow> key_of other ''neighbor''; l \<leftarrow> key_of other ''local_interface''; Some (n, l) }) on }"

definition record_disagreement ::
  "(string \<times> dict) list \<Rightarrow> (string \<times> string) list \<Rightarrow> string \<Rightarrow> json \<Rightarrow> lldp_disagreement list option" where
  "record_disagreement evs m device r = do {
     n \<leftarrow> key_of r ''neighbor'';
     case resolve_device n m of None \<Rightarrow> Some []
     | Some neighbor \<Rightarrow> do {
         ev \<leftarrow> map_of evs neighbor;
         others \<leftarrow> lldp_records ev;
         back \<leftarrow> any_m (mirrors m device r) others;
         if back then Some []
         else do {
           actual \<leftarrow> seen_on r others;
           l \<leftarrow> key_of r ''local_interface'';
           p \<leftarrow> key_of r ''neighbor_interface'';
           Some [\<lparr>ld_device = device, ld_local = l, ld_claims = neighbor, ld_reported = n, ld_claims_interface = p,
             ld_actual = actual\<rparr>] } } }"

definition device_disagreements ::
  "(string \<times> dict) list \<Rightarrow> (string \<times> string) list \<Rightarrow> string \<times> dict \<Rightarrow> lldp_disagreement list option" where
  "device_disagreements evs m = (\<lambda>(device, ev). do {
     rs \<leftarrow> lldp_records ev; found \<leftarrow> map_m (record_disagreement evs m device) rs; Some (concat found) })"

definition find_lldp_disagreements :: "(string \<times> dict) list \<Rightarrow> lldp_disagreement list option" where
  "find_lldp_disagreements evs = map_option concat (map_m (device_disagreements evs (hostname_map evs)) evs)"

text \<open>\<open>unknown.setdefault(neighbor, []).append(...)\<close>: a list or an object cannot be a key.\<close>

fun append_under :: "json \<Rightarrow> string \<Rightarrow> (json \<times> string list) list \<Rightarrow> (json \<times> string list) list" where
  "append_under k x [] = [(k, [x])]"
| "append_under k x ((j, xs) # rest) = (if py_eq j k then (j, xs @ [x]) # rest else (j, xs) # append_under k x rest)"

definition hashable :: "json \<Rightarrow> bool" where
  "hashable v \<longleftrightarrow> (case v of JList _ \<Rightarrow> False | JDict _ \<Rightarrow> False | _ \<Rightarrow> True)"

fun unknown_among ::
  "(string \<times> string) list \<Rightarrow> string \<Rightarrow> json list \<Rightarrow> (json \<times> string list) list \<Rightarrow> (json \<times> string list) list option" where
  "unknown_among m device [] acc = Some acc"
| "unknown_among m device (r # rs) acc = do {
     n \<leftarrow> key_of r ''neighbor'';
     if resolve_device n m \<noteq> None then unknown_among m device rs acc
     else if \<not> hashable n then None
     else do { l \<leftarrow> key_of r ''local_interface''; unknown_among m device rs (append_under n (device @ '':'' @ py_str l) acc) } }"

fun unknown_neighbors ::
  "(string \<times> string) list \<Rightarrow> (string \<times> dict) list \<Rightarrow> (json \<times> string list) list \<Rightarrow> (json \<times> string list) list option" where
  "unknown_neighbors m [] acc = Some acc"
| "unknown_neighbors m ((device, ev) # evs) acc = do {
     rs \<leftarrow> lldp_records ev; acc1 \<leftarrow> unknown_among m device rs acc; unknown_neighbors m evs acc1 }"

definition find_neighbors_not_in_inventory :: "(string \<times> dict) list \<Rightarrow> (json \<times> string list) list option" where
  "find_neighbors_not_in_inventory evs = unknown_neighbors (hostname_map evs) evs []"

record zero_adjacency =
  za_device :: string
  za_lldp :: nat
  za_isis :: "nat option"

definition zero_adjacency_of :: "string \<times> dict \<Rightarrow> zero_adjacency list option" where
  "zero_adjacency_of = (\<lambda>(device, ev). do {
     lldp \<leftarrow> lldp_records ev;
     isis \<leftarrow> records_of ev ''isis'';
     let z = \<lparr>za_device = device, za_lldp = length lldp, za_isis = map_option length isis\<rparr>
     in Some (if za_lldp z = 0 \<or> za_isis z = Some 0 then [z] else []) })"

definition find_zero_adjacency_devices :: "(string \<times> dict) list \<Rightarrow> zero_adjacency list option" where
  "find_zero_adjacency_devices evs = map_option concat (map_m zero_adjacency_of evs)"

record anomaly_report =
  ar_disagreements :: "lldp_disagreement list"
  ar_unknown :: "(json \<times> string list) list"
  ar_zero :: "zero_adjacency list"

definition build_anomaly_report :: "(string \<times> dict) list \<Rightarrow> anomaly_report option" where
  "build_anomaly_report evs = do {
     d \<leftarrow> find_lldp_disagreements evs; u \<leftarrow> find_neighbors_not_in_inventory evs; z \<leftarrow> find_zero_adjacency_devices evs;
     Some \<lparr>ar_disagreements = d, ar_unknown = u, ar_zero = z\<rparr> }"

subsection \<open>The inventory file\<close>

text \<open>\<open>device["expected"] = ...\<close> and \<open>device.pop("expected", None)\<close> on the loaded document.\<close>

definition with_expected :: "(string \<times> dict) list \<Rightarrow> json \<Rightarrow> json option" where
  "with_expected derived v = do {
     d \<leftarrow> as_dict v;
     case dict_get d ''name'' of
       JStr n \<Rightarrow> Some (JDict (case map_of derived n of
         Some e \<Rightarrow> dict_set d ''expected'' (JDict e)
       | None \<Rightarrow> filter (\<lambda>(k, _). k \<noteq> ''expected'') d))
     | n \<Rightarrow> if hashable n then Some (JDict (filter (\<lambda>(k, _). k \<noteq> ''expected'') d)) else None }"

definition update_expected :: "dict \<Rightarrow> (string \<times> dict) list \<Rightarrow> dict option" where
  "update_expected raw derived = do {
     ds \<leftarrow> iterate (dict_get_or raw ''devices'' (JList []));
     ds1 \<leftarrow> map_m (with_expected derived) ds;
     Some (case map_of raw ''devices'' of Some (JList _) \<Rightarrow> dict_set raw ''devices'' (JList ds1) | _ \<Rightarrow> raw) }"

subsection \<open>Neighbourhoods\<close>

datatype neighborhood_status = NeighborhoodResolved | SubjectUnresolved | TopologyUnavailable

datatype hop_disagreement =
    IsisLldpMismatch string json "string option" "string option"
  | LldpSelfDisagreement lldp_disagreement

text \<open>\<open>devices\<close> is a frozen set: only membership in the list counts.\<close>

record neighborhood =
  nb_anchor :: string
  nb_subject :: string
  nb_subject_device :: "string option"
  nb_depth :: int
  nb_status :: neighborhood_status
  nb_devices :: "string list"
  nb_interfaces :: "json list"
  nb_records :: "json list"
  nb_widened :: bool
  nb_disagreements :: "hop_disagreement list"

definition subject_shape_device :: "inventory_entry list \<Rightarrow> string \<Rightarrow> string \<Rightarrow> string option \<times> neighborhood_status \<times> bool" where
  "subject_shape_device entries device subject =
     (if \<not> is_ipv4 subject then (Some device, NeighborhoodResolved, False)
      else case find (\<lambda>e. in_router_id e = Some subject) entries of
        Some e \<Rightarrow> (Some (in_name e), NeighborhoodResolved, True)
      | None \<Rightarrow> (None, SubjectUnresolved, False))"

text \<open>\<open>same_interface\<close> of two fields: a text is needed on both sides unless the left one is falsy.\<close>

definition same_port :: "json \<Rightarrow> json \<Rightarrow> bool option" where
  "same_port a b = (if truthy a then (case (a, b) of (JStr x, JStr y) \<Rightarrow> Some (same_interface x y) | _ \<Rightarrow> None) else Some False)"

fun add_ports :: "string \<Rightarrow> json list \<Rightarrow> json list \<Rightarrow> json list option" where
  "add_ports k [] seen = Some seen"
| "add_ports k (r # rs) seen = do {
     d \<leftarrow> as_dict r;
     let v = dict_get d k in
     if truthy v then do { known \<leftarrow> any_m (same_port v) seen; add_ports k rs (if known then seen else seen @ [v]) }
     else add_ports k rs seen }"

definition session_interfaces :: "dict \<Rightarrow> bool \<Rightarrow> string \<Rightarrow> (json list \<times> json list) option option" where
  "session_interfaces ev wide subject = do {
     isis \<leftarrow> records_of ev ''isis'';
     case isis of None \<Rightarrow> Some None
     | Some rs \<Rightarrow> do {
         own \<leftarrow> (if wide then Some rs
           else filter_m (\<lambda>r. do { d \<leftarrow> as_dict r; same_port (dict_get_or d ''interface'' (JStr [])) (JStr subject) }) rs);
         ports \<leftarrow> add_ports ''interface'' own [];
         Some (Some (ports, own)) } }"

definition widen_scope_interfaces :: "dict \<Rightarrow> bool \<Rightarrow> string \<Rightarrow> json list \<Rightarrow> json list option" where
  "widen_scope_interfaces ev wide subject isis_ports =
     (if \<not> wide then Some (if subject = [] then [] else [JStr subject])
      else do { rs \<leftarrow> lldp_records ev; add_ports ''local_interface'' rs isis_ports })"

definition neighbor_on :: "(string \<times> string) list \<Rightarrow> string \<Rightarrow> string \<Rightarrow> json list \<Rightarrow> json \<Rightarrow> string option option" where
  "neighbor_on m port_key name_key rs port = do {
     hit \<leftarrow> find_m (\<lambda>r. do { d \<leftarrow> as_dict r; same_port (dict_get_or d port_key (JStr [])) port }) rs;
     Some (case hit of None \<Rightarrow> None | Some r \<Rightarrow> resolve_device (field r name_key) m) }"

definition port_neighbors ::
  "(string \<times> string) list \<Rightarrow> string \<Rightarrow> json list \<Rightarrow> json list \<Rightarrow> json \<Rightarrow> (string list \<times> hop_disagreement list) option" where
  "port_neighbors m device isis lldp port = do {
     a \<leftarrow> neighbor_on m ''interface'' ''system_id'' isis port;
     b \<leftarrow> neighbor_on m ''local_interface'' ''neighbor'' lldp port;
     Some (filter (\<lambda>n. n \<noteq> []) ((case a of Some n \<Rightarrow> [n] | None \<Rightarrow> []) @ (case b of Some n \<Rightarrow> [n] | None \<Rightarrow> [])),
       if a \<noteq> b \<and> (a \<notin> {None, Some []} \<or> b \<notin> {None, Some []}) then [IsisLldpMismatch device port a b] else []) }"

definition entry_neighbors ::
  "(string \<times> string) list \<Rightarrow> string \<Rightarrow> json list \<Rightarrow> lldp_disagreement \<Rightarrow> (string list \<times> hop_disagreement list) option" where
  "entry_neighbors m device scope e =
     (if ld_device e \<noteq> device then Some ([], [])
      else do {
        hit \<leftarrow> any_m (same_port (ld_local e)) scope;
        Some (if \<not> hit then ([], [])
          else (ld_claims e # concat (map (\<lambda>(n, _). case resolve_device n m of Some x \<Rightarrow> if x = [] then [] else [x] | None \<Rightarrow> []) (ld_actual e)),
                [LldpSelfDisagreement e])) })"

definition widened_neighbors ::
  "dict \<Rightarrow> (string \<times> string) list \<Rightarrow> string \<Rightarrow> json list \<Rightarrow> lldp_disagreement list \<Rightarrow> (string list \<times> hop_disagreement list) option" where
  "widened_neighbors ev m device scope fabric = do {
     isis \<leftarrow> records_of ev ''isis'';
     lldp \<leftarrow> lldp_records ev;
     ps \<leftarrow> map_m (port_neighbors m device (case isis of Some rs \<Rightarrow> rs | None \<Rightarrow> []) lldp) scope;
     es \<leftarrow> map_m (entry_neighbors m device scope) fabric;
     Some (concat (map fst (ps @ es)), concat (map snd (ps @ es))) }"

text \<open>One device of the frontier: its scope, then its candidates.\<close>

type_synonym reach = "bool \<times> string \<times> json list"

definition candidates_of ::
  "(string \<times> dict) list \<Rightarrow> (string \<times> string) list \<Rightarrow> lldp_disagreement list \<Rightarrow> string \<Rightarrow> reach \<Rightarrow> (string list \<times> hop_disagreement list) option" where
  "candidates_of evs m fabric d = (\<lambda>(wide, subject, ports). case map_of evs d of
     None \<Rightarrow> Some ([], [])
   | Some ev \<Rightarrow> do { scope \<leftarrow> widen_scope_interfaces ev wide subject ports; widened_neighbors ev m d scope fabric })"

text \<open>The interfaces a newly met device is entered with; none keeps it out of the frontier.\<close>

definition entry_of :: "(string \<times> dict) list \<Rightarrow> string \<Rightarrow> (string \<times> reach) list option" where
  "entry_of evs c = (case map_of evs c of
     None \<Rightarrow> Some []
   | Some ev \<Rightarrow> do {
       s \<leftarrow> session_interfaces ev True [];
       Some (case s of Some (p # ps, _) \<Rightarrow> [(c, (True, [], p # ps))] | _ \<Rightarrow> []) })"

text \<open>\<open>order\<close> is the order in which the set \<open>candidates - devices\<close> is walked.\<close>

fun expand ::
  "(string list \<Rightarrow> string list) \<Rightarrow> (string \<times> dict) list \<Rightarrow> (string \<times> string) list \<Rightarrow> lldp_disagreement list \<Rightarrow> (string \<times> reach) list \<Rightarrow>
   string list \<Rightarrow> (string list \<times> hop_disagreement list \<times> (string \<times> reach) list) option" where
  "expand order evs m fabric [] devices = Some (devices, [], [])"
| "expand order evs m fabric ((d, r) # frontier) devices = do {
     (cs, ds) \<leftarrow> candidates_of evs m fabric d r;
     let new = order (filter (\<lambda>c. c \<notin> set devices) (from_keys cs));
     es \<leftarrow> map_m (entry_of evs) new;
     (devices1, ds1, onward) \<leftarrow> expand order evs m fabric frontier (devices @ new);
     Some (devices1, ds @ ds1, concat es @ onward) }"

fun hops ::
  "(string list \<Rightarrow> string list) \<Rightarrow> (string \<times> dict) list \<Rightarrow> (string \<times> string) list \<Rightarrow> lldp_disagreement list \<Rightarrow> nat \<Rightarrow>
   (string \<times> reach) list \<Rightarrow> string list \<Rightarrow> (string list \<times> hop_disagreement list) option" where
  "hops order evs m fabric 0 frontier devices = Some (devices, [])"
| "hops order evs m fabric (Suc n) frontier devices =
     (if frontier = [] then Some (devices, [])
      else do {
        (devices1, ds, onward) \<leftarrow> expand order evs m fabric frontier devices;
        (devices2, ds1) \<leftarrow> hops order evs m fabric n onward devices1;
        Some (devices2, ds @ ds1) })"

definition bare_neighborhood ::
  "string \<Rightarrow> string \<Rightarrow> string option \<Rightarrow> int \<Rightarrow> neighborhood_status \<Rightarrow> string list \<Rightarrow> neighborhood" where
  "bare_neighborhood device subject at depth status devices = \<lparr>nb_anchor = device, nb_subject = subject, nb_subject_device = at,
     nb_depth = depth, nb_status = status, nb_devices = devices, nb_interfaces = [], nb_records = [], nb_widened = False, nb_disagreements = []\<rparr>"

definition evidence_neighborhood ::
  "(string list \<Rightarrow> string list) \<Rightarrow> inventory_entry list \<Rightarrow> (string \<times> dict) list \<Rightarrow> string \<Rightarrow> string \<Rightarrow> int \<Rightarrow> neighborhood option" where
  "evidence_neighborhood order entries evs device subject depth =
     (if depth < 0 \<or> map_of evs device = None then None
      else case subject_shape_device entries device subject of
        (None, status, _) \<Rightarrow> Some (bare_neighborhood device subject None depth status [])
      | (Some at, _, wide) \<Rightarrow> (case map_of evs at of
          None \<Rightarrow> Some (bare_neighborhood device subject (Some at) depth TopologyUnavailable [at])
        | Some ev \<Rightarrow>
            if depth = 0 then Some (bare_neighborhood device subject (Some at) 0 NeighborhoodResolved [at])
            else do {
              s \<leftarrow> session_interfaces ev wide subject;
              case s of None \<Rightarrow> Some (bare_neighborhood device subject (Some at) depth TopologyUnavailable [at])
              | Some (ports, rs) \<Rightarrow>
                  (let nb = (bare_neighborhood device subject (Some at) depth NeighborhoodResolved [at])\<lparr>nb_interfaces := ports, nb_records := rs\<rparr>
                   in if depth = 1 then Some nb
                      else do {
                        fabric \<leftarrow> find_lldp_disagreements evs;
                        (devices, ds) \<leftarrow> hops order evs (hostname_map evs) fabric (nat depth - 1) [(at, (wide, subject, ports))] [at];
                        Some (nb\<lparr>nb_devices := devices, nb_widened := ds \<noteq> [], nb_disagreements := ds\<rparr>) }) }))"

section \<open>What the reports say\<close>

subsection \<open>Names\<close>

lemma hostname_fill_label:
  "map_of m k = Some n \<Longrightarrow> k \<notin> casefold ` fst ` set evs \<Longrightarrow> map_of (hostname_fill m evs) k = Some n"
proof (induction evs arbitrary: m)
  case (Cons e evs)
  obtain name ev where e: "e = (name, ev)" by fastforce
  with Cons.prems have "map_of ((casefold name, name) # m) k = Some n" by auto
  then show ?case using Cons.prems(2) by (auto simp: e Let_def split: option.splits intro!: Cons.IH)
qed simp

text \<open>A label names its own device, whatever hostnames are configured.\<close>

lemma labels_win:
  assumes "distinct (map (casefold \<circ> fst) evs)" and "name \<in> fst ` set evs"
  shows "map_of (hostname_map evs) (casefold name) = Some name"
proof -
  have "map_of (hostname_fill m evs) (casefold name) = Some name"
    if "distinct (map (casefold \<circ> fst) evs)" "name \<in> fst ` set evs" for m
    using that
  proof (induction evs arbitrary: m)
    case (Cons e evs)
    obtain nm ev where e: "e = (nm, ev)" by fastforce
    show ?case
    proof (cases "name = nm")
      case True
      then have "casefold name \<notin> casefold ` fst ` set evs" using Cons.prems(1) by (force simp: e)
      then show ?thesis using True by (auto simp: e Let_def split: option.splits intro!: hostname_fill_label)
    next
      case False
      then have "map_of (hostname_fill k evs) (casefold name) = Some name" for k
        by (intro Cons.IH) (use Cons.prems False in \<open>auto simp: e comp_def\<close>)
      then show ?thesis by (simp add: e Let_def split: option.splits)
    qed
  qed simp
  from this [OF assms] show ?thesis by (simp add: hostname_map_def)
qed

subsection \<open>Links whose two ends disagree\<close>

text \<open>The rows of a section as a list, for statements.\<close>

definition lldp_rows :: "(string \<times> dict) list \<Rightarrow> string \<Rightarrow> json list" where
  "lldp_rows evs device = (case map_of evs device of
     Some ev \<Rightarrow> (case lldp_records ev of Some rs \<Rightarrow> rs | None \<Rightarrow> []) | None \<Rightarrow> [])"

definition answers_back :: "(string \<times> string) list \<Rightarrow> string \<Rightarrow> json \<Rightarrow> json \<Rightarrow> bool" where
  "answers_back m device r other \<longleftrightarrow> resolve_device (field other ''neighbor'') m = Some device \<and>
     py_eq (field other ''local_interface'') (field r ''neighbor_interface'')"

definition reported_link :: "(string \<times> dict) list \<Rightarrow> (string \<times> string) list \<Rightarrow> string \<Rightarrow> json \<Rightarrow> lldp_disagreement \<Rightarrow> bool" where
  "reported_link evs m device r e \<longleftrightarrow> resolve_device (field r ''neighbor'') m = Some (ld_claims e) \<and>
     ld_device e = device \<and> ld_reported e = field r ''neighbor'' \<and> ld_local e = field r ''local_interface'' \<and>
     ld_claims_interface e = field r ''neighbor_interface'' \<and>
     ld_actual e = map (\<lambda>x. (field x ''neighbor'', field x ''local_interface''))
       (filter (\<lambda>x. py_eq (field x ''local_interface'') (field r ''neighbor_interface'')) (lldp_rows evs (ld_claims e)))"

lemma key_of_field: "key_of v k = Some x \<Longrightarrow> field v k = x"
  by (auto simp: key_of_def field_def dict_get_or_def split: json.splits)

lemma mirrors_answers: "mirrors m device r x = Some b \<Longrightarrow> b = answers_back m device r x"
  by (auto simp: mirrors_def answers_back_def bind_Some_iff split: if_splits dest!: key_of_field)

lemma seen_on_rows:
  assumes "seen_on r xs = Some ys"
  shows "ys = map (\<lambda>x. (field x ''neighbor'', field x ''local_interface''))
    (filter (\<lambda>x. py_eq (field x ''local_interface'') (field r ''neighbor_interface'')) xs)"
proof -
  let ?p = "\<lambda>other. do { l \<leftarrow> key_of other ''local_interface''; p \<leftarrow> key_of r ''neighbor_interface''; Some (py_eq l p) }"
  from assms obtain zs where zs: "filter_m ?p xs = Some zs"
    and ys: "map_m (\<lambda>other. do { n \<leftarrow> key_of other ''neighbor''; l \<leftarrow> key_of other ''local_interface''; Some (n, l) }) zs = Some ys"
    by (auto simp: seen_on_def bind_Some_iff)
  have p: "?p x = Some (py_eq (field x ''local_interface'') (field r ''neighbor_interface''))" if "x \<in> set xs" for x
    using filter_m_Some [OF zs] that by (fastforce simp: bind_Some_iff dest: key_of_field)
  have "zs = filter (\<lambda>x. ?p x = Some True) xs" using filter_m_Some [OF zs] by blast
  also have "\<dots> = filter (\<lambda>x. py_eq (field x ''local_interface'') (field r ''neighbor_interface'')) xs"
    by (rule filter_cong) (simp_all add: p)
  finally have "zs = filter (\<lambda>x. py_eq (field x ''local_interface'') (field r ''neighbor_interface'')) xs" .
  moreover have "ys = map (\<lambda>x. (field x ''neighbor'', field x ''local_interface'')) zs"
    using ys by (induction zs arbitrary: ys) (auto simp: bind_Some_iff dest!: key_of_field)
  ultimately show ?thesis by simp
qed

lemma any_m_value: "any_m p xs = Some b \<Longrightarrow> (\<And>x c. x \<in> set xs \<Longrightarrow> p x = Some c \<Longrightarrow> c = q x) \<Longrightarrow> b = list_ex q xs"
  by (induction xs) (auto simp: bind_Some_iff split: if_splits)

lemma record_disagreement_mem:
  assumes "record_disagreement evs m device r = Some es"
  shows "e \<in> set es \<longleftrightarrow> reported_link evs m device r e \<and> \<not> list_ex (answers_back m device r) (lldp_rows evs (ld_claims e))"
proof -
  obtain n where n: "key_of r ''neighbor'' = Some n" "field r ''neighbor'' = n"
    using assms key_of_field by (cases "key_of r ''neighbor''") (auto simp: record_disagreement_def)
  show ?thesis
  proof (cases "resolve_device n m")
    case None
    with assms n show ?thesis by (auto simp: record_disagreement_def reported_link_def)
  next
    case (Some nb)
    from assms n Some obtain ev others mirrored where o: "map_of evs nb = Some ev" "lldp_records ev = Some others"
      "any_m (mirrors m device r) others = Some mirrored"
      "(if mirrored then Some [] else do { actual \<leftarrow> seen_on r others; l \<leftarrow> key_of r ''local_interface''; p \<leftarrow> key_of r ''neighbor_interface'';
         Some [\<lparr>ld_device = device, ld_local = l, ld_claims = nb, ld_reported = n, ld_claims_interface = p, ld_actual = actual\<rparr>] }) = Some es"
      by (auto simp: record_disagreement_def bind_Some_iff)
    have rows: "lldp_rows evs nb = others" using o by (simp add: lldp_rows_def)
    have b: "mirrored = list_ex (answers_back m device r) others" by (rule any_m_value [OF o(3)]) (rule mirrors_answers)
    show ?thesis
    proof (cases mirrored)
      case True
      with o(4) b rows n Some show ?thesis by (auto simp: reported_link_def)
    next
      case False
      with o(4) obtain actual l p where a: "seen_on r others = Some actual" "field r ''local_interface'' = l" "field r ''neighbor_interface'' = p"
        "es = [\<lparr>ld_device = device, ld_local = l, ld_claims = nb, ld_reported = n, ld_claims_interface = p, ld_actual = actual\<rparr>]"
        by (auto simp: bind_Some_iff dest!: key_of_field)
      have "reported_link evs m device r e \<longleftrightarrow> e \<in> set es"
        using n Some a(2,3) by (cases e) (auto simp: reported_link_def a(4) seen_on_rows [OF a(1)] rows)
      then show ?thesis using False b rows a(4) by auto
    qed
  qed
qed

lemma map_m_concat_mem: "map_m f xs = Some yss \<Longrightarrow> e \<in> set (concat yss) \<longleftrightarrow> (\<exists>x\<in>set xs. \<exists>ys. f x = Some ys \<and> e \<in> set ys)"
  by (induction xs arbitrary: yss) (auto simp: bind_Some_iff)

text \<open>C26: An LLDP disagreement is exactly a claim that is not answered.  The report lists, for every device and every
  row whose neighbor name resolves (to a label, or to the hostname a device was configured with), the row exactly
  when no row of that neighbor names the device back on the claimed port; it carries the name as
  reported and all that the neighbor does report on that port.  A label always names its own device,
  whatever hostnames are configured.\<close>

theorem disagreements_are_unanswered_claims:
  assumes "distinct (map (casefold \<circ> fst) evs)" and "find_lldp_disagreements evs = Some ds"
  shows "(e \<in> set ds \<longleftrightarrow> (\<exists>device\<in>fst ` set evs. \<exists>r\<in>set (lldp_rows evs device). reported_link evs (hostname_map evs) device r e \<and>
      \<not> list_ex (answers_back (hostname_map evs) device r) (lldp_rows evs (ld_claims e)))) \<and>
    list_all (\<lambda>name. map_of (hostname_map evs) (casefold name) = Some name) (map fst evs)"
proof -
  let ?m = "hostname_map evs"
  have names: "distinct (map fst evs)" using assms(1) by (metis distinct_map map_map)
  from assms(2) obtain dss where dss: "map_m (device_disagreements evs ?m) evs = Some dss" "ds = concat dss"
    by (auto simp: find_lldp_disagreements_def)
  have dev: "(\<exists>es. device_disagreements evs ?m p = Some es \<and> e \<in> set es) \<longleftrightarrow>
      (\<exists>r\<in>set (lldp_rows evs (fst p)). reported_link evs ?m (fst p) r e \<and> \<not> list_ex (answers_back ?m (fst p) r) (lldp_rows evs (ld_claims e)))"
    if p: "p \<in> set evs" for p
  proof -
    obtain device ev where pe: "p = (device, ev)" by fastforce
    from p map_m_Some_conv [THEN iffD1, OF dss(1)] obtain es where es: "device_disagreements evs ?m p = Some es"
      by (auto simp: list_all2_conv_all_nth in_set_conv_nth)
    then obtain rs found where rs: "lldp_records ev = Some rs" "map_m (record_disagreement evs ?m device) rs = Some found" "es = concat found"
      by (auto simp: device_disagreements_def pe bind_Some_iff)
    have rows: "lldp_rows evs device = rs" using p names rs(1) by (simp add: lldp_rows_def pe map_of_is_SomeI)
    have "(\<exists>ys. record_disagreement evs ?m device r = Some ys \<and> e \<in> set ys) \<longleftrightarrow>
        reported_link evs ?m device r e \<and> \<not> list_ex (answers_back ?m device r) (lldp_rows evs (ld_claims e))" if "r \<in> set rs" for r
    proof -
      obtain ys where "record_disagreement evs ?m device r = Some ys"
        using map_m_Some_conv [THEN iffD1, OF rs(2)] \<open>r \<in> set rs\<close> by (auto simp: list_all2_conv_all_nth in_set_conv_nth)
      then show ?thesis using record_disagreement_mem by simp
    qed
    then show ?thesis
      unfolding pe fst_conv rows using es map_m_concat_mem [OF rs(2), of e] by (simp add: pe rs(3) cong: bex_cong)
  qed
  have "e \<in> set ds \<longleftrightarrow> (\<exists>p\<in>set evs. \<exists>es. device_disagreements evs ?m p = Some es \<and> e \<in> set es)"
    unfolding dss(2) by (rule map_m_concat_mem [OF dss(1)])
  also have "\<dots> \<longleftrightarrow> (\<exists>device\<in>fst ` set evs. \<exists>r\<in>set (lldp_rows evs device). reported_link evs ?m device r e \<and>
      \<not> list_ex (answers_back ?m device r) (lldp_rows evs (ld_claims e)))" using dev by (simp add: image_iff)
  finally show ?thesis using labels_win [OF assms(1)] by (auto simp: list_all_iff)
qed

subsection \<open>The neighbourhood is bounded reachability\<close>

text \<open>How a device is walked: the first one as the subject asks, any other by all its ports, if it has an adjacency.\<close>

definition reach_of :: "(string \<times> dict) list \<Rightarrow> string \<Rightarrow> reach \<Rightarrow> string \<Rightarrow> reach option" where
  "reach_of evs at start d = (if d = at then Some start
     else case entry_of evs d of Some [(_, r)] \<Rightarrow> Some r | _ \<Rightarrow> None)"

definition found_from ::
  "(string \<times> dict) list \<Rightarrow> lldp_disagreement list \<Rightarrow> string \<Rightarrow> reach \<Rightarrow> string \<Rightarrow> string list \<times> hop_disagreement list" where
  "found_from evs fabric at start d = (case reach_of evs at start d of
     Some r \<Rightarrow> (case candidates_of evs (hostname_map evs) fabric d r of Some x \<Rightarrow> x | None \<Rightarrow> ([], [])) | None \<Rightarrow> ([], []))"

definition one_hop :: "(string \<times> dict) list \<Rightarrow> lldp_disagreement list \<Rightarrow> string \<Rightarrow> reach \<Rightarrow> string \<Rightarrow> string \<Rightarrow> bool" where
  "one_hop evs fabric at start d c \<longleftrightarrow> c \<in> set (fst (found_from evs fabric at start d))"

definition walks_set :: "(string list \<Rightarrow> string list) \<Rightarrow> bool" where
  "walks_set order \<longleftrightarrow> (\<forall>xs. set (order xs) = set xs)"

lemma entry_of_cases:
  assumes "entry_of evs c = Some es"
  shows "es = [] \<or> (\<exists>r. es = [(c, r)])"
proof (cases "map_of evs c")
  case None
  with assms show ?thesis by (simp add: entry_of_def)
next
  case (Some ev)
  show ?thesis
  proof (cases "session_interfaces ev True []")
    case None
    with assms Some show ?thesis by (simp add: entry_of_def)
  next
    case s: (Some s)
    with assms Some have "es = (case s of Some (p # ps, _) \<Rightarrow> [(c, (True, [], p # ps))] | _ \<Rightarrow> [])" by (simp add: entry_of_def)
    then show ?thesis by (cases s; cases "fst (the s)") (auto split: prod.splits)
  qed
qed

text \<open>One pass over the frontier.\<close>

lemma expand_step:
  assumes "walks_set order" and "expand order evs (hostname_map evs) fabric frontier devices = Some (devices1, ds, onward)"
    and "at \<in> set devices" and "\<And>d r. (d, r) \<in> set frontier \<Longrightarrow> reach_of evs at start d = Some r"
  shows "set devices1 = set devices \<union> (\<Union>d\<in>fst ` set frontier. set (fst (found_from evs fabric at start d)))"
    and "set ds = (\<Union>d\<in>fst ` set frontier. set (snd (found_from evs fabric at start d)))"
    and "set onward = {(c, r). c \<in> set devices1 - set devices \<and> reach_of evs at start c = Some r}"
proof -
  have "set devices1 = set devices \<union> (\<Union>d\<in>fst ` set frontier. set (fst (found_from evs fabric at start d))) \<and>
    set ds = (\<Union>d\<in>fst ` set frontier. set (snd (found_from evs fabric at start d))) \<and>
    set onward = {(c, r). c \<in> set devices1 - set devices \<and> reach_of evs at start c = Some r}"
    using assms(2-4)
  proof (induction frontier arbitrary: devices ds onward)
    case Nil
    then show ?case by simp
  next
    case (Cons f frontier)
    obtain d r where f: "f = (d, r)" by (cases f)
    from Cons.prems(1) f obtain cs ds0 es ds1 onward1 where
      c: "candidates_of evs (hostname_map evs) fabric d r = Some (cs, ds0)"
      and es: "map_m (entry_of evs) (order (filter (\<lambda>c. c \<notin> set devices) (from_keys cs))) = Some es"
      and x: "expand order evs (hostname_map evs) fabric frontier (devices @ order (filter (\<lambda>c. c \<notin> set devices) (from_keys cs))) = Some (devices1, ds1, onward1)"
      and o: "ds = ds0 @ ds1" "onward = concat es @ onward1"
      by (auto simp: bind_Some_iff Let_def)
    let ?new = "order (filter (\<lambda>c. c \<notin> set devices) (from_keys cs))"
    have new: "set ?new = set cs - set devices" using assms(1) by (auto simp: walks_set_def)
    have found: "found_from evs fabric at start d = (cs, ds0)" using Cons.prems(3) [of d r] c by (simp add: f found_from_def)
    have ih: "set devices1 = set (devices @ ?new) \<union> (\<Union>d\<in>fst ` set frontier. set (fst (found_from evs fabric at start d))) \<and>
      set ds1 = (\<Union>d\<in>fst ` set frontier. set (snd (found_from evs fabric at start d))) \<and>
      set onward1 = {(c, r). c \<in> set devices1 - set (devices @ ?new) \<and> reach_of evs at start c = Some r}"
      by (rule Cons.IH [OF x]) (use Cons.prems in auto)
    have "(c, q) \<in> set (concat es) \<longleftrightarrow> c \<in> set ?new \<and> reach_of evs at start c = Some q" for c q
    proof -
      have "(c, q) \<in> set (concat es) \<longleftrightarrow> (\<exists>y\<in>set ?new. \<exists>ys. entry_of evs y = Some ys \<and> (c, q) \<in> set ys)"
        by (rule map_m_concat_mem [OF es])
      also have "\<dots> \<longleftrightarrow> c \<in> set ?new \<and> (\<exists>ys. entry_of evs c = Some ys \<and> (c, q) \<in> set ys)"
        using entry_of_cases by fastforce
      also have "\<dots> \<longleftrightarrow> c \<in> set ?new \<and> reach_of evs at start c = Some q"
        using Cons.prems(2) new entry_of_cases [of evs c] by (auto simp: reach_of_def split: option.splits)
      finally show ?thesis .
    qed
    then have entered: "set (concat es) = {(c, q). c \<in> set ?new \<and> reach_of evs at start c = Some q}" by (auto simp del: set_concat)
    have "set onward = {(c, q). c \<in> set devices1 - set devices \<and> reach_of evs at start c = Some q}"
      unfolding o set_append entered using ih new by auto
    then show ?case using ih new found by (auto simp: f o)
  qed
  then show "set devices1 = set devices \<union> (\<Union>d\<in>fst ` set frontier. set (fst (found_from evs fabric at start d)))"
    and "set ds = (\<Union>d\<in>fst ` set frontier. set (snd (found_from evs fabric at start d)))"
    and "set onward = {(c, r). c \<in> set devices1 - set devices \<and> reach_of evs at start c = Some r}" by blast+
qed

definition hop_ball :: "('a \<Rightarrow> 'a \<Rightarrow> bool) \<Rightarrow> nat \<Rightarrow> 'a set \<Rightarrow> 'a set" where
  "hop_ball h n D = {c. \<exists>k<n. \<exists>d\<in>D. (h ^^ k) d c}"

lemma hop_ball_Suc: "hop_ball h (Suc n) D = D \<union> hop_ball h n (D \<union> {c. \<exists>d\<in>D. h d c})"
proof (intro equalityI subsetI)
  fix c
  assume "c \<in> hop_ball h (Suc n) D"
  then obtain k d where k: "k < Suc n" "d \<in> D" "(h ^^ k) d c" by (auto simp: hop_ball_def)
  show "c \<in> D \<union> hop_ball h n (D \<union> {c. \<exists>d\<in>D. h d c})"
  proof (cases k)
    case (Suc j)
    with k(3) obtain e where "h d e" "(h ^^ j) e c" by (blast elim: relpowp_Suc_E2)
    with k Suc show ?thesis by (auto simp: hop_ball_def)
  qed (use k in simp)
next
  fix c
  assume "c \<in> D \<union> hop_ball h n (D \<union> {c. \<exists>d\<in>D. h d c})"
  then consider "c \<in> D" | k d where "k < n" "d \<in> D" "(h ^^ k) d c" | k d e where "k < n" "d \<in> D" "h d e" "(h ^^ k) e c"
    by (auto simp: hop_ball_def)
  then show "c \<in> hop_ball h (Suc n) D"
  proof cases
    case 1
    then show ?thesis by (auto simp: hop_ball_def intro!: exI [of _ 0])
  next
    case (2 k d)
    then show ?thesis unfolding hop_ball_def using less_SucI by blast
  next
    case (3 k d e)
    then have "(h ^^ Suc k) d c" by (blast intro: relpowp_Suc_I2)
    with 3 show ?thesis unfolding hop_ball_def by blast
  qed
qed

lemma hop_ball_closed: "(\<And>d c. d \<in> D \<Longrightarrow> h d c \<Longrightarrow> c \<in> D) \<Longrightarrow> hop_ball h n D \<subseteq> D"
proof (induction n)
  case (Suc n)
  then have "D \<union> {c. \<exists>d\<in>D. h d c} = D" by blast
  with Suc show ?case by (simp add: hop_ball_Suc)
qed (simp add: hop_ball_def)

lemma UN_frontier: "F \<subseteq> A \<Longrightarrow> (\<And>d. d \<in> A \<Longrightarrow> d \<notin> F \<Longrightarrow> f d \<subseteq> D) \<Longrightarrow> D \<union> (\<Union>d\<in>F. f d) = D \<union> (\<Union>d\<in>A. f d)"
  by blast

lemma hops_bounded:
  assumes "walks_set order" and "hops order evs (hostname_map evs) fabric n frontier devices = Some (devices2, ds)"
    and "at \<in> set devices" and "fst ` set frontier \<subseteq> set devices"
    and "\<And>d r. (d, r) \<in> set frontier \<Longrightarrow> reach_of evs at start d = Some r"
    and "\<And>d. d \<in> set devices \<Longrightarrow> d \<notin> fst ` set frontier \<Longrightarrow>
      set (fst (found_from evs fabric at start d)) \<subseteq> set devices \<and> set (snd (found_from evs fabric at start d)) \<subseteq> R"
  shows "set devices2 = hop_ball (one_hop evs fabric at start) (Suc n) (set devices) \<and>
    R \<union> set ds = R \<union> (\<Union>d\<in>hop_ball (one_hop evs fabric at start) n (set devices). set (snd (found_from evs fabric at start d)))"
  using assms(2-6)
proof (induction n arbitrary: frontier devices ds R)
  case 0
  then show ?case by (simp add: hop_ball_def)
next
  case (Suc n)
  let ?h = "one_hop evs fabric at start" and ?cs = "\<lambda>d. set (fst (found_from evs fabric at start d))"
    and ?ds = "\<lambda>d. set (snd (found_from evs fabric at start d))"
  show ?case
  proof (cases "frontier = []")
    case True
    with Suc.prems have closed: "hop_ball ?h k (set devices) \<subseteq> set devices" for k
      by (intro hop_ball_closed) (auto simp: one_hop_def)
    have "set devices \<subseteq> hop_ball ?h (Suc k) (set devices)" for k by (simp add: hop_ball_Suc)
    with closed have ball: "hop_ball ?h (Suc k) (set devices) = set devices" for k by blast
    show ?thesis unfolding ball using Suc.prems(1,5) True by auto
  next
    case False
    with Suc.prems(1) obtain devices1 ds0 onward ds1 where x:
      "expand order evs (hostname_map evs) fabric frontier devices = Some (devices1, ds0, onward)"
      "hops order evs (hostname_map evs) fabric n onward devices1 = Some (devices2, ds1)" "ds = ds0 @ ds1"
      by (auto simp: bind_Some_iff)
    note step = expand_step [OF assms(1) x(1) Suc.prems(2,4)]
    have left: "?cs d \<subseteq> set devices" "?ds d \<subseteq> R" if "d \<in> set devices" "d \<notin> fst ` set frontier" for d
      using Suc.prems(5) [OF that] by blast+
    have c1: "set devices1 = set devices \<union> (\<Union>d\<in>fst ` set frontier. ?cs d)" by (rule step(1))
    have c2: "set ds0 = (\<Union>d\<in>fst ` set frontier. ?ds d)" by (rule step(2))
    from c1 have "set devices1 = set devices \<union> (\<Union>d\<in>fst ` set frontier. ?cs d)" .
    also have "\<dots> = set devices \<union> (\<Union>d\<in>set devices. ?cs d)" by (rule UN_frontier [OF Suc.prems(3) left(1)])
    also have "\<dots> = set devices \<union> {c. \<exists>d\<in>set devices. ?h d c}" by (auto simp: one_hop_def)
    finally have d1: "set devices1 = set devices \<union> {c. \<exists>d\<in>set devices. ?h d c}" .
    have ds0: "R \<union> set ds0 = R \<union> (\<Union>d\<in>set devices. ?ds d)"
      unfolding c2 by (rule UN_frontier [OF Suc.prems(3) left(2)])
    have ih: "set devices2 = hop_ball ?h (Suc n) (set devices1) \<and>
        (R \<union> set ds0) \<union> set ds1 = (R \<union> set ds0) \<union> (\<Union>d\<in>hop_ball ?h n (set devices1). ?ds d)"
    proof (rule Suc.IH [OF x(2)])
      show "at \<in> set devices1" "fst ` set onward \<subseteq> set devices1" using Suc.prems(2) step by auto
      show "reach_of evs at start d = Some r" if "(d, r) \<in> set onward" for d r using that step(3) by simp
      show "?cs d \<subseteq> set devices1 \<and> ?ds d \<subseteq> R \<union> set ds0" if d: "d \<in> set devices1" "d \<notin> fst ` set onward" for d
      proof (cases "d \<in> set devices")
        case True
        show ?thesis
        proof (cases "d \<in> fst ` set frontier")
          case True
          then show ?thesis unfolding c1 c2 by blast
        next
          case False
          with \<open>d \<in> set devices\<close> show ?thesis using left [of d] c1 by blast
        qed
      next
        case False
        then have "reach_of evs at start d = None" using d step(3) by (cases "reach_of evs at start d") (auto simp: image_iff)
        then show ?thesis by (simp add: found_from_def)
      qed
    qed
    moreover note ds0
    have ball: "hop_ball ?h (Suc k) (set devices) = set devices \<union> hop_ball ?h k (set devices1)" for k
      unfolding d1 by (rule hop_ball_Suc)
    have "set devices \<subseteq> hop_ball ?h (Suc n) (set devices1)" unfolding hop_ball_Suc [of ?h n] c1 by blast
    then have "set devices2 = hop_ball ?h (Suc (Suc n)) (set devices)" unfolding ball [of "Suc n"] using ih by (simp only: Un_absorb1)
    moreover have "R \<union> set ds = R \<union> (\<Union>d\<in>hop_ball ?h (Suc n) (set devices). ?ds d)"
    proof -
      have "R \<union> set ds = (R \<union> set ds0) \<union> set ds1" unfolding x(3) by (simp only: set_append Un_assoc)
      also have "\<dots> = (R \<union> (\<Union>d\<in>set devices. ?ds d)) \<union> (\<Union>d\<in>hop_ball ?h n (set devices1). ?ds d)" using ih ds0 by (simp only:)
      also have "\<dots> = R \<union> (\<Union>d\<in>hop_ball ?h (Suc n) (set devices). ?ds d)" unfolding ball by (simp only: UN_Un Un_assoc)
      finally show ?thesis .
    qed
    ultimately show ?thesis by (intro conjI)
  qed
qed

text \<open>C27: A neighbourhood is bounded reachability.  For depth two or more its devices are exactly those reached from the
  subject's device in fewer than \<open>depth\<close> hops, where a hop leads to what IS-IS or LLDP of the device name on the ports it
  is walked by, or to what a disagreement about such a port names; the order in which sets are walked does not
  matter; the disagreements are exactly those of the devices walked, and the result is widened exactly when there is one.\<close>

theorem neighborhood_is_bounded_reachability:
  assumes "walks_set order" and "evidence_neighborhood order entries evs device subject depth = Some nb"
    and "nb_status nb = NeighborhoodResolved" and "2 \<le> depth"
  shows "\<exists>at fabric. nb_subject_device nb = Some at \<and> find_lldp_disagreements evs = Some fabric \<and> nb_depth nb = depth \<and>
    (let hop = one_hop evs fabric at (is_ipv4 subject, subject, nb_interfaces nb)
     in set (nb_devices nb) = {d. \<exists>k<nat depth. (hop ^^ k) at d} \<and>
        set (nb_disagreements nb) = (\<Union>d\<in>{d. \<exists>k<nat depth - 1. (hop ^^ k) at d}.
          set (snd (found_from evs fabric at (is_ipv4 subject, subject, nb_interfaces nb) d))) \<and>
        (nb_widened nb \<longleftrightarrow> nb_disagreements nb \<noteq> []))"
proof -
  from assms(2-4) obtain at wide ev where at: "subject_shape_device entries device subject = (Some at, NeighborhoodResolved, wide)"
    "wide = is_ipv4 subject" "map_of evs at = Some ev"
    by (auto simp: evidence_neighborhood_def subject_shape_device_def bare_neighborhood_def split: if_splits option.splits)
  from assms(2-4) at obtain ports rs where s: "session_interfaces ev wide subject = Some (Some (ports, rs))"
    by (auto simp: evidence_neighborhood_def bare_neighborhood_def bind_Some_iff split: if_splits option.splits)
  from assms(2,4) at s obtain fabric devices ds where h: "find_lldp_disagreements evs = Some fabric"
    "hops order evs (hostname_map evs) fabric (nat depth - 1) [(at, (wide, subject, ports))] [at] = Some (devices, ds)"
    "nb = (bare_neighborhood device subject (Some at) depth NeighborhoodResolved [at])\<lparr>nb_interfaces := ports, nb_records := rs,
       nb_devices := devices, nb_widened := ds \<noteq> [], nb_disagreements := ds\<rparr>"
    by (auto simp: evidence_neighborhood_def bind_Some_iff Let_def split: if_splits)
  let ?start = "(wide, subject, ports)"
  have "set devices = hop_ball (one_hop evs fabric at ?start) (Suc (nat depth - 1)) (set [at]) \<and>
      {} \<union> set ds = {} \<union> (\<Union>d\<in>hop_ball (one_hop evs fabric at ?start) (nat depth - 1) (set [at]). set (snd (found_from evs fabric at ?start d)))"
    by (rule hops_bounded [OF assms(1) h(2)]) (auto simp: reach_of_def)
  moreover have "Suc (nat depth - 1) = nat depth" using assms(4) by simp
  ultimately show ?thesis using h(1,3) at(2) by (auto simp: hop_ball_def bare_neighborhood_def Let_def)
qed

subsection \<open>Closed examples\<close>

definition lldp_row :: "string \<Rightarrow> string \<Rightarrow> string \<Rightarrow> json" where
  "lldp_row port neighbor port1 = JDict [(''local_interface'', JStr port), (''neighbor'', JStr neighbor), (''neighbor_interface'', JStr port1)]"

definition isis_row :: "string \<Rightarrow> string \<Rightarrow> json" where
  "isis_row port system = JDict [(''interface'', JStr port), (''system_id'', JStr system)]"

definition named_evidence :: "string \<Rightarrow> json list \<Rightarrow> json list \<Rightarrow> dict" where
  "named_evidence host isis lldp = [(''facts'', parsed_section [] [(''hostname'', JStr host)]), (''isis'', parsed_section isis []),
     (''lldp'', parsed_section lldp [])]"

text \<open>PE1 - P1 - P2; P1 runs under another hostname and has no IS-IS adjacency.\<close>

definition chain :: "(string \<times> dict) list" where
  "chain = [(''PE1'', named_evidence ''PE1'' [isis_row ''Gi0'' ''LEAF05''] [lldp_row ''Gi0'' ''LEAF05'' ''Gi1'']),
     (''P1'', named_evidence ''LEAF05'' [] [lldp_row ''Gi1'' ''PE1'' ''Gi0'', lldp_row ''Gi2'' ''P2'' ''Gi3'']),
     (''P2'', named_evidence ''P2'' [isis_row ''Gi3'' ''P1''] [lldp_row ''Gi3'' ''P1'' ''Gi9''])]"

definition chain_report :: "lldp_disagreement list" where
  "chain_report = [\<lparr>ld_device = ''P2'', ld_local = JStr ''Gi3'', ld_claims = ''P1'', ld_reported = JStr ''P1'',
     ld_claims_interface = JStr ''Gi9'', ld_actual = []\<rparr>]"

lemma chain_disagreements: "find_lldp_disagreements chain = Some chain_report"
  by code_simp

definition chain_neighborhood :: neighborhood where
  "chain_neighborhood = (bare_neighborhood ''PE1'' ''Gi0'' (Some ''PE1'') 3 NeighborhoodResolved [''PE1'', ''P1''])
     \<lparr>nb_interfaces := [JStr ''Gi0''], nb_records := [isis_row ''Gi0'' ''LEAF05'']\<rparr>"

lemma chain_resolved: "evidence_neighborhood id [] chain ''PE1'' ''Gi0'' 3 = Some chain_neighborhood"
  by code_simp

theorem unanswered_witness:
  "list_all (\<lambda>name. map_of (hostname_map chain) (casefold name) = Some name) [''PE1'', ''P1'', ''P2''] \<and>
   resolve_device (JStr ''leaf05'') (hostname_map chain) = Some ''P1'' \<and>
   (\<exists>device\<in>fst ` set chain. \<exists>r\<in>set (lldp_rows chain device). reported_link chain (hostname_map chain) device r (hd chain_report))"
proof -
  have d: "distinct (map (casefold \<circ> fst) chain)" by code_simp
  note t = disagreements_are_unanswered_claims [OF d chain_disagreements, of "hd chain_report"]
  have "map fst chain = [''PE1'', ''P1'', ''P2'']" by (simp add: chain_def)
  moreover have "hd chain_report \<in> set chain_report" by (simp add: chain_report_def)
  moreover have "resolve_device (JStr ''leaf05'') (hostname_map chain) = Some ''P1''" by code_simp
  ultimately show ?thesis using t by auto
qed

text \<open>P2 is two links away and P1's own LLDP names it, but P1 has no IS-IS adjacency: depth three stops at P1.\<close>

theorem neighborhood_witness:
  "{d. \<exists>k<3. (one_hop chain chain_report ''PE1'' (False, ''Gi0'', [JStr ''Gi0'']) ^^ k) ''PE1'' d} = {''PE1'', ''P1''} \<and>
   list_ex (\<lambda>r. resolve_device (field r ''neighbor'') (hostname_map chain) = Some ''P2'') (lldp_rows chain ''P1'')"
proof -
  have o: "walks_set id" by (simp add: walks_set_def)
  have "nb_status chain_neighborhood = NeighborhoodResolved" by (simp add: chain_neighborhood_def bare_neighborhood_def)
  from neighborhood_is_bounded_reachability [OF o chain_resolved this]
  have "set [''PE1'', ''P1''] = {d. \<exists>k<3. (one_hop chain chain_report ''PE1'' (is_ipv4 ''Gi0'', ''Gi0'', [JStr ''Gi0'']) ^^ k) ''PE1'' d}"
    by (simp add: chain_disagreements chain_neighborhood_def bare_neighborhood_def Let_def)
  moreover have "is_ipv4 ''Gi0'' = False" by code_simp
  moreover have "list_ex (\<lambda>r. resolve_device (field r ''neighbor'') (hostname_map chain) = Some ''P2'') (lldp_rows chain ''P1'')" by code_simp
  ultimately show ?thesis by simp
qed

end
