(* ===== verification/Fabric_Audit.thy ===== *)
theory Fabric_Audit
  imports Topology
begin

section \<open>The fabric judged against itself\<close>

text \<open>
  Models \<open>audit.py\<close>: five rules over the evidence of all devices, what each could not read, and the
  severity of the whole.  A finding is a value with the devices it names and what its message quotes;
  \<open>None\<close> is an exception, as for a section whose parsed part is no dictionary.
\<close>

definition audit_parsed :: "json \<Rightarrow> string \<Rightarrow> json option option" where
  "audit_parsed ev intent = (case ev of
     JDict e \<Rightarrow> (case dict_get e intent of
       JDict s \<Rightarrow> do {
         data \<leftarrow> as_dict (py_or (dict_get s ''data'') (JDict []));
         Some (if dict_get data ''parse_status'' = JStr PARSE_OK then Some (py_or (dict_get data ''parsed'') (JDict [])) else None) }
     | _ \<Rightarrow> Some None)
   | _ \<Rightarrow> Some None)"

fun split_ok :: "(string \<times> json) list \<Rightarrow> string \<Rightarrow> ((string \<times> json) list \<times> string list) option" where
  "split_ok [] intent = Some ([], [])"
| "split_ok ((name, ev) # evs) intent = do {
     p \<leftarrow> audit_parsed ev intent;
     (ok, un) \<leftarrow> split_ok evs intent;
     Some (case p of Some v \<Rightarrow> ((name, v) # ok, un) | None \<Rightarrow> (ok, name # un)) }"

text \<open>\<open>(p.get("meta") or {}).get(key)\<close> and \<open>p.get("records") or []\<close>\<close>

definition meta_of :: "json \<Rightarrow> string \<Rightarrow> json option" where
  "meta_of p k = do { d \<leftarrow> as_dict p; m \<leftarrow> as_dict (py_or (dict_get d ''meta'') (JDict [])); Some (dict_get m k) }"

definition rows_of :: "json \<Rightarrow> json list option" where
  "rows_of p = do { d \<leftarrow> as_dict p; iterate (py_or (dict_get d ''records'') (JList [])) }"

datatype audit_detail =
    RouterIdClaimed string "string list" | MtuMismatch "string \<times> json \<times> json" "string \<times> json \<times> json" | BgpIdle string json nat
  | HostnameDrift string string | ManyLocalAs "(string \<times> string list) list"

definition detail_devices :: "audit_detail \<Rightarrow> string list" where
  "detail_devices d = (case d of
     RouterIdClaimed _ names \<Rightarrow> sort names
   | MtuMismatch (a, _, _) (b, _, _) \<Rightarrow> sort [a, b]
   | BgpIdle a _ _ \<Rightarrow> [a]
   | HostnameDrift a _ \<Rightarrow> [a]
   | ManyLocalAs groups \<Rightarrow> sort (concat (map snd groups)))"

text \<open>\<open>owners.setdefault(str(value), []).append(name)\<close> over the devices whose value is not empty.\<close>

definition group_by_meta :: "string \<Rightarrow> (string \<times> json) list \<Rightarrow> (string \<times> string list) list option" where
  "group_by_meta k ps = do {
     vs \<leftarrow> map_m (\<lambda>(name, p). do { v \<leftarrow> meta_of p k; Some (name, v) }) ps;
     let tagged = map (\<lambda>(name, v). (py_str v, name)) (filter (\<lambda>(_, v). truthy v) vs)
     in Some (map (\<lambda>t. (t, map snd (filter (\<lambda>(u, _). u = t) tagged))) (from_keys (map fst tagged))) }"

subsection \<open>The rules\<close>

type_synonym audit_rule = "(string \<times> json) list \<Rightarrow> (audit_detail list \<times> string list) option"

definition duplicate_router_id :: audit_rule where
  "duplicate_router_id evs = do {
     (parsed, un) \<leftarrow> split_ok evs ''bgp'';
     owners \<leftarrow> group_by_meta ''router_id'' parsed;
     Some (map (\<lambda>(rid, names). RouterIdClaimed rid names) (filter (\<lambda>(_, names). 1 < length names) owners), un) }"

definition audit_canonical :: "json \<Rightarrow> string option" where
  "audit_canonical v = (if truthy v then (case v of JStr s \<Rightarrow> Some (canonical s) | _ \<Rightarrow> None) else Some [])"

definition mtu_of :: "(string \<times> json) list \<Rightarrow> string \<Rightarrow> json \<Rightarrow> json option" where
  "mtu_of intf device port = do {
     wanted \<leftarrow> audit_canonical port;
     rows \<leftarrow> (case map_of intf device of Some p \<Rightarrow> rows_of (py_or p (JDict [])) | None \<Rightarrow> Some []);
     hit \<leftarrow> find_m (\<lambda>r. do { d \<leftarrow> as_dict r; c \<leftarrow> audit_canonical (dict_get_or d ''interface'' (JStr [])); Some (c = wanted) }) rows;
     Some (case hit of Some r \<Rightarrow> field r ''mtu'' | None \<Rightarrow> JNull) }"

text \<open>The sorted pair of both ends: ends of one device are only comparable when they are equal or both texts.\<close>

definition link_comparable :: "string \<times> json \<Rightarrow> string \<times> json \<Rightarrow> bool" where
  "link_comparable a b \<longleftrightarrow> fst a \<noteq> fst b \<or> py_eq (snd a) (snd b) \<or> (is_string (snd a) \<and> is_string (snd b)) \<or>
     (numeric (snd a) \<noteq> None \<and> numeric (snd b) \<noteq> None)"

definition same_end :: "string \<times> json \<Rightarrow> string \<times> json \<Rightarrow> bool" where
  "same_end a b \<longleftrightarrow> fst a = fst b \<and> py_eq (snd a) (snd b)"

definition seen_link :: "((string \<times> json) \<times> (string \<times> json)) list \<Rightarrow> string \<times> json \<Rightarrow> string \<times> json \<Rightarrow> bool" where
  "seen_link seen a b \<longleftrightarrow> list_ex (\<lambda>(c, d). (same_end a c \<and> same_end b d) \<or> (same_end a d \<and> same_end b c)) seen"

fun mtu_rows ::
  "(string \<times> json) list \<Rightarrow> (string \<times> string) list \<Rightarrow> string \<Rightarrow> json list \<Rightarrow> ((string \<times> json) \<times> (string \<times> json)) list \<Rightarrow>
   (audit_detail list \<times> ((string \<times> json) \<times> (string \<times> json)) list) option" where
  "mtu_rows intf m device [] seen = Some ([], seen)"
| "mtu_rows intf m device (r # rs) seen = do {
     d \<leftarrow> as_dict r;
     case resolve_device (dict_get_or d ''neighbor'' (JStr [])) m of
       None \<Rightarrow> mtu_rows intf m device rs seen
     | Some neighbor \<Rightarrow>
         if map_of intf neighbor = None \<or> map_of intf device = None then mtu_rows intf m device rs seen
         else
           (let a = (device, dict_get d ''local_interface''); b = (neighbor, dict_get d ''neighbor_interface'') in
            if \<not> link_comparable a b \<or> \<not> hashable (snd a) \<or> \<not> hashable (snd b) then None
            else if seen_link seen a b then mtu_rows intf m device rs seen
            else do {
              x \<leftarrow> mtu_of intf device (dict_get_or d ''local_interface'' (JStr []));
              y \<leftarrow> mtu_of intf neighbor (dict_get_or d ''neighbor_interface'' (JStr []));
              if truthy x \<and> truthy y \<and> \<not> py_eq x y then do {
                l \<leftarrow> map_of d ''local_interface'';
                n \<leftarrow> map_of d ''neighbor_interface'';
                (fs, seen1) \<leftarrow> mtu_rows intf m device rs ((a, b) # seen);
                Some (MtuMismatch (device, l, x) (neighbor, n, y) # fs, seen1) }
              else mtu_rows intf m device rs ((a, b) # seen) }) }"

fun mtu_devices ::
  "(string \<times> json) list \<Rightarrow> (string \<times> string) list \<Rightarrow> (string \<times> json) list \<Rightarrow> ((string \<times> json) \<times> (string \<times> json)) list \<Rightarrow> audit_detail list option" where
  "mtu_devices intf m [] seen = Some []"
| "mtu_devices intf m ((device, p) # ps) seen = do {
     rows \<leftarrow> rows_of p;
     (fs, seen1) \<leftarrow> mtu_rows intf m device rows seen;
     rest \<leftarrow> mtu_devices intf m ps seen1;
     Some (fs @ rest) }"

definition evidence_dict :: "json \<Rightarrow> dict" where
  "evidence_dict v = (case v of JDict d \<Rightarrow> d | _ \<Rightarrow> [])"

definition mtu_mismatch_on_adjacency :: audit_rule where
  "mtu_mismatch_on_adjacency evs = do {
     (lldp, un_lldp) \<leftarrow> split_ok evs ''lldp'';
     (intf, un_intf) \<leftarrow> split_ok evs ''interfaces'';
     fs \<leftarrow> mtu_devices intf (hostname_map (map (\<lambda>(n, v). (n, evidence_dict v)) evs)) lldp [];
     Some (fs, sort (from_keys (un_lldp @ un_intf))) }"

definition hostname_drift_of :: "string \<times> json \<Rightarrow> audit_detail option + string" where
  "hostname_drift_of = (\<lambda>(name, ev). case configured_hostname (evidence_dict ev) of
     None \<Rightarrow> Inr name
   | Some h \<Rightarrow> Inl (if casefold h \<noteq> casefold name then Some (HostnameDrift name h) else None))"

definition hostname_inventory_drift :: audit_rule where
  "hostname_inventory_drift evs = (let rs = map hostname_drift_of evs
     in Some (concat (map (\<lambda>r. case r of Inl (Some f) \<Rightarrow> [f] | _ \<Rightarrow> []) rs), concat (map (\<lambda>r. case r of Inr n \<Rightarrow> [n] | Inl _ \<Rightarrow> []) rs)))"

definition bgp_idle :: "string \<times> json \<Rightarrow> audit_detail list option" where
  "bgp_idle = (\<lambda>(name, p). do {
     rid \<leftarrow> meta_of p ''router_id'';
     if \<not> truthy rid then Some []
     else do {
       rows \<leftarrow> rows_of p;
       up \<leftarrow> any_m (\<lambda>r. do { d \<leftarrow> as_dict r; Some (dict_get d ''session_state'' = JStr ''Established'') }) rows;
       Some (if up then [] else [BgpIdle name rid (length rows)]) } })"

definition isolated_but_configured :: audit_rule where
  "isolated_but_configured evs = do {
     (parsed, un) \<leftarrow> split_ok evs ''bgp'';
     fs \<leftarrow> map_m bgp_idle parsed;
     Some (concat fs, un) }"

definition local_as_mix :: audit_rule where
  "local_as_mix evs = do {
     (parsed, un) \<leftarrow> split_ok evs ''bgp'';
     groups \<leftarrow> group_by_meta ''local_as'' parsed;
     Some (if 1 < length groups then [ManyLocalAs groups] else [], un) }"

subsection \<open>The audit\<close>

record audit_finding =
  af_rule :: string
  af_severity :: string
  af_category :: string
  af_detail :: audit_detail

record audit_row =
  au_name :: string
  au_severity :: string
  au_category :: string
  au_fn :: audit_rule

definition AUDIT_RULES :: "audit_row list" where
  "AUDIT_RULES = [
     \<lparr>au_name = ''duplicate_router_id'', au_severity = ''critical'', au_category = ''fabric'', au_fn = duplicate_router_id\<rparr>,
     \<lparr>au_name = ''mtu_mismatch_on_adjacency'', au_severity = ''warning'', au_category = ''protocol'', au_fn = mtu_mismatch_on_adjacency\<rparr>,
     \<lparr>au_name = ''isolated_but_configured'', au_severity = ''warning'', au_category = ''device'', au_fn = isolated_but_configured\<rparr>,
     \<lparr>au_name = ''hostname_inventory_drift'', au_severity = ''info'', au_category = ''device'', au_fn = hostname_inventory_drift\<rparr>,
     \<lparr>au_name = ''local_as_mix'', au_severity = ''info'', au_category = ''fabric'', au_fn = local_as_mix\<rparr>]"

definition AUDIT_SEVERITY_ORDER :: "string list" where
  "AUDIT_SEVERITY_ORDER = [''ok'', ''info'', ''warning'', ''critical'']"

definition audit_rank :: "string \<Rightarrow> nat" where
  "audit_rank s = length (takeWhile (\<lambda>x. x \<noteq> s) AUDIT_SEVERITY_ORDER)"

fun worst_severity :: "string \<Rightarrow> audit_finding list \<Rightarrow> string" where
  "worst_severity s [] = s"
| "worst_severity s (f # fs) = worst_severity (if audit_rank s < audit_rank (af_severity f) then af_severity f else s) fs"

record audit =
  ad_examined :: "string list"
  ad_severity :: string
  ad_findings :: "audit_finding list"
  ad_categories :: "(string \<times> audit_finding list) list"
  ad_unevaluated :: "(string \<times> string list) list"

definition run_rule :: "(string \<times> json) list \<Rightarrow> audit_row \<Rightarrow> (audit_finding list \<times> (string \<times> string list) list) option" where
  "run_rule evs rule = do {
     (fs, un) \<leftarrow> au_fn rule evs;
     Some (map (\<lambda>f. \<lparr>af_rule = au_name rule, af_severity = au_severity rule, af_category = au_category rule, af_detail = f\<rparr>) fs,
       if un = [] then [] else [(au_name rule, sort un)]) }"

definition run_audit :: "(string \<times> json) list \<Rightarrow> audit option" where
  "run_audit evs = do {
     rs \<leftarrow> map_m (run_rule evs) AUDIT_RULES;
     let fs = concat (map fst rs)
     in Some \<lparr>ad_examined = sort (map fst evs), ad_severity = worst_severity ''ok'' fs, ad_findings = fs,
          ad_categories = map (\<lambda>c. (c, filter (\<lambda>f. af_category f = c) fs)) [''device'', ''protocol'', ''fabric''],
          ad_unevaluated = concat (map snd rs)\<rparr> }"

section \<open>The audit never takes silence for consistency\<close>

definition unread :: "(string \<times> json) list \<Rightarrow> string \<Rightarrow> string list" where
  "unread evs intent = map fst (filter (\<lambda>(_, ev). audit_parsed ev intent = Some None) evs)"

lemma unread_simps [simp]: "unread [] intent = []"
  "unread ((name, ev) # evs) intent = (if audit_parsed ev intent = Some None then name # unread evs intent else unread evs intent)"
  by (simp_all add: unread_def)

lemma split_ok_parts:
  assumes "split_ok evs intent = Some (ok, un)"
  shows "un = unread evs intent" and "fst ` set ok \<union> set un = fst ` set evs" and "distinct (map fst evs) \<Longrightarrow> fst ` set ok \<inter> set un = {}"
proof -
  have "un = unread evs intent \<and> fst ` set ok \<union> set un = fst ` set evs \<and> (distinct (map fst evs) \<longrightarrow> fst ` set ok \<inter> set un = {})"
    using assms
  proof (induction evs intent arbitrary: ok un rule: split_ok.induct)
    case (2 name ev evs intent)
    from 2(2) obtain p ok1 un1 where p: "audit_parsed ev intent = Some p" "split_ok evs intent = Some (ok1, un1)"
      "(ok, un) = (case p of Some v \<Rightarrow> ((name, v) # ok1, un1) | None \<Rightarrow> (ok1, name # un1))"
      by (auto simp: bind_Some_iff)
    note ih = 2(1) [OF p(1) p(2)]
    show ?case using ih p(1,3) by (cases p) auto
  qed simp
  then show "un = unread evs intent" "fst ` set ok \<union> set un = fst ` set evs" "distinct (map fst evs) \<Longrightarrow> fst ` set ok \<inter> set un = {}" by auto
qed

lemma group_members: "group_by_meta k ps = Some gs \<Longrightarrow> (t, names) \<in> set gs \<Longrightarrow> set names \<subseteq> fst ` set ps"
proof -
  assume g: "group_by_meta k ps = Some gs" "(t, names) \<in> set gs"
  then obtain vs where vs: "map_m (\<lambda>(name, p). do { v \<leftarrow> meta_of p k; Some (name, v) }) ps = Some vs"
    and gs: "gs = (let tagged = map (\<lambda>(name, v). (py_str v, name)) (filter (\<lambda>(_, v). truthy v) vs)
      in map (\<lambda>t. (t, map snd (filter (\<lambda>(u, _). u = t) tagged))) (from_keys (map fst tagged)))"
    by (auto simp: group_by_meta_def bind_Some_iff Let_def)
  have n: "set names \<subseteq> fst ` set vs" using g(2) unfolding gs Let_def by force
  have "map fst vs = map fst ps" using vs by (induction ps arbitrary: vs) (auto simp: bind_Some_iff)
  then have "fst ` set vs = fst ` set ps" by (metis list.set_map)
  with n show ?thesis by simp
qed

definition BGP_RULES :: "string list" where
  "BGP_RULES = [''duplicate_router_id'', ''isolated_but_configured'', ''local_as_mix'']"

lemma bgp_rule_devices:
  assumes "rule \<in> set AUDIT_RULES" and "au_name rule \<in> set BGP_RULES" and "au_fn rule evs = Some (fs, un)"
  shows "\<exists>ok. split_ok evs ''bgp'' = Some (ok, un) \<and> (\<forall>f\<in>set fs. set (detail_devices f) \<subseteq> fst ` set ok)"
proof -
  consider "au_fn rule = duplicate_router_id" | "au_fn rule = isolated_but_configured" | "au_fn rule = local_as_mix"
    using assms(1,2) by (auto simp: AUDIT_RULES_def BGP_RULES_def)
  then show ?thesis
  proof cases
    case 1
    with assms(3) obtain ok owners where o: "split_ok evs ''bgp'' = Some (ok, un)" "group_by_meta ''router_id'' ok = Some owners"
      "fs = map (\<lambda>(rid, names). RouterIdClaimed rid names) (filter (\<lambda>(_, names). 1 < length names) owners)"
      by (auto simp: duplicate_router_id_def bind_Some_iff)
    then show ?thesis using group_members [OF o(2)] by (fastforce simp: detail_devices_def)
  next
    case 2
    with assms(3) obtain ok fss where o: "split_ok evs ''bgp'' = Some (ok, un)" "map_m bgp_idle ok = Some fss" "fs = concat fss"
      by (auto simp: isolated_but_configured_def bind_Some_iff)
    have "detail_devices f = [fst p]" if "bgp_idle p = Some ys" "f \<in> set ys" for p ys f
      using that by (auto simp: bgp_idle_def bind_Some_iff detail_devices_def split: if_splits prod.splits)
    then have "set (detail_devices f) \<subseteq> fst ` set ok" if "f \<in> set fs" for f
      using that map_m_concat_mem [OF o(2), of f] unfolding o(3) by force
    with o(1) show ?thesis by blast
  next
    case 3
    with assms(3) obtain ok groups where o: "split_ok evs ''bgp'' = Some (ok, un)" "group_by_meta ''local_as'' ok = Some groups"
      "fs = (if 1 < length groups then [ManyLocalAs groups] else [])"
      by (auto simp: local_as_mix_def bind_Some_iff)
    then show ?thesis using group_members [OF o(2)] by (fastforce simp: detail_devices_def)
  qed
qed

lemma worst_is_max:
  "audit_rank s \<le> audit_rank (worst_severity s fs) \<and> (\<forall>f\<in>set fs. audit_rank (af_severity f) \<le> audit_rank (worst_severity s fs)) \<and>
   (worst_severity s fs = s \<or> worst_severity s fs \<in> af_severity ` set fs)"
proof (induction s fs rule: worst_severity.induct)
  case (2 s f fs)
  then show ?case by (cases "audit_rank s < audit_rank (af_severity f)") auto
qed simp

lemma run_rule_names: "run_rule evs rule = Some (fs, un) \<Longrightarrow> (\<forall>f\<in>set fs. af_rule f = au_name rule) \<and> fst ` set un \<subseteq> {au_name rule}"
  by (auto simp: run_rule_def bind_Some_iff split: if_splits)

text \<open>C31: The audit never takes silence for consistency.  A device whose BGP section was not read is listed as unevaluated by
  each of the three BGP rules, which list no other device, and no finding of these rules names it; the severity of the
  audit is that of its worst finding, and \<open>ok\<close> only stands when no finding is worse.\<close>

theorem audit_names_what_it_could_not_read:
  assumes "run_audit evs = Some a" and "distinct (map fst evs)" and "rule \<in> set BGP_RULES"
  shows "map_of (ad_unevaluated a) rule = (if unread evs ''bgp'' = [] then None else Some (sort (unread evs ''bgp''))) \<and>
    list_all (\<lambda>f. af_rule f \<noteq> rule \<or> set (detail_devices (af_detail f)) \<subseteq> fst ` set evs - set (unread evs ''bgp'')) (ad_findings a) \<and>
    list_all (\<lambda>f. audit_rank (af_severity f) \<le> audit_rank (ad_severity a)) (ad_findings a) \<and>
    ad_severity a \<in> insert ''ok'' (af_severity ` set (ad_findings a))"
proof -
  from assms(1) obtain rs where rs: "map_m (run_rule evs) AUDIT_RULES = Some rs" and a: "ad_findings a = concat (map fst rs)"
    "ad_unevaluated a = concat (map snd rs)" "ad_severity a = worst_severity ''ok'' (concat (map fst rs))"
    by (auto simp: run_audit_def bind_Some_iff Let_def)
  have each: "list_all2 (\<lambda>r x. run_rule evs r = Some x) AUDIT_RULES rs" using rs by (simp add: map_m_Some_conv)
  have ran: "x \<in> set rs \<Longrightarrow> \<exists>r\<in>set AUDIT_RULES. run_rule evs r = Some x" for x
    using each unfolding list_all2_conv_all_nth in_set_conv_nth by (metis nth_mem)
  have bgp: "au_name r = rule \<Longrightarrow> r \<in> set AUDIT_RULES \<Longrightarrow> run_rule evs r = Some (fs, un) \<Longrightarrow>
      un = (if unread evs ''bgp'' = [] then [] else [(rule, sort (unread evs ''bgp''))]) \<and>
      (\<forall>f\<in>set fs. set (detail_devices (af_detail f)) \<subseteq> fst ` set evs - set (unread evs ''bgp''))" for r fs un
  proof -
    assume r: "au_name r = rule" "r \<in> set AUDIT_RULES" "run_rule evs r = Some (fs, un)"
    then obtain gs us where g: "au_fn r evs = Some (gs, us)" "un = (if us = [] then [] else [(rule, sort us)])"
      "af_detail ` set fs = set gs" by (auto simp: run_rule_def bind_Some_iff image_image)
    with bgp_rule_devices [OF r(2) _ g(1)] r(1) assms(3) obtain ok where ok: "split_ok evs ''bgp'' = Some (ok, us)"
      "\<forall>f\<in>set gs. set (detail_devices f) \<subseteq> fst ` set ok" by auto
    note parts = split_ok_parts [OF ok(1)]
    have "fst ` set ok \<subseteq> fst ` set evs - set us" using parts(2) parts(3) [OF assms(2)] by blast
    then have "set (detail_devices (af_detail f)) \<subseteq> fst ` set evs - set us" if "f \<in> set fs" for f
      using ok(2) g(3) that by blast
    then show ?thesis unfolding parts(1) [symmetric] using g(2) by blast
  qed
  have named: "set (detail_devices (af_detail f)) \<subseteq> fst ` set evs - set (unread evs ''bgp'')"
    if f: "f \<in> set (ad_findings a)" "af_rule f = rule" for f
  proof -
    from f(1) obtain fs un where x: "(fs, un) \<in> set rs" "f \<in> set fs" unfolding a(1) by auto
    from ran [OF x(1)] obtain r where r: "r \<in> set AUDIT_RULES" "run_rule evs r = Some (fs, un)" by blast
    have "au_name r = rule" using run_rule_names [OF r(2)] x(2) f(2) by simp
    from bgp [OF this r] x(2) show ?thesis by blast
  qed
  have un: "map_of (snd x) rule =
      (if au_name r = rule \<and> unread evs ''bgp'' \<noteq> [] then Some (sort (unread evs ''bgp'')) else None)"
    if "run_rule evs r = Some x" "r \<in> set AUDIT_RULES" for r x
  proof (cases "au_name r = rule")
    case True
    then show ?thesis using bgp [of r "fst x" "snd x"] that by simp
  next
    case False
    then have "rule \<notin> fst ` set (snd x)" using run_rule_names [of evs r "fst x" "snd x"] that(1) by auto
    with False show ?thesis by (simp add: map_of_eq_None_iff)
  qed
  obtain x1 x2 x3 x4 x5 where x: "rs = [x1, x2, x3, x4, x5]" using each by (auto simp: AUDIT_RULES_def list_all2_Cons1)
  have ran5: "list_all2 (\<lambda>r x. map_of (snd x) rule =
      (if au_name r = rule \<and> unread evs ''bgp'' \<noteq> [] then Some (sort (unread evs ''bgp'')) else None)) AUDIT_RULES rs"
    using each un by (auto simp: list_all2_conv_all_nth)
  have missing: "map_of (ad_unevaluated a) rule = (if unread evs ''bgp'' = [] then None else Some (sort (unread evs ''bgp'')))"
    using ran5 assms(3) unfolding a(2) x by (cases "unread evs ''bgp'' = []") (auto simp: AUDIT_RULES_def BGP_RULES_def map_add_def)
  have "list_all (\<lambda>f. af_rule f \<noteq> rule \<or> set (detail_devices (af_detail f)) \<subseteq> fst ` set evs - set (unread evs ''bgp'')) (ad_findings a)"
    using named by (auto simp: list_all_iff)
  with missing show ?thesis using worst_is_max [of "''ok''" "concat (map fst rs)"] unfolding a(1,3) by (auto simp: list_all_iff)
qed

subsection \<open>An audit of three devices\<close>

definition bgp_section :: "string \<Rightarrow> json" where
  "bgp_section rid = JDict [(''bgp'', JDict [(''data'', JDict [(''parse_status'', JStr PARSE_OK),
     (''parsed'', JDict [(''meta'', JDict [(''router_id'', JStr rid)]), (''records'', JList [])])])])]"

definition audited_fabric :: "(string \<times> json) list" where
  "audited_fabric = [(''PE1'', bgp_section ''10.0.0.1''), (''PE2'', bgp_section ''10.0.0.1''), (''P1'', JDict [])]"

lemma audited_run:
  "(case run_audit audited_fabric of Some a \<Rightarrow>
      map af_rule (ad_findings a) = [''duplicate_router_id'', ''isolated_but_configured'', ''isolated_but_configured''] \<and> ad_severity a = ''critical''
    | None \<Rightarrow> False)"
  by code_simp

lemma audit_witness:
  "\<exists>a. run_audit audited_fabric = Some a \<and> map_of (ad_unevaluated a) ''local_as_mix'' = Some [''P1''] \<and> ad_severity a = ''critical'' \<and>
     list_all (\<lambda>f. af_rule f \<noteq> ''local_as_mix'' \<or> set (detail_devices (af_detail f)) \<subseteq> {''PE1'', ''PE2''}) (ad_findings a)"
proof -
  from audited_run obtain a where a: "run_audit audited_fabric = Some a" "ad_severity a = ''critical''" by (auto split: option.splits)
  have d: "distinct (map fst audited_fabric)" and u: "unread audited_fabric ''bgp'' = [''P1'']" and b: "''local_as_mix'' \<in> set BGP_RULES"
    and n: "fst ` set audited_fabric - {''P1''} = {''PE1'', ''PE2''}" by code_simp+
  show ?thesis using audit_names_what_it_could_not_read [OF a(1) d b] a u n by (intro exI [of _ a]) simp
qed

end
