(* ===== verification/Flow_Selection.thy ===== *)
theory Flow_Selection
  imports Event_Routing Log_Window
begin

section \<open>From a sentence to a flow, a device and a subject\<close>

text \<open>
  Models \<open>flow_selection.py\<close>: a sentence is matched against a table of phrases; device and subject are the
  only tokens of their shape, validated by the routing functions of \<open>Event_Routing\<close>.  The names of the
  inventory, in the order a set is walked, are an argument; a reason is a value with what its wording quotes.
\<close>

subsection \<open>The table of phrases\<close>

text \<open>\<open>search\<close> of a pattern that starts at a word boundary with a letter.\<close>

definition word_search :: "(string \<Rightarrow> string list) \<Rightarrow> string \<Rightarrow> bool" where
  "word_search m s \<longleftrightarrow> find_words m 0 False s \<noteq> []"

definition whole :: "rx \<Rightarrow> string \<Rightarrow> string list" where
  "whole m s = [a. (a, r) \<leftarrow> m s, ends_word r]"

definition one_of :: "string list \<Rightarrow> rx" where
  "one_of ws s = concat (map (\<lambda>w. lit w s) ws)"

definition SENTENCE_FLOW_TABLE :: "(string \<times> (string \<Rightarrow> bool) \<times> string) list" where
  "SENTENCE_FLOW_TABLE = [
     (''bgp_keyword'', word_search (whole (lit ''bgp'')), ''bgp_session''),
     (''session_or_peer_language'', word_search (whole (one_of [''session'', ''peer'', ''neighbour'', ''neighbor''])), ''bgp_session''),
     (''establish_language'', word_search (whole (rx_seq [lit ''establish'', many is_word])), ''bgp_session''),
     (''reachability_language'', contains ''reach'', ''bgp_session''),
     (''interface_keyword'', word_search (whole (one_of [''interfaces'', ''interface''])), ''interface''),
     (''link_or_port_language'', word_search (whole (one_of [''link'', ''port''])), ''interface''),
     (''line_protocol_language'', word_search (whole (rx_seq [lit ''line'', many py_isspace, lit ''protocol''])), ''interface''),
     (''admin_down_language'', word_search (whole (\<lambda>s. one_of [''shutdown'', ''shut''] s @
        rx_seq [one_of [''administratively'', ''admin''], many (\<lambda>c. py_isspace c \<or> c = CHR ''-''), lit ''down''] s)), ''interface'')]"

definition speaking :: "string \<Rightarrow> (string \<times> (string \<Rightarrow> bool) \<times> string) list" where
  "speaking lowered = filter (\<lambda>(_, hit, _). hit lowered) SENTENCE_FLOW_TABLE"

subsection \<open>Tokens\<close>

definition INTERFACE_PREFIXES :: "string list" where
  "INTERFACE_PREFIXES = [''GigabitEthernet'', ''TenGigE'', ''HundredGigE'', ''FortyGigE'', ''Loopback'', ''Bundle-Ether'', ''MgmtEth'', ''Null'']"

definition interface_tokens :: "string \<Rightarrow> string list" where
  "interface_tokens = find_words (\<lambda>s. [a. (a, r) \<leftarrow> rx_seq [\<lambda>t. concat (map (\<lambda>w. ilit w t) INTERFACE_PREFIXES), many is_ifchar] s]) 0 False"

text \<open>\<open>\b[A-Za-z]{1,6}\d{1,3}\b(?!/)\<close>\<close>

definition device_tokens :: "string \<Rightarrow> string list" where
  "device_tokens = find_words (\<lambda>s. [a. (a, r) \<leftarrow> rx_seq [between 1 6 is_letter, between 1 3 is_digit] s, ends_word r,
     \<not> starts_with ''/'' r]) 0 False"

text \<open>
  \<open>upper\<close>: the sharp s becomes two letters; the characters whose capital is outside the modelled ones
  stay as they are, which no token of letters and digits is equal to either way.
\<close>

definition py_upper :: "string \<Rightarrow> string" where
  "py_upper s = concat (map (\<lambda>c. let n = of_char c :: nat in
     if n = 223 then ''SS'' else if (97 \<le> n \<and> n \<le> 122) \<or> (224 \<le> n \<and> n \<le> 254 \<and> n \<noteq> 247) then [char_of (n - 32)] else [c]) s)"

subsection \<open>The decision\<close>

datatype select_why =
    NothingSaid | NoLanguage | ManyFlows "string list" | NoDeviceNamed "string list" | ManyDevicesNamed "string list"
  | DeviceRefused why | NoAddress | ManyAddresses "string list" | NoPortNamed | ManyPorts "string list"
  | Selected string "string list"

record selection =
  sl_matched :: bool
  sl_flow :: "string option"
  sl_device :: "string option"
  sl_subject :: "string option"
  sl_reason :: select_why
  sl_patterns :: "string list"
  sl_candidates :: "string list"

definition selected_command :: "selection \<Rightarrow> string list option" where
  "selected_command d = (if \<not> sl_matched d then None
     else Some [''nettools'', ''investigate'', str_of (sl_device d), str_of (sl_subject d), ''--flow'', str_of (sl_flow d)])"

definition looks_like_sentence :: "json \<Rightarrow> bool" where
  "looks_like_sentence v \<longleftrightarrow> (case v of JStr s \<Rightarrow> list_ex py_isspace s | _ \<Rightarrow> False)"

text \<open>\<open>found.append(validated)\<close> for a valid token not found before.\<close>

definition valid_tokens :: "string list \<Rightarrow> string list" where
  "valid_tokens ts = from_keys (concat (map (\<lambda>t. case validated_subject (JStr t) of Some v \<Rightarrow> [v] | None \<Rightarrow> []) ts))"

definition the_only :: "select_why \<Rightarrow> (string list \<Rightarrow> select_why) \<Rightarrow> string list \<Rightarrow> select_why + string" where
  "the_only none many_found found = (case found of [] \<Rightarrow> Inl none | [x] \<Rightarrow> Inr x | _ \<Rightarrow> Inl (many_found found))"

definition extract_bgp_subject :: "string \<Rightarrow> select_why + string" where
  "extract_bgp_subject text = the_only NoAddress ManyAddresses (valid_tokens (addresses text))"

definition extract_interface_subject :: "string \<Rightarrow> select_why + string" where
  "extract_interface_subject text = the_only NoPortNamed ManyPorts (valid_tokens (interface_tokens text))"

definition SUBJECT_EXTRACTORS :: "(string \<times> (string \<Rightarrow> select_why + string)) list" where
  "SUBJECT_EXTRACTORS = [(''bgp_session'', extract_bgp_subject), (''interface'', extract_interface_subject)]"

text \<open>\<open>seen.setdefault(token.upper(), token)\<close>: the first spelling of each.\<close>

definition seen_devices :: "string \<Rightarrow> (string \<times> string) list" where
  "seen_devices text = (let ts = device_tokens text
     in map (\<lambda>u. (u, hd (filter (\<lambda>t. py_upper t = u) ts))) (from_keys (map py_upper ts)))"

definition by_upper :: "string list \<Rightarrow> string \<Rightarrow> string option" where
  "by_upper known u = map_of (rev (map (\<lambda>n. (py_upper n, n)) known)) u"

definition extract_device :: "string list \<Rightarrow> string \<Rightarrow> select_why + string" where
  "extract_device known text = (case seen_devices text of
     [] \<Rightarrow> Inl (NoDeviceNamed (sort known))
   | [(u, raw)] \<Rightarrow> (case validated_device known (JStr (case by_upper known u of Some n \<Rightarrow> n | None \<Rightarrow> raw)) of
       Inl problem \<Rightarrow> Inl (DeviceRefused problem) | Inr n \<Rightarrow> Inr n)
   | seen \<Rightarrow> Inl (ManyDevicesNamed (sort (map snd seen))))"

definition CANDIDATES :: "string list" where
  "CANDIDATES = [
     ''name the flow explicitly: nettools investigate DEVICE SUBJECT --flow bgp_session'',
     ''name the flow explicitly: nettools investigate DEVICE SUBJECT --flow interface'',
     ''describe a BGP session: mention '' @ repr_str ''bgp'' @ '', '' @ repr_str ''session'' @ '', '' @ repr_str ''peer'' @ ''/'' @ repr_str ''neighbor'' @
       '', or '' @ repr_str ''reach'' @ ''/'' @ repr_str ''unreachable'' @ '', a device name, and the peer'' @ [CHR 0x27] @ ''s IPv4 address'',
     ''describe an interface: mention '' @ repr_str ''interface'' @ '', '' @ repr_str ''link'' @ '', '' @ repr_str ''port'' @ '', '' @ repr_str ''line protocol'' @
       '', or '' @ repr_str ''shutdown'' @ ''/'' @ repr_str ''admin down'' @ '', a device name, and the interface'' @ [CHR 0x27] @ ''s full name '' @
       ''(e.g. GigabitEthernet0/0/0/1)'']"

definition unmatched :: "select_why \<Rightarrow> selection" where
  "unmatched why = \<lparr>sl_matched = False, sl_flow = None, sl_device = None, sl_subject = None, sl_reason = why, sl_patterns = [],
     sl_candidates = CANDIDATES\<rparr>"

definition select_flow :: "string list \<Rightarrow> json \<Rightarrow> selection" where
  "select_flow known v = (case v of
     JStr sentence \<Rightarrow>
       if py_strip sentence = [] then unmatched NothingSaid
       else (let rules = speaking (py_lower sentence) in
         case sort (from_keys (map (\<lambda>(_, _, f). f) rules)) of
           [] \<Rightarrow> unmatched NoLanguage
         | [flow] \<Rightarrow>
             (let names = sort (map fst (filter (\<lambda>(_, _, f). f = flow) rules));
                  refused = (\<lambda>why. (unmatched why)\<lparr>sl_flow := Some flow, sl_patterns := names\<rparr>)
              in case extract_device known sentence of
                   Inl why \<Rightarrow> refused why
                 | Inr device \<Rightarrow> (case map_of SUBJECT_EXTRACTORS flow of
                     None \<Rightarrow> unmatched NoLanguage
                   | Some extract \<Rightarrow> (case extract sentence of
                       Inl why \<Rightarrow> (refused why)\<lparr>sl_device := Some device\<rparr>
                     | Inr subject \<Rightarrow> \<lparr>sl_matched = True, sl_flow = Some flow, sl_device = Some device, sl_subject = Some subject,
                         sl_reason = Selected flow names, sl_patterns = names, sl_candidates = []\<rparr>)))
         | flows \<Rightarrow> unmatched (ManyFlows flows))
   | _ \<Rightarrow> unmatched NothingSaid)"

section \<open>A selection is never a guess\<close>

definition flows_spoken :: "string \<Rightarrow> string set" where
  "flows_spoken s = (\<lambda>(_, _, f). f) ` set (speaking (py_lower s))"

definition subject_tokens :: "string \<Rightarrow> string \<Rightarrow> string list" where
  "subject_tokens flow s = (if flow = ''bgp_session'' then addresses s else interface_tokens s)"

definition named_uniquely :: "string list \<Rightarrow> string \<Rightarrow> string \<Rightarrow> string \<Rightarrow> string \<Rightarrow> bool" where
  "named_uniquely known s flow device subject \<longleftrightarrow> flows_spoken s = {flow} \<and> device \<in> set known \<and>
     set (map py_upper (device_tokens s)) = {py_upper device} \<and> set (valid_tokens (subject_tokens flow s)) = {subject}"

lemma spoken_table: "flow \<in> flows_spoken s \<Longrightarrow> flow = ''bgp_session'' \<or> flow = ''interface''"
proof -
  assume "flow \<in> flows_spoken s"
  then have "flow \<in> (\<lambda>(_, _, f). f) ` set SENTENCE_FLOW_TABLE" by (force simp: flows_spoken_def speaking_def)
  then show ?thesis unfolding SENTENCE_FLOW_TABLE_def by simp
qed

lemma sort_from_keys_single: "sort (from_keys xs) = [x] \<longleftrightarrow> set xs = {x}"
proof
  assume "sort (from_keys xs) = [x]"
  then have "set (sort (from_keys xs)) = {x}" by simp
  then show "set xs = {x}" by simp
next
  assume "set xs = {x}"
  then have s: "set (from_keys xs) = {x}" by simp
  have "length (from_keys xs) = 1" using distinct_card [OF distinct_from_keys [of xs]] s by simp
  then obtain y where "from_keys xs = [y]" by (auto simp: length_Suc_conv)
  with s show "sort (from_keys xs) = [x]" by simp
qed

lemma the_only_Inr: "the_only none many_found found = Inr x \<longleftrightarrow> found = [x]"
  by (auto simp: the_only_def split: list.splits)

lemma distinct_single: "distinct xs \<Longrightarrow> xs = [x] \<longleftrightarrow> set xs = {x}"
  by (cases xs; cases "tl xs") auto

lemma valid_tokens_distinct: "distinct (valid_tokens ts)"
  by (simp add: valid_tokens_def)

lemma valid_tokens_valid: "x \<in> set (valid_tokens ts) \<Longrightarrow> is_ipv4 x \<or> is_interface_name x"
  by (auto simp: valid_tokens_def validated_subject_def Let_def split: option.splits if_splits)

lemma py_upper_Nil: "py_upper s = [] \<longleftrightarrow> s = []"
  by (cases s) (simp_all add: py_upper_def Let_def)

lemma by_upper_member: "by_upper known u = Some n \<Longrightarrow> n \<in> set known \<and> py_upper n = u"
  by (auto simp: by_upper_def dest!: map_of_SomeD)

lemma by_upper_None: "by_upper known u = None \<longleftrightarrow> u \<notin> py_upper ` set known"
  by (force simp: by_upper_def map_of_eq_None_iff image_iff)

lemma seen_single:
  assumes "seen_devices s = [(u, raw)]"
  shows "set (map py_upper (device_tokens s)) = {u} \<and> py_upper raw = u \<and> raw \<in> set (device_tokens s)"
proof -
  let ?ts = "device_tokens s"
  from assms have k: "from_keys (map py_upper ?ts) = [u]" and raw: "raw = hd (filter (\<lambda>t. py_upper t = u) ?ts)"
    by (auto simp: seen_devices_def Let_def)
  from k have u: "set (map py_upper ?ts) = {u}" by (metis list.set(1,2) set_from_keys)
  then have "u \<in> set (map py_upper ?ts)" by simp
  then have "filter (\<lambda>t. py_upper t = u) ?ts \<noteq> []" by (auto simp: filter_empty_conv)
  then have "hd (filter (\<lambda>t. py_upper t = u) ?ts) \<in> set (filter (\<lambda>t. py_upper t = u) ?ts)" by (rule hd_in_set)
  with u raw show ?thesis by auto
qed

lemma seen_unique: "set (map py_upper (device_tokens s)) = {u} \<Longrightarrow> \<exists>raw. seen_devices s = [(u, raw)]"
proof -
  assume "set (map py_upper (device_tokens s)) = {u}"
  then have "from_keys (map py_upper (device_tokens s)) = [u]" by (simp only: distinct_single [OF distinct_from_keys] set_from_keys)
  then show ?thesis by (simp add: seen_devices_def Let_def)
qed

text \<open>Tokens begin with a character of their shape.\<close>

lemma find_words_mem: "x \<in> set (find_words m n w s) \<Longrightarrow> \<exists>t. x \<in> set (m t)"
proof (induction m n w s rule: find_words.induct)
  case (3 m w c cs)
  then show ?case by (cases "if w then [] else m (c # cs)") (auto split: if_splits intro: exI [of _ "c # cs"])
qed auto

lemma seq_first:
  assumes "(x, r) \<in> set (rx_seq (between lo hi p # ms) s)" and "0 < lo"
  shows "\<exists>c cs. x = c # cs \<and> p c"
proof -
  from assms(1) obtain a b q where x: "x = a @ b" and a: "(a, q) \<in> set (between lo hi p s)" by auto
  show ?thesis using between_D [OF a] assms(2) x by (cases a) auto
qed

lemma device_token_first: "x \<in> set (device_tokens s) \<Longrightarrow> x \<noteq> []"
  unfolding device_tokens_def by (drule find_words_mem) (auto dest!: seq_first simp del: rx_seq.simps)

lemma address_first: "x \<in> set (addresses s) \<Longrightarrow> \<exists>c cs. x = c # cs \<and> is_digit c"
  unfolding addresses_def QUAD_def by (drule find_words_mem) (auto dest!: seq_first simp del: rx_seq.simps)

lemma lower_letter: "is_letter (py_lower_char c) \<Longrightarrow> is_letter c"
  by (auto simp: py_lower_char_def is_letter_def less_eq_char_def Let_def split: if_splits)

lemma prefixes_letters: "w \<in> set INTERFACE_PREFIXES \<Longrightarrow> w \<noteq> [] \<and> is_letter (hd (py_lower w))"
  by (auto simp: INTERFACE_PREFIXES_def py_lower_def py_lower_char_def is_letter_def less_eq_char_def)

lemma interface_first:
  assumes "x \<in> set (interface_tokens s)"
  shows "\<exists>c cs. x = c # cs \<and> is_letter c"
proof -
  from assms obtain t r where "(x, r) \<in> set (rx_seq [\<lambda>t. concat (map (\<lambda>w. ilit w t) INTERFACE_PREFIXES), many is_ifchar] t)"
    unfolding interface_tokens_def by (drule_tac find_words_mem) (auto simp del: rx_seq.simps)
  then obtain w a b q where x: "x = a @ b" and w: "w \<in> set INTERFACE_PREFIXES" "(a, q) \<in> set (ilit w t)" by auto
  have "py_lower a = py_lower w" by (rule ilit_D [OF w(2)])
  moreover obtain c cs where "w = c # cs" using prefixes_letters [OF w(1)] by (cases w) auto
  ultimately obtain e es where "a = e # es" "is_letter (py_lower_char e)" using prefixes_letters [OF w(1)]
    by (cases a) (auto simp: py_lower_def)
  then show ?thesis using x lower_letter by auto
qed

lemma strip_first: "\<not> py_isspace c \<Longrightarrow> \<exists>ds. py_strip (c # cs) = c # ds"
  by (cases "\<exists>x\<in>set cs. \<not> py_isspace x")
    (auto simp: py_strip_def dropWhile_append intro!: exI [of _ "rev (dropWhile py_isspace (rev cs))"])

lemma ipv4_first: "is_ipv4 (c # cs) \<Longrightarrow> is_digit c"
  by (cases "split_on (CHR ''.'') cs") (auto simp: is_ipv4_def Let_def ipv4_octet_def split: if_splits)

lemma digit_no_letter: "is_digit c \<Longrightarrow> \<not> is_letter c \<and> \<not> py_isspace c"
  by (auto simp: is_digit_def is_letter_def py_isspace_def less_eq_char_def Let_def)

lemma letter_no_space: "is_letter c \<Longrightarrow> \<not> py_isspace c"
  by (auto simp: is_letter_def py_isspace_def less_eq_char_def Let_def)

lemma valid_token: "x \<in> set (valid_tokens ts) \<Longrightarrow> \<exists>t\<in>set ts. x = py_strip t \<and> (is_ipv4 x \<or> is_interface_name x)"
  by (auto simp: valid_tokens_def validated_subject_def Let_def split: option.splits if_splits)

lemma subject_kind:
  assumes "x \<in> set (valid_tokens (subject_tokens flow s))"
  shows "if flow = ''bgp_session'' then is_ipv4 x else is_interface_name x"
proof -
  from valid_token [OF assms] obtain t where t: "t \<in> set (subject_tokens flow s)" "x = py_strip t" "is_ipv4 x \<or> is_interface_name x" by blast
  show ?thesis
  proof (cases "flow = ''bgp_session''")
    case True
    with t address_first [of t s] obtain c cs where "t = c # cs" "is_digit c" by (auto simp: subject_tokens_def)
    with t True strip_first [of c cs] digit_no_letter show ?thesis by (auto simp: is_interface_name_def)
  next
    case False
    with t interface_first [of t s] obtain c cs where "t = c # cs" "is_letter c" by (auto simp: subject_tokens_def)
    with t False strip_first [of c cs] digit_no_letter letter_no_space ipv4_first show ?thesis by metis
  qed
qed

text \<open>The device named: known, and every device-shaped token spells it.\<close>

lemma extract_device_spec:
  shows "(\<exists>d. extract_device known s = Inr d) \<longleftrightarrow> (\<exists>d\<in>set known. set (map py_upper (device_tokens s)) = {py_upper d})"
    and "extract_device known s = Inr d \<Longrightarrow> d \<in> set known \<and> set (map py_upper (device_tokens s)) = {py_upper d}"
proof -
  show sound: "extract_device known s = Inr d \<Longrightarrow> d \<in> set known \<and> set (map py_upper (device_tokens s)) = {py_upper d}" for d
  proof -
    assume "extract_device known s = Inr d"
    then obtain u raw where u: "seen_devices s = [(u, raw)]"
      and d: "validated_device known (JStr (case by_upper known u of Some n \<Rightarrow> n | None \<Rightarrow> raw)) = Inr d"
      by (auto simp: extract_device_def split: list.splits prod.splits sum.splits)
    have dk: "d = (case by_upper known u of Some n \<Rightarrow> n | None \<Rightarrow> raw)" "d \<in> set known"
      using d by (auto simp: validated_device_def split: list.splits if_splits)
    then show ?thesis using seen_single [OF u] by_upper_member by (auto split: option.splits)
  qed
  show "(\<exists>d. extract_device known s = Inr d) \<longleftrightarrow> (\<exists>d\<in>set known. set (map py_upper (device_tokens s)) = {py_upper d})"
  proof
    assume "\<exists>d\<in>set known. set (map py_upper (device_tokens s)) = {py_upper d}"
    then obtain d where k: "d \<in> set known" "set (map py_upper (device_tokens s)) = {py_upper d}" by (rule bexE)
    then obtain raw where d: "seen_devices s = [(py_upper d, raw)]" using seen_unique by blast
    have "by_upper known (py_upper d) \<noteq> None" unfolding by_upper_None using k(1) by simp
    then obtain n where n: "by_upper known (py_upper d) = Some n" by (cases "by_upper known (py_upper d)") simp_all
    moreover have "n \<in> set known" using by_upper_member [OF n] by blast
    moreover have "n \<noteq> []"
    proof
      assume "n = []"
      then have "py_upper d = []" using by_upper_member [OF n] by (simp add: py_upper_def)
      with seen_single [OF d] have "raw \<in> set (device_tokens s)" "py_upper raw = []" by simp_all
      then show False using device_token_first [of raw s] by (simp add: py_upper_Nil)
    qed
    then obtain c cs where "n = c # cs" by (cases n) auto
    ultimately show "\<exists>d. extract_device known s = Inr d" using d n by (simp add: extract_device_def validated_device_def)
  qed (use sound in blast)
qed

lemma extract_subject: "map_of SUBJECT_EXTRACTORS flow = Some ext \<Longrightarrow>
    ext s = Inr x \<longleftrightarrow> set (valid_tokens (subject_tokens flow s)) = {x}"
  by (auto simp: SUBJECT_EXTRACTORS_def subject_tokens_def extract_bgp_subject_def extract_interface_subject_def the_only_Inr
      distinct_single [OF valid_tokens_distinct] split: if_splits)

lemma extractor_declared: "flow \<in> flows_spoken s \<Longrightarrow> \<exists>ext. map_of SUBJECT_EXTRACTORS flow = Some ext"
  using spoken_table by (fastforce simp: SUBJECT_EXTRACTORS_def)

lemma flows_sorted: "sort (from_keys (map (\<lambda>(_, _, f). f) (speaking (py_lower s)))) = [flow] \<longleftrightarrow> flows_spoken s = {flow}"
  unfolding sort_from_keys_single flows_spoken_def by simp

lemma find_words_blank:
  "list_all py_isspace s \<Longrightarrow> (\<And>c cs. py_isspace c \<Longrightarrow> m (c # cs) = []) \<Longrightarrow> find_words m n w s = []"
  by (induction m n w s rule: find_words.induct) auto

lemma strip_empty: "py_strip s = [] \<Longrightarrow> device_tokens s = []"
proof -
  assume "py_strip s = []"
  then have "\<forall>c\<in>set (dropWhile py_isspace s). py_isspace c" by (simp add: py_strip_def dropWhile_eq_Nil_conv)
  then have "dropWhile py_isspace s = []" using hd_dropWhile [of py_isspace s] by (cases "dropWhile py_isspace s") auto
  then have "list_all py_isspace s" by (simp add: dropWhile_eq_Nil_conv list_all_iff)
  then show ?thesis unfolding device_tokens_def
    by (rule find_words_blank) (use letter_no_space in \<open>auto simp: between_def\<close>)
qed

text \<open>C29: A sentence is selected exactly when it names one flow, one known device and one subject.  Otherwise nothing is
  selected, the candidates are offered and no command is suggested.  A selected device is in the inventory and every
  device-shaped token of the sentence spells it; the subject is the only valid token of the flow's shape, an IPv4
  address for a BGP session and an interface name for an interface; the command is made of these values.\<close>

theorem selection_is_never_a_guess:
  "let d = select_flow known (JStr s)
   in if \<exists>flow device subject. named_uniquely known s flow device subject
      then \<exists>flow device subject. named_uniquely known s flow device subject \<and> sl_matched d \<and> sl_flow d = Some flow \<and>
        sl_device d = Some device \<and> sl_subject d = Some subject \<and>
        (if flow = ''bgp_session'' then is_ipv4 subject else is_interface_name subject) \<and>
        selected_command d = Some [''nettools'', ''investigate'', device, subject, ''--flow'', flow]
      else \<not> sl_matched d \<and> sl_candidates d = CANDIDATES \<and> selected_command d = None"
proof (cases "sl_matched (select_flow known (JStr s))")
  case True
  let ?flows = "sort (from_keys (map (\<lambda>(_, _, f). f) (speaking (py_lower s))))"
  from True obtain flow where flow: "?flows = [flow]" and strip: "py_strip s \<noteq> []"
    by (auto simp: select_flow_def unmatched_def Let_def split: if_splits list.splits)
  with True obtain device ext subject where d: "extract_device known s = Inr device" "map_of SUBJECT_EXTRACTORS flow = Some ext"
    "ext s = Inr subject"
    by (auto simp: select_flow_def unmatched_def Let_def split: sum.splits option.splits)
  have sel: "sl_flow (select_flow known (JStr s)) = Some flow" "sl_device (select_flow known (JStr s)) = Some device"
    "sl_subject (select_flow known (JStr s)) = Some subject" using flow strip d by (simp_all add: select_flow_def Let_def)
  have named: "named_uniquely known s flow device subject"
    using flow d extract_device_spec(2) [OF d(1)] extract_subject [OF d(2)] by (simp add: named_uniquely_def flows_sorted)
  moreover have "if flow = ''bgp_session'' then is_ipv4 subject else is_interface_name subject"
    by (rule subject_kind [of _ _ s]) (use named in \<open>simp add: named_uniquely_def\<close>)
  ultimately show ?thesis using True sel by (auto simp: Let_def selected_command_def str_of_def)
next
  case False
  have "\<not> named_uniquely known s flow device subject" for flow device subject
  proof
    assume n: "named_uniquely known s flow device subject"
    have "device_tokens s \<noteq> []" using n by (auto simp: named_uniquely_def)
    then have strip: "py_strip s \<noteq> []" using strip_empty by blast
    have flow: "sort (from_keys (map (\<lambda>(_, _, f). f) (speaking (py_lower s)))) = [flow]" using n flows_sorted by (simp add: named_uniquely_def)
    obtain dev where dev: "extract_device known s = Inr dev" using extract_device_spec(1) [of known s] n by (auto simp: named_uniquely_def)
    obtain ext where e: "map_of SUBJECT_EXTRACTORS flow = Some ext" using extractor_declared [of flow s] n by (auto simp: named_uniquely_def)
    have "ext s = Inr subject" using extract_subject [OF e] n by (simp add: named_uniquely_def)
    with strip flow dev e False show False by (simp add: select_flow_def Let_def)
  qed
  moreover have "sl_candidates (select_flow known (JStr s)) = CANDIDATES" using False
    by (auto simp: select_flow_def unmatched_def Let_def split: if_splits list.splits sum.splits option.splits)
  ultimately show ?thesis using False by (simp add: Let_def selected_command_def)
qed

definition bgp_sentence :: string where
  "bgp_sentence = ''bgp 10.0.0.9 rr1''"

text \<open>\<open>Null0\<close> is a declared interface name with the shape of a device: a sentence that names it beside a device names two.\<close>

lemma null_interface_is_a_device:
  "interface_tokens ''port Null0 PE1'' = [''Null0''] \<and> device_tokens ''port Null0 PE1'' = [''Null0'', ''PE1'']"
  by code_simp

lemma bgp_selected: "select_flow [''PE1'', ''RR1''] (JStr bgp_sentence) = \<lparr>sl_matched = True, sl_flow = Some ''bgp_session'',
    sl_device = Some ''RR1'', sl_subject = Some ''10.0.0.9'', sl_reason = Selected ''bgp_session'' [''bgp_keyword''],
    sl_patterns = [''bgp_keyword''], sl_candidates = []\<rparr>"
  by code_simp

theorem selection_witness:
  "selected_command (select_flow [''PE1'', ''RR1''] (JStr bgp_sentence)) =
     Some [''nettools'', ''investigate'', ''RR1'', ''10.0.0.9'', ''--flow'', ''bgp_session''] \<and>
   (\<exists>flow device subject. named_uniquely [''PE1'', ''RR1''] bgp_sentence flow device subject)"
  using selection_is_never_a_guess [of "[''PE1'', ''RR1'']" bgp_sentence]
  by (auto simp: Let_def bgp_selected selected_command_def str_of_def split: if_splits)

end
