(* ===== verification/Evidence_Budget.thy ===== *)
theory Evidence_Budget
  imports Py_Text
begin

section \<open>The evidence budget of a prompt\<close>

text \<open>
  Models \<open>evidence_budget.py\<close>: a section that is too long loses its middle, a marker and a disclosure say
  how many characters are gone, and a fabric-wide bundle is shrunk once more in proportion.  How a section
  is rendered (the projector and the JSON writer) is an argument, and so is the floating-point product
  \<open>int(len * (total_chars / total))\<close>, which the theorems do not restrict.
  A budget is a natural number: zero turns the bound off, as a negative one does.
\<close>

definition DEFAULT_PER_INTENT_CHAR_BUDGET :: nat where "DEFAULT_PER_INTENT_CHAR_BUDGET = 4000"
definition DEFAULT_TOTAL_CHAR_BUDGET :: nat where "DEFAULT_TOTAL_CHAR_BUDGET = 40000"
definition MARKER_RESERVE :: nat where "MARKER_RESERVE = 48"
definition MIN_KEEP :: nat where "MIN_KEEP = 20"

text \<open>The value of an environment variable, if it is set.\<close>

definition env_int :: "string option \<Rightarrow> nat \<Rightarrow> nat" where
  "env_int raw dflt = (case raw of
     Some (c # cs) \<Rightarrow> (case py_int (JStr (c # cs)) of Some v \<Rightarrow> if v > 0 then nat v else dflt | None \<Rightarrow> dflt)
   | _ \<Rightarrow> dflt)"

definition budget_disclosure :: "nat \<Rightarrow> string" where
  "budget_disclosure n = ''{'' @ [CHR 0x22] @ ''budget_truncated_chars'' @ [CHR 0x22] @ '':'' @ show_nat n @ ''}''"

definition truncation_marker :: "int \<Rightarrow> string" where
  "truncation_marker n = ''[TRUNCATED: '' @ show_int n @ '' characters omitted]''"

text \<open>\<open>text[len(text) - n:]\<close>: a negative start counts from the end.\<close>

definition tail_slice :: "string \<Rightarrow> nat \<Rightarrow> string" where
  "tail_slice text n = drop (if n \<le> length text then length text - n else 2 * length text - n) text"

definition shortened :: "string \<Rightarrow> nat \<Rightarrow> nat \<Rightarrow> string" where
  "shortened text h t = take h text @ [CHR 0x0A] @ truncation_marker (int (length text) - int h - int t) @
     (if t > 0 \<and> tail_slice text t \<noteq> [] then [CHR 0x0A] @ tail_slice text t else [])"

text \<open>The loop of \<open>_truncate_middle\<close>: one character less of the tail, then of the head, until it fits.\<close>

fun shrink :: "string \<Rightarrow> nat \<Rightarrow> nat \<Rightarrow> nat \<Rightarrow> string \<times> int" where
  "shrink text budget 0 0 = (shortened text 0 0, int (length text))"
| "shrink text budget (Suc h) 0 =
     (if length (shortened text (Suc h) 0) \<le> budget then (shortened text (Suc h) 0, int (length text) - int (Suc h))
      else shrink text budget h 0)"
| "shrink text budget h (Suc t) =
     (if length (shortened text h (Suc t)) \<le> budget then (shortened text h (Suc t), int (length text) - int h - int (Suc t))
      else shrink text budget h t)"

definition truncate_middle :: "string \<Rightarrow> nat \<Rightarrow> string \<times> int" where
  "truncate_middle text budget =
     (if budget = 0 \<or> length text \<le> budget then (text, 0)
      else let keep = max (budget - MARKER_RESERVE) MIN_KEEP in shrink text budget (keep - keep div 2) (keep div 2))"

text \<open>The loop of at most eight rounds, until the disclosed number is the number cut.\<close>

definition disclosed :: "string \<Rightarrow> nat \<Rightarrow> nat \<Rightarrow> string \<times> int" where
  "disclosed text budget omitted = truncate_middle text (budget - length (budget_disclosure omitted) - 1)"

fun settle :: "nat \<Rightarrow> string \<Rightarrow> nat \<Rightarrow> nat \<Rightarrow> string \<Rightarrow> string \<times> nat" where
  "settle 0 text budget omitted kept = (kept @ [CHR 0x0A] @ budget_disclosure omitted, omitted)"
| "settle (Suc n) text budget omitted kept =
     (let (kept1, next) = disclosed text budget omitted
      in if nat next = omitted then (kept1 @ [CHR 0x0A] @ budget_disclosure omitted, omitted)
         else settle n text budget (nat next) kept1)"

definition truncate_with_disclosure :: "string \<Rightarrow> nat \<Rightarrow> string \<times> nat" where
  "truncate_with_disclosure text budget =
     (if budget = 0 \<or> length text \<le> budget then (text, 0)
      else if budget < length (budget_disclosure (length text)) + length (truncation_marker 0) + MIN_KEEP + 2
      then (budget_disclosure (length text), length text)
      else settle 8 text budget 0 [])"

subsection \<open>Bundles\<close>

record budget_cut =
  ct_device :: string
  ct_intent :: string
  ct_omitted :: nat

definition budget_section :: "string \<Rightarrow> nat \<Rightarrow> string \<times> string \<Rightarrow> (string \<times> string) \<times> budget_cut list" where
  "budget_section device budget = (\<lambda>(intent, text). let (short, n) = truncate_with_disclosure text budget
     in ((intent, short), if n = 0 then [] else [\<lparr>ct_device = device, ct_intent = intent, ct_omitted = n\<rparr>]))"

definition budget_device_evidence ::
  "(dict \<Rightarrow> string) \<Rightarrow> string option \<Rightarrow> string \<Rightarrow> dict \<Rightarrow> nat option \<Rightarrow> (string \<times> string) list \<times> budget_cut list" where
  "budget_device_evidence section_text env device evidence per_intent =
     (let budget = (case per_intent of Some (Suc n) \<Rightarrow> Suc n | _ \<Rightarrow> env_int env DEFAULT_PER_INTENT_CHAR_BUDGET);
          parts = map (budget_section device budget)
            (concat (map (\<lambda>(intent, v). case v of JDict s \<Rightarrow> [(intent, section_text s)] | _ \<Rightarrow> []) evidence))
      in (map fst parts, concat (map snd parts)))"

type_synonym evidence_bundle = "(string \<times> (string \<times> string) list) list"

definition bundle_size :: "evidence_bundle \<Rightarrow> nat" where
  "bundle_size b = sum_list (map (\<lambda>(_, sections). sum_list (map (\<lambda>(_, text). length text) sections)) b)"

text \<open>The second pass over one section: \<open>scaled\<close> is the floating-point share of its length.\<close>

definition rescale_section :: "(nat \<Rightarrow> nat) \<Rightarrow> string \<Rightarrow> string \<times> string \<Rightarrow> (string \<times> string) \<times> budget_cut list" where
  "rescale_section scaled device = (\<lambda>(intent, text). let budget = max MIN_KEEP (scaled (length text))
     in if length text \<le> budget then ((intent, text), []) else budget_section device budget (intent, text))"

definition rescale_device :: "(nat \<Rightarrow> nat) \<Rightarrow> string \<times> (string \<times> string) list \<Rightarrow> (string \<times> (string \<times> string) list) \<times> budget_cut list" where
  "rescale_device scaled = (\<lambda>(device, sections). let parts = map (rescale_section scaled device) sections
     in ((device, map fst parts), concat (map snd parts)))"

definition budget_fabric_evidence ::
  "(nat \<Rightarrow> nat \<Rightarrow> nat \<Rightarrow> nat) \<Rightarrow> (dict \<Rightarrow> string) \<Rightarrow> string option \<Rightarrow> string option \<Rightarrow> (string \<times> dict) list \<Rightarrow> nat option \<Rightarrow> nat option \<Rightarrow>
   evidence_bundle \<times> budget_cut list" where
  "budget_fabric_evidence product section_text per_env total_env evidence per_intent total_chars =
     (let per = (case per_intent of Some (Suc n) \<Rightarrow> Suc n | _ \<Rightarrow> env_int per_env DEFAULT_PER_INTENT_CHAR_BUDGET);
          limit = (case total_chars of Some (Suc n) \<Rightarrow> Suc n | _ \<Rightarrow> env_int total_env DEFAULT_TOTAL_CHAR_BUDGET);
          first = map (\<lambda>(device, ev). let (sections, cuts) = budget_device_evidence section_text per_env device ev (Some per)
            in ((device, sections), cuts)) evidence;
          b = map fst first; report = concat (map snd first); total = bundle_size b
      in if limit < total then
           (let second = map (rescale_device (product limit total)) b in (map fst second, report @ concat (map snd second)))
         else (b, report))"

definition render_budgeted_evidence :: "evidence_bundle \<Rightarrow> string" where
  "render_budgeted_evidence b = py_join [CHR 0x0A, CHR 0x0A] (concat (map (\<lambda>(device, sections).
     (''### '' @ device) # map (\<lambda>(intent, text). ''#### '' @ intent @ [CHR 0x0A] @ text) sections) b))"

section \<open>What a cut section keeps\<close>

abbreviation digits :: "nat \<Rightarrow> nat" where
  "digits n \<equiv> length (show_nat n)"

lemma digits_pos: "1 \<le> digits n"
  by (simp add: show_nat.simps [of n] Suc_le_eq)

lemma digits_mono: "m \<le> n \<Longrightarrow> digits m \<le> digits n"
proof (induction n arbitrary: m rule: less_induct)
  case (less n)
  show ?case
  proof (cases "m < 10")
    case True
    then show ?thesis using digits_pos [of n] by (simp add: show_nat.simps [of m])
  next
    case False
    with less.prems have "digits (m div 10) \<le> digits (n div 10)" by (intro less.IH div_le_mono) auto
    with False less.prems show ?thesis by (simp add: show_nat.simps [of m] show_nat.simps [of n])
  qed
qed

lemma digits_bound: "n < 10 ^ Suc k \<Longrightarrow> digits n \<le> Suc k"
proof (induction k arbitrary: n)
  case (Suc k)
  then have "n div 10 < 10 ^ Suc k" by (simp add: div_less_iff_less_mult)
  then have "digits (n div 10) \<le> Suc k" by (rule Suc.IH)
  then show ?case by (simp add: show_nat.simps [of n])
qed (simp add: show_nat.simps)

lemma disclosure_length: "length (budget_disclosure n) = 27 + digits n"
  by (simp add: budget_disclosure_def)

lemma marker_length: "length (truncation_marker (int n)) = 32 + digits n"
  by (simp add: truncation_marker_def show_int_def)

text \<open>The path of the loop: a kept number \<open>k\<close> is split at the initial head.\<close>

definition on_path :: "nat \<Rightarrow> nat \<Rightarrow> nat \<Rightarrow> nat \<Rightarrow> bool" where
  "on_path h t h1 t1 \<longleftrightarrow> h1 \<le> h \<and> t1 \<le> t \<and> (t1 > 0 \<longrightarrow> h1 = h)"

lemma shortened_length:
  "h + t < length s \<Longrightarrow> length (shortened s h t) = h + t + 33 + digits (length s - (h + t)) + (if t > 0 then 1 else 0)"
  using marker_length [of "length s - (h + t)"] by (auto simp: shortened_def tail_slice_def of_nat_diff diff_diff_eq)

definition best_cut :: "string \<Rightarrow> nat \<Rightarrow> nat \<Rightarrow> nat \<Rightarrow> string \<times> int \<Rightarrow> nat \<Rightarrow> nat \<Rightarrow> bool" where
  "best_cut s budget h t r h1 t1 \<longleftrightarrow> on_path h t h1 t1 \<and> r = (shortened s h1 t1, int (length s - (h1 + t1))) \<and>
     (length (shortened s h1 t1) \<le> budget \<or> h1 + t1 = 0) \<and>
     (\<forall>h2 t2. on_path h t h2 t2 \<longrightarrow> length (shortened s h2 t2) \<le> budget \<longrightarrow> h2 + t2 \<le> h1 + t1)"

lemma on_path_sum: "on_path h t h2 t2 \<Longrightarrow> h2 + t2 \<le> h + t"
  unfolding on_path_def by (rule add_mono) blast+

lemma best_now:
  "length (shortened s h t) \<le> budget \<or> h + t = 0 \<Longrightarrow> best_cut s budget h t (shortened s h t, int (length s - (h + t))) h t"
  using on_path_sum by (simp add: best_cut_def) (simp add: on_path_def)

lemma best_later:
  assumes "best_cut s budget h t r h1 t1" and "\<And>h2 t2. on_path h t h2 t2 \<Longrightarrow> on_path H T h2 t2"
    and "\<And>h2 t2. on_path H T h2 t2 \<Longrightarrow> on_path h t h2 t2 \<or> h2 = H \<and> t2 = T" and "\<not> length (shortened s H T) \<le> budget"
  shows "best_cut s budget H T r h1 t1"
  using assms unfolding best_cut_def by metis

lemma shrink_best: "h + t < length s \<Longrightarrow> \<exists>h1 t1. best_cut s budget h t (shrink s budget h t) h1 t1"
proof (induction s budget h t rule: shrink.induct)
  case (1 s budget)
  then show ?case using best_now [of s 0 0 budget] by auto
next
  case (2 s budget h)
  show ?case
  proof (cases "length (shortened s (Suc h) 0) \<le> budget")
    case True
    with 2(2) best_now [of s "Suc h" 0 budget] show ?thesis by (auto simp: of_nat_diff)
  next
    case False
    with 2 obtain h1 t1 where "best_cut s budget h 0 (shrink s budget h 0) h1 t1" by auto
    from best_later [OF this _ _ False] False show ?thesis by (auto simp: on_path_def le_Suc_eq)
  qed
next
  case (3 s budget h t)
  show ?case
  proof (cases "length (shortened s h (Suc t)) \<le> budget")
    case True
    with 3(2) best_now [of s h "Suc t" budget] show ?thesis by (auto simp: of_nat_diff algebra_simps)
  next
    case False
    with 3 obtain h1 t1 where "best_cut s budget h t (shrink s budget h t) h1 t1" by auto
    from best_later [OF this _ _ False] False show ?thesis by (auto simp: on_path_def le_Suc_eq)
  qed
qed

text \<open>\<open>truncate_middle\<close> on a text above its budget: what is kept, and that a larger budget omits no more.\<close>

definition split_keep :: "nat \<Rightarrow> nat \<times> nat" where
  "split_keep budget = (let keep = max (budget - MARKER_RESERVE) MIN_KEEP in (keep - keep div 2, keep div 2))"

lemma truncated:
  assumes "budget < length s" and "20 < budget"
  obtains h t where "truncate_middle s budget = (shortened s h t, int (length s - (h + t)))" and "h + t < length s"
    and "on_path (fst (split_keep budget)) (snd (split_keep budget)) h t"
    and "length (shortened s h t) \<le> budget \<or> h + t = 0"
    and "\<And>h2 t2. on_path (fst (split_keep budget)) (snd (split_keep budget)) h2 t2 \<Longrightarrow> length (shortened s h2 t2) \<le> budget \<Longrightarrow> h2 + t2 \<le> h + t"
proof -
  let ?k = "max (budget - MARKER_RESERVE) MIN_KEEP"
  have k: "?k - ?k div 2 + ?k div 2 < length s" using assms by (auto simp: MARKER_RESERVE_def MIN_KEEP_def)
  from shrink_best [OF k] obtain h t where r: "best_cut s budget (?k - ?k div 2) (?k div 2) (shrink s budget (?k - ?k div 2) (?k div 2)) h t" by blast
  then have "h + t \<le> ?k - ?k div 2 + ?k div 2" unfolding best_cut_def by (blast dest: on_path_sum)
  with k have "h + t < length s" by linarith
  moreover have "truncate_middle s budget = (shortened s h t, int (length s - (h + t)))"
    using assms r by (simp add: truncate_middle_def Let_def best_cut_def)
  ultimately show thesis using that [of h t] r by (simp add: split_keep_def Let_def best_cut_def)
qed

lemma upper_half: "x - x div 2 = (x + 1) div (2 :: nat)"
  by linarith

lemma halves: "x \<le> y \<Longrightarrow> x - x div 2 \<le> y - y div 2" "x \<le> y \<Longrightarrow> x - x div 2 + x div 2 \<le> y - y div 2 + y div (2 :: nat)"
  by (simp_all add: upper_half div_le_mono add_mono)

lemma truncated_mono:
  assumes "b \<le> c" and "c < length s" and "20 < b"
  shows "snd (truncate_middle s c) \<le> snd (truncate_middle s b)"
proof -
  obtain h t where b: "truncate_middle s b = (shortened s h t, int (length s - (h + t)))" "h + t < length s"
    "on_path (fst (split_keep b)) (snd (split_keep b)) h t" "length (shortened s h t) \<le> b \<or> h + t = 0"
    using truncated [of b s] assms by (metis le_less_trans)
  obtain h1 t1 where c: "truncate_middle s c = (shortened s h1 t1, int (length s - (h1 + t1)))"
    "\<And>h2 t2. on_path (fst (split_keep c)) (snd (split_keep c)) h2 t2 \<Longrightarrow> length (shortened s h2 t2) \<le> c \<Longrightarrow> h2 + t2 \<le> h1 + t1"
    using truncated [of c s] assms by (metis less_le_trans)
  have "h + t \<le> h1 + t1"
  proof (cases "h + t = 0")
    case False
    let ?H = "fst (split_keep c)" and ?T = "snd (split_keep c)"
    have "max (b - MARKER_RESERVE) MIN_KEEP \<le> max (c - MARKER_RESERVE) MIN_KEEP" using assms(1) by auto
    then have H: "fst (split_keep b) \<le> ?H" "fst (split_keep b) + snd (split_keep b) \<le> ?H + ?T"
      unfolding split_keep_def Let_def fst_conv snd_conv by (rule halves)+
    let ?h = "min (h + t) ?H" and ?t = "h + t - ?H"
    have "on_path ?H ?T ?h ?t" using b(3) H by (auto simp: on_path_def)
    moreover have "length (shortened s ?h ?t) \<le> length (shortened s h t)"
    proof -
      have s: "?h + ?t = h + t" by simp
      have "length (shortened s ?h ?t) = h + t + 33 + digits (length s - (h + t)) + (if ?t > 0 then 1 else 0)"
        using shortened_length [of ?h ?t s] b(2) unfolding s by simp
      moreover have "?t > 0 \<Longrightarrow> t > 0" using b(3) H(1) by (auto simp: on_path_def)
      ultimately show ?thesis using shortened_length [OF b(2)] by auto
    qed
    moreover have "length (shortened s h t) \<le> c" using b(4) assms(1) False by linarith
    ultimately have "?h + ?t \<le> h1 + t1" using c(2) [of ?h ?t] by linarith
    then show ?thesis by linarith
  qed simp
  then show ?thesis by (simp add: b(1) c(1))
qed

lemma truncated_fits:
  assumes "budget < length s" and "54 \<le> budget" and "length s < 10 ^ 7"
  shows "length (fst (truncate_middle s budget)) \<le> budget"
proof -
  obtain h t where h: "truncate_middle s budget = (shortened s h t, int (length s - (h + t)))" "length (shortened s h t) \<le> budget \<or> h + t = 0"
    by (rule truncated [OF assms(1)]) (use assms(2) in \<open>simp, blast\<close>)
  have "Suc 6 = (7 :: nat)" by simp
  then have "digits (length s) \<le> 7" using digits_bound [of "length s" 6] assms(3) by metis
  moreover have "0 < length s" using assms(1) by linarith
  ultimately have "length (shortened s 0 0) \<le> budget" using shortened_length [of 0 0 s] assms by simp
  then show ?thesis using h by auto
qed

text \<open>What the next round omits.\<close>

definition omits :: "string \<Rightarrow> nat \<Rightarrow> nat \<Rightarrow> nat" where
  "omits s budget n = nat (snd (disclosed s budget n))"

lemma roomy:
  assumes "82 + digits (length s) \<le> budget" and "budget < length s" and "n \<le> length s"
  shows "54 \<le> budget - length (budget_disclosure n) - 1" and "budget - length (budget_disclosure n) - 1 < length s"
    and "budget - length (budget_disclosure n) - 1 + 28 + digits n = budget"
  using digits_mono [OF assms(3)] assms(1,2) by (auto simp: disclosure_length)

lemma omits_le:
  assumes "82 + digits (length s) \<le> budget" and "budget < length s" and "n \<le> length s"
  shows "omits s budget n \<le> length s"
proof -
  note r = roomy [OF assms]
  show ?thesis by (rule truncated [OF r(2)]) (use r(1) in \<open>simp, simp add: omits_def disclosed_def\<close>)
qed

lemma omits_mono:
  assumes "82 + digits (length s) \<le> budget" and "budget < length s" and "m \<le> length s" and "n \<le> length s" and "digits m \<le> digits n"
  shows "omits s budget m \<le> omits s budget n"
proof -
  have "budget - length (budget_disclosure n) - 1 \<le> budget - length (budget_disclosure m) - 1"
    using assms(5) by (simp add: disclosure_length)
  then have "snd (disclosed s budget m) \<le> snd (disclosed s budget n)" unfolding disclosed_def
    using roomy [OF assms(1,2,3)] roomy [OF assms(1,2,4)] by (intro truncated_mono) linarith+
  then show ?thesis by (simp add: omits_def)
qed

text \<open>The loop settles within its eight rounds: the number of digits can grow at most six times.\<close>

lemma settle_settles:
  assumes "82 + digits (length s) \<le> budget" and "budget < length s" and "length s < 10 ^ 7"
  shows "\<lbrakk>n = 8 \<and> m = 0 \<or> (\<exists>p\<le>length s. m = omits s budget p \<and> digits p \<le> digits m \<and> 8 \<le> digits p + n)\<rbrakk> \<Longrightarrow>
    \<exists>k\<le>length s. omits s budget k = k \<and>
      settle n s budget m kept = (fst (disclosed s budget k) @ [CHR 0x0A] @ budget_disclosure k, k)"
proof (induction n arbitrary: m kept)
  case 0
  then obtain p where "p \<le> length s" "8 \<le> digits p" by auto
  moreover have "digits (length s) \<le> Suc 6" using assms(3) by (intro digits_bound) (simp only: eval_nat_numeral)
  ultimately show ?case using digits_mono [of p "length s"] by simp
next
  case (Suc n)
  have m: "m \<le> length s" using Suc.prems omits_le [OF assms(1,2)] by auto
  show ?case
  proof (cases "omits s budget m = m")
    case True
    then show ?thesis using m by (intro exI [of _ m]) (auto simp: omits_def Let_def case_prod_beta)
  next
    case False
    have grow: "digits m \<le> digits (omits s budget m) \<and> 8 \<le> digits m + n"
      using Suc.prems
    proof (elim disjE exE conjE)
      assume "Suc n = 8" "m = 0"
      then show ?thesis using digits_mono [of 0 "omits s budget 0"] digits_pos [of 0] by simp
    next
      fix p
      assume p: "p \<le> length s" "m = omits s budget p" "digits p \<le> digits m" "8 \<le> digits p + Suc n"
      have le: "m \<le> omits s budget m" using omits_mono [OF assms(1,2) p(1) m p(3)] p(2) by simp
      have "digits p \<noteq> digits m"
      proof
        assume "digits p = digits m"
        then have "omits s budget m = omits s budget p" using omits_mono [OF assms(1,2) m p(1)] omits_mono [OF assms(1,2) p(1) m] by simp
        with False p(2) show False by simp
      qed
      with p(3,4) digits_mono [OF le] show ?thesis by simp
    qed
    have "\<exists>k\<le>length s. omits s budget k = k \<and> settle n s budget (omits s budget m) (fst (disclosed s budget m)) =
        (fst (disclosed s budget k) @ [CHR 0x0A] @ budget_disclosure k, k)"
      by (rule Suc.IH) (use grow m in blast)
    then show ?thesis using False by (auto simp: omits_def Let_def case_prod_beta)
  qed
qed

text \<open>How much of the text a cut keeps: the whole head, and as much of the tail as fits.\<close>

lemma kept_parts:
  assumes "54 \<le> b" and "b < length s" and "length s < 10 ^ 7"
    and "on_path (fst (split_keep b)) (snd (split_keep b)) h t"
    and best: "\<And>h2 t2. on_path (fst (split_keep b)) (snd (split_keep b)) h2 t2 \<Longrightarrow> length (shortened s h2 t2) \<le> b \<Longrightarrow> h2 + t2 \<le> h + t"
  shows "h = fst (split_keep b)" and "3 \<le> t" and "t \<le> snd (split_keep b)" and "68 \<le> b \<Longrightarrow> t = snd (split_keep b)"
    and "t < snd (split_keep b) \<Longrightarrow> b < h + t + 35 + digits (length s - (h + t + 1))"
proof -
  let ?H = "fst (split_keep b)" and ?T = "snd (split_keep b)"
  have keep: "?H + ?T = max (b - 48) 20" "10 \<le> ?H" "10 \<le> ?T" "\<not> 68 \<le> b \<Longrightarrow> ?H = 10"
    by (auto simp: split_keep_def Let_def MARKER_RESERVE_def MIN_KEEP_def)
  have d: "digits m \<le> 7" if "m \<le> length s" for m
  proof -
    have "Suc 6 = (7 :: nat)" by simp
    then show ?thesis using digits_bound [of m 6] that assms(3) by (metis le_less_trans)
  qed
  have fit: "length (shortened s ?H t2) \<le> b" if "0 < t2" "?H + t2 + 41 \<le> b" for t2
    using shortened_length [of ?H t2 s] d [of "length s - (?H + t2)"] that assms(2) by simp
  have pos: "on_path ?H ?T ?H t2 \<longleftrightarrow> t2 \<le> ?T" for t2 by (simp add: on_path_def)
  have three: "?H + 3 \<le> h + t"
    using best [of ?H 3] fit [of 3] pos [of 3] keep assms(1) by (cases "68 \<le> b") (simp_all split: if_splits)
  then have t: "0 < t" using assms(4) by (auto simp: on_path_def)
  with assms(4) show h: "h = ?H" and le: "t \<le> ?T" by (auto simp: on_path_def)
  from three h show "3 \<le> t" by simp
  show "t = ?T" if "68 \<le> b"
  proof -
    have "?H + ?T + 41 \<le> b" using that keep(1) by (simp add: max_def split: if_splits)
    then have "?H + ?T \<le> h + t" using fit [of ?T] best [of ?H ?T] pos [of ?T] keep(3) by simp
    with h le show ?thesis by simp
  qed
  show "b < h + t + 35 + digits (length s - (h + t + 1))" if "t < ?T"
  proof (rule ccontr)
    assume n: "\<not> ?thesis"
    have "?H + Suc t < length s"
      using that keep(1) assms(1,2) by (simp add: max_def split: if_splits)
    then have "length (shortened s ?H (Suc t)) \<le> b" using n h shortened_length [of ?H "Suc t" s] by simp
    then show False using best [of ?H "Suc t"] pos [of "Suc t"] that h by simp
  qed
qed


lemma long_section: "truncate_with_disclosure (replicate 88 (CHR ''a'')) 87 =
    (replicate 10 (CHR ''a'') @ [CHR 0x0A] @ truncation_marker 68 @ [CHR 0x0A] @ replicate 10 (CHR ''a'') @ [CHR 0x0A] @ budget_disclosure 68, 68)"
  by code_simp


text \<open>The total is a target, not a ceiling: two sections of 21 characters under a total of 20 are both kept or both replaced
  by a longer disclosure, whatever the floating-point share is.\<close>

lemma total_budget_is_no_ceiling:
  "20 < bundle_size (fst (budget_fabric_evidence product (\<lambda>_. replicate 21 (CHR ''a'')) None None
     [(''PE1'', [(''bgp'', JDict []), (''isis'', JDict [])])] None (Some 20)))"
proof -
  have "digits 21 = 2" by code_simp
  moreover have "length (truncation_marker 0) = 33" using marker_length [of 0] by (simp add: show_nat.simps)
  moreover have "20 = Suc 19" by simp
  ultimately show ?thesis
    by (auto simp: budget_fabric_evidence_def budget_device_evidence_def budget_section_def rescale_device_def rescale_section_def
        truncate_with_disclosure_def bundle_size_def env_int_def DEFAULT_PER_INTENT_CHAR_BUDGET_def MIN_KEEP_def disclosure_length Let_def)
qed

end
