(* ===== verification/Reasoning_Gate.thy ===== *)
theory Reasoning_Gate
  imports Event_Identity Descent
begin

section \<open>What a model may ask to look at closer\<close>

text \<open>
  Models \<open>reasoning_gate.py\<close>: the candidates the evidence of a descent names, and the two shapes an answer of
  a model can have.  A refusal is the left side of a sum; evidence that raises gives \<open>None\<close>.
\<close>

subsection \<open>Candidates\<close>

record candidate =
  cd_kind :: string
  cd_id :: json
  cd_device :: string
  cd_key :: string

definition gate_records :: "dict \<Rightarrow> string \<Rightarrow> json list" where
  "gate_records ev key = (case field (field (field (JDict ev) key) ''data'') ''parsed'' of
     JDict p \<Rightarrow> (case dict_get p ''records'' of JList rs \<Rightarrow> rs | _ \<Rightarrow> []) | _ \<Rightarrow> [])"

text \<open>First occurrences, by Python's equality.\<close>

fun dedup_from :: "json list \<Rightarrow> json list \<Rightarrow> json list" where
  "dedup_from seen [] = seen"
| "dedup_from seen (v # vs) = (if list_ex (\<lambda>s. py_eq s v) seen then dedup_from seen vs else dedup_from (seen @ [v]) vs)"

definition named_in :: "dict \<Rightarrow> string \<Rightarrow> string \<Rightarrow> json list option" where
  "named_in ev section name_key = do {
     ds \<leftarrow> map_m as_dict (gate_records ev section);
     Some (dedup_from [] (filter truthy (map (\<lambda>d. dict_get d name_key) ds))) }"

definition candidate_of :: "string \<Rightarrow> string \<Rightarrow> string \<Rightarrow> json \<Rightarrow> candidate" where
  "candidate_of device kind section v = \<lparr>cd_kind = kind, cd_id = v, cd_device = device,
     cd_key = evidence_key device section (Some (py_str v))\<rparr>"

definition candidates_in :: "string \<Rightarrow> dict \<Rightarrow> string \<times> string \<times> string \<Rightarrow> candidate list option" where
  "candidates_in device ev = (\<lambda>(kind, section, name_key). map_option (map (candidate_of device kind section)) (named_in ev section name_key))"

definition CANDIDATE_SECTIONS :: "(string \<times> string \<times> string) list" where
  "CANDIDATE_SECTIONS = [(''interface'', ''interfaces'', ''interface''), (''bgp_peer'', ''bgp'', ''neighbor''),
     (''isis_adjacency'', ''isis'', ''system_id'')]"

definition candidates_from_evidence :: "string \<Rightarrow> dict \<Rightarrow> candidate list option" where
  "candidates_from_evidence device ev = map_option concat (map_m (candidates_in device ev) CANDIDATE_SECTIONS)"

text \<open>\<open>entry.split(", ")\<close>\<close>

fun split_comma :: "string \<Rightarrow> string list" where
  "split_comma [] = [[]]"
| "split_comma [c] = [[c]]"
| "split_comma (c # d # cs) = (if c = CHR '','' \<and> d = CHR '' '' then [] # split_comma cs
     else case split_comma (d # cs) of p # ps \<Rightarrow> (c # p) # ps | [] \<Rightarrow> [[c]])"

definition devices_touched :: "descent_result \<Rightarrow> string list" where
  "devices_touched d = from_keys (filter (\<lambda>n. n \<noteq> []) (map py_strip (concat (map split_comma (dr_device d # map ro_device (dr_outcomes d))))))"

definition candidates_for_descent :: "descent_result \<Rightarrow> (string \<Rightarrow> dict) \<Rightarrow> candidate list option" where
  "candidates_for_descent d evidence_for =
     map_option concat (map_m (\<lambda>device. candidates_from_evidence device (evidence_for device)) (devices_touched d))"

subsection \<open>The answer\<close>

datatype gate_decision = NarrowRequest candidate | Stop string

datatype gate_refusal = NotAnObject | StopWithoutReason | IndexNotInteger | IndexOutOfRange int nat | NoThirdShape

definition parse_decision :: "json \<Rightarrow> candidate list \<Rightarrow> gate_refusal + gate_decision" where
  "parse_decision raw candidates = (case raw of
     JDict d \<Rightarrow>
       if dict_get d ''decision'' = JStr ''stop'' then
         (case dict_get d ''reason'' of
            JStr reason \<Rightarrow> if py_strip reason = [] then Inl StopWithoutReason else Inr (Stop reason)
          | _ \<Rightarrow> Inl StopWithoutReason)
       else if dict_get d ''decision'' = JStr ''narrow'' then
         (case dict_get d ''index'' of
            JInt i \<Rightarrow> if i < 0 \<or> int (length candidates) \<le> i then Inl (IndexOutOfRange i (length candidates))
              else Inr (NarrowRequest (candidates ! nat i))
          | _ \<Rightarrow> Inl IndexNotInteger)
       else Inl NoThirdShape
   | _ \<Rightarrow> Inl NotAnObject)"

text \<open>The texts of the refusals.\<close>

definition refusal_text :: "gate_refusal \<Rightarrow> string" where
  "refusal_text r = (case r of
     NotAnObject \<Rightarrow> ''a gate decision must be a JSON object''
   | StopWithoutReason \<Rightarrow> ''a '' @ repr_str ''stop'' @ '' decision must carry a non-empty '' @ repr_str ''reason''
   | IndexNotInteger \<Rightarrow> ''a '' @ repr_str ''narrow'' @ '' decision must carry an integer '' @ repr_str ''index''
   | IndexOutOfRange i n \<Rightarrow> ''index '' @ show_int i @ '' is out of range for '' @ show_nat n @ '' enumerated '' @
       ''candidate(s); a narrowing target may only be one code already '' @ ''offered''
   | NoThirdShape \<Rightarrow> ''decision must be '' @ repr_str ''narrow'' @ '' or '' @ repr_str ''stop'' @ ''; no third shape parses'')"

subsection \<open>The shadow of a narrowing pass\<close>

datatype narrowing_mode = NarrowingOff | NarrowingShadow

record shadow_record =
  sh_mode :: narrowing_mode
  sh_candidates :: "candidate list"
  sh_decision :: "gate_decision option"
  sh_refusal :: "string option"

definition shadow_decision ::
  "descent_result \<Rightarrow> (string \<Rightarrow> dict) \<Rightarrow> json option \<Rightarrow> narrowing_mode \<Rightarrow> shadow_record option" where
  "shadow_decision d evidence_for raw mode =
     (if mode = NarrowingOff then Some \<lparr>sh_mode = mode, sh_candidates = [], sh_decision = None, sh_refusal = None\<rparr>
      else if dr_finding d \<noteq> ''cause_not_localised''
      then Some \<lparr>sh_mode = mode, sh_candidates = [], sh_decision = None, sh_refusal = Some ''finding is not eligible for narrowing''\<rparr>
      else do {
        cs \<leftarrow> candidates_for_descent d evidence_for;
        if cs = [] then Some \<lparr>sh_mode = mode, sh_candidates = [], sh_decision = None, sh_refusal = Some ''no observed candidates are available''\<rparr>
        else (case raw of
            None \<Rightarrow> Some \<lparr>sh_mode = mode, sh_candidates = cs, sh_decision = None, sh_refusal = Some ''no gate decision was supplied''\<rparr>
          | Some v \<Rightarrow> (case parse_decision v cs of
              Inl e \<Rightarrow> Some \<lparr>sh_mode = mode, sh_candidates = cs, sh_decision = None, sh_refusal = Some (refusal_text e)\<rparr>
            | Inr g \<Rightarrow> Some \<lparr>sh_mode = mode, sh_candidates = cs, sh_decision = Some g, sh_refusal = None\<rparr>)) })"

text \<open>The equality of two candidates, and \<open>list.index\<close>: the target is one of the list.\<close>

definition same_candidate :: "candidate \<Rightarrow> candidate \<Rightarrow> bool" where
  "same_candidate a b \<longleftrightarrow> cd_kind a = cd_kind b \<and> py_eq (cd_id a) (cd_id b) \<and> cd_device a = cd_device b \<and> cd_key a = cd_key b"

fun first_index :: "candidate list \<Rightarrow> candidate \<Rightarrow> nat option" where
  "first_index [] c = None"
| "first_index (x # xs) c = (if same_candidate x c then Some 0 else map_option Suc (first_index xs c))"

definition candidate_dict :: "candidate \<Rightarrow> json" where
  "candidate_dict c = JDict [(''kind'', JStr (cd_kind c)), (''id'', cd_id c), (''device'', JStr (cd_device c)), (''evidence_key'', JStr (cd_key c))]"

definition decision_json :: "candidate list \<Rightarrow> gate_decision option \<Rightarrow> json option" where
  "decision_json cs g = (case g of
     None \<Rightarrow> Some JNull
   | Some (Stop _) \<Rightarrow> Some (JDict [(''kind'', JStr ''stop'')])
   | Some (NarrowRequest c) \<Rightarrow> map_option (\<lambda>i. JDict [(''kind'', JStr ''narrow''), (''index'', JInt (int i)), (''target'', candidate_dict c)])
       (first_index cs c))"

definition shadow_payload :: "shadow_record \<Rightarrow> dict option" where
  "shadow_payload r = map_option (\<lambda>g. [
     (''mode'', JStr (if sh_mode r = NarrowingOff then ''off'' else ''shadow'')), (''active'', JBool False),
     (''candidates'', JList (map candidate_dict (sh_candidates r))), (''decision'', g),
     (''refusal'', case sh_refusal r of Some t \<Rightarrow> JStr t | None \<Rightarrow> JNull)]) (decision_json (sh_candidates r) (sh_decision r))"

section \<open>A model may only point\<close>

definition observed_in :: "dict \<Rightarrow> candidate \<Rightarrow> bool" where
  "observed_in ev c \<longleftrightarrow> (\<exists>(kind, section, name_key)\<in>set CANDIDATE_SECTIONS. cd_kind c = kind \<and> truthy (cd_id c) \<and>
     cd_key c = evidence_key (cd_device c) section (Some (py_str (cd_id c))) \<and>
     cd_id c \<in> (\<lambda>r. field r name_key) ` set (gate_records ev section))"

lemma set_dedup_from: "set (dedup_from seen vs) \<subseteq> set seen \<union> set vs"
proof (induction vs arbitrary: seen)
  case (Cons v vs)
  then show ?case using Cons.IH [of seen] Cons.IH [of "seen @ [v]"] by auto
qed simp

lemma dedup_from_apart: "sorted_wrt (\<lambda>a b. \<not> py_eq a b) seen \<Longrightarrow> sorted_wrt (\<lambda>a b. \<not> py_eq a b) (dedup_from seen vs)"
  by (induction vs arbitrary: seen) (auto simp: sorted_wrt_append list_ex_iff)

lemma named_in_mem:
  assumes "named_in ev section name_key = Some ns"
  shows "set ns \<subseteq> {v. truthy v \<and> v \<in> (\<lambda>r. field r name_key) ` set (gate_records ev section)}" and "sorted_wrt (\<lambda>a b. \<not> py_eq a b) ns"
proof -
  obtain ds where ds: "map_m as_dict (gate_records ev section) = Some ds"
    "ns = dedup_from [] (filter truthy (map (\<lambda>d. dict_get d name_key) ds))"
    using assms by (auto simp: named_in_def bind_Some_iff)
  have "gate_records ev section = map JDict ds" using ds(1)
    by (auto simp: map_m_Some_conv list_all2_conv_all_nth intro: nth_equalityI)
  then show "set ns \<subseteq> {v. truthy v \<and> v \<in> (\<lambda>r. field r name_key) ` set (gate_records ev section)}"
    using set_dedup_from [of "[]" "filter truthy (map (\<lambda>d. dict_get d name_key) ds)"] ds(2) by (fastforce simp: image_image)
  show "sorted_wrt (\<lambda>a b. \<not> py_eq a b) ns" unfolding ds(2) by (rule dedup_from_apart) simp
qed

lemma sorted_wrt_concat:
  "(\<And>xs. xs \<in> set xss \<Longrightarrow> sorted_wrt r xs) \<Longrightarrow> sorted_wrt (\<lambda>xs ys. \<forall>x\<in>set xs. \<forall>y\<in>set ys. r x y) xss \<Longrightarrow> sorted_wrt r (concat xss)"
  by (induction xss) (auto simp: sorted_wrt_append)

lemma named_is_observed:
  assumes "named_in ev sec name_key = Some ns" and "(kind, sec, name_key) \<in> set CANDIDATE_SECTIONS" and "v \<in> set ns"
  shows "observed_in ev (candidate_of device kind sec v)"
proof -
  have "truthy v \<and> v \<in> (\<lambda>r. field r name_key) ` set (gate_records ev sec)" using named_in_mem(1) [OF assms(1)] assms(3) by blast
  then show ?thesis unfolding observed_in_def candidate_of_def by (intro bexI [OF _ assms(2)]) simp
qed

lemma candidates_from_evidence_mem:
  assumes "candidates_from_evidence device ev = Some cs"
  shows "\<forall>c\<in>set cs. cd_device c = device \<and> observed_in ev c" and "sorted_wrt (\<lambda>a b. \<not> same_candidate a b) cs"
proof -
  obtain a b c where n: "named_in ev ''interfaces'' ''interface'' = Some a" "named_in ev ''bgp'' ''neighbor'' = Some b"
    "named_in ev ''isis'' ''system_id'' = Some c"
    and cs: "cs = map (candidate_of device ''interface'' ''interfaces'') a @ map (candidate_of device ''bgp_peer'' ''bgp'') b @
      map (candidate_of device ''isis_adjacency'' ''isis'') c"
    using assms by (auto simp: candidates_from_evidence_def CANDIDATE_SECTIONS_def candidates_in_def bind_Some_iff)
  have "(''interface'', ''interfaces'', ''interface'') \<in> set CANDIDATE_SECTIONS" "(''bgp_peer'', ''bgp'', ''neighbor'') \<in> set CANDIDATE_SECTIONS"
    "(''isis_adjacency'', ''isis'', ''system_id'') \<in> set CANDIDATE_SECTIONS" by (simp_all add: CANDIDATE_SECTIONS_def)
  note observed = named_is_observed [OF n(1) this(1)] named_is_observed [OF n(2) this(2)] named_is_observed [OF n(3) this(3)]
  show "\<forall>c\<in>set cs. cd_device c = device \<and> observed_in ev c"
    unfolding cs using observed by (auto simp: candidate_of_def)
  have part: "sorted_wrt (\<lambda>a b. \<not> same_candidate a b) (map (candidate_of device kind sec) ns)"
    if "sorted_wrt (\<lambda>a b. \<not> py_eq a b) ns" for kind sec ns
    unfolding sorted_wrt_map by (rule sorted_wrt_mono_rel [OF _ that]) (simp add: same_candidate_def candidate_of_def)
  have "\<not> same_candidate (candidate_of device k x v) (candidate_of device l y w)" if "k \<noteq> l" for k l x y v w
    using that by (simp add: same_candidate_def candidate_of_def)
  then show "sorted_wrt (\<lambda>a b. \<not> same_candidate a b) cs"
    unfolding cs sorted_wrt_append using part [OF named_in_mem(2) [OF n(1)]] part [OF named_in_mem(2) [OF n(2)]] part [OF named_in_mem(2) [OF n(3)]]
    by auto
qed

lemma candidates_for_descent_mem:
  assumes "candidates_for_descent d evidence_for = Some cs"
  shows "\<forall>c\<in>set cs. cd_device c \<in> set (devices_touched d) \<and> observed_in (evidence_for (cd_device c)) c"
    and "sorted_wrt (\<lambda>a b. \<not> same_candidate a b) cs"
proof -
  obtain css where css: "list_all2 (\<lambda>device xs. candidates_from_evidence device (evidence_for device) = Some xs) (devices_touched d) css"
    "cs = concat css"
    using assms by (auto simp: candidates_for_descent_def map_m_Some_conv)
  have each: "i < length css \<Longrightarrow> candidates_from_evidence (devices_touched d ! i) (evidence_for (devices_touched d ! i)) = Some (css ! i)"
    and len: "length css = length (devices_touched d)" for i using css(1) by (auto simp: list_all2_conv_all_nth)
  note mem = candidates_from_evidence_mem [OF each]
  show "\<forall>c\<in>set cs. cd_device c \<in> set (devices_touched d) \<and> observed_in (evidence_for (cd_device c)) c"
    using mem(1) len by (fastforce simp: css(2) in_set_conv_nth [of _ css])
  show "sorted_wrt (\<lambda>a b. \<not> same_candidate a b) cs" unfolding css(2)
  proof (rule sorted_wrt_concat)
    show "sorted_wrt (\<lambda>a b. \<not> same_candidate a b) xs" if "xs \<in> set css" for xs using mem(2) that by (auto simp: in_set_conv_nth)
    have "devices_touched d ! i \<noteq> devices_touched d ! j" if "i < j" "j < length css" for i j
      using that len distinct_from_keys by (simp add: devices_touched_def nth_eq_iff_index_eq)
    then show "sorted_wrt (\<lambda>xs ys. \<forall>x\<in>set xs. \<forall>y\<in>set ys. \<not> same_candidate x y) css"
      using mem(1) unfolding sorted_wrt_iff_nth_less same_candidate_def by (metis order_less_trans)
  qed
qed

lemma first_index_nth:
  assumes "sorted_wrt (\<lambda>a b. \<not> same_candidate a b) cs" and "i < length cs" and "same_candidate (cs ! i) (cs ! i)"
  shows "first_index cs (cs ! i) = Some i"
  using assms
proof (induction cs arbitrary: i)
  case (Cons c cs)
  then show ?case by (cases i) auto
qed simp

text \<open>C28: A model may only point at what was observed.  A recorded narrowing exists only for a descent whose cause is not
  localised; its target is the candidate at the index the model gave, on a device the descent opened, named by that device's
  own evidence and citing it; the payload repeats exactly that index, is never active, and is the same whatever
  text a stop carries.\<close>

theorem narrowing_points_at_observations:
  assumes "shadow_decision d evidence_for raw mode = Some r" and "sh_decision r = Some (NarrowRequest c)"
    and "same_candidate c c"
  shows "mode = NarrowingShadow \<and> dr_finding d = ''cause_not_localised'' \<and>
    candidates_for_descent d evidence_for = Some (sh_candidates r) \<and>
    (\<exists>fields i. raw = Some (JDict fields) \<and> dict_get fields ''decision'' = JStr ''narrow'' \<and> dict_get fields ''index'' = JInt (int i) \<and>
      i < length (sh_candidates r) \<and> c = sh_candidates r ! i \<and>
      cd_device c \<in> set (devices_touched d) \<and> observed_in (evidence_for (cd_device c)) c \<and>
      (\<exists>p. shadow_payload r = Some p \<and> dict_get p ''active'' = JBool False \<and> field (dict_get p ''decision'') ''index'' = JInt (int i))) \<and>
    shadow_payload (r\<lparr>sh_decision := Some (Stop a)\<rparr>) = shadow_payload (r\<lparr>sh_decision := Some (Stop b)\<rparr>)"
proof -
  from assms(1,2) obtain cs v where cs: "mode \<noteq> NarrowingOff" "dr_finding d = ''cause_not_localised''" "candidates_for_descent d evidence_for = Some cs"
    "raw = Some v" "parse_decision v cs = Inr (NarrowRequest c)" "sh_candidates r = cs"
    by (auto simp: shadow_decision_def bind_Some_iff split: if_splits option.splits sum.splits)
  from cs(5) obtain fields i where f: "v = JDict fields" "dict_get fields ''decision'' = JStr ''narrow''" "dict_get fields ''index'' = JInt i"
    "0 \<le> i" "i < int (length cs)" "c = cs ! nat i"
    by (auto simp: parse_decision_def split: json.splits if_splits)
  then have n: "nat i < length cs" "JInt i = JInt (int (nat i))" by auto
  note mem = candidates_for_descent_mem [OF cs(3)]
  have "c \<in> set cs" using f(6) n(1) by simp
  with mem(1) have observed: "cd_device c \<in> set (devices_touched d) \<and> observed_in (evidence_for (cd_device c)) c" by blast
  have "first_index cs c = Some (nat i)" using first_index_nth [OF mem(2) n(1)] assms(3) f(6) by simp
  then have j: "decision_json cs (sh_decision r) = Some (JDict [(''kind'', JStr ''narrow''), (''index'', JInt (int (nat i))), (''target'', candidate_dict c)])"
    by (simp add: decision_json_def assms(2))
  have payload: "\<exists>p. shadow_payload r = Some p \<and> dict_get p ''active'' = JBool False \<and> field (dict_get p ''decision'') ''index'' = JInt (int (nat i))"
    unfolding shadow_payload_def cs(6) j by (simp add: dict_get_or_def)
  have inner: "\<exists>fields i. raw = Some (JDict fields) \<and> dict_get fields ''decision'' = JStr ''narrow'' \<and> dict_get fields ''index'' = JInt (int i) \<and>
      i < length cs \<and> c = cs ! i \<and> cd_device c \<in> set (devices_touched d) \<and> observed_in (evidence_for (cd_device c)) c \<and>
      (\<exists>p. shadow_payload r = Some p \<and> dict_get p ''active'' = JBool False \<and> field (dict_get p ''decision'') ''index'' = JInt (int i))"
  proof (rule exI [of _ fields], rule exI [of _ "nat i"], intro conjI)
    show "raw = Some (JDict fields)" "dict_get fields ''index'' = JInt (int (nat i))" using cs(4) f(1,3) n(2) by simp_all
  qed (use f(2,6) n(1) observed payload in blast)+
  have "mode = NarrowingShadow" using cs(1) by (cases mode) auto
  moreover have "shadow_payload (r\<lparr>sh_decision := Some (Stop a)\<rparr>) = shadow_payload (r\<lparr>sh_decision := Some (Stop b)\<rparr>)"
    by (simp add: shadow_payload_def decision_json_def)
  ultimately show ?thesis unfolding cs(6) using cs(2,3) inner by (intro conjI)
qed

subsection \<open>A closed example\<close>

definition unlocalised :: descent_result where
  "unlocalised = \<lparr>dr_flow = ''bgp_session'', dr_device = ''PE1'', dr_subject = ''10.0.0.9'', dr_finding = ''cause_not_localised'',
     dr_outcomes = [], dr_evidence_keys = [], dr_reason = None, dr_coherence = None\<rparr>"

definition two_ports :: dict where
  "two_ports = [(''interfaces'', parsed_section [interface_record ''Gi0'' ''Up'' ''Up'', interface_record ''Gi1'' ''Up'' ''Down''] [])]"

definition port_candidate :: "string \<Rightarrow> candidate" where
  "port_candidate name = candidate_of ''PE1'' ''interface'' ''interfaces'' (JStr name)"

definition pointed :: shadow_record where
  "pointed = \<lparr>sh_mode = NarrowingShadow, sh_candidates = [port_candidate ''Gi0'', port_candidate ''Gi1''],
     sh_decision = Some (NarrowRequest (port_candidate ''Gi1'')), sh_refusal = None\<rparr>"

lemma second_port: "shadow_decision unlocalised (\<lambda>_. two_ports)
    (Some (JDict [(''decision'', JStr ''narrow''), (''index'', JInt 1), (''target'', JStr ''Gi9'')])) NarrowingShadow = Some pointed"
  by code_simp

theorem narrowing_witness:
  "port_candidate ''Gi1'' = sh_candidates pointed ! 1 \<and> observed_in two_ports (port_candidate ''Gi1'') \<and>
   (\<exists>p. shadow_payload pointed = Some p \<and> dict_get p ''active'' = JBool False \<and> field (dict_get p ''decision'') ''index'' = JInt 1)"
proof -
  have "sh_decision pointed = Some (NarrowRequest (port_candidate ''Gi1''))" by (simp add: pointed_def)
  moreover have "same_candidate (port_candidate ''Gi1'') (port_candidate ''Gi1'')" by (simp add: same_candidate_def port_candidate_def candidate_of_def)
  ultimately show ?thesis using narrowing_points_at_observations [OF second_port] by (auto simp: dict_get_or_def pointed_def)
qed

end
