(* ===== verification/Spec2Isabelle.thy ===== *)
theory Spec2Isabelle
  imports Py_Prelude Interface_Kind Check_Result Session_Checks Neighbor_Checks Interface_Checks
    Flows Coherence Descent Ladder Epoch Health Silences Store_Machine
    Admission_Budget Procedures Relay Event_Intake Event_Agent Event_Worker
    Log_Window Grounding Config_Diff Correlation
    Topology Fabric_Audit Flow_Selection Evidence_Budget Reasoning_Gate
begin

text \<open>
  \<^bold>\<open>A verification library for the deterministic core of \<open>agent_nettools\<close>\<close>

  The program diagnoses a routed network without changing it.  Its core is deterministic Python
  under \<open>src/src/agent_nettools/\<close>: a \<^emph>\<open>flow\<close> declares a ladder of rungs, each rung has a check over
  parsed evidence, the walker descends the ladder until a rung could not be read and names the
  lowest broken one, and an evidence epoch collects what the walk needs in one window and reads
  the symptom and the proposed cause again before a causal claim is made.  Beside it, ten health
  rules turn the evidence of a device into a verdict and a severity.  Around this core an event store
  keeps what a worker may investigate: events with leases and retries, an outbox of notifications,
  incidents, approvals and retention, in one SQLite file that several processes share.  An alert or a
  log line enters as an event, is routed by closed tables to a device, a flow and a subject, and an
  agent with a language model in it investigates within pinned arguments and fixed budgets; admission
  control limits what all processes together ask of the devices, and a relay tells the owners.

  \<^bold>\<open>Theories.\<close>
  \<^item> \<open>Py_Prelude\<close>: the part of Python's values the program uses, as the type \<open>json\<close>: truth, \<open>str\<close> and
    \<open>repr\<close>, \<open>int()\<close> of a string, \<open>dict.get\<close>, iteration; options stand for an exception raised
    (\<open>None\<close>), and \<open>map_m\<close>, \<open>filter_m\<close>, \<open>find_m\<close>, \<open>any_m\<close> are comprehensions whose body may raise.
  \<^item> \<open>Interface_Kind\<close> (\<open>interface_kind.py\<close>): prefix tables, \<open>classify\<close>, \<open>canonical\<close>, \<open>same_interface\<close>.
  \<^item> \<open>Check_Result\<close> (\<open>checks.py\<close>): the verdict record with the checks of its constructor, evidence
    keys, \<open>require_parsed\<close>.  The locale \<open>rung_check\<close> is the contract the walker relies on: a verdict
    other than unevaluated cites evidence, it only comes from a section that parsed, and the check
    does not raise on well-formed evidence.  Every check interprets it.
  \<^item> \<open>Session_Checks\<close>, \<open>Neighbor_Checks\<close>, \<open>Interface_Checks\<close> (\<open>checks.py\<close>): the checks, each with its
    decision table on the parsed sections.
  \<^item> \<open>Flows\<close> (\<open>flows.py\<close>): enums, collect steps, rungs, flows and the registry.
  \<^item> \<open>Descent\<close> and \<open>Ladder\<close> (\<open>descent.py\<close>): device and subject resolution, aggregation, the walk, the
    finding; the locale \<open>ladder\<close> holds the lemmas about a walk over rungs that keep the contract and
    is interpreted on each registered flow.  The abstract specification is \<open>walk_shape\<close> with
    \<open>finding_spec\<close>.
  \<^item> \<open>Coherence\<close> and \<open>Epoch\<close> (\<open>epoch.py\<close>): the coherence verdict, plan, template calls, collection with
    an abstract clock and device access (record \<open>fabric\<close>), and the re-read.
  \<^item> \<open>Health\<close> (health part of \<open>checks.py\<close>): severities, rules, device and fabric verdicts.
  \<^item> \<open>Event_Identity\<close> (\<open>event_identity.py\<close>): Python equality of JSON values, what a payload reads back
    as, and the fields that may change when an event is seen again.
  \<^item> \<open>Store_Tables\<close>, \<open>Event_Store\<close>, \<open>Outbox\<close>, \<open>Incidents\<close>, \<open>Store_Records\<close> (\<open>event_store.py\<close>,
    \<open>incident_case.py\<close>): one record per table and the record \<open>store\<close> of all tables; every method that
    opens a transaction is a function from the tables to an error or a result with the new tables.
    An error leaves the tables as they were, as the rollback does.
  \<^item> \<open>Fencing\<close>: the locale \<open>leased_table\<close>, the contract of rows with an owner, an expiry and an epoch;
    \<open>Event_Lifecycle\<close> interprets it on events and \<open>Outbox\<close> on deliveries.  \<open>Event_Lifecycle\<close> also holds
    the row steps and the invariant of the event tables, \<open>Event_Recovery\<close> the promises to workers.
  \<^item> \<open>Store_Machine\<close>: every operation as one step, the databases they reach, the invariant of the whole
    database, retention and approvals.

  \<^item> \<open>Admission_Slots\<close>, \<open>Admission_Budget\<close> (\<open>admission.py\<close>): lock-file semaphores as a system of
    processes, and the rate limits.  The locale \<open>rate_gate\<close> is the contract of a log of granted calls;
    the probe budget and the event runs interpret it.
  \<^item> \<open>Procedures\<close> (\<open>procedure_registry.py\<close>, \<open>procedure_workflow.py\<close>): proposals, approvals and
    simulation, over the approvals table.
  \<^item> \<open>Silences\<close> (silences of \<open>health.py\<close>), \<open>Ownership\<close> (\<open>ownership.py\<close>), \<open>Relay\<close> (\<open>relay_policy.py\<close>,
    \<open>notifier.py\<close>): which findings are muted, who owns one, and whether a page is sent; \<open>Py_Text\<close> has
    the string operations they share.
  \<^item> \<open>Event_Routing\<close> (\<open>iosxr_syslog.py\<close>, \<open>event_routing.py\<close>): the grammar of a log line as a
    backtracking matcher (the list of all ways to match), extraction, the routing tables, every router.
  \<^item> \<open>Event_Intake\<close> (\<open>event_envelope.py\<close>, \<open>event_receiver.py\<close>): envelopes and the receiver, over the store.
  \<^item> \<open>Investigation\<close> (\<open>investigation.py\<close>, \<open>render.py\<close>): one investigation without an analyst, its report
    and its payload, over collection, walk and coherence; \<open>Receipts\<close> (\<open>event_reporting.py\<close>) reads that
    payload back.
  \<^item> \<open>Model_Ingress\<close> (\<open>model_ingress.py\<close>): which tools a model is offered and what its arguments may be.
  \<^item> \<open>Event_Agent\<close> (\<open>trigger_table.py\<close>, \<open>event_agent.py\<close>): the trigger table, the context of an event and
    the loop of model turns and tool calls.
  \<^item> \<open>Event_Worker\<close> (\<open>event_agent.py\<close>, \<open>event_receiver.py\<close>, \<open>recovery_service.py\<close>): the run of an event
    around that loop, the worker that claims due events and the recovery sweep, over the store; what
    other processes commit between two transactions is part of the host.
  \<^item> \<open>Log_Window\<close> (\<open>coverage.py\<close>, \<open>log_window.py\<close>, \<open>log_episodes.py\<close>): what a collector saw, the window of
    log entries before an anchor (the missing year included), its counts and rates, and the sessions
    that went down and came back.
  \<^item> \<open>Grounding\<close> (\<open>grounding.py\<close>): the gate a model's report, correlation or advice passes before it is
    emitted, over the report of \<open>Investigation\<close> and the coverage of \<open>Log_Window\<close>.
  \<^item> \<open>Config_Diff\<close> (\<open>config_diff.py\<close>) and \<open>Correlation\<close> (\<open>incident_correlation.py\<close>): the differences between
    two configurations, and the grouping of events into incidents with one asserted cause.
  \<^item> \<open>Topology\<close> (\<open>topology.py\<close>): links whose two ends disagree, and the neighbourhood of a subject, grown
    hop by hop; \<open>Fabric_Audit\<close> (\<open>audit.py\<close>): the rules that judge the fabric against itself.
  \<^item> \<open>Flow_Selection\<close> (\<open>flow_selection.py\<close>): a sentence becomes a flow, a device and a subject, or nothing.
  \<^item> \<open>Evidence_Budget\<close> (\<open>evidence_budget.py\<close>): what of the evidence is sent to a model, and what is said of
    the rest; \<open>Reasoning_Gate\<close> (\<open>reasoning_gate.py\<close>, \<open>narrowing_pass.py\<close>): the candidates a model may point at.

  \<^bold>\<open>Conventions.\<close>  A raised exception the caller does not catch is \<open>None\<close>; a \<open>ValueError\<close> the caller
  turns into a result is the left side of a sum.  A dictionary is an association list in insertion
  order.  Times are integers; a clock is a function from the number of readings taken so far.
  An instant in the store is an integer count of microseconds: the code compares ISO texts in SQL and
  instants in Python, which agree when all texts carry the same offset, as the UTC texts the store's
  own clock writes do.  The clock reading and a new incident's uuid are arguments of the operation, and a
  transaction (\<open>BEGIN IMMEDIATE\<close>) is one step, so any interleaving of processes is a sequence of steps.
  Everything is executable and every loop is structural or, as the loop of the agent, counts down a
  bound of the code itself (\<open>max_iterations\<close>), so no fuel is used.

  \<^bold>\<open>Parameters.\<close>  What reads a device (\<open>collector\<close>, \<open>fabric\<close>) and what maps a subject to devices
  (\<open>resolver\<close>) are arguments.  The predicate \<open>wf_evidence\<close> states the shape the collector's parsers
  give a section; totality theorems assume it, and their witnesses use evidence that has it.  Also
  arguments: hashes and keyed hashes, the reader and writer of ISO times, the YAML value of a file, the
  JSON reader of a stored text, a delivery provider's answers, the wording of some reasons, the order in
  which a set is walked, the rendering of an evidence section and its share of a budget, and for
  the agent an unknown world that answers and changes with every model turn and tool call.

  \<^bold>\<open>Not modelled.\<close>  Log lines, metrics and serialisation; the text scrapers that produce parsed
  sections; SSH, HTTP and files; SQLite's own failures, schema upgrades of an older database and the
  backup that compaction writes; prompts and the answers of a model (arguments here); the message
  texts of providers, tickets and cards; the command line and the MCP transport.
\<close>

end
